(* ===== verification/Prelude.thy ===== *)
theory Prelude
  imports Complex_Main "HOL-Library.AList" "HOL-Library.Word"
begin

text \<open>
  Shared vocabulary of the development: the JavaScript primitives the TypeScript code uses
  (insertion-ordered \<^verbatim>\<open>Map\<close> objects, numbers, strings and their standard methods), the result
  type for operations that may throw, and the generic lemmas every component relies on.

  Strings are lists of code units restricted to the range 0 to 255 (Isabelle's \<^typ>\<open>char\<close>), so
  \<^verbatim>\<open>String.prototype.length\<close> is \<^const>\<open>length\<close>; \<^verbatim>\<open>trim\<close>, \<^verbatim>\<open>toLowerCase\<close> and
  \<^verbatim>\<open>encodeURIComponent\<close> are the standard's on that range.  A \<^verbatim>\<open>Map\<close> is an association list
  in insertion order: \<^verbatim>\<open>set\<close> on a present key keeps its position, as in the language.
\<close>

section \<open>Collections of facts\<close>

named_theorems js_simps \<open>unfolding rules for the JavaScript primitives\<close>
named_theorems guard_simps \<open>unfolding rules for validation predicates\<close>
named_theorems inv_intros \<open>preservation lemmas of component invariants\<close>

section \<open>Results of code that may throw\<close>

type_synonym ('e, 'a) result = "'e + 'a"

definition is_ok :: "('e, 'a) result \<Rightarrow> bool" where
  "is_ok r = (case r of Inl _ \<Rightarrow> False | Inr _ \<Rightarrow> True)"

definition bind_result :: "('e, 'a) result \<Rightarrow> ('a \<Rightarrow> ('e, 'b) result) \<Rightarrow> ('e, 'b) result" where
  "bind_result r f = (case r of Inl e \<Rightarrow> Inl e | Inr a \<Rightarrow> f a)"

definition require :: "bool \<Rightarrow> 'e \<Rightarrow> ('e, unit) result" where
  "require b e = (if b then Inr () else Inl e)"

lemma is_ok_simps [simp]: "is_ok (Inr a)" "\<not> is_ok (Inl e)"
  by (simp_all add: is_ok_def)

lemma is_ok_iff: "is_ok r \<longleftrightarrow> (\<exists>a. r = Inr a)"
  by (cases r) simp_all

lemma bind_result_simps [simp]:
  "bind_result (Inl e) f = Inl e" "bind_result (Inr a) f = f a"
  by (simp_all add: bind_result_def)

lemma bind_result_Inr:
  "bind_result r f = Inr b \<longleftrightarrow> (\<exists>a. r = Inr a \<and> f a = Inr b)"
  by (cases r) simp_all

lemma bind_result_Inl:
  "bind_result r f = Inl e \<longleftrightarrow> r = Inl e \<or> (\<exists>a. r = Inr a \<and> f a = Inl e)"
  by (cases r) simp_all

lemma require_simps [simp]:
  "require b e = Inr u \<longleftrightarrow> b" "require b e = Inl e' \<longleftrightarrow> \<not> b \<and> e' = e"
  by (auto simp: require_def)

section \<open>Insertion-ordered maps\<close>

text \<open>The interface the code uses of \<^verbatim>\<open>Map\<close>: \<^verbatim>\<open>get\<close>, \<^verbatim>\<open>set\<close>, \<^verbatim>\<open>delete\<close> and \<^verbatim>\<open>size\<close>.\<close>

type_synonym ('k, 'v) omap = "('k \<times> 'v) list"

abbreviation mget :: "('k, 'v) omap \<Rightarrow> 'k \<Rightarrow> 'v option" where
  "mget m k \<equiv> map_of m k"

abbreviation mput :: "'k \<Rightarrow> 'v \<Rightarrow> ('k, 'v) omap \<Rightarrow> ('k, 'v) omap" where
  "mput k v m \<equiv> AList.update k v m"

abbreviation mdel :: "'k \<Rightarrow> ('k, 'v) omap \<Rightarrow> ('k, 'v) omap" where
  "mdel k m \<equiv> AList.delete k m"

abbreviation mvalues :: "('k, 'v) omap \<Rightarrow> 'v list" where
  "mvalues m \<equiv> map snd m"

abbreviation mkeys_distinct :: "('k, 'v) omap \<Rightarrow> bool" where
  "mkeys_distinct m \<equiv> distinct (map fst m)"

locale js_map =
  fixes empty :: "'m"
    and get :: "'m \<Rightarrow> 'k \<Rightarrow> 'v option"
    and set_entry :: "'k \<Rightarrow> 'v \<Rightarrow> 'm \<Rightarrow> 'm"
    and delete_entry :: "'k \<Rightarrow> 'm \<Rightarrow> 'm"
    and size_of :: "'m \<Rightarrow> nat"
    and proper :: "'m \<Rightarrow> bool"
  assumes get_empty: "get empty k = None"
    and get_set: "get (set_entry k v m) k' = (if k' = k then Some v else get m k')"
    and get_delete: "get (delete_entry k m) k' = (if k' = k then None else get m k')"
    and size_set: "size_of (set_entry k v m) \<le> Suc (size_of m)"
    and size_set_present: "get m k \<noteq> None \<Longrightarrow> size_of (set_entry k v m) = size_of m"
    and size_delete: "size_of (delete_entry k m) \<le> size_of m"
    and proper_empty: "proper empty"
    and proper_set: "proper m \<Longrightarrow> proper (set_entry k v m)"
    and proper_delete: "proper m \<Longrightarrow> proper (delete_entry k m)"
begin

lemma set_then_delete: "get (delete_entry k (set_entry k v m)) k' = get (delete_entry k m) k'"
  by (simp add: get_set get_delete)

lemma set_twice: "get (set_entry k v (set_entry k w m)) k' = get (set_entry k v m) k'"
  by (simp add: get_set)

lemma bounded_insert: "size_of m < n \<Longrightarrow> size_of (set_entry k v m) \<le> n"
  using size_set [of k v m] by linarith

end

lemma length_update_present: "k \<in> fst ` set m \<Longrightarrow> length (AList.update k v m) = length m"
  by (induction m) auto

lemma length_update_le: "length (AList.update k v m) \<le> Suc (length m)"
  by (induction m) auto

interpretation om: js_map "[]" map_of AList.update AList.delete length mkeys_distinct
proof unfold_locales
  fix m :: "('a, 'b) omap" and k v
  assume "map_of m k \<noteq> None"
  then show "length (AList.update k v m) = length m"
    by (intro length_update_present) (auto simp: map_of_eq_None_iff)
next
  fix m :: "('a, 'b) omap" and k k' v
  show "map_of (AList.update k v m) k' = (if k' = k then Some v else map_of m k')"
    by (simp add: update_conv)
  show "map_of (AList.delete k m) k' = (if k' = k then None else map_of m k')"
    by (simp add: delete_conv)
qed (simp_all add: length_update_le length_delete_le distinct_update distinct_delete)

lemmas omap_simps [simp] = om.get_set om.get_delete

lemma set_delete_subset: "set (AList.delete k m) \<subseteq> set m"
  by (induction m) auto

lemma set_update_subset: "set (AList.update k v m) \<subseteq> insert (k, v) (set m)"
  by (induction m) auto

lemma map_of_filter_keys:
  "map_of (filter (\<lambda>(k, v). P k) m) k = (if P k then map_of m k else None)"
  by (induction m) auto

lemma map_of_filter_distinct:
  assumes "mkeys_distinct m"
  shows "map_of (filter P m) k = (case map_of m k of None \<Rightarrow> None
    | Some v \<Rightarrow> if P (k, v) then Some v else None)"
  using assms
proof (induction m)
  case (Cons p m)
  obtain a b where p: "p = (a, b)" by (cases p)
  with Cons show ?case
    by (auto split: option.splits simp: map_of_eq_None_iff rev_image_eqI)
qed simp

lemma map_of_filter_update:
  "P (k, v) \<Longrightarrow> map_of (filter P (AList.update k v m)) k = Some v"
  by (induction m) auto

lemma mkeys_distinct_filter: "mkeys_distinct m \<Longrightarrow> mkeys_distinct (filter P m)"
  by (simp add: distinct_map_filter)

text \<open>A map from which entries were only removed: what deletions and eviction loops do.\<close>

definition thinned :: "('k, 'v) omap \<Rightarrow> ('k, 'v) omap \<Rightarrow> bool" where
  "thinned m' m \<longleftrightarrow> (\<exists>P. m' = filter P m)"

lemma thinned_refl [simp, intro]: "thinned m m"
  unfolding thinned_def by (rule exI [of _ "\<lambda>_. True"]) simp

lemma thinned_filter [simp, intro]: "thinned (filter P m) m"
  by (auto simp: thinned_def)

lemma thinned_delete [simp, intro]: "thinned (mdel k m) m"
  unfolding AList.delete_eq by (rule thinned_filter)

lemma thinned_trans: "thinned m2 m1 \<Longrightarrow> thinned m1 m \<Longrightarrow> thinned m2 m"
  by (auto simp: thinned_def)

lemma thinned_length: "thinned m' m \<Longrightarrow> length m' \<le> length m"
  by (auto simp: thinned_def)

lemma thinned_distinct: "thinned m' m \<Longrightarrow> mkeys_distinct m \<Longrightarrow> mkeys_distinct m'"
  by (auto simp: thinned_def mkeys_distinct_filter)

lemma thinned_get: "thinned m' m \<Longrightarrow> mkeys_distinct m \<Longrightarrow> mget m' k = Some v \<Longrightarrow> mget m k = Some v"
  by (auto simp: thinned_def map_of_filter_distinct split: option.splits if_splits)

lemma thinned_absent: "thinned m' m \<Longrightarrow> mget m k = None \<Longrightarrow> mget m' k = None"
  by (auto simp: thinned_def map_of_eq_None_iff)

section \<open>Numbers\<close>

text \<open>
  A JavaScript number: a finite value, an infinity or NaN.  Arithmetic in the code is on
  millisecond counts and sizes, which doubles hold exactly below \<open>2 ^ 53\<close>; rounding of larger
  values and of fractions is not modelled.
\<close>

datatype number = Fin rat | Infinite bool | NaN

abbreviation num_of_int :: "int \<Rightarrow> number" where
  "num_of_int i \<equiv> Fin (of_int i)"

text \<open>\<^verbatim>\<open>Number.isInteger\<close>, returning the integer.\<close>

primrec as_int :: "number \<Rightarrow> int option" where
  "as_int (Fin r) = (if of_int \<lfloor>r\<rfloor> = r then Some \<lfloor>r\<rfloor> else None)"
| "as_int (Infinite s) = None"
| "as_int NaN = None"

definition is_integer :: "number \<Rightarrow> bool" where
  "is_integer n = (as_int n \<noteq> None)"

text \<open>\<^verbatim>\<open>Number.isFinite\<close>.\<close>

primrec is_finite :: "number \<Rightarrow> bool" where
  "is_finite (Fin r) = True"
| "is_finite (Infinite s) = False"
| "is_finite NaN = False"

text \<open>Comparison \<open>m > n\<close>; every comparison with NaN is false.\<close>

fun num_gt :: "number \<Rightarrow> number \<Rightarrow> bool" where
  "num_gt (Fin r) (Fin q) = (r > q)"
| "num_gt (Fin r) (Infinite s) = (\<not> s)"
| "num_gt (Infinite s) (Fin q) = s"
| "num_gt (Infinite s) (Infinite t) = (s \<and> \<not> t)"
| "num_gt NaN n = False"
| "num_gt m NaN = False"

lemma as_int_num_of_int [simp]: "as_int (num_of_int i) = Some i"
  by simp

lemma as_int_Some_iff: "as_int n = Some i \<longleftrightarrow> n = num_of_int i"
  by (cases n) auto

lemma is_integer_iff: "is_integer n \<longleftrightarrow> (\<exists>i. n = num_of_int i)"
  by (cases "as_int n") (auto simp: is_integer_def as_int_Some_iff)

end
