(* ===== verification/JsString.thy ===== *)
theory JsString
  imports Prelude "HOL-Library.Sublist"
begin

text \<open>
  The string methods of the language the code relies on, on code units below 256: \<^verbatim>\<open>trim\<close>,
  \<^verbatim>\<open>toLowerCase\<close>, \<^verbatim>\<open>includes\<close>, \<^verbatim>\<open>startsWith\<close>, \<^verbatim>\<open>split\<close>, \<^verbatim>\<open>join\<close>,
  \<^verbatim>\<open>encodeURIComponent\<close>, template printing of integers, UTF-8 encoding and lower-case hexadecimal,
  with the facts about them the components use.
\<close>

type_synonym byte = "8 word"
type_synonym bytes = "byte list"

abbreviation code :: "char \<Rightarrow> nat" where
  "code c \<equiv> of_char c"

lemma code_less_256: "code c < 256"
  by (metis of_char_mod_256 mod_less_divisor zero_less_numeral)

lemma code_inject: "code a = code b \<Longrightarrow> a = b"
  by (metis of_char_eq_iff)

section \<open>Character classes\<close>

definition is_digit :: "char \<Rightarrow> bool" where
  "is_digit c \<longleftrightarrow> 48 \<le> code c \<and> code c \<le> 57"

definition is_upper :: "char \<Rightarrow> bool" where
  "is_upper c \<longleftrightarrow> 65 \<le> code c \<and> code c \<le> 90"

definition is_lower :: "char \<Rightarrow> bool" where
  "is_lower c \<longleftrightarrow> 97 \<le> code c \<and> code c \<le> 122"

definition is_alnum :: "char \<Rightarrow> bool" where
  "is_alnum c \<longleftrightarrow> is_digit c \<or> is_upper c \<or> is_lower c"

definition is_lower_hex :: "char \<Rightarrow> bool" where
  "is_lower_hex c \<longleftrightarrow> is_digit c \<or> (97 \<le> code c \<and> code c \<le> 102)"

definition is_control :: "char \<Rightarrow> bool" where
  "is_control c \<longleftrightarrow> code c \<le> 31"

text \<open>White space and line terminators of the language below code unit 256 (also \<^verbatim>\<open>\s\<close>).\<close>

definition is_space :: "char \<Rightarrow> bool" where
  "is_space c \<longleftrightarrow> (9 \<le> code c \<and> code c \<le> 13) \<or> code c = 32 \<or> code c = 160"

section \<open>Trimming and case\<close>

definition trim_left :: "string \<Rightarrow> string" where
  "trim_left s = dropWhile is_space s"

definition trim :: "string \<Rightarrow> string" where
  "trim s = rev (trim_left (rev (trim_left s)))"

definition lower_char :: "char \<Rightarrow> char" where
  "lower_char c = (if is_upper c \<or> (192 \<le> code c \<and> code c \<le> 222 \<and> code c \<noteq> 215)
     then char_of (code c + 32) else c)"

definition lower :: "string \<Rightarrow> string" where
  "lower s = map lower_char s"

lemma dropWhile_rev_dropWhile_hd:
  assumes "xs \<noteq> []" "\<not> P (hd xs)"
  shows "rev (dropWhile P (rev xs)) \<noteq> [] \<and> hd (rev (dropWhile P (rev xs))) = hd xs"
  using assms by (cases xs) (simp_all add: dropWhile_append)

lemma trim_hd: "trim s \<noteq> [] \<Longrightarrow> \<not> is_space (hd (trim s))"
proof -
  assume ne: "trim s \<noteq> []"
  let ?t = "dropWhile is_space s"
  have "?t \<noteq> []" using ne by (metis trim_def trim_left_def dropWhile.simps(1) rev.simps(1))
  then have "\<not> is_space (hd ?t)" by (rule hd_dropWhile)
  with \<open>?t \<noteq> []\<close> dropWhile_rev_dropWhile_hd [of ?t is_space]
  show ?thesis by (simp add: trim_def trim_left_def)
qed

lemma trim_last: "trim s \<noteq> [] \<Longrightarrow> \<not> is_space (last (trim s))"
  unfolding trim_def trim_left_def
  by (metis hd_dropWhile hd_rev rev_is_Nil_conv rev_rev_ident)

lemma trim_eq_self: "s = [] \<or> (\<not> is_space (hd s) \<and> \<not> is_space (last s)) \<Longrightarrow> trim s = s"
proof -
  have drop: "dropWhile is_space u = u" if "u = [] \<or> \<not> is_space (hd u)" for u
    using that by (cases u) auto
  assume "s = [] \<or> (\<not> is_space (hd s) \<and> \<not> is_space (last s))"
  then show ?thesis
    by (cases "s = []") (simp_all add: trim_def trim_left_def drop hd_rev)
qed

lemma trim_idem [simp]: "trim (trim s) = trim s"
  by (rule trim_eq_self) (use trim_hd [of s] trim_last [of s] in blast)

lemma trim_Nil [simp]: "trim [] = []"
  by (simp add: trim_def trim_left_def)

lemma set_trim: "set (trim s) \<subseteq> set s"
  unfolding trim_def trim_left_def
  by (metis set_dropWhileD set_rev subsetI)

lemma length_trim: "length (trim s) \<le> length s"
  unfolding trim_def trim_left_def
  by (metis length_dropWhile_le length_rev order_trans)

lemma trim_no_space: "(\<And>c. c \<in> set s \<Longrightarrow> \<not> is_space c) \<Longrightarrow> trim s = s"
  by (cases s) (auto intro!: trim_eq_self)

lemma lower_char_lower_hex: "is_lower_hex c \<Longrightarrow> lower_char c = c"
  by (auto simp: lower_char_def is_lower_hex_def is_digit_def is_upper_def)

lemma lower_lower_hex: "list_all is_lower_hex s \<Longrightarrow> lower s = s"
  by (induction s) (auto simp: lower_def lower_char_lower_hex)

lemma lower_hex_not_space: "is_lower_hex c \<Longrightarrow> \<not> is_space c"
  by (auto simp: is_lower_hex_def is_space_def is_digit_def)

section \<open>Searching, splitting, joining\<close>

definition str_includes :: "string \<Rightarrow> string \<Rightarrow> bool" where
  "str_includes s t = sublist t s"

definition starts_with :: "string \<Rightarrow> string \<Rightarrow> bool" where
  "starts_with s t = prefix t s"

definition ends_with :: "string \<Rightarrow> string \<Rightarrow> bool" where
  "ends_with s t = suffix t s"

fun split_on :: "char \<Rightarrow> string \<Rightarrow> string list" where
  "split_on d [] = [[]]"
| "split_on d (c # s) = (if c = d then [] # split_on d s
     else (case split_on d s of [] \<Rightarrow> [[c]] | p # ps \<Rightarrow> (c # p) # ps))"

fun join_with :: "string \<Rightarrow> string list \<Rightarrow> string" where
  "join_with d [] = []"
| "join_with d [p] = p"
| "join_with d (p # q # ps) = p @ d @ join_with d (q # ps)"

lemma split_on_nonempty [simp]: "split_on d s \<noteq> []"
  by (induction s) (auto split: list.splits)

lemma split_on_no_delim: "p \<in> set (split_on d s) \<Longrightarrow> d \<notin> set p"
  by (induction s arbitrary: p) (fastforce split: list.splits if_splits)+

lemma split_on_subset: "p \<in> set (split_on d s) \<Longrightarrow> set p \<subseteq> set s"
proof (induction s arbitrary: p)
  case (Cons c s)
  obtain q qs where s: "split_on d s = q # qs" by (meson neq_Nil_conv split_on_nonempty)
  with Cons.IH [of q] Cons.IH [of p] Cons.prems show ?case by (auto split: if_splits)
qed simp

lemma split_on_absent: "d \<notin> set s \<Longrightarrow> split_on d s = [s]"
  by (induction s) auto

lemma split_on_append: "d \<notin> set s \<Longrightarrow> split_on d (s @ d # t) = s # split_on d t"
  by (induction s) auto

lemma join_split: "join_with [d] (split_on d s) = s"
proof (induction s)
  case (Cons c s)
  obtain p ps where s: "split_on d s = p # ps"
    using split_on_nonempty by (metis neq_Nil_conv)
  show ?case
    using Cons s by (cases ps) auto
qed simp

lemma join_with_Cons: "ps \<noteq> [] \<Longrightarrow> join_with d (p # ps) = p @ d @ join_with d ps"
  by (cases ps) simp_all

lemma split_join:
  "ps \<noteq> [] \<Longrightarrow> (\<And>p. p \<in> set ps \<Longrightarrow> d \<notin> set p) \<Longrightarrow> split_on d (join_with [d] ps) = ps"
proof (induction ps)
  case (Cons p ps)
  then show ?case
    by (cases ps) (simp_all add: split_on_absent split_on_append)
qed simp

section \<open>Printing numbers and bytes\<close>

fun dec_nat :: "nat \<Rightarrow> string" where
  "dec_nat n = (if n < 10 then [char_of (48 + n)]
     else dec_nat (n div 10) @ [char_of (48 + n mod 10)])"

declare dec_nat.simps [simp del]

definition dec_int :: "int \<Rightarrow> string" where
  "dec_int i = (if i < 0 then CHR ''-'' # dec_nat (nat (- i)) else dec_nat (nat i))"

text \<open>Decimal reading of a digit string, as \<^verbatim>\<open>Number.parseInt(_, 10)\<close> on \<^verbatim>\<open>/^[0-9]+$/\<close>.\<close>

definition parse_dec :: "string \<Rightarrow> nat" where
  "parse_dec s = foldl (\<lambda>n c. 10 * n + (code c - 48)) 0 s"

lemma code_char_of: "n < 256 \<Longrightarrow> code (char_of n) = n"
  by (simp add: of_char_of)

lemma parse_dec_snoc: "parse_dec (s @ [c]) = 10 * parse_dec s + (code c - 48)"
  by (simp add: parse_dec_def)

lemma parse_dec_nat [simp]: "parse_dec (dec_nat n) = n"
proof (induction n rule: dec_nat.induct)
  case (1 n)
  show ?case
  proof (cases "n < 10")
    case True
    then show ?thesis
      by (subst dec_nat.simps) (simp add: parse_dec_def code_char_of)
  next
    case False
    then show ?thesis
      using 1 by (subst dec_nat.simps) (simp add: parse_dec_snoc code_char_of)
  qed
qed

lemma dec_nat_digits: "list_all is_digit (dec_nat n)"
proof (induction n rule: dec_nat.induct)
  case (1 n)
  have "is_digit (char_of (48 + n mod 10))"
    using mod_less_divisor [of 10 n] by (simp add: is_digit_def code_char_of)
  moreover have "n < 10 \<Longrightarrow> is_digit (char_of (48 + n))"
    by (simp add: is_digit_def code_char_of)
  ultimately show ?case
    using 1 by (subst dec_nat.simps) simp
qed

lemma dec_nat_inject: "dec_nat m = dec_nat n \<Longrightarrow> m = n"
  by (metis parse_dec_nat)

lemma dec_nat_nonempty: "dec_nat n \<noteq> []"
  by (subst dec_nat.simps) simp

definition hex_digit :: "nat \<Rightarrow> char" where
  "hex_digit n = char_of (if n < 10 then 48 + n else 87 + n)"

definition hex_byte :: "byte \<Rightarrow> string" where
  "hex_byte b = [hex_digit (unat b div 16), hex_digit (unat b mod 16)]"

text \<open>\<^verbatim>\<open>Buffer.toString("hex")\<close>.\<close>

definition to_hex :: "bytes \<Rightarrow> string" where
  "to_hex bs = concat (map hex_byte bs)"

lemma hex_digit_code: "n < 16 \<Longrightarrow> code (hex_digit n) = (if n < 10 then 48 + n else 87 + n)"
  by (simp add: hex_digit_def code_char_of)

lemma hex_digit_inject:
  assumes "m < 16" "n < 16" "hex_digit m = hex_digit n"
  shows "m = n"
proof -
  have "code (hex_digit m) = code (hex_digit n)" by (simp only: assms(3))
  with assms(1,2) show ?thesis by (simp add: hex_digit_code split: if_splits)
qed

lemma hex_digit_lower_hex: "n < 16 \<Longrightarrow> is_lower_hex (hex_digit n)"
  using hex_digit_code [of n] by (cases "n < 10") (simp_all add: is_lower_hex_def is_digit_def)

lemma unat_byte: "unat (b :: byte) < 256"
  using unsigned_less [of b, where 'a = nat] by simp

lemma byte_div_16: "unat (b :: byte) div 16 < 16"
  using unat_byte [of b] by linarith

lemma hex_byte_inject: "hex_byte a = hex_byte b \<Longrightarrow> a = b"
proof -
  assume "hex_byte a = hex_byte b"
  then have "unat a div 16 = unat b div 16" "unat a mod 16 = unat b mod 16"
    by (auto simp: hex_byte_def intro!: hex_digit_inject byte_div_16)
  then have "unat a = unat b" by (metis mod_mult_div_eq)
  then show ?thesis by (simp add: word_unat_eq_iff)
qed

lemma to_hex_simps [simp]: "to_hex [] = []" "to_hex (b # bs) = hex_byte b @ to_hex bs"
  by (simp_all add: to_hex_def)

lemma length_to_hex [simp]: "length (to_hex bs) = 2 * length bs"
  by (induction bs) (auto simp: hex_byte_def)

lemma to_hex_inject: "to_hex xs = to_hex ys \<Longrightarrow> xs = ys"
proof (induction xs arbitrary: ys)
  case Nil
  then show ?case by (cases ys) (auto simp: hex_byte_def)
next
  case (Cons x xs)
  then obtain y ys' where ys: "ys = y # ys'"
    by (cases ys) (auto simp: hex_byte_def)
  have "length (hex_byte x) = length (hex_byte y)" by (simp add: hex_byte_def)
  with Cons.prems ys have "hex_byte x = hex_byte y" "to_hex xs = to_hex ys'" by simp_all
  with Cons.IH ys show ?case by (simp add: hex_byte_inject)
qed

lemma to_hex_lower_hex: "list_all is_lower_hex (to_hex bs)"
  by (induction bs) (auto simp: hex_byte_def hex_digit_lower_hex byte_div_16)

section \<open>UTF-8\<close>

definition utf8_char :: "char \<Rightarrow> bytes" where
  "utf8_char c = (if code c < 128 then [of_nat (code c)]
     else [of_nat (192 + code c div 64), of_nat (128 + code c mod 64)])"

definition utf8 :: "string \<Rightarrow> bytes" where
  "utf8 s = concat (map utf8_char s)"

lemma unat_of_nat_byte: "n < 256 \<Longrightarrow> unat (of_nat n :: byte) = n"
  by (simp add: unat_of_nat)

lemma of_nat_byte_inject: "m < 256 \<Longrightarrow> n < 256 \<Longrightarrow> (of_nat m :: byte) = of_nat n \<longleftrightarrow> m = n"
  by (metis unat_of_nat_byte)

text \<open>A character code is prefix-free when the encodings of two characters never overlap.\<close>

definition prefix_free :: "('a \<Rightarrow> 'b list) \<Rightarrow> bool" where
  "prefix_free f \<longleftrightarrow> (\<forall>a b x y. f a @ x = f b @ y \<longrightarrow> a = b) \<and> (\<forall>a. f a \<noteq> [])"

lemma prefix_free_concat_inject:
  assumes "prefix_free f"
  shows "concat (map f xs) = concat (map f ys) \<Longrightarrow> xs = ys"
proof (induction xs arbitrary: ys)
  case Nil
  then show ?case using assms by (cases ys) (auto simp: prefix_free_def)
next
  case (Cons x xs)
  then obtain y ys' where ys: "ys = y # ys'"
    using assms by (cases ys) (auto simp: prefix_free_def)
  from Cons.prems ys have "f x @ concat (map f xs) = f y @ concat (map f ys')" by simp
  then have "x = y" using assms unfolding prefix_free_def by blast
  with Cons.prems ys Cons.IH show ?case by simp
qed

lemma prefix_free_utf8: "prefix_free utf8_char"
  unfolding prefix_free_def
proof (intro conjI allI impI)
  fix a b :: char and x y :: bytes
  assume eq: "utf8_char a @ x = utf8_char b @ y"
  have bounds: "code a < 256" "code b < 256" by (rule code_less_256)+
  then have "192 + code a div 64 < 256" "192 + code b div 64 < 256"
    "128 + code a mod 64 < 256" "128 + code b mod 64 < 256"
    using mod_less_divisor [of 64 "code a"] mod_less_divisor [of 64 "code b"] by linarith+
  note B = this bounds
  have "code a = code b"
  proof (cases "code a < 128")
    case True
    with eq B show ?thesis
      by (cases "code b < 128") (simp_all add: utf8_char_def of_nat_byte_inject del: of_nat_add)
  next
    case False
    with eq B have "\<not> code b < 128"
      by (cases "code b < 128") (simp_all add: utf8_char_def of_nat_byte_inject del: of_nat_add)
    with False eq B have "code a div 64 = code b div 64" "code a mod 64 = code b mod 64"
      by (simp_all add: utf8_char_def of_nat_byte_inject del: of_nat_add)
    then show ?thesis by (metis mod_mult_div_eq)
  qed
  then show "a = b" by (rule code_inject)
qed (simp add: utf8_char_def)

lemma utf8_inject: "utf8 s = utf8 t \<Longrightarrow> s = t"
  unfolding utf8_def by (rule prefix_free_concat_inject [OF prefix_free_utf8])

end
