(* ===== verification/ProtectedDir.thy ===== *)
theory ProtectedDir
  imports JsString
begin

text \<open>
  \<^verbatim>\<open>broker/src/protected-directory.ts\<close>: the guard every encrypted store runs on its directory.  What
  the operating system answers to the calls is an argument; the calls that change the directory are
  returned in order beside the result.
\<close>

unbundle bit_operations_syntax

record dir_stats =
  isDirectory :: bool
  stats_uid :: int
  stats_mode :: "32 word"

text \<open>Outcome of \<^verbatim>\<open>stat\<close>: the entry, \<^verbatim>\<open>ENOENT\<close>, or another error.\<close>

datatype stat_outcome = Stats dir_stats | StatMissing | StatFails

text \<open>
  The answers to the successive calls: the first \<^verbatim>\<open>stat\<close>; whether \<^verbatim>\<open>mkdir\<close> succeeds and the
  \<^verbatim>\<open>stat\<close> after it; whether \<^verbatim>\<open>chmod\<close> succeeds and the \<^verbatim>\<open>stat\<close> after it; and
  \<^verbatim>\<open>process.getuid\<close> where the platform has it.
\<close>

record dir_env =
  first_stat :: stat_outcome
  mkdir_works :: bool
  created_stat :: stat_outcome
  chmod_works :: bool
  verified_stat :: stat_outcome
  getuid :: "int option"

datatype dir_error = NotOwned | Insecure | DirIoError

datatype dir_call = MkdirCall "32 word" | ChmodCall "32 word"

definition DIRECTORY_MODE :: "32 word" where "DIRECTORY_MODE = 448"

definition serviceUid :: "dir_env \<Rightarrow> int" where
  "serviceUid e = (case getuid e of Some u \<Rightarrow> u | None \<Rightarrow> - 1)"

text \<open>\<open>Inr None\<close> is the quiet return for an absent directory that is not to be created.\<close>

definition inspect_directory :: "dir_env \<Rightarrow> bool \<Rightarrow> (dir_error, dir_stats option) result \<times> dir_call list" where
  "inspect_directory e create = (case first_stat e of
     Stats st \<Rightarrow> (Inr (Some st), [])
   | StatFails \<Rightarrow> (Inl DirIoError, [])
   | StatMissing \<Rightarrow>
       if \<not> create then (Inr None, [])
       else if \<not> mkdir_works e then (Inl DirIoError, [MkdirCall DIRECTORY_MODE])
       else case created_stat e of Stats st \<Rightarrow> (Inr (Some st), [MkdirCall DIRECTORY_MODE])
         | _ \<Rightarrow> (Inl DirIoError, [MkdirCall DIRECTORY_MODE]))"

definition enforce_mode :: "dir_env \<Rightarrow> dir_stats \<Rightarrow> (dir_error, unit) result \<times> dir_call list" where
  "enforce_mode e st =
    (if stats_mode st AND 511 = DIRECTORY_MODE then (Inr (), [])
     else if \<not> chmod_works e then (Inl DirIoError, [ChmodCall DIRECTORY_MODE])
     else case verified_stat e of
        Stats v \<Rightarrow> (if stats_mode v AND 511 = DIRECTORY_MODE then Inr () else Inl Insecure,
                    [ChmodCall DIRECTORY_MODE])
      | _ \<Rightarrow> (Inl DirIoError, [ChmodCall DIRECTORY_MODE]))"

definition ensureProtectedDirectory :: "dir_env \<Rightarrow> bool \<Rightarrow> (dir_error, unit) result \<times> dir_call list" where
  "ensureProtectedDirectory e create =
    (case inspect_directory e create of (Inl err, cs) \<Rightarrow> (Inl err, cs)
     | (Inr None, cs) \<Rightarrow> (Inr (), cs)
     | (Inr (Some st), cs) \<Rightarrow>
        if \<not> isDirectory st then (Inl Insecure, cs)
        else if serviceUid e \<ge> 0 \<and> stats_uid st \<noteq> serviceUid e then (Inl NotOwned, cs)
        else (case enforce_mode e st of (r, cs') \<Rightarrow> (r, cs @ cs')))"

text \<open>The entry the guard decided on: the one it found, or the one it created.\<close>

definition guarded_entry :: "dir_env \<Rightarrow> dir_stats \<Rightarrow> bool" where
  "guarded_entry e st \<longleftrightarrow> first_stat e = Stats st \<or> (first_stat e = StatMissing \<and> created_stat e = Stats st)"

text \<open>
  When the directory guard lets a store go on, then either there is no directory and none was to
  be created, or the entry is a directory owned by the service user whose permission bits are 0700,
  as found or as verified after tightening; a directory of another user is never changed.
\<close>
theorem protected_directory_guard:
  "(fst (ensureProtectedDirectory e create) = Inr () \<longrightarrow>
      (\<not> create \<and> first_stat e = StatMissing)
      \<or> (\<exists>st. guarded_entry e st \<and> isDirectory st \<and> (serviceUid e \<ge> 0 \<longrightarrow> stats_uid st = serviceUid e)
          \<and> (stats_mode st AND 511 = DIRECTORY_MODE
             \<or> (\<exists>v. verified_stat e = Stats v \<and> stats_mode v AND 511 = DIRECTORY_MODE))))
    \<and> (\<forall>st. first_stat e = Stats st \<and> serviceUid e \<ge> 0 \<and> stats_uid st \<noteq> serviceUid e \<longrightarrow>
        snd (ensureProtectedDirectory e create) = []
        \<and> fst (ensureProtectedDirectory e create) \<in> {Inl NotOwned, Inl Insecure})"
proof (intro conjI impI)
  assume ok: "fst (ensureProtectedDirectory e create) = Inr ()"
  show "(\<not> create \<and> first_stat e = StatMissing)
      \<or> (\<exists>st. guarded_entry e st \<and> isDirectory st \<and> (serviceUid e \<ge> 0 \<longrightarrow> stats_uid st = serviceUid e)
          \<and> (stats_mode st AND 511 = DIRECTORY_MODE
             \<or> (\<exists>v. verified_stat e = Stats v \<and> stats_mode v AND 511 = DIRECTORY_MODE)))"
    using ok
    by (auto simp: ensureProtectedDirectory_def inspect_directory_def enforce_mode_def guarded_entry_def
        split: stat_outcome.splits if_splits)
qed (auto simp: ensureProtectedDirectory_def inspect_directory_def)

definition ex_dir_env :: dir_env where
  "ex_dir_env = \<lparr> first_stat = Stats \<lparr> isDirectory = True, stats_uid = 7, stats_mode = 16832 \<rparr>,
     mkdir_works = True, created_stat = StatFails, chmod_works = True, verified_stat = StatFails,
     getuid = Some 7 \<rparr>"

lemma ex_dir_ok: "ensureProtectedDirectory ex_dir_env create = (Inr (), [])"
  by (simp add: ensureProtectedDirectory_def inspect_directory_def enforce_mode_def ex_dir_env_def
      serviceUid_def DIRECTORY_MODE_def)

theorem protected_directory_guard_witness:
  "\<exists>st. guarded_entry ex_dir_env st \<and> isDirectory st \<and> stats_uid st = 7"
  using protected_directory_guard [of ex_dir_env True] ex_dir_ok [of True]
  by (auto simp: ex_dir_env_def serviceUid_def)

end
