(* ===== verification/JsValue.thy ===== *)
theory JsValue
  imports JsString
begin

text \<open>
  Values of type \<^verbatim>\<open>unknown\<close>: what \<^verbatim>\<open>JSON.parse\<close> and field access can yield.  An object is the
  list of its own properties in insertion order; reading an absent one gives \<open>Undefined\<close>.
\<close>

datatype jsval =
    Undefined
  | Null
  | Bool bool
  | Num number
  | Str string
  | Arr "jsval list"
  | Obj "(string \<times> jsval) list"

definition jint :: "int \<Rightarrow> jsval" where
  "jint i = Num (num_of_int i)"

lemma jint_inject [simp]: "jint i = jint j \<longleftrightarrow> i = j"
  by (simp add: jint_def)

lemma jint_not [simp]: "jint i \<noteq> Undefined" "jint i \<noteq> Null" "jint i \<noteq> Bool b"
  "jint i \<noteq> Str s" "jint i \<noteq> Arr vs" "jint i \<noteq> Obj kvs"
  by (simp_all add: jint_def)

text \<open>Property access \<^verbatim>\<open>record[k]\<close> on a plain object.\<close>

definition field :: "(string \<times> jsval) list \<Rightarrow> string \<Rightarrow> jsval" where
  "field kvs k = (case map_of kvs k of None \<Rightarrow> Undefined | Some v \<Rightarrow> v)"

lemma field_Cons: "field ((k, v) # kvs) k' = (if k' = k then v else field kvs k')"
  by (simp add: field_def)

text \<open>\<^verbatim>\<open>if (!v || typeof v !== "object" || Array.isArray(v)) throw\<close>: the object's properties.\<close>

fun plain_object :: "jsval \<Rightarrow> (string \<times> jsval) list option" where
  "plain_object (Obj kvs) = Some kvs"
| "plain_object _ = None"

text \<open>\<^verbatim>\<open>typeof v === "object" && v !== null\<close> admits arrays; their named properties are absent.\<close>

fun object_or_array :: "jsval \<Rightarrow> (string \<times> jsval) list option" where
  "object_or_array (Obj kvs) = Some kvs"
| "object_or_array (Arr vs) = Some []"
| "object_or_array _ = None"

fun as_string :: "jsval \<Rightarrow> string option" where
  "as_string (Str s) = Some s"
| "as_string _ = None"

text \<open>\<^verbatim>\<open>typeof v === "string" && v.length > 0\<close>.\<close>

fun as_nonempty_string :: "jsval \<Rightarrow> string option" where
  "as_nonempty_string (Str s) = (if s = [] then None else Some s)"
| "as_nonempty_string _ = None"

text \<open>\<^verbatim>\<open>Number.isInteger(v)\<close> on an unknown value.\<close>

fun as_integer :: "jsval \<Rightarrow> int option" where
  "as_integer (Num n) = as_int n"
| "as_integer _ = None"

text \<open>\<^verbatim>\<open>typeof v === "number" && Number.isFinite(v)\<close>.\<close>

fun as_finite :: "jsval \<Rightarrow> rat option" where
  "as_finite (Num (Fin r)) = Some r"
| "as_finite _ = None"

fun as_bool :: "jsval \<Rightarrow> bool option" where
  "as_bool (Bool b) = Some b"
| "as_bool _ = None"

lemma as_string_iff: "as_string v = Some s \<longleftrightarrow> v = Str s"
  by (cases v) auto

lemma as_nonempty_string_iff: "as_nonempty_string v = Some s \<longleftrightarrow> v = Str s \<and> s \<noteq> []"
  by (cases v) auto

lemma as_integer_iff: "as_integer v = Some i \<longleftrightarrow> v = jint i"
  by (cases v) (auto simp: jint_def as_int_Some_iff)

lemma as_integer_jint [simp]: "as_integer (jint i) = Some i"
  by (simp add: as_integer_iff)

lemma as_bool_iff: "as_bool v = Some b \<longleftrightarrow> v = Bool b"
  by (cases v) auto

lemma plain_object_iff: "plain_object v = Some kvs \<longleftrightarrow> v = Obj kvs"
  by (cases v) auto

lemmas jsval_readers =
  as_string_iff as_nonempty_string_iff as_integer_iff as_bool_iff plain_object_iff

end
