(* ===== verification/JsonText.thy ===== *)
theory JsonText
  imports JsValue
begin

text \<open>
  The text forms of the language's standard library the program stores and sends:
  \<^verbatim>\<open>JSON.stringify\<close>, \<^verbatim>\<open>JSON.parse\<close>, and the UTF-8 decoder of \<^verbatim>\<open>TextDecoder\<close> and
  \<^verbatim>\<open>Buffer.toString("utf8")\<close>.  A code unit above 255 is shown as a question mark: it can only occur
  inside a JSON string, so the image of a parsed text is the parse of its image.  Printing is defined
  for the values the program prints: integers below \<open>10 ^ 21\<close>, strings, booleans, null, arrays and
  objects without undefined properties; the decimal form of fractions is not modelled.
\<close>

section \<open>UTF-8 decoding\<close>

text \<open>The decoder's state: continuation bytes still needed, bounds of the next one, code point so far.\<close>

record utf8_state =
  u8_needed :: nat
  u8_lower :: nat
  u8_upper :: nat
  u8_point :: nat

definition u8_start :: utf8_state where
  "u8_start = \<lparr> u8_needed = 0, u8_lower = 128, u8_upper = 191, u8_point = 0 \<rparr>"

definition u8_emit :: "nat \<Rightarrow> string" where
  "u8_emit p = (if p < 256 then [char_of p] else if p < 65536 then ''?'' else ''??'')"

definition u8_lead :: "nat \<Rightarrow> string \<times> utf8_state" where
  "u8_lead b = (if b < 128 then ([char_of b], u8_start)
     else if 194 \<le> b \<and> b \<le> 223 then
       ([], \<lparr> u8_needed = 1, u8_lower = 128, u8_upper = 191, u8_point = b - 192 \<rparr>)
     else if 224 \<le> b \<and> b \<le> 239 then
       ([], \<lparr> u8_needed = 2, u8_lower = (if b = 224 then 160 else 128),
             u8_upper = (if b = 237 then 159 else 191), u8_point = b - 224 \<rparr>)
     else if 240 \<le> b \<and> b \<le> 244 then
       ([], \<lparr> u8_needed = 3, u8_lower = (if b = 240 then 144 else 128),
             u8_upper = (if b = 244 then 143 else 191), u8_point = b - 240 \<rparr>)
     else (''?'', u8_start))"

definition u8_next :: "nat \<Rightarrow> utf8_state \<Rightarrow> string \<times> utf8_state" where
  "u8_next b s = (if u8_needed s = 0 then u8_lead b
     else if u8_lower s \<le> b \<and> b \<le> u8_upper s then
       (let p = u8_point s * 64 + (b - 128)
        in if u8_needed s = 1 then (u8_emit p, u8_start)
           else ([], \<lparr> u8_needed = u8_needed s - 1, u8_lower = 128, u8_upper = 191, u8_point = p \<rparr>))
     else (case u8_lead b of (out, s') \<Rightarrow> (CHR ''?'' # out, s')))"

primrec u8_run :: "utf8_state \<Rightarrow> bytes \<Rightarrow> string" where
  "u8_run s [] = (if u8_needed s = 0 then [] else ''?'')"
| "u8_run s (b # bs) = (case u8_next (unat b) s of (out, s') \<Rightarrow> out @ u8_run s' bs)"

definition utf8_decode :: "bytes \<Rightarrow> string" where
  "utf8_decode bs = u8_run u8_start bs"

text \<open>\<^verbatim>\<open>new TextDecoder().decode\<close> drops a leading byte order mark.\<close>

definition text_decode :: "bytes \<Rightarrow> string" where
  "text_decode bs = utf8_decode (if take 3 bs = [239, 187, 191] then drop 3 bs else bs)"

lemma u8_run_char: "u8_run u8_start (utf8_char c @ bs) = c # u8_run u8_start bs"
proof (cases "code c < 128")
  case True
  then show ?thesis
    by (simp add: utf8_char_def u8_next_def u8_start_def u8_lead_def unat_of_nat_byte)
next
  case False
  let ?n = "code c"
  have n: "128 \<le> ?n" "?n < 256" using False code_less_256 by auto
  then have "2 \<le> ?n div 64" "?n div 64 < 4" by linarith+
  then have d: "?n div 64 = 2 \<or> ?n div 64 = 3" by arith
  have m: "?n mod 64 < 64" "?n mod 64 \<le> 63" using mod_less_divisor [of 64 ?n] by linarith+
  have fold_back: "(192 + ?n div 64 - 192) * 64 + (128 + ?n mod 64 - 128) = ?n"
    by (simp add: mult.commute)
  have lead: "u8_next (192 + ?n div 64) u8_start =
      ([], \<lparr> u8_needed = 1, u8_lower = 128, u8_upper = 191, u8_point = ?n div 64 \<rparr>)"
    using d by (auto simp: u8_next_def u8_start_def u8_lead_def)
  have cont: "u8_next (128 + ?n mod 64)
      \<lparr> u8_needed = Suc 0, u8_lower = 128, u8_upper = 191, u8_point = ?n div 64 \<rparr> = ([c], u8_start)"
    using m n fold_back by (simp add: u8_next_def u8_emit_def Let_def)
  have u: "unat (of_nat (192 + ?n div 64) :: byte) = 192 + ?n div 64"
    "unat (of_nat (128 + ?n mod 64) :: byte) = 128 + ?n mod 64"
    using d m by (auto intro!: unat_of_nat_byte simp del: of_nat_add)
  show ?thesis using False by (simp add: utf8_char_def u lead cont del: of_nat_add)
qed

lemma utf8_decode_utf8 [simp]: "utf8_decode (utf8 s) = s"
  unfolding utf8_decode_def
  by (induction s) (simp_all add: utf8_def u8_run_char, simp add: u8_start_def)

lemma text_decode_utf8 [simp]: "text_decode (utf8 s) = s"
proof -
  have "take 3 (utf8 s) \<noteq> [239, 187, 191]"
  proof (cases s)
    case (Cons c t)
    have "hd (utf8 s) \<noteq> 239"
    proof (cases "code c < 128")
      case True
      then show ?thesis
        using unat_of_nat_byte [of "code c"] by (auto simp: Cons utf8_def utf8_char_def)
    next
      case False
      have "192 + code c div 64 < 239" using code_less_256 [of c] by linarith
      then have "(of_nat (192 + code c div 64) :: byte) \<noteq> of_nat 239"
        by (subst of_nat_byte_inject) auto
      with False show ?thesis by (simp add: Cons utf8_def utf8_char_def)
    qed
    then show ?thesis by (cases "utf8 s") auto
  qed (simp add: utf8_def)
  then show ?thesis by (simp add: text_decode_def)
qed

section \<open>Printing\<close>

definition escape_char :: "char \<Rightarrow> string" where
  "escape_char c = (let n = code c in
     if n = 34 then [CHR 0x5C, CHR 0x22]
     else if n = 92 then [CHR 0x5C, CHR 0x5C]
     else if n = 8 then [CHR 0x5C, CHR ''b'']
     else if n = 9 then [CHR 0x5C, CHR ''t'']
     else if n = 10 then [CHR 0x5C, CHR ''n'']
     else if n = 12 then [CHR 0x5C, CHR ''f'']
     else if n = 13 then [CHR 0x5C, CHR ''r'']
     else if n < 32 then [CHR 0x5C, CHR ''u'', CHR ''0'', CHR ''0'', hex_digit (n div 16), hex_digit (n mod 16)]
     else [c])"

definition quote :: "string \<Rightarrow> string" where
  "quote s = CHR 0x22 # concat (map escape_char s) @ [CHR 0x22]"

fun plain_number :: "number \<Rightarrow> bool" where
  "plain_number n = (case as_int n of None \<Rightarrow> False | Some i \<Rightarrow> \<bar>i\<bar> < 10 ^ 21)"

definition number_text :: "number \<Rightarrow> string" where
  "number_text n = (case as_int n of None \<Rightarrow> [] | Some i \<Rightarrow> dec_int i)"

text \<open>The values whose printed form the model defines, and that form.\<close>

fun plain_json :: "jsval \<Rightarrow> bool" where
  "plain_json Undefined = False"
| "plain_json (Num n) = plain_number n"
| "plain_json (Arr vs) = list_all plain_json vs"
| "plain_json (Obj kvs) = (list_all (\<lambda>(k, v). plain_json v) kvs \<and> distinct (map fst kvs))"
| "plain_json v = True"

fun json_text :: "jsval \<Rightarrow> string" where
  "json_text Undefined = []"
| "json_text Null = ''null''"
| "json_text (Bool b) = (if b then ''true'' else ''false'')"
| "json_text (Num n) = number_text n"
| "json_text (Str s) = quote s"
| "json_text (Arr vs) = CHR ''['' # join_with '','' (map json_text vs) @ '']''"
| "json_text (Obj kvs) = CHR ''{'' # join_with '','' (map (\<lambda>(k, v). quote k @ CHR '':'' # json_text v) kvs) @ ''}''"

section \<open>Parsing\<close>

definition is_json_space :: "char \<Rightarrow> bool" where
  "is_json_space c \<longleftrightarrow> code c = 32 \<or> code c = 9 \<or> code c = 10 \<or> code c = 13"

definition skip_ws :: "string \<Rightarrow> string" where
  "skip_ws s = dropWhile is_json_space s"

definition hex_value :: "char \<Rightarrow> nat option" where
  "hex_value c = (let n = code c in
     if 48 \<le> n \<and> n \<le> 57 then Some (n - 48)
     else if 97 \<le> n \<and> n \<le> 102 then Some (n - 87)
     else if 65 \<le> n \<and> n \<le> 70 then Some (n - 55) else None)"

definition unescape :: "char \<Rightarrow> char option" where
  "unescape c = (let n = code c in
     if n = 34 \<or> n = 92 \<or> n = 47 then Some c
     else if n = 98 then Some (char_of (8 :: nat)) else if n = 116 then Some (char_of (9 :: nat))
     else if n = 110 then Some (char_of (10 :: nat)) else if n = 102 then Some (char_of (12 :: nat))
     else if n = 114 then Some (char_of (13 :: nat)) else None)"

definition unit_of_hex :: "char \<Rightarrow> char \<Rightarrow> char \<Rightarrow> char \<Rightarrow> char option" where
  "unit_of_hex a b c d = (case (hex_value a, hex_value b, hex_value c, hex_value d) of
     (Some w, Some x, Some y, Some z) \<Rightarrow>
       Some (if w = 0 \<and> x = 0 then char_of (16 * y + z) else CHR ''?'')
   | _ \<Rightarrow> None)"

definition cons_fst :: "char \<Rightarrow> (string \<times> string) option \<Rightarrow> (string \<times> string) option" where
  "cons_fst c r = map_option (\<lambda>(s, t). (c # s, t)) r"

text \<open>The body of a string literal after its opening quote: its value and the rest of the text.\<close>

function (sequential) parse_chars :: "string \<Rightarrow> (string \<times> string) option" where
  "parse_chars [] = None"
| "parse_chars (c # s) = (if code c = 34 then Some ([], s)
     else if code c = 92 then
       (case s of [] \<Rightarrow> None
        | e # s' \<Rightarrow> if code e = 117 then
             (if length s' < 4 then None
              else case unit_of_hex (s' ! 0) (s' ! 1) (s' ! 2) (s' ! 3) of None \<Rightarrow> None
                | Some x \<Rightarrow> cons_fst x (parse_chars (drop 4 s')))
           else (case unescape e of None \<Rightarrow> None | Some x \<Rightarrow> cons_fst x (parse_chars s')))
     else if is_control c then None
     else cons_fst c (parse_chars s))"
  by pat_completeness auto
termination by (relation "measure length") auto

declare parse_chars.simps [simp del]

definition digits_of :: "string \<Rightarrow> string \<times> string" where
  "digits_of s = (takeWhile is_digit s, dropWhile is_digit s)"

definition parse_fraction :: "string \<Rightarrow> (rat \<times> string) option" where
  "parse_fraction s = (case s of [] \<Rightarrow> Some (0, []) | c # t \<Rightarrow>
     if c = CHR ''.'' then
       (case digits_of t of (ds, r) \<Rightarrow> if ds = [] then None
          else Some (of_nat (parse_dec ds) / 10 ^ length ds, r))
     else Some (0, s))"

definition parse_exponent :: "string \<Rightarrow> (int \<times> string) option" where
  "parse_exponent s = (case s of [] \<Rightarrow> Some (0, []) | c # t \<Rightarrow>
     if c = CHR ''e'' \<or> c = CHR ''E'' then
       (let neg = (t \<noteq> [] \<and> hd t = CHR ''-'');
            u = (if t \<noteq> [] \<and> (hd t = CHR ''-'' \<or> hd t = CHR ''+'') then tl t else t)
        in case digits_of u of (ds, r) \<Rightarrow> if ds = [] then None
           else Some (if neg then - int (parse_dec ds) else int (parse_dec ds), r))
     else Some (0, s))"

definition scale10 :: "rat \<Rightarrow> int \<Rightarrow> rat" where
  "scale10 x e = (if e \<ge> 0 then x * 10 ^ nat e else x / 10 ^ nat (- e))"

text \<open>An unsigned literal; a magnitude of \<open>2 ^ 1024\<close> or more overflows to infinity.\<close>

definition parse_magnitude :: "string \<Rightarrow> (rat \<times> string) option" where
  "parse_magnitude s = (case digits_of s of (ds, r) \<Rightarrow>
     if ds = [] \<or> (hd ds = CHR ''0'' \<and> length ds > 1) then None
     else case parse_fraction r of None \<Rightarrow> None
     | Some (f, r1) \<Rightarrow> (case parse_exponent r1 of None \<Rightarrow> None
        | Some (e, r2) \<Rightarrow> Some (scale10 (of_nat (parse_dec ds) + f) e, r2)))"

definition parse_number :: "string \<Rightarrow> (number \<times> string) option" where
  "parse_number s =
    (let neg = (s \<noteq> [] \<and> hd s = CHR ''-''); u = (if neg then tl s else s)
     in case parse_magnitude u of None \<Rightarrow> None
        | Some (x, r) \<Rightarrow> Some (if x \<ge> 2 ^ 1024 then Infinite (\<not> neg) else Fin (if neg then - x else x), r))"

definition parse_word :: "string \<Rightarrow> jsval \<Rightarrow> string \<Rightarrow> (jsval \<times> string) option" where
  "parse_word w v s = (if prefix w s then Some (v, drop (length w) s) else None)"

text \<open>The fuel bounds the nesting; \<open>2 * length s + 2\<close> is always enough (below).\<close>

fun parse_value :: "nat \<Rightarrow> string \<Rightarrow> (jsval \<times> string) option"
  and parse_elements :: "nat \<Rightarrow> string \<Rightarrow> (jsval list \<times> string) option"
  and parse_members :: "nat \<Rightarrow> (string \<times> jsval) list \<Rightarrow> string \<Rightarrow> ((string \<times> jsval) list \<times> string) option"
where
  "parse_value 0 s = None"
| "parse_value (Suc n) s = (case skip_ws s of [] \<Rightarrow> None
     | c # t \<Rightarrow>
        if c = CHR ''{'' then
          (case skip_ws t of [] \<Rightarrow> None
           | d # u \<Rightarrow> if d = CHR ''}'' then Some (Obj [], u)
               else map_option (\<lambda>(kvs, r). (Obj kvs, r)) (parse_members n [] t))
        else if c = CHR ''['' then
          (case skip_ws t of [] \<Rightarrow> None
           | d # u \<Rightarrow> if d = CHR '']'' then Some (Arr [], u)
               else map_option (\<lambda>(vs, r). (Arr vs, r)) (parse_elements n t))
        else if code c = 34 then map_option (\<lambda>(x, r). (Str x, r)) (parse_chars t)
        else if c = CHR ''t'' then parse_word ''true'' (Bool True) (c # t)
        else if c = CHR ''f'' then parse_word ''false'' (Bool False) (c # t)
        else if c = CHR ''n'' then parse_word ''null'' Null (c # t)
        else map_option (\<lambda>(x, r). (Num x, r)) (parse_number (c # t)))"
| "parse_elements 0 s = None"
| "parse_elements (Suc n) s = (case parse_value n s of None \<Rightarrow> None
     | Some (v, r) \<Rightarrow> (case skip_ws r of [] \<Rightarrow> None
        | c # u \<Rightarrow> if c = CHR '']'' then Some ([v], u)
            else if c = CHR '','' then map_option (\<lambda>(vs, q). (v # vs, q)) (parse_elements n u)
            else None))"
| "parse_members 0 kvs s = None"
| "parse_members (Suc n) kvs s = (case skip_ws s of [] \<Rightarrow> None
     | c # t \<Rightarrow> if code c \<noteq> 34 then None
         else case parse_chars t of None \<Rightarrow> None
         | Some (k, r) \<Rightarrow> (case skip_ws r of [] \<Rightarrow> None
            | d # u \<Rightarrow> if d \<noteq> CHR '':'' then None
                else case parse_value n u of None \<Rightarrow> None
                | Some (v, q) \<Rightarrow> (case skip_ws q of [] \<Rightarrow> None
                   | e # w \<Rightarrow> if e = CHR ''}'' then Some (mput k v kvs, w)
                       else if e = CHR '','' then parse_members n (mput k v kvs) w
                       else None)))"

definition json_parse :: "string \<Rightarrow> jsval option" where
  "json_parse s = (case parse_value (2 * length s + 2) s of None \<Rightarrow> None
     | Some (v, r) \<Rightarrow> if skip_ws r = [] then Some v else None)"

section \<open>Parsing what was printed: strings and numbers\<close>

lemma skip_ws_head: "\<not> is_json_space c \<Longrightarrow> skip_ws (c # s) = c # s"
  by (simp add: skip_ws_def)

lemma char_of_code: "code c = n \<Longrightarrow> c = char_of n"
  by auto

lemma hex_value_digit: "n < 16 \<Longrightarrow> hex_value (hex_digit n) = Some n"
  using hex_digit_code [of n] by (simp add: hex_value_def Let_def)

lemma parse_escape:
  assumes "unescape e = Some c" "code e \<noteq> 117"
  shows "parse_chars (CHR 0x5C # e # t) = cons_fst c (parse_chars t)"
  using assms by (simp add: parse_chars.simps(2))

lemma parse_hex:
  "unit_of_hex a b c d = Some x \<Longrightarrow>
     parse_chars (CHR 0x5C # CHR ''u'' # a # b # c # d # t) = cons_fst x (parse_chars t)"
  by (subst parse_chars.simps(2)) simp

lemma short_escapes:
  "escape_char (CHR 0x22) = [CHR 0x5C, CHR 0x22]" "escape_char (CHR 0x5C) = [CHR 0x5C, CHR 0x5C]"
  "escape_char (CHR 0x08) = [CHR 0x5C, CHR ''b'']" "escape_char (CHR 0x09) = [CHR 0x5C, CHR ''t'']"
  "escape_char (CHR 0x0A) = [CHR 0x5C, CHR ''n'']" "escape_char (CHR 0x0C) = [CHR 0x5C, CHR ''f'']"
  "escape_char (CHR 0x0D) = [CHR 0x5C, CHR ''r'']"
  by code_simp+

lemma short_unescapes [simp]:
  "unescape (CHR 0x22) = Some (CHR 0x22)" "unescape (CHR 0x5C) = Some (CHR 0x5C)"
  "unescape (CHR ''b'') = Some (CHR 0x08)" "unescape (CHR ''t'') = Some (CHR 0x09)"
  "unescape (CHR ''n'') = Some (CHR 0x0A)" "unescape (CHR ''f'') = Some (CHR 0x0C)"
  "unescape (CHR ''r'') = Some (CHR 0x0D)"
  by code_simp+

lemma parse_escape_char: "parse_chars (escape_char c @ t) = cons_fst c (parse_chars t)"
proof -
  have lit: "parse_chars (c # t) = cons_fst c (parse_chars t)"
    if "code c \<noteq> 34" "code c \<noteq> 92" "\<not> code c < 32"
    using that by (simp add: parse_chars.simps(2) is_control_def)
  have hex: "parse_chars ([CHR 0x5C, CHR ''u'', CHR ''0'', CHR ''0'', hex_digit (code c div 16),
      hex_digit (code c mod 16)] @ t) = cons_fst c (parse_chars t)" if "code c < 32"
  proof -
    have "code c div 16 < 16" "code c mod 16 < 16" using that by linarith+
    then have "unit_of_hex (CHR ''0'') (CHR ''0'') (hex_digit (code c div 16)) (hex_digit (code c mod 16)) = Some c"
      by (simp add: unit_of_hex_def hex_value_digit) (simp add: hex_value_def)
    then show ?thesis using parse_hex by simp
  qed
  have short: "parse_chars (escape_char c @ t) = cons_fst c (parse_chars t)"
    if "c = d" "escape_char d = [CHR 0x5C, e]" "unescape e = Some d" "code e \<noteq> 117" for d e
    unfolding that(1,2) using parse_escape [OF that(3,4)] by simp
  consider "code c = 34" | "code c = 92" | "code c = 8" | "code c = 9" | "code c = 10" | "code c = 12"
    | "code c = 13" | "code c < 32" "code c \<notin> {8, 9, 10, 12, 13}"
    | "code c \<noteq> 34" "code c \<noteq> 92" "\<not> code c < 32" by auto
  then show ?thesis
  proof cases
    case 1 show ?thesis by (rule short [OF code_inject [of _ "CHR 0x22"] short_escapes(1)]) (use 1 in simp_all)
  next
    case 2 show ?thesis by (rule short [OF code_inject [of _ "CHR 0x5C"] short_escapes(2)]) (use 2 in simp_all)
  next
    case 3 show ?thesis by (rule short [OF code_inject [of _ "CHR 0x08"] short_escapes(3)]) (use 3 in simp_all)
  next
    case 4 show ?thesis by (rule short [OF code_inject [of _ "CHR 0x09"] short_escapes(4)]) (use 4 in simp_all)
  next
    case 5 show ?thesis by (rule short [OF code_inject [of _ "CHR 0x0A"] short_escapes(5)]) (use 5 in simp_all)
  next
    case 6 show ?thesis by (rule short [OF code_inject [of _ "CHR 0x0C"] short_escapes(6)]) (use 6 in simp_all)
  next
    case 7 show ?thesis by (rule short [OF code_inject [of _ "CHR 0x0D"] short_escapes(7)]) (use 7 in simp_all)
  next
    case 8
    then have "escape_char c = [CHR 0x5C, CHR ''u'', CHR ''0'', CHR ''0'', hex_digit (code c div 16),
        hex_digit (code c mod 16)]" by (simp add: escape_char_def Let_def)
    with hex 8(1) show ?thesis by simp
  next
    case 9
    then show ?thesis using lit by (simp add: escape_char_def Let_def)
  qed
qed

lemma parse_quote: "parse_chars (concat (map escape_char s) @ CHR 0x22 # t) = Some (s, t)"
proof (induction s)
  case Nil
  show ?case by (simp add: parse_chars.simps(2))
next
  case (Cons c s)
  then show ?case by (simp add: parse_escape_char cons_fst_def)
qed

lemma digits_of_append:
  "list_all is_digit ds \<Longrightarrow> r = [] \<or> \<not> is_digit (hd r) \<Longrightarrow> digits_of (ds @ r) = (ds, r)"
  unfolding digits_of_def
  by (cases r) (auto simp: list_all_iff takeWhile_append dropWhile_append)

lemma dec_nat_lead: "hd (dec_nat n) = CHR ''0'' \<Longrightarrow> n = 0"
proof (induction n rule: dec_nat.induct)
  case (1 n)
  show ?case
  proof (cases "n < 10")
    case True
    with 1 have "char_of (48 + n) = CHR ''0''" by (simp add: dec_nat.simps [of n])
    then have "code (char_of (48 + n)) = 48" by simp
    with True show ?thesis by (simp add: code_char_of)
  next
    case False
    with 1 have "n div 10 = 0" by (simp add: dec_nat.simps [of n] dec_nat_nonempty)
    with False show ?thesis by simp
  qed
qed

lemma dec_nat_zero: "dec_nat 0 = ''0''"
  by code_simp

definition text_end :: "string \<Rightarrow> bool" where
  "text_end r \<longleftrightarrow> r = [] \<or> hd r \<in> set '',]}''"

lemma parse_magnitude_nat:
  assumes "text_end r"
  shows "parse_magnitude (dec_nat n @ r) = Some (of_nat n, r)"
proof -
  have r: "r = [] \<or> \<not> is_digit (hd r)" using assms by (auto simp: text_end_def is_digit_def)
  have "\<not> (hd (dec_nat n) = CHR ''0'' \<and> length (dec_nat n) > 1)"
    using dec_nat_lead [of n] dec_nat_zero by auto
  moreover have "parse_fraction r = Some (0, r)" "parse_exponent r = Some (0, r)"
    using assms by (auto simp: text_end_def parse_fraction_def parse_exponent_def split: list.split)
  ultimately show ?thesis
    using digits_of_append [OF dec_nat_digits r, of n]
    by (simp add: parse_magnitude_def dec_nat_nonempty scale10_def del: One_nat_def)
qed

lemma dec_nat_hd_digit: "is_digit (hd (dec_nat n))"
  using dec_nat_digits [of n] dec_nat_nonempty [of n] by (cases "dec_nat n") auto

lemma parse_number_int:
  assumes "text_end r" "\<bar>i\<bar> < 10 ^ 21"
  shows "parse_number (dec_int i @ r) = Some (num_of_int i, r)"
proof -
  have "(10 :: rat) ^ 21 \<le> 2 ^ 1024"
  proof -
    have "(10 :: rat) ^ 21 \<le> (2 ^ 4) ^ 21" by (rule power_mono) simp_all
    also have "\<dots> \<le> 2 ^ 1024" unfolding power_mult [symmetric] by (rule power_increasing) simp_all
    finally show ?thesis .
  qed
  moreover have "(of_int \<bar>i\<bar> :: rat) < of_int (10 ^ 21)" using assms(2) by (simp only: of_int_less_iff)
  ultimately have small: "\<not> (2 :: rat) ^ 1024 \<le> of_int \<bar>i\<bar>" by simp
  show ?thesis
  proof (cases "i < 0")
    case True
    then have "(of_nat (nat (- i)) :: rat) = of_int \<bar>i\<bar>" by simp
    with True small show ?thesis
      by (simp add: parse_number_def dec_int_def parse_magnitude_nat [OF assms(1)] Let_def)
  next
    case False
    have "hd (dec_nat (nat i) @ r) \<noteq> CHR ''-''"
      using dec_nat_hd_digit [of "nat i"] dec_nat_nonempty [of "nat i"] by (auto simp: is_digit_def)
    moreover have "(of_nat (nat i) :: rat) = of_int \<bar>i\<bar>" using False by simp
    ultimately show ?thesis using False small
      by (simp add: parse_number_def dec_int_def parse_magnitude_nat [OF assms(1)] Let_def dec_nat_nonempty)
  qed
qed

section \<open>The fuel is enough\<close>

lemma length_skip_ws: "length (skip_ws s) \<le> length s"
  by (simp add: skip_ws_def length_dropWhile_le)

lemma skip_ws_Cons: "skip_ws s = c # t \<Longrightarrow> length t < length s"
  using length_skip_ws [of s] by simp

lemma cons_fst_Some: "cons_fst c r = Some (x, t) \<longleftrightarrow> (\<exists>y. r = Some (y, t) \<and> x = c # y)"
  by (auto simp: cons_fst_def)

lemma parse_chars_shorter: "parse_chars s = Some (x, r) \<Longrightarrow> length r < length s"
proof (induction s arbitrary: x rule: parse_chars.induct)
  case (2 c s)
  consider "code c = 34" | e s' where "code c = 92" "s = e # s'" "code e = 117"
    | e s' where "code c = 92" "s = e # s'" "code e \<noteq> 117" | "code c = 92" "s = []"
    | "code c \<noteq> 34" "code c \<noteq> 92"
    by (cases s) blast+
  then show ?case
  proof cases
    case (2 e s')
    with "2.prems" obtain y where "parse_chars (drop 4 s') = Some (y, r)" "\<not> length s' < 4"
      "\<exists>z. unit_of_hex (s' ! 0) (s' ! 1) (s' ! 2) (s' ! 3) = Some z"
      by (auto simp: parse_chars.simps(2) cons_fst_Some split: if_splits option.splits)
    with 2 "2.IH"(1) show ?thesis by fastforce
  next
    case (3 e s')
    with "2.prems" obtain y z where "parse_chars s' = Some (y, r)" "unescape e = Some z"
      by (auto simp: parse_chars.simps(2) cons_fst_Some split: option.splits)
    with 3 "2.IH"(2) show ?thesis by fastforce
  next
    case 5
    with "2.prems" obtain y where "parse_chars s = Some (y, r)" "\<not> is_control c"
      by (auto simp: parse_chars.simps(2) cons_fst_Some split: if_splits)
    with 5 "2.IH"(3) show ?thesis by fastforce
  qed (use "2.prems" in \<open>simp_all add: parse_chars.simps(2)\<close>)
qed (simp add: parse_chars.simps)

lemma digits_of_length: "digits_of s = (ds, r) \<Longrightarrow> length s = length ds + length r"
  unfolding digits_of_def by (metis Pair_inject length_append takeWhile_dropWhile_id)

lemma parse_fraction_length: "parse_fraction s = Some (f, r) \<Longrightarrow> length r \<le> length s"
  by (auto simp: parse_fraction_def split: list.splits if_splits prod.splits dest: digits_of_length)

lemma parse_exponent_length: "parse_exponent s = Some (e, r) \<Longrightarrow> length r \<le> length s"
  by (auto simp: parse_exponent_def Let_def split: list.splits if_splits prod.splits
      dest!: digits_of_length)

lemma parse_magnitude_length:
  assumes "parse_magnitude s = Some (x, r)"
  shows "length r < length s"
proof -
  obtain ds q where d: "digits_of s = (ds, q)" by fastforce
  with assms obtain f r1 e where "ds \<noteq> []" "parse_fraction q = Some (f, r1)" "parse_exponent r1 = Some (e, r)"
    by (auto simp: parse_magnitude_def split: if_splits option.splits)
  then show ?thesis
    using digits_of_length [OF d] parse_fraction_length [of q] parse_exponent_length [of r1]
    by (cases ds) fastforce+
qed

lemma parse_number_shorter: "parse_number s = Some (x, r) \<Longrightarrow> length r < length s"
  by (cases s) (fastforce simp: parse_number_def Let_def split: if_splits option.splits prod.splits
      dest: parse_magnitude_length)+

lemma parse_word_shorter: "parse_word w v s = Some (x, r) \<Longrightarrow> w \<noteq> [] \<Longrightarrow> length r < length s"
  by (auto simp: parse_word_def prefix_def split: if_splits)

lemmas parse_shorter = parse_chars_shorter parse_number_shorter parse_word_shorter

lemma parse_value_shorter:
  shows "parse_value n s = Some (v, r) \<Longrightarrow> length r < length s"
    and "parse_elements n s = Some (vs, r) \<Longrightarrow> length r < length s"
    and "parse_members n kvs s = Some (ms, r) \<Longrightarrow> length r < length s"
proof (induction n s and n s and n kvs s arbitrary: v r and vs r and ms r
    rule: parse_value_parse_elements_parse_members.induct)
  case (2 n s)
  from "2.prems" obtain c t where s: "skip_ws s = c # t" by (auto split: list.splits)
  have t: "length t < length s" using s by (rule skip_ws_Cons)
  have u: "skip_ws t = d # u \<Longrightarrow> length u < length s" for d u
    using skip_ws_Cons [of t d u] t by simp
  show ?case
    using "2.prems" s t u "2.IH" length_skip_ws [of s]
    by (fastforce split: if_splits list.splits dest: parse_shorter)
next
  case (4 n s)
  from "4.prems" obtain v q c u where a: "parse_value n s = Some (v, q)" "skip_ws q = c # u"
    by (auto split: option.splits list.splits)
  then have "length q < length s" "length u < length q" using "4.IH"(1) skip_ws_Cons by blast+
  then show ?case
    using "4.prems" a "4.IH"(2) [OF a(1) _ a(2)] by (fastforce split: if_splits)
next
  case (6 n kvs s)
  from "6.prems" obtain c t k q d u v p e w where
    a: "skip_ws s = c # t" "code c = 34" "parse_chars t = Some (k, q)" "skip_ws q = d # u" "d = CHR '':''"
      "parse_value n u = Some (v, p)" "skip_ws p = e # w"
    by (auto split: if_splits option.splits list.splits)
  then have "length t < length s" "length q < length t" "length u < length q" "length p < length u"
    "length w < length p"
    using "6.IH"(1) [OF a(1) _ a(3) _ a(4)] skip_ws_Cons parse_chars_shorter by auto
  then show ?case
    using "6.prems" a "6.IH"(2) [OF a(1) _ a(3) _ a(4) _ a(6) _ a(7)] by (fastforce split: if_splits)
qed simp_all

text \<open>More fuel than twice the length changes nothing, so no text is refused for lack of fuel.\<close>

lemma parse_fuel:
  shows "2 * length s < n \<Longrightarrow> parse_value n s = parse_value (Suc n) s"
    and "2 * length s + 1 < n \<Longrightarrow> parse_elements n s = parse_elements (Suc n) s"
    and "2 * length s + 1 < n \<Longrightarrow> parse_members n kvs s = parse_members (Suc n) kvs s"
proof (induction n s and n s and n kvs s rule: parse_value_parse_elements_parse_members.induct)
  case (2 n s)
  show ?case
  proof (cases "skip_ws s")
    case (Cons c t)
    then have "length t < length s" by (rule skip_ws_Cons)
    with "2.prems" have "2 * length t + 1 < n" by simp
    with Cons "2.IH" show ?thesis
      by (subst (1 2) parse_value.simps) (auto split: list.split)
  qed simp
next
  case (4 n s)
  from "4.prems" have v: "parse_value n s = parse_value (Suc n) s" by (intro "4.IH"(1)) simp
  have "parse_elements n u = parse_elements (Suc n) u"
    if "parse_value n s = Some (w, r)" "skip_ws r = CHR '','' # u" for w r u
    using "4.prems" parse_value_shorter(1) [OF that(1)] skip_ws_Cons [OF that(2)]
    by (intro "4.IH"(2) [OF that(1) refl that(2)]) auto
  then show ?case
    by (subst (1 2) parse_elements.simps(2), unfold v [symmetric])
      (auto simp del: parse_value.simps parse_elements.simps split: option.split list.split)
next
  case (6 n kvs s)
  have step: "parse_value n u = parse_value (Suc n) u"
      "parse_value n u = Some (v, p) \<Longrightarrow> skip_ws p = CHR '','' # w \<Longrightarrow>
       parse_members n (mput k v kvs) w = parse_members (Suc n) (mput k v kvs) w"
    if a: "skip_ws s = c # t" "code c = 34" "parse_chars t = Some (k, q)" "skip_ws q = CHR '':'' # u"
    for c t k q u v p w
  proof -
    have l: "length t < length s" "length q < length t" "length u < length q"
      using skip_ws_Cons [OF a(1)] skip_ws_Cons [OF a(4)] parse_chars_shorter [OF a(3)] by auto
    then show "parse_value n u = parse_value (Suc n) u"
      using "6.prems" a(2) by (intro "6.IH"(1) [OF a(1) _ a(3) refl a(4)]) auto
    assume b: "parse_value n u = Some (v, p)" "skip_ws p = CHR '','' # w"
    then show "parse_members n (mput k v kvs) w = parse_members (Suc n) (mput k v kvs) w"
      using "6.prems" a(2) l skip_ws_Cons [OF b(2)] parse_value_shorter(1) [OF b(1)]
      by (intro "6.IH"(2) [OF a(1) _ a(3) refl a(4) _ b(1) refl b(2)]) auto
  qed
  then show ?case
    by (subst (1 2) parse_members.simps(2))
      (auto simp del: parse_value.simps parse_members.simps split: option.split list.split)
qed simp_all

lemma parse_fuel_any: "2 * length s < n \<Longrightarrow> 2 * length s < m \<Longrightarrow> parse_value n s = parse_value m s"
proof -
  have up: "2 * length s < n \<Longrightarrow> parse_value (n + k) s = parse_value n s" for n k
    by (induction k) (simp_all add: parse_fuel(1) [symmetric] del: parse_value.simps)
  show "2 * length s < n \<Longrightarrow> 2 * length s < m \<Longrightarrow> ?thesis"
    by (cases "n \<le> m") (metis up le_Suc_ex, metis up le_Suc_ex nat_le_linear)
qed

section \<open>Printing, then parsing\<close>

definition good_head :: "char \<Rightarrow> bool" where
  "good_head c \<longleftrightarrow> \<not> is_json_space c \<and> c \<notin> set '']},:''"

lemma dec_int_head: "\<exists>c t. dec_int i = c # t \<and> (c = CHR ''-'' \<or> is_digit c)"
proof (cases "i < 0")
  case False
  then show ?thesis
    using dec_nat_hd_digit [of "nat i"] dec_nat_nonempty [of "nat i"]
    by (cases "dec_nat (nat i)") (auto simp: dec_int_def)
qed (simp add: dec_int_def)

lemma good_head_number: "c = CHR ''-'' \<or> is_digit c \<Longrightarrow> good_head c
    \<and> c \<notin> set ''{[tfn'' \<and> code c \<noteq> 34"
  by (auto simp: good_head_def is_digit_def is_json_space_def)

lemma text_head: "plain_json v \<Longrightarrow> \<exists>c t. json_text v = c # t \<and> good_head c"
proof (cases v)
  case (Num n)
  assume "plain_json v"
  then obtain i where "json_text v = dec_int i" by (auto simp: Num number_text_def split: option.splits)
  with dec_int_head [of i] good_head_number show ?thesis by auto
qed (auto simp: quote_def good_head_def is_json_space_def)

text \<open>A text that some fuel, and then every larger fuel, parses to a value.\<close>

definition reads :: "string \<Rightarrow> jsval \<Rightarrow> string \<Rightarrow> bool" where
  "reads s v r \<longleftrightarrow> (\<exists>n0. \<forall>n \<ge> n0. parse_value n s = Some (v, r))"

lemma reads_Suc: "(\<And>n. n \<ge> n0 \<Longrightarrow> parse_value (Suc n) s = Some (v, r)) \<Longrightarrow> reads s v r"
  unfolding reads_def by (rule exI [of _ "Suc n0"]) (metis Suc_le_D Suc_le_mono)

lemma reads_atom:
  "(\<And>n. parse_value (Suc n) s = Some (v, r)) \<Longrightarrow> reads s v r"
  by (rule reads_Suc)

lemma text_end_cons: "c \<in> set '',]}'' \<Longrightarrow> text_end (c # r)"
  by (simp add: text_end_def)

lemma reads_elements:
  assumes "vs \<noteq> []" "\<And>v r. v \<in> set vs \<Longrightarrow> text_end r \<Longrightarrow> reads (json_text v @ r) v r"
  shows "\<exists>n0. \<forall>n \<ge> n0. parse_elements n (join_with '','' (map json_text vs) @ CHR '']'' # r) = Some (vs, r)"
  using assms
proof (induction vs)
  case (Cons v vs)
  let ?rest = "(if vs = [] then CHR '']'' # r
    else CHR '','' # join_with '','' (map json_text vs) @ CHR '']'' # r)"
  have "reads (json_text v @ ?rest) v ?rest"
    by (rule Cons.prems(2)) (auto simp: text_end_def)
  then obtain n1 where n1: "\<And>n. n \<ge> n1 \<Longrightarrow> parse_value n (json_text v @ ?rest) = Some (v, ?rest)"
    by (auto simp: reads_def)
  have eq: "join_with '','' (map json_text (v # vs)) @ CHR '']'' # r = json_text v @ ?rest"
    by (cases vs) auto
  have ws: "skip_ws (CHR '']'' # x) = CHR '']'' # x" "skip_ws (CHR '','' # x) = CHR '','' # x" for x
    by (simp_all add: skip_ws_def is_json_space_def)
  show ?case
  proof (cases "vs = []")
    case True
    then have "parse_elements (Suc n) (json_text v @ ?rest) = Some (v # vs, r)" if "n \<ge> n1" for n
      using n1 [OF that] ws by (simp del: parse_value.simps)
    then show ?thesis unfolding eq
      by (intro exI [of _ "Suc n1"]) (metis Suc_le_D Suc_le_mono)
  next
    case False
    with Cons obtain n2 where n2: "\<And>n. n \<ge> n2 \<Longrightarrow>
        parse_elements n (join_with '','' (map json_text vs) @ CHR '']'' # r) = Some (vs, r)"
      by auto
    have "parse_elements (Suc n) (json_text v @ ?rest) = Some (v # vs, r)" if "n \<ge> max n1 n2" for n
      using False n1 [of n] n2 [of n] that ws by (simp del: parse_value.simps)
    then show ?thesis unfolding eq
      by (intro exI [of _ "Suc (max n1 n2)"]) (metis Suc_le_D Suc_le_mono)
  qed
qed simp

lemma update_absent: "k \<notin> fst ` set m \<Longrightarrow> mput k v m = m @ [(k, v)]"
  by (induction m) auto

definition member_text :: "string \<times> jsval \<Rightarrow> string" where
  "member_text e = (case e of (k, v) \<Rightarrow> quote k @ CHR '':'' # json_text v)"

lemma reads_members:
  assumes "kvs \<noteq> []" "\<And>k v r. (k, v) \<in> set kvs \<Longrightarrow> text_end r \<Longrightarrow> reads (json_text v @ r) v r"
    and "distinct (map fst kvs)" "fst ` set acc \<inter> fst ` set kvs = {}"
  shows "\<exists>n0. \<forall>n \<ge> n0. parse_members n acc (join_with '','' (map member_text kvs) @ CHR ''}'' # r)
    = Some (acc @ kvs, r)"
  using assms
proof (induction kvs arbitrary: acc)
  case (Cons e kvs)
  obtain k v where e: "e = (k, v)" by (cases e)
  let ?rest = "(if kvs = [] then CHR ''}'' # r
    else CHR '','' # join_with '','' (map member_text kvs) @ CHR ''}'' # r)"
  have "reads (json_text v @ ?rest) v ?rest"
    by (rule Cons.prems(2) [of k]) (auto simp: text_end_def e)
  then obtain n1 where n1: "\<And>n. n \<ge> n1 \<Longrightarrow> parse_value n (json_text v @ ?rest) = Some (v, ?rest)"
    by (auto simp: reads_def)
  have eq: "join_with '','' (map member_text (e # kvs)) @ CHR ''}'' # r =
      CHR 0x22 # (concat (map escape_char k) @ CHR 0x22 # CHR '':'' # json_text v @ ?rest)"
    by (cases kvs) (auto simp: member_text_def quote_def e)
  have ws: "skip_ws (CHR ''}'' # x) = CHR ''}'' # x" "skip_ws (CHR '','' # x) = CHR '','' # x"
    "skip_ws (CHR '':'' # x) = CHR '':'' # x" "skip_ws (CHR 0x22 # x) = CHR 0x22 # x" for x
    by (simp_all add: skip_ws_def is_json_space_def)
  have put: "mput k v acc = acc @ [(k, v)]"
    using Cons.prems(4) by (intro update_absent) (auto simp: e)
  show ?case
  proof (cases "kvs = []")
    case True
    have "parse_members (Suc n) acc (join_with '','' (map member_text (e # kvs)) @ CHR ''}'' # r)
        = Some (acc @ (e # kvs), r)" if "n \<ge> n1" for n
      unfolding eq using True n1 [OF that] by (simp add: ws parse_quote put e del: parse_value.simps)
    then show ?thesis by (intro exI [of _ "Suc n1"]) (metis Suc_le_D Suc_le_mono)
  next
    case False
    have "\<exists>n0. \<forall>n \<ge> n0. parse_members n (acc @ [e]) (join_with '','' (map member_text kvs) @ CHR ''}'' # r)
        = Some ((acc @ [e]) @ kvs, r)"
      using Cons.prems False by (intro Cons.IH) (auto simp: e)
    then obtain n2 where n2: "\<And>n. n \<ge> n2 \<Longrightarrow>
        parse_members n (acc @ [e]) (join_with '','' (map member_text kvs) @ CHR ''}'' # r)
          = Some (acc @ e # kvs, r)" by auto
    have "parse_members (Suc n) acc (join_with '','' (map member_text (e # kvs)) @ CHR ''}'' # r)
        = Some (acc @ (e # kvs), r)" if "n \<ge> max n1 n2" for n
      unfolding eq using False n1 [of n] n2 [of n] that
      by (simp add: ws parse_quote put e del: parse_value.simps)
    then show ?thesis by (intro exI [of _ "Suc (max n1 n2)"]) (metis Suc_le_D Suc_le_mono)
  qed
qed simp

lemma reads_number:
  assumes "plain_number n" "text_end r"
  shows "reads (number_text n @ r) (Num n) r"
proof -
  obtain i where n: "n = num_of_int i" "\<bar>i\<bar> < 10 ^ 21"
    using assms(1) by (auto simp: as_int_Some_iff simp del: as_int.simps split: option.splits)
  obtain c t where ct: "dec_int i = c # t" "c = CHR ''-'' \<or> is_digit c"
    using dec_int_head by blast
  have c: "\<not> is_json_space c" "c \<noteq> CHR ''{''" "c \<noteq> CHR ''[''" "c \<noteq> CHR ''t''" "c \<noteq> CHR ''f''"
    "c \<noteq> CHR ''n''" "code c \<noteq> 34"
    using good_head_number [OF ct(2)] by (auto simp: good_head_def)
  have "parse_number (c # t @ r) = Some (num_of_int i, r)"
    using parse_number_int [OF assms(2) n(2)] ct(1) by simp
  then have "parse_value (Suc m) (number_text n @ r) = Some (Num n, r)" for m
    using c by (simp add: number_text_def n(1) ct(1) skip_ws_head del: as_int.simps)
  then show ?thesis by (rule reads_atom)
qed

lemma reads_array:
  assumes "\<exists>n0. \<forall>n \<ge> n0. parse_elements n (join_with '','' (map json_text vs) @ CHR '']'' # r) = Some (vs, r)"
    and "vs \<noteq> []" "plain_json (Arr vs)"
  shows "reads (json_text (Arr vs) @ r) (Arr vs) r"
proof -
  let ?t = "join_with '','' (map json_text vs) @ CHR '']'' # r"
  from assms(1) obtain n0 where n0: "\<And>n. n \<ge> n0 \<Longrightarrow> parse_elements n ?t = Some (vs, r)" by blast
  obtain c u where cu: "?t = c # u" "good_head c"
  proof -
    obtain v ws where vs: "vs = v # ws" using assms(2) by (cases vs) auto
    with assms(3) text_head [of v] obtain c t where "json_text v = c # t" "good_head c" by auto
    with vs show thesis by (cases ws) (auto intro: that)
  qed
  have "parse_value (Suc n) (CHR ''['' # ?t) = Some (Arr vs, r)" if "n \<ge> n0" for n
  proof -
    have "skip_ws (CHR ''['' # ?t) = CHR ''['' # ?t" by (simp add: skip_ws_def is_json_space_def)
    moreover have "skip_ws ?t = c # u" "c \<noteq> CHR '']''"
      using cu by (auto simp: good_head_def skip_ws_head)
    ultimately show ?thesis using n0 [OF that] by simp
  qed
  then have "reads (CHR ''['' # ?t) (Arr vs) r" by (rule reads_Suc)
  then show ?thesis by simp
qed

lemma reads_object:
  assumes "\<exists>n0. \<forall>n \<ge> n0. parse_members n [] (join_with '','' (map member_text kvs) @ CHR ''}'' # r) = Some ([] @ kvs, r)"
    and "kvs \<noteq> []"
  shows "reads (json_text (Obj kvs) @ r) (Obj kvs) r"
proof -
  let ?t = "join_with '','' (map member_text kvs) @ CHR ''}'' # r"
  from assms(1) obtain n0 where n0: "\<And>n. n \<ge> n0 \<Longrightarrow> parse_members n [] ?t = Some (kvs, r)" by auto
  obtain u where u: "?t = CHR 0x22 # u"
    using assms(2) by (cases kvs; cases "tl kvs") (auto simp: member_text_def quote_def split: prod.splits)
  have "parse_value (Suc n) (CHR ''{'' # ?t) = Some (Obj kvs, r)" if "n \<ge> n0" for n
  proof -
    have "skip_ws (CHR ''{'' # ?t) = CHR ''{'' # ?t" by (simp add: skip_ws_def is_json_space_def)
    moreover have "skip_ws ?t = CHR 0x22 # u" using u by (simp add: skip_ws_def is_json_space_def)
    ultimately show ?thesis using n0 [OF that] by simp
  qed
  then have "reads (CHR ''{'' # ?t) (Obj kvs) r" by (rule reads_Suc)
  moreover have "json_text (Obj kvs) @ r = CHR ''{'' # ?t"
    by (simp add: member_text_def [abs_def] split_def)
  ultimately show ?thesis by simp
qed

lemma reads_text: "plain_json v \<Longrightarrow> text_end r \<Longrightarrow> reads (json_text v @ r) v r"
proof (induction v arbitrary: r)
  case Null
  show ?case by (rule reads_atom) (simp add: skip_ws_def is_json_space_def parse_word_def)
next
  case (Bool b)
  show ?case by (rule reads_atom) (simp add: skip_ws_def is_json_space_def parse_word_def)
next
  case (Num n)
  then show ?case using reads_number by simp
next
  case (Str s)
  show ?case
    by (rule reads_atom) (simp add: skip_ws_def is_json_space_def quote_def parse_quote)
next
  case (Arr vs)
  show ?case
  proof (cases "vs = []")
    case True
    then show ?thesis by (intro reads_atom) (simp add: skip_ws_def is_json_space_def)
  next
    case False
    have "\<exists>n0. \<forall>n \<ge> n0. parse_elements n (join_with '','' (map json_text vs) @ CHR '']'' # r) = Some (vs, r)"
      using Arr False by (intro reads_elements) (auto simp: list_all_iff)
    then show ?thesis using False Arr.prems(1) by (rule reads_array)
  qed
next
  case (Obj kvs)
  show ?case
  proof (cases "kvs = []")
    case True
    then show ?thesis by (intro reads_atom) (simp add: skip_ws_def is_json_space_def)
  next
    case False
    have "\<exists>n0. \<forall>n \<ge> n0. parse_members n [] (join_with '','' (map member_text kvs) @ CHR ''}'' # r) = Some ([] @ kvs, r)"
      using Obj False by (intro reads_members) (fastforce simp: list_all_iff)+
    then show ?thesis using False by (rule reads_object)
  qed
qed simp

declare parse_value.simps [simp del] parse_elements.simps [simp del] parse_members.simps [simp del]

theorem json_parse_text: "plain_json v \<Longrightarrow> json_parse (json_text v) = Some v"
proof -
  assume "plain_json v"
  from reads_text [OF this, of "[]"] obtain n0
    where "\<And>n. n \<ge> n0 \<Longrightarrow> parse_value n (json_text v) = Some (v, [])"
    by (auto simp: reads_def text_end_def)
  then have "parse_value (n0 + 2 * length (json_text v) + 2) (json_text v) = Some (v, [])" by simp
  moreover have "parse_value (n0 + 2 * length (json_text v) + 2) (json_text v) =
      parse_value (2 * length (json_text v) + 2) (json_text v)"
    by (rule parse_fuel_any) simp_all
  ultimately have "parse_value (2 * length (json_text v) + 2) (json_text v) = Some (v, [])" by simp
  then show ?thesis by (simp add: json_parse_def skip_ws_def)
qed

lemma json_text_inject: "plain_json v \<Longrightarrow> plain_json w \<Longrightarrow> json_text v = json_text w \<Longrightarrow> v = w"
  by (metis json_parse_text option.inject)

end
