(* ===== verification/FormUrl.thy ===== *)
theory FormUrl
  imports JsonText
begin

text \<open>
  \<^verbatim>\<open>URLSearchParams\<close> of the standard library, as the program builds and reads query strings and
  form bodies: percent-encoding of the UTF-8 bytes, a plus sign for a space, pairs joined by ampersands;
  and \<^verbatim>\<open>encodeURIComponent\<close>.
\<close>

section \<open>Percent-encoding\<close>

definition hex_digit_upper :: "nat \<Rightarrow> char" where
  "hex_digit_upper n = char_of (if n < 10 then 48 + n else 55 + n)"

definition percent_byte :: "byte \<Rightarrow> string" where
  "percent_byte b = [CHR ''%'', hex_digit_upper (unat b div 16), hex_digit_upper (unat b mod 16)]"

definition form_safe :: "nat \<Rightarrow> bool" where
  "form_safe n \<longleftrightarrow> (48 \<le> n \<and> n \<le> 57) \<or> (65 \<le> n \<and> n \<le> 90) \<or> (97 \<le> n \<and> n \<le> 122)
     \<or> n = 42 \<or> n = 45 \<or> n = 46 \<or> n = 95"

definition form_byte :: "byte \<Rightarrow> string" where
  "form_byte b = (if unat b = 32 then ''+'' else if form_safe (unat b) then [char_of (unat b)] else percent_byte b)"

definition form_component :: "string \<Rightarrow> string" where
  "form_component s = concat (map form_byte (utf8 s))"

definition form_pair :: "string \<times> string \<Rightarrow> string" where
  "form_pair e = form_component (fst e) @ CHR ''='' # form_component (snd e)"

text \<open>\<^verbatim>\<open>new URLSearchParams(pairs).toString()\<close>.\<close>

definition form_serialize :: "(string \<times> string) list \<Rightarrow> string" where
  "form_serialize kvs = join_with ''&'' (map form_pair kvs)"

function (sequential) percent_bytes :: "bytes \<Rightarrow> bytes" where
  "percent_bytes [] = []"
| "percent_bytes (b # bs) = (if b = 37 then
     (case bs of h # l # rest \<Rightarrow>
        (case (hex_value (char_of (unat h)), hex_value (char_of (unat l))) of
           (Some x, Some y) \<Rightarrow> of_nat (16 * x + y) # percent_bytes rest
         | _ \<Rightarrow> b # percent_bytes bs)
      | _ \<Rightarrow> b # percent_bytes bs)
     else b # percent_bytes bs)"
  by pat_completeness auto
termination by (relation "measure length") auto

declare percent_bytes.simps [simp del]

definition form_decode :: "string \<Rightarrow> string" where
  "form_decode s = utf8_decode (percent_bytes (map (\<lambda>b. if b = 43 then 32 else b) (utf8 s)))"

definition form_parse_pair :: "string \<Rightarrow> string \<times> string" where
  "form_parse_pair p = (form_decode (takeWhile (\<lambda>c. c \<noteq> CHR ''='') p),
     form_decode (drop 1 (dropWhile (\<lambda>c. c \<noteq> CHR ''='') p)))"

text \<open>\<^verbatim>\<open>url.searchParams\<close> of a query without its question mark.\<close>

definition form_parse :: "string \<Rightarrow> (string \<times> string) list" where
  "form_parse q = map form_parse_pair (filter (\<lambda>p. p \<noteq> []) (split_on (CHR ''&'') q))"

text \<open>\<^verbatim>\<open>encodeURIComponent\<close>.\<close>

definition uri_safe :: "nat \<Rightarrow> bool" where
  "uri_safe n \<longleftrightarrow> (48 \<le> n \<and> n \<le> 57) \<or> (65 \<le> n \<and> n \<le> 90) \<or> (97 \<le> n \<and> n \<le> 122)
     \<or> n \<in> {45, 95, 46, 33, 126, 42, 39, 40, 41}"

definition uri_byte :: "byte \<Rightarrow> string" where
  "uri_byte b = (if uri_safe (unat b) then [char_of (unat b)] else percent_byte b)"

definition encodeURIComponent :: "string \<Rightarrow> string" where
  "encodeURIComponent s = concat (map uri_byte (utf8 s))"

section \<open>Decoding inverts encoding\<close>

lemma hex_upper_code: "n < 16 \<Longrightarrow> code (hex_digit_upper n) = (if n < 10 then 48 + n else 55 + n)"
  by (simp add: hex_digit_upper_def code_char_of)

lemma hex_value_upper: "n < 16 \<Longrightarrow> hex_value (hex_digit_upper n) = Some n"
  using hex_upper_code [of n] by (simp add: hex_value_def Let_def)

lemma utf8_ascii: "code c < 128 \<Longrightarrow> utf8 (c # s) = of_nat (code c) # utf8 s"
  by (simp add: utf8_def utf8_char_def)

lemma byte_of_unat: "of_nat (unat (b :: byte)) = b"
  by simp

lemma percent_bytes_hex:
  assumes "m < 16" "n < 16"
  shows "percent_bytes (37 # of_nat (code (hex_digit_upper m)) # of_nat (code (hex_digit_upper n)) # bs) =
    of_nat (16 * m + n) # percent_bytes bs"
proof -
  have u: "unat (of_nat (code (hex_digit_upper k)) :: byte) = code (hex_digit_upper k)" for k
    by (rule unat_of_nat_byte) (rule code_less_256)
  show ?thesis
    by (subst percent_bytes.simps(2)) (simp add: u hex_value_upper assms)
qed

lemma percent_bytes_other: "b \<noteq> 37 \<Longrightarrow> percent_bytes (b # bs) = b # percent_bytes bs"
  by (subst percent_bytes.simps(2)) simp

lemma of_nat_byte_eq: "n < 256 \<Longrightarrow> (of_nat n :: byte) = b \<longleftrightarrow> n = unat b"
  by (metis unat_of_nat_byte byte_of_unat)

abbreviation plus_space :: "bytes \<Rightarrow> bytes" where
  "plus_space \<equiv> map (\<lambda>b. if b = 43 then 32 else b)"

lemma form_byte_decodes:
  "percent_bytes (plus_space (utf8 (form_byte b @ s))) = b # percent_bytes (plus_space (utf8 s))"
proof -
  have lt: "unat b < 256" by (rule unat_byte)
  show ?thesis
  proof (cases "unat b = 32 \<or> form_safe (unat b)")
    case True
    then have "unat b < 128" by (auto simp: form_safe_def)
    moreover have "b \<noteq> 43" "b \<noteq> 37" using True by (auto simp: form_safe_def)
    moreover have "unat b = 32 \<Longrightarrow> b = 32" by (metis byte_of_unat of_nat_numeral)
    ultimately show ?thesis
      using True lt
      by (auto simp: form_byte_def utf8_ascii code_char_of percent_bytes_other)
  next
    case False
    define m n where "m = unat b div 16" and "n = unat b mod 16"
    have mn: "m < 16" "n < 16" "16 * m + n = unat b"
      using byte_div_16 [of b] by (simp_all add: m_def n_def)
    have c: "code (hex_digit_upper m) < 128" "code (hex_digit_upper n) < 128"
      "code (hex_digit_upper m) \<noteq> 43" "code (hex_digit_upper n) \<noteq> 43"
      using mn(1,2) by (auto simp: hex_upper_code)
    then have ne: "(of_nat (code (hex_digit_upper m)) :: byte) \<noteq> 43" "(of_nat (code (hex_digit_upper n)) :: byte) \<noteq> 43"
      by (simp_all add: of_nat_byte_eq)
    have enc: "form_byte b @ s = CHR ''%'' # hex_digit_upper m # hex_digit_upper n # s"
      using False by (simp add: form_byte_def percent_byte_def m_def n_def)
    have "plus_space (utf8 (form_byte b @ s)) =
        37 # of_nat (code (hex_digit_upper m)) # of_nat (code (hex_digit_upper n)) # plus_space (utf8 s)"
      unfolding enc using c(1,2) ne by (simp add: utf8_ascii)
    then show ?thesis using percent_bytes_hex [OF mn(1,2)] mn(3) by simp
  qed
qed

lemma form_decode_component [simp]: "form_decode (form_component s) = s"
proof -
  have "percent_bytes (plus_space (utf8 (concat (map form_byte bs)))) = bs" for bs
  proof (induction bs)
    case (Cons b bs)
    then show ?case using form_byte_decodes [of b "concat (map form_byte bs)"] by simp
  qed (simp add: utf8_def percent_bytes.simps)
  then show ?thesis by (simp add: form_decode_def form_component_def)
qed

lemma form_byte_chars: "c \<in> set (form_byte b) \<Longrightarrow> c \<noteq> CHR ''&'' \<and> c \<noteq> CHR ''=''"
proof -
  have u: "code (hex_digit_upper k) \<noteq> 38 \<and> code (hex_digit_upper k) \<noteq> 61" if "k < 16" for k
    using that by (simp add: hex_upper_code)
  assume c: "c \<in> set (form_byte b)"
  have "code c \<noteq> 38 \<and> code c \<noteq> 61"
  proof (cases "unat b = 32 \<or> form_safe (unat b)")
    case True
    then show ?thesis using c unat_byte [of b]
      by (auto simp: form_byte_def code_char_of form_safe_def split: if_splits)
  next
    case False
    then show ?thesis using c u byte_div_16 [of b]
      by (auto simp: form_byte_def percent_byte_def)
  qed
  then show ?thesis by auto
qed

lemma form_component_chars: "c \<in> set (form_component s) \<Longrightarrow> c \<noteq> CHR ''&'' \<and> c \<noteq> CHR ''=''"
  using form_byte_chars by (auto simp: form_component_def)

lemma form_parse_pair_pair: "form_parse_pair (form_pair e) = e"
proof -
  have k: "takeWhile (\<lambda>c. c \<noteq> CHR ''='') (form_component (fst e) @ CHR ''='' # t) = form_component (fst e)"
    "dropWhile (\<lambda>c. c \<noteq> CHR ''='') (form_component (fst e) @ CHR ''='' # t) = CHR ''='' # t" for t
    using form_component_chars by (auto simp: takeWhile_append dropWhile_append)
  show ?thesis by (simp add: form_parse_pair_def form_pair_def k)
qed

text \<open>Reading back a serialised list of pairs gives the list: no value can add or change a parameter.\<close>

theorem form_parse_serialize: "form_parse (form_serialize kvs) = kvs"
proof (cases "kvs = []")
  case False
  have "split_on (CHR ''&'') (form_serialize kvs) = map form_pair kvs"
    unfolding form_serialize_def
    by (rule split_join) (use False in \<open>auto simp: form_pair_def dest: form_component_chars\<close>)
  moreover have "filter (\<lambda>p. p \<noteq> []) (map form_pair kvs) = map form_pair kvs"
    by (rule filter_True) (auto simp: form_pair_def)
  ultimately show ?thesis by (simp add: form_parse_def form_parse_pair_pair map_idI)
qed (simp add: form_parse_def form_serialize_def)

end
