(* ===== verification/Codecs.thy ===== *)
theory Codecs
  imports JsString
begin

unbundle bit_operations_syntax

text \<open>
  The textual codecs the program implements itself: the base32 of enrollment codes
  (\<^verbatim>\<open>broker/src/enrollment-store.ts\<close>) and the unpadded base64url of the device identity
  (\<^verbatim>\<open>src/auth/device-identity.ts\<close>).  Both work on 32-bit integers, where shifting out of range
  loses bits.  Each is related to one reference: the string of bits, most significant first.
\<close>

section \<open>Words as bit strings\<close>

definition bits_msb :: "nat \<Rightarrow> 'a::len word \<Rightarrow> bool list" where
  "bits_msb n w = map (bit w) (rev [0..<n])"

lemma length_bits_msb [simp]: "length (bits_msb n w) = n"
  by (simp add: bits_msb_def)

lemma bits_msb_0 [simp]: "bits_msb 0 w = []"
  by (simp add: bits_msb_def)

lemma nth_bits_msb: "i < n \<Longrightarrow> bits_msb n w ! i = bit w (n - Suc i)"
  by (simp add: bits_msb_def rev_nth)

lemma bits_msb_eqI:
  "(\<And>i. i < n \<Longrightarrow> bit v i = bit w i) \<Longrightarrow> bits_msb n v = bits_msb n w"
  by (simp add: bits_msb_def)

lemma bits_msb_eqD: "bits_msb n v = bits_msb n w \<Longrightarrow> i < n \<Longrightarrow> bit v i = bit w i"
  by (auto simp: bits_msb_def)

lemma bits_msb_split: "bits_msb (m + n) w = bits_msb m (drop_bit n w) @ bits_msb n w"
proof (rule nth_equalityI)
  fix i assume "i < length (bits_msb (m + n) w)"
  then have i: "i < m + n" by simp
  show "bits_msb (m + n) w ! i = (bits_msb m (drop_bit n w) @ bits_msb n w) ! i"
  proof (cases "i < m")
    case True
    then have "n + (m - Suc i) = m + n - Suc i" by simp
    with True i show ?thesis by (simp add: nth_append nth_bits_msb bit_drop_bit_eq)
  next
    case False
    with i show ?thesis by (simp add: nth_append nth_bits_msb add.commute)
  qed
qed simp

lemma bits_msb_shift_or:
  assumes "\<And>i. n \<le> i \<Longrightarrow> \<not> bit u i" and "m + n \<le> LENGTH('a::len)"
  shows "bits_msb (m + n) (push_bit n v OR u :: 'a word) = bits_msb m v @ bits_msb n u"
proof (rule nth_equalityI)
  fix i assume "i < length (bits_msb (m + n) (push_bit n v OR u))"
  then have i: "i < m + n" by simp
  show "bits_msb (m + n) (push_bit n v OR u) ! i = (bits_msb m v @ bits_msb n u) ! i"
  proof (cases "i < m")
    case True
    then obtain k where k: "m = Suc (i + k)" by (metis less_iff_Suc_add)
    then have "m + n - Suc i = n + k" "m - Suc i = k" by simp_all
    with True k assms show ?thesis
      by (simp add: nth_append nth_bits_msb bit_or_iff bit_push_bit_iff)
  next
    case False
    with i have "\<not> n \<le> m + n - Suc i" "m \<le> i" by simp_all
    with False i assms(2) show ?thesis
      by (simp add: nth_append nth_bits_msb bit_or_iff bit_push_bit_iff add.commute)
  qed
qed simp

lemma bits_msb_and_mask: "n \<le> m \<Longrightarrow> bits_msb n (w AND mask m) = bits_msb n w"
  by (rule bits_msb_eqI) (auto simp: bit_and_iff bit_mask_iff dest: bit_imp_le_length)

lemma bits_msb_byte_inject: "bits_msb 8 (v :: byte) = bits_msb 8 w \<Longrightarrow> v = w"
  by (rule bit_word_eqI) (auto dest: bits_msb_eqD)

definition bits_of_bytes :: "bytes \<Rightarrow> bool list" where
  "bits_of_bytes bs = concat (map (bits_msb 8) bs)"

lemma bits_of_bytes_simps [simp]:
  "bits_of_bytes [] = []" "bits_of_bytes (b # bs) = bits_msb 8 b @ bits_of_bytes bs"
  "bits_of_bytes (xs @ ys) = bits_of_bytes xs @ bits_of_bytes ys"
  by (simp_all add: bits_of_bytes_def)

lemma length_bits_of_bytes [simp]: "length (bits_of_bytes bs) = 8 * length bs"
  by (induction bs) auto

lemma bits_of_bytes_inject: "bits_of_bytes xs = bits_of_bytes ys \<Longrightarrow> xs = ys"
proof (induction xs arbitrary: ys)
  case Nil
  then show ?case by (cases ys) (auto simp flip: length_0_conv)
next
  case (Cons x xs)
  from Cons.prems have "length (bits_of_bytes (x # xs)) = length (bits_of_bytes ys)" by simp
  then obtain y ys' where "ys = y # ys'" by (cases ys) auto
  with Cons show ?case by (auto dest: bits_msb_byte_inject)
qed

text \<open>The value of a symbol of an alphabet and the bits it carries.\<close>

fun index_of :: "string \<Rightarrow> char \<Rightarrow> nat option" where
  "index_of [] c = None"
| "index_of (a # as) c = (if a = c then Some 0 else map_option Suc (index_of as c))"

lemma index_of_nth: "distinct as \<Longrightarrow> i < length as \<Longrightarrow> index_of as (as ! i) = Some i"
proof (induction as arbitrary: i)
  case (Cons a as)
  then show ?case by (cases i) auto
qed simp

lemma index_of_Some: "index_of as c = Some i \<Longrightarrow> i < length as \<and> as ! i = c"
  by (induction as arbitrary: i) (auto split: if_splits)

lemma index_of_None: "index_of as c = None \<longleftrightarrow> c \<notin> set as"
  by (induction as) auto

definition symbol_bits :: "string \<Rightarrow> nat \<Rightarrow> char \<Rightarrow> bool list" where
  "symbol_bits al n c = bits_msb n (of_nat (case index_of al c of None \<Rightarrow> 0 | Some i \<Rightarrow> i) :: 32 word)"

lemma length_symbol_bits [simp]: "length (symbol_bits al n c) = n"
  by (simp add: symbol_bits_def)

definition text_bits :: "string \<Rightarrow> nat \<Rightarrow> string \<Rightarrow> bool list" where
  "text_bits al n s = concat (map (symbol_bits al n) s)"

lemma text_bits_simps [simp]:
  "text_bits al n [] = []" "text_bits al n (c # s) = symbol_bits al n c @ text_bits al n s"
  "text_bits al n (s @ t) = text_bits al n s @ text_bits al n t"
  by (simp_all add: text_bits_def)

lemma length_text_bits [simp]: "length (text_bits al n s) = n * length s"
  by (induction s) auto

lemma unat_and_mask_less: "unat ((w :: 'a::len word) AND mask m) < 2 ^ m"
  by (simp add: unsigned_take_bit_eq flip: take_bit_eq_mask)

lemma symbol_bits_nth:
  assumes "distinct al" "length al = 2 ^ n" "n < 32"
  shows "symbol_bits al n (al ! unat ((w :: 32 word) AND mask n)) = bits_msb n w"
proof -
  have "unat (w AND mask n) < length al"
    using assms(2,3) unat_and_mask_less [of w n] by simp
  then have "index_of al (al ! unat (w AND mask n)) = Some (unat (w AND mask n))"
    by (rule index_of_nth [OF assms(1)])
  then show ?thesis
    by (simp add: symbol_bits_def bits_msb_and_mask)
qed

section \<open>Base32 of enrollment codes\<close>

text \<open>\<^verbatim>\<open>encodeBase32\<close>: the inner \<^verbatim>\<open>while\<close> loop, the loop over the bytes, the final symbol.\<close>

definition b32_alphabet :: string where
  "b32_alphabet = ''0123456789ABCDEFGHJKMNPQRSTVWXYZ''"

fun b32_flush :: "32 word \<Rightarrow> nat \<Rightarrow> string \<Rightarrow> nat \<times> string" where
  "b32_flush value bits output = (if 5 \<le> bits
     then b32_flush value (bits - 5)
       (output @ [b32_alphabet ! unat (drop_bit (bits - 5) value AND 31)])
     else (bits, output))"

declare b32_flush.simps [simp del]

fun b32_bytes :: "32 word \<Rightarrow> nat \<Rightarrow> string \<Rightarrow> bytes \<Rightarrow> 32 word \<times> nat \<times> string" where
  "b32_bytes value bits output [] = (value, bits, output)"
| "b32_bytes value bits output (b # bs) =
    (let value' = push_bit 8 value OR ucast b;
         (bits', output') = b32_flush value' (bits + 8) output
     in b32_bytes value' bits' output' bs)"

definition encodeBase32 :: "bytes \<Rightarrow> string" where
  "encodeBase32 bs = (case b32_bytes 0 0 [] bs of (value, bits, output) \<Rightarrow>
     if 0 < bits then output @ [b32_alphabet ! unat (push_bit (5 - bits) value AND 31)]
     else output)"

lemma b32_alphabet_facts: "distinct b32_alphabet" "length b32_alphabet = 2 ^ 5"
  by (simp_all add: b32_alphabet_def)

lemma mask_5: "(31 :: 32 word) = mask 5" and mask_6: "(63 :: 32 word) = mask 6"
  and mask_8: "(255 :: 32 word) = mask 8"
  by (simp_all add: mask_eq_exp_minus_1)

lemma b32_symbol: "symbol_bits b32_alphabet 5 (b32_alphabet ! unat ((w :: 32 word) AND 31)) = bits_msb 5 w"
  unfolding mask_5 by (rule symbol_bits_nth [OF b32_alphabet_facts]) simp

lemma b32_flush_bits:
  "b32_flush v n out = (n', out') \<Longrightarrow>
     n' < 5 \<and> text_bits b32_alphabet 5 out' @ bits_msb n' v
       = text_bits b32_alphabet 5 out @ bits_msb n v"
proof (induction v n out rule: b32_flush.induct)
  case (1 v n out)
  show ?case
  proof (cases "5 \<le> n")
    case True
    then have "bits_msb n v = bits_msb 5 (drop_bit (n - 5) v) @ bits_msb (n - 5) v"
      using bits_msb_split [of 5 "n - 5" v] by simp
    with True 1 show ?thesis
      by (subst (asm) (2) b32_flush.simps) (simp add: b32_symbol)
  next
    case False
    with "1.prems" show ?thesis by (simp add: b32_flush.simps)
  qed
qed

lemma bit_ucast_byte: "bit (ucast (b :: byte) :: 32 word) i \<longleftrightarrow> bit b i"
  by (auto simp: bit_ucast_iff dest: bit_imp_le_length)

lemma b32_bytes_bits:
  "n < 5 \<Longrightarrow> b32_bytes v n out bs = (v', n', out') \<Longrightarrow>
     n' < 5 \<and> text_bits b32_alphabet 5 out' @ bits_msb n' v'
       = text_bits b32_alphabet 5 out @ bits_msb n v @ bits_of_bytes bs"
proof (induction bs arbitrary: v n out)
  case (Cons b bs)
  let ?v = "push_bit 8 v OR ucast b :: 32 word"
  obtain n1 out1 where fl: "b32_flush ?v (n + 8) out = (n1, out1)" by fastforce
  from b32_flush_bits [OF this] have n1: "n1 < 5"
    and bits: "text_bits b32_alphabet 5 out1 @ bits_msb n1 ?v
      = text_bits b32_alphabet 5 out @ bits_msb (n + 8) ?v" by auto
  have "\<not> bit (ucast b :: 32 word) i" if "8 \<le> i" for i
    using that by (auto simp: bit_ucast_byte dest: bit_imp_le_length)
  then have "bits_msb (n + 8) ?v = bits_msb n v @ bits_msb 8 (ucast b :: 32 word)"
    using Cons.prems(1) by (intro bits_msb_shift_or) simp_all
  moreover have "bits_msb 8 (ucast b :: 32 word) = bits_msb 8 b"
    by (simp add: bits_msb_def bit_ucast_byte fun_eq_iff)
  ultimately show ?case
    using Cons.IH [OF n1] Cons.prems(2) fl bits by fastforce
qed simp

lemma bits_msb_zero: "bits_msb n (0 :: 'a::len word) = replicate n False"
  by (rule nth_equalityI) (simp_all add: nth_bits_msb)

lemma bits_msb_push: "m + n \<le> LENGTH('a::len) \<Longrightarrow>
    bits_msb (m + n) (push_bit n (v :: 'a word)) = bits_msb m v @ replicate n False"
  using bits_msb_shift_or [of n "0 :: 'a word" m v] by (simp add: bits_msb_zero)

text \<open>The output is the input's bit string in groups of five, padded with zero bits.\<close>

lemma encodeBase32_bits:
  "\<exists>p < 5. text_bits b32_alphabet 5 (encodeBase32 bs) = bits_of_bytes bs @ replicate p False"
proof -
  obtain v n out where run: "b32_bytes 0 0 [] bs = (v, n, out)" by (metis prod_cases3)
  then have n: "n < 5" and bits: "text_bits b32_alphabet 5 out @ bits_msb n v = bits_of_bytes bs"
    using b32_bytes_bits [OF _ run] by auto
  show ?thesis
  proof (cases "n = 0")
    case True
    with run bits show ?thesis by (intro exI [of _ 0]) (simp add: encodeBase32_def)
  next
    case False
    with n have "bits_msb 5 (push_bit (5 - n) v) = bits_msb n v @ replicate (5 - n) False"
      using bits_msb_push [of n "5 - n" v] by simp
    with False run bits show ?thesis
      by (intro exI [of _ "5 - n"]) (simp add: encodeBase32_def b32_symbol flip: append_assoc)
  qed
qed

lemma length_encodeBase32: "\<exists>p < 5. 5 * length (encodeBase32 bs) = 8 * length bs + p"
proof -
  obtain p where "p < 5"
    and eq: "text_bits b32_alphabet 5 (encodeBase32 bs) = bits_of_bytes bs @ replicate p False"
    using encodeBase32_bits by blast
  from arg_cong [OF eq, of length] \<open>p < 5\<close> show ?thesis by auto
qed

lemma encodeBase32_inject:
  assumes "length xs = length ys" "encodeBase32 xs = encodeBase32 ys"
  shows "xs = ys"
proof -
  obtain p q where "bits_of_bytes xs @ replicate p False = bits_of_bytes ys @ replicate q False"
    using encodeBase32_bits [of xs] encodeBase32_bits [of ys] assms(2) by metis
  with assms(1) have "bits_of_bytes xs = bits_of_bytes ys"
    by (simp add: append_eq_append_conv)
  then show ?thesis by (rule bits_of_bytes_inject)
qed

lemma b32_nth_mem: "b32_alphabet ! unat (w AND (31 :: 32 word)) \<in> set b32_alphabet"
  unfolding mask_5 by (rule nth_mem) (simp only: b32_alphabet_facts unat_and_mask_less)

lemma b32_flush_symbols: "set out \<subseteq> set b32_alphabet \<Longrightarrow> b32_flush v n out = (n', out') \<Longrightarrow>
    set out' \<subseteq> set b32_alphabet"
proof (induction v n out rule: b32_flush.induct)
  case (1 v n out)
  then show ?case
    by (subst (asm) (2) b32_flush.simps) (auto simp: b32_nth_mem split: if_splits)
qed

lemma b32_bytes_symbols: "set out \<subseteq> set b32_alphabet \<Longrightarrow> b32_bytes v n out bs = (v', n', out') \<Longrightarrow>
    set out' \<subseteq> set b32_alphabet"
proof (induction bs arbitrary: v n out)
  case (Cons b bs)
  let ?v = "push_bit 8 v OR ucast b :: 32 word"
  obtain n1 out1 where fl: "b32_flush ?v (n + 8) out = (n1, out1)" by fastforce
  with Cons.prems have "b32_bytes ?v n1 out1 bs = (v', n', out')" by simp
  with Cons.IH b32_flush_symbols [OF Cons.prems(1) fl] show ?case by blast
qed simp

lemma encodeBase32_symbols: "set (encodeBase32 bs) \<subseteq> set b32_alphabet"
proof -
  obtain v n out where run: "b32_bytes 0 0 [] bs = (v, n, out)" by (metis prod_cases3)
  then have "set out \<subseteq> set b32_alphabet" by (rule b32_bytes_symbols [rotated]) simp
  with run show ?thesis by (simp add: encodeBase32_def b32_nth_mem)
qed

section \<open>Base64url of the device identity\<close>

definition BASE64_ALPHABET :: string where
  "BASE64_ALPHABET = ''ABCDEFGHIJKLMNOPQRSTUVWXYZabcdefghijklmnopqrstuvwxyz0123456789+/''"

definition to_url_char :: "char \<Rightarrow> char" where
  "to_url_char c = (if c = CHR ''+'' then CHR ''-'' else if c = CHR ''/'' then CHR ''_'' else c)"

definition from_url_char :: "char \<Rightarrow> char" where
  "from_url_char c = (if c = CHR ''-'' then CHR ''+'' else if c = CHR ''_'' then CHR ''/'' else c)"

definition is_b64url_char :: "char \<Rightarrow> bool" where
  "is_b64url_char c \<longleftrightarrow> is_alnum c \<or> c = CHR ''_'' \<or> c = CHR ''-''"

text \<open>One pass of the encoder's loop reads up to three bytes; a missing byte counts as zero.\<close>

definition b64_triplet :: "byte \<Rightarrow> byte \<Rightarrow> byte \<Rightarrow> 32 word" where
  "b64_triplet a b c = (push_bit 16 (ucast a) OR push_bit 8 (ucast b)) OR ucast c"

definition b64_symbol :: "32 word \<Rightarrow> nat \<Rightarrow> char" where
  "b64_symbol t k = BASE64_ALPHABET ! unat (signed_drop_bit k t AND 63)"

fun b64_groups :: "bytes \<Rightarrow> string" where
  "b64_groups [] = []"
| "b64_groups [a] = (let t = b64_triplet a 0 0 in [b64_symbol t 18, b64_symbol t 12])"
| "b64_groups [a, b] =
    (let t = b64_triplet a b 0 in [b64_symbol t 18, b64_symbol t 12, b64_symbol t 6])"
| "b64_groups (a # b # c # bs) =
    (let t = b64_triplet a b c
     in [b64_symbol t 18, b64_symbol t 12, b64_symbol t 6, b64_symbol t 0] @ b64_groups bs)"

definition toBase64Url :: "bytes \<Rightarrow> string" where
  "toBase64Url bs = map to_url_char (b64_groups bs)"

text \<open>The decoder's accumulator is a signed 32-bit integer that is never masked.\<close>

fun b64_accumulate :: "32 word \<Rightarrow> nat \<Rightarrow> bytes \<Rightarrow> string \<Rightarrow> bytes option" where
  "b64_accumulate acc bits out [] = Some out"
| "b64_accumulate acc bits out (c # s) = (case index_of BASE64_ALPHABET c of
     None \<Rightarrow> None
   | Some i \<Rightarrow>
      (let acc' = push_bit 6 acc OR of_nat i; bits' = bits + 6
       in if 8 \<le> bits'
          then b64_accumulate acc' (bits' - 8)
                 (out @ [ucast (signed_drop_bit (bits' - 8) acc' AND 255)]) s
          else b64_accumulate acc' bits' out s))"

datatype codec_error = NotBase64Url

definition fromBase64Url :: "string \<Rightarrow> (codec_error, bytes) result" where
  "fromBase64Url s = (if \<not> list_all is_b64url_char s then Inl NotBase64Url
     else case b64_accumulate 0 0 [] (map from_url_char s) of
       None \<Rightarrow> Inl NotBase64Url
     | Some bs \<Rightarrow> Inr bs)"

lemma b64_alphabet_facts: "distinct BASE64_ALPHABET" "length BASE64_ALPHABET = 2 ^ 6"
  by (simp_all add: BASE64_ALPHABET_def)

lemma bits_msb_signed_drop: "k + n \<le> 32 \<Longrightarrow>
    bits_msb n (signed_drop_bit k (w :: 32 word)) = bits_msb n (drop_bit k w)"
  by (rule bits_msb_eqI) (auto simp: bit_signed_drop_bit_iff bit_drop_bit_eq)

lemma b64_symbol_bits:
  "k + 6 \<le> 32 \<Longrightarrow> symbol_bits BASE64_ALPHABET 6 (b64_symbol t k) = bits_msb 6 (drop_bit k t)"
  unfolding b64_symbol_def mask_6
  by (subst symbol_bits_nth [OF b64_alphabet_facts]) (simp_all add: bits_msb_signed_drop)

lemma bit_byte_high: "8 \<le> i \<Longrightarrow> \<not> bit (b :: byte) i"
  by (auto dest: bit_imp_le_length)

lemma bits_msb_ucast_byte: "bits_msb 8 (ucast (b :: byte) :: 32 word) = bits_msb 8 b"
  by (simp add: bits_msb_def bit_ucast_byte fun_eq_iff)

lemma b64_triplet_bits: "bits_msb 24 (b64_triplet a b c) = bits_msb 8 a @ bits_msb 8 b @ bits_msb 8 c"
proof -
  let ?h = "push_bit 8 (ucast a) OR ucast b :: 32 word"
  have t: "b64_triplet a b c = push_bit 8 ?h OR ucast c"
    by (rule bit_word_eqI)
      (auto simp: b64_triplet_def bit_or_iff bit_push_bit_iff bit_ucast_byte)
  have "bits_msb (16 + 8) (push_bit 8 ?h OR ucast c) = bits_msb 16 ?h @ bits_msb 8 (ucast c :: 32 word)"
    by (rule bits_msb_shift_or) (simp_all add: bit_ucast_byte bit_byte_high)
  moreover have "bits_msb (8 + 8) ?h = bits_msb 8 (ucast a :: 32 word) @ bits_msb 8 (ucast b :: 32 word)"
    by (rule bits_msb_shift_or) (simp_all add: bit_ucast_byte bit_byte_high)
  ultimately show ?thesis by (simp add: t bits_msb_ucast_byte)
qed

lemma bits_msb_24_split: "bits_msb 24 t = bits_msb 6 (drop_bit 18 t) @ bits_msb 6 (drop_bit 12 t)
    @ bits_msb 6 (drop_bit 6 t) @ bits_msb 6 (drop_bit 0 t)"
  using bits_msb_split [of 6 18 t] bits_msb_split [of 6 12 t] bits_msb_split [of 6 6 t] by simp

lemma bits_msb_byte_zero: "bits_msb 8 (0 :: byte) = replicate 8 False"
  by (rule bits_msb_zero)

lemma b64_groups_bits:
  "\<exists>p < 6. text_bits BASE64_ALPHABET 6 (b64_groups bs) = bits_of_bytes bs @ replicate p False"
proof (induction bs rule: b64_groups.induct)
  case 1
  then show ?case by (intro exI [of _ 0]) simp
next
  case (2 a)
  let ?t = "b64_triplet a 0 0"
  have "(bits_msb 6 (drop_bit 18 ?t) @ bits_msb 6 (drop_bit 12 ?t))
      @ (bits_msb 6 (drop_bit 6 ?t) @ bits_msb 6 (drop_bit 0 ?t))
    = (bits_msb 8 a @ replicate 4 False) @ replicate 12 False"
    using b64_triplet_bits [of a 0 0] by (simp add: bits_msb_24_split bits_msb_byte_zero
      flip: replicate_add)
  then have "bits_msb 6 (drop_bit 18 ?t) @ bits_msb 6 (drop_bit 12 ?t) = bits_msb 8 a @ replicate 4 False"
    by (subst (asm) append_eq_append_conv) auto
  then show ?case by (intro exI [of _ 4]) (simp add: Let_def b64_symbol_bits)
next
  case (3 a b)
  let ?t = "b64_triplet a b 0"
  have "(bits_msb 6 (drop_bit 18 ?t) @ bits_msb 6 (drop_bit 12 ?t) @ bits_msb 6 (drop_bit 6 ?t))
      @ bits_msb 6 (drop_bit 0 ?t)
    = (bits_msb 8 a @ bits_msb 8 b @ replicate 2 False) @ replicate 6 False"
    using b64_triplet_bits [of a b 0] by (simp add: bits_msb_24_split bits_msb_byte_zero
      flip: replicate_add)
  then have "bits_msb 6 (drop_bit 18 ?t) @ bits_msb 6 (drop_bit 12 ?t) @ bits_msb 6 (drop_bit 6 ?t)
      = bits_msb 8 a @ bits_msb 8 b @ replicate 2 False"
    by (subst (asm) append_eq_append_conv) auto
  then show ?case by (intro exI [of _ 2]) (simp add: Let_def b64_symbol_bits)
next
  case (4 a b c bs)
  then obtain p where "p < 6"
    "text_bits BASE64_ALPHABET 6 (b64_groups bs) = bits_of_bytes bs @ replicate p False"
    by (auto simp: Let_def)
  then show ?case
    using b64_triplet_bits [of a b c]
    by (intro exI [of _ p]) (simp add: Let_def b64_symbol_bits bits_msb_24_split flip: append_assoc)
qed

lemma of_nat_symbol_high:
  "i < 64 \<Longrightarrow> 6 \<le> j \<Longrightarrow> \<not> bit (of_nat i :: 32 word) j"
proof -
  assume "i < 64" "6 \<le> j"
  then have "take_bit 6 (of_nat i :: 32 word) = of_nat i"
    by (simp add: take_bit_of_nat take_bit_nat_eq_self flip: of_nat_take_bit)
  then show ?thesis
    using \<open>6 \<le> j\<close> by (metis bit_take_bit_iff not_less)
qed

lemma bits_msb_low_byte:
  "k + 8 \<le> 32 \<Longrightarrow>
     bits_msb 8 (ucast (signed_drop_bit k (w :: 32 word) AND 255) :: byte) = bits_msb 8 (drop_bit k w)"
  unfolding bits_msb_def
  by (rule map_cong [OF refl])
    (auto simp: bit_ucast_iff bit_and_iff mask_8 bit_mask_iff bit_signed_drop_bit_iff bit_drop_bit_eq)

text \<open>The decoder emits the text's bits in groups of eight and keeps fewer than eight pending.\<close>

lemma b64_accumulate_bits:
  "n < 8 \<Longrightarrow> b64_accumulate acc n out s = Some out' \<Longrightarrow>
     \<exists>rest. length rest < 8 \<and> bits_of_bytes out' @ rest
       = bits_of_bytes out @ bits_msb n acc @ text_bits BASE64_ALPHABET 6 s"
proof (induction s arbitrary: acc n out)
  case (Cons c s)
  from Cons.prems(2) obtain i where i: "index_of BASE64_ALPHABET c = Some i"
    by (cases "index_of BASE64_ALPHABET c") auto
  then have "i < 64" using index_of_Some b64_alphabet_facts(2) by fastforce
  let ?acc = "push_bit 6 acc OR of_nat i :: 32 word"
  have acc: "bits_msb (n + 6) ?acc = bits_msb n acc @ symbol_bits BASE64_ALPHABET 6 c"
    using Cons.prems(1) of_nat_symbol_high [OF \<open>i < 64\<close>] i
    by (subst bits_msb_shift_or) (simp_all add: symbol_bits_def)
  show ?case
  proof (cases "8 \<le> n + 6")
    case False
    with Cons.IH [of "n + 6" ?acc out] Cons.prems(2) i acc show ?thesis by (simp add: Let_def)
  next
    case True
    let ?b = "ucast (signed_drop_bit (n + 6 - 8) ?acc AND 255) :: byte"
    have "bits_msb 8 ?b = bits_msb 8 (drop_bit (n + 6 - 8) ?acc)"
      using Cons.prems(1) by (intro bits_msb_low_byte) simp
    then have "bits_msb 8 ?b @ bits_msb (n + 6 - 8) ?acc = bits_msb n acc @ symbol_bits BASE64_ALPHABET 6 c"
      using bits_msb_split [of 8 "n + 6 - 8" ?acc] True acc by (simp add: add.commute)
    then have pend: "bits_msb 8 ?b @ bits_msb (n + 6 - 8) ?acc @ t
        = bits_msb n acc @ symbol_bits BASE64_ALPHABET 6 c @ t" for t
      by (simp only: append_assoc [symmetric])
    have "n + 6 - 8 < 8" using Cons.prems(1) by simp
    with Cons.prems i True obtain rest where "length rest < 8" and
      "bits_of_bytes out' @ rest = bits_of_bytes (out @ [?b]) @ bits_msb (n + 6 - 8) ?acc
        @ text_bits BASE64_ALPHABET 6 s"
      using Cons.IH [of "n + 6 - 8" ?acc "out @ [?b]"] by (auto simp: Let_def)
    then show ?thesis
      by (intro exI [of _ rest]) (simp only: bits_of_bytes_simps text_bits_simps append_assoc
        append_Nil2 pend)
  qed
qed simp

lemma b64_accumulate_total:
  "set s \<subseteq> set BASE64_ALPHABET \<Longrightarrow> \<exists>out'. b64_accumulate acc n out s = Some out'"
proof (induction s arbitrary: acc n out)
  case (Cons c s)
  then obtain i where "index_of BASE64_ALPHABET c = Some i"
    using index_of_None [of BASE64_ALPHABET c] by (cases "index_of BASE64_ALPHABET c") auto
  with Cons show ?case by (simp add: Let_def)
qed simp

lemma b64_symbol_mem: "b64_symbol t k \<in> set BASE64_ALPHABET"
  unfolding b64_symbol_def mask_6
  by (rule nth_mem) (simp only: b64_alphabet_facts unat_and_mask_less)

lemma b64_groups_symbols: "set (b64_groups bs) \<subseteq> set BASE64_ALPHABET"
  by (induction bs rule: b64_groups.induct) (auto simp: Let_def b64_symbol_mem)

lemma alphabet_url_chars:
  "list_all (\<lambda>c. from_url_char (to_url_char c) = c \<and> is_b64url_char (to_url_char c)) BASE64_ALPHABET"
  by code_simp

lemma alphabet_url_char:
  "c \<in> set BASE64_ALPHABET \<Longrightarrow> from_url_char (to_url_char c) = c \<and> is_b64url_char (to_url_char c)"
  using alphabet_url_chars by (auto simp: list_all_iff)

lemma toBase64Url_chars: "list_all is_b64url_char (toBase64Url bs)"
  using b64_groups_symbols alphabet_url_char
  by (auto simp: toBase64Url_def list_all_iff)

lemma from_to_url: "map from_url_char (toBase64Url bs) = b64_groups bs"
  using b64_groups_symbols [of bs] alphabet_url_char
  by (auto simp: toBase64Url_def comp_def intro: map_idI)

lemma fromBase64Url_toBase64Url: "fromBase64Url (toBase64Url bs) = Inr bs"
proof -
  obtain out where out: "b64_accumulate 0 0 [] (b64_groups bs) = Some out"
    using b64_accumulate_total [OF b64_groups_symbols] by blast
  obtain rest where rest: "length rest < 8"
    "bits_of_bytes out @ rest = text_bits BASE64_ALPHABET 6 (b64_groups bs)"
    using b64_accumulate_bits [OF _ out] by auto
  obtain p where p: "p < 6"
    "text_bits BASE64_ALPHABET 6 (b64_groups bs) = bits_of_bytes bs @ replicate p False"
    using b64_groups_bits by blast
  from rest p have eq: "bits_of_bytes out @ rest = bits_of_bytes bs @ replicate p False" by simp
  from arg_cong [OF eq, of length] rest(1) p(1) have "length out = length bs" by simp
  with eq have "out = bs" by (simp add: append_eq_append_conv bits_of_bytes_inject)
  then show ?thesis
    by (simp add: fromBase64Url_def toBase64Url_chars from_to_url out)
qed

lemma toBase64Url_inject: "toBase64Url xs = toBase64Url ys \<Longrightarrow> xs = ys"
  by (metis fromBase64Url_toBase64Url sum.inject(2))

end
