(* ===== verification/Platform.thy ===== *)
theory Platform
  imports JsValue Codecs
begin

text \<open>
  What the program uses of the platform's cryptography, which is not part of the repository: a
  record of functions that every definition using it takes as an argument.  \<open>createPublicKey\<close> and
  the other fallible calls return \<open>None\<close> where the platform throws.
\<close>

datatype key_type = Ed25519 | X25519 | OtherKeyType

record key_object =
  asymmetricKeyType :: key_type
  key_spki :: bytes

record node_crypto =
  sha256 :: "bytes \<Rightarrow> bytes"
  createPublicKey :: "string \<Rightarrow> key_object option"
  verify_signature :: "bytes \<Rightarrow> key_object \<Rightarrow> bytes \<Rightarrow> bool"
  buffer_from_base64url :: "string \<Rightarrow> bytes"

text \<open>\<^verbatim>\<open>createHash("sha256").update(value, "utf8").digest("hex")\<close>.\<close>

definition sha256_hex :: "('x) node_crypto_scheme \<Rightarrow> string \<Rightarrow> string" where
  "sha256_hex N s = to_hex (sha256 N (utf8 s))"

text \<open>What the code relies on of SHA-256: a digest has 32 bytes.\<close>

definition digest_32 :: "('x) node_crypto_scheme \<Rightarrow> bool" where
  "digest_32 N \<longleftrightarrow> (\<forall>m. length (sha256 N m) = 32)"

lemma sha256_hex_nonempty: "digest_32 N \<Longrightarrow> sha256_hex N s \<noteq> []"
  by (metis digest_32_def length_to_hex list.size(3) sha256_hex_def mult_eq_0_iff zero_neq_numeral)

text \<open>
  A concrete instance for examples: the ``digest'' is the message padded or cut to 32 bytes, a key is
  its PEM text, whose first letter is its type, and a signature of a message is the message preceded
  by the key bytes.
\<close>

definition toy_crypto :: node_crypto where
  "toy_crypto = \<lparr> sha256 = (\<lambda>bs. take 32 (bs @ replicate 32 0)),
     createPublicKey = (\<lambda>pem. case pem of [] \<Rightarrow> None
       | c # _ \<Rightarrow> Some \<lparr> asymmetricKeyType =
           (if c = CHR ''E'' then Ed25519 else if c = CHR ''X'' then X25519 else OtherKeyType),
           key_spki = utf8 pem \<rparr>),
     verify_signature = (\<lambda>msg k sig. sig = key_spki k @ msg),
     buffer_from_base64url = utf8 \<rparr>"

lemma toy_digest_32 [simp]: "digest_32 toy_crypto"
  by (auto simp: digest_32_def toy_crypto_def min_def)

end
