(* ===== verification/Systems.thy ===== *)
theory Systems
  imports Prelude
begin

text \<open>
  The two contracts several components share, stated once as locales: a store whose operations keep
  an invariant, and a store of one-time tokens (enrollment codes, OAuth states, callback handles,
  lease nonces) in which a token that was consumed stays consumed until it is minted again.
\<close>

section \<open>Operations that keep an invariant\<close>

locale invariant_system =
  fixes step :: "'op \<Rightarrow> 's \<Rightarrow> 's"
    and inv :: "'s \<Rightarrow> bool"
  assumes step_inv: "inv s \<Longrightarrow> inv (step c s)"
begin

lemma run_inv: "inv s \<Longrightarrow> inv (fold step cs s)"
  by (induction cs arbitrary: s) (auto intro: step_inv)

lemma run_prefix_inv: "inv s \<Longrightarrow> inv (fold step (take n cs) s)"
  by (rule run_inv)

end

text \<open>
  A ranked entry may only climb: \<open>rank s k = None\<close> means the key is absent, and an operation may
  remove an entry or raise its rank, but neither lowers it nor brings in a key it does not mint.
\<close>

locale climbing_system = invariant_system step inv
  for step :: "'op \<Rightarrow> 's \<Rightarrow> 's" and inv :: "'s \<Rightarrow> bool" +
  fixes rank :: "'s \<Rightarrow> 'k \<Rightarrow> ('r :: linorder) option"
    and mints :: "'op \<Rightarrow> 's \<Rightarrow> 'k \<Rightarrow> bool"
  assumes step_climbs: "inv s \<Longrightarrow> \<not> mints c s k \<Longrightarrow> rank (step c s) k = Some r' \<Longrightarrow>
    \<exists>r. rank s k = Some r \<and> r \<le> r'"

primrec never_mints :: "('op \<Rightarrow> 's \<Rightarrow> 's) \<Rightarrow> ('op \<Rightarrow> 's \<Rightarrow> 'k \<Rightarrow> bool) \<Rightarrow> 'k \<Rightarrow> 'op list \<Rightarrow> 's \<Rightarrow> bool"
where
  "never_mints step mints k [] s = True"
| "never_mints step mints k (c # cs) s = (\<not> mints c s k \<and> never_mints step mints k cs (step c s))"

context climbing_system begin

lemma run_climbs:
  "inv s \<Longrightarrow> never_mints step mints k cs s \<Longrightarrow> rank (fold step cs s) k = Some r' \<Longrightarrow>
     \<exists>r. rank s k = Some r \<and> r \<le> r'"
proof (induction cs arbitrary: s)
  case (Cons c cs)
  from Cons.IH [of "step c s"] Cons.prems obtain r1
    where "rank (step c s) k = Some r1" "r1 \<le> r'" by (auto intro: step_inv)
  moreover from this(1) Cons.prems obtain r where "rank s k = Some r" "r \<le> r1"
    using step_climbs [of s c k r1] by auto
  ultimately show ?case by (blast intro: order_trans)
qed simp

lemma absent_stays_absent:
  "inv s \<Longrightarrow> never_mints step mints k cs s \<Longrightarrow> rank s k = None \<Longrightarrow> rank (fold step cs s) k = None"
  using run_climbs [of s k cs] by (cases "rank (fold step cs s) k") auto

end

section \<open>One-time tokens\<close>

datatype ('a, 'op) token_event = Attempt 'a | Other 'op

text \<open>The tokens consumed successfully along a run, in order, and the final state.\<close>

primrec consumed :: "('a \<Rightarrow> 's \<Rightarrow> bool \<times> 's) \<Rightarrow> ('op \<Rightarrow> 's \<Rightarrow> 's) \<Rightarrow> ('a \<Rightarrow> 't) \<Rightarrow>
    ('a, 'op) token_event list \<Rightarrow> 's \<Rightarrow> 't list" where
  "consumed attempt other token [] s = []"
| "consumed attempt other token (e # es) s = (case e of
     Attempt a \<Rightarrow> (case attempt a s of (ok, s') \<Rightarrow>
       (if ok then [token a] else []) @ consumed attempt other token es s')
   | Other c \<Rightarrow> consumed attempt other token es (other c s))"

primrec never_reminted :: "('a \<Rightarrow> 's \<Rightarrow> bool \<times> 's) \<Rightarrow> ('op \<Rightarrow> 's \<Rightarrow> 's) \<Rightarrow> ('op \<Rightarrow> 's \<Rightarrow> 't \<Rightarrow> bool) \<Rightarrow>
    't \<Rightarrow> ('a, 'op) token_event list \<Rightarrow> 's \<Rightarrow> bool" where
  "never_reminted attempt other mints t [] s = True"
| "never_reminted attempt other mints t (e # es) s = (case e of
     Attempt a \<Rightarrow> never_reminted attempt other mints t es (snd (attempt a s))
   | Other c \<Rightarrow> \<not> mints c s t \<and> never_reminted attempt other mints t es (other c s))"

locale one_shot =
  fixes attempt :: "'a \<Rightarrow> 's \<Rightarrow> bool \<times> 's"
    and other :: "'op \<Rightarrow> 's \<Rightarrow> 's"
    and token :: "'a \<Rightarrow> 't"
    and mints :: "'op \<Rightarrow> 's \<Rightarrow> 't \<Rightarrow> bool"
    and spent :: "'t \<Rightarrow> 's \<Rightarrow> bool"
    and inv :: "'s \<Rightarrow> bool"
  assumes attempt_inv: "inv s \<Longrightarrow> inv (snd (attempt a s))"
    and other_inv: "inv s \<Longrightarrow> inv (other c s)"
    and success_spends: "inv s \<Longrightarrow> fst (attempt a s) \<Longrightarrow> spent (token a) (snd (attempt a s))"
    and spent_refused: "inv s \<Longrightarrow> spent (token a) s \<Longrightarrow> \<not> fst (attempt a s)"
    and spent_attempt: "inv s \<Longrightarrow> spent t s \<Longrightarrow> spent t (snd (attempt a s))"
    and spent_other: "inv s \<Longrightarrow> spent t s \<Longrightarrow> \<not> mints c s t \<Longrightarrow> spent t (other c s)"
begin

lemma spent_never_consumed:
  "inv s \<Longrightarrow> spent t s \<Longrightarrow> never_reminted attempt other mints t es s \<Longrightarrow>
     count_list (consumed attempt other token es s) t = 0"
proof (induction es arbitrary: s)
  case (Cons e es)
  show ?case
  proof (cases e)
    case (Attempt a)
    obtain ok s' where at: "attempt a s = (ok, s')" by fastforce
    then have "spent t s'" "inv s'"
      using Cons.prems spent_attempt [of s t a] attempt_inv [of s a] by simp_all
    moreover have "ok \<Longrightarrow> token a \<noteq> t" using Cons.prems spent_refused [of s a] at by auto
    ultimately show ?thesis using Cons Attempt at by simp
  next
    case (Other c)
    with Cons spent_other [of s t c] other_inv [of s c] show ?thesis by simp
  qed
qed simp

lemma consumed_at_most_once:
  "inv s \<Longrightarrow> never_reminted attempt other mints t es s \<Longrightarrow>
     count_list (consumed attempt other token es s) t \<le> 1"
proof (induction es arbitrary: s)
  case (Cons e es)
  show ?case
  proof (cases e)
    case (Attempt a)
    obtain ok s' where at: "attempt a s = (ok, s')" by fastforce
    then have inv': "inv s'" using Cons.prems attempt_inv [of s a] by simp
    show ?thesis
    proof (cases "ok \<and> token a = t")
      case True
      then have "spent t s'" using success_spends [of s a] Cons.prems at by auto
      with True Cons.prems Attempt at inv' show ?thesis by (simp add: spent_never_consumed)
    next
      case False
      with Cons Attempt at inv' show ?thesis by auto
    qed
  next
    case (Other c)
    with Cons other_inv [of s c] show ?thesis by simp
  qed
qed simp

end

end
