(* ===== verification/Pairing.thy ===== *)
theory Pairing
  imports Platform Systems
begin

text \<open>
  \<^verbatim>\<open>broker/src/pairing-store.ts\<close>: the in-memory pairing handshake.  The class keeps four maps;
  every operation returns its result and the store it leaves behind, also where the code throws.
  The random bytes an operation draws and the clock reading it is given are arguments.
\<close>

section \<open>Data\<close>

datatype pairing_status = Pending | CallbackStateConsumed | Authorized | Enrolled | Revoked

text \<open>The order of the life cycle: \<open>Revoked\<close> lies above every other status.\<close>

primrec status_rank :: "pairing_status \<Rightarrow> nat" where
  "status_rank Pending = 0"
| "status_rank CallbackStateConsumed = 1"
| "status_rank Authorized = 2"
| "status_rank Enrolled = 3"
| "status_rank Revoked = 4"

instantiation pairing_status :: linorder
begin

definition less_eq_pairing_status :: "pairing_status \<Rightarrow> pairing_status \<Rightarrow> bool" where
  "less_eq_pairing_status a b \<longleftrightarrow> status_rank a \<le> status_rank b"

definition less_pairing_status :: "pairing_status \<Rightarrow> pairing_status \<Rightarrow> bool" where
  "less_pairing_status a b \<longleftrightarrow> status_rank a < status_rank b"

instance
proof
  fix a b c :: pairing_status
  show "(a < b) = (a \<le> b \<and> \<not> b \<le> a)"
    by (auto simp: less_eq_pairing_status_def less_pairing_status_def)
  show "a \<le> a" by (simp add: less_eq_pairing_status_def)
  show "a \<le> b \<Longrightarrow> b \<le> c \<Longrightarrow> a \<le> c" by (simp add: less_eq_pairing_status_def)
  show "a \<le> b \<Longrightarrow> b \<le> a \<Longrightarrow> a = b"
    by (cases a; cases b) (simp_all add: less_eq_pairing_status_def)
  show "a \<le> b \<or> b \<le> a" by (auto simp: less_eq_pairing_status_def)
qed

end

lemmas status_order = less_eq_pairing_status_def less_pairing_status_def

record pairing =
  devicePublicKey :: key_object
  deviceSigningPublicKeyPem :: string
  deviceEncryptionPublicKey :: key_object
  deviceEncryptionPublicKeyPem :: string
  pair_expiresAtMs :: int
  proofMessage :: string
  oauthStateHash :: string
  pkceVerifier :: string
  callbackHandleHash :: "string option"
  pair_status :: pairing_status

record nonce_state =
  pairKeyHash :: string
  nonce_expiresAtMs :: int

record created_pairing =
  created_pairId :: string
  created_oauthState :: string
  created_proofMessage :: string
  created_expiresAtMs :: int
  created_authorizationUrl :: "string option"

record consumed_state =
  consumed_handle :: string
  consumed_verifier :: string
  consumed_expiresAtMs :: int

datatype claim_rejection =
  ClaimUnknown | ClaimRevoked | ClaimExpired | ClaimNotAuthorized | ClaimInvalidProof

datatype nonce_rejection = NonceUnknown | NonceRevoked | NonceNotAuthorized

datatype lease_rejection =
    LeaseUnknown | LeaseRevoked | LeaseExpired | LeaseNotAuthorized | LeaseInvalidNonce
  | LeaseInvalidProof

datatype pairing_error =
    InvalidPairingCapacity | InvalidPairingExpiry | PairingCapacityReached | UnparsableKey
  | DeviceKeyNotEd25519 | EncryptionKeyNotX25519 | AuthorizationUrlFailed | InvalidNonceTtl

record pairing_store =
  pair_records :: "(string, pairing) omap"
  pair_states :: "(string, string) omap"
  pair_handles :: "(string, string) omap"
  pair_nonces :: "(string, nonce_state) omap"
  pair_max :: nat

definition MAX_PAIRING_TTL_MS :: int where "MAX_PAIRING_TTL_MS = 10 * 60000"
definition MAX_NONCE_TTL_MS :: int where "MAX_NONCE_TTL_MS = 120000"

definition pairHash :: "'x node_crypto_scheme \<Rightarrow> string \<Rightarrow> string" where
  "pairHash N pairId = sha256_hex N pairId"

definition stateHash :: "'x node_crypto_scheme \<Rightarrow> string \<Rightarrow> string" where
  "stateHash N v = sha256_hex N v"

definition encode :: "bytes \<Rightarrow> string" where
  "encode bs = toBase64Url bs"

definition new_pairing_store :: "number \<Rightarrow> (pairing_error, pairing_store) result" where
  "new_pairing_store cap = (case as_int cap of None \<Rightarrow> Inl InvalidPairingCapacity
     | Some n \<Rightarrow> if n < 1 then Inl InvalidPairingCapacity
         else Inr \<lparr> pair_records = [], pair_states = [], pair_handles = [], pair_nonces = [],
                    pair_max = nat n \<rparr>)"

section \<open>Operations\<close>

definition drop_nonces_for :: "string \<Rightarrow> pairing_store \<Rightarrow> pairing_store" where
  "drop_nonces_for key s = s\<lparr> pair_nonces := filter (\<lambda>(h, n). pairKeyHash n \<noteq> key) (pair_nonces s) \<rparr>"

definition evict_expired_nonces :: "int \<Rightarrow> pairing_store \<Rightarrow> pairing_store" where
  "evict_expired_nonces nowMs s =
     s\<lparr> pair_nonces := filter (\<lambda>(h, n). \<not> nowMs \<ge> nonce_expiresAtMs n) (pair_nonces s) \<rparr>"

text \<open>\<^verbatim>\<open>if (record.callbackHandleHash) this.callbackHandles.delete(...)\<close>; the empty string is falsy.\<close>

definition drop_handle :: "pairing \<Rightarrow> pairing_store \<Rightarrow> pairing_store" where
  "drop_handle r s = (case callbackHandleHash r of None \<Rightarrow> s
     | Some h \<Rightarrow> if h = [] then s else s\<lparr> pair_handles := mdel h (pair_handles s) \<rparr>)"

definition evict_pairing :: "int \<Rightarrow> string \<times> pairing \<Rightarrow> pairing_store \<Rightarrow> pairing_store" where
  "evict_pairing nowMs e s = (case e of (key, r) \<Rightarrow>
     if nowMs \<ge> pair_expiresAtMs r then
       let s1 = s\<lparr> pair_records := mdel key (pair_records s) \<rparr>;
           s2 = s1\<lparr> pair_states := mdel (oauthStateHash r) (pair_states s1) \<rparr>
       in drop_nonces_for key (drop_handle r s2)
     else s)"

text \<open>The loop over the map visits each entry it started with once.\<close>

definition evict_expired :: "int \<Rightarrow> pairing_store \<Rightarrow> pairing_store" where
  "evict_expired nowMs s = fold (evict_pairing nowMs) (pair_records s) s"

definition create_guard :: "number \<Rightarrow> number \<Rightarrow> (pairing_error, int \<times> int) result" where
  "create_guard nowMs ttlMs = (case (as_int nowMs, as_int ttlMs) of
     (Some t, Some d) \<Rightarrow> if d \<le> 0 \<or> d > MAX_PAIRING_TTL_MS then Inl InvalidPairingExpiry else Inr (t, d)
   | _ \<Rightarrow> Inl InvalidPairingExpiry)"

definition device_keys :: "'x node_crypto_scheme \<Rightarrow> string \<Rightarrow> string \<Rightarrow>
    (pairing_error, key_object \<times> key_object) result" where
  "device_keys N signPem encPem =
    (case createPublicKey N signPem of None \<Rightarrow> Inl UnparsableKey
     | Some dk \<Rightarrow> if asymmetricKeyType dk \<noteq> Ed25519 then Inl DeviceKeyNotEd25519
       else case createPublicKey N encPem of None \<Rightarrow> Inl UnparsableKey
       | Some ek \<Rightarrow> if asymmetricKeyType ek \<noteq> X25519 then Inl EncryptionKeyNotX25519
         else Inr (dk, ek))"

definition proof_message :: "'x node_crypto_scheme \<Rightarrow> string \<Rightarrow> int \<Rightarrow> string" where
  "proof_message N pairId e = ''gdrive-stream-pair-v1:'' @ pairHash N pairId @ '':'' @ dec_int e"

definition pending_pairing :: "'x node_crypto_scheme \<Rightarrow> string \<Rightarrow> string \<Rightarrow> key_object \<Rightarrow> key_object \<Rightarrow>
    string \<Rightarrow> string \<Rightarrow> string \<Rightarrow> int \<Rightarrow> pairing" where
  "pending_pairing N signPem encPem dk ek pairId oauthState verifier e =
    \<lparr> devicePublicKey = dk, deviceSigningPublicKeyPem = signPem, deviceEncryptionPublicKey = ek,
      deviceEncryptionPublicKeyPem = encPem, pair_expiresAtMs = e,
      proofMessage = proof_message N pairId e, oauthStateHash = stateHash N oauthState,
      pkceVerifier = verifier, callbackHandleHash = None, pair_status = Pending \<rparr>"

text \<open>
  \<^verbatim>\<open>create\<close>: \<open>r1\<close>, \<open>r2\<close> and \<open>r3\<close> are the three draws of \<^verbatim>\<open>random(32)\<close>; \<open>authFor\<close> is the optional
  callback, \<open>None\<close> where it throws (the store is already changed then).
\<close>

definition create :: "'x node_crypto_scheme \<Rightarrow> bytes \<Rightarrow> bytes \<Rightarrow> bytes \<Rightarrow>
    (string \<Rightarrow> string \<Rightarrow> string option) option \<Rightarrow> string \<Rightarrow> string \<Rightarrow> number \<Rightarrow> number \<Rightarrow> pairing_store \<Rightarrow>
    (pairing_error, created_pairing) result \<times> pairing_store" where
  "create N r1 r2 r3 authFor signPem encPem nowMs ttlMs s =
    (case create_guard nowMs ttlMs of Inl e \<Rightarrow> (Inl e, s)
     | Inr (t, d) \<Rightarrow>
       (let s1 = evict_expired t s
        in if length (pair_records s1) \<ge> pair_max s1 then (Inl PairingCapacityReached, s1)
           else case device_keys N signPem encPem of Inl e \<Rightarrow> (Inl e, s1)
           | Inr (dk, ek) \<Rightarrow>
             (let pairId = to_hex r1; oauthState = encode r2; verifier = encode r3; e = t + d;
                  key = pairHash N pairId;
                  r = pending_pairing N signPem encPem dk ek pairId oauthState verifier e;
                  s2 = s1\<lparr> pair_records := mput key r (pair_records s1),
                           pair_states := mput (oauthStateHash r) key (pair_states s1) \<rparr>;
                  out = (\<lambda>u. \<lparr> created_pairId = pairId, created_oauthState = oauthState,
                           created_proofMessage = proofMessage r, created_expiresAtMs = e,
                           created_authorizationUrl = u \<rparr>)
              in case authFor of None \<Rightarrow> (Inr (out None), s2)
                 | Some f \<Rightarrow> (case f oauthState verifier of None \<Rightarrow> (Inl AuthorizationUrlFailed, s2)
                    | Some u \<Rightarrow> (Inr (out (if u = [] then None else Some u)), s2)))))"

definition consumeOAuthState :: "'x node_crypto_scheme \<Rightarrow> bytes \<Rightarrow> string \<Rightarrow> int \<Rightarrow> pairing_store \<Rightarrow>
    consumed_state option \<times> pairing_store" where
  "consumeOAuthState N random oauthState nowMs s =
    (let s1 = evict_expired nowMs s; h = stateHash N oauthState
     in case mget (pair_states s1) h of None \<Rightarrow> (None, s1)
     | Some key \<Rightarrow> if key = [] then (None, s1)
       else case mget (pair_records s1) key of None \<Rightarrow> (None, s1)
       | Some r \<Rightarrow> if oauthStateHash r \<noteq> h \<or> pair_status r \<noteq> Pending then (None, s1)
         else let handle = encode random; hh = stateHash N handle;
                  r' = r\<lparr> callbackHandleHash := Some hh, pair_status := CallbackStateConsumed \<rparr>
              in (Some \<lparr> consumed_handle = handle, consumed_verifier = pkceVerifier r,
                         consumed_expiresAtMs = pair_expiresAtMs r \<rparr>,
                  s1\<lparr> pair_states := mdel h (pair_states s1),
                      pair_handles := mput hh key (pair_handles s1),
                      pair_records := mput key r' (pair_records s1) \<rparr>))"

definition markAuthorized :: "'x node_crypto_scheme \<Rightarrow> string \<Rightarrow> int \<Rightarrow> pairing_store \<Rightarrow>
    bool \<times> pairing_store" where
  "markAuthorized N handle nowMs s =
    (let s1 = evict_expired nowMs s; hh = stateHash N handle
     in case mget (pair_handles s1) hh of None \<Rightarrow> (False, s1)
     | Some key \<Rightarrow> if key = [] then (False, s1)
       else case mget (pair_records s1) key of None \<Rightarrow> (False, s1)
       | Some r \<Rightarrow> if pair_status r \<noteq> CallbackStateConsumed \<or> callbackHandleHash r \<noteq> Some hh
         then (False, s1)
         else (True, s1\<lparr> pair_handles := mdel hh (pair_handles s1),
                pair_records := mput key (r\<lparr> callbackHandleHash := None, pair_status := Authorized \<rparr>)
                  (pair_records s1) \<rparr>))"

definition verifyProof :: "'x node_crypto_scheme \<Rightarrow> pairing \<Rightarrow> string \<Rightarrow> bytes option \<Rightarrow> bool" where
  "verifyProof N r pf message =
    (let payload = (case message of None \<Rightarrow> utf8 (proofMessage r) | Some m \<Rightarrow> m);
         sig = buffer_from_base64url N pf
     in if sig = [] then False else verify_signature N payload (devicePublicKey r) sig)"

definition openClaim :: "'x node_crypto_scheme \<Rightarrow> string \<Rightarrow> string \<Rightarrow> int \<Rightarrow> pairing_store \<Rightarrow>
    (claim_rejection, string \<times> string) result \<times> pairing_store" where
  "openClaim N pairId pf nowMs s =
    (let key = pairHash N pairId
     in case mget (pair_records s) key of None \<Rightarrow> (Inl ClaimUnknown, s)
     | Some r \<Rightarrow>
       if pair_status r = Revoked then (Inl ClaimRevoked, s)
       else if nowMs \<ge> pair_expiresAtMs r then
         (Inl ClaimExpired, drop_nonces_for key (s\<lparr> pair_records := mdel key (pair_records s),
            pair_states := mdel (oauthStateHash r) (pair_states s) \<rparr>))
       else if pair_status r \<noteq> Authorized then (Inl ClaimNotAuthorized, s)
       else if \<not> verifyProof N r pf None then (Inl ClaimInvalidProof, s)
       else (Inr (deviceSigningPublicKeyPem r, deviceEncryptionPublicKeyPem r),
             s\<lparr> pair_records := mput key (r\<lparr> pair_status := Enrolled \<rparr>) (pair_records s) \<rparr>))"

definition claim :: "'x node_crypto_scheme \<Rightarrow> string \<Rightarrow> string \<Rightarrow> int \<Rightarrow> pairing_store \<Rightarrow>
    bool \<times> pairing_store" where
  "claim N pairId pf nowMs s = (case openClaim N pairId pf nowMs s of (r, s') \<Rightarrow> (is_ok r, s'))"

definition issueNonce :: "'x node_crypto_scheme \<Rightarrow> bytes \<Rightarrow> string \<Rightarrow> int \<Rightarrow> number \<Rightarrow> pairing_store \<Rightarrow>
    (pairing_error, (nonce_rejection, string \<times> int) result) result \<times> pairing_store" where
  "issueNonce N random pairId nowMs ttlMs s =
    (case as_int ttlMs of None \<Rightarrow> (Inl InvalidNonceTtl, s)
     | Some d \<Rightarrow> if d < 1 \<or> d > MAX_NONCE_TTL_MS then (Inl InvalidNonceTtl, s)
       else let s1 = evict_expired_nonces nowMs s; key = pairHash N pairId
       in case mget (pair_records s1) key of None \<Rightarrow> (Inr (Inl NonceUnknown), s1)
       | Some r \<Rightarrow>
         if pair_status r = Revoked then (Inr (Inl NonceRevoked), s1)
         else if pair_status r \<noteq> Enrolled then (Inr (Inl NonceNotAuthorized), s1)
         else let nonce = encode random; e = nowMs + d
         in (Inr (Inr (nonce, e)), s1\<lparr> pair_nonces := mput (stateHash N nonce)
               \<lparr> pairKeyHash = key, nonce_expiresAtMs = e \<rparr> (pair_nonces s1) \<rparr>))"

definition consumeNonce :: "'x node_crypto_scheme \<Rightarrow> string \<Rightarrow> string \<Rightarrow> string \<Rightarrow> int \<Rightarrow> pairing_store \<Rightarrow>
    (lease_rejection, string) result \<times> pairing_store" where
  "consumeNonce N pairId nonce pf nowMs s =
    (let s1 = evict_expired_nonces nowMs s; key = pairHash N pairId
     in case mget (pair_records s1) key of None \<Rightarrow> (Inl LeaseUnknown, s1)
     | Some r \<Rightarrow>
       if pair_status r = Revoked then (Inl LeaseRevoked, s1)
       else if nowMs \<ge> pair_expiresAtMs r then (Inl LeaseExpired, s1)
       else if pair_status r \<noteq> Enrolled then (Inl LeaseNotAuthorized, s1)
       else let h = stateHash N nonce
       in case mget (pair_nonces s1) h of None \<Rightarrow> (Inl LeaseInvalidNonce, s1)
       | Some n \<Rightarrow> if pairKeyHash n \<noteq> key then (Inl LeaseInvalidNonce, s1)
         else let s2 = s1\<lparr> pair_nonces := mdel h (pair_nonces s1) \<rparr>
         in if nowMs \<ge> nonce_expiresAtMs n then (Inl LeaseInvalidNonce, s2)
            else if \<not> verifyProof N r pf (Some (buffer_from_base64url N nonce))
            then (Inl LeaseInvalidProof, s2)
            else (Inr (deviceEncryptionPublicKeyPem r), s2))"

definition revoke :: "'x node_crypto_scheme \<Rightarrow> string \<Rightarrow> pairing_store \<Rightarrow> bool \<times> pairing_store" where
  "revoke N pairId s =
    (let key = pairHash N pairId
     in case mget (pair_records s) key of None \<Rightarrow> (False, s)
     | Some r \<Rightarrow>
       (let s1 = s\<lparr> pair_records :=
                mput key (r\<lparr> pair_status := Revoked, callbackHandleHash := None \<rparr>) (pair_records s),
              pair_states := mdel (oauthStateHash r) (pair_states s) \<rparr>
        in (True, drop_nonces_for key (drop_handle r s1))))"

definition statusOf :: "'x node_crypto_scheme \<Rightarrow> string \<Rightarrow> pairing_store \<Rightarrow> pairing_status option" where
  "statusOf N pairId s = map_option pair_status (mget (pair_records s) (pairHash N pairId))"

text \<open>The literal \<^verbatim>\<open>hasPlainPairId: false\<close> of the code's answer, and the status.\<close>

definition debugRecord :: "'x node_crypto_scheme \<Rightarrow> string \<Rightarrow> pairing_store \<Rightarrow>
    (bool \<times> pairing_status) option" where
  "debugRecord N pairId s =
     map_option (\<lambda>r. (False, pair_status r)) (mget (pair_records s) (pairHash N pairId))"

definition debugSize :: "pairing_store \<Rightarrow> nat" where
  "debugSize s = length (pair_records s)"

section \<open>Stores that only lost entries\<close>

definition pruned :: "pairing_store \<Rightarrow> pairing_store \<Rightarrow> bool" where
  "pruned s' s \<longleftrightarrow> thinned (pair_records s') (pair_records s) \<and> thinned (pair_states s') (pair_states s)
     \<and> thinned (pair_handles s') (pair_handles s) \<and> thinned (pair_nonces s') (pair_nonces s)
     \<and> pair_max s' = pair_max s"

lemma pruned_refl [simp, intro]: "pruned s s"
  by (simp add: pruned_def)

lemma pruned_trans: "pruned s2 s1 \<Longrightarrow> pruned s1 s \<Longrightarrow> pruned s2 s"
  by (auto simp: pruned_def intro: thinned_trans)

lemma pruned_drop_handle [intro]: "pruned (drop_handle r s) s"
  by (auto simp: drop_handle_def pruned_def split: option.splits)

lemma pruned_drop_nonces [intro]: "pruned (drop_nonces_for key s) s"
  by (simp add: drop_nonces_for_def pruned_def)

lemma pruned_evict_nonces [intro]: "pruned (evict_expired_nonces t s) s"
  by (simp add: evict_expired_nonces_def pruned_def)

lemma pruned_evict_pairing: "pruned (evict_pairing t e s) s"
proof (cases e)
  case (Pair key r)
  have "pruned (s\<lparr> pair_records := mdel key (pair_records s),
      pair_states := mdel (oauthStateHash r) (pair_states s) \<rparr>) s"
    by (simp add: pruned_def)
  then show ?thesis
    by (auto simp: Pair evict_pairing_def Let_def
        intro: pruned_trans [OF pruned_drop_nonces] pruned_trans [OF pruned_drop_handle])
qed

lemma pruned_fold_evict: "pruned (fold (evict_pairing t) es s) s"
  by (induction es arbitrary: s) (auto intro: pruned_trans pruned_evict_pairing)

lemma pruned_evict_expired [intro]: "pruned (evict_expired t s) s"
  unfolding evict_expired_def by (rule pruned_fold_evict)

lemma pruned_max: "pruned s' s \<Longrightarrow> pair_max s' = pair_max s"
  by (simp add: pruned_def)

section \<open>Eviction removes exactly the expired pairings\<close>

lemma drop_fields [simp]:
  "pair_records (drop_handle r s) = pair_records s" "pair_states (drop_handle r s) = pair_states s"
  "pair_nonces (drop_handle r s) = pair_nonces s" "pair_max (drop_handle r s) = pair_max s"
  "pair_records (drop_nonces_for key s) = pair_records s"
  "pair_states (drop_nonces_for key s) = pair_states s"
  "pair_handles (drop_nonces_for key s) = pair_handles s"
  "pair_max (drop_nonces_for key s) = pair_max s"
  "pair_records (evict_expired_nonces t s) = pair_records s"
  "pair_states (evict_expired_nonces t s) = pair_states s"
  "pair_handles (evict_expired_nonces t s) = pair_handles s"
  "pair_max (evict_expired_nonces t s) = pair_max s"
  by (simp_all add: drop_handle_def drop_nonces_for_def evict_expired_nonces_def split: option.splits)

lemma records_evict_pairing [simp]: "pair_records (evict_pairing t (key, r) s) =
    (if t \<ge> pair_expiresAtMs r then mdel key (pair_records s) else pair_records s)"
  by (simp add: evict_pairing_def Let_def)

definition expired_keys :: "int \<Rightarrow> (string, pairing) omap \<Rightarrow> string set" where
  "expired_keys t es = {k. \<exists>r. (k, r) \<in> set es \<and> t \<ge> pair_expiresAtMs r}"

lemma records_fold_evict:
  "pair_records (fold (evict_pairing t) es s) =
     filter (\<lambda>(k, r). k \<notin> expired_keys t es) (pair_records s)"
proof (induction es arbitrary: s)
  case Nil
  then show ?case by (simp add: expired_keys_def)
next
  case (Cons e es)
  obtain key r where e: "e = (key, r)" by (cases e)
  have keys: "expired_keys t (e # es) =
    (if t \<ge> pair_expiresAtMs r then insert key (expired_keys t es) else expired_keys t es)"
    by (auto simp: expired_keys_def e)
  show ?case
    by (simp add: Cons.IH keys) (auto simp: e AList.delete_eq intro!: filter_cong)
qed

lemma evict_expired_records:
  assumes "mkeys_distinct (pair_records s)"
  shows "pair_records (evict_expired t s) = filter (\<lambda>(k, r). t < pair_expiresAtMs r) (pair_records s)"
  unfolding evict_expired_def records_fold_evict
proof (intro filter_cong refl)
  fix e assume e: "e \<in> set (pair_records s)"
  obtain k r where kr: "e = (k, r)" by (cases e)
  from e kr have "(k, r) \<in> set (pair_records s)" by simp
  then have "r' = r" if "(k, r') \<in> set (pair_records s)" for r'
    using eq_key_imp_eq_value [OF assms _ that] by blast
  with e kr have "k \<in> expired_keys t (pair_records s) \<longleftrightarrow> t \<ge> pair_expiresAtMs r"
    unfolding expired_keys_def by blast
  then show "(case e of (k, r) \<Rightarrow> k \<notin> expired_keys t (pair_records s)) =
      (case e of (k, r) \<Rightarrow> t < pair_expiresAtMs r)"
    by (simp add: kr not_le)
qed

lemma evict_expired_get:
  "mkeys_distinct (pair_records s) \<Longrightarrow> mget (pair_records (evict_expired t s)) k =
    (case mget (pair_records s) k of None \<Rightarrow> None
     | Some r \<Rightarrow> if t < pair_expiresAtMs r then Some r else None)"
  by (simp add: evict_expired_records map_of_filter_distinct split: option.split)

section \<open>What each operation does, by outcome\<close>

lemma create_guard_Inr: "create_guard nowMs ttlMs = Inr (t, d) \<longleftrightarrow>
    nowMs = num_of_int t \<and> ttlMs = num_of_int d \<and> 0 < d \<and> d \<le> MAX_PAIRING_TTL_MS"
  by (auto simp: create_guard_def as_int_Some_iff simp del: as_int.simps
      split: option.splits if_splits)

lemma device_keys_Inr: "device_keys N signPem encPem = Inr (dk, ek) \<longleftrightarrow>
    createPublicKey N signPem = Some dk \<and> asymmetricKeyType dk = Ed25519
    \<and> createPublicKey N encPem = Some ek \<and> asymmetricKeyType ek = X25519"
  by (auto simp: device_keys_def split: option.splits if_splits)

definition add_pairing :: "string \<Rightarrow> pairing \<Rightarrow> pairing_store \<Rightarrow> pairing_store" where
  "add_pairing key r s = s\<lparr> pair_records := mput key r (pair_records s),
     pair_states := mput (oauthStateHash r) key (pair_states s) \<rparr>"

definition new_record :: "'x node_crypto_scheme \<Rightarrow> bytes \<Rightarrow> bytes \<Rightarrow> bytes \<Rightarrow> string \<Rightarrow> string \<Rightarrow>
    key_object \<Rightarrow> key_object \<Rightarrow> int \<Rightarrow> pairing" where
  "new_record N r1 r2 r3 signPem encPem dk ek e =
     pending_pairing N signPem encPem dk ek (to_hex r1) (encode r2) (encode r3) e"

lemma create_cases:
  obtains (refused) e where "fst (create N r1 r2 r3 authFor signPem encPem nowMs ttlMs s) = Inl e"
      "pruned (snd (create N r1 r2 r3 authFor signPem encPem nowMs ttlMs s)) s"
      "snd (create N r1 r2 r3 authFor signPem encPem nowMs ttlMs s) = s
       \<or> (\<exists>t. snd (create N r1 r2 r3 authFor signPem encPem nowMs ttlMs s) = evict_expired t s)"
  | (made) t d dk ek where "create_guard nowMs ttlMs = Inr (t, d)"
      "device_keys N signPem encPem = Inr (dk, ek)"
      "length (pair_records (evict_expired t s)) < pair_max s"
      "snd (create N r1 r2 r3 authFor signPem encPem nowMs ttlMs s) =
         add_pairing (pairHash N (to_hex r1)) (new_record N r1 r2 r3 signPem encPem dk ek (t + d))
           (evict_expired t s)"
      "authFor = None \<Longrightarrow> fst (create N r1 r2 r3 authFor signPem encPem nowMs ttlMs s) =
         Inr \<lparr> created_pairId = to_hex r1, created_oauthState = encode r2,
           created_proofMessage = proof_message N (to_hex r1) (t + d), created_expiresAtMs = t + d,
           created_authorizationUrl = None \<rparr>"
      "\<And>c. fst (create N r1 r2 r3 authFor signPem encPem nowMs ttlMs s) = Inr c \<Longrightarrow>
         created_pairId c = to_hex r1 \<and> created_oauthState c = encode r2
         \<and> created_proofMessage c = proof_message N (to_hex r1) (t + d)
         \<and> created_expiresAtMs c = t + d"
proof (cases "create_guard nowMs ttlMs")
  case (Inl e)
  then show thesis by (intro refused [of e]) (simp_all add: create_def)
next
  case (Inr g)
  obtain t d where g: "g = (t, d)" by (cases g)
  have m: "pair_max (evict_expired t s) = pair_max s" by (rule pruned_max) (rule pruned_evict_expired)
  show thesis
  proof (cases "length (pair_records (evict_expired t s)) < pair_max s")
    case False
    with Inr g m show thesis
      by (intro refused [of PairingCapacityReached])
        (auto simp: create_def Let_def)
  next
    case small: True
    show thesis
    proof (cases "device_keys N signPem encPem")
      case (Inl e)
      with Inr g m small show thesis
        by (intro refused [of e]) (auto simp: create_def Let_def)
    next
      case keys: (Inr ks)
      obtain dk ek where ks: "ks = (dk, ek)" by (cases ks)
      from Inr g m small keys ks show thesis
        by (intro made [of t d dk ek])
          (auto simp: create_def Let_def add_pairing_def new_record_def pending_pairing_def
            split: option.splits)
    qed
  qed
qed

lemma consume_state_cases:
  obtains (refused) "fst (consumeOAuthState N random oauthState nowMs s) = None"
      "snd (consumeOAuthState N random oauthState nowMs s) = evict_expired nowMs s"
  | (ok) key r where "mget (pair_states (evict_expired nowMs s)) (stateHash N oauthState) = Some key"
      "key \<noteq> []" "mget (pair_records (evict_expired nowMs s)) key = Some r"
      "oauthStateHash r = stateHash N oauthState" "pair_status r = Pending"
      "consumeOAuthState N random oauthState nowMs s =
        (Some \<lparr> consumed_handle = encode random, consumed_verifier = pkceVerifier r,
                consumed_expiresAtMs = pair_expiresAtMs r \<rparr>,
         (evict_expired nowMs s)\<lparr>
           pair_states := mdel (stateHash N oauthState) (pair_states (evict_expired nowMs s)),
           pair_handles := mput (stateHash N (encode random)) key (pair_handles (evict_expired nowMs s)),
           pair_records := mput key (r\<lparr> callbackHandleHash := Some (stateHash N (encode random)),
             pair_status := CallbackStateConsumed \<rparr>) (pair_records (evict_expired nowMs s)) \<rparr>)"
proof (cases "\<exists>key r. mget (pair_states (evict_expired nowMs s)) (stateHash N oauthState) = Some key
    \<and> key \<noteq> [] \<and> mget (pair_records (evict_expired nowMs s)) key = Some r
    \<and> oauthStateHash r = stateHash N oauthState \<and> pair_status r = Pending")
  case True
  then obtain key r where "mget (pair_states (evict_expired nowMs s)) (stateHash N oauthState) = Some key"
    "key \<noteq> []" "mget (pair_records (evict_expired nowMs s)) key = Some r"
    "oauthStateHash r = stateHash N oauthState" "pair_status r = Pending" by blast
  then show thesis by (intro ok [of key r]) (simp_all add: consumeOAuthState_def Let_def)
next
  case False
  then show thesis
    by (intro refused) (auto simp: consumeOAuthState_def Let_def split: option.splits)
qed

lemma mark_cases:
  obtains (refused) "markAuthorized N handle nowMs s = (False, evict_expired nowMs s)"
  | (ok) key r where "mget (pair_handles (evict_expired nowMs s)) (stateHash N handle) = Some key"
      "key \<noteq> []" "mget (pair_records (evict_expired nowMs s)) key = Some r"
      "pair_status r = CallbackStateConsumed" "callbackHandleHash r = Some (stateHash N handle)"
      "markAuthorized N handle nowMs s =
        (True, (evict_expired nowMs s)\<lparr>
           pair_handles := mdel (stateHash N handle) (pair_handles (evict_expired nowMs s)),
           pair_records := mput key (r\<lparr> callbackHandleHash := None, pair_status := Authorized \<rparr>)
             (pair_records (evict_expired nowMs s)) \<rparr>)"
proof (cases "\<exists>key r. mget (pair_handles (evict_expired nowMs s)) (stateHash N handle) = Some key
    \<and> key \<noteq> [] \<and> mget (pair_records (evict_expired nowMs s)) key = Some r
    \<and> pair_status r = CallbackStateConsumed \<and> callbackHandleHash r = Some (stateHash N handle)")
  case True
  then obtain key r where "mget (pair_handles (evict_expired nowMs s)) (stateHash N handle) = Some key"
    "key \<noteq> []" "mget (pair_records (evict_expired nowMs s)) key = Some r"
    "pair_status r = CallbackStateConsumed" "callbackHandleHash r = Some (stateHash N handle)" by blast
  then show thesis by (intro ok [of key r]) (simp_all add: markAuthorized_def Let_def)
next
  case False
  then show thesis
    by (intro refused) (auto simp: markAuthorized_def Let_def split: option.splits)
qed

lemma claim_cases:
  obtains (refused) e where "fst (openClaim N pairId pf nowMs s) = Inl e"
      "pruned (snd (openClaim N pairId pf nowMs s)) s"
  | (ok) r where "mget (pair_records s) (pairHash N pairId) = Some r"
      "pair_status r = Authorized" "nowMs < pair_expiresAtMs r" "verifyProof N r pf None"
      "openClaim N pairId pf nowMs s =
        (Inr (deviceSigningPublicKeyPem r, deviceEncryptionPublicKeyPem r),
         s\<lparr> pair_records := mput (pairHash N pairId) (r\<lparr> pair_status := Enrolled \<rparr>) (pair_records s) \<rparr>)"
proof (cases "\<exists>r. mget (pair_records s) (pairHash N pairId) = Some r \<and> pair_status r = Authorized
    \<and> nowMs < pair_expiresAtMs r \<and> verifyProof N r pf None")
  case True
  then obtain r where "mget (pair_records s) (pairHash N pairId) = Some r" "pair_status r = Authorized"
    "nowMs < pair_expiresAtMs r" "verifyProof N r pf None" by blast
  then show thesis by (intro ok [of r]) (simp_all add: openClaim_def Let_def)
next
  case False
  then have "\<not> is_ok (fst (openClaim N pairId pf nowMs s))"
    by (auto simp: openClaim_def Let_def split: option.splits)
  then obtain e where "fst (openClaim N pairId pf nowMs s) = Inl e"
    by (cases "fst (openClaim N pairId pf nowMs s)") auto
  moreover from False have "pruned (snd (openClaim N pairId pf nowMs s)) s"
    by (auto simp: openClaim_def Let_def split: option.splits
        intro!: pruned_trans [OF pruned_drop_nonces]) (simp_all add: pruned_def)
  ultimately show thesis by (rule refused)
qed

lemma issueNonce_cases:
  obtains (refused) "\<not> (\<exists>x. fst (issueNonce N random pairId nowMs ttlMs s) = Inr (Inr x))"
      "pruned (snd (issueNonce N random pairId nowMs ttlMs s)) s"
  | (ok) d r where "ttlMs = num_of_int d" "1 \<le> d" "d \<le> MAX_NONCE_TTL_MS"
      "mget (pair_records s) (pairHash N pairId) = Some r" "pair_status r = Enrolled"
      "issueNonce N random pairId nowMs ttlMs s = (Inr (Inr (encode random, nowMs + d)),
         (evict_expired_nonces nowMs s)\<lparr> pair_nonces := mput (stateHash N (encode random))
            \<lparr> pairKeyHash = pairHash N pairId, nonce_expiresAtMs = nowMs + d \<rparr>
            (pair_nonces (evict_expired_nonces nowMs s)) \<rparr>)"
proof (cases "\<exists>d r. ttlMs = num_of_int d \<and> \<not> d < 1 \<and> \<not> d > MAX_NONCE_TTL_MS
    \<and> mget (pair_records s) (pairHash N pairId) = Some r \<and> pair_status r = Enrolled")
  case True
  then obtain d r where "ttlMs = num_of_int d" "\<not> d < 1" "\<not> d > MAX_NONCE_TTL_MS"
    "mget (pair_records s) (pairHash N pairId) = Some r" "pair_status r = Enrolled" by blast
  then show thesis by (intro ok [of d r]) (simp_all add: issueNonce_def Let_def)
next
  case False
  then show thesis
    by (intro refused) (auto simp: issueNonce_def Let_def as_int_Some_iff simp del: as_int.simps
        split: option.splits if_splits)
qed

lemma consumeNonce_cases:
  obtains (refused) e where "fst (consumeNonce N pairId nonce pf nowMs s) = Inl e"
      "pruned (snd (consumeNonce N pairId nonce pf nowMs s)) s"
  | (ok) r n where "mget (pair_records s) (pairHash N pairId) = Some r" "pair_status r = Enrolled"
      "nowMs < pair_expiresAtMs r"
      "mget (pair_nonces (evict_expired_nonces nowMs s)) (stateHash N nonce) = Some n"
      "pairKeyHash n = pairHash N pairId" "nowMs < nonce_expiresAtMs n"
      "verifyProof N r pf (Some (buffer_from_base64url N nonce))"
      "consumeNonce N pairId nonce pf nowMs s = (Inr (deviceEncryptionPublicKeyPem r),
         (evict_expired_nonces nowMs s)\<lparr> pair_nonces :=
            mdel (stateHash N nonce) (pair_nonces (evict_expired_nonces nowMs s)) \<rparr>)"
proof (cases "\<exists>r n. mget (pair_records s) (pairHash N pairId) = Some r \<and> pair_status r = Enrolled
    \<and> nowMs < pair_expiresAtMs r
    \<and> mget (pair_nonces (evict_expired_nonces nowMs s)) (stateHash N nonce) = Some n
    \<and> pairKeyHash n = pairHash N pairId \<and> nowMs < nonce_expiresAtMs n
    \<and> verifyProof N r pf (Some (buffer_from_base64url N nonce))")
  case True
  then obtain r n where "mget (pair_records s) (pairHash N pairId) = Some r" "pair_status r = Enrolled"
    "nowMs < pair_expiresAtMs r"
    "mget (pair_nonces (evict_expired_nonces nowMs s)) (stateHash N nonce) = Some n"
    "pairKeyHash n = pairHash N pairId" "nowMs < nonce_expiresAtMs n"
    "verifyProof N r pf (Some (buffer_from_base64url N nonce))" by blast
  then show thesis by (intro ok [of r n]) (simp_all add: consumeNonce_def Let_def)
next
  case False
  then have "\<not> is_ok (fst (consumeNonce N pairId nonce pf nowMs s))"
    by (auto simp: consumeNonce_def Let_def split: option.splits)
  then obtain e where "fst (consumeNonce N pairId nonce pf nowMs s) = Inl e"
    by (cases "fst (consumeNonce N pairId nonce pf nowMs s)") auto
  moreover have "pruned (s'\<lparr> pair_nonces := mdel h (pair_nonces s') \<rparr>) s'" for s' h
    by (simp add: pruned_def)
  then have "pruned (snd (consumeNonce N pairId nonce pf nowMs s)) s"
    by (auto simp: consumeNonce_def Let_def split: option.splits
        intro: pruned_trans [OF _ pruned_evict_nonces])
  ultimately show thesis by (rule refused)
qed

lemma revoke_cases:
  obtains (unknown) "mget (pair_records s) (pairHash N pairId) = None" "revoke N pairId s = (False, s)"
  | (ok) r s' where "mget (pair_records s) (pairHash N pairId) = Some r" "pruned s' s"
      "pair_records s' = pair_records s" "mget (pair_states s') (oauthStateHash r) = None"
      "revoke N pairId s = (True, s'\<lparr> pair_records := mput (pairHash N pairId)
         (r\<lparr> pair_status := Revoked, callbackHandleHash := None \<rparr>) (pair_records s) \<rparr>)"
proof (cases "mget (pair_records s) (pairHash N pairId)")
  case None
  then show thesis by (intro unknown) (simp_all add: revoke_def)
next
  case (Some r)
  let ?s1 = "s\<lparr> pair_states := mdel (oauthStateHash r) (pair_states s) \<rparr>"
  let ?s = "drop_nonces_for (pairHash N pairId) (drop_handle r ?s1)"
  have "pruned ?s1 s" by (simp add: pruned_def)
  then have "pruned ?s s"
    by (blast intro: pruned_trans pruned_drop_nonces pruned_drop_handle)
  with Some show thesis
    by (intro ok [of r ?s])
      (auto simp: revoke_def Let_def drop_handle_def drop_nonces_for_def split: option.splits)
qed

section \<open>Well-formed stores\<close>

definition pairing_ok :: "string \<Rightarrow> pairing \<Rightarrow> bool" where
  "pairing_ok key r \<longleftrightarrow> (pair_status r = CallbackStateConsumed \<longleftrightarrow> callbackHandleHash r \<noteq> None)
     \<and> proofMessage r = ''gdrive-stream-pair-v1:'' @ key @ '':'' @ dec_int (pair_expiresAtMs r)"

text \<open>
  One entry per key in each map, the capacity respected, every record well-formed, and a state entry
  that leads back to its own pairing leads to a pending one.
\<close>

definition pairing_inv :: "pairing_store \<Rightarrow> bool" where
  "pairing_inv s \<longleftrightarrow> mkeys_distinct (pair_records s) \<and> mkeys_distinct (pair_states s)
     \<and> mkeys_distinct (pair_handles s) \<and> mkeys_distinct (pair_nonces s)
     \<and> length (pair_records s) \<le> pair_max s
     \<and> (\<forall>k r. mget (pair_records s) k = Some r \<longrightarrow> pairing_ok k r)
     \<and> (\<forall>h k r. mget (pair_states s) h = Some k \<longrightarrow> mget (pair_records s) k = Some r \<longrightarrow>
          oauthStateHash r = h \<longrightarrow> pair_status r = Pending)"

datatype pairing_op =
    PairCreate bytes bytes bytes "(string \<Rightarrow> string \<Rightarrow> string option) option" string string number number
  | PairConsumeState bytes string int
  | PairMark string int
  | PairClaim string string int
  | PairIssueNonce bytes string int number
  | PairConsumeNonce string string string int
  | PairRevoke string

primrec pairing_step :: "'x node_crypto_scheme \<Rightarrow> pairing_op \<Rightarrow> pairing_store \<Rightarrow> pairing_store" where
  "pairing_step N (PairCreate r1 r2 r3 f sp ep t d) s = snd (create N r1 r2 r3 f sp ep t d s)"
| "pairing_step N (PairConsumeState r st t) s = snd (consumeOAuthState N r st t s)"
| "pairing_step N (PairMark h t) s = snd (markAuthorized N h t s)"
| "pairing_step N (PairClaim p pf t) s = snd (openClaim N p pf t s)"
| "pairing_step N (PairIssueNonce r p t d) s = snd (issueNonce N r p t d s)"
| "pairing_step N (PairConsumeNonce p n pf t) s = snd (consumeNonce N p n pf t s)"
| "pairing_step N (PairRevoke p) s = snd (revoke N p s)"

lemma pairing_inv_distinct:
  "pairing_inv s \<Longrightarrow> mkeys_distinct (pair_records s)" "pairing_inv s \<Longrightarrow> mkeys_distinct (pair_states s)"
  "pairing_inv s \<Longrightarrow> mkeys_distinct (pair_handles s)" "pairing_inv s \<Longrightarrow> mkeys_distinct (pair_nonces s)"
  by (simp_all add: pairing_inv_def)

lemma pairing_inv_ok: "pairing_inv s \<Longrightarrow> mget (pair_records s) k = Some r \<Longrightarrow> pairing_ok k r"
  by (simp add: pairing_inv_def)

lemma pruned_get:
  assumes "pruned s' s" "pairing_inv s"
  shows "mget (pair_records s') k = Some r \<Longrightarrow> mget (pair_records s) k = Some r"
    and "mget (pair_states s') h = Some k' \<Longrightarrow> mget (pair_states s) h = Some k'"
    and "mget (pair_handles s') h = Some k' \<Longrightarrow> mget (pair_handles s) h = Some k'"
    and "mget (pair_nonces s') h = Some n \<Longrightarrow> mget (pair_nonces s) h = Some n"
  using assms by (auto simp: pruned_def intro: thinned_get pairing_inv_distinct)

lemma pairing_inv_pruned [inv_intros]:
  assumes "pruned s' s" "pairing_inv s"
  shows "pairing_inv s'"
proof -
  have "length (pair_records s') \<le> pair_max s'"
    using assms thinned_length [of "pair_records s'" "pair_records s"]
    by (simp add: pruned_def pairing_inv_def)
  moreover have "mkeys_distinct (pair_records s')" "mkeys_distinct (pair_states s')"
    "mkeys_distinct (pair_handles s')" "mkeys_distinct (pair_nonces s')"
    using assms by (auto simp: pruned_def pairing_inv_def intro: thinned_distinct)
  moreover have "mget (pair_records s') k = Some r \<Longrightarrow> pairing_ok k r" for k r
    using pruned_get(1) [OF assms] assms(2) by (auto simp: pairing_inv_def)
  moreover have "mget (pair_states s') h = Some k \<Longrightarrow> mget (pair_records s') k = Some r \<Longrightarrow>
      oauthStateHash r = h \<Longrightarrow> pair_status r = Pending" for h k r
    using pruned_get(1,2) [OF assms] assms(2) unfolding pairing_inv_def by blast
  ultimately show ?thesis by (simp add: pairing_inv_def)
qed

lemma pairing_inv_put_handle:
  "pairing_inv s \<Longrightarrow> pairing_inv (s\<lparr> pair_handles := mput h k (pair_handles s) \<rparr>)"
  by (simp add: pairing_inv_def distinct_update)

lemma pairing_inv_put_nonce:
  "pairing_inv s \<Longrightarrow> pairing_inv (s\<lparr> pair_nonces := mput h n (pair_nonces s) \<rparr>)"
  by (simp add: pairing_inv_def distinct_update)

lemma pruned_delete [intro]:
  "pruned (s\<lparr> pair_states := mdel h (pair_states s) \<rparr>) s"
  "pruned (s\<lparr> pair_handles := mdel h (pair_handles s) \<rparr>) s"
  "pruned (s\<lparr> pair_nonces := mdel h (pair_nonces s) \<rparr>) s"
  by (simp_all add: pruned_def)

lemmas pairing_inv_delete = pruned_delete [THEN pairing_inv_pruned]

lemma pairing_inv_put_record:
  assumes "pairing_inv s" "mget (pair_records s) k \<noteq> None" "pairing_ok k r"
    and "mget (pair_states s) (oauthStateHash r) \<noteq> Some k"
  shows "pairing_inv (s\<lparr> pair_records := mput k r (pair_records s) \<rparr>)"
  using assms om.size_set_present [of "pair_records s" k r]
  by (simp add: pairing_inv_def distinct_update)

lemma pairing_inv_add:
  assumes "pairing_inv s" "length (pair_records s) < pair_max s" "pairing_ok k r" "pair_status r = Pending"
  shows "pairing_inv (add_pairing k r s)"
  using assms om.bounded_insert [of "pair_records s" "pair_max s" k r]
  by (simp add: pairing_inv_def add_pairing_def distinct_update)

lemma new_record_ok: "pairing_ok (pairHash N (to_hex r1)) (new_record N r1 r2 r3 sp ep dk ek e)"
  "pair_status (new_record N r1 r2 r3 sp ep dk ek e) = Pending"
  by (simp_all add: pairing_ok_def new_record_def pending_pairing_def proof_message_def)

lemmas evicted_inv = pairing_inv_pruned [OF pruned_evict_expired]
  pairing_inv_pruned [OF pruned_evict_nonces]

lemma create_inv: "pairing_inv s \<Longrightarrow> pairing_inv (pairing_step N (PairCreate r1 r2 r3 f sp ep t d) s)"
proof (cases rule: create_cases [of N r1 r2 r3 f sp ep t d s])
  case (made t' d' dk ek)
  assume inv: "pairing_inv s"
  with made show ?thesis
    using pruned_max [OF pruned_evict_expired, of t' s]
    by (simp add: pairing_inv_add evicted_inv new_record_ok)
qed (auto intro: inv_intros)

lemma consume_state_inv: "pairing_inv s \<Longrightarrow> pairing_inv (pairing_step N (PairConsumeState rn st t) s)"
proof (cases rule: consume_state_cases [of N rn st t s])
  case (ok key r)
  assume inv: "pairing_inv s"
  let ?h = "stateHash N st" and ?hh = "stateHash N (encode rn)" and ?s = "evict_expired t s"
  have inv1: "pairing_inv (?s\<lparr> pair_states := mdel ?h (pair_states ?s) \<rparr>)"
    by (intro pairing_inv_delete evicted_inv inv)
  have "pairing_ok key r" using pairing_inv_ok [OF evicted_inv(1) [OF inv] ok(3)] .
  then show ?thesis
    using pairing_inv_put_record [OF pairing_inv_put_handle [OF inv1, of ?hh key],
        of key "r\<lparr> callbackHandleHash := Some ?hh, pair_status := CallbackStateConsumed \<rparr>"] ok
    by (simp add: pairing_ok_def)
qed (auto intro: evicted_inv)

lemma mark_inv: "pairing_inv s \<Longrightarrow> pairing_inv (pairing_step N (PairMark h t) s)"
proof (cases rule: mark_cases [of N h t s])
  case (ok key r)
  assume inv: "pairing_inv s"
  let ?s = "evict_expired t s"
  have inv1: "pairing_inv (?s\<lparr> pair_handles := mdel (stateHash N h) (pair_handles ?s) \<rparr>)"
    by (intro pairing_inv_delete evicted_inv inv)
  have "mget (pair_states ?s) (oauthStateHash r) \<noteq> Some key"
    using ok evicted_inv(1) [OF inv, of t] by (auto simp: pairing_inv_def)
  then show ?thesis
    using pairing_inv_put_record [OF inv1, of key "r\<lparr> callbackHandleHash := None, pair_status := Authorized \<rparr>"]
      pairing_inv_ok [OF evicted_inv(1) [OF inv] ok(3)] ok
    by (simp add: pairing_ok_def)
qed (auto intro: evicted_inv)

lemma claim_inv: "pairing_inv s \<Longrightarrow> pairing_inv (pairing_step N (PairClaim p pf t) s)"
proof (cases rule: claim_cases [of N p pf t s])
  case (ok r)
  assume inv: "pairing_inv s"
  have "mget (pair_states s) (oauthStateHash r) \<noteq> Some (pairHash N p)"
    using ok inv by (auto simp: pairing_inv_def)
  then show ?thesis
    using pairing_inv_put_record [OF inv, of "pairHash N p" "r\<lparr> pair_status := Enrolled \<rparr>"]
      pairing_inv_ok [OF inv ok(1)] ok
    by (simp add: pairing_ok_def)
qed (auto intro: inv_intros)

lemma nonce_inv:
  "pairing_inv s \<Longrightarrow> pairing_inv (pairing_step N (PairIssueNonce rn p t d) s)"
  "pairing_inv s \<Longrightarrow> pairing_inv (pairing_step N (PairConsumeNonce p n pf t) s)"
  by (cases rule: issueNonce_cases [of N rn p t d s], auto intro: inv_intros pairing_inv_put_nonce evicted_inv)
    (cases rule: consumeNonce_cases [of N p n pf t s], auto intro: inv_intros evicted_inv pairing_inv_delete)

lemma revoke_inv: "pairing_inv s \<Longrightarrow> pairing_inv (pairing_step N (PairRevoke p) s)"
proof (cases rule: revoke_cases [of s N p])
  case (ok r s')
  assume inv: "pairing_inv s"
  from ok show ?thesis
    using pairing_inv_put_record [OF pairing_inv_pruned [OF ok(2) inv], of "pairHash N p"
        "r\<lparr> pair_status := Revoked, callbackHandleHash := None \<rparr>"] pairing_inv_ok [OF inv ok(1)]
    by (simp add: pairing_ok_def)
qed simp

lemma pairing_step_inv: "pairing_inv s \<Longrightarrow> pairing_inv (pairing_step N c s)"
  by (cases c) (simp_all only: create_inv consume_state_inv mark_inv claim_inv nonce_inv revoke_inv)

interpretation pairing_machine: invariant_system "pairing_step N" pairing_inv for N
  by unfold_locales (rule pairing_step_inv)

section \<open>The status of a pairing only climbs\<close>

definition pairing_rank :: "pairing_store \<Rightarrow> string \<Rightarrow> pairing_status option" where
  "pairing_rank s k = map_option pair_status (mget (pair_records s) k)"

fun mints_pairing :: "'x node_crypto_scheme \<Rightarrow> pairing_op \<Rightarrow> pairing_store \<Rightarrow> string \<Rightarrow> bool" where
  "mints_pairing N (PairCreate r1 r2 r3 f sp ep t d) s k = (pairHash N (to_hex r1) = k)"
| "mints_pairing N c s k = False"

lemma rank_pruned:
  "pruned s' s \<Longrightarrow> pairing_inv s \<Longrightarrow> pairing_rank s' k = Some r \<Longrightarrow> pairing_rank s k = Some r"
  by (auto simp: pairing_rank_def dest: pruned_get(1))

lemma rank_raised:
  assumes "pruned s1 s" "pairing_inv s" "mget (pair_records s1) key = Some r" "pair_status r \<le> pair_status r'"
    and "pairing_rank (s2\<lparr> pair_records := mput key r' (pair_records s1) \<rparr>) k = Some st"
  shows "\<exists>st0. pairing_rank s k = Some st0 \<and> st0 \<le> st"
  using assms pruned_get(1) [OF assms(1,2)]
  by (auto simp: pairing_rank_def split: if_splits)

lemma create_climbs:
  assumes "pairing_inv s" "\<not> mints_pairing N (PairCreate r1 r2 r3 f sp ep t d) s k"
    and "pairing_rank (pairing_step N (PairCreate r1 r2 r3 f sp ep t d) s) k = Some st"
  shows "pairing_rank s k = Some st"
proof (cases rule: create_cases [of N r1 r2 r3 f sp ep t d s])
  case (made t' d' dk ek)
  then have "pairing_rank (evict_expired t' s) k = Some st"
    using assms(2,3) by (simp add: pairing_rank_def add_pairing_def split: if_splits)
  then show ?thesis by (rule rank_pruned [OF pruned_evict_expired assms(1)])
qed (use assms in \<open>simp_all add: rank_pruned\<close>)

lemma revoke_climbs:
  assumes inv: "pairing_inv s" and st: "pairing_rank (pairing_step N (PairRevoke p) s) k = Some st"
  shows "\<exists>st0. pairing_rank s k = Some st0 \<and> st0 \<le> st"
proof (cases rule: revoke_cases [of s N p])
  case (ok r s')
  then show ?thesis
    using st rank_raised [OF ok(2) inv, of "pairHash N p" r
        "r\<lparr> pair_status := Revoked, callbackHandleHash := None \<rparr>" s' k st]
    by (cases "pair_status r") (auto simp: status_order)
qed (use st in simp)

lemma pairing_step_climbs:
  assumes inv: "pairing_inv s" and m: "\<not> mints_pairing N c s k"
    and st: "pairing_rank (pairing_step N c s) k = Some st"
  shows "\<exists>st0. pairing_rank s k = Some st0 \<and> st0 \<le> st"
proof -
  have keep: ?thesis if "pruned (pairing_step N c s) s"
    using rank_pruned [OF that inv st] by blast
  show ?thesis
  proof (cases c)
    case (PairCreate r1 r2 r3 f sp ep t d)
    with create_climbs inv m st show ?thesis by blast
  next
    case (PairConsumeState rn os t)
    from keep show ?thesis
    proof (cases rule: consume_state_cases [of N rn os t s])
      case (ok key r)
      then show ?thesis
        using st by (intro rank_raised [OF pruned_evict_expired inv ok(3)])
          (auto simp: PairConsumeState status_order)
    qed (auto simp: PairConsumeState)
  next
    case (PairMark h t)
    from keep show ?thesis
    proof (cases rule: mark_cases [of N h t s])
      case (ok key r)
      then show ?thesis
        using st by (intro rank_raised [OF pruned_evict_expired inv ok(3)])
          (auto simp: PairMark status_order)
    qed (auto simp: PairMark)
  next
    case (PairClaim p pf t)
    from keep show ?thesis
    proof (cases rule: claim_cases [of N p pf t s])
      case (ok r)
      then show ?thesis
        using st by (intro rank_raised [OF pruned_refl inv ok(1)]) (auto simp: PairClaim status_order)
    qed (simp add: PairClaim)
  next
    case (PairIssueNonce rn p t d)
    have "pairing_rank s k = Some st"
      using st keep rank_pruned [OF _ inv]
      by (cases rule: issueNonce_cases [of N rn p t d s]) (auto simp: PairIssueNonce pairing_rank_def)
    then show ?thesis by blast
  next
    case (PairConsumeNonce p n pf t)
    from keep show ?thesis
      by (cases rule: consumeNonce_cases [of N p n pf t s])
        (use st in \<open>auto simp: PairConsumeNonce pairing_rank_def\<close>)
  next
    case (PairRevoke p)
    with revoke_climbs inv st show ?thesis by blast
  qed
qed

interpretation pairing_life: climbing_system "pairing_step N" pairing_inv pairing_rank "mints_pairing N"
  for N
  by unfold_locales (rule pairing_step_climbs)

section \<open>OAuth states, callback handles and nonces are one-time tokens\<close>

definition take_state :: "'x node_crypto_scheme \<Rightarrow> bytes \<times> string \<times> int \<Rightarrow> pairing_store \<Rightarrow>
    bool \<times> pairing_store" where
  "take_state N a s = (case a of (rn, os, t) \<Rightarrow>
     (case consumeOAuthState N rn os t s of (r, s') \<Rightarrow> (r \<noteq> None, s')))"

definition take_handle :: "'x node_crypto_scheme \<Rightarrow> string \<times> int \<Rightarrow> pairing_store \<Rightarrow>
    bool \<times> pairing_store" where
  "take_handle N a s = markAuthorized N (fst a) (snd a) s"

definition take_nonce :: "'x node_crypto_scheme \<Rightarrow> string \<times> string \<times> string \<times> int \<Rightarrow> pairing_store \<Rightarrow>
    bool \<times> pairing_store" where
  "take_nonce N a s = (case a of (p, n, pf, t) \<Rightarrow>
     (case consumeNonce N p n pf t s of (r, s') \<Rightarrow> (is_ok r, s')))"

definition state_token :: "'x node_crypto_scheme \<Rightarrow> bytes \<times> string \<times> int \<Rightarrow> string" where
  "state_token N a = stateHash N (fst (snd a))"

definition handle_token :: "'x node_crypto_scheme \<Rightarrow> string \<times> int \<Rightarrow> string" where
  "handle_token N a = stateHash N (fst a)"

definition nonce_token :: "'x node_crypto_scheme \<Rightarrow> string \<times> string \<times> string \<times> int \<Rightarrow> string" where
  "nonce_token N a = stateHash N (fst (snd a))"

fun mints_state :: "'x node_crypto_scheme \<Rightarrow> pairing_op \<Rightarrow> pairing_store \<Rightarrow> string \<Rightarrow> bool" where
  "mints_state N (PairCreate r1 r2 r3 f sp ep t d) s h = (stateHash N (encode r2) = h)"
| "mints_state N c s h = False"

fun mints_handle :: "'x node_crypto_scheme \<Rightarrow> pairing_op \<Rightarrow> pairing_store \<Rightarrow> string \<Rightarrow> bool" where
  "mints_handle N (PairConsumeState rn os t) s h = (stateHash N (encode rn) = h)"
| "mints_handle N c s h = False"

fun mints_nonce :: "'x node_crypto_scheme \<Rightarrow> pairing_op \<Rightarrow> pairing_store \<Rightarrow> string \<Rightarrow> bool" where
  "mints_nonce N (PairIssueNonce rn p t d) s h = (stateHash N (encode rn) = h)"
| "mints_nonce N c s h = False"

lemma pruned_absent:
  assumes "pruned s' s"
  shows "mget (pair_states s) h = None \<Longrightarrow> mget (pair_states s') h = None"
    and "mget (pair_handles s) h = None \<Longrightarrow> mget (pair_handles s') h = None"
    and "mget (pair_nonces s) h = None \<Longrightarrow> mget (pair_nonces s') h = None"
  using assms by (auto simp: pruned_def intro: thinned_absent)

lemmas evicted_absent = pruned_absent [OF pruned_evict_expired] pruned_absent [OF pruned_evict_nonces]

lemma absent_create:
  shows "stateHash N (encode r2) \<noteq> h \<Longrightarrow> mget (pair_states s) h = None \<Longrightarrow>
      mget (pair_states (snd (create N r1 r2 r3 f sp ep t d s))) h = None"
    and "mget (pair_handles s) h = None \<Longrightarrow>
      mget (pair_handles (snd (create N r1 r2 r3 f sp ep t d s))) h = None"
    and "mget (pair_nonces s) h = None \<Longrightarrow>
      mget (pair_nonces (snd (create N r1 r2 r3 f sp ep t d s))) h = None"
  by (cases rule: create_cases [of N r1 r2 r3 f sp ep t d s];
      auto simp: add_pairing_def new_record_def pending_pairing_def
        intro: pruned_absent evicted_absent)+

lemma absent_consume_state:
  shows "mget (pair_states s) h = None \<Longrightarrow>
      mget (pair_states (snd (consumeOAuthState N rn os t s))) h = None"
    and "stateHash N (encode rn) \<noteq> h \<Longrightarrow> mget (pair_handles s) h = None \<Longrightarrow>
      mget (pair_handles (snd (consumeOAuthState N rn os t s))) h = None"
    and "mget (pair_nonces s) h = None \<Longrightarrow>
      mget (pair_nonces (snd (consumeOAuthState N rn os t s))) h = None"
  by (cases rule: consume_state_cases [of N rn os t s]; auto intro: evicted_absent)+

lemma absent_mark:
  shows "mget (pair_states s) h = None \<Longrightarrow> mget (pair_states (snd (markAuthorized N hn t s))) h = None"
    and "mget (pair_handles s) h = None \<Longrightarrow> mget (pair_handles (snd (markAuthorized N hn t s))) h = None"
    and "mget (pair_nonces s) h = None \<Longrightarrow> mget (pair_nonces (snd (markAuthorized N hn t s))) h = None"
  by (cases rule: mark_cases [of N hn t s]; auto intro: evicted_absent)+

lemma absent_claim:
  shows "mget (pair_states s) h = None \<Longrightarrow> mget (pair_states (snd (openClaim N p pf t s))) h = None"
    and "mget (pair_handles s) h = None \<Longrightarrow> mget (pair_handles (snd (openClaim N p pf t s))) h = None"
    and "mget (pair_nonces s) h = None \<Longrightarrow> mget (pair_nonces (snd (openClaim N p pf t s))) h = None"
  by (cases rule: claim_cases [of N p pf t s]; auto intro: pruned_absent)+

lemma absent_issue_nonce:
  shows "mget (pair_states s) h = None \<Longrightarrow> mget (pair_states (snd (issueNonce N rn p t d s))) h = None"
    and "mget (pair_handles s) h = None \<Longrightarrow> mget (pair_handles (snd (issueNonce N rn p t d s))) h = None"
    and "stateHash N (encode rn) \<noteq> h \<Longrightarrow> mget (pair_nonces s) h = None \<Longrightarrow>
      mget (pair_nonces (snd (issueNonce N rn p t d s))) h = None"
  by (cases rule: issueNonce_cases [of N rn p t d s]; auto intro: pruned_absent evicted_absent)+

lemma absent_consume_nonce:
  shows "mget (pair_states s) h = None \<Longrightarrow> mget (pair_states (snd (consumeNonce N p n pf t s))) h = None"
    and "mget (pair_handles s) h = None \<Longrightarrow> mget (pair_handles (snd (consumeNonce N p n pf t s))) h = None"
    and "mget (pair_nonces s) h = None \<Longrightarrow> mget (pair_nonces (snd (consumeNonce N p n pf t s))) h = None"
  by (cases rule: consumeNonce_cases [of N p n pf t s]; auto intro: pruned_absent evicted_absent)+

lemma absent_revoke:
  shows "mget (pair_states s) h = None \<Longrightarrow> mget (pair_states (snd (revoke N p s))) h = None"
    and "mget (pair_handles s) h = None \<Longrightarrow> mget (pair_handles (snd (revoke N p s))) h = None"
    and "mget (pair_nonces s) h = None \<Longrightarrow> mget (pair_nonces (snd (revoke N p s))) h = None"
  by (cases rule: revoke_cases [of s N p]; auto intro: pruned_absent)+

lemmas absent_step = absent_consume_state absent_mark absent_claim absent_issue_nonce
  absent_consume_nonce absent_revoke

lemma absent_pairing_step:
  shows "mget (pair_states s) h = None \<Longrightarrow> \<not> mints_state N c s h \<Longrightarrow>
      mget (pair_states (pairing_step N c s)) h = None"
    and "mget (pair_handles s) h = None \<Longrightarrow> \<not> mints_handle N c s h \<Longrightarrow>
      mget (pair_handles (pairing_step N c s)) h = None"
    and "mget (pair_nonces s) h = None \<Longrightarrow> \<not> mints_nonce N c s h \<Longrightarrow>
      mget (pair_nonces (pairing_step N c s)) h = None"
  by (cases c; simp add: absent_step absent_create)+

interpretation state_once: one_shot "take_state N" "pairing_step N" "state_token N" "mints_state N"
  "\<lambda>h s. mget (pair_states s) h = None" pairing_inv for N
proof unfold_locales
  fix s :: pairing_store and a :: "bytes \<times> string \<times> int" and h and c :: pairing_op
  obtain rn os t where a: "a = (rn, os, t)" by (cases a)
  have step: "snd (take_state N a s) = pairing_step N (PairConsumeState rn os t) s"
    by (simp add: take_state_def a split: prod.splits)
  assume inv: "pairing_inv s"
  show "pairing_inv (snd (take_state N a s))" unfolding step using inv by (rule pairing_step_inv)
  show "pairing_inv (pairing_step N c s)" using inv by (rule pairing_step_inv)
  show "fst (take_state N a s) \<Longrightarrow> mget (pair_states (snd (take_state N a s))) (state_token N a) = None"
    and "mget (pair_states s) (state_token N a) = None \<Longrightarrow> \<not> fst (take_state N a s)"
    using evicted_absent(1) [of s "stateHash N os" t]
    by (cases rule: consume_state_cases [of N rn os t s];
      auto simp: take_state_def state_token_def a split: prod.splits)+
  assume absent: "mget (pair_states s) h = None"
  then show "mget (pair_states (snd (take_state N a s))) h = None"
    unfolding step by (rule absent_pairing_step) simp
  show "\<not> mints_state N c s h \<Longrightarrow> mget (pair_states (pairing_step N c s)) h = None"
    using absent by (rule absent_pairing_step)
qed

interpretation handle_once: one_shot "take_handle N" "pairing_step N" "handle_token N" "mints_handle N"
  "\<lambda>h s. mget (pair_handles s) h = None" pairing_inv for N
proof unfold_locales
  fix s :: pairing_store and a :: "string \<times> int" and h and c :: pairing_op
  have step: "snd (take_handle N a s) = pairing_step N (PairMark (fst a) (snd a)) s"
    by (simp add: take_handle_def)
  assume inv: "pairing_inv s"
  show "pairing_inv (snd (take_handle N a s))" unfolding step using inv by (rule pairing_step_inv)
  show "pairing_inv (pairing_step N c s)" using inv by (rule pairing_step_inv)
  show "fst (take_handle N a s) \<Longrightarrow> mget (pair_handles (snd (take_handle N a s))) (handle_token N a) = None"
    and "mget (pair_handles s) (handle_token N a) = None \<Longrightarrow> \<not> fst (take_handle N a s)"
    using evicted_absent(2) [of s "stateHash N (fst a)" "snd a"]
    by (cases rule: mark_cases [of N "fst a" "snd a" s]; auto simp: take_handle_def handle_token_def)+
  assume absent: "mget (pair_handles s) h = None"
  then show "mget (pair_handles (snd (take_handle N a s))) h = None"
    unfolding step by (rule absent_pairing_step) simp
  show "\<not> mints_handle N c s h \<Longrightarrow> mget (pair_handles (pairing_step N c s)) h = None"
    using absent by (rule absent_pairing_step)
qed

interpretation nonce_once: one_shot "take_nonce N" "pairing_step N" "nonce_token N" "mints_nonce N"
  "\<lambda>h s. mget (pair_nonces s) h = None" pairing_inv for N
proof unfold_locales
  fix s :: pairing_store and a :: "string \<times> string \<times> string \<times> int" and h and c :: pairing_op
  obtain p n pf t where a: "a = (p, n, pf, t)" by (cases a)
  have step: "snd (take_nonce N a s) = pairing_step N (PairConsumeNonce p n pf t) s"
    by (simp add: take_nonce_def a split: prod.splits)
  assume inv: "pairing_inv s"
  show "pairing_inv (snd (take_nonce N a s))" unfolding step using inv by (rule pairing_step_inv)
  show "pairing_inv (pairing_step N c s)" using inv by (rule pairing_step_inv)
  show "fst (take_nonce N a s) \<Longrightarrow> mget (pair_nonces (snd (take_nonce N a s))) (nonce_token N a) = None"
    and "mget (pair_nonces s) (nonce_token N a) = None \<Longrightarrow> \<not> fst (take_nonce N a s)"
    using evicted_absent(6) [of s "stateHash N n" t]
    by (cases rule: consumeNonce_cases [of N p n pf t s];
      auto simp: take_nonce_def nonce_token_def a split: prod.splits)+
  assume absent: "mget (pair_nonces s) h = None"
  then show "mget (pair_nonces (snd (take_nonce N a s))) h = None"
    unfolding step by (rule absent_pairing_step) simp
  show "\<not> mints_nonce N c s h \<Longrightarrow> mget (pair_nonces (pairing_step N c s)) h = None"
    using absent by (rule absent_pairing_step)
qed

section \<open>Eviction leaves the entries of other pairings alone\<close>

lemma states_fold_evict:
  "(\<And>k r. (k, r) \<in> set es \<Longrightarrow> t \<ge> pair_expiresAtMs r \<Longrightarrow> oauthStateHash r \<noteq> h) \<Longrightarrow>
     mget (pair_states (fold (evict_pairing t) es s)) h = mget (pair_states s) h"
proof (induction es arbitrary: s)
  case (Cons e es)
  obtain k r where e: "e = (k, r)" by (cases e)
  have "mget (pair_states (evict_pairing t e s)) h = mget (pair_states s) h"
    using Cons.prems [of k r] by (auto simp: e evict_pairing_def Let_def)
  moreover have "mget (pair_states (fold (evict_pairing t) es (evict_pairing t e s))) h =
      mget (pair_states (evict_pairing t e s)) h"
    using Cons.prems by (intro Cons.IH) auto
  ultimately show ?case by simp
qed simp

lemma handles_fold_evict:
  "(\<And>k r. (k, r) \<in> set es \<Longrightarrow> t \<ge> pair_expiresAtMs r \<Longrightarrow> callbackHandleHash r \<noteq> Some h) \<Longrightarrow>
     mget (pair_handles (fold (evict_pairing t) es s)) h = mget (pair_handles s) h"
proof (induction es arbitrary: s)
  case (Cons e es)
  obtain k r where e: "e = (k, r)" by (cases e)
  have "mget (pair_handles (evict_pairing t e s)) h = mget (pair_handles s) h"
    using Cons.prems [of k r] by (auto simp: e evict_pairing_def Let_def drop_handle_def split: option.split)
  moreover have "mget (pair_handles (fold (evict_pairing t) es (evict_pairing t e s))) h =
      mget (pair_handles (evict_pairing t e s)) h"
    using Cons.prems by (intro Cons.IH) auto
  ultimately show ?case by simp
qed simp

lemma nonces_fold_evict:
  "(\<And>k r. (k, r) \<in> set es \<Longrightarrow> t \<ge> pair_expiresAtMs r \<Longrightarrow> k \<noteq> pairKeyHash n) \<Longrightarrow>
     mkeys_distinct (pair_nonces s) \<Longrightarrow> mget (pair_nonces s) h = Some n \<Longrightarrow>
     mget (pair_nonces (fold (evict_pairing t) es s)) h = Some n"
proof (induction es arbitrary: s)
  case (Cons e es)
  obtain k r where e: "e = (k, r)" by (cases e)
  have "mget (pair_nonces (evict_pairing t e s)) h = Some n \<and> mkeys_distinct (pair_nonces (evict_pairing t e s))"
    using Cons.prems by (auto simp: e evict_pairing_def Let_def drop_nonces_for_def
        map_of_filter_distinct mkeys_distinct_filter)
  then have "mget (pair_nonces (fold (evict_pairing t) es (evict_pairing t e s))) h = Some n"
    using Cons.prems by (intro Cons.IH) auto
  then show ?case by simp
qed simp

text \<open>Entries of an evicted pairing are gone, whatever the rest of the loop does.\<close>

lemma evict_pairing_clears:
  assumes "t \<ge> pair_expiresAtMs r"
  shows "mget (pair_states (evict_pairing t (k, r) s)) (oauthStateHash r) = None"
    and "callbackHandleHash r = Some hh \<Longrightarrow> hh \<noteq> [] \<Longrightarrow>
      mget (pair_handles (evict_pairing t (k, r) s)) hh = None"
    and "mget (pair_nonces (evict_pairing t (k, r) s)) h = Some n \<Longrightarrow> pairKeyHash n \<noteq> k"
  using assms
  by (auto simp: evict_pairing_def Let_def drop_handle_def drop_nonces_for_def
      split: option.splits dest!: map_of_SomeD)

lemma fold_evict_clears:
  assumes "(k, r) \<in> set es" "t \<ge> pair_expiresAtMs r"
  shows "mget (pair_states (fold (evict_pairing t) es s)) (oauthStateHash r) = None"
    and "callbackHandleHash r = Some hh \<Longrightarrow> hh \<noteq> [] \<Longrightarrow>
      mget (pair_handles (fold (evict_pairing t) es s)) hh = None"
  using assms(1)
  by (induction es arbitrary: s)
    (use assms(2) in \<open>auto simp: evict_pairing_clears intro: pruned_absent [OF pruned_fold_evict]\<close>)

section \<open>Properties\<close>

lemma new_pairing_store_inv: "new_pairing_store cap = Inr s \<Longrightarrow> pairing_inv s"
  by (auto simp: new_pairing_store_def pairing_inv_def split: option.splits if_splits)

lemma rank_revoked_only: "Revoked \<le> st \<longleftrightarrow> st = Revoked"
  by (cases st) (simp_all add: status_order)

text \<open>
  Revocation is final.  After an operator revoked a pairing, no later sequence of operations that
  does not draw the same pairing identifier again lets it be claimed, issued a nonce or granted a
  lease.
\<close>
theorem revocation_is_final:
  assumes "pairing_inv s" and "revoke N pairId s = (True, s0)"
    and "never_mints (pairing_step N) (mints_pairing N) (pairHash N pairId) cs s0"
    and "s' = fold (pairing_step N) cs s0"
  shows "fst (openClaim N pairId pf t s') \<in> {Inl ClaimUnknown, Inl ClaimRevoked}
    \<and> fst (consumeNonce N pairId nonce pf t s') \<in> {Inl LeaseUnknown, Inl LeaseRevoked}
    \<and> \<not> (\<exists>x. fst (issueNonce N random pairId t d s') = Inr (Inr x))"
proof -
  let ?k = "pairHash N pairId"
  have s0: "s0 = pairing_step N (PairRevoke pairId) s" using assms(2) by simp
  then have inv0: "pairing_inv s0" using assms(1) pairing_step_inv by blast
  have "pairing_rank s0 ?k = Some Revoked"
    using assms(2) by (cases rule: revoke_cases [of s N pairId]) (auto simp: pairing_rank_def)
  then have "pairing_rank s' ?k \<in> {None, Some Revoked}"
    using pairing_life.run_climbs [OF inv0 assms(3)] assms(4)
    by (cases "pairing_rank s' ?k") (auto simp: rank_revoked_only)
  then consider "mget (pair_records s') ?k = None"
    | r where "mget (pair_records s') ?k = Some r" "pair_status r = Revoked"
    by (auto simp: pairing_rank_def split: option.splits)
  then show ?thesis
    by cases (auto simp: openClaim_def consumeNonce_def issueNonce_def Let_def split: option.splits)
qed

definition ex_pairing :: pairing where
  "ex_pairing = \<lparr> devicePublicKey = \<lparr> asymmetricKeyType = Ed25519, key_spki = [69] \<rparr>,
     deviceSigningPublicKeyPem = ''E'',
     deviceEncryptionPublicKey = \<lparr> asymmetricKeyType = X25519, key_spki = [88] \<rparr>,
     deviceEncryptionPublicKeyPem = ''X'', pair_expiresAtMs = 100,
     proofMessage = proof_message toy_crypto [] 100, oauthStateHash = ''o'', pkceVerifier = [],
     callbackHandleHash = None, pair_status = Enrolled \<rparr>"

definition ex_pairing_store :: pairing_store where
  "ex_pairing_store = \<lparr> pair_records = [(pairHash toy_crypto [], ex_pairing)], pair_states = [],
     pair_handles = [], pair_nonces = [], pair_max = 2 \<rparr>"

lemma ex_pairing_inv: "pairing_inv ex_pairing_store"
  by (simp add: pairing_inv_def ex_pairing_store_def ex_pairing_def pairing_ok_def proof_message_def)

theorem revocation_is_final_witness:
  "fst (openClaim toy_crypto [] ''E'' 5 (fold (pairing_step toy_crypto) [PairRevoke []]
     (snd (revoke toy_crypto [] ex_pairing_store)))) \<in> {Inl ClaimUnknown, Inl ClaimRevoked}"
proof -
  have "revoke toy_crypto [] ex_pairing_store = (True, snd (revoke toy_crypto [] ex_pairing_store))"
    by (simp add: revoke_def ex_pairing_store_def Let_def)
  then show ?thesis
    using revocation_is_final [OF ex_pairing_inv, of toy_crypto "[]" _ "[PairRevoke []]" _ "''E''" 5] by simp
qed

text \<open>
  C24: along every run, the status of a pairing never goes back in the life cycle pending, callback
  state consumed, authorized, enrolled, revoked; a pairing once gone stays gone, unless its
  identifier is drawn again.
\<close>
theorem pairing_status_climbs:
  assumes "pairing_inv s"
    and "never_mints (pairing_step N) (mints_pairing N) (pairHash N pairId) cs s"
  shows "case statusOf N pairId (fold (pairing_step N) cs s) of None \<Rightarrow> True
    | Some st' \<Rightarrow> (\<exists>st. statusOf N pairId s = Some st \<and> st \<le> st')"
  using pairing_life.run_climbs [OF assms]
  by (auto simp: statusOf_def pairing_rank_def split: option.splits)

theorem pairing_status_climbs_witness:
  "case statusOf toy_crypto [] (fold (pairing_step toy_crypto) [PairRevoke [], PairClaim [] [] 5]
       ex_pairing_store) of None \<Rightarrow> True
     | Some st' \<Rightarrow> (\<exists>st. statusOf toy_crypto [] ex_pairing_store = Some st \<and> st \<le> st')"
  by (rule pairing_status_climbs [OF ex_pairing_inv]) simp

text \<open>
  An OAuth state and a callback handle are each consumed at most once, along every interleaving
  of the store's operations, unless the random source draws the same value again.
\<close>
theorem callback_tokens_once:
  assumes "pairing_inv s"
    and "never_reminted (take_state N) (pairing_step N) (mints_state N) h es s"
    and "never_reminted (take_handle N) (pairing_step N) (mints_handle N) h es' s"
  shows "count_list (consumed (take_state N) (pairing_step N) (state_token N) es s) h \<le> 1
    \<and> count_list (consumed (take_handle N) (pairing_step N) (handle_token N) es' s) h \<le> 1"
  using state_once.consumed_at_most_once [OF assms(1,2)] handle_once.consumed_at_most_once [OF assms(1,3)]
  by blast

theorem callback_tokens_once_witness:
  "count_list (consumed (take_state toy_crypto) (pairing_step toy_crypto) (state_token toy_crypto)
      [Attempt ([1], ''s'', 5), Attempt ([2], ''s'', 6)] ex_pairing_store) ''00'' \<le> 1
    \<and> count_list (consumed (take_handle toy_crypto) (pairing_step toy_crypto) (handle_token toy_crypto)
      [Attempt (''h'', 5), Attempt (''h'', 6)] ex_pairing_store) ''00'' \<le> 1"
  by (rule callback_tokens_once [OF ex_pairing_inv]) simp_all

text \<open>
  A lease nonce is accepted at most once, along every interleaving, unless it is drawn again: a
  replayed lease request is refused.
\<close>
theorem nonce_accepted_once:
  assumes "pairing_inv s"
    and "never_reminted (take_nonce N) (pairing_step N) (mints_nonce N) h es s"
  shows "count_list (consumed (take_nonce N) (pairing_step N) (nonce_token N) es s) h \<le> 1"
  using assms by (rule nonce_once.consumed_at_most_once)

theorem nonce_accepted_once_witness:
  "count_list (consumed (take_nonce toy_crypto) (pairing_step toy_crypto) (nonce_token toy_crypto)
      [Other (PairRevoke []), Attempt ([], ''n'', [], 5)] ex_pairing_store) ''00'' \<le> 1"
  by (rule nonce_accepted_once [OF ex_pairing_inv]) simp

text \<open>
  A claim succeeds exactly for an authorized, unexpired pairing with a valid device signature
  over its proof message, and hands out the keys registered at its creation; the same claim does not
  succeed again.
\<close>
theorem claim_gate:
  "(fst (openClaim N pairId pf t s) = Inr keys \<longleftrightarrow>
      (\<exists>r. mget (pair_records s) (pairHash N pairId) = Some r \<and> pair_status r = Authorized
         \<and> t < pair_expiresAtMs r \<and> buffer_from_base64url N pf \<noteq> []
         \<and> verify_signature N (utf8 (proofMessage r)) (devicePublicKey r) (buffer_from_base64url N pf)
         \<and> keys = (deviceSigningPublicKeyPem r, deviceEncryptionPublicKeyPem r)))
    \<and> \<not> (fst (claim N pairId pf t s) \<and> fst (claim N pairId pf' t' (snd (claim N pairId pf t s))))"
proof (intro conjI)
  show "(fst (openClaim N pairId pf t s) = Inr keys) =
      (\<exists>r. mget (pair_records s) (pairHash N pairId) = Some r \<and> pair_status r = Authorized
         \<and> t < pair_expiresAtMs r \<and> buffer_from_base64url N pf \<noteq> []
         \<and> verify_signature N (utf8 (proofMessage r)) (devicePublicKey r) (buffer_from_base64url N pf)
         \<and> keys = (deviceSigningPublicKeyPem r, deviceEncryptionPublicKeyPem r))"
    by (auto simp: openClaim_def Let_def verifyProof_def split: option.splits if_splits)
  show "\<not> (fst (claim N pairId pf t s) \<and> fst (claim N pairId pf' t' (snd (claim N pairId pf t s))))"
    by (cases rule: claim_cases [of N pairId pf t s])
      (auto simp: claim_def openClaim_def Let_def split: prod.splits option.splits if_splits)
qed

text \<open>
  A lease is granted only for an enrolled, unexpired pairing, against an unexpired nonce issued
  to that very pairing and a device signature over the nonce bytes.
\<close>
theorem lease_gate:
  assumes "fst (consumeNonce N pairId nonce pf t s) = Inr pem"
  shows "\<exists>r n. mget (pair_records s) (pairHash N pairId) = Some r \<and> pair_status r = Enrolled
      \<and> pem = deviceEncryptionPublicKeyPem r \<and> t < pair_expiresAtMs r
      \<and> (stateHash N nonce, n) \<in> set (pair_nonces s) \<and> pairKeyHash n = pairHash N pairId
      \<and> t < nonce_expiresAtMs n \<and> buffer_from_base64url N pf \<noteq> []
      \<and> verify_signature N (buffer_from_base64url N nonce) (devicePublicKey r) (buffer_from_base64url N pf)"
proof (cases rule: consumeNonce_cases [of N pairId nonce pf t s])
  case (ok r n)
  moreover have "(stateHash N nonce, n) \<in> set (pair_nonces s)"
    using map_of_SomeD [OF ok(4)] by (simp add: evict_expired_nonces_def)
  ultimately show ?thesis
    using assms by (auto simp: verifyProof_def Let_def split: if_splits)
qed (use assms in simp)

definition ex_nonce_store :: pairing_store where
  "ex_nonce_store = ex_pairing_store\<lparr> pair_nonces := [(stateHash toy_crypto ''n'',
     \<lparr> pairKeyHash = pairHash toy_crypto [], nonce_expiresAtMs = 50 \<rparr>)] \<rparr>"

lemma ex_lease: "fst (consumeNonce toy_crypto [] ''n'' ''En'' 49 ex_nonce_store) = Inr ''X''"
proof -
  have "verifyProof toy_crypto ex_pairing ''En'' (Some (buffer_from_base64url toy_crypto ''n''))"
    by (simp add: verifyProof_def toy_crypto_def ex_pairing_def utf8_def utf8_char_def Let_def)
  then show ?thesis
    by (simp add: consumeNonce_def ex_nonce_store_def ex_pairing_store_def evict_expired_nonces_def Let_def)
      (simp add: ex_pairing_def)
qed

theorem lease_gate_witness:
  "\<exists>(r :: pairing) n. (stateHash toy_crypto ''n'', n) \<in> set (pair_nonces ex_nonce_store) \<and> pair_status r = Enrolled
     \<and> pairKeyHash n = pairHash toy_crypto [] \<and> (49 :: int) < nonce_expiresAtMs n"
  using lease_gate [OF ex_lease] by blast

text \<open>
  A nonce issued to an enrolled pairing is accepted for the device's signature over it before
  both expire, and refused for any other signature; in either case the nonce is spent, so presenting
  it again with any signature and at any later time never grants a lease.
\<close>
theorem issued_nonce_works_once:
  assumes "mget (pair_records s) (pairHash N pairId) = Some r" and "t' < pair_expiresAtMs r"
    and "issueNonce N random pairId t ttl s = (Inr (Inr (nonce, e)), s1)" and "t' < e"
  shows "fst (consumeNonce N pairId nonce pf t' s1) =
      (if verifyProof N r pf (Some (buffer_from_base64url N nonce))
       then Inr (deviceEncryptionPublicKeyPem r) else Inl LeaseInvalidProof)
    \<and> \<not> is_ok (fst (consumeNonce N pairId nonce pf2 t2 (snd (consumeNonce N pairId nonce pf t' s1))))"
proof (cases rule: issueNonce_cases [of N random pairId t ttl s])
  case (ok d r')
  define s2 where "s2 = snd (consumeNonce N pairId nonce pf t' s1)"
  define n where "n = \<lparr> pairKeyHash = pairHash N pairId, nonce_expiresAtMs = e \<rparr>"
  from ok assms have r: "pair_status r = Enrolled" "r' = r" and rec: "pair_records s1 = pair_records s"
    and nonce: "nonce = encode random" "e = t + d"
    and ns: "pair_nonces s1 = mput (stateHash N nonce) n (pair_nonces (evict_expired_nonces t s))"
    by (auto simp: n_def)
  have "mget (pair_nonces (evict_expired_nonces t' s1)) (stateHash N nonce) = Some n"
    unfolding evict_expired_nonces_def by (simp add: ns n_def) (rule map_of_filter_update, use assms(4) in auto)
  then have one: "consumeNonce N pairId nonce pf t' s1 =
      (if verifyProof N r pf (Some (buffer_from_base64url N nonce))
       then Inr (deviceEncryptionPublicKeyPem r) else Inl LeaseInvalidProof,
       (evict_expired_nonces t' s1)\<lparr> pair_nonces :=
          mdel (stateHash N nonce) (pair_nonces (evict_expired_nonces t' s1)) \<rparr>)"
    using r rec assms by (simp add: consumeNonce_def Let_def n_def)
  then have "mget (pair_nonces s2) (stateHash N nonce) = None" by (simp add: s2_def)
  then have "\<not> is_ok (fst (consumeNonce N pairId nonce pf2 t2 s2))"
    using evicted_absent(6) [of s2 "stateHash N nonce" t2]
    by (cases rule: consumeNonce_cases [of N pairId nonce pf2 t2 s2]) auto
  with one show ?thesis by (simp add: s2_def)
qed (use assms(3) in simp)

theorem issued_nonce_works_once_witness:
  "\<exists>nonce e s1. issueNonce toy_crypto [5] [] 3 (Fin 60) ex_pairing_store = (Inr (Inr (nonce, e)), s1)
     \<and> \<not> is_ok (fst (consumeNonce toy_crypto [] nonce ''E'' 7
          (snd (consumeNonce toy_crypto [] nonce ''F'' 6 s1))))"
proof -
  have rec: "mget (pair_records ex_pairing_store) (pairHash toy_crypto []) = Some ex_pairing"
    "6 < pair_expiresAtMs ex_pairing" by (simp_all add: ex_pairing_store_def ex_pairing_def)
  have "pair_status ex_pairing = Enrolled" by (simp add: ex_pairing_def)
  with rec(1) obtain s1 where issue: "issueNonce toy_crypto [5] [] 3 (Fin 60) ex_pairing_store
      = (Inr (Inr (encode [5], 63)), s1)"
    by (simp add: issueNonce_def Let_def MAX_NONCE_TTL_MS_def)
  have "\<not> is_ok (fst (consumeNonce toy_crypto [] (encode [5]) ''E'' 7
      (snd (consumeNonce toy_crypto [] (encode [5]) ''F'' 6 s1))))"
    using issued_nonce_works_once [OF rec issue, of "''F''" "''E''" 7] by simp
  with issue show ?thesis by blast
qed

end
