(* ===== verification/OAuth.thy ===== *)
theory OAuth
  imports FormUrl Platform Pairing
begin

text \<open>
  \<^verbatim>\<open>broker/src/google-oauth-client.ts\<close> and \<^verbatim>\<open>broker/src/config.ts\<close>: the authorization URL, the token
  requests and the strict reading of their answers, the validation of granted scopes, and the parsing
  of the broker's non-secret configuration.  The transport's answer is an argument (\<open>None\<close> where it
  throws); the URL parser of the host is a parameter of the configuration check.
\<close>

section \<open>Configuration\<close>

definition GOOGLE_DRIVE_READONLY_SCOPE :: string where
  "GOOGLE_DRIVE_READONLY_SCOPE = ''https://www.googleapis.com/auth/drive.readonly''"

record broker_config =
  googleClientId :: string
  googleCallbackUri :: string
  googleDriveScope :: string
  pairingTtlMs :: int
  pairingCapacity :: int
  pairingRateLimitMaxAttempts :: int
  pairingRateLimitWindowMs :: int

datatype config_error = InvalidSetting string

text \<open>What the code reads of a parsed URL.\<close>

record url_parts =
  url_href :: string
  url_protocol :: string
  url_username :: string
  url_password :: string

definition readString :: "(string \<times> jsval) list \<Rightarrow> string \<Rightarrow> (config_error, string) result" where
  "readString kvs k = (case as_nonempty_string (field kvs k) of None \<Rightarrow> Inl (InvalidSetting k) | Some s \<Rightarrow> Inr s)"

definition readInteger :: "(string \<times> jsval) list \<Rightarrow> string \<Rightarrow> int \<Rightarrow> int \<Rightarrow> (config_error, int) result" where
  "readInteger kvs k lo hi = (case as_integer (field kvs k) of None \<Rightarrow> Inl (InvalidSetting k)
     | Some i \<Rightarrow> if i < lo \<or> i > hi then Inl (InvalidSetting k) else Inr i)"

definition validateCallbackUri :: "(string \<Rightarrow> url_parts option) \<Rightarrow> string \<Rightarrow> (config_error, string) result" where
  "validateCallbackUri parse_url v = (case parse_url v of None \<Rightarrow> Inl (InvalidSetting ''googleCallbackUri'')
     | Some u \<Rightarrow>
       if url_href u \<noteq> v \<or> url_protocol u \<noteq> ''https:'' \<or> url_username u \<noteq> [] \<or> url_password u \<noteq> []
          \<or> str_includes v ''?'' \<or> str_includes v ''#''
       then Inl (InvalidSetting ''googleCallbackUri'') else Inr v)"

definition client_id_char :: "char \<Rightarrow> bool" where
  "client_id_char c \<longleftrightarrow> is_alnum c \<or> c = CHR ''.'' \<or> c = CHR ''_'' \<or> c = CHR ''-''"

definition CLIENT_ID_SUFFIX :: string where
  "CLIENT_ID_SUFFIX = ''.apps.googleusercontent.com''"

definition is_client_id :: "string \<Rightarrow> bool" where
  "is_client_id s \<longleftrightarrow> ends_with s CLIENT_ID_SUFFIX \<and> length s > length CLIENT_ID_SUFFIX
     \<and> is_alnum (hd s) \<and> list_all client_id_char s"

definition parseBrokerRuntimeConfig :: "(string \<Rightarrow> url_parts option) \<Rightarrow> (string \<times> jsval) list \<Rightarrow>
    (config_error, broker_config) result" where
  "parseBrokerRuntimeConfig parse_url kvs =
    bind_result (readString kvs ''googleClientId'') (\<lambda>cid.
      if \<not> is_client_id cid then Inl (InvalidSetting ''googleClientId'')
      else bind_result (bind_result (readString kvs ''googleCallbackUri'') (validateCallbackUri parse_url)) (\<lambda>uri.
      bind_result (readString kvs ''googleDriveScope'') (\<lambda>sc.
      if sc \<noteq> GOOGLE_DRIVE_READONLY_SCOPE then Inl (InvalidSetting ''googleDriveScope'')
      else bind_result (readInteger kvs ''pairingTtlMs'' 1000 (10 * 60000)) (\<lambda>ttl.
      bind_result (readInteger kvs ''pairingCapacity'' 1 10000) (\<lambda>capacity.
      bind_result (readInteger kvs ''pairingRateLimitMaxAttempts'' 1 100) (\<lambda>attempts.
      bind_result (readInteger kvs ''pairingRateLimitWindowMs'' 1000 (60 * 60000)) (\<lambda>window.
        Inr \<lparr> googleClientId = cid, googleCallbackUri = uri, googleDriveScope = GOOGLE_DRIVE_READONLY_SCOPE,
              pairingTtlMs = ttl, pairingCapacity = capacity, pairingRateLimitMaxAttempts = attempts,
              pairingRateLimitWindowMs = window \<rparr>)))))))"

section \<open>Authorization request\<close>

definition GOOGLE_AUTHORIZATION_ENDPOINT :: string where
  "GOOGLE_AUTHORIZATION_ENDPOINT = ''https://accounts.google.com/o/oauth2/v2/auth''"

definition GOOGLE_TOKEN_ENDPOINT :: string where
  "GOOGLE_TOKEN_ENDPOINT = ''https://oauth2.googleapis.com/token''"

text \<open>\<^verbatim>\<open>update(verifier, "ascii")\<close> hashes one byte per code unit.\<close>

definition pkceS256Challenge :: "'x node_crypto_scheme \<Rightarrow> string \<Rightarrow> string" where
  "pkceS256Challenge N verifier = toBase64Url (sha256 N (map (\<lambda>c. of_nat (code c)) verifier))"

definition authorization_params :: "'x node_crypto_scheme \<Rightarrow> broker_config \<Rightarrow> string \<Rightarrow> string \<Rightarrow>
    (string \<times> string) list" where
  "authorization_params N cfg oauthState verifier =
    [(''client_id'', googleClientId cfg), (''redirect_uri'', googleCallbackUri cfg), (''response_type'', ''code''),
     (''scope'', googleDriveScope cfg), (''state'', oauthState), (''code_challenge'', pkceS256Challenge N verifier),
     (''code_challenge_method'', ''S256''), (''access_type'', ''offline''), (''prompt'', ''consent'')]"

definition createAuthorizationUrl :: "'x node_crypto_scheme \<Rightarrow> broker_config \<Rightarrow> string \<Rightarrow> string \<Rightarrow> string" where
  "createAuthorizationUrl N cfg oauthState verifier =
     GOOGLE_AUTHORIZATION_ENDPOINT @ CHR ''?'' # form_serialize (authorization_params N cfg oauthState verifier)"

section \<open>Token responses\<close>

datatype token_error = NetworkError | TokenEndpointError | MalformedResponse

datatype scope_error = RequiredScopeMissing | UnexpectedScope

record oauth_tokens =
  accessToken :: string
  tokenType :: string
  refreshToken :: "string option"
  expiresIn :: "int option"
  granted_scope :: string

datatype oauth_error = TokenFailure token_error | ScopeFailure scope_error

text \<open>An optional property: absent, usable, or unusable.\<close>

definition optional_field :: "jsval \<Rightarrow> (jsval \<Rightarrow> 'a option) \<Rightarrow> (token_error, 'a option) result" where
  "optional_field v f = (if v = Undefined then Inr None
     else case f v of None \<Rightarrow> Inl MalformedResponse | Some x \<Rightarrow> Inr (Some x))"

definition positive_integer :: "jsval \<Rightarrow> int option" where
  "positive_integer v = (case as_integer v of None \<Rightarrow> None | Some i \<Rightarrow> if i \<le> 0 then None else Some i)"

definition parseTokenResponse :: "number \<Rightarrow> string \<Rightarrow> (token_error, oauth_tokens) result" where
  "parseTokenResponse status raw =
    (if (case as_int status of None \<Rightarrow> True | Some n \<Rightarrow> n < 200 \<or> n \<ge> 300) then Inl TokenEndpointError
     else case json_parse raw of None \<Rightarrow> Inl MalformedResponse
     | Some v \<Rightarrow> (case plain_object v of None \<Rightarrow> Inl MalformedResponse
        | Some r \<Rightarrow>
          (case (as_nonempty_string (field r ''access_token''), as_nonempty_string (field r ''token_type''),
                 as_nonempty_string (field r ''scope'')) of
             (Some acc, Some tt, Some sc) \<Rightarrow>
               bind_result (optional_field (field r ''refresh_token'') as_nonempty_string) (\<lambda>rt.
               bind_result (optional_field (field r ''expires_in'') positive_integer) (\<lambda>ex.
                 Inr \<lparr> accessToken = acc, tokenType = tt, refreshToken = rt, expiresIn = ex, granted_scope = sc \<rparr>))
           | _ \<Rightarrow> Inl MalformedResponse)))"

text \<open>\<^verbatim>\<open>split(/\s+/)\<close> with the empty pieces dropped, and a \<^verbatim>\<open>Set\<close> in insertion order.\<close>

definition scope_words :: "string \<Rightarrow> string list" where
  "scope_words s = filter (\<lambda>p. p \<noteq> []) (split_on (CHR '' '') (map (\<lambda>c. if is_space c then CHR '' '' else c) s))"

definition js_set :: "'a list \<Rightarrow> 'a list" where
  "js_set xs = fold (\<lambda>x acc. if x \<in> set acc then acc else acc @ [x]) xs []"

definition validateGrantedScope :: "string \<Rightarrow> string \<Rightarrow> string list \<Rightarrow> (scope_error, string) result" where
  "validateGrantedScope grantedScope requiredScope allowedScopes =
    (let granted = js_set (scope_words grantedScope)
     in if requiredScope \<notin> set granted then Inl RequiredScopeMissing
        else if \<not> list_all (\<lambda>v. v \<in> set allowedScopes) granted then Inl UnexpectedScope
        else Inr (join_with '' '' granted))"

record oauth_request =
  oauth_url :: string
  oauth_body :: string

definition token_request :: "(string \<times> string) list \<Rightarrow> oauth_request" where
  "token_request ps = \<lparr> oauth_url = GOOGLE_TOKEN_ENDPOINT, oauth_body = form_serialize ps \<rparr>"

definition exchange_params :: "broker_config \<Rightarrow> string \<Rightarrow> string \<Rightarrow> string \<Rightarrow> (string \<times> string) list" where
  "exchange_params cfg c verifier secret =
    [(''grant_type'', ''authorization_code''), (''code'', c), (''code_verifier'', verifier),
     (''client_id'', googleClientId cfg), (''client_secret'', secret), (''redirect_uri'', googleCallbackUri cfg)]"

text \<open>The request sent, and the outcome for the transport's answer to it.\<close>

definition exchangeAuthorizationCode :: "broker_config \<Rightarrow> string \<Rightarrow> string \<Rightarrow> string \<Rightarrow>
    (oauth_request \<Rightarrow> (number \<times> string) option) \<Rightarrow> (token_error, oauth_tokens) result" where
  "exchangeAuthorizationCode cfg c verifier secret transport =
    (case transport (token_request (exchange_params cfg c verifier secret)) of None \<Rightarrow> Inl NetworkError
     | Some (status, body) \<Rightarrow> parseTokenResponse status body)"

definition refresh_params :: "broker_config \<Rightarrow> string \<Rightarrow> string \<Rightarrow> (string \<times> string) list" where
  "refresh_params cfg token secret =
    [(''grant_type'', ''refresh_token''), (''refresh_token'', token), (''client_id'', googleClientId cfg),
     (''client_secret'', secret)]"

record access_grant =
  grant_accessToken :: string
  grant_tokenType :: string
  grant_scope :: string
  grant_expiresIn :: "int option"

definition refreshAccessToken :: "broker_config \<Rightarrow> string \<Rightarrow> string \<Rightarrow> string option \<Rightarrow> string list option \<Rightarrow>
    (oauth_request \<Rightarrow> (number \<times> string) option) \<Rightarrow> (oauth_error, access_grant) result" where
  "refreshAccessToken cfg token secret requiredScope allowedScopes transport =
    (case transport (token_request (refresh_params cfg token secret)) of None \<Rightarrow> Inl (TokenFailure NetworkError)
     | Some (status, body) \<Rightarrow> (case parseTokenResponse status body of Inl e \<Rightarrow> Inl (TokenFailure e)
        | Inr t \<Rightarrow>
          (case validateGrantedScope (granted_scope t)
              (case requiredScope of Some r \<Rightarrow> r | None \<Rightarrow> googleDriveScope cfg)
              (case allowedScopes of Some a \<Rightarrow> a | None \<Rightarrow> [googleDriveScope cfg]) of
             Inl e \<Rightarrow> Inl (ScopeFailure e)
           | Inr sc \<Rightarrow> Inr \<lparr> grant_accessToken = accessToken t, grant_tokenType = tokenType t, grant_scope = sc,
                grant_expiresIn = expiresIn t \<rparr>)))"

section \<open>Lemmas\<close>

lemma js_set_acc: "distinct acc \<Longrightarrow>
    distinct (fold (\<lambda>x acc. if x \<in> set acc then acc else acc @ [x]) xs acc)
    \<and> set (fold (\<lambda>x acc. if x \<in> set acc then acc else acc @ [x]) xs acc) = set acc \<union> set xs"
  by (induction xs arbitrary: acc) auto

lemma js_set: "distinct (js_set xs)" "set (js_set xs) = set xs"
  using js_set_acc [of "[]" xs] by (simp_all add: js_set_def)

lemma scope_words_no_space: "w \<in> set (scope_words s) \<Longrightarrow> w \<noteq> [] \<and> list_all (\<lambda>c. \<not> is_space c) w"
proof
  assume w: "w \<in> set (scope_words s)"
  then show "w \<noteq> []" by (simp add: scope_words_def)
  let ?s = "map (\<lambda>c. if is_space c then CHR '' '' else c) s"
  from w have piece: "w \<in> set (split_on (CHR '' '') ?s)" by (simp add: scope_words_def)
  have "set w \<subseteq> set ?s" using piece by (rule split_on_subset)
  moreover have "CHR '' '' \<notin> set w" using piece by (rule split_on_no_delim)
  moreover have "c = CHR '' ''" if "c \<in> set ?s" "is_space c" for c
    using that by (auto simp: is_space_def)
  ultimately show "list_all (\<lambda>c. \<not> is_space c) w" by (auto simp: list_all_iff)
qed

lemma distinct_singleton: "distinct xs \<Longrightarrow> set xs = {a} \<Longrightarrow> xs = [a]"
  by (cases xs; cases "tl xs") auto

lemma granted_default:
  assumes "validateGrantedScope g required [required] = Inr s"
  shows "s = required"
proof -
  define ws where "ws = js_set (scope_words g)"
  have all: "required \<in> set ws \<and> list_all (\<lambda>v. v \<in> set [required]) ws \<and> join_with '' '' ws = s"
    using assms unfolding validateGrantedScope_def Let_def ws_def [symmetric] by (simp split: if_splits)
  then have "set ws = {required}" by (auto simp: list_all_iff)
  moreover have "distinct ws" unfolding ws_def by (rule js_set(1))
  ultimately have "ws = [required]" by (rule distinct_singleton [rotated])
  with all show ?thesis by simp
qed

section \<open>Properties\<close>

text \<open>
  The granted scope is accepted exactly when it contains the required scope and nothing outside
  the allowed ones; the accepted text lists each granted scope once.  With the configured defaults the
  only accepted grant is the required scope itself.
\<close>
theorem granted_scope_checked:
  "(is_ok (validateGrantedScope g required allowed) \<longleftrightarrow>
      required \<in> set (scope_words g) \<and> set (scope_words g) \<subseteq> set allowed)
    \<and> (\<forall>s. validateGrantedScope g required allowed = Inr s \<longrightarrow>
        (\<exists>ws. s = join_with '' '' ws \<and> distinct ws \<and> set ws = set (scope_words g)))
    \<and> (\<forall>s. validateGrantedScope g required [required] = Inr s \<longrightarrow> s = required)"
proof (intro conjI allI impI)
  show "is_ok (validateGrantedScope g required allowed) =
      (required \<in> set (scope_words g) \<and> set (scope_words g) \<subseteq> set allowed)"
    by (auto simp: validateGrantedScope_def Let_def js_set list_all_iff)
  show "\<exists>ws. s = join_with '' '' ws \<and> distinct ws \<and> set ws = set (scope_words g)"
    if "validateGrantedScope g required allowed = Inr s" for s
    using that js_set [of "scope_words g"]
    by (intro exI [of _ "js_set (scope_words g)"]) (simp add: validateGrantedScope_def Let_def split: if_splits)
qed (rule granted_default)

text \<open>
  C22: least privilege end to end.  Whatever the token endpoint answers, a token that the refresh hands
  out under a parsed configuration and the default scope arguments carries exactly the Drive read-only
  scope, came with a 2xx status, and is not empty.
\<close>
theorem refreshed_token_is_readonly:
  assumes "parseBrokerRuntimeConfig parse_url kvs = Inr cfg"
    and "refreshAccessToken cfg token secret None None transport = Inr grant"
  shows "grant_scope grant = GOOGLE_DRIVE_READONLY_SCOPE \<and> grant_accessToken grant \<noteq> []
    \<and> (\<exists>status body n. transport (token_request (refresh_params cfg token secret)) = Some (status, body)
         \<and> status = num_of_int n \<and> 200 \<le> n \<and> n < 300)"
proof -
  have cfg: "googleDriveScope cfg = GOOGLE_DRIVE_READONLY_SCOPE"
    using assms(1) by (auto simp: parseBrokerRuntimeConfig_def bind_result_Inr split: if_splits)
  obtain status body t where a: "transport (token_request (refresh_params cfg token secret)) = Some (status, body)"
    and b: "parseTokenResponse status body = Inr t" and g: "grant_accessToken grant = accessToken t"
    and c: "validateGrantedScope (granted_scope t) (googleDriveScope cfg) [googleDriveScope cfg] = Inr (grant_scope grant)"
    using assms(2) by (auto simp: refreshAccessToken_def split: option.splits prod.splits sum.splits)
  from b have "accessToken t \<noteq> []" and "\<exists>n. status = num_of_int n \<and> 200 \<le> n \<and> n < 300"
    by (auto simp: parseTokenResponse_def as_int_Some_iff bind_result_Inr as_nonempty_string_iff
        simp del: as_int.simps split: option.splits if_splits)
  with a g c cfg granted_default [OF c] show ?thesis by auto
qed

definition ex_config_fields :: "(string \<times> jsval) list" where
  "ex_config_fields = [(''googleClientId'', Str ''a.apps.googleusercontent.com''),
     (''googleCallbackUri'', Str ''https://b.example/cb''), (''googleDriveScope'', Str GOOGLE_DRIVE_READONLY_SCOPE),
     (''pairingTtlMs'', Num (Fin 600000)), (''pairingCapacity'', Num (Fin 10)),
     (''pairingRateLimitMaxAttempts'', Num (Fin 5)), (''pairingRateLimitWindowMs'', Num (Fin 60000))]"

definition ex_config :: broker_config where
  "ex_config = \<lparr> googleClientId = ''a.apps.googleusercontent.com'', googleCallbackUri = ''https://b.example/cb'',
     googleDriveScope = GOOGLE_DRIVE_READONLY_SCOPE, pairingTtlMs = 600000, pairingCapacity = 10,
     pairingRateLimitMaxAttempts = 5, pairingRateLimitWindowMs = 60000 \<rparr>"

definition toy_url :: "string \<Rightarrow> url_parts option" where
  "toy_url s = Some \<lparr> url_href = s, url_protocol = ''https:'', url_username = [], url_password = [] \<rparr>"

lemma ex_config: "parseBrokerRuntimeConfig toy_url ex_config_fields = Inr ex_config"
  by code_simp

definition ex_token_body :: jsval where
  "ex_token_body = Obj [(''access_token'', Str ''tok''), (''token_type'', Str ''Bearer''),
     (''scope'', Str GOOGLE_DRIVE_READONLY_SCOPE), (''expires_in'', jint 3599)]"

lemma ex_refresh: "refreshAccessToken ex_config ''r'' ''s'' None None
    (\<lambda>_. Some (Fin 200, json_text ex_token_body)) =
  Inr \<lparr> grant_accessToken = ''tok'', grant_tokenType = ''Bearer'', grant_scope = GOOGLE_DRIVE_READONLY_SCOPE,
        grant_expiresIn = Some 3599 \<rparr>"
proof -
  have "json_parse (json_text ex_token_body) = Some ex_token_body"
    by (rule json_parse_text) (simp add: ex_token_body_def jint_def)
  then have "parseTokenResponse (Fin 200) (json_text ex_token_body) = Inr \<lparr> accessToken = ''tok'',
      tokenType = ''Bearer'', refreshToken = None, expiresIn = Some 3599, granted_scope = GOOGLE_DRIVE_READONLY_SCOPE \<rparr>"
    by (simp add: parseTokenResponse_def ex_token_body_def field_def optional_field_def positive_integer_def
        GOOGLE_DRIVE_READONLY_SCOPE_def)
  moreover have "validateGrantedScope GOOGLE_DRIVE_READONLY_SCOPE GOOGLE_DRIVE_READONLY_SCOPE
      [GOOGLE_DRIVE_READONLY_SCOPE] = Inr GOOGLE_DRIVE_READONLY_SCOPE"
    by code_simp
  ultimately show ?thesis by (simp add: refreshAccessToken_def ex_config_def)
qed

theorem refreshed_token_is_readonly_witness:
  "\<exists>status body n. (\<lambda>_. Some (Fin 200, json_text ex_token_body))
      (token_request (refresh_params ex_config ''r'' ''s'')) = Some (status, body) \<and> status = num_of_int n \<and> n < 300"
  using refreshed_token_is_readonly [OF ex_config ex_refresh] by blast

theorem granted_scope_checked_witness:
  "\<not> is_ok (validateGrantedScope ''a b'' ''a'' [''a''])"
proof -
  have "set (scope_words ''a b'') = {''a'', ''b''}" by code_simp
  then show ?thesis using granted_scope_checked [of "''a b''" "''a''" "[''a'']"] by simp
qed

text \<open>
  The authorization URL carries, when read back as a query, exactly the nine intended parameters,
  whatever the state and verifier contain; its challenge is the S256 transform of the verifier whose
  exchange later presents it, and the exchange body reads back to exactly its six parameters.
\<close>
theorem authorization_request_exact:
  "\<exists>q. createAuthorizationUrl N cfg st v = GOOGLE_AUTHORIZATION_ENDPOINT @ CHR ''?'' # q
     \<and> form_parse q = authorization_params N cfg st v
     \<and> map_of (form_parse q) ''state'' = Some st
     \<and> map_of (form_parse q) ''code_challenge'' = Some (pkceS256Challenge N v)
     \<and> map_of (form_parse (oauth_body (token_request (exchange_params cfg c v secret)))) ''code_verifier'' = Some v
     \<and> map_of (form_parse (oauth_body (token_request (exchange_params cfg c v secret)))) ''code'' = Some c"
  by (rule exI [of _ "form_serialize (authorization_params N cfg st v)"])
    (simp add: createAuthorizationUrl_def form_parse_serialize token_request_def,
     simp add: authorization_params_def exchange_params_def)

text \<open>
  A parsed configuration always fits the pairing store: its capacity makes a store, its lifetime is
  one every creation accepts, and the rate limits are positive and bounded.
\<close>
theorem config_fits_pairing_store:
  assumes "parseBrokerRuntimeConfig parse_url kvs = Inr cfg"
  shows "new_pairing_store (num_of_int (pairingCapacity cfg)) =
      Inr \<lparr> pair_records = [], pair_states = [], pair_handles = [], pair_nonces = [],
            pair_max = nat (pairingCapacity cfg) \<rparr>
    \<and> create_guard (num_of_int now) (num_of_int (pairingTtlMs cfg)) = Inr (now, pairingTtlMs cfg)
    \<and> pairingRateLimitMaxAttempts cfg \<in> {1..100} \<and> pairingRateLimitWindowMs cfg \<in> {1000..3600000}
    \<and> is_client_id (googleClientId cfg) \<and> googleDriveScope cfg = GOOGLE_DRIVE_READONLY_SCOPE"
proof -
  have r: "readInteger kvs k lo hi = Inr i \<Longrightarrow> lo \<le> i \<and> i \<le> hi" for k lo hi i
    by (auto simp: readInteger_def split: option.splits if_splits)
  have "1000 \<le> pairingTtlMs cfg \<and> pairingTtlMs cfg \<le> 600000 \<and> 1 \<le> pairingCapacity cfg
    \<and> pairingRateLimitMaxAttempts cfg \<in> {1..100} \<and> pairingRateLimitWindowMs cfg \<in> {1000..3600000}
    \<and> is_client_id (googleClientId cfg) \<and> googleDriveScope cfg = GOOGLE_DRIVE_READONLY_SCOPE"
    using assms by (auto simp: parseBrokerRuntimeConfig_def bind_result_Inr dest!: r split: if_splits)
  then show ?thesis
    by (simp add: new_pairing_store_def create_guard_def MAX_PAIRING_TTL_MS_def)
qed

theorem config_fits_pairing_store_witness:
  "create_guard (num_of_int 5) (num_of_int (pairingTtlMs ex_config)) = Inr (5, 600000)"
  using config_fits_pairing_store [OF ex_config, of 5] by (simp add: ex_config_def)

end
