(* ===== verification/RateLimit.thy ===== *)
theory RateLimit
  imports Prelude
begin

text \<open>
  The pairing rate limiter of \<^verbatim>\<open>broker/src/server.ts\<close> (\<^verbatim>\<open>allowPairAttempt\<close>): one counter per client
  address in a window that starts with the address's first attempt.  The lemmas bound what an
  address can obtain in any interval of the window's length.
\<close>

record attempt_entry =
  att_startedAtMs :: int
  att_count :: nat

type_synonym attempts = "(string, attempt_entry) omap"

definition evict_attempts :: "int \<Rightarrow> int \<Rightarrow> attempts \<Rightarrow> attempts" where
  "evict_attempts windowMs nowMs m = filter (\<lambda>(a, e). \<not> nowMs - att_startedAtMs e \<ge> windowMs) m"

definition allowPairAttempt :: "nat \<Rightarrow> int \<Rightarrow> string \<Rightarrow> int \<Rightarrow> attempts \<Rightarrow> bool \<times> attempts" where
  "allowPairAttempt maxAttempts windowMs client nowMs m =
    (let m1 = evict_attempts windowMs nowMs m
     in case mget m1 client of
          None \<Rightarrow> (True, mput client \<lparr> att_startedAtMs = nowMs, att_count = 1 \<rparr> m1)
        | Some e \<Rightarrow> if att_count e \<ge> maxAttempts then (False, m1)
            else (True, mput client (e\<lparr> att_count := att_count e + 1 \<rparr>) m1))"

text \<open>How many attempts of one address are granted at times in \<open>[from, until)\<close> along a run.\<close>

primrec granted_attempts :: "nat \<Rightarrow> int \<Rightarrow> string \<Rightarrow> int \<Rightarrow> int \<Rightarrow> (string \<times> int) list \<Rightarrow> attempts \<Rightarrow> nat" where
  "granted_attempts k w a from until [] m = 0"
| "granted_attempts k w a from until (e # es) m =
    (case allowPairAttempt k w (fst e) (snd e) m of (ok, m') \<Rightarrow>
      (if ok \<and> fst e = a \<and> from \<le> snd e \<and> snd e < until then 1 else 0)
      + granted_attempts k w a from until es m')"

definition rate_inv :: "nat \<Rightarrow> int \<Rightarrow> attempts \<Rightarrow> bool" where
  "rate_inv k t m \<longleftrightarrow> mkeys_distinct m \<and> (\<forall>(a, e) \<in> set m. att_count e \<le> k \<and> att_startedAtMs e \<le> t)"

lemma mget_evict_attempts:
  "mkeys_distinct m \<Longrightarrow> mget (evict_attempts w t m) a = (case mget m a of None \<Rightarrow> None
    | Some e \<Rightarrow> if t - att_startedAtMs e \<ge> w then None else Some e)"
  by (auto simp: evict_attempts_def map_of_filter_distinct split: option.splits)

lemma rate_inv_get: "rate_inv k t m \<Longrightarrow> mget m a = Some e \<Longrightarrow> att_count e \<le> k \<and> att_startedAtMs e \<le> t"
  by (auto simp: rate_inv_def dest: map_of_SomeD)

lemma rate_inv_evict: "rate_inv k t m \<Longrightarrow> t \<le> t' \<Longrightarrow> rate_inv k t' (evict_attempts w u m)"
  by (fastforce simp: rate_inv_def evict_attempts_def mkeys_distinct_filter)

lemma rate_inv_put:
  "rate_inv k t m \<Longrightarrow> att_count e \<le> k \<Longrightarrow> att_startedAtMs e \<le> t \<Longrightarrow> rate_inv k t (mput a e m)"
  using set_update_subset [of a e m] by (fastforce simp: rate_inv_def distinct_update)

lemma rate_inv_attempt:
  assumes "rate_inv k t m" "t \<le> t'" "0 < k"
  shows "rate_inv k t' (snd (allowPairAttempt k w a t' m))"
proof -
  have r: "rate_inv k t' (evict_attempts w t' m)" using assms rate_inv_evict by blast
  with rate_inv_get [OF r, of a] assms(3) show ?thesis
    by (auto simp: allowPairAttempt_def Let_def intro!: rate_inv_put split: option.splits)
qed

text \<open>
  What an address may still obtain in \<open>[from, from + w)\<close>: the rest of its window, and a second window
  when the first one began before the interval.
\<close>

definition allowance :: "nat \<Rightarrow> int \<Rightarrow> int \<Rightarrow> int \<Rightarrow> attempt_entry option \<Rightarrow> nat" where
  "allowance k w from t e = (case e of None \<Rightarrow> if t < from then 2 * k else k
    | Some e \<Rightarrow> if att_startedAtMs e \<ge> from then k - att_count e
        else if att_startedAtMs e + w \<le> from then 2 * k else 2 * k - att_count e)"

lemma granted_after: "list_all (\<lambda>e. snd e \<ge> until) es \<Longrightarrow> granted_attempts k w a from until es m = 0"
  by (induction es arbitrary: m) (auto split: prod.splits)

lemma other_address_attempt:
  "mkeys_distinct m \<Longrightarrow> b \<noteq> a \<Longrightarrow> mget (snd (allowPairAttempt k w b t m)) a = mget (evict_attempts w t m) a"
  by (auto simp: allowPairAttempt_def Let_def split: option.splits)

lemma own_address_attempt:
  assumes "mkeys_distinct m"
  shows "allowPairAttempt k w a t m = (r, m') \<Longrightarrow>
    (case mget (evict_attempts w t m) a of
       None \<Rightarrow> r \<and> mget m' a = Some \<lparr> att_startedAtMs = t, att_count = 1 \<rparr>
     | Some e \<Rightarrow> if att_count e \<ge> k then \<not> r \<and> mget m' a = Some e
         else r \<and> mget m' a = Some (e\<lparr> att_count := att_count e + 1 \<rparr>))"
  using assms by (auto simp: allowPairAttempt_def Let_def split: option.splits if_splits)

lemma attempt_allowance:
  assumes "rate_inv k t m" "t \<le> t'" "0 < k" "t' < from + w" "allowPairAttempt k w b t' m = (r, m')"
  shows "(if r \<and> b = a \<and> from \<le> t' \<and> t' < from + w then 1 else 0) + allowance k w from t' (mget m' a)
    \<le> allowance k w from t (mget m a)"
proof -
  have m: "mkeys_distinct m" using assms(1) by (simp add: rate_inv_def)
  note inv = rate_inv_get [OF assms(1), of a]
  show ?thesis
  proof (cases "b = a")
    case False
    have "mget m' a = mget (evict_attempts w t' m) a"
      using other_address_attempt [OF m False, of k w t'] assms(5) by simp
    with False inv assms(2-4) show ?thesis
      by (auto simp: mget_evict_attempts [OF m] allowance_def split: option.splits)
  next
    case True
    note own = own_address_attempt [OF m assms(5) [unfolded True]]
    show ?thesis
    proof (cases "mget (evict_attempts w t' m) a")
      case None
      with own True inv assms(2-4) show ?thesis
        by (auto simp: mget_evict_attempts [OF m] allowance_def split: option.splits if_splits)
    next
      case (Some e)
      then have e: "mget m a = Some e" "t' - att_startedAtMs e < w"
        by (auto simp: mget_evict_attempts [OF m] split: option.splits if_splits)
      with own Some True inv assms(2-4) show ?thesis
        by (auto simp: allowance_def split: if_splits)
    qed
  qed
qed

lemma granted_bounded:
  "rate_inv k t m \<Longrightarrow> 0 < k \<Longrightarrow> sorted (t # map snd es) \<Longrightarrow>
     granted_attempts k w a from (from + w) es m \<le> allowance k w from t (mget m a)"
proof (induction es arbitrary: t m)
  case (Cons e es)
  obtain b t' where e: "e = (b, t')" by (cases e)
  obtain r m' where r: "allowPairAttempt k w b t' m = (r, m')" by fastforce
  show ?case
  proof (cases "t' < from + w")
    case True
    have "rate_inv k t' m'" using rate_inv_attempt [of k t m t' w b] Cons.prems e r by simp
    then have "granted_attempts k w a from (from + w) es m' \<le> allowance k w from t' (mget m' a)"
      using Cons.prems e by (intro Cons.IH) auto
    moreover have "(if r \<and> b = a \<and> from \<le> t' \<and> t' < from + w then 1 else 0)
        + allowance k w from t' (mget m' a) \<le> allowance k w from t (mget m a)"
      using Cons.prems e True r by (intro attempt_allowance) auto
    ultimately show ?thesis by (simp add: e r)
  next
    case False
    then have "list_all (\<lambda>e. snd e \<ge> from + w) (e # es)"
      using Cons.prems(3) e by (auto simp: list_all_iff)
    then show ?thesis by (simp only: granted_after)
  qed
qed simp



end
