(* ===== verification/EnrollmentCodes.thy ===== *)
theory EnrollmentCodes
  imports Platform Systems
begin

text \<open>
  \<^verbatim>\<open>broker/src/enrollment-store.ts\<close>: operator-issued, single-use enrollment codes bound to a device
  fingerprint.  The store keeps hashes only.  Every operation returns the store it leaves behind,
  also on the paths that throw.
\<close>

section \<open>Constants and data\<close>

definition BITS_PER_CHAR :: nat where "BITS_PER_CHAR = 5"
definition CODE_BYTES :: nat where "CODE_BYTES = 20"
definition GROUP_SIZE :: nat where "GROUP_SIZE = 4"
definition MIN_TTL_MS :: int where "MIN_TTL_MS = 60000"
definition MAX_TTL_MS :: int where "MAX_TTL_MS = 60 * 60000"
definition DEFAULT_MAX_CODES :: nat where "DEFAULT_MAX_CODES = 1000"

datatype consume_reason = Unknown | Expired | Used | FingerprintMismatch

datatype consume_result = ConsumeOk | ConsumeRejected consume_reason

record code_record =
  codeHash :: string
  code_expiresAtMs :: int
  used :: bool
  expectedFingerprintHash :: string

record code_store =
  codes :: "(string, code_record) omap"
  maxCodes :: nat

record issued_code =
  issued_text :: string
  issued_expiresAtMs :: int

record code_counts =
  count_all :: nat
  count_used :: nat
  count_unused :: nat
  expiries :: "int list"

datatype code_error =
    InvalidEnrollmentCapacity
  | InvalidEnrollmentTime
  | InvalidEnrollmentTtl
  | FingerprintRequired
  | InvalidFingerprint
  | EnrollmentCapacityReached

section \<open>Formatting and reading of codes\<close>

function chunks_of :: "nat \<Rightarrow> string \<Rightarrow> string list" where
  "chunks_of n s = (if s = [] \<or> n = 0 then [] else take n s # chunks_of n (drop n s))"
  by pat_completeness auto
termination by (relation "measure (\<lambda>(n, s). length s)") auto

declare chunks_of.simps [simp del]

definition group_code :: "string \<Rightarrow> string" where
  "group_code s = join_with ''-'' (chunks_of GROUP_SIZE s)"

text \<open>
  \<^verbatim>\<open>toUpperCase\<close> below code unit 256; the images of units 181 and 255 lie above it and are
  kept, since neither they nor the originals survive the filter that follows.
\<close>

definition upper_char :: "char \<Rightarrow> string" where
  "upper_char c = (if is_lower c \<or> (224 \<le> code c \<and> code c \<le> 254 \<and> code c \<noteq> 247)
     then [char_of (code c - 32)]
     else if code c = 223 then ''SS'' else [c])"

definition upper :: "string \<Rightarrow> string" where
  "upper s = concat (map upper_char s)"

definition normalise :: "jsval \<Rightarrow> string" where
  "normalise v = (case as_string v of None \<Rightarrow> []
     | Some s \<Rightarrow>
        (let canonical = filter (\<lambda>c. is_digit c \<or> is_upper c) (upper s)
         in if length canonical \<noteq> CODE_BYTES * 8 div BITS_PER_CHAR then []
            else if \<not> list_all (\<lambda>c. c \<in> set b32_alphabet) canonical then []
            else canonical))"

definition is_fingerprint :: "string \<Rightarrow> bool" where
  "is_fingerprint s \<longleftrightarrow> length s = 64 \<and> list_all is_lower_hex s"

definition fingerprintHash :: "'x node_crypto_scheme \<Rightarrow> jsval \<Rightarrow> (code_error, string) result" where
  "fingerprintHash N v = (case as_string v of None \<Rightarrow> Inl FingerprintRequired
     | Some s \<Rightarrow>
        (let normalised = lower (trim s)
         in if \<not> is_fingerprint normalised then Inl InvalidFingerprint
            else Inr (sha256_hex N normalised)))"

text \<open>Lower-case hex SHA-256 of the key's DER form; \<open>None\<close> when the PEM does not parse.\<close>

definition deviceSigningKeyFingerprint :: "'x node_crypto_scheme \<Rightarrow> string \<Rightarrow> string option" where
  "deviceSigningKeyFingerprint N pem =
     map_option (\<lambda>k. to_hex (sha256 N (key_spki k))) (createPublicKey N pem)"

section \<open>The store\<close>

definition new_code_store :: "number \<Rightarrow> (code_error, code_store) result" where
  "new_code_store cap = (case as_int cap of None \<Rightarrow> Inl InvalidEnrollmentCapacity
     | Some n \<Rightarrow> if n < 1 then Inl InvalidEnrollmentCapacity
         else Inr \<lparr> codes = [], maxCodes = nat n \<rparr>)"

definition evict_codes :: "int \<Rightarrow> code_store \<Rightarrow> code_store" where
  "evict_codes nowMs s = s\<lparr> codes := filter (\<lambda>(k, r). \<not> nowMs \<ge> code_expiresAtMs r) (codes s) \<rparr>"

text \<open>The checks of \<^verbatim>\<open>issue\<close> that come before any eviction, in the code's order.\<close>

definition issue_guard :: "'x node_crypto_scheme \<Rightarrow> number \<Rightarrow> number \<Rightarrow> jsval \<Rightarrow>
    (code_error, int \<times> int \<times> string) result" where
  "issue_guard N nowMs ttlMs fingerprint =
    (case as_int nowMs of None \<Rightarrow> Inl InvalidEnrollmentTime
     | Some t \<Rightarrow> if t < 0 then Inl InvalidEnrollmentTime
       else case as_int ttlMs of None \<Rightarrow> Inl InvalidEnrollmentTtl
       | Some d \<Rightarrow> if d < MIN_TTL_MS \<or> d > MAX_TTL_MS then Inl InvalidEnrollmentTtl
         else case fingerprintHash N fingerprint of Inl e \<Rightarrow> Inl e
         | Inr fph \<Rightarrow> Inr (t, d, fph))"

definition issue :: "'x node_crypto_scheme \<Rightarrow> bytes \<Rightarrow> number \<Rightarrow> number \<Rightarrow> jsval \<Rightarrow> code_store \<Rightarrow>
    (code_error, issued_code) result \<times> code_store" where
  "issue N random nowMs ttlMs fingerprint s =
    (case issue_guard N nowMs ttlMs fingerprint of Inl e \<Rightarrow> (Inl e, s)
     | Inr (t, d, fph) \<Rightarrow>
        (let s1 = evict_codes t s
         in if length (codes s1) \<ge> maxCodes s1 then (Inl EnrollmentCapacityReached, s1)
            else let canonical = encodeBase32 random;
                     h = sha256_hex N canonical;
                     e = t + d;
                     r = \<lparr> codeHash = h, code_expiresAtMs = e, used = False,
                           expectedFingerprintHash = fph \<rparr>
                 in (Inr \<lparr> issued_text = group_code canonical, issued_expiresAtMs = e \<rparr>,
                     s1\<lparr> codes := mput h r (codes s1) \<rparr>)))"

definition provided_hash :: "'x node_crypto_scheme \<Rightarrow> string option \<Rightarrow> string option" where
  "provided_hash N fp = (case fp of None \<Rightarrow> None
     | Some f \<Rightarrow> if is_fingerprint (lower (trim f)) then Some (sha256_hex N (lower (trim f))) else None)"

definition consume :: "'x node_crypto_scheme \<Rightarrow> string \<Rightarrow> int \<Rightarrow> string option \<Rightarrow> code_store \<Rightarrow>
    consume_result \<times> code_store" where
  "consume N c nowMs fp s =
    (let canonical = normalise (Str c)
     in if canonical = [] then (ConsumeRejected Unknown, s)
        else let h = sha256_hex N canonical
        in case mget (codes s) h of None \<Rightarrow> (ConsumeRejected Unknown, s)
        | Some r \<Rightarrow>
           (if (case provided_hash N fp of None \<Rightarrow> True
                | Some p \<Rightarrow> p = [] \<or> p \<noteq> expectedFingerprintHash r)
            then (ConsumeRejected FingerprintMismatch, s)
            else if nowMs \<ge> code_expiresAtMs r
            then (ConsumeRejected Expired, s\<lparr> codes := mdel (codeHash r) (codes s) \<rparr>)
            else if used r then (ConsumeRejected Used, s)
            else (ConsumeOk, s\<lparr> codes := mput h (r\<lparr> used := True \<rparr>) (codes s) \<rparr>)))"

definition debugCounts :: "code_store \<Rightarrow> code_counts" where
  "debugCounts s = (let rs = mvalues (codes s)
     in \<lparr> count_all = length rs, count_used = length (filter used rs),
          count_unused = length (filter (\<lambda>r. \<not> used r) rs),
          expiries = map code_expiresAtMs rs \<rparr>)"

definition debugInternalKeys :: "code_store \<Rightarrow> string list" where
  "debugInternalKeys s = map fst (codes s)"

section \<open>Codes survive formatting and typing\<close>

lemma concat_chunks_of: "0 < n \<Longrightarrow> concat (chunks_of n s) = s"
  by (induction n s rule: chunks_of.induct) (subst chunks_of.simps, simp)

lemma filter_join:
  "(\<And>c. c \<in> set d \<Longrightarrow> \<not> P c) \<Longrightarrow> filter P (join_with d ps) = filter P (concat ps)"
  by (induction d ps rule: join_with.induct) auto

lemma alphabet_case:
  "list_all (\<lambda>c. upper_char c = [c] \<and> upper_char (lower_char c) = [c] \<and> (is_digit c \<or> is_upper c))
     b32_alphabet"
  by code_simp

lemma alphabet_caseD:
  assumes "c \<in> set b32_alphabet"
  shows "upper_char c = [c]" "upper_char (lower_char c) = [c]" "is_digit c \<or> is_upper c"
  using alphabet_case assms by (auto simp: list_all_iff)

lemma dash_case: "upper_char CHR ''-'' = ''-''" "lower_char CHR ''-'' = CHR ''-''"
  "\<not> is_digit CHR ''-''" "\<not> is_upper CHR ''-''"
  by (simp_all add: upper_char_def lower_char_def is_digit_def is_upper_def is_lower_def)

lemma set_join_with: "set (join_with d ps) \<subseteq> set d \<union> set (concat ps)"
  by (induction d ps rule: join_with.induct) auto

lemma set_group_code: "set (group_code s) \<subseteq> insert (CHR ''-'') (set s)"
proof -
  have "set (concat (chunks_of GROUP_SIZE s)) = set s"
    by (simp only: concat_chunks_of GROUP_SIZE_def zero_less_numeral)
  then show ?thesis
    using set_join_with [of "''-''" "chunks_of GROUP_SIZE s"] by (simp add: group_code_def)
qed

lemma upper_grouped:
  assumes "set s \<subseteq> set b32_alphabet"
  shows "upper (group_code s) = group_code s" "upper (lower (group_code s)) = group_code s"
proof -
  have one: "upper_char c = [c] \<and> upper_char (lower_char c) = [c]" if "c \<in> set (group_code s)" for c
  proof (cases "c = CHR ''-''")
    case False
    with that set_group_code [of s] assms have "c \<in> set b32_alphabet" by blast
    then show ?thesis by (simp add: alphabet_caseD)
  qed (simp add: dash_case)
  have "map upper_char (group_code s) = map (\<lambda>c. [c]) (group_code s)"
    "map (upper_char \<circ> lower_char) (group_code s) = map (\<lambda>c. [c]) (group_code s)"
    by (simp_all add: one)
  then show "upper (group_code s) = group_code s" "upper (lower (group_code s)) = group_code s"
    unfolding upper_def lower_def map_map by (simp_all only: concat_map_singleton list.map_ident)
qed

lemma normalise_of_upper:
  assumes "set s \<subseteq> set b32_alphabet" "length s = CODE_BYTES * 8 div BITS_PER_CHAR"
    and "upper t = group_code s"
  shows "normalise (Str t) = s"
proof -
  have "filter (\<lambda>c. is_digit c \<or> is_upper c) (group_code s) = filter (\<lambda>c. is_digit c \<or> is_upper c) s"
    unfolding group_code_def
    by (subst filter_join) (auto simp: dash_case concat_chunks_of GROUP_SIZE_def)
  also have "\<dots> = s" using assms(1) alphabet_caseD(3) by (intro filter_True) auto
  finally show ?thesis
    using assms by (simp add: normalise_def Let_def list_all_iff subset_iff)
qed

lemma length_code: "length bs = CODE_BYTES \<Longrightarrow> length (encodeBase32 bs) = CODE_BYTES * 8 div BITS_PER_CHAR"
  using length_encodeBase32 [of bs] by (auto simp: CODE_BYTES_def BITS_PER_CHAR_def)

lemma normalise_issued:
  assumes "length bs = CODE_BYTES"
  shows "normalise (Str (group_code (encodeBase32 bs))) = encodeBase32 bs"
    and "normalise (Str (lower (group_code (encodeBase32 bs)))) = encodeBase32 bs"
  using normalise_of_upper [OF encodeBase32_symbols length_code [OF assms]]
    upper_grouped [OF encodeBase32_symbols] by blast+

section \<open>The store's invariant\<close>

definition code_store_inv :: "code_store \<Rightarrow> bool" where
  "code_store_inv s \<longleftrightarrow> mkeys_distinct (codes s) \<and> length (codes s) \<le> maxCodes s
     \<and> (\<forall>(k, r) \<in> set (codes s). codeHash r = k)"

datatype code_op = Issue bytes number number jsval | Consume string int "string option"

primrec code_step :: "'x node_crypto_scheme \<Rightarrow> code_op \<Rightarrow> code_store \<Rightarrow> code_store" where
  "code_step N (Issue random nowMs ttlMs fp) s = snd (issue N random nowMs ttlMs fp s)"
| "code_step N (Consume c nowMs fp) s = snd (consume N c nowMs fp s)"

lemma code_store_inv_filter:
  "code_store_inv s \<Longrightarrow> code_store_inv (s\<lparr> codes := filter P (codes s) \<rparr>)"
  by (auto simp: code_store_inv_def mkeys_distinct_filter intro: order_trans [OF length_filter_le])

lemma code_store_inv_put:
  "code_store_inv s \<Longrightarrow> codeHash r = h \<Longrightarrow> length (mput h r (codes s)) \<le> maxCodes s \<Longrightarrow>
     code_store_inv (s\<lparr> codes := mput h r (codes s) \<rparr>)"
  using set_update_subset [of h r "codes s"] by (fastforce simp: code_store_inv_def distinct_update)

lemma code_store_inv_get: "code_store_inv s \<Longrightarrow> mget (codes s) h = Some r \<Longrightarrow> codeHash r = h"
  by (auto simp: code_store_inv_def dest: map_of_SomeD)

lemma issue_guard_Inr:
  "issue_guard N nowMs ttlMs fp = Inr (t, d, fph) \<longleftrightarrow> nowMs = num_of_int t \<and> ttlMs = num_of_int d
     \<and> 0 \<le> t \<and> MIN_TTL_MS \<le> d \<and> d \<le> MAX_TTL_MS \<and> fingerprintHash N fp = Inr fph"
  by (auto simp: issue_guard_def as_int_Some_iff simp del: as_int.simps
      split: option.splits if_splits sum.splits)

lemma maxCodes_evict [simp]: "maxCodes (evict_codes t s) = maxCodes s"
  by (simp add: evict_codes_def)

lemma issue_cases:
  obtains (error) e where "issue N random nowMs ttlMs fp s = (Inl e, s)"
  | (full) t where "issue N random nowMs ttlMs fp s = (Inl EnrollmentCapacityReached, evict_codes t s)"
  | (issued) t d fph r where "issue_guard N nowMs ttlMs fp = Inr (t, d, fph)"
      "length (codes (evict_codes t s)) < maxCodes s"
      "r = \<lparr> codeHash = sha256_hex N (encodeBase32 random), code_expiresAtMs = t + d, used = False,
             expectedFingerprintHash = fph \<rparr>"
      "issue N random nowMs ttlMs fp s =
        (Inr \<lparr> issued_text = group_code (encodeBase32 random), issued_expiresAtMs = t + d \<rparr>,
         (evict_codes t s)\<lparr> codes := mput (codeHash r) r (codes (evict_codes t s)) \<rparr>)"
proof (cases "issue_guard N nowMs ttlMs fp")
  case (Inl e)
  then show thesis by (intro error) (simp add: issue_def)
next
  case (Inr g)
  obtain t d fph where g: "g = (t, d, fph)" by (cases g)
  show thesis
  proof (cases "length (codes (evict_codes t s)) < maxCodes s")
    case True
    with Inr g show thesis by (intro issued [OF _ _ refl]) (simp_all add: issue_def Let_def)
  next
    case False
    with Inr g show thesis by (intro full) (simp add: issue_def Let_def)
  qed
qed

lemma code_store_inv_evict [inv_intros]: "code_store_inv s \<Longrightarrow> code_store_inv (evict_codes t s)"
  unfolding evict_codes_def by (rule code_store_inv_filter)

lemma code_store_inv_issue [inv_intros]:
  "code_store_inv s \<Longrightarrow> code_store_inv (snd (issue N random nowMs ttlMs fp s))"
proof (cases rule: issue_cases [of N random nowMs ttlMs fp s])
  case (issued t d fph r)
  moreover assume "code_store_inv s"
  ultimately show ?thesis
    by (auto intro!: code_store_inv_put om.bounded_insert inv_intros)
qed (auto intro: inv_intros)

lemma consume_cases:
  obtains (unknown) "consume N c nowMs fp s = (ConsumeRejected Unknown, s)"
  | (mismatch) "consume N c nowMs fp s = (ConsumeRejected FingerprintMismatch, s)"
  | (expired) r where "mget (codes s) (sha256_hex N (normalise (Str c))) = Some r"
      "code_expiresAtMs r \<le> nowMs"
      "consume N c nowMs fp s = (ConsumeRejected Expired, s\<lparr> codes := mdel (codeHash r) (codes s) \<rparr>)"
  | (used_up) "consume N c nowMs fp s = (ConsumeRejected Used, s)"
  | (ok) r where "mget (codes s) (sha256_hex N (normalise (Str c))) = Some r"
      "provided_hash N fp = Some (expectedFingerprintHash r)" "nowMs < code_expiresAtMs r" "\<not> used r"
      "consume N c nowMs fp s = (ConsumeOk,
         s\<lparr> codes := mput (sha256_hex N (normalise (Str c))) (r\<lparr> used := True \<rparr>) (codes s) \<rparr>)"
proof (cases "mget (codes s) (sha256_hex N (normalise (Str c)))")
  case None
  then show thesis by (intro unknown) (simp add: consume_def Let_def)
next
  case (Some r)
  let ?bad = "case provided_hash N fp of None \<Rightarrow> True
    | Some p \<Rightarrow> p = [] \<or> p \<noteq> expectedFingerprintHash r"
  consider "normalise (Str c) = []" | "normalise (Str c) \<noteq> []" ?bad
    | "normalise (Str c) \<noteq> []" "\<not> ?bad" "nowMs \<ge> code_expiresAtMs r"
    | "normalise (Str c) \<noteq> []" "\<not> ?bad" "nowMs < code_expiresAtMs r" "used r"
    | "normalise (Str c) \<noteq> []" "\<not> ?bad" "nowMs < code_expiresAtMs r" "\<not> used r"
    by fastforce
  then show thesis
  proof cases
    case 1 then show thesis by (intro unknown) (simp add: consume_def Let_def)
  next
    case 2 with Some show thesis by (intro mismatch) (simp add: consume_def Let_def)
  next
    case 3 with Some show thesis by (intro expired [of r]) (simp_all add: consume_def Let_def)
  next
    case 4 with Some show thesis by (intro used_up) (simp add: consume_def Let_def)
  next
    case 5 with Some show thesis
      by (intro ok [of r]) (simp_all add: consume_def Let_def split: option.splits)
  qed
qed

lemma code_store_inv_consume [inv_intros]:
  "code_store_inv s \<Longrightarrow> code_store_inv (snd (consume N c nowMs fp s))"
proof (cases rule: consume_cases [of N c nowMs fp s])
  case (expired r)
  moreover assume "code_store_inv s"
  ultimately show ?thesis
    using set_delete_subset [of "codeHash r" "codes s"]
    by (fastforce simp: code_store_inv_def distinct_delete intro: order_trans [OF length_delete_le])
next
  case (ok r)
  assume inv: "code_store_inv s"
  from ok have "codeHash (r\<lparr> used := True \<rparr>) = sha256_hex N (normalise (Str c))"
    using code_store_inv_get [OF inv] by simp
  moreover from ok inv have
    "length (mput (sha256_hex N (normalise (Str c))) (r\<lparr> used := True \<rparr>) (codes s)) \<le> maxCodes s"
    by (subst om.size_set_present) (simp_all add: code_store_inv_def)
  ultimately show ?thesis using ok inv by (simp add: code_store_inv_put)
qed simp_all

lemma code_step_inv: "code_store_inv s \<Longrightarrow> code_store_inv (code_step N c s)"
  by (cases c) (auto intro: inv_intros)

interpretation code_machine: invariant_system "code_step N" code_store_inv for N
  by unfold_locales (rule code_step_inv)

section \<open>A code is redeemed at most once\<close>

definition redeem :: "'x node_crypto_scheme \<Rightarrow> string \<times> int \<times> string option \<Rightarrow> code_store \<Rightarrow>
    bool \<times> code_store" where
  "redeem N a s = (case a of (c, nowMs, fp) \<Rightarrow>
     (case consume N c nowMs fp s of (res, s') \<Rightarrow> (res = ConsumeOk, s')))"

definition redeem_token :: "'x node_crypto_scheme \<Rightarrow> string \<times> int \<times> string option \<Rightarrow> string" where
  "redeem_token N a = sha256_hex N (normalise (Str (fst a)))"

primrec mints_code :: "'x node_crypto_scheme \<Rightarrow> code_op \<Rightarrow> code_store \<Rightarrow> string \<Rightarrow> bool" where
  "mints_code N (Issue random nowMs ttlMs fp) s h = (sha256_hex N (encodeBase32 random) = h)"
| "mints_code N (Consume c nowMs fp) s h = False"

definition code_spent :: "string \<Rightarrow> code_store \<Rightarrow> bool" where
  "code_spent h s \<longleftrightarrow> (\<forall>r. mget (codes s) h = Some r \<longrightarrow> used r)"

lemma code_spent_evict:
  "code_store_inv s \<Longrightarrow> code_spent h s \<Longrightarrow> code_spent h (evict_codes t s)"
  by (auto simp: code_spent_def evict_codes_def code_store_inv_def map_of_filter_distinct
      split: option.splits if_splits)

lemma code_spent_consume:
  assumes "code_store_inv s" "code_spent h s"
  shows "code_spent h (snd (consume N c nowMs fp s))"
  using consume_cases [of N c nowMs fp s] assms
  by (cases rule: consume_cases [of N c nowMs fp s]) (auto simp: code_spent_def split: if_splits)

lemma code_spent_issue:
  assumes "code_store_inv s" "code_spent h s" "sha256_hex N (encodeBase32 random) \<noteq> h"
  shows "code_spent h (snd (issue N random nowMs ttlMs fp s))"
  using assms code_spent_evict [OF assms(1,2)]
  by (cases rule: issue_cases [of N random nowMs ttlMs fp s]) (auto simp: code_spent_def)

interpretation redeemed: one_shot "redeem N" "code_step N" "redeem_token N" "mints_code N"
  code_spent code_store_inv for N
proof unfold_locales
  fix s :: code_store and a :: "string \<times> int \<times> string option" and t and c :: code_op
  obtain cd nowMs fp where a: "a = (cd, nowMs, fp)" by (cases a)
  assume inv: "code_store_inv s"
  show "code_store_inv (snd (redeem N a s))"
    using code_store_inv_consume [OF inv, of N cd nowMs fp]
    by (auto simp: redeem_def a split: prod.splits)
  show "code_store_inv (code_step N c s)" using inv by (rule code_step_inv)
  show "fst (redeem N a s) \<Longrightarrow> code_spent (redeem_token N a) (snd (redeem N a s))"
    by (cases rule: consume_cases [of N cd nowMs fp s])
      (auto simp: redeem_def redeem_token_def a code_spent_def)
  show "code_spent (redeem_token N a) s \<Longrightarrow> \<not> fst (redeem N a s)"
    by (cases rule: consume_cases [of N cd nowMs fp s])
      (auto simp: redeem_def redeem_token_def a code_spent_def)
  assume spent: "code_spent t s"
  show "code_spent t (snd (redeem N a s))"
    using code_spent_consume [OF inv spent, of N cd nowMs fp]
    by (auto simp: redeem_def a split: prod.splits)
  show "\<not> mints_code N c s t \<Longrightarrow> code_spent t (code_step N c s)"
    using inv spent by (cases c) (auto intro: code_spent_consume code_spent_issue)
qed

lemma lower_trim_fingerprint: "is_fingerprint s \<Longrightarrow> lower (trim s) = s"
  by (auto simp: is_fingerprint_def list_all_iff lower_hex_not_space trim_no_space lower_lower_hex)

lemma fingerprint_accept:
  assumes "is_fingerprint s"
  shows "fingerprintHash N (Str s) = Inr (sha256_hex N s)" "provided_hash N (Some s) = Some (sha256_hex N s)"
  using assms by (simp_all add: fingerprintHash_def provided_hash_def lower_trim_fingerprint Let_def)

section \<open>Properties\<close>

lemma consume_hit:
  assumes "normalise (Str c) = canonical" "canonical \<noteq> []"
    and "mget (codes s) (sha256_hex N canonical) = Some r"
    and "provided_hash N fp = Some (expectedFingerprintHash r)" "expectedFingerprintHash r \<noteq> []"
    and "nowMs < code_expiresAtMs r"
  shows "consume N c nowMs fp s = (if used r then (ConsumeRejected Used, s)
    else (ConsumeOk, s\<lparr> codes := mput (sha256_hex N canonical) (r\<lparr> used := True \<rparr>) (codes s) \<rparr>))"
  using assms by (simp add: consume_def Let_def)

text \<open>
  A code minted for a device fingerprint is accepted from that device until it expires, in the
  printed form or typed in lower case, and the same code is refused as used the second time.
\<close>
theorem issued_code_redeems:
  assumes "digest_32 N" "length random = CODE_BYTES"
    and "issue N random nowMs ttlMs (Str fp) s = (Inr ic, s')"
    and "t < issued_expiresAtMs ic"
    and "typed \<in> {issued_text ic, lower (issued_text ic)}"
  shows "fst (consume N typed t (Some fp) s') = ConsumeOk
    \<and> fst (consume N typed t (Some fp) (snd (consume N typed t (Some fp) s'))) = ConsumeRejected Used"
proof -
  let ?c = "encodeBase32 random"
  from assms(3) obtain t0 d fph r where g: "issue_guard N nowMs ttlMs (Str fp) = Inr (t0, d, fph)"
    and r: "r = \<lparr> codeHash = sha256_hex N ?c, code_expiresAtMs = t0 + d, used = False,
      expectedFingerprintHash = fph \<rparr>"
    and ic: "issued_text ic = group_code ?c" "issued_expiresAtMs ic = t0 + d"
    and s': "s' = (evict_codes t0 s)\<lparr> codes := mput (codeHash r) r (codes (evict_codes t0 s)) \<rparr>"
    by (cases rule: issue_cases [of N random nowMs ttlMs "Str fp" s]) auto
  from g have fph: "provided_hash N (Some fp) = Some fph" "fph \<noteq> []"
    using sha256_hex_nonempty [OF assms(1)]
    by (auto simp: issue_guard_Inr fingerprintHash_def provided_hash_def Let_def split: if_splits)
  have typed: "normalise (Str typed) = ?c"
    using assms(2,5) ic normalise_issued [of random] by auto
  have ne: "?c \<noteq> []"
    using length_code [OF assms(2)] by (auto simp: CODE_BYTES_def BITS_PER_CHAR_def)
  have once: "consume N typed t (Some fp) s' = (ConsumeOk,
      s'\<lparr> codes := mput (sha256_hex N ?c) (r\<lparr> used := True \<rparr>) (codes s') \<rparr>)"
    using consume_hit [OF typed ne, of s' N r "Some fp" t] assms(4) fph ic r s' by simp
  then show ?thesis
    using consume_hit [OF typed ne, of "snd (consume N typed t (Some fp) s')" N "r\<lparr> used := True \<rparr>"
        "Some fp" t] assms(4) fph ic r by simp
qed

definition ex_fingerprint :: string where
  "ex_fingerprint = replicate 64 (CHR ''a'')"

definition ex_code_store :: code_store where
  "ex_code_store = \<lparr> codes = [], maxCodes = 2 \<rparr>"

lemma ex_fingerprint: "is_fingerprint ex_fingerprint"
  by (simp add: is_fingerprint_def ex_fingerprint_def is_lower_hex_def list_all_length)

lemma ex_issue: "\<exists>ic s'. issue toy_crypto (replicate CODE_BYTES 7) (Fin 0) (Fin 60000)
    (Str ex_fingerprint) ex_code_store = (Inr ic, s') \<and> issued_expiresAtMs ic = 60000"
  by (simp add: issue_def issue_guard_def MIN_TTL_MS_def MAX_TTL_MS_def Let_def evict_codes_def
      fingerprint_accept ex_fingerprint ex_code_store_def)

theorem issued_code_redeems_witness:
  "\<exists>ic s'. issue toy_crypto (replicate CODE_BYTES 7) (Fin 0) (Fin 60000)
      (Str ex_fingerprint) ex_code_store = (Inr ic, s')
    \<and> fst (consume toy_crypto (lower (issued_text ic)) 59999 (Some ex_fingerprint) s') = ConsumeOk"
proof -
  obtain ic s' where "issue toy_crypto (replicate CODE_BYTES 7) (Fin 0) (Fin 60000)
    (Str ex_fingerprint) ex_code_store = (Inr ic, s')" "issued_expiresAtMs ic = 60000"
    using ex_issue by blast
  then show ?thesis
    using issued_code_redeems [of toy_crypto "replicate CODE_BYTES 7" "Fin 0" "Fin 60000"
        ex_fingerprint ex_code_store ic s' 59999 "lower (issued_text ic)"] by auto
qed

text \<open>
  C19: along every interleaving of issuing and redeeming, a code is redeemed at most once, unless the
  random source later mints the same code again.
\<close>
theorem code_redeemed_at_most_once:
  assumes "code_store_inv s"
    and "never_reminted (redeem N) (code_step N) (mints_code N) h es s"
  shows "count_list (consumed (redeem N) (code_step N) (redeem_token N) es s) h \<le> 1"
  using assms by (rule redeemed.consumed_at_most_once)

lemma ex_code_store_inv: "code_store_inv ex_code_store"
  by (simp add: code_store_inv_def ex_code_store_def)

text \<open>A code is issued and redeemed; another code is issued and the first one is presented again.\<close>

definition ex_code_run :: "string \<Rightarrow> (string \<times> int \<times> string option, code_op) token_event list" where
  "ex_code_run c = [Attempt (lower c, 5, Some ex_fingerprint),
     Other (Issue (replicate CODE_BYTES 8) (Fin 6) (Fin 60000) (Str ex_fingerprint)),
     Attempt (c, 59999, Some ex_fingerprint)]"

theorem code_redeemed_at_most_once_witness:
  "\<exists>ic s'. issue toy_crypto (replicate CODE_BYTES 7) (Fin 0) (Fin 60000) (Str ex_fingerprint) ex_code_store = (Inr ic, s')
    \<and> count_list (consumed (redeem toy_crypto) (code_step toy_crypto) (redeem_token toy_crypto) (ex_code_run (issued_text ic)) s')
        (sha256_hex toy_crypto (encodeBase32 (replicate CODE_BYTES 7))) = 1"
proof -
  let ?random = "replicate CODE_BYTES (7 :: byte)" and ?other = "replicate CODE_BYTES (8 :: byte)"
  let ?h = "sha256_hex toy_crypto (encodeBase32 ?random)"
  obtain ic s' where i: "issue toy_crypto ?random (Fin 0) (Fin 60000) (Str ex_fingerprint) ex_code_store = (Inr ic, s')"
    "issued_expiresAtMs ic = 60000"
    using ex_issue by blast
  have shown: "issued_text ic = group_code (encodeBase32 ?random)"
    using i by (cases rule: issue_cases [of toy_crypto ?random "Fin 0" "Fin 60000" "Str ex_fingerprint" ex_code_store]) auto
  have token: "redeem_token toy_crypto (lower (issued_text ic), t, fp) = ?h" for t fp
    using normalise_issued(2) [of ?random] by (simp add: redeem_token_def shown)
  have "fst (redeem toy_crypto (lower (issued_text ic), 5, Some ex_fingerprint) s')"
    using issued_code_redeems [of toy_crypto ?random "Fin 0" "Fin 60000" ex_fingerprint ex_code_store ic s' 5
        "lower (issued_text ic)"] i by (auto simp: redeem_def split: prod.splits)
  then have first: "?h \<in> set (consumed (redeem toy_crypto) (code_step toy_crypto) (redeem_token toy_crypto)
      (ex_code_run (issued_text ic)) s')"
    by (cases "redeem toy_crypto (lower (issued_text ic), 5, Some ex_fingerprint) s'") (simp add: ex_code_run_def token)
  have "sha256_hex toy_crypto (encodeBase32 ?other) \<noteq> ?h" by code_simp
  then have fresh: "never_reminted (redeem toy_crypto) (code_step toy_crypto) (mints_code toy_crypto) ?h
      (ex_code_run (issued_text ic)) s'"
    by (simp add: ex_code_run_def)
  have "code_store_inv s'" using code_step_inv [OF ex_code_store_inv, of toy_crypto "Issue ?random (Fin 0) (Fin 60000) (Str ex_fingerprint)"]
    i(1) by simp
  from code_redeemed_at_most_once [OF this fresh] first i(1) show ?thesis
    by (force simp: count_list_0_iff le_Suc_eq)
qed

text \<open>
  A redemption succeeds exactly when the store holds an unexpired, unused code bound to the
  presented fingerprint; a refusal for any other reason than expiry leaves the store unchanged, so a
  foreign device never burns the code of the approved one.
\<close>
theorem redemption_gate:
  assumes "digest_32 N" and "normalise (Str c) \<noteq> []"
  shows "(fst (consume N c nowMs fp s) = ConsumeOk \<longleftrightarrow>
      (\<exists>r. mget (codes s) (sha256_hex N (normalise (Str c))) = Some r
         \<and> provided_hash N fp = Some (expectedFingerprintHash r) \<and> expectedFingerprintHash r \<noteq> []
         \<and> nowMs < code_expiresAtMs r \<and> \<not> used r))
    \<and> (fst (consume N c nowMs fp s) \<notin> {ConsumeOk, ConsumeRejected Expired} \<longrightarrow>
      snd (consume N c nowMs fp s) = s)" (is "(?ok \<longleftrightarrow> ?gate) \<and> ?keep")
proof -
  have ne: "provided_hash N fp = Some p \<Longrightarrow> p \<noteq> []" for p
    using sha256_hex_nonempty [OF assms(1)] by (auto simp: provided_hash_def split: option.splits if_splits)
  have "?gate \<Longrightarrow> ?ok" using consume_hit [OF refl assms(2), of s N _ fp nowMs] by fastforce
  moreover have "?ok \<Longrightarrow> ?gate"
    using ne by (cases rule: consume_cases [of N c nowMs fp s]) auto
  moreover have ?keep
    by (cases rule: consume_cases [of N c nowMs fp s]) auto
  ultimately show ?thesis by blast
qed

theorem redemption_gate_witness:
  "fst (consume toy_crypto (replicate 32 (CHR ''7'')) 5 None ex_code_store) \<noteq> ConsumeOk"
proof -
  have "normalise (Str (replicate 32 (CHR ''7''))) \<noteq> []" by code_simp
  then show ?thesis
    using redemption_gate [OF toy_digest_32, of "replicate 32 (CHR ''7'')" 5 None ex_code_store]
    by (simp add: provided_hash_def)
qed

text \<open>
  From a new store, every run keeps at most the configured number of codes, one per hash.
\<close>
theorem code_store_capacity:
  assumes "new_code_store cap = Inr s0"
  shows "length (codes (fold (code_step N) cs s0)) \<le> maxCodes (fold (code_step N) cs s0)
    \<and> distinct (debugInternalKeys (fold (code_step N) cs s0))"
proof -
  from assms have "code_store_inv s0"
    by (auto simp: new_code_store_def code_store_inv_def split: option.splits if_splits)
  then have "code_store_inv (fold (code_step N) cs s0)" by (rule code_machine.run_inv)
  then show ?thesis by (simp add: code_store_inv_def debugInternalKeys_def)
qed

theorem code_store_capacity_witness:
  "let s = fold (code_step toy_crypto) [Issue [] (Fin 0) (Fin 60000) (Str ex_fingerprint)]
       \<lparr> codes = [], maxCodes = 3 \<rparr>
   in length (codes s) \<le> maxCodes s \<and> distinct (debugInternalKeys s)"
  unfolding Let_def
  by (rule code_store_capacity [of "Fin 3"]) (simp add: new_code_store_def)

end
