(* ===== verification/PairingFlow.thy ===== *)
theory PairingFlow
  imports Pairing
begin

text \<open>
  Properties of the pairing store that span several of its operations: the complete handshake from
  creation to claim, the store's bounds along every run, exactness of the eviction loop, and the
  callback handle entry that an expired claim leaves behind.
\<close>

lemma create_ok:
  assumes "create N r1 r2 r3 authFor sp ep nowMs ttlMs s = (Inr c, s1)"
  obtains t d dk ek where "create_guard nowMs ttlMs = Inr (t, d)" "device_keys N sp ep = Inr (dk, ek)"
    "length (pair_records (evict_expired t s)) < pair_max s"
    "s1 = add_pairing (pairHash N (to_hex r1)) (new_record N r1 r2 r3 sp ep dk ek (t + d)) (evict_expired t s)"
    "created_pairId c = to_hex r1" "created_oauthState c = encode r2"
    "created_proofMessage c = proof_message N (to_hex r1) (t + d)" "created_expiresAtMs c = t + d"
  using assms by (cases rule: create_cases [of N r1 r2 r3 authFor sp ep nowMs ttlMs s]) auto

lemma states_evict_kept:
  assumes "\<And>k r. (k, r) \<in> set (pair_records s) \<Longrightarrow> t \<ge> pair_expiresAtMs r \<Longrightarrow> oauthStateHash r \<noteq> h"
  shows "mget (pair_states (evict_expired t s)) h = mget (pair_states s) h"
  unfolding evict_expired_def using assms by (rule states_fold_evict)

lemma handles_evict_kept:
  assumes "\<And>k r. (k, r) \<in> set (pair_records s) \<Longrightarrow> t \<ge> pair_expiresAtMs r \<Longrightarrow> callbackHandleHash r \<noteq> Some h"
  shows "mget (pair_handles (evict_expired t s)) h = mget (pair_handles s) h"
  unfolding evict_expired_def using assms by (rule handles_fold_evict)

lemma record_evict_kept:
  "mkeys_distinct (pair_records s) \<Longrightarrow> mget (pair_records s) k = Some r \<Longrightarrow> t < pair_expiresAtMs r \<Longrightarrow>
     mget (pair_records (evict_expired t s)) k = Some r"
  by (simp add: evict_expired_get)

lemma record_unique:
  "pairing_inv s \<Longrightarrow> mget (pair_records s) k = Some r \<Longrightarrow> (k, r') \<in> set (pair_records s) \<Longrightarrow> r' = r"
  by (metis map_of_is_SomeI option.inject pairing_inv_distinct(1))

lemma set_records_evict: "set (pair_records (evict_expired t s)) \<subseteq> set (pair_records s)"
  using pruned_evict_expired [of t s] by (auto simp: pruned_def thinned_def)

text \<open>A pairing's own pending state is accepted while it lives and no other pairing shares its hash.\<close>

lemma consume_state_ok:
  assumes "pairing_inv s" "mget (pair_states s) (stateHash N os) = Some k" "k \<noteq> []"
    and "mget (pair_records s) k = Some r" "oauthStateHash r = stateHash N os" "pair_status r = Pending"
    and "t < pair_expiresAtMs r"
    and others: "\<And>k' r'. (k', r') \<in> set (pair_records s) \<Longrightarrow> k' \<noteq> k \<Longrightarrow> oauthStateHash r' \<noteq> stateHash N os"
  shows "consumeOAuthState N rn os t s =
    (Some \<lparr> consumed_handle = encode rn, consumed_verifier = pkceVerifier r,
            consumed_expiresAtMs = pair_expiresAtMs r \<rparr>,
     (evict_expired t s)\<lparr> pair_states := mdel (stateHash N os) (pair_states (evict_expired t s)),
       pair_handles := mput (stateHash N (encode rn)) k (pair_handles (evict_expired t s)),
       pair_records := mput k (r\<lparr> callbackHandleHash := Some (stateHash N (encode rn)),
         pair_status := CallbackStateConsumed \<rparr>) (pair_records (evict_expired t s)) \<rparr>)"
proof -
  have "oauthStateHash r' \<noteq> stateHash N os" if "(k', r') \<in> set (pair_records s)" "t \<ge> pair_expiresAtMs r'" for k' r'
    using that others [of k' r'] record_unique [OF assms(1,4), of r'] assms(7) by fastforce
  then have "mget (pair_states (evict_expired t s)) (stateHash N os) = Some k"
    using assms(2) by (subst states_evict_kept) auto
  moreover have "mget (pair_records (evict_expired t s)) k = Some r"
    using assms by (intro record_evict_kept) (auto simp: pairing_inv_def)
  ultimately show ?thesis using assms by (simp add: consumeOAuthState_def Let_def)
qed

lemma mark_ok:
  assumes "pairing_inv s" "mget (pair_handles s) (stateHash N h) = Some k" "k \<noteq> []"
    and "mget (pair_records s) k = Some r" "callbackHandleHash r = Some (stateHash N h)"
    and "pair_status r = CallbackStateConsumed" "t < pair_expiresAtMs r"
    and others: "\<And>k' r'. (k', r') \<in> set (pair_records s) \<Longrightarrow> k' \<noteq> k \<Longrightarrow>
      callbackHandleHash r' \<noteq> Some (stateHash N h)"
  shows "markAuthorized N h t s =
    (True, (evict_expired t s)\<lparr> pair_handles := mdel (stateHash N h) (pair_handles (evict_expired t s)),
       pair_records := mput k (r\<lparr> callbackHandleHash := None, pair_status := Authorized \<rparr>)
         (pair_records (evict_expired t s)) \<rparr>)"
proof -
  have "callbackHandleHash r' \<noteq> Some (stateHash N h)"
    if "(k', r') \<in> set (pair_records s)" "t \<ge> pair_expiresAtMs r'" for k' r'
    using that others [of k' r'] record_unique [OF assms(1,4), of r'] assms(7) by fastforce
  then have "mget (pair_handles (evict_expired t s)) (stateHash N h) = Some k"
    using assms(2) by (subst handles_evict_kept) auto
  moreover have "mget (pair_records (evict_expired t s)) k = Some r"
    using assms by (intro record_evict_kept) (auto simp: pairing_inv_def)
  ultimately show ?thesis using assms by (simp add: markAuthorized_def Let_def)
qed

definition drawn_fresh :: "'x node_crypto_scheme \<Rightarrow> bytes \<Rightarrow> bytes \<Rightarrow> pairing_store \<Rightarrow> bool" where
  "drawn_fresh N r2 r4 s \<longleftrightarrow> (\<forall>(k, r) \<in> set (pair_records s).
     oauthStateHash r \<noteq> stateHash N (encode r2)
     \<and> callbackHandleHash r \<noteq> Some (stateHash N (encode r4)))"

text \<open>The handshake up to the authorization: what creation registers, and what the callback does to it.\<close>

lemma created_pairing:
  assumes N: "digest_32 N" and inv: "pairing_inv s" and fresh: "drawn_fresh N r2 r4 s"
    and create: "create N r1 r2 r3 authFor sp ep nowMs ttlMs s = (Inr c, s1)" and key: "createPublicKey N sp = Some dk"
  obtains r where "pairing_inv s1" "pairHash N (created_pairId c) \<noteq> []" "created_oauthState c = encode r2"
    "mget (pair_records s1) (pairHash N (created_pairId c)) = Some r"
    "mget (pair_states s1) (stateHash N (encode r2)) = Some (pairHash N (created_pairId c))"
    "oauthStateHash r = stateHash N (encode r2)" "pair_status r = Pending" "pair_expiresAtMs r = created_expiresAtMs c"
    "pkceVerifier r = encode r3" "proofMessage r = created_proofMessage c" "devicePublicKey r = dk"
    "deviceSigningPublicKeyPem r = sp" "deviceEncryptionPublicKeyPem r = ep"
    "\<And>k' r'. (k', r') \<in> set (pair_records s1) \<Longrightarrow> k' \<noteq> pairHash N (created_pairId c) \<Longrightarrow>
       oauthStateHash r' \<noteq> stateHash N (encode r2) \<and> callbackHandleHash r' \<noteq> Some (stateHash N (encode r4))"
proof -
  obtain t d dk' ek where keys: "device_keys N sp ep = Inr (dk', ek)"
    and s1: "s1 = add_pairing (pairHash N (to_hex r1)) (new_record N r1 r2 r3 sp ep dk' ek (t + d))
      (evict_expired t s)"
    and c: "created_pairId c = to_hex r1" "created_oauthState c = encode r2"
      "created_proofMessage c = proof_message N (to_hex r1) (t + d)" "created_expiresAtMs c = t + d"
    using create by (rule create_ok)
  define k where "k = pairHash N (to_hex r1)"
  define r where "r = new_record N r1 r2 r3 sp ep dk' ek (t + d)"
  have dk: "dk' = dk" using keys key by (simp add: device_keys_Inr)
  have k: "k \<noteq> []" using N sha256_hex_nonempty by (simp add: k_def pairHash_def)
  have inv1: "pairing_inv s1"
    using pairing_step_inv [OF inv, of N "PairCreate r1 r2 r3 authFor sp ep nowMs ttlMs"] create by simp
  have others: "oauthStateHash r' \<noteq> stateHash N (encode r2) \<and> callbackHandleHash r' \<noteq> Some (stateHash N (encode r4))"
    if "(k', r') \<in> set (pair_records s1)" "k' \<noteq> k" for k' r'
  proof -
    have "(k', r') \<in> insert (k, r) (set (pair_records (evict_expired t s)))"
      using that(1) set_update_subset [of k r "pair_records (evict_expired t s)"]
      by (auto simp: s1 add_pairing_def k_def r_def)
    with that(2) set_records_evict [of t s] have "(k', r') \<in> set (pair_records s)" by auto
    with fresh show ?thesis by (auto simp: drawn_fresh_def)
  qed
  show thesis
    by (rule that [of r]) (use inv1 k others in \<open>simp_all add: c s1 k_def r_def add_pairing_def new_record_def
        pending_pairing_def dk\<close>)
qed

text \<open>
  C23: the handshake completes.  When a pairing was created and the randomness drawn for it does not
  collide with that of the pairings already held, then before its expiry its OAuth state yields the
  drawn callback handle and the PKCE verifier, the handle authorizes it, and a claim signed by the
  device key over the proof message returns the two registered keys, once.
\<close>
theorem handshake_completes:
  assumes "digest_32 N" and inv: "pairing_inv s" and fresh: "drawn_fresh N r2 r4 s"
    and create: "create N r1 r2 r3 authFor sp ep nowMs ttlMs s = (Inr c, s1)"
    and times: "t1 < created_expiresAtMs c" "t2 < created_expiresAtMs c" "t3 < created_expiresAtMs c"
    and consumed: "consumeOAuthState N r4 (created_oauthState c) t1 s1 = (res, s2)"
    and marked: "markAuthorized N (encode r4) t2 s2 = (ok, s3)"
    and key: "createPublicKey N sp = Some dk" and sig: "buffer_from_base64url N pf \<noteq> []"
      "verify_signature N (utf8 (created_proofMessage c)) dk (buffer_from_base64url N pf)"
  shows "res = Some \<lparr> consumed_handle = encode r4, consumed_verifier = encode r3,
      consumed_expiresAtMs = created_expiresAtMs c \<rparr>
    \<and> ok \<and> fst (openClaim N (created_pairId c) pf t3 s3) = Inr (sp, ep)
    \<and> fst (openClaim N (created_pairId c) pf t3 (snd (openClaim N (created_pairId c) pf t3 s3)))
        = Inl ClaimNotAuthorized"
proof -
  define k where "k = pairHash N (created_pairId c)"
  define hh where "hh = stateHash N (encode r4)"
  obtain r where inv1: "pairing_inv s1" and k: "k \<noteq> []" and state: "created_oauthState c = encode r2"
    and r: "mget (pair_records s1) k = Some r" "mget (pair_states s1) (stateHash N (encode r2)) = Some k"
      "oauthStateHash r = stateHash N (encode r2)" "pair_status r = Pending" "pair_expiresAtMs r = created_expiresAtMs c"
      "pkceVerifier r = encode r3" "proofMessage r = created_proofMessage c" "devicePublicKey r = dk"
      "deviceSigningPublicKeyPem r = sp" "deviceEncryptionPublicKeyPem r = ep"
    and others: "\<And>k' r'. (k', r') \<in> set (pair_records s1) \<Longrightarrow> k' \<noteq> k \<Longrightarrow>
      oauthStateHash r' \<noteq> stateHash N (encode r2) \<and> callbackHandleHash r' \<noteq> Some hh"
    unfolding k_def hh_def by (rule created_pairing [OF assms(1) inv fresh create key]) blast
  define ra where "ra = r\<lparr> callbackHandleHash := Some hh, pair_status := CallbackStateConsumed \<rparr>"
  have one: "consumeOAuthState N r4 (encode r2) t1 s1 = (res, s2)" using consumed state by simp
  have cons: "res = Some \<lparr> consumed_handle = encode r4, consumed_verifier = encode r3,
      consumed_expiresAtMs = created_expiresAtMs c \<rparr>" and
    s2: "pair_records s2 = mput k ra (pair_records (evict_expired t1 s1))"
      "mget (pair_handles s2) hh = Some k"
    using consume_state_ok [OF inv1 r(2) k r(1,3,4), of t1 r4] others r one times
    by (auto simp: ra_def hh_def)
  have inv2: "pairing_inv s2"
    using pairing_step_inv [OF inv1, of N "PairConsumeState r4 (encode r2) t1"] one by simp
  have others2: "callbackHandleHash r' \<noteq> Some hh" if "(k', r') \<in> set (pair_records s2)" "k' \<noteq> k" for k' r'
    using that set_update_subset [of k ra "pair_records (evict_expired t1 s1)"]
      set_records_evict [of t1 s1] others [of k' r'] by (auto simp: s2)
  have "markAuthorized N (encode r4) t2 s2 = (True, s3) \<and> ok
      \<and> mget (pair_records s3) k = Some (ra\<lparr> callbackHandleHash := None, pair_status := Authorized \<rparr>)"
    using mark_ok [OF inv2 s2(2) [unfolded hh_def] k, of ra t2] others2 marked times r
    by (auto simp: s2 ra_def hh_def)
  then show ?thesis
    using cons r times sig
    by (simp add: openClaim_def Let_def k_def [symmetric] ra_def verifyProof_def)
qed

definition ex_new_store :: pairing_store where
  "ex_new_store = \<lparr> pair_records = [], pair_states = [], pair_handles = [], pair_nonces = [], pair_max = 2 \<rparr>"

lemma ex_new_inv: "pairing_inv ex_new_store"
  by (simp add: pairing_inv_def ex_new_store_def)

lemma ex_keys: "device_keys toy_crypto ''E'' ''X'' =
    Inr (\<lparr> asymmetricKeyType = Ed25519, key_spki = [69] \<rparr>, \<lparr> asymmetricKeyType = X25519, key_spki = [88] \<rparr>)"
  by (simp add: device_keys_def toy_crypto_def utf8_def utf8_char_def)

lemma ex_create:
  obtains c s1 where "create toy_crypto r1 r2 r3 None ''E'' ''X'' (Fin 0) (Fin 100) ex_new_store = (Inr c, s1)"
    "created_expiresAtMs c = 100"
proof
  show "create toy_crypto r1 r2 r3 None ''E'' ''X'' (Fin 0) (Fin 100) ex_new_store =
    (Inr \<lparr> created_pairId = to_hex r1, created_oauthState = encode r2,
       created_proofMessage = proof_message toy_crypto (to_hex r1) 100, created_expiresAtMs = 100,
       created_authorizationUrl = None \<rparr>,
     snd (create toy_crypto r1 r2 r3 None ''E'' ''X'' (Fin 0) (Fin 100) ex_new_store))"
    by (simp add: create_def create_guard_def MAX_PAIRING_TTL_MS_def evict_expired_def ex_keys
        ex_new_store_def Let_def pending_pairing_def)
qed simp

theorem handshake_completes_witness:
  "\<exists>c s1. create toy_crypto [1] [2] [3] None ''E'' ''X'' (Fin 0) (Fin 100) ex_new_store = (Inr c, s1)
     \<and> fst (openClaim toy_crypto (created_pairId c) (''E'' @ created_proofMessage c) 30
          (snd (markAuthorized toy_crypto (encode [4]) 20
            (snd (consumeOAuthState toy_crypto [4] (created_oauthState c) 10 s1))))) = Inr (''E'', ''X'')"
proof -
  obtain c s1 where c: "create toy_crypto [1] [2] [3] None ''E'' ''X'' (Fin 0) (Fin 100) ex_new_store = (Inr c, s1)"
    "created_expiresAtMs c = 100" by (rule ex_create)
  let ?a = "consumeOAuthState toy_crypto [4] (created_oauthState c) 10 s1"
  let ?b = "markAuthorized toy_crypto (encode [4]) 20 (snd ?a)"
  let ?pf = "''E'' @ created_proofMessage c"
  have "drawn_fresh toy_crypto [2] [4] ex_new_store" by (simp add: drawn_fresh_def ex_new_store_def)
  moreover have "createPublicKey toy_crypto ''E'' = Some \<lparr> asymmetricKeyType = Ed25519, key_spki = [69] \<rparr>"
    by (simp add: toy_crypto_def utf8_def utf8_char_def)
  moreover have "buffer_from_base64url toy_crypto ?pf \<noteq> []"
    "verify_signature toy_crypto (utf8 (created_proofMessage c))
       \<lparr> asymmetricKeyType = Ed25519, key_spki = [69] \<rparr> (buffer_from_base64url toy_crypto ?pf)"
    by (simp_all add: toy_crypto_def utf8_def utf8_char_def)
  ultimately have "fst (openClaim toy_crypto (created_pairId c) ?pf 30 (snd ?b)) = Inr (''E'', ''X'')"
    using handshake_completes [OF toy_digest_32 ex_new_inv _ c(1), of "[4]" 10 20 30 "fst ?a" "snd ?a"
        "fst ?b" "snd ?b" _ ?pf] c(2) by simp
  with c(1) show ?thesis by blast
qed

lemma fold_evict_nonces:
  "(k, r) \<in> set es \<Longrightarrow> t \<ge> pair_expiresAtMs r \<Longrightarrow> (h, n) \<in> set (pair_nonces (fold (evict_pairing t) es s)) \<Longrightarrow>
     pairKeyHash n \<noteq> k"
proof (induction es arbitrary: s)
  case (Cons e es)
  show ?case
  proof (cases "e = (k, r)")
    case True
    have "(h, n) \<in> set (pair_nonces (evict_pairing t e s))"
      using Cons.prems(3) pruned_fold_evict [of t es "evict_pairing t e s"]
      by (auto simp: pruned_def thinned_def)
    with True Cons.prems(2) show ?thesis
      by (auto simp: evict_pairing_def drop_nonces_for_def Let_def)
  next
    case False
    with Cons show ?thesis by auto
  qed
qed simp

text \<open>
  The eviction loop, which deletes from the map it iterates over, keeps exactly the unexpired
  pairings in their order, and leaves no OAuth state, callback handle or nonce of an expired one.
\<close>
theorem eviction_exact:
  assumes "pairing_inv s"
  shows "pair_records (evict_expired t s) = filter (\<lambda>(k, r). t < pair_expiresAtMs r) (pair_records s)
    \<and> (\<forall>(k, r) \<in> set (pair_records s). pair_expiresAtMs r \<le> t \<longrightarrow>
         mget (pair_states (evict_expired t s)) (oauthStateHash r) = None
         \<and> (\<forall>hh. callbackHandleHash r = Some hh \<and> hh \<noteq> [] \<longrightarrow>
              mget (pair_handles (evict_expired t s)) hh = None)
         \<and> (\<forall>(h, n) \<in> set (pair_nonces (evict_expired t s)). pairKeyHash n \<noteq> k))"
proof -
  have "mget (pair_states (evict_expired t s)) (oauthStateHash r) = None
      \<and> (\<forall>hh. callbackHandleHash r = Some hh \<and> hh \<noteq> [] \<longrightarrow>
           mget (pair_handles (evict_expired t s)) hh = None)
      \<and> (\<forall>(h, n) \<in> set (pair_nonces (evict_expired t s)). pairKeyHash n \<noteq> k)"
    if "(k, r) \<in> set (pair_records s)" "pair_expiresAtMs r \<le> t" for k r
    unfolding evict_expired_def using fold_evict_clears [OF that] fold_evict_nonces [OF that] by blast
  then show ?thesis
    using evict_expired_records [OF pairing_inv_distinct(1) [OF assms]] by blast
qed

theorem eviction_exact_witness:
  "pair_records (evict_expired 100 ex_pairing_store) = [] \<and> pair_records (evict_expired 99 ex_pairing_store)
     = pair_records ex_pairing_store"
  using eviction_exact [OF ex_pairing_inv, of 100] eviction_exact [OF ex_pairing_inv, of 99]
  by (simp add: ex_pairing_store_def ex_pairing_def)

text \<open>
  From a new store, every run of operations keeps at most the configured number of pairings, one
  per identifier hash, each with a callback handle exactly while its callback state is consumed and
  with a proof message that names its own identifier hash and expiry.
\<close>
theorem pairing_store_wellformed:
  assumes "new_pairing_store cap = Inr s0" and "s = fold (pairing_step N) cs s0"
  shows "debugSize s \<le> pair_max s \<and> mkeys_distinct (pair_records s)
    \<and> (\<forall>(k, r) \<in> set (pair_records s).
         (pair_status r = CallbackStateConsumed \<longleftrightarrow> callbackHandleHash r \<noteq> None)
         \<and> proofMessage r = ''gdrive-stream-pair-v1:'' @ k @ '':'' @ dec_int (pair_expiresAtMs r))"
proof -
  have inv: "pairing_inv s"
    unfolding assms(2) by (rule pairing_machine.run_inv) (rule new_pairing_store_inv [OF assms(1)])
  have "pairing_ok k r" if "(k, r) \<in> set (pair_records s)" for k r
    using that inv by (intro pairing_inv_ok [OF inv]) (simp add: pairing_inv_def)
  then show ?thesis using inv by (auto simp: pairing_inv_def debugSize_def pairing_ok_def)
qed

theorem pairing_store_wellformed_witness:
  "let s = fold (pairing_step toy_crypto) [PairRevoke [], PairConsumeState [1] [] 5] ex_new_store
   in debugSize s \<le> pair_max s \<and> mkeys_distinct (pair_records s)"
  using pairing_store_wellformed [of "Fin 2" ex_new_store _ toy_crypto, OF _ refl]
  by (simp add: new_pairing_store_def ex_new_store_def Let_def del: fold.simps)

section \<open>The entry an expired claim leaves behind\<close>

text \<open>A handle entry is dangling when its pairing is gone and no held pairing names it.\<close>

definition dangling :: "string \<Rightarrow> string \<Rightarrow> pairing_store \<Rightarrow> bool" where
  "dangling key hh s \<longleftrightarrow> mget (pair_handles s) hh = Some key \<and> mget (pair_records s) key = None
     \<and> (\<forall>(k, r) \<in> set (pair_records s). callbackHandleHash r \<noteq> Some hh)"

definition redraws :: "'x node_crypto_scheme \<Rightarrow> pairing_op \<Rightarrow> pairing_store \<Rightarrow> string \<times> string \<Rightarrow> bool" where
  "redraws N c s e \<longleftrightarrow> mints_pairing N c s (fst e) \<or> mints_handle N c s (snd e)"

lemma dangling_put:
  assumes "dangling key hh s" "k \<noteq> key" "callbackHandleHash r \<noteq> Some hh" "pair_handles s' = pair_handles s"
    and "pair_records s' = mput k r (pair_records s)"
  shows "dangling key hh s'"
  using assms set_update_subset [of k r "pair_records s"] by (fastforce simp: dangling_def)

lemma dangling_pruned:
  assumes "dangling key hh s" "pruned s' s" "mget (pair_handles s') hh = mget (pair_handles s) hh"
  shows "dangling key hh s'"
  using assms thinned_absent [of "pair_records s'" "pair_records s" key]
  by (auto simp: dangling_def pruned_def thinned_def)

lemma dangling_evict: "dangling key hh s \<Longrightarrow> dangling key hh (evict_expired t s)"
  by (rule dangling_pruned [OF _ pruned_evict_expired], assumption, rule handles_evict_kept)
    (auto simp: dangling_def)

lemma dangling_evict_nonces: "dangling key hh s \<Longrightarrow> dangling key hh (evict_expired_nonces t s)"
  by (rule dangling_pruned [OF _ pruned_evict_nonces]) simp_all

lemma dangling_get: "dangling key hh s \<Longrightarrow> mget (pair_records s) k = Some r \<Longrightarrow>
    k \<noteq> key \<and> callbackHandleHash r \<noteq> Some hh"
  by (auto simp: dangling_def dest: map_of_SomeD)

lemma dangling_nonces [simp]: "dangling key hh (s\<lparr> pair_nonces := m \<rparr>) = dangling key hh s"
  "dangling key hh (s\<lparr> pair_states := m' \<rparr>) = dangling key hh s"
  by (simp_all add: dangling_def)

lemma dangling_handles: "dangling key hh s \<Longrightarrow> h \<noteq> hh \<Longrightarrow>
    dangling key hh (s\<lparr> pair_handles := mput h k (pair_handles s) \<rparr>)"
  "dangling key hh s \<Longrightarrow> h \<noteq> hh \<Longrightarrow> dangling key hh (s\<lparr> pair_handles := mdel h (pair_handles s) \<rparr>)"
  by (simp_all add: dangling_def)

lemma handles_claim: "mget (pair_handles (snd (openClaim N p pf t s))) h = mget (pair_handles s) h"
  by (simp add: openClaim_def Let_def split: option.split)

lemma handles_nonces:
  "pair_handles (snd (issueNonce N rn p t d s)) = pair_handles s"
  "pair_handles (snd (consumeNonce N p n pf t s)) = pair_handles s"
  "pair_records (snd (issueNonce N rn p t d s)) = pair_records s"
  "pair_records (snd (consumeNonce N p n pf t s)) = pair_records s"
  by (simp_all add: issueNonce_def consumeNonce_def Let_def split: option.split)

lemma dangling_create:
  assumes "dangling key hh s" "pairHash N (to_hex r1) \<noteq> key"
  shows "dangling key hh (snd (create N r1 r2 r3 f sp ep t d s))"
proof -
  have add: "dangling key hh (add_pairing k (new_record N r1 r2 r3 sp ep dk ek e) s')"
    if "dangling key hh s'" "k \<noteq> key" for s' k dk ek e
    by (rule dangling_put [OF that, of "new_record N r1 r2 r3 sp ep dk ek e"])
      (simp_all add: add_pairing_def new_record_def pending_pairing_def)
  show ?thesis
    using assms by (cases rule: create_cases [of N r1 r2 r3 f sp ep t d s])
      (auto intro: add dangling_evict)
qed

lemma dangling_cong:
  "dangling key hh s \<Longrightarrow> pair_records s' = pair_records s \<Longrightarrow>
     mget (pair_handles s') hh = mget (pair_handles s) hh \<Longrightarrow> dangling key hh s'"
  by (simp add: dangling_def)

lemma dangling_revoke:
  assumes "dangling key hh s"
  shows "dangling key hh (snd (revoke N p s))"
proof (cases "mget (pair_records s) (pairHash N p)")
  case (Some r)
  let ?k = "pairHash N p"
  let ?s = "drop_nonces_for ?k (drop_handle r
    (s\<lparr> pair_states := mdel (oauthStateHash r) (pair_states s) \<rparr>))"
  have r: "?k \<noteq> key" "callbackHandleHash r \<noteq> Some hh" using dangling_get [OF assms Some] by simp_all
  have "dangling key hh ?s"
    by (rule dangling_cong [OF assms]) (use r in \<open>auto simp: drop_handle_def split: option.split\<close>)
  then show ?thesis
    by (rule dangling_put [of key hh ?s ?k "r\<lparr> pair_status := Revoked, callbackHandleHash := None \<rparr>"])
      (use r Some in \<open>auto simp: revoke_def Let_def drop_handle_def drop_nonces_for_def split: option.split\<close>)
qed (use assms in \<open>simp add: revoke_def\<close>)

lemma dangling_step:
  assumes dang: "dangling key hh s" and m: "\<not> redraws N c s (key, hh)"
  shows "dangling key hh (pairing_step N c s)"
proof (cases c)
  case (PairCreate r1 r2 r3 f sp ep t d)
  then show ?thesis using dang m by (simp add: dangling_create redraws_def)
next
  case (PairConsumeState rn os t)
  have ev: "dangling key hh (evict_expired t s)" using dang by (rule dangling_evict)
  then show ?thesis
  proof (cases rule: consume_state_cases [of N rn os t s])
    case (ok k r)
    let ?h = "stateHash N (encode rn)"
    have "?h \<noteq> hh" using m by (simp add: PairConsumeState redraws_def)
    then show ?thesis
      by (intro dangling_put [OF dangling_handles(1) [OF ev, of ?h k], of k
            "r\<lparr> callbackHandleHash := Some ?h, pair_status := CallbackStateConsumed \<rparr>"])
        (use ok dangling_get [OF ev ok(3)] in \<open>simp_all add: PairConsumeState\<close>)
  qed (simp add: PairConsumeState)
next
  case (PairMark h t)
  have ev: "dangling key hh (evict_expired t s)" using dang by (rule dangling_evict)
  then show ?thesis
  proof (cases rule: mark_cases [of N h t s])
    case (ok k r)
    let ?h = "stateHash N h"
    from ok dangling_get [OF ev ok(3)] have "?h \<noteq> hh" by auto
    then show ?thesis
      by (intro dangling_put [OF dangling_handles(2) [OF ev, of ?h], of k
            "r\<lparr> callbackHandleHash := None, pair_status := Authorized \<rparr>"])
        (use ok dangling_get [OF ev ok(3)] in \<open>simp_all add: PairMark\<close>)
  qed (simp add: PairMark)
next
  case (PairClaim p pf t)
  show ?thesis
  proof (cases rule: claim_cases [of N p pf t s])
    case (ok r)
    then show ?thesis
      using dangling_get [OF dang ok(1)]
      by (intro dangling_put [OF dang, of "pairHash N p" "r\<lparr> pair_status := Enrolled \<rparr>"])
        (simp_all add: PairClaim)
  qed (use dang in \<open>auto simp: PairClaim handles_claim intro: dangling_pruned\<close>)
next
  case (PairIssueNonce rn p t d)
  then show ?thesis using dang by (simp add: dangling_def handles_nonces)
next
  case (PairConsumeNonce p n pf t)
  then show ?thesis using dang by (simp add: dangling_def handles_nonces)
next
  case (PairRevoke p)
  then show ?thesis using dang by (simp add: dangling_revoke)
qed

lemma dangling_run:
  "dangling key hh s \<Longrightarrow> never_mints (pairing_step N) (redraws N) (key, hh) cs s \<Longrightarrow>
     dangling key hh (fold (pairing_step N) cs s)"
  by (induction cs arbitrary: s) (simp_all add: dangling_step)

text \<open>
  A claim that finds its pairing expired while the callback handle is outstanding deletes the
  pairing but not the handle's entry, and no later operation ever removes that entry, since eviction
  only follows pairings that are still held: the handle map grows by one entry for good.
\<close>
theorem expired_claim_leaks_handle:
  assumes "mget (pair_records s) (pairHash N pairId) = Some r" and "mkeys_distinct (pair_records s)"
    and "pair_status r \<noteq> Revoked" and "callbackHandleHash r = Some hh"
    and "mget (pair_handles s) hh = Some (pairHash N pairId)" and "pair_expiresAtMs r \<le> t"
    and "\<forall>(k', r') \<in> set (pair_records s). callbackHandleHash r' = Some hh \<longrightarrow> k' = pairHash N pairId"
    and "never_mints (pairing_step N) (redraws N) (pairHash N pairId, hh) cs (snd (openClaim N pairId pf t s))"
  shows "fst (openClaim N pairId pf t s) = Inl ClaimExpired
    \<and> mget (pair_handles (fold (pairing_step N) cs (snd (openClaim N pairId pf t s)))) hh = Some (pairHash N pairId)
    \<and> mget (pair_records (fold (pairing_step N) cs (snd (openClaim N pairId pf t s)))) (pairHash N pairId) = None"
proof -
  let ?k = "pairHash N pairId"
  have claim: "openClaim N pairId pf t s = (Inl ClaimExpired, drop_nonces_for ?k
      (s\<lparr> pair_records := mdel ?k (pair_records s), pair_states := mdel (oauthStateHash r) (pair_states s) \<rparr>))"
    using assms by (simp add: openClaim_def Let_def)
  have "callbackHandleHash r' \<noteq> Some hh" if "(k', r') \<in> set (mdel ?k (pair_records s))" for k' r'
    using that assms(7) by (auto simp: AList.delete_eq)
  then have "dangling ?k hh (snd (openClaim N pairId pf t s))"
    using assms(5) by (auto simp: claim dangling_def)
  from dangling_run [OF this assms(8)] show ?thesis by (auto simp: claim dangling_def)
qed

definition ex_waiting :: pairing where
  "ex_waiting = ex_pairing\<lparr> pair_status := CallbackStateConsumed, callbackHandleHash := Some ''h'' \<rparr>"

definition ex_waiting_store :: pairing_store where
  "ex_waiting_store = ex_pairing_store\<lparr> pair_records := [(pairHash toy_crypto [], ex_waiting)],
     pair_handles := [(''h'', pairHash toy_crypto [])] \<rparr>"

theorem expired_claim_leaks_handle_witness:
  "mget (pair_handles (fold (pairing_step toy_crypto) [PairMark ''h'' 200, PairRevoke []]
     (snd (openClaim toy_crypto [] [] 100 ex_waiting_store)))) ''h'' = Some (pairHash toy_crypto [])"
proof -
  have "never_mints (pairing_step toy_crypto) (redraws toy_crypto) (pairHash toy_crypto [], ''h'')
      [PairMark ''h'' 200, PairRevoke []] (snd (openClaim toy_crypto [] [] 100 ex_waiting_store))"
    by (simp add: redraws_def)
  then show ?thesis
    using expired_claim_leaks_handle [of ex_waiting_store toy_crypto "[]" ex_waiting "''h''" 100
        "[PairMark ''h'' 200, PairRevoke []]" "[]"]
    by (simp add: ex_waiting_store_def ex_waiting_def ex_pairing_def del: fold.simps)
qed

end
