(* ===== verification/SealedFile.thy ===== *)
theory SealedFile
  imports Platform JsonText ProtectedDir
begin

text \<open>
  What the two encrypted stores (\<^verbatim>\<open>broker/src/refresh-token-store.ts\<close> and
  \<^verbatim>\<open>broker/src/enrollment-record-store.ts\<close>) have in common: the record framing
  magic, version, nonce, tag, ciphertext under AES-256-GCM with the header as additional data, the
  guarded and atomic publication of the record file, and the derivation of the store key.

  AES-GCM and HKDF are the platform's: further functions of the platform record.  The record file and
  the temporary files beside it are the only files the stores touch; a temporary file is known by the
  random bytes in its name.
\<close>

section \<open>Platform functions\<close>

record cipher_crypto = node_crypto +
  gcm_encrypt :: "bytes \<Rightarrow> bytes \<Rightarrow> bytes \<Rightarrow> bytes \<Rightarrow> bytes \<times> bytes"
  gcm_decrypt :: "bytes \<Rightarrow> bytes \<Rightarrow> bytes \<Rightarrow> bytes \<Rightarrow> bytes \<Rightarrow> bytes option"
  hkdf_sha256 :: "bytes \<Rightarrow> bytes \<Rightarrow> bytes \<Rightarrow> nat \<Rightarrow> bytes"

text \<open>
  \<open>gcm_encrypt key nonce aad plaintext\<close> is the ciphertext and its tag; \<open>gcm_decrypt\<close> is \<open>None\<close> when the
  tag does not verify.  What the stores rely on: decryption inverts encryption, and a tag has 16 bytes.
\<close>

definition gcm_inverts :: "('x) cipher_crypto_scheme \<Rightarrow> bool" where
  "gcm_inverts N \<longleftrightarrow> (\<forall>k n a p. case gcm_encrypt N k n a p of (c, t) \<Rightarrow>
     length t = 16 \<and> gcm_decrypt N k n a c t = Some p)"

definition toy_cipher :: cipher_crypto where
  "toy_cipher = node_crypto.extend toy_crypto
     (cipher_crypto.fields
       (\<lambda>k n a p. (p, take 16 (a @ replicate 16 0)))
       (\<lambda>k n a c t. if t = take 16 (a @ replicate 16 0) then Some c else None)
       (\<lambda>ikm salt info n. take n (info @ replicate n 0)))"

lemma toy_gcm_inverts [simp]: "gcm_inverts toy_cipher"
  by (simp add: gcm_inverts_def toy_cipher_def node_crypto.defs cipher_crypto.defs min_def)

section \<open>Constants and framing\<close>

definition FORMAT_VERSION :: byte where "FORMAT_VERSION = 1"
definition MAGIC_BYTES :: nat where "MAGIC_BYTES = 4"
definition VERSION_OFFSET :: nat where "VERSION_OFFSET = MAGIC_BYTES"
definition NONCE_BYTES :: nat where "NONCE_BYTES = 12"
definition TAG_BYTES :: nat where "TAG_BYTES = 16"
definition NONCE_OFFSET :: nat where "NONCE_OFFSET = VERSION_OFFSET + 1"
definition TAG_OFFSET :: nat where "TAG_OFFSET = NONCE_OFFSET + NONCE_BYTES"
definition HEADER_BYTES :: nat where "HEADER_BYTES = TAG_OFFSET + TAG_BYTES"
definition KEY_BYTES :: nat where "KEY_BYTES = 32"

lemmas frame_offsets = MAGIC_BYTES_def VERSION_OFFSET_def NONCE_BYTES_def TAG_BYTES_def
  NONCE_OFFSET_def TAG_OFFSET_def HEADER_BYTES_def

datatype store_error = InvalidKey | InvalidInput | UnknownVersion | Corrupt | InsecureDirectory | StoreIoError

definition authenticated_header :: "bytes \<Rightarrow> bytes" where
  "authenticated_header magic = magic @ [FORMAT_VERSION]"

text \<open>\<^verbatim>\<open>Buffer.subarray(from, to)\<close>.\<close>

definition subarray :: "nat \<Rightarrow> nat \<Rightarrow> bytes \<Rightarrow> bytes" where
  "subarray a b bs = take (b - a) (drop a bs)"

definition seal_record :: "'x cipher_crypto_scheme \<Rightarrow> bytes \<Rightarrow> bytes \<Rightarrow> bytes \<Rightarrow> string \<Rightarrow> bytes" where
  "seal_record N magic key nonce payload =
    (case gcm_encrypt N key nonce (authenticated_header magic) (utf8 payload) of (sealed, tag) \<Rightarrow>
       authenticated_header magic @ nonce @ tag @ sealed)"

definition open_record :: "'x cipher_crypto_scheme \<Rightarrow> bytes \<Rightarrow> bytes \<Rightarrow> bytes \<Rightarrow> (store_error, string) result" where
  "open_record N magic key raw =
    (if length raw < HEADER_BYTES then Inl Corrupt
     else if subarray 0 MAGIC_BYTES raw \<noteq> magic then Inl Corrupt
     else if raw ! VERSION_OFFSET \<noteq> FORMAT_VERSION then Inl UnknownVersion
     else case gcm_decrypt N key (subarray NONCE_OFFSET (NONCE_OFFSET + NONCE_BYTES) raw)
         (authenticated_header magic) (drop HEADER_BYTES raw)
         (subarray TAG_OFFSET (TAG_OFFSET + TAG_BYTES) raw) of
       None \<Rightarrow> Inl Corrupt
     | Some plain \<Rightarrow> Inr (utf8_decode plain))"

text \<open>Key derivation, parameterised by the store's \<^verbatim>\<open>info\<close> string.\<close>

definition derive_store_key :: "'x cipher_crypto_scheme \<Rightarrow> string \<Rightarrow> bytes \<Rightarrow> (store_error, bytes) result" where
  "derive_store_key N info masterKey =
    (if length masterKey \<noteq> KEY_BYTES then Inl InvalidKey
     else let derived = hkdf_sha256 N masterKey [] (utf8 info) KEY_BYTES
       in if length derived \<noteq> KEY_BYTES then Inl InvalidKey else Inr derived)"

section \<open>Publication of the record file\<close>

datatype file_slot = RecordFile | TempFile bytes

type_synonym files = "file_slot \<Rightarrow> bytes option"

text \<open>The call that fails first while a record is written, if any; a failing write leaves a prefix.\<close>

datatype write_fault = OpenFails | WriteFails nat | SyncFails | CloseFails | RenameFails | ChmodFails

record write_env =
  guard_env :: dir_env
  write_nonce :: bytes
  tmp_suffix :: bytes
  write_fault :: "write_fault option"
  rm_works :: bool

definition remove_temp :: "write_env \<Rightarrow> files \<Rightarrow> files" where
  "remove_temp e fs = (if rm_works e then fs(TempFile (tmp_suffix e) := None) else fs)"

text \<open>
  \<^verbatim>\<open>open(temporaryPath, "wx")\<close> fails on an existing file.  On any failure the temporary path is
  removed and the typed guard error or a generic one is thrown.
\<close>

definition write_record :: "write_env \<Rightarrow> bytes \<Rightarrow> files \<Rightarrow> (store_error, unit) result \<times> files" where
  "write_record e bs fs =
    (let tmp = TempFile (tmp_suffix e); full = fs(tmp \<mapsto> bs);
         published = full(RecordFile \<mapsto> bs, tmp := None)
     in case fst (ensureProtectedDirectory (guard_env e) True) of
          Inl _ \<Rightarrow> (Inl InsecureDirectory, remove_temp e fs)
        | Inr _ \<Rightarrow>
          if fs tmp \<noteq> None \<or> write_fault e = Some OpenFails then (Inl StoreIoError, remove_temp e fs)
          else (case write_fault e of
              None \<Rightarrow> (Inr (), published)
            | Some (WriteFails n) \<Rightarrow> (Inl StoreIoError, remove_temp e (fs(tmp \<mapsto> take n bs)))
            | Some ChmodFails \<Rightarrow> (Inl StoreIoError, remove_temp e published)
            | Some _ \<Rightarrow> (Inl StoreIoError, remove_temp e full)))"

text \<open>Reading: the guard first, then the file; an absent file is \<open>Inr None\<close>.\<close>

record read_env =
  read_guard :: dir_env
  read_fails :: bool

definition read_record_file :: "read_env \<Rightarrow> files \<Rightarrow> (store_error, bytes option) result" where
  "read_record_file e fs =
    (case fst (ensureProtectedDirectory (read_guard e) False) of Inl _ \<Rightarrow> Inl InsecureDirectory
     | Inr _ \<Rightarrow> if read_fails e then Inl StoreIoError else Inr (fs RecordFile))"

section \<open>Facts\<close>

lemma length_authenticated_header: "length magic = MAGIC_BYTES \<Longrightarrow> length (authenticated_header magic) = NONCE_OFFSET"
  by (simp add: authenticated_header_def frame_offsets)

lemma open_seal:
  assumes "gcm_inverts N" "length magic = MAGIC_BYTES" "length nonce = NONCE_BYTES"
  shows "open_record N magic key (seal_record N magic key nonce payload) = Inr payload"
proof -
  obtain sealed tag where enc: "gcm_encrypt N key nonce (authenticated_header magic) (utf8 payload) = (sealed, tag)"
    by fastforce
  then have tag: "length tag = 16"
    "gcm_decrypt N key nonce (authenticated_header magic) sealed tag = Some (utf8 payload)"
    using assms(1) by (auto simp: gcm_inverts_def split: prod.splits)
  show ?thesis
    using assms(2,3) tag enc
    by (simp add: open_record_def seal_record_def subarray_def authenticated_header_def frame_offsets
        nth_append)
qed

lemma open_wrong_version:
  assumes "length magic = MAGIC_BYTES" "length raw \<ge> HEADER_BYTES" "take MAGIC_BYTES raw = magic"
    and "raw ! VERSION_OFFSET \<noteq> FORMAT_VERSION"
  shows "open_record N magic key raw = Inl UnknownVersion"
  using assms by (simp add: open_record_def subarray_def)

lemma write_ok:
  assumes "fst (write_record e bs fs) = Inr ()"
  shows "snd (write_record e bs fs) = fs(RecordFile \<mapsto> bs, TempFile (tmp_suffix e) := None)"
  using assms by (auto simp: write_record_def Let_def split: if_splits option.splits sum.splits write_fault.splits)

text \<open>Publication is atomic: whatever fails, the record file holds its old bytes or all the new ones.\<close>

lemma write_atomic:
  "snd (write_record e bs fs) RecordFile \<in> {fs RecordFile, Some bs}"
  by (auto simp: write_record_def Let_def remove_temp_def split: option.splits sum.splits write_fault.splits)

lemma write_leaves_no_temp:
  assumes "rm_works e"
  shows "snd (write_record e bs fs) (TempFile (tmp_suffix e)) = None"
  using assms by (auto simp: write_record_def Let_def remove_temp_def
      split: option.splits sum.splits write_fault.splits)

lemma write_others: "slot \<noteq> RecordFile \<Longrightarrow> slot \<noteq> TempFile (tmp_suffix e) \<Longrightarrow>
    snd (write_record e bs fs) slot = fs slot"
  by (auto simp: write_record_def Let_def remove_temp_def split: option.splits sum.splits write_fault.splits)

end
