(* ===== verification/EnrollmentRecords.thy ===== *)
theory EnrollmentRecords
  imports SealedFile Systems
begin

text \<open>
  \<^verbatim>\<open>broker/src/enrollment-record-store.ts\<close>: the durable records of enrolled devices, in memory and
  encrypted on disk.  Both implement the interface the broker relies on, stated here as the locale
  \<open>device_registry\<close>.  Operations of the encrypted store take what the environment does during them
  (directory, read and write faults, random bytes) as an argument and return the store and the files.
\<close>

section \<open>Data\<close>

definition ENROLLMENT_STORE_HKDF_INFO :: string where
  "ENROLLMENT_STORE_HKDF_INFO = ''gdrive-stream-enrollment-v1''"

definition ENROLLMENT_MAGIC :: bytes where "ENROLLMENT_MAGIC = utf8 ''MBEN''"

record enrolled_device =
  dev_pairIdHash :: string
  dev_signingPem :: string
  dev_encryptionPem :: string
  dev_enrolledAtMs :: int
  dev_expiresAtMs :: int
  dev_revoked :: bool

record enrollment_input =
  in_pairId :: string
  in_signingPem :: string
  in_encryptionPem :: string
  in_enrolledAtMs :: number
  in_expiresAtMs :: number

definition pairIdHash :: "'x node_crypto_scheme \<Rightarrow> string \<Rightarrow> string" where
  "pairIdHash N pairId = sha256_hex N pairId"

definition deriveEnrollmentStoreKey :: "'x cipher_crypto_scheme \<Rightarrow> bytes \<Rightarrow> (store_error, bytes) result" where
  "deriveEnrollmentStoreKey N masterKey = derive_store_key N ENROLLMENT_STORE_HKDF_INFO masterKey"

text \<open>The asserted record, with the flag \<^verbatim>\<open>revoked: false\<close> the callers add.\<close>

definition assert_device :: "'x node_crypto_scheme \<Rightarrow> enrollment_input \<Rightarrow> (store_error, enrolled_device) result" where
  "assert_device N i =
    (if in_pairId i = [] then Inl InvalidInput
     else if \<not> str_includes (in_signingPem i) ''PUBLIC KEY'' then Inl InvalidInput
     else if \<not> str_includes (in_encryptionPem i) ''PUBLIC KEY'' then Inl InvalidInput
     else case as_int (in_enrolledAtMs i) of None \<Rightarrow> Inl InvalidInput
     | Some t \<Rightarrow> if t < 0 then Inl InvalidInput
       else case as_int (in_expiresAtMs i) of None \<Rightarrow> Inl InvalidInput
       | Some x \<Rightarrow> if x \<le> t then Inl InvalidInput
         else Inr \<lparr> dev_pairIdHash = pairIdHash N (in_pairId i), dev_signingPem = in_signingPem i,
                dev_encryptionPem = in_encryptionPem i, dev_enrolledAtMs = t, dev_expiresAtMs = x,
                dev_revoked = False \<rparr>)"

section \<open>The stored form\<close>

definition device_json :: "enrolled_device \<Rightarrow> jsval" where
  "device_json d = Obj [(''pairIdHash'', Str (dev_pairIdHash d)),
     (''deviceSigningPublicKeyPem'', Str (dev_signingPem d)),
     (''deviceEncryptionPublicKeyPem'', Str (dev_encryptionPem d)),
     (''enrolledAtMs'', jint (dev_enrolledAtMs d)), (''expiresAtMs'', jint (dev_expiresAtMs d)),
     (''revoked'', Bool (dev_revoked d))]"

definition is_hash_text :: "string \<Rightarrow> bool" where
  "is_hash_text s \<longleftrightarrow> length s = 64 \<and> list_all is_lower_hex s"

definition parse_device :: "jsval \<Rightarrow> (store_error, enrolled_device) result" where
  "parse_device v = (case object_or_array v of None \<Rightarrow> Inl Corrupt
     | Some r \<Rightarrow>
       (case (as_string (field r ''pairIdHash''), as_nonempty_string (field r ''deviceSigningPublicKeyPem''),
              as_nonempty_string (field r ''deviceEncryptionPublicKeyPem''),
              as_integer (field r ''enrolledAtMs''), as_integer (field r ''expiresAtMs''),
              as_bool (field r ''revoked'')) of
          (Some h, Some sp, Some ep, Some t, Some x, Some b) \<Rightarrow>
            if \<not> is_hash_text h \<or> t < 0 \<or> x \<le> 0 then Inl Corrupt
            else Inr \<lparr> dev_pairIdHash = h, dev_signingPem = sp, dev_encryptionPem = ep,
                   dev_enrolledAtMs = t, dev_expiresAtMs = x, dev_revoked = b \<rparr>
        | _ \<Rightarrow> Inl Corrupt))"

text \<open>\<^verbatim>\<open>map\<close> with a callback that may throw: the first failure is the result.\<close>

primrec map_result :: "('a \<Rightarrow> ('e, 'b) result) \<Rightarrow> 'a list \<Rightarrow> ('e, 'b list) result" where
  "map_result f [] = Inr []"
| "map_result f (x # xs) = bind_result (f x) (\<lambda>y. bind_result (map_result f xs) (\<lambda>ys. Inr (y # ys)))"

definition parseStoredRecords :: "string \<Rightarrow> (store_error, enrolled_device list) result" where
  "parseStoredRecords plaintext = (case json_parse plaintext of None \<Rightarrow> Inl Corrupt
     | Some v \<Rightarrow> (case object_or_array v of None \<Rightarrow> Inl Corrupt
        | Some r \<Rightarrow> (case field r ''records'' of Arr vs \<Rightarrow> map_result parse_device vs | _ \<Rightarrow> Inl Corrupt)))"

definition records_payload :: "(string, enrolled_device) omap \<Rightarrow> string" where
  "records_payload m = json_text (Obj [(''records'', Arr (map device_json (mvalues m)))])"

section \<open>The in-memory store\<close>

type_synonym device_map = "(string, enrolled_device) omap"

definition mem_find :: "'x node_crypto_scheme \<Rightarrow> string \<Rightarrow> device_map \<Rightarrow> enrolled_device option" where
  "mem_find N pairId m = mget m (pairIdHash N pairId)"

definition mem_record :: "'x node_crypto_scheme \<Rightarrow> enrollment_input \<Rightarrow> device_map \<Rightarrow>
    (store_error, unit) result \<times> device_map" where
  "mem_record N i m = (case assert_device N i of Inl e \<Rightarrow> (Inl e, m)
     | Inr d \<Rightarrow> (Inr (), mput (dev_pairIdHash d) d m))"

definition mem_revoke :: "'x node_crypto_scheme \<Rightarrow> string \<Rightarrow> device_map \<Rightarrow> bool \<times> device_map" where
  "mem_revoke N pairId m = (case mget m (pairIdHash N pairId) of None \<Rightarrow> (False, m)
     | Some d \<Rightarrow> (True, mput (pairIdHash N pairId) (d\<lparr> dev_revoked := True \<rparr>) m))"

definition mem_count :: "device_map \<Rightarrow> nat" where
  "mem_count m = length m"

section \<open>The encrypted store\<close>

text \<open>The single-flight load promise: not started, settled, or rejected for good.\<close>

datatype load_state = NotLoaded | Loaded | LoadFailed store_error

record enc_store =
  enc_key :: bytes
  enc_records :: device_map
  enc_load :: load_state

definition new_enc_store :: "string \<Rightarrow> bytes \<Rightarrow> (store_error, enc_store) result" where
  "new_enc_store filePath key =
    (if filePath = [] then Inl InvalidInput
     else if length key \<noteq> KEY_BYTES then Inl InvalidKey
     else Inr \<lparr> enc_key = key, enc_records = [], enc_load = NotLoaded \<rparr>)"

definition load :: "'x cipher_crypto_scheme \<Rightarrow> read_env \<Rightarrow> files \<Rightarrow> enc_store \<Rightarrow> (store_error, device_map) result" where
  "load N re fs s = (case read_record_file re fs of Inl e \<Rightarrow> Inl e
     | Inr None \<Rightarrow> Inr (enc_records s)
     | Inr (Some raw) \<Rightarrow> (case open_record N ENROLLMENT_MAGIC (enc_key s) raw of Inl e \<Rightarrow> Inl e
        | Inr plaintext \<Rightarrow> (case parseStoredRecords plaintext of Inl e \<Rightarrow> Inl e
           | Inr ds \<Rightarrow> Inr (fold (\<lambda>d. mput (dev_pairIdHash d) d) ds (enc_records s)))))"

definition ensure_loaded :: "'x cipher_crypto_scheme \<Rightarrow> read_env \<Rightarrow> files \<Rightarrow> enc_store \<Rightarrow>
    (store_error, unit) result \<times> enc_store" where
  "ensure_loaded N re fs s = (case enc_load s of
     Loaded \<Rightarrow> (Inr (), s)
   | LoadFailed e \<Rightarrow> (Inl e, s)
   | NotLoaded \<Rightarrow> (case load N re fs s of Inl e \<Rightarrow> (Inl e, s\<lparr> enc_load := LoadFailed e \<rparr>)
      | Inr m \<Rightarrow> (Inr (), s\<lparr> enc_records := m, enc_load := Loaded \<rparr>)))"

text \<open>
  \<^verbatim>\<open>persist\<close> seals the records before its first \<^verbatim>\<open>await\<close>; the publication follows and other
  operations may run in between.
\<close>

definition persist_bytes :: "'x cipher_crypto_scheme \<Rightarrow> write_env \<Rightarrow> enc_store \<Rightarrow> bytes" where
  "persist_bytes N we s =
     seal_record N ENROLLMENT_MAGIC (enc_key s) (write_nonce we) (records_payload (enc_records s))"

definition persist :: "'x cipher_crypto_scheme \<Rightarrow> write_env \<Rightarrow> enc_store \<Rightarrow> files \<Rightarrow>
    (store_error, unit) result \<times> files" where
  "persist N we s fs = write_record we (persist_bytes N we s) fs"

definition enc_find :: "'x cipher_crypto_scheme \<Rightarrow> read_env \<Rightarrow> string \<Rightarrow> enc_store \<Rightarrow> files \<Rightarrow>
    (store_error, enrolled_device option) result \<times> enc_store" where
  "enc_find N re pairId s fs = (case ensure_loaded N re fs s of (Inl e, s1) \<Rightarrow> (Inl e, s1)
     | (Inr _, s1) \<Rightarrow> (Inr (mget (enc_records s1) (pairIdHash N pairId)), s1))"

definition enc_record :: "'x cipher_crypto_scheme \<Rightarrow> read_env \<Rightarrow> write_env \<Rightarrow> enrollment_input \<Rightarrow> enc_store \<Rightarrow>
    files \<Rightarrow> (store_error, unit) result \<times> enc_store \<times> files" where
  "enc_record N re we i s fs = (case assert_device N i of Inl e \<Rightarrow> (Inl e, s, fs)
     | Inr d \<Rightarrow> (case ensure_loaded N re fs s of (Inl e, s1) \<Rightarrow> (Inl e, s1, fs)
        | (Inr _, s1) \<Rightarrow>
          (let s2 = s1\<lparr> enc_records := mput (dev_pairIdHash d) d (enc_records s1) \<rparr>
           in case persist N we s2 fs of (r, fs') \<Rightarrow> (r, s2, fs'))))"

definition enc_revoke :: "'x cipher_crypto_scheme \<Rightarrow> read_env \<Rightarrow> write_env \<Rightarrow> string \<Rightarrow> enc_store \<Rightarrow> files \<Rightarrow>
    (store_error, bool) result \<times> enc_store \<times> files" where
  "enc_revoke N re we pairId s fs = (case ensure_loaded N re fs s of (Inl e, s1) \<Rightarrow> (Inl e, s1, fs)
     | (Inr _, s1) \<Rightarrow> (case mget (enc_records s1) (pairIdHash N pairId) of
          None \<Rightarrow> (Inr False, s1, fs)
        | Some d \<Rightarrow>
          (let s2 = s1\<lparr> enc_records := mput (pairIdHash N pairId) (d\<lparr> dev_revoked := True \<rparr>) (enc_records s1) \<rparr>
           in case persist N we s2 fs of (Inl e, fs') \<Rightarrow> (Inl e, s2, fs')
              | (Inr _, fs') \<Rightarrow> (Inr True, s2, fs'))))"

definition enc_count :: "'x cipher_crypto_scheme \<Rightarrow> read_env \<Rightarrow> enc_store \<Rightarrow> files \<Rightarrow>
    (store_error, nat) result \<times> enc_store" where
  "enc_count N re s fs = (case ensure_loaded N re fs s of (Inl e, s1) \<Rightarrow> (Inl e, s1)
     | (Inr _, s1) \<Rightarrow> (Inr (length (enc_records s1)), s1))"

section \<open>What was stored is what is parsed\<close>

definition device_ok :: "enrolled_device \<Rightarrow> bool" where
  "device_ok d \<longleftrightarrow> is_hash_text (dev_pairIdHash d) \<and> dev_signingPem d \<noteq> [] \<and> dev_encryptionPem d \<noteq> []
     \<and> 0 \<le> dev_enrolledAtMs d \<and> dev_enrolledAtMs d < 10 ^ 21
     \<and> 0 < dev_expiresAtMs d \<and> dev_expiresAtMs d < 10 ^ 21"

definition device_map_inv :: "device_map \<Rightarrow> bool" where
  "device_map_inv m \<longleftrightarrow> mkeys_distinct m \<and> (\<forall>(k, d) \<in> set m. dev_pairIdHash d = k \<and> device_ok d)"

lemma plain_jint: "\<bar>i\<bar> < 10 ^ 21 \<Longrightarrow> plain_json (jint i)"
  by (simp add: jint_def)

lemma plain_device_json: "device_ok d \<Longrightarrow> plain_json (device_json d)"
  by (simp add: device_json_def device_ok_def plain_jint)

lemma parse_device_json: "device_ok d \<Longrightarrow> parse_device (device_json d) = Inr d"
  by (cases d) (auto simp: parse_device_def device_json_def field_Cons device_ok_def)

lemma map_result_map: "(\<And>x. x \<in> set xs \<Longrightarrow> f (g x) = Inr x) \<Longrightarrow> map_result f (map g xs) = Inr xs"
  by (induction xs) auto

lemma parse_records_payload:
  assumes "device_map_inv m"
  shows "parseStoredRecords (records_payload m) = Inr (mvalues m)"
proof -
  have ok: "device_ok d" if "d \<in> set (mvalues m)" for d
    using that assms by (auto simp: device_map_inv_def)
  then have "plain_json (Obj [(''records'', Arr (map device_json (mvalues m)))])"
    using plain_device_json by (auto simp: list_all_iff)
  then have "json_parse (records_payload m) = Some (Obj [(''records'', Arr (map device_json (mvalues m)))])"
    unfolding records_payload_def by (rule json_parse_text)
  moreover have "map_result parse_device (map device_json (mvalues m)) = Inr (mvalues m)"
    using ok parse_device_json by (intro map_result_map) blast
  ultimately show ?thesis by (simp add: parseStoredRecords_def field_Cons)
qed

lemma rebuild_map:
  assumes "device_map_inv (acc @ m)"
  shows "fold (\<lambda>d. mput (dev_pairIdHash d) d) (mvalues m) acc = acc @ m"
  using assms
proof (induction m arbitrary: acc)
  case (Cons e m)
  obtain k d where e: "e = (k, d)" by (cases e)
  with Cons.prems have k: "dev_pairIdHash d = k" "k \<notin> fst ` set acc" "device_map_inv ((acc @ [e]) @ m)"
    by (auto simp: device_map_inv_def)
  then have "mput k d acc = acc @ [e]" by (simp add: update_absent e)
  with k Cons.IH [of "acc @ [e]"] show ?case by (simp add: e)
qed simp

lemma length_ENROLLMENT_MAGIC: "length ENROLLMENT_MAGIC = MAGIC_BYTES"
  by code_simp

text \<open>A store opened on the published bytes holds the records that were sealed.\<close>

definition fresh_store :: "bytes \<Rightarrow> enc_store" where
  "fresh_store key = \<lparr> enc_key = key, enc_records = [], enc_load = NotLoaded \<rparr>"

definition readable :: "read_env \<Rightarrow> bool" where
  "readable re \<longleftrightarrow> fst (ensureProtectedDirectory (read_guard re) False) = Inr () \<and> \<not> read_fails re"

lemma load_persisted:
  assumes "gcm_inverts N" "length (write_nonce we) = NONCE_BYTES" "device_map_inv (enc_records s)"
    and "fs RecordFile = Some (persist_bytes N we s)" "readable re"
  shows "load N re fs (fresh_store (enc_key s)) = Inr (enc_records s)"
  using assms rebuild_map [of "[]" "enc_records s"]
  by (simp add: load_def read_record_file_def readable_def persist_bytes_def fresh_store_def
      open_seal length_ENROLLMENT_MAGIC parse_records_payload)

section \<open>Invariants of the stores\<close>

lemma is_hash_text_sha256: "digest_32 N \<Longrightarrow> is_hash_text (sha256_hex N s)"
  using to_hex_lower_hex by (simp add: is_hash_text_def sha256_hex_def digest_32_def)

definition input_bounded :: "enrollment_input \<Rightarrow> bool" where
  "input_bounded i \<longleftrightarrow> (\<forall>t. in_enrolledAtMs i = num_of_int t \<longrightarrow> t < 10 ^ 21)
     \<and> (\<forall>t. in_expiresAtMs i = num_of_int t \<longrightarrow> t < 10 ^ 21)"

lemma assert_device_Inr: "assert_device N i = Inr d \<longleftrightarrow> in_pairId i \<noteq> []
    \<and> str_includes (in_signingPem i) ''PUBLIC KEY'' \<and> str_includes (in_encryptionPem i) ''PUBLIC KEY''
    \<and> (\<exists>t x. in_enrolledAtMs i = num_of_int t \<and> in_expiresAtMs i = num_of_int x \<and> 0 \<le> t \<and> t < x
        \<and> d = \<lparr> dev_pairIdHash = pairIdHash N (in_pairId i), dev_signingPem = in_signingPem i,
                dev_encryptionPem = in_encryptionPem i, dev_enrolledAtMs = t, dev_expiresAtMs = x,
                dev_revoked = False \<rparr>)"
  by (auto simp: assert_device_def as_int_Some_iff simp del: as_int.simps split: option.splits if_splits)

lemma assert_device_ok: "digest_32 N \<Longrightarrow> input_bounded i \<Longrightarrow> assert_device N i = Inr d \<Longrightarrow> device_ok d"
  by (auto simp: assert_device_Inr device_ok_def input_bounded_def pairIdHash_def is_hash_text_sha256
      str_includes_def)

lemma assert_device_fields: "assert_device N i = Inr d \<Longrightarrow>
    dev_pairIdHash d = pairIdHash N (in_pairId i) \<and> \<not> dev_revoked d"
  by (auto simp: assert_device_Inr)

lemma device_map_inv_put:
  "device_map_inv m \<Longrightarrow> dev_pairIdHash d = k \<Longrightarrow> device_ok d \<Longrightarrow> device_map_inv (mput k d m)"
  using set_update_subset [of k d m] by (fastforce simp: device_map_inv_def distinct_update)

lemma device_map_inv_get: "device_map_inv m \<Longrightarrow> mget m k = Some d \<Longrightarrow> dev_pairIdHash d = k \<and> device_ok d"
  by (auto simp: device_map_inv_def dest: map_of_SomeD)

lemma device_map_inv_revoke:
  "device_map_inv m \<Longrightarrow> mget m k = Some d \<Longrightarrow> device_map_inv (mput k (d\<lparr> dev_revoked := True \<rparr>) m)"
  using device_map_inv_get [of m k d] by (intro device_map_inv_put) (auto simp: device_ok_def)

lemma parse_device_ok: "parse_device v = Inr d \<Longrightarrow>
    is_hash_text (dev_pairIdHash d) \<and> dev_signingPem d \<noteq> [] \<and> dev_encryptionPem d \<noteq> []
    \<and> 0 \<le> dev_enrolledAtMs d \<and> 0 < dev_expiresAtMs d"
  by (auto simp: parse_device_def as_nonempty_string_iff split: option.splits if_splits)

section \<open>The interface the broker relies on\<close>

datatype 'c registry_op = EnrollOp 'c enrollment_input | WithdrawOp 'c string

primrec registry_step :: "('c \<Rightarrow> enrollment_input \<Rightarrow> 's \<Rightarrow> 's) \<Rightarrow> ('c \<Rightarrow> string \<Rightarrow> 's \<Rightarrow> 's) \<Rightarrow>
    'c registry_op \<Rightarrow> 's \<Rightarrow> 's" where
  "registry_step enroll withdraw (EnrollOp c i) s = enroll c i s"
| "registry_step enroll withdraw (WithdrawOp c p) s = withdraw c p s"

primrec enrolls :: "(string \<Rightarrow> string) \<Rightarrow> string \<Rightarrow> 'c registry_op \<Rightarrow> bool" where
  "enrolls hash_of p (EnrollOp c i) = (hash_of (in_pairId i) = hash_of p)"
| "enrolls hash_of p (WithdrawOp c q) = False"

locale device_registry =
  fixes find :: "string \<Rightarrow> 's \<Rightarrow> enrolled_device option"
    and enroll :: "'c \<Rightarrow> enrollment_input \<Rightarrow> 's \<Rightarrow> 's"
    and withdraw :: "'c \<Rightarrow> string \<Rightarrow> 's \<Rightarrow> 's"
    and hash_of :: "string \<Rightarrow> string"
    and accepts :: "enrollment_input \<Rightarrow> enrolled_device option"
    and ready :: "'s \<Rightarrow> bool"
  assumes ready_enroll: "ready s \<Longrightarrow> ready (enroll c i s)"
    and ready_withdraw: "ready s \<Longrightarrow> ready (withdraw c p s)"
    and find_enroll: "ready s \<Longrightarrow> find p (enroll c i s) = (case accepts i of None \<Rightarrow> find p s
      | Some d \<Rightarrow> if hash_of p = hash_of (in_pairId i) then Some d else find p s)"
    and find_withdraw: "ready s \<Longrightarrow> find p (withdraw c q s) =
      (if hash_of p = hash_of q then map_option (\<lambda>d. d\<lparr> dev_revoked := True \<rparr>) (find p s) else find p s)"
begin

abbreviation step :: "'c registry_op \<Rightarrow> 's \<Rightarrow> 's" where
  "step \<equiv> registry_step enroll withdraw"

lemma ready_step: "ready s \<Longrightarrow> ready (step c s)"
  by (cases c) (simp_all add: ready_enroll ready_withdraw)

lemma step_keeps_revoked:
  "ready s \<Longrightarrow> \<not> enrolls hash_of p c \<Longrightarrow> find p s = Some d \<Longrightarrow> dev_revoked d \<Longrightarrow>
     \<exists>d'. find p (step c s) = Some d' \<and> dev_revoked d'"
  by (cases c) (auto simp: find_enroll find_withdraw split: option.split)

lemma withdrawn_stays:
  "ready s \<Longrightarrow> list_all (\<lambda>c. \<not> enrolls hash_of p c) cs \<Longrightarrow> find p s = Some d \<Longrightarrow> dev_revoked d \<Longrightarrow>
     \<exists>d'. find p (fold step cs s) = Some d' \<and> dev_revoked d'"
proof (induction cs arbitrary: s d)
  case (Cons c cs)
  with step_keeps_revoked [of s p c d] obtain d'
    where "find p (step c s) = Some d'" "dev_revoked d'" by auto
  with Cons show ?case by (auto intro: ready_step)
qed simp

lemma withdraw_then_found:
  "ready s \<Longrightarrow> find p s \<noteq> None \<Longrightarrow> \<exists>d. find p (withdraw c p s) = Some d \<and> dev_revoked d"
  by (auto simp: find_withdraw)

end

definition mem_accepts :: "'x node_crypto_scheme \<Rightarrow> enrollment_input \<Rightarrow> enrolled_device option" where
  "mem_accepts N i = (case assert_device N i of Inl _ \<Rightarrow> None | Inr d \<Rightarrow> Some d)"

interpretation mem: device_registry "mem_find N" "\<lambda>(c :: unit) i m. snd (mem_record N i m)"
  "\<lambda>c p m. snd (mem_revoke N p m)" "pairIdHash N" "mem_accepts N" "\<lambda>m. True" for N
proof unfold_locales
  fix p q :: string and i and m :: device_map
  show "mem_find N p (snd (mem_record N i m)) = (case mem_accepts N i of None \<Rightarrow> mem_find N p m
      | Some d \<Rightarrow> if pairIdHash N p = pairIdHash N (in_pairId i) then Some d else mem_find N p m)"
    using assert_device_fields [of N i]
    by (auto simp: mem_find_def mem_record_def mem_accepts_def split: sum.splits)
  show "mem_find N p (snd (mem_revoke N q m)) = (if pairIdHash N p = pairIdHash N q
      then map_option (\<lambda>d. d\<lparr> dev_revoked := True \<rparr>) (mem_find N p m) else mem_find N p m)"
    by (auto simp: mem_find_def mem_revoke_def split: option.splits)
qed simp_all

definition live_find :: "'x cipher_crypto_scheme \<Rightarrow> string \<Rightarrow> enc_store \<times> files \<Rightarrow> enrolled_device option" where
  "live_find N p s = mget (enc_records (fst s)) (pairIdHash N p)"

definition live_enroll :: "'x cipher_crypto_scheme \<Rightarrow> read_env \<times> write_env \<Rightarrow> enrollment_input \<Rightarrow>
    enc_store \<times> files \<Rightarrow> enc_store \<times> files" where
  "live_enroll N c i s = snd (enc_record N (fst c) (snd c) i (fst s) (snd s))"

definition live_withdraw :: "'x cipher_crypto_scheme \<Rightarrow> read_env \<times> write_env \<Rightarrow> string \<Rightarrow>
    enc_store \<times> files \<Rightarrow> enc_store \<times> files" where
  "live_withdraw N c p s = snd (enc_revoke N (fst c) (snd c) p (fst s) (snd s))"

definition live_ready :: "enc_store \<times> files \<Rightarrow> bool" where
  "live_ready s \<longleftrightarrow> enc_load (fst s) = Loaded"

lemma loaded_record: "enc_load s = Loaded \<Longrightarrow> enc_record N re we i s fs =
    (case assert_device N i of Inl e \<Rightarrow> (Inl e, s, fs)
     | Inr d \<Rightarrow> (let s2 = s\<lparr> enc_records := mput (pairIdHash N (in_pairId i)) d (enc_records s) \<rparr>
         in (fst (persist N we s2 fs), s2, snd (persist N we s2 fs))))"
  using assert_device_fields [of N i]
  by (auto simp: enc_record_def ensure_loaded_def Let_def split: sum.splits prod.splits)

lemma loaded_revoke: "enc_load s = Loaded \<Longrightarrow> enc_revoke N re we p s fs =
    (case mget (enc_records s) (pairIdHash N p) of None \<Rightarrow> (Inr False, s, fs)
     | Some d \<Rightarrow> (let s2 = s\<lparr> enc_records := mput (pairIdHash N p) (d\<lparr> dev_revoked := True \<rparr>) (enc_records s) \<rparr>
         in (case fst (persist N we s2 fs) of Inl e \<Rightarrow> Inl e | Inr _ \<Rightarrow> Inr True, s2, snd (persist N we s2 fs))))"
  by (auto simp: enc_revoke_def ensure_loaded_def Let_def split: sum.splits prod.splits option.splits)

interpretation live: device_registry "live_find N" "live_enroll N" "live_withdraw N" "pairIdHash N"
  "mem_accepts N" live_ready for N
proof unfold_locales
  fix p q :: string and i and s :: "enc_store \<times> files" and c
  assume r: "live_ready s"
  then have l: "enc_load (fst s) = Loaded" by (simp add: live_ready_def)
  show "live_ready (live_enroll N c i s)" "live_ready (live_withdraw N c p s)"
    using l by (auto simp: live_ready_def live_enroll_def live_withdraw_def loaded_record loaded_revoke
        Let_def split: sum.splits option.splits)
  show "live_find N p (live_enroll N c i s) = (case mem_accepts N i of None \<Rightarrow> live_find N p s
      | Some d \<Rightarrow> if pairIdHash N p = pairIdHash N (in_pairId i) then Some d else live_find N p s)"
    using l by (auto simp: live_find_def live_enroll_def mem_accepts_def loaded_record Let_def split: sum.splits)
  show "live_find N p (live_withdraw N c q s) = (if pairIdHash N p = pairIdHash N q
      then map_option (\<lambda>d. d\<lparr> dev_revoked := True \<rparr>) (live_find N p s) else live_find N p s)"
    using l by (auto simp: live_find_def live_withdraw_def loaded_revoke Let_def split: option.splits)
qed

section \<open>Properties\<close>

lemma fresh_find:
  assumes "load N re fs (fresh_store key) = Inr m"
  shows "fst (enc_find N re p (fresh_store key) fs) = Inr (mget m (pairIdHash N p))"
  using assms by (simp add: enc_find_def ensure_loaded_def fresh_store_def)

lemma persist_then_load:
  assumes "gcm_inverts N" "length (write_nonce we) = NONCE_BYTES" "device_map_inv (enc_records s)"
    and "fst (persist N we s fs) = Inr ()" "readable re"
  shows "load N re (snd (persist N we s fs)) (fresh_store (enc_key s)) = Inr (enc_records s)"
  by (rule load_persisted [OF assms(1-3) _ assms(5)])
    (use write_ok [OF assms(4) [unfolded persist_def]] in \<open>simp add: persist_def\<close>)

text \<open>
  C20: a successful enrollment survives a restart: a new store opened with the same key on the files
  it left finds for every pairing identifier what the live store holds, in particular the enrolled
  device with the registered keys, unrevoked.
\<close>
theorem enrollment_survives_restart:
  assumes "gcm_inverts N" "digest_32 N" "input_bounded i" "device_map_inv (enc_records s)"
    and "enc_load s = Loaded" "length (write_nonce we) = NONCE_BYTES" "readable re'"
    and "enc_record N re we i s fs = (Inr (), s', fs')"
  shows "fst (enc_find N re' p (fresh_store (enc_key s)) fs') = Inr (mget (enc_records s') (pairIdHash N p))
    \<and> (\<exists>d. assert_device N i = Inr d \<and> \<not> dev_revoked d
         \<and> fst (enc_find N re' (in_pairId i) (fresh_store (enc_key s)) fs') = Inr (Some d))"
proof -
  obtain d where d: "assert_device N i = Inr d"
    and s': "s' = s\<lparr> enc_records := mput (pairIdHash N (in_pairId i)) d (enc_records s) \<rparr>"
    and p: "persist N we s' fs = (Inr (), fs')"
    using assms(5,8) by (auto simp: loaded_record Let_def prod_eq_iff split: sum.splits)
  have "device_map_inv (enc_records s')"
    using assms(4) assert_device_fields [OF d] assert_device_ok [OF assms(2,3) d]
    by (simp add: s' device_map_inv_put)
  then have "load N re' fs' (fresh_store (enc_key s)) = Inr (enc_records s')"
    using persist_then_load [of N we s' fs re'] assms(1,6,7) p by (simp add: s')
  with d show ?thesis
    using assert_device_fields [OF d] by (simp add: fresh_find s')
qed

definition ex_input :: enrollment_input where
  "ex_input = \<lparr> in_pairId = ''p'', in_signingPem = ''PUBLIC KEY'', in_encryptionPem = ''PUBLIC KEY'',
     in_enrolledAtMs = Fin 1, in_expiresAtMs = Fin 9 \<rparr>"

definition ex_write_env :: write_env where
  "ex_write_env = \<lparr> guard_env = ex_dir_env, write_nonce = replicate 12 0, tmp_suffix = [1],
     write_fault = None, rm_works = True \<rparr>"

definition ex_read_env :: read_env where
  "ex_read_env = \<lparr> read_guard = ex_dir_env, read_fails = False \<rparr>"

definition ex_enc_store :: enc_store where
  "ex_enc_store = \<lparr> enc_key = replicate 32 0, enc_records = [], enc_load = Loaded \<rparr>"

lemma toy_cipher_digest [simp]: "digest_32 toy_cipher"
  by (auto simp: digest_32_def toy_cipher_def toy_crypto_def node_crypto.defs cipher_crypto.defs min_def)

lemma ex_readable: "readable ex_read_env"
  by (simp add: readable_def ex_read_env_def ex_dir_ok)

lemma ex_accepted: "\<exists>d. assert_device N ex_input = Inr d"
  by (simp add: assert_device_def ex_input_def str_includes_def)

lemma ex_write_ok: "fst (write_record ex_write_env bs Map.empty) = Inr ()"
  by (simp add: write_record_def ex_write_env_def ex_dir_ok Let_def)

lemma ex_bounded: "input_bounded ex_input"
  by (auto simp: input_bounded_def ex_input_def)

theorem enrollment_survives_restart_witness:
  "\<exists>s' fs' d. enc_record toy_cipher ex_read_env ex_write_env ex_input ex_enc_store Map.empty = (Inr (), s', fs')
     \<and> fst (enc_find toy_cipher ex_read_env ''p'' (fresh_store (replicate 32 0)) fs') = Inr (Some d)"
proof -
  obtain d where "assert_device toy_cipher ex_input = Inr d" using ex_accepted by blast
  then obtain s' fs' where r: "enc_record toy_cipher ex_read_env ex_write_env ex_input ex_enc_store Map.empty
      = (Inr (), s', fs')"
    by (simp add: loaded_record ex_enc_store_def persist_def ex_write_ok Let_def)
  have "device_map_inv (enc_records ex_enc_store)" "enc_load ex_enc_store = Loaded"
    "length (write_nonce ex_write_env) = NONCE_BYTES" "enc_key ex_enc_store = replicate 32 0"
    by (simp_all add: device_map_inv_def ex_enc_store_def ex_write_env_def NONCE_BYTES_def)
  then obtain d' where "fst (enc_find toy_cipher ex_read_env (in_pairId ex_input) (fresh_store (replicate 32 0)) fs')
      = Inr (Some d')"
    using enrollment_survives_restart [OF toy_gcm_inverts toy_cipher_digest ex_bounded _ _ _ ex_readable r]
    by metis
  with r show ?thesis by (metis ex_input_def enrollment_input.simps(1))
qed

text \<open>
  A successful revocation survives a restart: a new store on the same files finds the device
  marked as revoked.
\<close>
theorem revocation_survives_restart:
  assumes "gcm_inverts N" "device_map_inv (enc_records s)" "enc_load s = Loaded"
    and "length (write_nonce we) = NONCE_BYTES" "readable re'"
    and "enc_revoke N re we pairId s fs = (Inr True, s', fs')"
  shows "\<exists>d. fst (enc_find N re' pairId (fresh_store (enc_key s)) fs') = Inr (Some d) \<and> dev_revoked d"
proof -
  obtain d where d: "mget (enc_records s) (pairIdHash N pairId) = Some d"
    and s': "s' = s\<lparr> enc_records := mput (pairIdHash N pairId) (d\<lparr> dev_revoked := True \<rparr>) (enc_records s) \<rparr>"
    and p: "persist N we s' fs = (Inr (), fs')"
    using assms(3,6) by (auto simp: loaded_revoke Let_def prod_eq_iff split: option.splits sum.splits)
  have "device_map_inv (enc_records s')"
    using assms(2) d by (simp add: s' device_map_inv_revoke)
  then have "load N re' fs' (fresh_store (enc_key s)) = Inr (enc_records s')"
    using persist_then_load [of N we s' fs re'] assms(1,4,5) p by (simp add: s')
  then show ?thesis by (simp add: fresh_find s')
qed

definition ex_device :: enrolled_device where
  "ex_device = \<lparr> dev_pairIdHash = pairIdHash toy_cipher ''p'', dev_signingPem = ''PUBLIC KEY'',
     dev_encryptionPem = ''PUBLIC KEY'', dev_enrolledAtMs = 1, dev_expiresAtMs = 9, dev_revoked = False \<rparr>"

definition ex_enrolled_store :: enc_store where
  "ex_enrolled_store = \<lparr> enc_key = replicate 32 0, enc_records = [(pairIdHash toy_cipher ''p'', ex_device)],
     enc_load = Loaded \<rparr>"

lemma ex_enrolled_get: "mget (enc_records ex_enrolled_store) (pairIdHash toy_cipher ''p'') = Some ex_device"
  by (simp add: ex_enrolled_store_def)

lemma ex_enrolled_inv: "device_map_inv (enc_records ex_enrolled_store)"
  using is_hash_text_sha256 [OF toy_cipher_digest]
  by (simp add: device_map_inv_def ex_enrolled_store_def device_ok_def ex_device_def pairIdHash_def)

theorem revocation_survives_restart_witness:
  "\<exists>s' fs' d. enc_revoke toy_cipher ex_read_env ex_write_env ''p'' ex_enrolled_store Map.empty = (Inr True, s', fs')
     \<and> fst (enc_find toy_cipher ex_read_env ''p'' (fresh_store (replicate 32 0)) fs') = Inr (Some d) \<and> dev_revoked d"
proof -
  have l: "enc_load ex_enrolled_store = Loaded" "enc_key ex_enrolled_store = replicate 32 0"
    "length (write_nonce ex_write_env) = NONCE_BYTES"
    by (simp_all add: ex_enrolled_store_def ex_write_env_def NONCE_BYTES_def)
  obtain s' fs' where r: "enc_revoke toy_cipher ex_read_env ex_write_env ''p'' ex_enrolled_store Map.empty
      = (Inr True, s', fs')"
    using l ex_enrolled_get by (simp add: loaded_revoke persist_def ex_write_ok Let_def)
  with revocation_survives_restart [OF toy_gcm_inverts ex_enrolled_inv l(1,3) ex_readable r] l(2)
  show ?thesis by auto
qed

text \<open>
  In the running store a revoked device stays revoked through every later sequence of operations,
  with any faults of the file system in between, until its pairing identifier is enrolled again; this
  holds even when the write of the revocation itself fails.
\<close>
theorem revoked_device_stays_revoked:
  assumes "enc_load s = Loaded" and "mget (enc_records s) (pairIdHash N p) \<noteq> None"
    and "list_all (\<lambda>c. \<not> enrolls (pairIdHash N) p c) cs"
    and "s' = fold (registry_step (live_enroll N) (live_withdraw N)) cs (snd (enc_revoke N re we p s fs))"
  shows "\<exists>d. mget (enc_records (fst s')) (pairIdHash N p) = Some d \<and> dev_revoked d"
proof -
  let ?s = "live_withdraw N (re, we) p (s, fs)"
  have ready: "live_ready (s, fs)" using assms(1) by (simp add: live_ready_def)
  have "\<exists>d. live_find N p ?s = Some d \<and> dev_revoked d"
    using live.withdraw_then_found [OF ready, of N p "(re, we)"] assms(2) by (simp add: live_find_def)
  then obtain d where "live_find N p ?s = Some d" "dev_revoked d" by blast
  from live.withdrawn_stays [OF live.ready_withdraw [OF ready] assms(3) this]
  show ?thesis by (simp add: assms(4) live_find_def live_withdraw_def)
qed

theorem revoked_device_stays_revoked_witness:
  "\<exists>d. mget (enc_records (fst (fold (registry_step (live_enroll toy_cipher) (live_withdraw toy_cipher))
       [WithdrawOp (ex_read_env, ex_write_env) ''q'']
       (snd (enc_revoke toy_cipher ex_read_env (ex_write_env\<lparr> write_fault := Some SyncFails \<rparr>) ''p''
          ex_enrolled_store Map.empty))))) (pairIdHash toy_cipher ''p'') = Some d \<and> dev_revoked d"
  by (rule revoked_device_stays_revoked [OF _ _ _ refl]) (simp_all add: ex_enrolled_store_def)

text \<open>
  Whatever step of the publication fails, and whatever was written so far, a new store reads
  either the previous records or the complete new ones, never a mixture or a partial record.
\<close>
theorem failed_write_is_atomic:
  assumes "gcm_inverts N" "length (write_nonce we) = NONCE_BYTES" "device_map_inv (enc_records s)"
    and "readable re"
  shows "load N re (snd (persist N we s fs)) (fresh_store (enc_key s)) \<in>
    {load N re fs (fresh_store (enc_key s)), Inr (enc_records s)}"
proof (cases "snd (persist N we s fs) RecordFile = fs RecordFile")
  case True
  have "load N re (snd (persist N we s fs)) (fresh_store (enc_key s)) = load N re fs (fresh_store (enc_key s))"
    unfolding load_def read_record_file_def True by (rule refl)
  then show ?thesis by simp
next
  case False
  then have "snd (persist N we s fs) RecordFile = Some (persist_bytes N we s)"
    using write_atomic [of we "persist_bytes N we s" fs] by (auto simp: persist_def)
  then show ?thesis using load_persisted [OF assms(1-3) _ assms(4)] by blast
qed

theorem failed_write_is_atomic_witness:
  "load toy_cipher ex_read_env (snd (persist toy_cipher (ex_write_env\<lparr> write_fault := Some (WriteFails 3) \<rparr>)
       ex_enrolled_store Map.empty)) (fresh_store (enc_key ex_enrolled_store))
     \<in> {load toy_cipher ex_read_env Map.empty (fresh_store (enc_key ex_enrolled_store)), Inr (enc_records ex_enrolled_store)}"
  by (rule failed_write_is_atomic) (simp_all add: ex_enrolled_inv ex_readable ex_write_env_def NONCE_BYTES_def)

text \<open>
  C31: two writes that overlap are not serialised: when an enrollment seals its snapshot, a revocation
  of another device then seals and publishes its own, and the enrollment publishes last, both report
  success and yet a restart finds the revoked device unrevoked.
\<close>
theorem overlapping_write_loses_revocation:
  assumes "gcm_inverts N" "digest_32 N" "device_map_inv (enc_records s)" "enc_load s = Loaded"
    and "mget (enc_records s) (pairIdHash N q) = Some d" "\<not> dev_revoked d"
    and "assert_device N i = Inr di" "input_bounded i" "pairIdHash N (in_pairId i) \<noteq> pairIdHash N q"
    and "length (write_nonce we1) = NONCE_BYTES" "readable re"
    and "s1 = s\<lparr> enc_records := mput (dev_pairIdHash di) di (enc_records s) \<rparr>"
    and "bytes1 = persist_bytes N we1 s1"
    and "enc_revoke N re we2 q s1 fs = (Inr True, s2, fs2)"
    and "write_record we1 bytes1 fs2 = (Inr (), fs3)"
  shows "fst (enc_find N re q (fresh_store (enc_key s)) fs3) = Inr (Some d)
    \<and> (\<exists>d'. mget (enc_records s2) (pairIdHash N q) = Some d' \<and> dev_revoked d')"
proof
  have di: "dev_pairIdHash di = pairIdHash N (in_pairId i)" using assert_device_fields [OF assms(7)] by simp
  have "device_map_inv (enc_records s1)"
    using assms(3) assert_device_ok [OF assms(2,8,7)] by (simp add: assms(12) device_map_inv_put)
  moreover have "fs3 RecordFile = Some bytes1"
    using write_ok [of we1 bytes1 fs2] assms(15) by simp
  ultimately have "load N re fs3 (fresh_store (enc_key s1)) = Inr (enc_records s1)"
    using assms(1,10,11,13) by (intro load_persisted) simp_all
  then show "fst (enc_find N re q (fresh_store (enc_key s)) fs3) = Inr (Some d)"
    using fresh_find [of N re fs3 "enc_key s" "enc_records s1" q] assms(5,9) di by (simp add: assms(12))
  have "enc_load s1 = Loaded" using assms(4,12) by simp
  then show "\<exists>d'. mget (enc_records s2) (pairIdHash N q) = Some d' \<and> dev_revoked d'"
    using assms(14) by (auto simp: loaded_revoke Let_def split: option.splits sum.splits)
qed

definition ex_other_input :: enrollment_input where
  "ex_other_input = ex_input\<lparr> in_pairId := ''q'' \<rparr>"

lemma ex_hash_neq: "pairIdHash toy_cipher ''q'' \<noteq> pairIdHash toy_cipher ''p''"
proof
  assume "pairIdHash toy_cipher ''q'' = pairIdHash toy_cipher ''p''"
  then have "sha256 toy_cipher (utf8 ''q'') = sha256 toy_cipher (utf8 ''p'')"
    unfolding pairIdHash_def sha256_hex_def by (rule to_hex_inject)
  then show False
    by (simp add: toy_cipher_def toy_crypto_def node_crypto.defs cipher_crypto.defs utf8_def utf8_char_def)
qed

theorem overlapping_write_loses_revocation_witness:
  "\<exists>di s2 fs2 fs3. assert_device toy_cipher ex_other_input = Inr di
    \<and> enc_revoke toy_cipher ex_read_env ex_write_env ''p''
        (ex_enrolled_store\<lparr> enc_records := mput (dev_pairIdHash di) di (enc_records ex_enrolled_store) \<rparr>)
        Map.empty = (Inr True, s2, fs2)
    \<and> fst (enc_find toy_cipher ex_read_env ''p'' (fresh_store (enc_key ex_enrolled_store)) fs3) = Inr (Some ex_device)"
proof -
  obtain di where di: "assert_device toy_cipher ex_other_input = Inr di"
    by (simp add: assert_device_def ex_other_input_def ex_input_def str_includes_def)
  let ?s = ex_enrolled_store
  let ?s1 = "?s\<lparr> enc_records := mput (dev_pairIdHash di) di (enc_records ?s) \<rparr>"
  let ?we = "ex_write_env\<lparr> tmp_suffix := [2] \<rparr>"
  let ?b = "persist_bytes toy_cipher ex_write_env ?s1"
  have hash: "dev_pairIdHash di = pairIdHash toy_cipher ''q''"
    using assert_device_fields [OF di] by (simp add: ex_other_input_def)
  have s: "enc_load ?s = Loaded" "mget (enc_records ?s) (pairIdHash toy_cipher ''p'') = Some ex_device"
    "\<not> dev_revoked ex_device" "length (write_nonce ex_write_env) = NONCE_BYTES"
    "pairIdHash toy_cipher (in_pairId ex_other_input) \<noteq> pairIdHash toy_cipher ''p''"
    "input_bounded ex_other_input"
    using ex_hash_neq
    by (auto simp: ex_enrolled_store_def ex_device_def ex_write_env_def NONCE_BYTES_def ex_other_input_def
        input_bounded_def ex_input_def)
  have get: "mget (enc_records ?s1) (pairIdHash toy_cipher ''p'') = Some ex_device"
    using s(2) hash ex_hash_neq by simp
  obtain s2 fs2 where r: "enc_revoke toy_cipher ex_read_env ex_write_env ''p'' ?s1 Map.empty = (Inr True, s2, fs2)"
    and fs2: "fs2 (TempFile [2]) = None"
    using s(1) get write_ok [OF ex_write_ok]
    by (simp add: loaded_revoke persist_def ex_write_ok Let_def)
  obtain fs3 where w: "write_record ?we ?b fs2 = (Inr (), fs3)"
    using fs2 by (simp add: write_record_def ex_write_env_def ex_dir_ok Let_def)
  have "length (write_nonce ?we) = NONCE_BYTES" "persist_bytes toy_cipher ?we ?s1 = ?b"
    using s(4) by (simp_all add: persist_bytes_def)
  with overlapping_write_loses_revocation [OF toy_gcm_inverts toy_cipher_digest ex_enrolled_inv s(1,2,3) di s(6,5)
      _ ex_readable refl refl r, of ?we fs3] w di r
  show ?thesis by auto
qed

text \<open>
  A record file the store accepts: magic, version 1, a 12-byte nonce, a 16-byte tag that verifies over
  the first five bytes and the ciphertext, and a payload of well-formed records.
\<close>

definition intact :: "'x cipher_crypto_scheme \<Rightarrow> bytes \<Rightarrow> bytes \<Rightarrow> bool" where
  "intact N key raw \<longleftrightarrow> 33 \<le> length raw \<and> take 4 raw = utf8 ''MBEN'' \<and> raw ! 4 = 1
     \<and> (\<exists>plain ds. gcm_decrypt N key (take 12 (drop 5 raw)) (utf8 ''MBEN'' @ [1]) (drop 33 raw) (take 16 (drop 17 raw)) = Some plain
          \<and> parseStoredRecords (utf8_decode plain) = Inr ds)"

text \<open>The error such a file is refused with otherwise: only a foreign version has an error of its own.\<close>

definition damage :: "bytes \<Rightarrow> store_error" where
  "damage raw = (if 33 \<le> length raw \<and> take 4 raw = utf8 ''MBEN'' \<and> raw ! 4 \<noteq> 1 then UnknownVersion else Corrupt)"

lemma open_enrollment: "open_record N ENROLLMENT_MAGIC key raw =
    (if 33 \<le> length raw \<and> take 4 raw = utf8 ''MBEN'' \<and> raw ! 4 = 1
     then case gcm_decrypt N key (take 12 (drop 5 raw)) (utf8 ''MBEN'' @ [1]) (drop 33 raw) (take 16 (drop 17 raw)) of
        None \<Rightarrow> Inl Corrupt | Some plain \<Rightarrow> Inr (utf8_decode plain)
     else Inl (damage raw))"
  by (simp add: open_record_def frame_offsets subarray_def authenticated_header_def ENROLLMENT_MAGIC_def FORMAT_VERSION_def
      damage_def)

lemma parse_corrupt: "parseStoredRecords t = Inl e \<Longrightarrow> e = Corrupt"
proof -
  have one: "e = Corrupt" if "parse_device v = Inl e" for v e
    using that by (auto simp: parse_device_def split: option.splits if_splits)
  have "e = Corrupt" if "map_result parse_device vs = Inl e" for vs e
    using that by (induction vs) (auto simp: bind_result_def dest: one split: sum.splits)
  then show "parseStoredRecords t = Inl e \<Longrightarrow> e = Corrupt"
    by (auto simp: parseStoredRecords_def split: option.splits jsval.splits)
qed

lemma load_decides:
  assumes "readable re" "fs RecordFile = Some raw"
  shows "is_ok (load N re fs s) \<longleftrightarrow> intact N (enc_key s) raw" "load N re fs s = Inl e \<Longrightarrow> e = damage raw"
proof -
  have l: "load N re fs s = (case open_record N ENROLLMENT_MAGIC (enc_key s) raw of Inl e \<Rightarrow> Inl e
      | Inr plaintext \<Rightarrow> (case parseStoredRecords plaintext of Inl e \<Rightarrow> Inl e
         | Inr ds \<Rightarrow> Inr (fold (\<lambda>d. mput (dev_pairIdHash d) d) ds (enc_records s))))"
    using assms by (simp add: load_def read_record_file_def readable_def)
  show "is_ok (load N re fs s) \<longleftrightarrow> intact N (enc_key s) raw"
    by (auto simp: l open_enrollment intact_def split: sum.splits option.splits)
  show "load N re fs s = Inl e \<Longrightarrow> e = damage raw"
    using parse_corrupt by (auto simp: l open_enrollment damage_def split: sum.splits option.splits if_splits)
qed

text \<open>
  C30: a damaged record file fails closed.  A process opens the file exactly when its magic, its version
  and its tag verify and its payload parses as records; with any other content its first operation
  fails with the error for an unknown version or the one for corruption and leaves the files as they
  are, and the refusal is final: every later lookup, enrollment, revocation and count fails with the same
  error whatever is on the disk by then, so a damaged file is never overwritten by a partial record set.
\<close>
theorem damaged_file_fails_closed:
  assumes "readable re" "fs RecordFile = Some raw" "enc_load s = NotLoaded"
  shows "(is_ok (fst (enc_find N re p s fs)) \<longleftrightarrow> intact N (enc_key s) raw)
    \<and> (\<not> intact N (enc_key s) raw \<longrightarrow> (\<exists>s1. s1 = s\<lparr> enc_load := LoadFailed (damage raw) \<rparr>
         \<and> enc_find N re p s fs = (Inl (damage raw), s1) \<and> enc_count N re s fs = (Inl (damage raw), s1)
         \<and> enc_revoke N re we p s fs = (Inl (damage raw), s1, fs)
         \<and> enc_record N re we i s fs = (case assert_device N i of Inl e \<Rightarrow> (Inl e, s, fs) | Inr _ \<Rightarrow> (Inl (damage raw), s1, fs))
         \<and> enc_find N re2 q s1 fs2 = (Inl (damage raw), s1) \<and> enc_count N re2 s1 fs2 = (Inl (damage raw), s1)
         \<and> enc_revoke N re2 we2 q s1 fs2 = (Inl (damage raw), s1, fs2)
         \<and> enc_record N re2 we2 j s1 fs2 = (case assert_device N j of Inl e \<Rightarrow> (Inl e, s1, fs2) | Inr _ \<Rightarrow> (Inl (damage raw), s1, fs2))))"
proof (cases "load N re fs s")
  case (Inl e)
  with load_decides(1) [of re fs raw N s] load_decides(2) [of re fs raw N s e] assms(1,2) have d: "e = damage raw" "\<not> intact N (enc_key s) raw" by auto
  with Inl assms(3) show ?thesis
    by (simp add: enc_find_def enc_record_def enc_revoke_def enc_count_def ensure_loaded_def split: sum.split)
next
  case (Inr m)
  with load_decides(1) [of re fs raw N s] assms(1,2) have "intact N (enc_key s) raw" by simp
  with Inr assms(3) show ?thesis by (simp add: enc_find_def ensure_loaded_def)
qed

text \<open>A file of the next version, and one whose tag does not verify.\<close>

definition ex_damaged :: "byte \<Rightarrow> bytes" where
  "ex_damaged v = ENROLLMENT_MAGIC @ [v] @ replicate 28 0"

definition ex_damaged_files :: "byte \<Rightarrow> files" where
  "ex_damaged_files v = [RecordFile \<mapsto> ex_damaged v]"

theorem damaged_file_fails_closed_witness:
  "fst (enc_find toy_cipher ex_read_env ''p'' (fresh_store (replicate 32 0)) (ex_damaged_files 2)) = Inl UnknownVersion
   \<and> enc_revoke toy_cipher ex_read_env ex_write_env ''p'' (fresh_store (replicate 32 0)) (ex_damaged_files 1)
     = (Inl Corrupt, (fresh_store (replicate 32 0))\<lparr> enc_load := LoadFailed Corrupt \<rparr>, ex_damaged_files 1)"
proof -
  let ?s = "fresh_store (replicate 32 0)"
  have raw: "damage (ex_damaged 2) = UnknownVersion" "damage (ex_damaged 1) = Corrupt" "ex_damaged 2 ! 4 = 2"
    "gcm_decrypt toy_cipher (replicate 32 0) (take 12 (drop 5 (ex_damaged 1))) (utf8 ''MBEN'' @ [1]) (drop 33 (ex_damaged 1))
       (take 16 (drop 17 (ex_damaged 1))) = None"
    by code_simp+
  have bad: "\<not> intact toy_cipher (enc_key ?s) (ex_damaged v)" if "v \<in> {1, 2}" for v
    using that raw by (auto simp: intact_def fresh_store_def)
  have f: "ex_damaged_files v RecordFile = Some (ex_damaged v)" "enc_load ?s = NotLoaded" for v
    by (simp_all add: ex_damaged_files_def fresh_store_def)
  from damaged_file_fails_closed [of ex_read_env "ex_damaged_files 2" "ex_damaged 2" ?s toy_cipher "''p''" ex_write_env]
    damaged_file_fails_closed [of ex_read_env "ex_damaged_files 1" "ex_damaged 1" ?s toy_cipher "''p''" ex_write_env]
    ex_readable f bad [of 1] bad [of 2] raw(1,2)
  show ?thesis by simp
qed

end
