(* ===== verification/RefreshTokens.thy ===== *)
theory RefreshTokens
  imports SealedFile EnrollmentRecords
begin

text \<open>
  \<^verbatim>\<open>broker/src/refresh-token-store.ts\<close>: protected storage of the broker's single Google refresh
  token, over the framing and publication of \<^theory_text>\<open>SealedFile\<close>, and the interface \<open>token_store\<close> its
  clients use.
\<close>

section \<open>Data and operations\<close>

record stored_token =
  tok_refreshToken :: string
  tok_scope :: string
  tok_obtainedAtMs :: int

record token_input =
  in_refreshToken :: string
  in_scope :: string
  in_obtainedAtMs :: number

definition TOKEN_MAGIC :: bytes where "TOKEN_MAGIC = utf8 ''MBRT''"

definition deriveRefreshTokenStoreKey :: "'x cipher_crypto_scheme \<Rightarrow> bytes \<Rightarrow> (store_error, bytes) result" where
  "deriveRefreshTokenStoreKey N masterKey = derive_store_key N ''gdrive-stream-refresh-token-v1'' masterKey"

definition assert_token :: "token_input \<Rightarrow> (store_error, stored_token) result" where
  "assert_token i =
    (if in_refreshToken i = [] then Inl InvalidInput
     else if in_scope i = [] then Inl InvalidInput
     else case as_int (in_obtainedAtMs i) of None \<Rightarrow> Inl InvalidInput
     | Some t \<Rightarrow> if t < 0 then Inl InvalidInput
       else Inr \<lparr> tok_refreshToken = in_refreshToken i, tok_scope = in_scope i, tok_obtainedAtMs = t \<rparr>)"

definition token_json :: "stored_token \<Rightarrow> jsval" where
  "token_json k = Obj [(''refreshToken'', Str (tok_refreshToken k)), (''scope'', Str (tok_scope k)),
     (''obtainedAtMs'', jint (tok_obtainedAtMs k))]"

definition parseStoredToken :: "string \<Rightarrow> (store_error, stored_token) result" where
  "parseStoredToken plaintext = (case json_parse plaintext of None \<Rightarrow> Inl Corrupt
     | Some v \<Rightarrow> (case object_or_array v of None \<Rightarrow> Inl Corrupt
        | Some r \<Rightarrow> (case (as_nonempty_string (field r ''refreshToken''), as_nonempty_string (field r ''scope''),
              as_integer (field r ''obtainedAtMs'')) of
            (Some k, Some sc, Some t) \<Rightarrow> if t < 0 then Inl Corrupt
              else Inr \<lparr> tok_refreshToken = k, tok_scope = sc, tok_obtainedAtMs = t \<rparr>
          | _ \<Rightarrow> Inl Corrupt)))"

text \<open>The store is its key; its state is the record file.\<close>

definition new_token_store :: "string \<Rightarrow> bytes \<Rightarrow> (store_error, bytes) result" where
  "new_token_store filePath key =
    (if filePath = [] then Inl InvalidInput else if length key \<noteq> KEY_BYTES then Inl InvalidKey else Inr key)"

definition read_token :: "'x cipher_crypto_scheme \<Rightarrow> bytes \<Rightarrow> read_env \<Rightarrow> files \<Rightarrow>
    (store_error, stored_token option) result" where
  "read_token N key re fs = (case read_record_file re fs of Inl e \<Rightarrow> Inl e
     | Inr None \<Rightarrow> Inr None
     | Inr (Some raw) \<Rightarrow> (case open_record N TOKEN_MAGIC key raw of Inl e \<Rightarrow> Inl e
        | Inr plaintext \<Rightarrow> (case parseStoredToken plaintext of Inl e \<Rightarrow> Inl e | Inr k \<Rightarrow> Inr (Some k))))"

definition replace_token :: "'x cipher_crypto_scheme \<Rightarrow> bytes \<Rightarrow> write_env \<Rightarrow> token_input \<Rightarrow> files \<Rightarrow>
    (store_error, unit) result \<times> files" where
  "replace_token N key we i fs = (case assert_token i of Inl e \<Rightarrow> (Inl e, fs)
     | Inr k \<Rightarrow> write_record we (seal_record N TOKEN_MAGIC key (write_nonce we) (json_text (token_json k))) fs)"

text \<open>\<^verbatim>\<open>rm(filePath, { force: true })\<close>; the flag says whether the call succeeds.\<close>

definition clear_token :: "bool \<Rightarrow> files \<Rightarrow> (store_error, unit) result \<times> files" where
  "clear_token works fs = (if works then (Inr (), fs(RecordFile := None)) else (Inl StoreIoError, fs))"

section \<open>The interface\<close>

datatype ('e, 'i) token_op = ReplaceOp 'e 'i | ClearOp bool

primrec token_step :: "('e \<Rightarrow> 'i \<Rightarrow> 's \<Rightarrow> ('err, unit) result \<times> 's) \<Rightarrow>
    (bool \<Rightarrow> 's \<Rightarrow> ('err, unit) result \<times> 's) \<Rightarrow> ('e, 'i) token_op \<Rightarrow> 's \<Rightarrow> 's" where
  "token_step replace clear (ReplaceOp e i) s = snd (replace e i s)"
| "token_step replace clear (ClearOp w) s = snd (clear w s)"

primrec written :: "('i \<Rightarrow> 'k option) \<Rightarrow> ('e, 'i) token_op list \<Rightarrow> 'k set" where
  "written accepts [] = {}"
| "written accepts (c # cs) = (case c of ReplaceOp e i \<Rightarrow> set_option (accepts i) | ClearOp w \<Rightarrow> {})
     \<union> written accepts cs"

locale token_store =
  fixes read :: "'s \<Rightarrow> ('err, 'k option) result"
    and replace :: "'e \<Rightarrow> 'i \<Rightarrow> 's \<Rightarrow> ('err, unit) result \<times> 's"
    and clear :: "bool \<Rightarrow> 's \<Rightarrow> ('err, unit) result \<times> 's"
    and accepts :: "'i \<Rightarrow> 'k option"
    and fits :: "'e \<Rightarrow> 'i \<Rightarrow> bool"
    and ready :: "'s \<Rightarrow> bool"
  assumes ready_replace: "ready s \<Longrightarrow> ready (snd (replace e i s))"
    and ready_clear: "ready s \<Longrightarrow> ready (snd (clear w s))"
    and replace_ok: "ready s \<Longrightarrow> fits e i \<Longrightarrow> fst (replace e i s) = Inr () \<Longrightarrow>
      \<exists>k. accepts i = Some k \<and> read (snd (replace e i s)) = Inr (Some k)"
    and replace_any: "ready s \<Longrightarrow> fits e i \<Longrightarrow> read (snd (replace e i s)) = read s
      \<or> (\<exists>k. accepts i = Some k \<and> read (snd (replace e i s)) = Inr (Some k))"
    and clear_ok: "ready s \<Longrightarrow> fst (clear w s) = Inr () \<Longrightarrow> read (snd (clear w s)) = Inr None"
    and clear_failed: "fst (clear w s) \<noteq> Inr () \<Longrightarrow> snd (clear w s) = s"
begin

text \<open>A read after a run yields nothing, what was there before, or a token the run has written.\<close>

lemma read_run:
  assumes "ready s" "\<And>e i. ReplaceOp e i \<in> set cs \<Longrightarrow> fits e i"
  shows "read (fold (token_step replace clear) cs s) \<in>
    {read s, Inr None} \<union> (\<lambda>k. Inr (Some k)) ` written accepts cs"
  using assms
proof (induction cs arbitrary: s)
  case (Cons c cs)
  let ?s = "token_step replace clear c s"
  have "read ?s \<in> {read s, Inr None} \<union> (\<lambda>k. Inr (Some k)) ` written accepts [c] \<and> ready ?s"
  proof (cases c)
    case (ReplaceOp e i)
    with Cons.prems replace_any [of s e i] ready_replace [of s e i] show ?thesis by auto
  next
    case (ClearOp w)
    with Cons.prems show ?thesis
      using clear_ok [of s w] clear_failed [of w s] ready_clear [of s w] by (cases "fst (clear w s)") auto
  qed
  moreover from this have "read (fold (token_step replace clear) cs ?s) \<in>
      {read ?s, Inr None} \<union> (\<lambda>k. Inr (Some k)) ` written accepts cs"
    using Cons.prems by (intro Cons.IH) auto
  ultimately show ?case by auto
qed simp

end

section \<open>The encrypted store provides it\<close>

definition token_bounded :: "token_input \<Rightarrow> bool" where
  "token_bounded i \<longleftrightarrow> (\<forall>t. in_obtainedAtMs i = num_of_int t \<longrightarrow> t < 10 ^ 21)"

lemma length_TOKEN_MAGIC: "length TOKEN_MAGIC = MAGIC_BYTES"
  by code_simp

lemma assert_token_Inr: "assert_token i = Inr k \<longleftrightarrow> in_refreshToken i \<noteq> [] \<and> in_scope i \<noteq> []
    \<and> (\<exists>t \<ge> 0. in_obtainedAtMs i = num_of_int t \<and> k = \<lparr> tok_refreshToken = in_refreshToken i,
          tok_scope = in_scope i, tok_obtainedAtMs = t \<rparr>)"
  by (auto simp: assert_token_def as_int_Some_iff simp del: as_int.simps split: option.splits if_splits)

lemma parse_token_json:
  assumes "assert_token i = Inr k" "token_bounded i"
  shows "parseStoredToken (json_text (token_json k)) = Inr k"
proof -
  have k: "tok_refreshToken k \<noteq> []" "tok_scope k \<noteq> []" "0 \<le> tok_obtainedAtMs k" "tok_obtainedAtMs k < 10 ^ 21"
    using assms by (auto simp: assert_token_Inr token_bounded_def)
  then have "json_parse (json_text (token_json k)) = Some (token_json k)"
    by (intro json_parse_text) (simp add: token_json_def plain_jint)
  with k show ?thesis by (simp add: parseStoredToken_def) (simp add: token_json_def field_Cons)
qed

lemma read_sealed:
  assumes "gcm_inverts N" "length (write_nonce we) = NONCE_BYTES" "assert_token i = Inr k" "token_bounded i"
    and "readable re" "fs RecordFile = Some (seal_record N TOKEN_MAGIC key (write_nonce we) (json_text (token_json k)))"
  shows "read_token N key re fs = Inr (Some k)"
  using assms
  by (simp add: read_token_def read_record_file_def readable_def open_seal length_TOKEN_MAGIC parse_token_json)

definition accepted_token :: "token_input \<Rightarrow> stored_token option" where
  "accepted_token i = (case assert_token i of Inl _ \<Rightarrow> None | Inr k \<Rightarrow> Some k)"

text \<open>
  The state as the interface sees it: the platform, what reads meet, and the files.  It is ready when
  the platform's cipher inverts and reads do not fail.
\<close>

type_synonym 'x token_state = "'x cipher_crypto_scheme \<times> read_env \<times> files"

definition token_ready :: "'x token_state \<Rightarrow> bool" where
  "token_ready s \<longleftrightarrow> gcm_inverts (fst s) \<and> readable (fst (snd s))"

definition token_fits :: "write_env \<Rightarrow> token_input \<Rightarrow> bool" where
  "token_fits we i \<longleftrightarrow> length (write_nonce we) = NONCE_BYTES \<and> token_bounded i"

definition state_read :: "bytes \<Rightarrow> 'x token_state \<Rightarrow> (store_error, stored_token option) result" where
  "state_read key s = (case s of (N, re, fs) \<Rightarrow> read_token N key re fs)"

definition state_replace :: "bytes \<Rightarrow> write_env \<Rightarrow> token_input \<Rightarrow> 'x token_state \<Rightarrow>
    (store_error, unit) result \<times> 'x token_state" where
  "state_replace key we i s = (case s of (N, re, fs) \<Rightarrow>
     (case replace_token N key we i fs of (r, fs') \<Rightarrow> (r, (N, re, fs'))))"

definition state_clear :: "bool \<Rightarrow> 'x token_state \<Rightarrow> (store_error, unit) result \<times> 'x token_state" where
  "state_clear w s = (case s of (N, re, fs) \<Rightarrow> (case clear_token w fs of (r, fs') \<Rightarrow> (r, (N, re, fs'))))"

lemma replace_token_file:
  fixes N :: "'x cipher_crypto_scheme" and key and we :: write_env
  assumes "assert_token i = Inr k"
  defines "b \<equiv> seal_record N TOKEN_MAGIC key (write_nonce we) (json_text (token_json k))"
  shows "snd (replace_token N key we i fs) RecordFile \<in> {fs RecordFile, Some b}"
    and "fst (replace_token N key we i fs) = Inr () \<Longrightarrow> snd (replace_token N key we i fs) RecordFile = Some b"
  using write_atomic [of we b fs] write_ok [of we b fs] assms(1) by (auto simp: replace_token_def b_def)

lemma read_token_cong: "fs RecordFile = fs' RecordFile \<Longrightarrow> read_token N key re fs = read_token N key re fs'"
  by (simp only: read_token_def read_record_file_def)

interpretation tokens: token_store "state_read key" "state_replace key" state_clear accepted_token
  token_fits token_ready for key
proof unfold_locales
  fix s :: "'a token_state" and we i w
  obtain N re fs where s: "s = (N, re, fs)" by (cases s)
  let ?fs = "snd (replace_token N key we i fs)"
  show "token_ready s \<Longrightarrow> token_ready (snd (state_replace key we i s))"
    "token_ready s \<Longrightarrow> token_ready (snd (state_clear w s))"
    by (simp_all add: s token_ready_def state_replace_def state_clear_def split: prod.splits)
  have new: "read_token N key re ?fs = Inr (Some k)"
    if "token_ready s" "token_fits we i" "assert_token i = Inr k"
      "?fs RecordFile = Some (seal_record N TOKEN_MAGIC key (write_nonce we) (json_text (token_json k)))" for k
    using that by (intro read_sealed [of N we i k]) (simp_all add: s token_ready_def token_fits_def)
  have st: "state_read key (snd (state_replace key we i s)) = read_token N key re ?fs"
    "state_read key s = read_token N key re fs" "fst (state_replace key we i s) = fst (replace_token N key we i fs)"
    by (simp_all add: s state_read_def state_replace_def split: prod.splits)
  assume "token_ready s"
  note ready = this
  show "fst (state_clear w s) = Inr () \<Longrightarrow> state_read key (snd (state_clear w s)) = Inr None"
    using ready by (auto simp: s state_clear_def clear_token_def state_read_def read_token_def
        read_record_file_def token_ready_def readable_def split: if_splits)
  assume fits: "token_fits we i"
  show "state_read key (snd (state_replace key we i s)) = state_read key s
    \<or> (\<exists>k. accepted_token i = Some k \<and> state_read key (snd (state_replace key we i s)) = Inr (Some k))"
  proof (cases "assert_token i")
    case (Inr k)
    from replace_token_file(1) [OF Inr, of N key we fs] show ?thesis
      using new [OF ready fits Inr] Inr read_token_cong [of ?fs fs N key re]
      by (auto simp: st accepted_token_def)
  qed (simp add: st replace_token_def)
  assume ok: "fst (state_replace key we i s) = Inr ()"
  show "\<exists>k. accepted_token i = Some k \<and> state_read key (snd (state_replace key we i s)) = Inr (Some k)"
  proof (cases "assert_token i")
    case (Inr k)
    with new [OF ready fits Inr] replace_token_file(2) [OF Inr, of N key we fs] ok show ?thesis
      by (simp add: st accepted_token_def)
  qed (use ok in \<open>simp add: st replace_token_def\<close>)
next
  fix s :: "'a token_state" and w
  show "fst (state_clear w s) \<noteq> Inr () \<Longrightarrow> snd (state_clear w s) = s"
    by (auto simp: state_clear_def clear_token_def split: prod.splits if_splits)
qed

section \<open>Properties\<close>

text \<open>
  A token that was stored successfully is read back exactly, with the scope and time it was
  stored with, by any reader with the same key.
\<close>
theorem token_roundtrip:
  assumes "gcm_inverts N" "length (write_nonce we) = NONCE_BYTES" "token_bounded i" "readable re"
    and "replace_token N key we i fs = (Inr (), fs')"
  shows "\<exists>t. in_obtainedAtMs i = num_of_int t \<and> read_token N key re fs' =
    Inr (Some \<lparr> tok_refreshToken = in_refreshToken i, tok_scope = in_scope i, tok_obtainedAtMs = t \<rparr>)"
proof -
  have "\<exists>k. accepted_token i = Some k \<and> state_read key (snd (state_replace key we i (N, re, fs))) = Inr (Some k)"
    using assms by (intro tokens.replace_ok) (simp_all add: token_ready_def token_fits_def state_replace_def)
  then show ?thesis
    using assms(5) by (auto simp: state_replace_def state_read_def accepted_token_def assert_token_Inr
        split: sum.splits)
qed

definition ex_token_input :: token_input where
  "ex_token_input = \<lparr> in_refreshToken = ''r'', in_scope = ''s'', in_obtainedAtMs = Fin 5 \<rparr>"

lemma ex_token_fits: "token_fits ex_write_env ex_token_input"
  by (auto simp: token_fits_def token_bounded_def ex_token_input_def ex_write_env_def NONCE_BYTES_def)

lemma ex_replace: "fst (replace_token N key ex_write_env ex_token_input Map.empty) = Inr ()"
  by (simp add: replace_token_def assert_token_def ex_token_input_def ex_write_ok)

theorem token_roundtrip_witness:
  "\<exists>t. read_token toy_cipher [] ex_read_env (snd (replace_token toy_cipher [] ex_write_env ex_token_input Map.empty))
     = Inr (Some \<lparr> tok_refreshToken = ''r'', tok_scope = ''s'', tok_obtainedAtMs = t \<rparr>)"
proof -
  have "replace_token toy_cipher [] ex_write_env ex_token_input Map.empty =
      (Inr (), snd (replace_token toy_cipher [] ex_write_env ex_token_input Map.empty))"
    using ex_replace by (metis prod.collapse)
  from token_roundtrip [OF toy_gcm_inverts _ _ ex_readable this] ex_token_fits show ?thesis
    by (auto simp: token_fits_def ex_token_input_def)
qed

text \<open>
  C27: after any sequence of writes and removals, with any faults in between, a read yields what was
  readable at the start, nothing, or a token that some write of the sequence supplied; a failed or
  interrupted write never surfaces as a damaged or foreign token.
\<close>
theorem token_reads_only_written:
  assumes "gcm_inverts N" "readable re" "\<And>we i. ReplaceOp we i \<in> set cs \<Longrightarrow> token_fits we i"
  shows "read_token N key re (fold (token_step (replace_token N key) clear_token) cs fs) \<in>
    {read_token N key re fs, Inr None} \<union> (\<lambda>k. Inr (Some k)) ` written accepted_token cs"
proof -
  have lift: "fold (token_step (state_replace key) state_clear) cs (N, re, fs) =
      (N, re, fold (token_step (replace_token N key) clear_token) cs fs)" for fs
  proof (induction cs arbitrary: fs)
    case (Cons c cs)
    then show ?case
      by (cases c) (simp_all add: state_replace_def state_clear_def split: prod.splits)
  qed simp
  have "token_ready (N, re, fs)" using assms(1,2) by (simp add: token_ready_def)
  from tokens.read_run [OF this assms(3), of cs key] show ?thesis
    by (simp add: lift state_read_def)
qed

theorem token_reads_only_written_witness:
  "read_token toy_cipher [] ex_read_env
     (fold (token_step (replace_token toy_cipher []) clear_token) [ReplaceOp ex_write_env ex_token_input, ClearOp False]
        Map.empty)
   \<in> {read_token toy_cipher [] ex_read_env Map.empty, Inr None}
     \<union> (\<lambda>k. Inr (Some k)) ` written accepted_token [ReplaceOp ex_write_env ex_token_input, ClearOp False]"
  by (rule token_reads_only_written) (auto simp: ex_readable ex_token_fits)

end
