(* ===== verification/LeaseSealer.thy ===== *)
theory LeaseSealer
  imports SealedFile
begin

text \<open>
  \<^verbatim>\<open>broker/src/lease-sealer.ts\<close> and \<^verbatim>\<open>src/auth/device-identity.ts\<close>: the lease the broker seals to a
  device's X25519 key and the device opens, with the device's key export and signing.  X25519, Ed25519,
  HKDF and ChaCha20-Poly1305 are the two platforms' (\<^verbatim>\<open>node:crypto\<close> in the broker, the noble libraries
  in the plugin); both implement the same standards, so one record of functions stands for both.
\<close>

section \<open>Platform functions\<close>

record lease_crypto = cipher_crypto +
  x25519_public :: "bytes \<Rightarrow> bytes"
  x25519_shared :: "bytes \<Rightarrow> bytes \<Rightarrow> bytes"
  ed25519_public :: "bytes \<Rightarrow> bytes"
  ed25519_sign :: "bytes \<Rightarrow> bytes \<Rightarrow> bytes"
  chacha_encrypt :: "bytes \<Rightarrow> bytes \<Rightarrow> bytes \<Rightarrow> bytes \<Rightarrow> bytes \<times> bytes"
  chacha_decrypt :: "bytes \<Rightarrow> bytes \<Rightarrow> bytes \<Rightarrow> bytes \<Rightarrow> bytes \<Rightarrow> bytes option"
  createPrivateKey :: "string \<Rightarrow> (key_type \<times> bytes) option"

text \<open>
  What sealing relies on: Diffie-Hellman commutes, public keys have 32 bytes, and authenticated
  decryption inverts encryption with a 16-byte tag.
\<close>

definition dh_commutes :: "('x) lease_crypto_scheme \<Rightarrow> bool" where
  "dh_commutes N \<longleftrightarrow> (\<forall>a b. x25519_shared N a (x25519_public N b) = x25519_shared N b (x25519_public N a))
     \<and> (\<forall>a. length (x25519_public N a) = 32)"

definition chacha_inverts :: "('x) lease_crypto_scheme \<Rightarrow> bool" where
  "chacha_inverts N \<longleftrightarrow> (\<forall>k n a p. case chacha_encrypt N k n a p of (c, t) \<Rightarrow>
     length t = 16 \<and> chacha_decrypt N k n a c t = Some p)"

text \<open>Node's lenient base64url decoder reads back what an encoder produced.\<close>

definition node_base64 :: "('x) node_crypto_scheme \<Rightarrow> bool" where
  "node_base64 N \<longleftrightarrow> (\<forall>bs. buffer_from_base64url N (toBase64Url bs) = bs)"

section \<open>Sealing in the broker\<close>

definition HKDF_INFO :: bytes where "HKDF_INFO = utf8 ''gdrive-stream-lease-v1''"
definition AAD :: bytes where "AAD = utf8 ''gdrive-stream-lease-v1''"
definition SALT_BYTES :: nat where "SALT_BYTES = 32"
definition LEASE_NONCE_BYTES :: nat where "LEASE_NONCE_BYTES = 12"
definition LEASE_KEY_BYTES :: nat where "LEASE_KEY_BYTES = 32"
definition LEASE_TAG_BYTES :: nat where "LEASE_TAG_BYTES = 16"
definition X25519_RAW_BYTES :: nat where "X25519_RAW_BYTES = 32"

definition X25519_SPKI_PREFIX :: bytes where
  "X25519_SPKI_PREFIX = [0x30, 0x2a, 0x30, 0x05, 0x06, 0x03, 0x2b, 0x65, 0x6e, 0x03, 0x21, 0x00]"

record sealed_lease =
  lease_v :: int
  lease_epk :: string
  lease_salt :: string
  lease_nonce :: string
  lease_ct :: string

datatype sealer_error = SealInvalidKey | InvalidEnvelope | SealCorrupt | EnvelopeNotJson

definition device_public_key :: "'x node_crypto_scheme \<Rightarrow> string \<Rightarrow> (sealer_error, key_object) result" where
  "device_public_key N pem = (if pem = [] then Inl SealInvalidKey
     else case createPublicKey N pem of None \<Rightarrow> Inl SealInvalidKey
     | Some k \<Rightarrow> if asymmetricKeyType k \<noteq> X25519 then Inl SealInvalidKey else Inr k)"

text \<open>The last 32 bytes of the DER form.\<close>

definition raw_public_key :: "bytes \<Rightarrow> bytes" where
  "raw_public_key der = drop (length der - X25519_RAW_BYTES) der"

definition public_key_der :: "bytes \<Rightarrow> bytes" where
  "public_key_der raw = X25519_SPKI_PREFIX @ raw"

definition derive_key :: "'x cipher_crypto_scheme \<Rightarrow> bytes \<Rightarrow> bytes \<Rightarrow> bytes" where
  "derive_key N shared salt = hkdf_sha256 N shared salt HKDF_INFO LEASE_KEY_BYTES"

text \<open>The ephemeral private key and the two random draws are arguments.\<close>

definition sealLease :: "'x lease_crypto_scheme \<Rightarrow> bytes \<Rightarrow> bytes \<Rightarrow> bytes \<Rightarrow> jsval \<Rightarrow> string \<Rightarrow>
    (sealer_error, sealed_lease) result" where
  "sealLease N ephemeral salt nonce payload pem =
    (case device_public_key N pem of Inl e \<Rightarrow> Inl e
     | Inr recipient \<Rightarrow>
        (let shared = x25519_shared N ephemeral (raw_public_key (key_spki recipient));
             key = derive_key N shared salt
         in case chacha_encrypt N key nonce AAD (utf8 (json_text payload)) of (ciphertext, tag) \<Rightarrow>
           Inr \<lparr> lease_v = 1,
                 lease_epk = toBase64Url (raw_public_key (public_key_der (x25519_public N ephemeral))),
                 lease_salt = toBase64Url salt, lease_nonce = toBase64Url nonce,
                 lease_ct = toBase64Url (ciphertext @ tag) \<rparr>))"

definition lease_json :: "sealed_lease \<Rightarrow> jsval" where
  "lease_json l = Obj [(''v'', jint (lease_v l)), (''epk'', Str (lease_epk l)), (''salt'', Str (lease_salt l)),
     (''nonce'', Str (lease_nonce l)), (''ct'', Str (lease_ct l))]"

definition decode_field :: "'x node_crypto_scheme \<Rightarrow> jsval \<Rightarrow> nat \<Rightarrow> (sealer_error, bytes) result" where
  "decode_field N v expected = (case as_string v of None \<Rightarrow> Inl InvalidEnvelope
     | Some s \<Rightarrow> (let bs = buffer_from_base64url N s
        in if length bs \<noteq> expected then Inl InvalidEnvelope else Inr bs))"

text \<open>\<^verbatim>\<open>unsealLease\<close> of the broker module; \<open>None\<close> of \<open>createPrivateKey\<close> is a throw of the platform.\<close>

definition broker_unseal :: "'x lease_crypto_scheme \<Rightarrow> jsval \<Rightarrow> string \<Rightarrow> (sealer_error, jsval) result" where
  "broker_unseal N envelope privatePem =
    bind_result (case envelope of Str s \<Rightarrow> (case json_parse s of None \<Rightarrow> Inl EnvelopeNotJson | Some v \<Rightarrow> Inr v)
      | _ \<Rightarrow> Inr envelope) (\<lambda>v.
    case object_or_array v of None \<Rightarrow> Inl InvalidEnvelope
    | Some r \<Rightarrow> if field r ''v'' \<noteq> jint 1 then Inl InvalidEnvelope
      else case createPrivateKey N privatePem of None \<Rightarrow> Inl SealInvalidKey
      | Some (kt, private) \<Rightarrow> if kt \<noteq> X25519 then Inl SealInvalidKey
        else bind_result (decode_field N (field r ''salt'') SALT_BYTES) (\<lambda>salt.
          bind_result (decode_field N (field r ''nonce'') LEASE_NONCE_BYTES) (\<lambda>nonce.
          bind_result (decode_field N (field r ''epk'') X25519_RAW_BYTES) (\<lambda>raw.
          case as_string (field r ''ct'') of None \<Rightarrow> Inl InvalidEnvelope
          | Some ct \<Rightarrow>
            (let sealed = buffer_from_base64url N ct
             in if length sealed < LEASE_TAG_BYTES then Inl InvalidEnvelope
                else let shared = x25519_shared N private (raw_public_key (public_key_der raw));
                         key = derive_key N shared salt;
                         tag = drop (length sealed - LEASE_TAG_BYTES) sealed;
                         ciphertext = take (length sealed - LEASE_TAG_BYTES) sealed
                     in case chacha_decrypt N key nonce AAD ciphertext tag of None \<Rightarrow> Inl SealCorrupt
                        | Some plain \<Rightarrow> (case json_parse (utf8_decode plain) of None \<Rightarrow> Inl SealCorrupt
                           | Some w \<Rightarrow> Inr w))))))"

section \<open>The device\<close>

definition LEASE_INFO :: string where "LEASE_INFO = ''gdrive-stream-lease-v1''"

definition ED25519_SPKI_PREFIX :: bytes where
  "ED25519_SPKI_PREFIX = [0x30, 0x2a, 0x30, 0x05, 0x06, 0x03, 0x2b, 0x65, 0x70, 0x03, 0x21, 0x00]"

definition CHACHA_NONCE_BYTES :: nat where "CHACHA_NONCE_BYTES = 12"
definition X25519_KEY_BYTES :: nat where "X25519_KEY_BYTES = 32"

record device_identity =
  ed25519PrivateKey :: bytes
  ed25519PublicKey :: bytes
  x25519PrivateKey :: bytes
  x25519PublicKey :: bytes

record lease_payload =
  pay_accessToken :: string
  pay_expiresAtMs :: rat
  pay_scope :: string
  pay_allowedRootName :: string

datatype device_error =
    KeyCodecInvalid | StoredKeyInvalid | PublicKeyLength | EnvelopeMissing | EnvelopeVersion
  | EnvelopeField | UnsealFailed | PayloadNotJson | PayloadInvalid | RecipientKeyLength

text \<open>Fresh keys are drawn by the platform; the two private keys are arguments.\<close>

definition generateDeviceIdentity :: "'x lease_crypto_scheme \<Rightarrow> bytes \<Rightarrow> bytes \<Rightarrow> device_identity" where
  "generateDeviceIdentity N signing encryption = \<lparr> ed25519PrivateKey = signing,
     ed25519PublicKey = ed25519_public N signing, x25519PrivateKey = encryption,
     x25519PublicKey = x25519_public N encryption \<rparr>"

definition restoreDeviceIdentity :: "'x lease_crypto_scheme \<Rightarrow> string \<Rightarrow> string \<Rightarrow>
    (device_error, device_identity) result" where
  "restoreDeviceIdentity N ed x = (case fromBase64Url ed of Inl _ \<Rightarrow> Inl KeyCodecInvalid
     | Inr edk \<Rightarrow> (case fromBase64Url x of Inl _ \<Rightarrow> Inl KeyCodecInvalid
        | Inr xk \<Rightarrow> if length edk \<noteq> 32 \<or> length xk \<noteq> 32 then Inl StoredKeyInvalid
            else Inr (generateDeviceIdentity N edk xk)))"

definition serializeDeviceIdentity :: "device_identity \<Rightarrow> string \<times> string" where
  "serializeDeviceIdentity d = (toBase64Url (ed25519PrivateKey d), toBase64Url (x25519PrivateKey d))"

text \<open>\<^verbatim>\<open>pemWrap\<close>: the standard alphabet with padding, in lines of 64.\<close>

function pem_lines :: "string \<Rightarrow> string list" where
  "pem_lines s = (if s = [] then [] else take 64 s # pem_lines (drop 64 s))"
  by pat_completeness auto
termination by (relation "measure length") auto

declare pem_lines.simps [simp del]

definition newline :: char where "newline = CHR 0x0A"

definition pemWrap :: "bytes \<Rightarrow> string \<Rightarrow> string" where
  "pemWrap der label =
    (let padded = map from_url_char (toBase64Url der);
         base64 = padded @ replicate ((4 - length padded mod 4) mod 4) (CHR ''='')
     in ''-----BEGIN '' @ label @ ''-----'' @ [newline] @ join_with [newline] (pem_lines base64)
        @ [newline] @ ''-----END '' @ label @ ''-----'')"

definition exportEd25519SpkiPem :: "bytes \<Rightarrow> (device_error, string) result" where
  "exportEd25519SpkiPem pk = (if length pk \<noteq> 32 then Inl PublicKeyLength
     else Inr (pemWrap (ED25519_SPKI_PREFIX @ pk) ''PUBLIC KEY''))"

definition exportX25519SpkiPem :: "bytes \<Rightarrow> (device_error, string) result" where
  "exportX25519SpkiPem pk = (if length pk \<noteq> X25519_KEY_BYTES then Inl PublicKeyLength
     else Inr (pemWrap (X25519_SPKI_PREFIX @ pk) ''PUBLIC KEY''))"

definition exportX25519RawPublicKey :: "device_identity \<Rightarrow> string" where
  "exportX25519RawPublicKey d = toBase64Url (x25519PublicKey d)"

definition signBase64Url :: "'x lease_crypto_scheme \<Rightarrow> device_identity \<Rightarrow> bytes \<Rightarrow> string" where
  "signBase64Url N d message = toBase64Url (ed25519_sign N message (ed25519PrivateKey d))"

definition signUtf8Base64Url :: "'x lease_crypto_scheme \<Rightarrow> device_identity \<Rightarrow> string \<Rightarrow> string" where
  "signUtf8Base64Url N d message = signBase64Url N d (utf8 message)"

definition deriveSealKey :: "'x cipher_crypto_scheme \<Rightarrow> bytes \<Rightarrow> bytes \<Rightarrow> bytes" where
  "deriveSealKey N shared salt = hkdf_sha256 N shared salt (utf8 LEASE_INFO) 32"

definition decodeEnvelopeField :: "jsval \<Rightarrow> nat option \<Rightarrow> (device_error, bytes) result" where
  "decodeEnvelopeField v expected = (case as_nonempty_string v of None \<Rightarrow> Inl EnvelopeField
     | Some s \<Rightarrow> (case fromBase64Url s of Inl _ \<Rightarrow> Inl KeyCodecInvalid
        | Inr bs \<Rightarrow> if expected \<noteq> None \<and> expected \<noteq> Some (length bs) then Inl EnvelopeField else Inr bs))"

definition parseLeasePayload :: "bytes \<Rightarrow> (device_error, lease_payload) result" where
  "parseLeasePayload plaintext = (case json_parse (text_decode plaintext) of None \<Rightarrow> Inl PayloadNotJson
     | Some v \<Rightarrow> (case object_or_array v of None \<Rightarrow> Inl PayloadInvalid
        | Some r \<Rightarrow> (case (as_nonempty_string (field r ''accessToken''), as_finite (field r ''expiresAtMs''),
              as_string (field r ''scope''), as_string (field r ''allowedRootName'')) of
            (Some t, Some x, Some sc, Some rootName) \<Rightarrow> Inr \<lparr> pay_accessToken = t, pay_expiresAtMs = x,
               pay_scope = sc, pay_allowedRootName = rootName \<rparr>
          | _ \<Rightarrow> Inl PayloadInvalid)))"

text \<open>The noble cipher takes and returns the ciphertext followed by its 16-byte tag.\<close>

definition noble_decrypt :: "'x lease_crypto_scheme \<Rightarrow> bytes \<Rightarrow> bytes \<Rightarrow> bytes \<Rightarrow> bytes \<Rightarrow> bytes option" where
  "noble_decrypt N key nonce aad ct = (if length ct < 16 then None
     else chacha_decrypt N key nonce aad (take (length ct - 16) ct) (drop (length ct - 16) ct))"

definition unsealLease :: "'x lease_crypto_scheme \<Rightarrow> device_identity \<Rightarrow> jsval \<Rightarrow>
    (device_error, lease_payload) result" where
  "unsealLease N d envelope = (case object_or_array envelope of None \<Rightarrow> Inl EnvelopeMissing
     | Some r \<Rightarrow> if field r ''v'' \<noteq> jint 1 then Inl EnvelopeVersion
       else bind_result (decodeEnvelopeField (field r ''epk'') (Some X25519_KEY_BYTES)) (\<lambda>epk.
         bind_result (decodeEnvelopeField (field r ''salt'') None) (\<lambda>salt.
         bind_result (decodeEnvelopeField (field r ''nonce'') (Some CHACHA_NONCE_BYTES)) (\<lambda>nonce.
         bind_result (decodeEnvelopeField (field r ''ct'') None) (\<lambda>ct.
           let key = deriveSealKey N (x25519_shared N (x25519PrivateKey d) epk) salt
           in case noble_decrypt N key nonce (utf8 LEASE_INFO) ct of None \<Rightarrow> Inl UnsealFailed
              | Some plain \<Rightarrow> parseLeasePayload plain)))))"

definition payload_json :: "string \<Rightarrow> int \<Rightarrow> string \<Rightarrow> string \<Rightarrow> jsval" where
  "payload_json t x sc rootName = Obj [(''accessToken'', Str t), (''expiresAtMs'', jint x), (''scope'', Str sc),
     (''allowedRootName'', Str rootName)]"

text \<open>\<^verbatim>\<open>sealLeaseEnvelope\<close>, with the optional random values given.\<close>

definition sealLeaseEnvelope :: "'x lease_crypto_scheme \<Rightarrow> bytes \<Rightarrow> jsval \<Rightarrow> bytes \<Rightarrow> bytes \<Rightarrow> bytes \<Rightarrow>
    (device_error, sealed_lease) result" where
  "sealLeaseEnvelope N recipient payload salt nonce ephemeral =
    (if length recipient \<noteq> X25519_KEY_BYTES then Inl RecipientKeyLength
     else let key = deriveSealKey N (x25519_shared N ephemeral recipient) salt
       in case chacha_encrypt N key nonce (utf8 LEASE_INFO) (utf8 (json_text payload)) of (c, tag) \<Rightarrow>
         Inr \<lparr> lease_v = 1, lease_epk = toBase64Url (x25519_public N ephemeral), lease_salt = toBase64Url salt,
               lease_nonce = toBase64Url nonce, lease_ct = toBase64Url (c @ tag) \<rparr>)"

definition deviceFingerprint :: "'x node_crypto_scheme \<Rightarrow> device_identity \<Rightarrow> string" where
  "deviceFingerprint N d = to_hex (sha256 N (ED25519_SPKI_PREFIX @ ed25519PublicKey d))"

section \<open>What the broker seals, the device opens\<close>

lemma raw_public_key_der: "length raw = 32 \<Longrightarrow> raw_public_key (X25519_SPKI_PREFIX @ raw) = raw"
  by (simp add: raw_public_key_def X25519_RAW_BYTES_def)

lemma toBase64Url_nonempty: "bs \<noteq> [] \<Longrightarrow> toBase64Url bs \<noteq> []"
  using toBase64Url_inject [of bs "[]"] by (auto simp: toBase64Url_def)

lemma decodeEnvelope_encoded:
  "bs \<noteq> [] \<Longrightarrow> n = None \<or> n = Some (length bs) \<Longrightarrow> decodeEnvelopeField (Str (toBase64Url bs)) n = Inr bs"
  using toBase64Url_nonempty [of bs] by (auto simp: decodeEnvelopeField_def fromBase64Url_toBase64Url)

lemma same_info: "deriveSealKey N = derive_key N" "utf8 LEASE_INFO = AAD"
  by (rule ext)+ (simp_all add: deriveSealKey_def derive_key_def HKDF_INFO_def LEASE_INFO_def AAD_def LEASE_KEY_BYTES_def)

lemma noble_decrypt_encrypt:
  assumes "chacha_inverts N" "chacha_encrypt N key nonce aad p = (c, t)"
  shows "noble_decrypt N key nonce aad (c @ t) = Some p"
proof -
  have "length t = 16" "chacha_decrypt N key nonce aad c t = Some p"
    using assms by (auto simp: chacha_inverts_def split: prod.splits)
  then show ?thesis by (simp add: noble_decrypt_def)
qed

lemma parse_payload_json:
  "t \<noteq> [] \<Longrightarrow> \<bar>x\<bar> < 10 ^ 21 \<Longrightarrow> parseLeasePayload (utf8 (json_text (payload_json t x sc r))) =
     Inr \<lparr> pay_accessToken = t, pay_expiresAtMs = of_int x, pay_scope = sc, pay_allowedRootName = r \<rparr>"
proof -
  assume t: "t \<noteq> []" and x: "\<bar>x\<bar> < 10 ^ 21"
  have "json_parse (json_text (payload_json t x sc r)) = Some (payload_json t x sc r)"
    by (rule json_parse_text) (use x in \<open>simp add: payload_json_def jint_def\<close>)
  with t show ?thesis
    by (simp add: parseLeasePayload_def) (simp add: payload_json_def field_def jint_def)
qed

lemma sealLease_Inr:
  assumes "sealLease N ephemeral salt nonce payload pem = Inr l"
  obtains k c tag where "createPublicKey N pem = Some k" "asymmetricKeyType k = X25519"
    "chacha_encrypt N (derive_key N (x25519_shared N ephemeral (raw_public_key (key_spki k))) salt) nonce AAD
       (utf8 (json_text payload)) = (c, tag)"
    "l = \<lparr> lease_v = 1, lease_epk = toBase64Url (raw_public_key (public_key_der (x25519_public N ephemeral))),
       lease_salt = toBase64Url salt, lease_nonce = toBase64Url nonce, lease_ct = toBase64Url (c @ tag) \<rparr>"
  using assms
  by (auto simp: sealLease_def device_public_key_def Let_def split: if_splits option.splits prod.splits)

lemma device_opens:
  assumes "dh_commutes N" "chacha_inverts N"
    and "x25519PublicKey d = x25519_public N (x25519PrivateKey d)"
    and "createPublicKey N pem = Some k" "key_spki k = X25519_SPKI_PREFIX @ x25519PublicKey d"
    and "sealLease N ephemeral salt nonce (payload_json t x sc rootName) pem = Inr l"
    and "length salt = SALT_BYTES" "length nonce = LEASE_NONCE_BYTES" "t \<noteq> []" "\<bar>x\<bar> < 10 ^ 21"
  shows "unsealLease N d (lease_json l) = Inr \<lparr> pay_accessToken = t, pay_expiresAtMs = of_int x,
    pay_scope = sc, pay_allowedRootName = rootName \<rparr>"
proof -
  let ?shared = "x25519_shared N (x25519PrivateKey d) (x25519_public N ephemeral)"
  have pub: "length (x25519_public N a) = 32" for a using assms(1) by (simp add: dh_commutes_def)
  have raw: "raw_public_key (key_spki k) = x25519_public N (x25519PrivateKey d)"
    "raw_public_key (public_key_der (x25519_public N ephemeral)) = x25519_public N ephemeral"
    using assms(3,5) pub by (simp_all add: raw_public_key_der public_key_der_def)
  have shared: "x25519_shared N ephemeral (x25519_public N (x25519PrivateKey d)) = ?shared"
    using assms(1) unfolding dh_commutes_def by blast
  obtain c tag where enc: "chacha_encrypt N (derive_key N ?shared salt) nonce AAD
      (utf8 (json_text (payload_json t x sc rootName))) = (c, tag)"
    and l: "l = \<lparr> lease_v = 1, lease_epk = toBase64Url (x25519_public N ephemeral), lease_salt = toBase64Url salt,
      lease_nonce = toBase64Url nonce, lease_ct = toBase64Url (c @ tag) \<rparr>"
    using sealLease_Inr [OF assms(6)] assms(4) raw shared by (metis option.inject)
  have "length tag = 16" using assms(2) enc by (auto simp: chacha_inverts_def split: prod.splits)
  then have ne: "x25519_public N ephemeral \<noteq> []" "salt \<noteq> []" "nonce \<noteq> []" "c @ tag \<noteq> []"
    using pub [of ephemeral] assms(7,8) by (auto simp: SALT_BYTES_def LEASE_NONCE_BYTES_def)
  have len: "Some X25519_KEY_BYTES = Some (length (x25519_public N ephemeral))"
    "Some CHACHA_NONCE_BYTES = Some (length nonce)"
    using pub assms(8) by (simp_all add: X25519_KEY_BYTES_def CHACHA_NONCE_BYTES_def LEASE_NONCE_BYTES_def)
  have "unsealLease N d (lease_json l) = parseLeasePayload (utf8 (json_text (payload_json t x sc rootName)))"
    using noble_decrypt_encrypt [OF assms(2) enc]
    by (simp add: unsealLease_def lease_json_def l field_def same_info len decodeEnvelope_encoded ne
        del: append_is_Nil_conv)
  with parse_payload_json [OF assms(9,10)] show ?thesis by simp
qed

text \<open>
  Interoperation of the two programs.  A lease the broker seals to the X25519 key a device
  registered is opened by that device to exactly the access token, expiry, scope and root name that
  were sealed.
\<close>
theorem sealed_lease_opens_on_device:
  assumes "dh_commutes N" "chacha_inverts N"
    and "x25519PublicKey d = x25519_public N (x25519PrivateKey d)"
    and "createPublicKey N pem = Some k" "key_spki k = X25519_SPKI_PREFIX @ x25519PublicKey d"
    and "sealLease N ephemeral salt nonce (payload_json t x sc rootName) pem = Inr l"
    and "length salt = SALT_BYTES" "length nonce = LEASE_NONCE_BYTES" "t \<noteq> []" "\<bar>x\<bar> < 10 ^ 21"
  shows "unsealLease N d (lease_json l) = Inr \<lparr> pay_accessToken = t, pay_expiresAtMs = of_int x,
    pay_scope = sc, pay_allowedRootName = rootName \<rparr>"
  by (rule device_opens [OF assms])

text \<open>An instance for examples: Diffie-Hellman is addition of padded keys, the cipher copies.\<close>

definition pad32 :: "bytes \<Rightarrow> bytes" where
  "pad32 bs = take 32 (bs @ replicate 32 0)"

definition toy_lease :: lease_crypto where
  "toy_lease = cipher_crypto.extend
     (toy_cipher\<lparr> buffer_from_base64url := (\<lambda>s. case fromBase64Url s of Inl _ \<Rightarrow> [] | Inr bs \<Rightarrow> bs),
        createPublicKey := (\<lambda>pem. if pem = ''E'' then Some \<lparr> asymmetricKeyType = Ed25519, key_spki = ED25519_SPKI_PREFIX @ pad32 [1] \<rparr>
          else Some \<lparr> asymmetricKeyType = X25519, key_spki = X25519_SPKI_PREFIX @ pad32 [2] \<rparr>),
        verify_signature := (\<lambda>msg k sig. sig = key_spki k @ msg) \<rparr>)
     (lease_crypto.fields pad32 (\<lambda>a b. map2 (+) (pad32 a) b) pad32 (\<lambda>m k. ED25519_SPKI_PREFIX @ pad32 k @ m)
       (\<lambda>k n a p. (p, take 16 (k @ n @ a @ replicate 16 0)))
       (\<lambda>k n a c t. if t = take 16 (k @ n @ a @ replicate 16 0) then Some c else None)
       (\<lambda>pem. Some (X25519, utf8 pem)))"

lemmas toy_lease_simps = toy_lease_def cipher_crypto.defs lease_crypto.defs

lemma length_pad32: "length (pad32 bs) = 32"
  by (simp add: pad32_def min_def)

lemma map2_add_commute: "map2 (+) xs ys = map2 (+) ys (xs :: bytes)"
proof (induction xs arbitrary: ys)
  case (Cons x xs)
  then show ?case by (cases ys) (auto simp: add.commute)
qed simp

lemma toy_dh [simp]: "dh_commutes toy_lease"
  by (simp add: dh_commutes_def toy_lease_simps length_pad32 map2_add_commute)

lemma toy_chacha [simp]: "chacha_inverts toy_lease"
  by (simp add: chacha_inverts_def toy_lease_simps min_def)

lemma toy_node_base64 [simp]: "node_base64 toy_lease"
  by (simp add: node_base64_def toy_lease_simps fromBase64Url_toBase64Url)

definition ex_identity :: device_identity where
  "ex_identity = generateDeviceIdentity toy_lease [1] [2]"

lemma ex_identity_keys: "x25519PublicKey ex_identity = x25519_public toy_lease (x25519PrivateKey ex_identity)"
  "createPublicKey toy_lease ''X'' = Some \<lparr> asymmetricKeyType = X25519, key_spki = X25519_SPKI_PREFIX @ x25519PublicKey ex_identity \<rparr>"
  by (simp_all add: ex_identity_def generateDeviceIdentity_def toy_lease_simps)

lemma ex_seal: "\<exists>l. sealLease toy_lease [9] (replicate 32 4) (replicate 12 5) payload ''X'' = Inr l"
  by (simp add: sealLease_def device_public_key_def ex_identity_keys(2) Let_def split: prod.split)

theorem sealed_lease_opens_on_device_witness:
  "\<exists>l. sealLease toy_lease [9] (replicate 32 4) (replicate 12 5) (payload_json ''tok'' 77 ''s'' ''root'') ''X'' = Inr l
     \<and> unsealLease toy_lease ex_identity (lease_json l) = Inr \<lparr> pay_accessToken = ''tok'', pay_expiresAtMs = 77,
         pay_scope = ''s'', pay_allowedRootName = ''root'' \<rparr>"
proof -
  obtain l where l: "sealLease toy_lease [9] (replicate 32 4) (replicate 12 5)
      (payload_json ''tok'' 77 ''s'' ''root'') ''X'' = Inr l" using ex_seal by blast
  from sealed_lease_opens_on_device [OF toy_dh toy_chacha ex_identity_keys _ l] l show ?thesis
    by (auto simp: SALT_BYTES_def LEASE_NONCE_BYTES_def)
qed

section \<open>The broker's own unsealing\<close>

text \<open>
  The broker's unsealing function, used on the operator side and in tests, opens what its sealing
  function produced for the matching private key and returns the payload unchanged.
\<close>
theorem broker_unseals_own_lease:
  assumes "dh_commutes N" "chacha_inverts N" "node_base64 N"
    and "createPrivateKey N privatePem = Some (X25519, private)"
    and "createPublicKey N pem = Some k" "key_spki k = X25519_SPKI_PREFIX @ x25519_public N private"
    and "sealLease N ephemeral salt nonce payload pem = Inr l" "plain_json payload"
    and "length salt = SALT_BYTES" "length nonce = LEASE_NONCE_BYTES"
  shows "broker_unseal N (lease_json l) privatePem = Inr payload"
proof -
  have pub: "length (x25519_public N a) = 32" for a using assms(1) by (simp add: dh_commutes_def)
  have raw: "raw_public_key (key_spki k) = x25519_public N private"
    "raw_public_key (public_key_der (x25519_public N ephemeral)) = x25519_public N ephemeral"
    using assms(6) pub by (simp_all add: raw_public_key_der public_key_der_def)
  have shared: "x25519_shared N ephemeral (x25519_public N private) =
      x25519_shared N private (x25519_public N ephemeral)"
    using assms(1) unfolding dh_commutes_def by blast
  obtain c tag where enc: "chacha_encrypt N (derive_key N (x25519_shared N private (x25519_public N ephemeral)) salt)
      nonce AAD (utf8 (json_text payload)) = (c, tag)"
    and l: "l = \<lparr> lease_v = 1, lease_epk = toBase64Url (x25519_public N ephemeral), lease_salt = toBase64Url salt,
      lease_nonce = toBase64Url nonce, lease_ct = toBase64Url (c @ tag) \<rparr>"
    using sealLease_Inr [OF assms(7)] assms(5) raw shared by (metis option.inject)
  have tag: "length tag = 16" "chacha_decrypt N (derive_key N (x25519_shared N private (x25519_public N ephemeral)) salt)
      nonce AAD c tag = Some (utf8 (json_text payload))"
    using assms(2) enc by (auto simp: chacha_inverts_def split: prod.splits)
  have dec: "buffer_from_base64url N (toBase64Url bs) = bs" for bs
    using assms(3) by (simp add: node_base64_def)
  show ?thesis
    using assms(4,8,9,10) tag pub raw
    by (simp add: broker_unseal_def lease_json_def l field_def decode_field_def dec X25519_RAW_BYTES_def
        LEASE_TAG_BYTES_def json_parse_text)
qed

theorem broker_unseals_own_lease_witness:
  "\<exists>l. sealLease toy_lease [9] (replicate 32 4) (replicate 12 5) (Str ''p'') ''X'' = Inr l
     \<and> broker_unseal toy_lease (lease_json l) [char_of (2 :: nat)] = Inr (Str ''p'')"
proof -
  obtain l where l: "sealLease toy_lease [9] (replicate 32 4) (replicate 12 5) (Str ''p'') ''X'' = Inr l"
    using ex_seal by blast
  have "createPrivateKey toy_lease [char_of (2 :: nat)] = Some (X25519, [2])"
    by (simp add: toy_lease_simps utf8_def utf8_char_def)
  moreover have "x25519PublicKey ex_identity = x25519_public toy_lease [2]"
    by (simp add: ex_identity_def generateDeviceIdentity_def)
  ultimately show ?thesis
    using broker_unseals_own_lease [OF toy_dh toy_chacha toy_node_base64 _ ex_identity_keys(2) _ l, of _ "[2]"] l
    by (auto simp: SALT_BYTES_def LEASE_NONCE_BYTES_def)
qed

section \<open>Device keys\<close>

text \<open>
  A device identity written to secret storage is restored to the same four keys, whatever its
  private keys, and stored keys of any other length are refused.
\<close>
theorem device_identity_roundtrip:
  assumes "length ed = 32" "length x = 32"
  shows "(case serializeDeviceIdentity (generateDeviceIdentity N ed x) of (a, b) \<Rightarrow> restoreDeviceIdentity N a b)
      = Inr (generateDeviceIdentity N ed x)
    \<and> (\<forall>a b d. restoreDeviceIdentity N a b = Inr d \<longrightarrow>
        length (ed25519PrivateKey d) = 32 \<and> length (x25519PrivateKey d) = 32
        \<and> d = generateDeviceIdentity N (ed25519PrivateKey d) (x25519PrivateKey d))"
  using assms
  by (auto simp: serializeDeviceIdentity_def generateDeviceIdentity_def restoreDeviceIdentity_def
      fromBase64Url_toBase64Url split: sum.splits if_splits)

theorem device_identity_roundtrip_witness:
  "restoreDeviceIdentity toy_lease (toBase64Url (replicate 32 1)) (toBase64Url (replicate 32 2)) =
     Inr (generateDeviceIdentity toy_lease (replicate 32 1) (replicate 32 2))"
  using device_identity_roundtrip [of "replicate 32 1" "replicate 32 2" toy_lease]
  by (simp add: serializeDeviceIdentity_def generateDeviceIdentity_def)

lemma pem_lines_Nil [simp]: "pem_lines [] = []"
  by (simp add: pem_lines.simps)

lemma concat_pem_lines: "concat (pem_lines s) = s"
proof (induction s rule: pem_lines.induct)
  case (1 s)
  then show ?case by (cases "s = []") (simp_all add: pem_lines.simps [of s])
qed

lemma pem_lines_length: "l \<in> set (pem_lines s) \<Longrightarrow> length l \<le> 64 \<and> l \<noteq> []"
proof (induction s rule: pem_lines.induct)
  case (1 s)
  then show ?case by (cases "s = []") (auto simp: pem_lines.simps [of s])
qed

end
