(* ===== verification/Broker.thy ===== *)
theory Broker
  imports RateLimit EnrollmentCodes PairingFlow EnrollmentRecords RefreshTokens OAuth LeaseSealer
begin

text \<open>
  \<^verbatim>\<open>broker/src/server.ts\<close>: the HTTP boundary of the broker over its stores.  The two durable stores are
  the interfaces \<^verbatim>\<open>EnrollmentRecordStore\<close> and \<^verbatim>\<open>RefreshTokenStore\<close>, given as a record of operations on
  a state of their own.  A request meets an environment: the readings of the clock and the random
  draws, each numbered by its place in the handler, and Google's answers.
\<close>

section \<open>Requests and responses\<close>

record http_request =
  rq_method :: string
  rq_url :: string
  rq_remote :: "string option"
  rq_ctype :: "string option"
  rq_auth :: "string option"
  rq_length :: "string option"
  rq_chunks :: "bytes list"
  rq_aborted :: bool

record http_response =
  rs_status :: int
  rs_headers :: "(string \<times> string) list"
  rs_body :: string

definition MAX_JSON_BYTES :: nat where "MAX_JSON_BYTES = 8 * 1024"
definition DEFAULT_NONCE_TTL_MS :: int where "DEFAULT_NONCE_TTL_MS = 120000"
definition DEFAULT_TOKEN_LIFETIME_SECONDS :: int where "DEFAULT_TOKEN_LIFETIME_SECONDS = 3600"
definition DEFAULT_ENROLLMENT_RECORD_TTL_MS :: int where "DEFAULT_ENROLLMENT_RECORD_TTL_MS = 90 * 24 * 60 * 60000"
definition MIN_ENROLLMENT_RECORD_TTL_MS :: int where "MIN_ENROLLMENT_RECORD_TTL_MS = 24 * 60 * 60000"
definition MAX_ENROLLMENT_RECORD_TTL_MS :: int where "MAX_ENROLLMENT_RECORD_TTL_MS = 365 * 24 * 60 * 60000"

definition CALLBACK_PATHS :: "string list" where
  "CALLBACK_PATHS = [''/oauth/google/callback'', ''/gdrive-stream-oauth/google/callback'']"

definition OAUTH_SUCCESS_PAGE :: string where
  "OAUTH_SUCCESS_PAGE = ''<!doctype html><html lang=\"en\"><head><meta charset=\"utf-8\">''
    @ ''<title>Authorization complete</title></head><body>''
    @ ''<h1>Authorization complete</h1><p>You can now return to your device.</p></body></html>''"

definition OAUTH_FAILURE_PAGE :: string where
  "OAUTH_FAILURE_PAGE = ''<!doctype html><html lang=\"en\"><head><meta charset=\"utf-8\">''
    @ ''<title>Authorization failed</title></head><body>''
    @ ''<h1>Authorization failed</h1><p>This sign-in attempt could not be completed. Please start a new pairing.</p></body></html>''"

definition sendJson :: "int \<Rightarrow> jsval \<Rightarrow> http_response" where
  "sendJson status body = \<lparr> rs_status = status,
     rs_headers = [(''content-type'', ''application/json; charset=utf-8''), (''cache-control'', ''no-store''),
       (''x-content-type-options'', ''nosniff'')],
     rs_body = json_text body \<rparr>"

definition NONE_SOURCE :: string where "NONE_SOURCE = [CHR 0x27] @ ''none'' @ [CHR 0x27]"

definition CONTENT_SECURITY_POLICY :: string where
  "CONTENT_SECURITY_POLICY = ''default-src '' @ NONE_SOURCE @ ''; base-uri '' @ NONE_SOURCE
     @ ''; form-action '' @ NONE_SOURCE @ ''; frame-ancestors '' @ NONE_SOURCE"

definition sendHtml :: "int \<Rightarrow> string \<Rightarrow> http_response" where
  "sendHtml status html = \<lparr> rs_status = status,
     rs_headers = [(''content-type'', ''text/html; charset=utf-8''), (''cache-control'', ''no-store''),
       (''x-content-type-options'', ''nosniff''),
       (''content-security-policy'', CONTENT_SECURITY_POLICY)],
     rs_body = html \<rparr>"

definition error_json :: "string \<Rightarrow> jsval" where
  "error_json e = Obj [(''error'', Str e)]"

definition sendError :: "int \<Rightarrow> string \<Rightarrow> http_response" where
  "sendError status e = sendJson status (error_json e)"

text \<open>
  \<^verbatim>\<open>jsonBody\<close>: the chunks are counted as they arrive; a body over the limit stops the reading, a
  connection that breaks off raises.
\<close>

fun read_chunks :: "nat \<Rightarrow> bytes list \<Rightarrow> bytes option" where
  "read_chunks seen [] = Some []"
| "read_chunks seen (c # cs) = (let seen' = seen + length c
     in if seen' > MAX_JSON_BYTES then None else map_option (\<lambda>bs. c @ bs) (read_chunks seen' cs))"

definition jsonBody :: "http_request \<Rightarrow> (string \<times> jsval) list option" where
  "jsonBody rq = (case read_chunks 0 (rq_chunks rq) of None \<Rightarrow> None
     | Some bs \<Rightarrow> if rq_aborted rq then None
       else case json_parse (utf8_decode bs) of None \<Rightarrow> None | Some v \<Rightarrow> plain_object v)"

section \<open>Options and state\<close>

record broker_options =
  opt_oauth :: "((string \<times> jsval) list \<times> string option) option"
  opt_hasTokens :: bool
  opt_root :: jsval
  opt_pairs :: "pairing_store option"
  opt_codes :: "code_store option"
  opt_maxAttempts :: "number option"
  opt_windowMs :: "number option"
  opt_nonceTtlMs :: "number option"
  opt_recordTtlMs :: "number option"

record broker =
  bk_config :: "broker_config option"
  bk_secret :: "string option"
  bk_hasTokens :: bool
  bk_root :: string
  bk_maxAttempts :: nat
  bk_windowMs :: int
  bk_nonceTtlMs :: int
  bk_recordTtlMs :: int

record issued_nonce =
  iss_pairIdHash :: string
  iss_expiresAtMs :: int

record ('r, 't) broker_state =
  st_attempts :: attempts
  st_nonces :: "(string, issued_nonce) omap"
  st_codes :: code_store
  st_pairs :: pairing_store
  st_reg :: 'r
  st_tok :: 't

text \<open>The durable stores as the broker and the admin server call them.\<close>

record ('r, 't) providers =
  reg_find :: "string \<Rightarrow> 'r \<Rightarrow> (store_error, enrolled_device option) result \<times> 'r"
  reg_record :: "enrollment_input \<Rightarrow> 'r \<Rightarrow> (store_error, unit) result \<times> 'r"
  tok_read :: "'t \<Rightarrow> (store_error, stored_token option) result"
  reg_revoke :: "string \<Rightarrow> 'r \<Rightarrow> (store_error, bool) result \<times> 'r"
  tok_replace :: "token_input \<Rightarrow> 't \<Rightarrow> (store_error, unit) result \<times> 't"
  tok_clear :: "'t \<Rightarrow> (store_error, unit) result \<times> 't"

record request_env =
  clock :: "nat \<Rightarrow> int"
  draw :: "nat \<Rightarrow> bytes"
  google :: "oauth_request \<Rightarrow> (number \<times> string) option"
  request_url :: "string \<Rightarrow> (string \<times> string) option"

datatype broker_error =
    BadConfig config_error | BadPairingStore | BadRoot | BadRateLimit | BadNonceTtl | BadRecordTtl

definition valid_allowed_root :: "jsval \<Rightarrow> string option" where
  "valid_allowed_root v = (case as_string v of None \<Rightarrow> None
     | Some s \<Rightarrow> if trim s = [] \<or> length s > 256 \<or> s \<noteq> trim s
         \<or> list_ex (\<lambda>c. is_control c \<or> c = CHR ''/'' \<or> c = CHR 0x5C) s \<or> s = ''.'' \<or> s = ''..''
       then None else Some s)"

definition or_default :: "number option \<Rightarrow> int \<Rightarrow> number" where
  "or_default v d = (case v of None \<Rightarrow> num_of_int d | Some n \<Rightarrow> n)"

text \<open>The settings the server runs with and its initial state.\<close>

definition createBrokerServer :: "(string \<Rightarrow> url_parts option) \<Rightarrow> broker_options \<Rightarrow> 'r \<Rightarrow> 't \<Rightarrow>
    (broker_error, broker \<times> ('r, 't) broker_state) result" where
  "createBrokerServer U opts reg tok =
    bind_result (case opt_oauth opts of None \<Rightarrow> Inr None
      | Some (settings, _) \<Rightarrow> (case parseBrokerRuntimeConfig U settings of Inl e \<Rightarrow> Inl (BadConfig e)
          | Inr cfg \<Rightarrow> Inr (Some cfg))) (\<lambda>cfg.
    bind_result (case opt_pairs opts of Some p \<Rightarrow> Inr p
      | None \<Rightarrow> (case new_pairing_store (num_of_int (case cfg of None \<Rightarrow> 500 | Some c \<Rightarrow> pairingCapacity c)) of
          Inl _ \<Rightarrow> Inl BadPairingStore | Inr p \<Rightarrow> Inr p)) (\<lambda>pairs.
    let maxAttempts = or_default (opt_maxAttempts opts)
          (case cfg of None \<Rightarrow> 10 | Some c \<Rightarrow> pairingRateLimitMaxAttempts c);
        window = or_default (opt_windowMs opts) (case cfg of None \<Rightarrow> 60000 | Some c \<Rightarrow> pairingRateLimitWindowMs c);
        nonceTtl = or_default (opt_nonceTtlMs opts) DEFAULT_NONCE_TTL_MS;
        recordTtl = or_default (opt_recordTtlMs opts) DEFAULT_ENROLLMENT_RECORD_TTL_MS
    in case valid_allowed_root (opt_root opts) of None \<Rightarrow> Inl BadRoot
    | Some rootName \<Rightarrow> (case (as_int maxAttempts, as_int window) of
        (Some k, Some w) \<Rightarrow> if k < 1 \<or> w < 1000 then Inl BadRateLimit
          else (case as_int nonceTtl of None \<Rightarrow> Inl BadNonceTtl
            | Some n \<Rightarrow> if n < 1 \<or> n > DEFAULT_NONCE_TTL_MS then Inl BadNonceTtl
              else (case as_int recordTtl of None \<Rightarrow> Inl BadRecordTtl
                | Some r \<Rightarrow> if r < MIN_ENROLLMENT_RECORD_TTL_MS \<or> r > MAX_ENROLLMENT_RECORD_TTL_MS
                  then Inl BadRecordTtl
                  else Inr (\<lparr> bk_config = cfg, bk_secret = Option.bind (opt_oauth opts) snd,
                      bk_hasTokens = opt_hasTokens opts, bk_root = rootName, bk_maxAttempts = nat k,
                      bk_windowMs = w, bk_nonceTtlMs = n, bk_recordTtlMs = r \<rparr>,
                    \<lparr> st_attempts = [], st_nonces = [],
                      st_codes = (case opt_codes opts of None \<Rightarrow> \<lparr> codes = [], maxCodes = DEFAULT_MAX_CODES \<rparr>
                        | Some c \<Rightarrow> c),
                      st_pairs = pairs, st_reg = reg, st_tok = tok \<rparr>)))
      | _ \<Rightarrow> Inl BadRateLimit)))"

text \<open>A usable client secret: \<^verbatim>\<open>typeof clientSecret === "string" && clientSecret.length > 0\<close>.\<close>

definition usable_secret :: "broker \<Rightarrow> string option" where
  "usable_secret b = (case bk_secret b of None \<Rightarrow> None | Some s \<Rightarrow> if s = [] then None else Some s)"

definition leaseEndpointReady :: "broker \<Rightarrow> bool" where
  "leaseEndpointReady b \<longleftrightarrow> bk_config b \<noteq> None \<and> bk_hasTokens b \<and> usable_secret b \<noteq> None"

section \<open>Minting a lease\<close>

datatype mint_error = OAuthUnavailable | TokenStoreFailed store_error | GrantFailed oauth_error | SealFailed sealer_error

record minted_lease =
  min_lease :: sealed_lease
  min_expiresAtMs :: int

text \<open>The draws are the ephemeral key, the salt and the nonce of the seal; \<open>k\<close> is the clock reading.\<close>

definition mintSealedLease :: "'x lease_crypto_scheme \<Rightarrow> broker \<Rightarrow> ('r, 't) providers \<Rightarrow> request_env \<Rightarrow> nat \<Rightarrow>
    string \<Rightarrow> 't \<Rightarrow> (mint_error, minted_lease option) result" where
  "mintSealedLease N b P env k pem tok =
    (case (bk_config b, usable_secret b, bk_hasTokens b) of
       (Some cfg, Some secret, True) \<Rightarrow>
         (case tok_read P tok of Inl e \<Rightarrow> Inl (TokenStoreFailed e)
          | Inr None \<Rightarrow> Inr None
          | Inr (Some stored) \<Rightarrow>
            (case refreshAccessToken cfg (tok_refreshToken stored) secret None None (google env) of
               Inl e \<Rightarrow> Inl (GrantFailed e)
             | Inr g \<Rightarrow>
               (let e = clock env k + (case grant_expiresIn g of None \<Rightarrow> DEFAULT_TOKEN_LIFETIME_SECONDS | Some x \<Rightarrow> x) * 1000
                in case sealLease N (draw env 0) (draw env 1) (draw env 2)
                    (payload_json (grant_accessToken g) e (grant_scope g) (bk_root b)) pem of
                   Inl er \<Rightarrow> Inl (SealFailed er)
                 | Inr l \<Rightarrow> Inr (Some \<lparr> min_lease = l, min_expiresAtMs = e \<rparr>))))
     | _ \<Rightarrow> Inl OAuthUnavailable)"

definition send_minted :: "(mint_error, minted_lease option) result \<Rightarrow> http_response" where
  "send_minted r = (case r of Inl _ \<Rightarrow> sendError 502 ''lease_unavailable''
     | Inr None \<Rightarrow> sendError 409 ''not_authorized_yet''
     | Inr (Some m) \<Rightarrow> sendJson 200 (Obj [(''sealedLease'', lease_json (min_lease m)),
         (''expiresAtMs'', jint (min_expiresAtMs m))]))"

section \<open>Durable nonces\<close>

datatype durable_rejection = DNotAuthorizedYet | DRevoked | DInvalidNonce | DInvalidProof

definition nonceHash :: "'x node_crypto_scheme \<Rightarrow> string \<Rightarrow> string" where
  "nonceHash N nonce = sha256_hex N nonce"

definition handshakeInProgress :: "'x node_crypto_scheme \<Rightarrow> string \<Rightarrow> pairing_store \<Rightarrow> bool" where
  "handshakeInProgress N pairId s \<longleftrightarrow>
     statusOf N pairId s \<in> {Some Pending, Some CallbackStateConsumed, Some Authorized}"

text \<open>
  \<^verbatim>\<open>issueDurableNonce\<close> and \<^verbatim>\<open>consumeDurableNonce\<close> look the record up asynchronously; what follows the
  lookup runs without interruption and is a definition of its own.
\<close>

definition grant_nonce :: "'x node_crypto_scheme \<Rightarrow> broker \<Rightarrow> bytes \<Rightarrow> int \<Rightarrow> int \<Rightarrow> string \<Rightarrow>
    enrolled_device option \<Rightarrow> ('r, 't) broker_state \<Rightarrow>
    (durable_rejection, string \<times> int) result \<times> ('r, 't) broker_state" where
  "grant_nonce N b random t0 t1 pairId r s =
    (if (case r of None \<Rightarrow> True | Some d \<Rightarrow> dev_revoked d \<or> t0 \<ge> dev_expiresAtMs d)
     then (Inl (if r = None \<and> handshakeInProgress N pairId (st_pairs s) then DNotAuthorizedYet else DRevoked), s)
     else let nonce = toBase64Url random; e = t1 + bk_nonceTtlMs b
       in (Inr (nonce, e), s\<lparr> st_nonces := mput (nonceHash N nonce)
             \<lparr> iss_pairIdHash = pairIdHash N pairId, iss_expiresAtMs = e \<rparr> (st_nonces s) \<rparr>))"

definition issueDurableNonce :: "'x node_crypto_scheme \<Rightarrow> broker \<Rightarrow> ('r, 't) providers \<Rightarrow> request_env \<Rightarrow>
    string \<Rightarrow> ('r, 't) broker_state \<Rightarrow>
    (store_error, (durable_rejection, string \<times> int) result) result \<times> ('r, 't) broker_state" where
  "issueDurableNonce N b P env pairId s =
    (if statusOf N pairId (st_pairs s) = Some Revoked then (Inr (Inl DRevoked), s)
     else case reg_find P pairId (st_reg s) of (Inl e, reg) \<Rightarrow> (Inl e, s\<lparr> st_reg := reg \<rparr>)
     | (Inr r, reg) \<Rightarrow> (case grant_nonce N b (draw env 0) (clock env 0) (clock env 1) pairId r (s\<lparr> st_reg := reg \<rparr>) of
         (x, s') \<Rightarrow> (Inr x, s')))"

definition durable_proof :: "'x node_crypto_scheme \<Rightarrow> enrolled_device \<Rightarrow> string \<Rightarrow> string \<Rightarrow> bool" where
  "durable_proof N d nonce pf =
    (let signature = buffer_from_base64url N pf
     in if signature = [] then False
        else case createPublicKey N (dev_signingPem d) of None \<Rightarrow> False
        | Some k \<Rightarrow> verify_signature N (buffer_from_base64url N nonce) k signature)"

definition redeem_nonce :: "'x node_crypto_scheme \<Rightarrow> int \<Rightarrow> int \<Rightarrow> string \<Rightarrow> string \<Rightarrow> string \<Rightarrow>
    enrolled_device option \<Rightarrow> ('r, 't) broker_state \<Rightarrow>
    (durable_rejection, string) result \<times> ('r, 't) broker_state" where
  "redeem_nonce N t0 t1 pairId nonce pf r s =
    (case r of None \<Rightarrow>
       (Inl (if handshakeInProgress N pairId (st_pairs s) then DNotAuthorizedYet else DRevoked), s)
     | Some d \<Rightarrow> if dev_revoked d \<or> t0 \<ge> dev_expiresAtMs d then (Inl DRevoked, s)
       else let h = nonceHash N nonce
       in case mget (st_nonces s) h of None \<Rightarrow> (Inl DInvalidNonce, s)
       | Some n \<Rightarrow> if iss_pairIdHash n \<noteq> pairIdHash N pairId then (Inl DInvalidNonce, s)
         else let s' = s\<lparr> st_nonces := mdel h (st_nonces s) \<rparr>
         in if t1 \<ge> iss_expiresAtMs n then (Inl DInvalidNonce, s')
            else if \<not> durable_proof N d nonce pf then (Inl DInvalidProof, s')
            else (Inr (dev_encryptionPem d), s'))"

definition consumeDurableNonce :: "'x node_crypto_scheme \<Rightarrow> ('r, 't) providers \<Rightarrow> request_env \<Rightarrow>
    string \<Rightarrow> string \<Rightarrow> string \<Rightarrow> ('r, 't) broker_state \<Rightarrow>
    (store_error, (durable_rejection, string) result) result \<times> ('r, 't) broker_state" where
  "consumeDurableNonce N P env pairId nonce pf s =
    (if statusOf N pairId (st_pairs s) = Some Revoked then (Inr (Inl DRevoked), s)
     else case reg_find P pairId (st_reg s) of (Inl e, reg) \<Rightarrow> (Inl e, s\<lparr> st_reg := reg \<rparr>)
     | (Inr r, reg) \<Rightarrow> (case redeem_nonce N (clock env 0) (clock env 1) pairId nonce pf r (s\<lparr> st_reg := reg \<rparr>) of
         (x, s') \<Rightarrow> (Inr x, s')))"

section \<open>The OAuth callback\<close>

definition param :: "(string \<times> string) list \<Rightarrow> string \<Rightarrow> string" where
  "param ps k = (case map_of ps k of None \<Rightarrow> [] | Some v \<Rightarrow> v)"

text \<open>
  \<open>store_grant\<close> keeps the refresh token Google sent, or relies on a stored one; \<open>complete_callback\<close> is
  the part after the one-time state was consumed.  \<open>False\<close> stands for a return with the failure page
  or for an exception, which the handler answers with the same page.
\<close>

definition store_grant :: "('r, 't) providers \<Rightarrow> int \<Rightarrow> oauth_tokens \<Rightarrow> string \<Rightarrow> 't \<Rightarrow> bool \<times> 't" where
  "store_grant P now tokens scope tok =
    (case refreshToken tokens of
       Some rt \<Rightarrow> (case tok_replace P \<lparr> in_refreshToken = rt, in_scope = scope, in_obtainedAtMs = num_of_int now \<rparr> tok of
           (r, tok') \<Rightarrow> (is_ok r, tok'))
     | None \<Rightarrow> (case tok_read P tok of Inr (Some _) \<Rightarrow> (True, tok) | _ \<Rightarrow> (False, tok)))"

definition complete_callback :: "'x node_crypto_scheme \<Rightarrow> ('r, 't) providers \<Rightarrow> request_env \<Rightarrow> broker_config \<Rightarrow>
    string \<Rightarrow> string \<Rightarrow> consumed_state \<Rightarrow> ('r, 't) broker_state \<Rightarrow> bool \<times> ('r, 't) broker_state" where
  "complete_callback N P env cfg secret authCode got s =
    (case exchangeAuthorizationCode cfg authCode (consumed_verifier got) secret (google env) of
       Inl _ \<Rightarrow> (False, s)
     | Inr tokens \<Rightarrow>
       (case validateGrantedScope (granted_scope tokens) (googleDriveScope cfg) [googleDriveScope cfg] of
          Inl _ \<Rightarrow> (False, s)
        | Inr scope \<Rightarrow>
          (case store_grant P (clock env 1) tokens scope (st_tok s) of
             (False, tok) \<Rightarrow> (False, s\<lparr> st_tok := tok \<rparr>)
           | (True, tok) \<Rightarrow>
             (case markAuthorized N (consumed_handle got) (clock env 2) (st_pairs s) of
                (m, pairs) \<Rightarrow> (m, s\<lparr> st_tok := tok, st_pairs := pairs \<rparr>)))))"

definition callback_page :: "bool \<Rightarrow> http_response" where
  "callback_page ok = (if ok then sendHtml 200 OAUTH_SUCCESS_PAGE else sendHtml 400 OAUTH_FAILURE_PAGE)"

definition handleOAuthCallback :: "'x node_crypto_scheme \<Rightarrow> broker \<Rightarrow> ('r, 't) providers \<Rightarrow> request_env \<Rightarrow>
    (string \<times> string) list \<Rightarrow> ('r, 't) broker_state \<Rightarrow> http_response \<times> ('r, 't) broker_state" where
  "handleOAuthCallback N b P env params s =
    (if ''error'' \<in> fst ` set params then (callback_page False, s)
     else case (bk_config b, usable_secret b, bk_hasTokens b) of
       (Some cfg, Some secret, True) \<Rightarrow>
         if param params ''state'' = [] \<or> param params ''code'' = [] then (callback_page False, s)
         else (case consumeOAuthState N (draw env 0) (param params ''state'') (clock env 0) (st_pairs s) of
           (None, pairs) \<Rightarrow> (callback_page False, s\<lparr> st_pairs := pairs \<rparr>)
         | (Some got, pairs) \<Rightarrow>
           (case complete_callback N P env cfg secret (param params ''code'') got (s\<lparr> st_pairs := pairs \<rparr>) of
              (ok, s') \<Rightarrow> (callback_page ok, s')))
     | _ \<Rightarrow> (callback_page False, s))"

section \<open>Request handlers\<close>

definition json_request :: "http_request \<Rightarrow> bool" where
  "json_request rq = (case rq_ctype rq of None \<Rightarrow> False | Some t \<Rightarrow> starts_with t ''application/json'')"

definition bounded_string :: "jsval \<Rightarrow> nat \<Rightarrow> string option" where
  "bounded_string v n = (case as_string v of None \<Rightarrow> None | Some s \<Rightarrow> if length s > n then None else Some s)"

definition pair_response :: "created_pairing \<Rightarrow> http_response" where
  "pair_response c = sendJson 201 (Obj ([(''pairId'', Str (created_pairId c)), (''oauthState'', Str (created_oauthState c)),
     (''proofMessage'', Str (created_proofMessage c)), (''expiresAtMs'', jint (created_expiresAtMs c))]
     @ (case created_authorizationUrl c of None \<Rightarrow> [] | Some u \<Rightarrow> [(''authorizationUrl'', Str u)])))"

definition pair_device :: "'x node_crypto_scheme \<Rightarrow> broker \<Rightarrow> request_env \<Rightarrow> (string \<times> jsval) list \<Rightarrow>
    ('r, 't) broker_state \<Rightarrow> http_response \<times> ('r, 't) broker_state" where
  "pair_device N b env body s =
    (case bounded_string (field body ''devicePublicKeyPem'') 2048 of
       None \<Rightarrow> (sendError 400 ''invalid_device_public_key'', s)
     | Some signPem \<Rightarrow>
       (case bounded_string (field body ''deviceEncryptionPublicKeyPem'') 2048 of
          None \<Rightarrow> (sendError 400 ''invalid_device_encryption_public_key'', s)
        | Some encPem \<Rightarrow>
          (case deviceSigningKeyFingerprint N signPem of None \<Rightarrow> (sendError 400 ''invalid_device_public_key'', s)
           | Some fingerprint \<Rightarrow>
             (case consume N (case as_string (field body ''enrollmentCode'') of None \<Rightarrow> [] | Some c \<Rightarrow> c)
                 (clock env 1) (Some fingerprint) (st_codes s) of
                (ConsumeRejected _, cs) \<Rightarrow> (sendError 403 ''enrollment_required'', s\<lparr> st_codes := cs \<rparr>)
              | (ConsumeOk, cs) \<Rightarrow>
                (case create N (draw env 0) (draw env 1) (draw env 2)
                    (map_option (\<lambda>cfg st verifier. Some (createAuthorizationUrl N cfg st verifier)) (bk_config b))
                    signPem encPem (num_of_int (clock env 2))
                    (num_of_int (case bk_config b of None \<Rightarrow> 5 * 60000 | Some cfg \<Rightarrow> pairingTtlMs cfg)) (st_pairs s) of
                   (Inl _, pairs) \<Rightarrow> (sendError 400 ''invalid_request'', s\<lparr> st_codes := cs, st_pairs := pairs \<rparr>)
                 | (Inr c, pairs) \<Rightarrow> (pair_response c, s\<lparr> st_codes := cs, st_pairs := pairs \<rparr>))))))"

definition rate_limited :: "broker \<Rightarrow> http_response" where
  "rate_limited b = (let r = sendError 429 ''pairing_rate_limited''
     in r\<lparr> rs_headers := (''retry-after'', dec_int (- ((- bk_windowMs b) div 1000))) # rs_headers r \<rparr>)"

definition handle_pair :: "'x node_crypto_scheme \<Rightarrow> broker \<Rightarrow> request_env \<Rightarrow> http_request \<Rightarrow>
    ('r, 't) broker_state \<Rightarrow> http_response \<times> ('r, 't) broker_state" where
  "handle_pair N b env rq s =
    (case allowPairAttempt (bk_maxAttempts b) (bk_windowMs b)
        (case rq_remote rq of None \<Rightarrow> ''unknown'' | Some a \<Rightarrow> a) (clock env 0) (st_attempts s) of
       (False, m) \<Rightarrow> (rate_limited b, s\<lparr> st_attempts := m \<rparr>)
     | (True, m) \<Rightarrow> (let s1 = s\<lparr> st_attempts := m \<rparr>
         in if \<not> json_request rq then (sendError 415 ''json_content_type_required'', s1)
            else case jsonBody rq of None \<Rightarrow> (sendError 400 ''invalid_request'', s1)
            | Some body \<Rightarrow> pair_device N b env body s1))"

definition claim_error :: "claim_rejection \<Rightarrow> http_response" where
  "claim_error e = (case e of ClaimExpired \<Rightarrow> sendError 410 ''expired''
     | ClaimNotAuthorized \<Rightarrow> sendError 409 ''not_authorized_yet''
     | ClaimInvalidProof \<Rightarrow> sendError 403 ''invalid_proof''
     | _ \<Rightarrow> sendError 403 ''revoked'')"

text \<open>The part of a claim after the pairing store accepted it: the durable record, then the lease.\<close>

definition enrollment_request :: "broker \<Rightarrow> request_env \<Rightarrow> string \<Rightarrow> string \<Rightarrow> string \<Rightarrow> enrollment_input" where
  "enrollment_request b env pairId signPem encPem =
    \<lparr> in_pairId = pairId, in_signingPem = signPem, in_encryptionPem = encPem,
      in_enrolledAtMs = num_of_int (clock env 1),
      in_expiresAtMs = num_of_int (clock env 2 + bk_recordTtlMs b) \<rparr>"

definition enroll_device :: "'x lease_crypto_scheme \<Rightarrow> broker \<Rightarrow> ('r, 't) providers \<Rightarrow> request_env \<Rightarrow> string \<Rightarrow>
    string \<Rightarrow> string \<Rightarrow> ('r, 't) broker_state \<Rightarrow> http_response \<times> ('r, 't) broker_state" where
  "enroll_device N b P env pairId signPem encPem s =
    (case reg_record P (enrollment_request b env pairId signPem encPem) (st_reg s) of
       (Inl _, reg) \<Rightarrow> (sendError 502 ''lease_unavailable'', s\<lparr> st_reg := reg \<rparr>)
     | (Inr _, reg) \<Rightarrow> (send_minted (mintSealedLease N b P env 3 encPem (st_tok s)), s\<lparr> st_reg := reg \<rparr>))"

definition handle_claim :: "'x lease_crypto_scheme \<Rightarrow> broker \<Rightarrow> ('r, 't) providers \<Rightarrow> request_env \<Rightarrow> string \<Rightarrow>
    (string \<times> jsval) list \<Rightarrow> ('r, 't) broker_state \<Rightarrow> http_response \<times> ('r, 't) broker_state" where
  "handle_claim N b P env pairId body s =
    (case bounded_string (field body ''proof'') 512 of None \<Rightarrow> (sendError 400 ''invalid_proof'', s)
     | Some pf \<Rightarrow>
       (case openClaim N pairId pf (clock env 0) (st_pairs s) of
          (Inl e, pairs) \<Rightarrow> (claim_error e, s\<lparr> st_pairs := pairs \<rparr>)
        | (Inr (signPem, encPem), pairs) \<Rightarrow> enroll_device N b P env pairId signPem encPem (s\<lparr> st_pairs := pairs \<rparr>)))"

definition handle_nonce :: "'x node_crypto_scheme \<Rightarrow> broker \<Rightarrow> ('r, 't) providers \<Rightarrow> request_env \<Rightarrow> string \<Rightarrow>
    ('r, 't) broker_state \<Rightarrow> http_response \<times> ('r, 't) broker_state" where
  "handle_nonce N b P env pairId s =
    (case issueDurableNonce N b P env pairId s of
       (Inl _, s') \<Rightarrow> (sendError 400 ''invalid_request'', s')
     | (Inr (Inl DNotAuthorizedYet), s') \<Rightarrow> (sendError 409 ''not_authorized_yet'', s')
     | (Inr (Inl _), s') \<Rightarrow> (sendError 403 ''revoked'', s')
     | (Inr (Inr (nonce, e)), s') \<Rightarrow> (sendJson 200 (Obj [(''nonce'', Str nonce), (''expiresAtMs'', jint e)]), s'))"

definition lease_error :: "durable_rejection \<Rightarrow> http_response" where
  "lease_error e = (case e of DNotAuthorizedYet \<Rightarrow> sendError 409 ''not_authorized_yet''
     | DInvalidNonce \<Rightarrow> sendError 403 ''invalid_nonce''
     | DInvalidProof \<Rightarrow> sendError 403 ''invalid_proof''
     | DRevoked \<Rightarrow> sendError 403 ''revoked'')"

definition handle_lease :: "'x lease_crypto_scheme \<Rightarrow> broker \<Rightarrow> ('r, 't) providers \<Rightarrow> request_env \<Rightarrow> string \<Rightarrow>
    (string \<times> jsval) list \<Rightarrow> ('r, 't) broker_state \<Rightarrow> http_response \<times> ('r, 't) broker_state" where
  "handle_lease N b P env pairId body s =
    (case (bounded_string (field body ''nonce'') 256, bounded_string (field body ''proof'') 512) of
       (Some nonce, Some pf) \<Rightarrow>
         (case consumeDurableNonce N P env pairId nonce pf s of
            (Inl _, s') \<Rightarrow> (sendError 400 ''invalid_request'', s')
          | (Inr (Inl e), s') \<Rightarrow> (lease_error e, s')
          | (Inr (Inr encPem), s') \<Rightarrow> (send_minted (mintSealedLease N b P env 2 encPem (st_tok s')), s'))
     | _ \<Rightarrow> (sendError 403 ''invalid_nonce'', s))"

definition handle_device :: "'x lease_crypto_scheme \<Rightarrow> broker \<Rightarrow> ('r, 't) providers \<Rightarrow> request_env \<Rightarrow> http_request \<Rightarrow>
    ('r, 't) broker_state \<Rightarrow> http_response \<times> ('r, 't) broker_state" where
  "handle_device N b P env rq s =
    (if \<not> leaseEndpointReady b then (sendError 404 ''not_found'', s)
     else if \<not> json_request rq then (sendError 415 ''json_content_type_required'', s)
     else case jsonBody rq of None \<Rightarrow> (sendError 400 ''invalid_request'', s)
     | Some body \<Rightarrow> (case bounded_string (field body ''pairId'') 256 of
         None \<Rightarrow> (sendError 400 ''invalid_pair_id'', s)
       | Some pairId \<Rightarrow>
         if rq_url rq = ''/oauth/claim'' then handle_claim N b P env pairId body s
         else if rq_url rq = ''/oauth/nonce'' then handle_nonce N b P env pairId s
         else handle_lease N b P env pairId body s))"

text \<open>
  The dispatcher.  \<open>request_url\<close> is the platform's URL parser, which yields the path and the query
  or fails; the query is parsed as \<^verbatim>\<open>URLSearchParams\<close> does.
\<close>

definition serve_plain :: "'x lease_crypto_scheme \<Rightarrow> broker \<Rightarrow> ('r, 't) providers \<Rightarrow> request_env \<Rightarrow> http_request \<Rightarrow>
    ('r, 't) broker_state \<Rightarrow> http_response \<times> ('r, 't) broker_state" where
  "serve_plain N b P env rq s =
    (if rq_method rq = ''GET'' \<and> rq_url rq = ''/health''
     then (sendJson 200 (Obj [(''service'', Str ''gdrive-stream-broker''), (''status'', Str ''ok'')]), s)
     else if rq_method rq = ''POST'' \<and> rq_url rq = ''/oauth/pair'' then handle_pair N b env rq s
     else if rq_method rq = ''POST'' \<and> rq_url rq \<in> {''/oauth/claim'', ''/oauth/nonce'', ''/oauth/lease''}
     then handle_device N b P env rq s
     else (sendError 404 ''not_found'', s))"

definition serve :: "'x lease_crypto_scheme \<Rightarrow> broker \<Rightarrow> ('r, 't) providers \<Rightarrow> request_env \<Rightarrow> http_request \<Rightarrow>
    ('r, 't) broker_state \<Rightarrow> http_response \<times> ('r, 't) broker_state" where
  "serve N b P env rq s =
    (if rq_method rq = ''GET'' then
       (case request_url env (rq_url rq) of None \<Rightarrow> (sendError 400 ''invalid_request'', s)
        | Some (path, query) \<Rightarrow>
          if path \<in> set CALLBACK_PATHS then
            (if bk_config b = None then (sendError 404 ''not_found'', s)
             else handleOAuthCallback N b P env (form_parse query) s)
          else serve_plain N b P env rq s)
     else serve_plain N b P env rq s)"

section \<open>The encrypted stores as providers\<close>

text \<open>What the environment does during one request to the two encrypted stores.\<close>

record store_env =
  se_read :: read_env
  se_write :: write_env
  se_tokenRead :: read_env
  se_tokenWrite :: write_env
  se_clearWorks :: bool

definition encrypted_providers :: "'x cipher_crypto_scheme \<Rightarrow> bytes \<Rightarrow> store_env \<Rightarrow>
    (enc_store \<times> files, files) providers" where
  "encrypted_providers N tokenKey se = \<lparr>
     reg_find = (\<lambda>p (es, fs). case enc_find N (se_read se) p es fs of (r, es') \<Rightarrow> (r, (es', fs))),
     reg_record = (\<lambda>i (es, fs). enc_record N (se_read se) (se_write se) i es fs),
     tok_read = (\<lambda>fs. read_token N tokenKey (se_tokenRead se) fs),
     reg_revoke = (\<lambda>p (es, fs). enc_revoke N (se_read se) (se_write se) p es fs),
     tok_replace = (\<lambda>i fs. replace_token N tokenKey (se_tokenWrite se) i fs),
     tok_clear = (\<lambda>fs. clear_token (se_clearWorks se) fs) \<rparr>"

end
