(* ===== verification/BrokerCases.thy ===== *)
theory BrokerCases
  imports Broker
begin

text \<open>
  The broker's handlers by outcome: elimination rules that name every way a request can end, with the
  response and the state it leaves.  The properties of the server rest on them.
\<close>

section \<open>Handlers by outcome\<close>

definition create_for :: "'x node_crypto_scheme \<Rightarrow> broker \<Rightarrow> request_env \<Rightarrow> string \<Rightarrow> string \<Rightarrow> pairing_store \<Rightarrow>
    (pairing_error, created_pairing) result \<times> pairing_store" where
  "create_for N b env signPem encPem pairs =
     create N (draw env 0) (draw env 1) (draw env 2)
       (map_option (\<lambda>cfg st verifier. Some (createAuthorizationUrl N cfg st verifier)) (bk_config b))
       signPem encPem (num_of_int (clock env 2))
       (num_of_int (case bk_config b of None \<Rightarrow> 5 * 60000 | Some cfg \<Rightarrow> pairingTtlMs cfg)) pairs"

text \<open>The error texts of the broker's JSON responses.\<close>

definition ERROR_NAMES :: "string list" where
  "ERROR_NAMES = [''not_found'', ''pairing_rate_limited'', ''json_content_type_required'', ''invalid_request'',
     ''invalid_device_public_key'', ''invalid_device_encryption_public_key'', ''enrollment_required'',
     ''invalid_pair_id'', ''invalid_proof'', ''expired'', ''not_authorized_yet'', ''revoked'',
     ''lease_unavailable'', ''invalid_nonce'']"

lemma error_names [simp]:
  "''not_found'' \<in> set ERROR_NAMES"
  "''pairing_rate_limited'' \<in> set ERROR_NAMES"
  "''json_content_type_required'' \<in> set ERROR_NAMES"
  "''invalid_request'' \<in> set ERROR_NAMES"
  "''invalid_device_public_key'' \<in> set ERROR_NAMES"
  "''invalid_device_encryption_public_key'' \<in> set ERROR_NAMES"
  "''enrollment_required'' \<in> set ERROR_NAMES"
  "''invalid_pair_id'' \<in> set ERROR_NAMES"
  "''invalid_proof'' \<in> set ERROR_NAMES"
  "''expired'' \<in> set ERROR_NAMES"
  "''not_authorized_yet'' \<in> set ERROR_NAMES"
  "''revoked'' \<in> set ERROR_NAMES"
  "''lease_unavailable'' \<in> set ERROR_NAMES"
  "''invalid_nonce'' \<in> set ERROR_NAMES"
  by (simp_all add: ERROR_NAMES_def)

text \<open>The enrollment code a pairing request presents; anything but a string counts as the empty code.\<close>

definition presented_code :: "(string \<times> jsval) list \<Rightarrow> string" where
  "presented_code body = (case as_string (field body ''enrollmentCode'') of None \<Rightarrow> [] | Some c \<Rightarrow> c)"

lemma pair_device_cases:
  obtains (refused) e c cs where "pair_device N b env body s = (sendError e c, s\<lparr> st_codes := cs \<rparr>)"
      "(e, c) \<in> {(400, ''invalid_device_public_key''), (400, ''invalid_device_encryption_public_key''),
         (403, ''enrollment_required'')}"
      "cs = st_codes s \<or> (\<exists>x t fp. cs = snd (consume N x t fp (st_codes s)))"
  | (redeemed) signPem encPem fp given cs where
      "field body ''devicePublicKeyPem'' = Str signPem" "field body ''deviceEncryptionPublicKeyPem'' = Str encPem"
      "deviceSigningKeyFingerprint N signPem = Some fp"
      "consume N given (clock env 1) (Some fp) (st_codes s) = (ConsumeOk, cs)"
      "snd (pair_device N b env body s) =
         s\<lparr> st_codes := cs, st_pairs := snd (create_for N b env signPem encPem (st_pairs s)) \<rparr>"
      "fst (pair_device N b env body s) = (case fst (create_for N b env signPem encPem (st_pairs s)) of
         Inl _ \<Rightarrow> sendError 400 ''invalid_request'' | Inr c \<Rightarrow> pair_response c)"
      "given = presented_code body"
proof (cases "bounded_string (field body ''devicePublicKeyPem'') 2048")
  case None
  then show thesis
    by (intro refused [of 400 "''invalid_device_public_key''" "st_codes s"]) (simp_all add: pair_device_def)
next
  case (Some sp)
  note sp = this
  show thesis
  proof (cases "bounded_string (field body ''deviceEncryptionPublicKeyPem'') 2048")
    case None
    with sp show thesis
      by (intro refused [of 400 "''invalid_device_encryption_public_key''" "st_codes s"])
        (simp_all add: pair_device_def)
  next
    case (Some ep)
    note ep = this
    show thesis
    proof (cases "deviceSigningKeyFingerprint N sp")
      case None
      with sp ep show thesis
        by (intro refused [of 400 "''invalid_device_public_key''" "st_codes s"]) (simp_all add: pair_device_def)
    next
      case (Some fp)
      let ?g = "case as_string (field body ''enrollmentCode'') of None \<Rightarrow> [] | Some c \<Rightarrow> c"
      obtain r cs where c: "consume N ?g (clock env 1) (Some fp) (st_codes s) = (r, cs)" by fastforce
      show thesis
      proof (cases r)
        case (ConsumeRejected x)
        have "cs = snd (consume N ?g (clock env 1) (Some fp) (st_codes s))" by (simp only: c snd_conv)
        then have "cs = st_codes s \<or> (\<exists>x t fp. cs = snd (consume N x t fp (st_codes s)))" by blast
        moreover have "pair_device N b env body s = (sendError 403 ''enrollment_required'', s\<lparr> st_codes := cs \<rparr>)"
          unfolding pair_device_def sp ep Some option.case c ConsumeRejected prod.case consume_result.case by (rule refl)
        ultimately show thesis by (intro refused [of 403 "''enrollment_required''" cs]) simp_all
      next
        case ConsumeOk
        have fields: "field body ''devicePublicKeyPem'' = Str sp" "field body ''deviceEncryptionPublicKeyPem'' = Str ep"
          using sp ep by (auto simp: bounded_string_def as_string_iff split: option.splits if_splits)
        show thesis
          by (rule redeemed [OF fields Some, of ?g cs])
            (use sp ep Some c ConsumeOk in \<open>auto simp: pair_device_def create_for_def presented_code_def split: prod.splits sum.splits\<close>)
      qed
    qed
  qed
qed

lemma handle_pair_cases:
  obtains (limited) m where "allowPairAttempt (bk_maxAttempts b) (bk_windowMs b)
        (case rq_remote rq of None \<Rightarrow> ''unknown'' | Some a \<Rightarrow> a) (clock env 0) (st_attempts s) = (False, m)"
      "handle_pair N b env rq s = (rate_limited b, s\<lparr> st_attempts := m \<rparr>)"
  | (unread) m e c where "handle_pair N b env rq s = (sendError e c, s\<lparr> st_attempts := m \<rparr>)"
      "(e, c) \<in> {(415, ''json_content_type_required''), (400, ''invalid_request'')}"
  | (read) m body where "allowPairAttempt (bk_maxAttempts b) (bk_windowMs b)
        (case rq_remote rq of None \<Rightarrow> ''unknown'' | Some a \<Rightarrow> a) (clock env 0) (st_attempts s) = (True, m)"
      "jsonBody rq = Some body" "handle_pair N b env rq s = pair_device N b env body (s\<lparr> st_attempts := m \<rparr>)"
proof -
  obtain ok m where a: "allowPairAttempt (bk_maxAttempts b) (bk_windowMs b)
      (case rq_remote rq of None \<Rightarrow> ''unknown'' | Some a \<Rightarrow> a) (clock env 0) (st_attempts s) = (ok, m)" by fastforce
  show thesis
  proof (cases ok)
    case False
    with a show thesis by (intro limited [of m]) (simp_all add: handle_pair_def)
  next
    case True
    show thesis
    proof (cases "json_request rq \<and> jsonBody rq \<noteq> None")
      case True
      then obtain body where "jsonBody rq = Some body" by blast
      with True a \<open>ok\<close> show thesis by (intro read [of m body]) (simp_all add: handle_pair_def)
    next
      case False
      show thesis
      proof (cases "json_request rq")
        case True
        with False a \<open>ok\<close> show thesis
          by (intro unread [of 400 "''invalid_request''" m]) (simp_all add: handle_pair_def)
      next
        case False
        with a \<open>ok\<close> show thesis
          by (intro unread [of 415 "''json_content_type_required''" m]) (simp_all add: handle_pair_def)
      qed
    qed
  qed
qed

lemma handle_claim_cases:
  obtains (malformed) "handle_claim N b P env pairId body s = (sendError 400 ''invalid_proof'', s)"
  | (denied) pf x pairs where
      "openClaim N pairId pf (clock env 0) (st_pairs s) = (Inl x, pairs)"
      "handle_claim N b P env pairId body s = (claim_error x, s\<lparr> st_pairs := pairs \<rparr>)"
  | (opened) pf signPem encPem pairs where
      "openClaim N pairId pf (clock env 0) (st_pairs s) = (Inr (signPem, encPem), pairs)"
      "handle_claim N b P env pairId body s = enroll_device N b P env pairId signPem encPem (s\<lparr> st_pairs := pairs \<rparr>)"
proof (cases "bounded_string (field body ''proof'') 512")
  case None
  show thesis by (rule malformed) (simp only: handle_claim_def None option.case)
next
  case (Some pf)
  note pf = this
  obtain x pairs where o: "openClaim N pairId pf (clock env 0) (st_pairs s) = (x, pairs)" by fastforce
  show thesis
  proof (cases x)
    case (Inl e)
    note o1 = o [unfolded Inl]
    show thesis by (rule denied [OF o1]) (simp only: handle_claim_def pf o1 option.case prod.case sum.case)
  next
    case (Inr k)
    obtain sp ep where k: "k = (sp, ep)" by (cases k)
    note o1 = o [unfolded Inr k]
    show thesis by (rule opened [OF o1]) (simp only: handle_claim_def pf o1 option.case prod.case sum.case)
  qed
qed

lemma claim_error_cases: "\<exists>e c. claim_error x = sendError e c \<and> 400 \<le> e \<and> c \<in> set ERROR_NAMES"
  by (cases x) (simp_all add: claim_error_def, (intro exI conjI, rule refl, simp, simp)+)

lemma enroll_device_cases:
  obtains (failed) e reg where "enroll_device N b P env pairId signPem encPem s =
      (sendError 502 ''lease_unavailable'', s\<lparr> st_reg := reg \<rparr>)"
      "reg_record P (enrollment_request b env pairId signPem encPem) (st_reg s) = (Inl e, reg)"
  | (recorded) reg where "enroll_device N b P env pairId signPem encPem s =
      (send_minted (mintSealedLease N b P env 3 encPem (st_tok s)), s\<lparr> st_reg := reg \<rparr>)"
      "reg_record P (enrollment_request b env pairId signPem encPem) (st_reg s) = (Inr (), reg)"
proof -
  let ?i = "(enrollment_request b env pairId signPem encPem)"
  obtain r reg where r: "reg_record P ?i (st_reg s) = (r, reg)" by fastforce
  show thesis
  proof (cases r)
    case (Inl er)
    note e = r [unfolded Inl]
    show thesis by (rule failed [OF _ e]) (simp only: enroll_device_def e prod.case sum.case)
  next
    case (Inr u)
    have u: "u = ()" by simp
    note e = r [unfolded Inr u]
    show thesis by (rule recorded [OF _ e]) (simp only: enroll_device_def e prod.case sum.case)
  qed
qed

lemma grant_nonce_cases:
  obtains (refused) x where "grant_nonce N b random t0 t1 pairId r s = (Inl x, s)"
      "x = DNotAuthorizedYet \<Longrightarrow> r = None \<and> handshakeInProgress N pairId (st_pairs s)"
      "r = None \<or> (\<exists>d. r = Some d \<and> (dev_revoked d \<or> t0 \<ge> dev_expiresAtMs d))"
  | (granted) d where "r = Some d" "\<not> dev_revoked d" "t0 < dev_expiresAtMs d"
      "grant_nonce N b random t0 t1 pairId r s = (Inr (toBase64Url random, t1 + bk_nonceTtlMs b),
         s\<lparr> st_nonces := mput (nonceHash N (toBase64Url random))
             \<lparr> iss_pairIdHash = pairIdHash N pairId, iss_expiresAtMs = t1 + bk_nonceTtlMs b \<rparr> (st_nonces s) \<rparr>)"
proof (cases r)
  case None
  then show thesis
    by (intro refused [of "if handshakeInProgress N pairId (st_pairs s) then DNotAuthorizedYet else DRevoked"])
      (auto simp: grant_nonce_def split: if_splits)
next
  case (Some d)
  then show thesis
    by (cases "dev_revoked d \<or> t0 \<ge> dev_expiresAtMs d")
      (auto intro: refused [of DRevoked] granted simp: grant_nonce_def Let_def)
qed

lemma redeem_nonce_cases:
  obtains (refused) x where "fst (redeem_nonce N t0 t1 pairId nonce pf r s) = Inl x"
      "snd (redeem_nonce N t0 t1 pairId nonce pf r s) = s
        \<or> snd (redeem_nonce N t0 t1 pairId nonce pf r s) = s\<lparr> st_nonces := mdel (nonceHash N nonce) (st_nonces s) \<rparr>"
  | (redeemed) d n where "r = Some d" "\<not> dev_revoked d" "t0 < dev_expiresAtMs d"
      "mget (st_nonces s) (nonceHash N nonce) = Some n" "iss_pairIdHash n = pairIdHash N pairId"
      "t1 < iss_expiresAtMs n" "durable_proof N d nonce pf"
      "redeem_nonce N t0 t1 pairId nonce pf r s =
         (Inr (dev_encryptionPem d), s\<lparr> st_nonces := mdel (nonceHash N nonce) (st_nonces s) \<rparr>)"
proof (cases "\<exists>d n. r = Some d \<and> \<not> dev_revoked d \<and> t0 < dev_expiresAtMs d
    \<and> mget (st_nonces s) (nonceHash N nonce) = Some n \<and> iss_pairIdHash n = pairIdHash N pairId
    \<and> t1 < iss_expiresAtMs n \<and> durable_proof N d nonce pf")
  case True
  then obtain d n where "r = Some d" "\<not> dev_revoked d" "t0 < dev_expiresAtMs d"
    "mget (st_nonces s) (nonceHash N nonce) = Some n" "iss_pairIdHash n = pairIdHash N pairId"
    "t1 < iss_expiresAtMs n" "durable_proof N d nonce pf" by blast
  then show thesis by (intro redeemed [of d n]) (simp_all add: redeem_nonce_def Let_def)
next
  case False
  then have "\<not> is_ok (fst (redeem_nonce N t0 t1 pairId nonce pf r s))"
    by (auto simp: redeem_nonce_def Let_def split: option.splits)
  then obtain x where "fst (redeem_nonce N t0 t1 pairId nonce pf r s) = Inl x"
    by (cases "fst (redeem_nonce N t0 t1 pairId nonce pf r s)") auto
  moreover have "snd (redeem_nonce N t0 t1 pairId nonce pf r s) = s
      \<or> snd (redeem_nonce N t0 t1 pairId nonce pf r s) = s\<lparr> st_nonces := mdel (nonceHash N nonce) (st_nonces s) \<rparr>"
    by (auto simp: redeem_nonce_def Let_def split: option.splits)
  ultimately show thesis by (rule refused)
qed

lemma handle_nonce_cases:
  obtains (denied) e c reg where "handle_nonce N b P env pairId s = (sendError e c, s\<lparr> st_reg := reg \<rparr>)" "400 \<le> e" "c \<in> set ERROR_NAMES"
      "reg = st_reg s \<or> reg = snd (reg_find P pairId (st_reg s))"
  | (granted) d reg s' nonce x where "statusOf N pairId (st_pairs s) \<noteq> Some Revoked"
      "reg_find P pairId (st_reg s) = (Inr (Some d), reg)" "\<not> dev_revoked d" "clock env 0 < dev_expiresAtMs d"
      "grant_nonce N b (draw env 0) (clock env 0) (clock env 1) pairId (Some d) (s\<lparr> st_reg := reg \<rparr>) = (Inr (nonce, x), s')"
      "handle_nonce N b P env pairId s = (sendJson 200 (Obj [(''nonce'', Str nonce), (''expiresAtMs'', jint x)]), s')"
proof (cases "statusOf N pairId (st_pairs s) = Some Revoked")
  case True
  show thesis
    by (rule denied [of 403 "''revoked''" "st_reg s"]) (simp_all add: handle_nonce_def issueDurableNonce_def True)
next
  case False
  obtain r reg where f: "reg_find P pairId (st_reg s) = (r, reg)" by fastforce
  show thesis
  proof (cases r)
    case (Inl e)
    with f False show thesis
      by (intro denied [of 400 "''invalid_request''" reg]) (simp_all add: handle_nonce_def issueDurableNonce_def)
  next
    case (Inr dopt)
    let ?s = "s\<lparr> st_reg := reg \<rparr>"
    show thesis
    proof (cases rule: grant_nonce_cases [of N b "draw env 0" "clock env 0" "clock env 1" pairId dopt ?s])
      case (refused x)
      then show thesis
        using False f Inr
        by (cases x) (auto intro!: denied [of _ _ reg] simp: handle_nonce_def issueDurableNonce_def)
    next
      case (granted d)
      note g = granted(4) [unfolded granted(1)]
      show thesis
        by (rule that(2) [OF False _ granted(2,3) g])
          (use f Inr granted(1) in simp,
           simp only: handle_nonce_def issueDurableNonce_def False if_False f Inr granted(1) g prod.case sum.case)
    qed
  qed
qed

lemma same_stores: "\<exists>nonces reg. s = s\<lparr> st_reg := reg, st_nonces := nonces \<rparr> \<and> (reg = st_reg s \<or> Q reg)"
  by (rule exI [of _ "st_nonces s"], rule exI [of _ "st_reg s"]) simp

text \<open>The durable nonce at the server: the store fails, the nonce is refused, or it is redeemed.\<close>

lemma consume_durable_cases:
  obtains (store_failed) e reg where "reg_find P pairId (st_reg s) = (Inl e, reg)"
      "consumeDurableNonce N P env pairId nonce pf s = (Inl e, s\<lparr> st_reg := reg \<rparr>)"
  | (refused) x nonces reg where "consumeDurableNonce N P env pairId nonce pf s = (Inr (Inl x), s\<lparr> st_reg := reg, st_nonces := nonces \<rparr>)"
      "reg = st_reg s \<or> reg = snd (reg_find P pairId (st_reg s))"
  | (redeemed) d reg s' where "statusOf N pairId (st_pairs s) \<noteq> Some Revoked"
      "reg_find P pairId (st_reg s) = (Inr (Some d), reg)" "\<not> dev_revoked d" "clock env 0 < dev_expiresAtMs d"
      "redeem_nonce N (clock env 0) (clock env 1) pairId nonce pf (Some d) (s\<lparr> st_reg := reg \<rparr>)
         = (Inr (dev_encryptionPem d), s')"
      "s' = s\<lparr> st_reg := reg, st_nonces := mdel (nonceHash N nonce) (st_nonces s) \<rparr>"
      "consumeDurableNonce N P env pairId nonce pf s = (Inr (Inr (dev_encryptionPem d)), s')"
proof (cases "statusOf N pairId (st_pairs s) = Some Revoked")
  case True
  show thesis
    by (rule refused [of DRevoked "st_nonces s" "st_reg s"]) (simp_all add: consumeDurableNonce_def True)
next
  case status: False
  obtain r reg where f: "reg_find P pairId (st_reg s) = (r, reg)" by fastforce
  show thesis
  proof (cases r)
    case (Inl e)
    then show thesis by (intro store_failed [of e reg]) (simp_all add: consumeDurableNonce_def status f)
  next
    case (Inr dopt)
    let ?s = "s\<lparr> st_reg := reg \<rparr>"
    note leaves = refused and redeems = redeemed
    have c: "consumeDurableNonce N P env pairId nonce pf s
        = (case redeem_nonce N (clock env 0) (clock env 1) pairId nonce pf dopt ?s of (y, s') \<Rightarrow> (Inr y, s'))"
      by (simp add: consumeDurableNonce_def status f Inr)
    show thesis
    proof (cases rule: redeem_nonce_cases [of N "clock env 0" "clock env 1" pairId nonce pf dopt ?s])
      case (refused x)
      then have "redeem_nonce N (clock env 0) (clock env 1) pairId nonce pf dopt ?s = (Inl x, ?s\<lparr> st_nonces := st_nonces s \<rparr>)
          \<or> redeem_nonce N (clock env 0) (clock env 1) pairId nonce pf dopt ?s
            = (Inl x, ?s\<lparr> st_nonces := mdel (nonceHash N nonce) (st_nonces s) \<rparr>)"
        by (auto simp: prod_eq_iff)
      then obtain nonces where "redeem_nonce N (clock env 0) (clock env 1) pairId nonce pf dopt ?s
          = (Inl x, ?s\<lparr> st_nonces := nonces \<rparr>)" by blast
      then show thesis by (intro leaves [of x nonces reg]) (simp_all add: c f)
    next
      case (redeemed d n)
      note rd = redeemed(8) [unfolded redeemed(1)]
      show thesis
        by (rule redeems [OF status _ redeemed(2,3) rd]) (use f Inr redeemed(1) rd in \<open>simp_all add: c\<close>)
    qed
  qed
qed

lemma handle_lease_cases:
  obtains (denied) e c where "fst (handle_lease N b P env pairId body s) = sendError e c" "400 \<le> e" "c \<in> set ERROR_NAMES"
      "\<exists>nonces reg. snd (handle_lease N b P env pairId body s) = s\<lparr> st_reg := reg, st_nonces := nonces \<rparr>
         \<and> (reg = st_reg s \<or> reg = snd (reg_find P pairId (st_reg s)))"
  | (leased) nonce pf d reg s' where "statusOf N pairId (st_pairs s) \<noteq> Some Revoked"
      "reg_find P pairId (st_reg s) = (Inr (Some d), reg)" "\<not> dev_revoked d" "clock env 0 < dev_expiresAtMs d"
      "field body ''nonce'' = Str nonce" "field body ''proof'' = Str pf"
      "redeem_nonce N (clock env 0) (clock env 1) pairId nonce pf (Some d) (s\<lparr> st_reg := reg \<rparr>)
         = (Inr (dev_encryptionPem d), s')"
      "s' = s\<lparr> st_reg := reg, st_nonces := mdel (nonceHash N nonce) (st_nonces s) \<rparr>"
      "handle_lease N b P env pairId body s = (send_minted (mintSealedLease N b P env 2 (dev_encryptionPem d) (st_tok s)), s')"
proof (cases "bounded_string (field body ''nonce'') 256 = None \<or> bounded_string (field body ''proof'') 512 = None")
  case True
  then show thesis
    by (intro denied [of 403 "''invalid_nonce''"])
      (auto simp: handle_lease_def same_stores split: option.splits)
next
  case False
  then obtain nonce pf where fields: "bounded_string (field body ''nonce'') 256 = Some nonce"
    "bounded_string (field body ''proof'') 512 = Some pf" by auto
  have h: "handle_lease N b P env pairId body s = (case consumeDurableNonce N P env pairId nonce pf s of
      (Inl _, s') \<Rightarrow> (sendError 400 ''invalid_request'', s')
    | (Inr (Inl e), s') \<Rightarrow> (lease_error e, s')
    | (Inr (Inr encPem), s') \<Rightarrow> (send_minted (mintSealedLease N b P env 2 encPem (st_tok s')), s'))"
    by (simp only: handle_lease_def fields prod.case option.case)
  have strs: "field body ''nonce'' = Str nonce" "field body ''proof'' = Str pf"
    using fields by (auto simp: bounded_string_def as_string_iff split: option.splits if_splits)
  show thesis
  proof (cases rule: consume_durable_cases [of P pairId s N env nonce pf])
    case (store_failed e reg)
    have "\<exists>nonces reg'. s\<lparr> st_reg := reg \<rparr> = s\<lparr> st_reg := reg', st_nonces := nonces \<rparr>
        \<and> (reg' = st_reg s \<or> reg' = reg)"
      by (rule exI [of _ "st_nonces s"], rule exI [of _ reg]) simp
    with store_failed show thesis by (intro denied [of 400 "''invalid_request''"]) (simp_all add: h)
  next
    case (refused x nonces reg)
    obtain e c where "lease_error x = sendError e c" "400 \<le> e" "c \<in> set ERROR_NAMES"
      by (cases x) (auto simp: lease_error_def)
    with refused show thesis by (intro denied [of e c]) (auto simp: h)
  next
    case (redeemed d reg s')
    show thesis
      by (rule leased [OF redeemed(1-4) strs redeemed(5,6)]) (simp add: h redeemed(6,7))
  qed
qed

lemma serve_cases:
  obtains (fixed) "snd (serve N b P env rq s) = s"
      "fst (serve N b P env rq s) \<in> {sendError 404 ''not_found'', sendError 400 ''invalid_request'',
         sendError 415 ''json_content_type_required'', sendError 400 ''invalid_pair_id'',
         sendJson 200 (Obj [(''service'', Str ''gdrive-stream-broker''), (''status'', Str ''ok'')])}"
      "rq_method rq = ''POST'' \<Longrightarrow> 400 \<le> rs_status (fst (serve N b P env rq s))"
  | (callback) path query where "rq_method rq = ''GET''" "request_url env (rq_url rq) = Some (path, query)"
      "path \<in> set CALLBACK_PATHS" "serve N b P env rq s = handleOAuthCallback N b P env (form_parse query) s"
  | (pair) "rq_method rq = ''POST''" "rq_url rq = ''/oauth/pair''" "serve N b P env rq s = handle_pair N b env rq s"
  | (claim) body pairId where "rq_method rq = ''POST''" "rq_url rq = ''/oauth/claim''" "leaseEndpointReady b"
      "jsonBody rq = Some body" "field body ''pairId'' = Str pairId"
      "serve N b P env rq s = handle_claim N b P env pairId body s"
  | (nonce) body pairId where "rq_method rq = ''POST''" "rq_url rq = ''/oauth/nonce''" "leaseEndpointReady b"
      "jsonBody rq = Some body" "field body ''pairId'' = Str pairId"
      "serve N b P env rq s = handle_nonce N b P env pairId s"
  | (lease) body pairId where "rq_method rq = ''POST''" "rq_url rq = ''/oauth/lease''" "leaseEndpointReady b"
      "jsonBody rq = Some body" "field body ''pairId'' = Str pairId"
      "serve N b P env rq s = handle_lease N b P env pairId body s"
proof (cases "rq_method rq = ''POST'' \<and> rq_url rq \<in> {''/oauth/claim'', ''/oauth/nonce'', ''/oauth/lease''}")
  case True
  then have d: "serve N b P env rq s = handle_device N b P env rq s" by (auto simp: serve_def serve_plain_def)
  show thesis
  proof (cases "leaseEndpointReady b \<and> json_request rq \<and> jsonBody rq \<noteq> None
      \<and> (case jsonBody rq of None \<Rightarrow> False | Some body \<Rightarrow> bounded_string (field body ''pairId'') 256 \<noteq> None)")
    case False
    then have "serve N b P env rq s \<in> {(sendError 404 ''not_found'', s), (sendError 400 ''invalid_request'', s),
        (sendError 415 ''json_content_type_required'', s), (sendError 400 ''invalid_pair_id'', s)}"
      by (auto simp: d handle_device_def split: option.splits)
    then show thesis by (intro fixed) (auto simp: sendError_def sendJson_def)
  next
    case go: True
    then obtain body p where b: "leaseEndpointReady b" "jsonBody rq = Some body"
      and p: "bounded_string (field body ''pairId'') 256 = Some p" "json_request rq"
      by (auto split: option.splits)
    have f: "field body ''pairId'' = Str p"
      using p by (auto simp: bounded_string_def as_string_iff split: option.splits if_splits)
    have "serve N b P env rq s = (if rq_url rq = ''/oauth/claim'' then handle_claim N b P env p body s
         else if rq_url rq = ''/oauth/nonce'' then handle_nonce N b P env p s
         else handle_lease N b P env p body s)"
      by (simp only: d handle_device_def b p option.case not_True_eq_False if_False)
    with True show thesis
      by (auto intro: claim [OF _ _ b f] nonce [OF _ _ b f] lease [OF _ _ b f])
  qed
next
  case False
  note other = this
  show thesis
  proof (cases "rq_method rq = ''POST'' \<and> rq_url rq = ''/oauth/pair''")
    case True
    then show thesis by (intro pair) (simp_all add: serve_def serve_plain_def)
  next
    case False
    show thesis
    proof (cases "\<exists>path query. rq_method rq = ''GET'' \<and> request_url env (rq_url rq) = Some (path, query)
        \<and> path \<in> set CALLBACK_PATHS \<and> bk_config b \<noteq> None")
      case True
      then obtain path query where "rq_method rq = ''GET''" "request_url env (rq_url rq) = Some (path, query)"
        "path \<in> set CALLBACK_PATHS" "bk_config b \<noteq> None" by blast
      then show thesis by (intro callback [of path query]) (auto simp: serve_def)
    next
      case cb: False
      then have "serve N b P env rq s \<in> {(sendError 404 ''not_found'', s), (sendError 400 ''invalid_request'', s),
          (sendJson 200 (Obj [(''service'', Str ''gdrive-stream-broker''), (''status'', Str ''ok'')]), s)}"
        "rq_method rq = ''POST'' \<Longrightarrow> serve N b P env rq s = (sendError 404 ''not_found'', s)"
        using other False by (auto simp: serve_def serve_plain_def split: option.splits prod.splits)
      then show thesis by (intro fixed) (auto simp: sendError_def sendJson_def)
    qed
  qed
qed

lemma complete_callback_cases:
  obtains (failed) tok pairs where
      "complete_callback N P env cfg secret authCode got s = (False, s\<lparr> st_pairs := pairs, st_tok := tok \<rparr>)"
      "pairs = st_pairs s \<or> markAuthorized N (consumed_handle got) (clock env 2) (st_pairs s) = (False, pairs)"
  | (authorized) tokens scope tok pairs where
      "exchangeAuthorizationCode cfg authCode (consumed_verifier got) secret (google env) = Inr tokens"
      "validateGrantedScope (granted_scope tokens) (googleDriveScope cfg) [googleDriveScope cfg] = Inr scope"
      "store_grant P (clock env 1) tokens scope (st_tok s) = (True, tok)"
      "markAuthorized N (consumed_handle got) (clock env 2) (st_pairs s) = (True, pairs)"
      "complete_callback N P env cfg secret authCode got s = (True, s\<lparr> st_pairs := pairs, st_tok := tok \<rparr>)"
proof (cases "exchangeAuthorizationCode cfg authCode (consumed_verifier got) secret (google env)")
  case (Inl e)
  then show thesis
    by (intro failed [of "st_tok s" "st_pairs s"]) (simp_all add: complete_callback_def)
next
  case (Inr tokens)
  note ex = this
  show thesis
  proof (cases "validateGrantedScope (granted_scope tokens) (googleDriveScope cfg) [googleDriveScope cfg]")
    case (Inl e)
    with ex show thesis
      by (intro failed [of "st_tok s" "st_pairs s"]) (simp_all add: complete_callback_def)
  next
    case (Inr scope)
    note sc = this
    obtain ok tok where st: "store_grant P (clock env 1) tokens scope (st_tok s) = (ok, tok)" by fastforce
    obtain m pairs where mk: "markAuthorized N (consumed_handle got) (clock env 2) (st_pairs s) = (m, pairs)"
      by fastforce
    show thesis
    proof (cases ok)
      case True
      have st': "store_grant P (clock env 1) tokens scope (st_tok s) = (True, tok)" using st True by simp
      show thesis
      proof (cases m)
        case True
        have mk': "markAuthorized N (consumed_handle got) (clock env 2) (st_pairs s) = (True, pairs)" using mk True by simp
        show thesis
          by (rule authorized [OF ex sc st' mk']) (simp add: complete_callback_def ex sc st' mk' del: One_nat_def)
      next
        case False
        have mk': "markAuthorized N (consumed_handle got) (clock env 2) (st_pairs s) = (False, pairs)" using mk False by simp
        show thesis
          by (rule failed [of tok pairs]) (simp_all add: complete_callback_def ex sc st' mk' del: One_nat_def)
      qed
    next
      case False
      have st': "store_grant P (clock env 1) tokens scope (st_tok s) = (False, tok)" using st False by simp
      show thesis
        by (rule failed [of tok "st_pairs s"]) (simp_all add: complete_callback_def ex sc st' del: One_nat_def)
    qed
  qed
qed

lemma callback_cases:
  obtains (untouched) "handleOAuthCallback N b P env ps s = (callback_page False, s)"
  | (unknown) pairs where "consumeOAuthState N (draw env 0) (param ps ''state'') (clock env 0) (st_pairs s) = (None, pairs)"
      "handleOAuthCallback N b P env ps s = (callback_page False, s\<lparr> st_pairs := pairs \<rparr>)"
  | (failed) got pairs tok pairs' where
      "consumeOAuthState N (draw env 0) (param ps ''state'') (clock env 0) (st_pairs s) = (Some got, pairs)"
      "pairs' = pairs \<or> markAuthorized N (consumed_handle got) (clock env 2) pairs = (False, pairs')"
      "handleOAuthCallback N b P env ps s = (callback_page False, s\<lparr> st_pairs := pairs', st_tok := tok \<rparr>)"
  | (authorized) cfg secret got pairs tokens scope tok pairs' where
      "bk_config b = Some cfg" "usable_secret b = Some secret"
      "consumeOAuthState N (draw env 0) (param ps ''state'') (clock env 0) (st_pairs s) = (Some got, pairs)"
      "exchangeAuthorizationCode cfg (param ps ''code'') (consumed_verifier got) secret (google env) = Inr tokens"
      "validateGrantedScope (granted_scope tokens) (googleDriveScope cfg) [googleDriveScope cfg] = Inr scope"
      "store_grant P (clock env 1) tokens scope (st_tok s) = (True, tok)"
      "markAuthorized N (consumed_handle got) (clock env 2) pairs = (True, pairs')"
      "handleOAuthCallback N b P env ps s = (callback_page True, s\<lparr> st_pairs := pairs', st_tok := tok \<rparr>)"
proof (cases "''error'' \<in> fst ` set ps \<or> bk_config b = None \<or> usable_secret b = None \<or> \<not> bk_hasTokens b
    \<or> param ps ''state'' = [] \<or> param ps ''code'' = []")
  case True
  then show thesis
    by (intro untouched) (auto simp: handleOAuthCallback_def split: option.splits bool.splits)
next
  case False
  then obtain cfg secret where c: "bk_config b = Some cfg" "usable_secret b = Some secret" "bk_hasTokens b = True"
    by auto
  obtain g pairs where g: "consumeOAuthState N (draw env 0) (param ps ''state'') (clock env 0) (st_pairs s) = (g, pairs)"
    by fastforce
  let ?s1 = "s\<lparr> st_pairs := pairs \<rparr>"
  show thesis
  proof (cases g)
    case None
    note g' = g [unfolded None]
    show thesis
      by (rule unknown [OF g']) (use False in \<open>simp add: handleOAuthCallback_def c g'\<close>)
  next
    case (Some got)
    note g' = g [unfolded Some]
    have h: "handleOAuthCallback N b P env ps s =
        (case complete_callback N P env cfg secret (param ps ''code'') got ?s1 of (ok, s') \<Rightarrow> (callback_page ok, s'))"
      using False by (simp add: handleOAuthCallback_def c g')
    show thesis
    proof (cases rule: complete_callback_cases [of N P env cfg secret "param ps ''code''" got ?s1])
      case (failed tok pairs')
      then show thesis by (intro that(3) [OF g', of pairs' tok]) (simp_all add: h)
    next
      case (authorized tokens scope tok pairs')
      then show thesis by (intro that(4) [OF c(1,2) g']) (simp_all add: h)
    qed
  qed
qed

end
