(* ===== verification/Admin.thy ===== *)
theory Admin
  imports BrokerCases
begin

text \<open>
  \<^verbatim>\<open>broker/src/admin-server.ts\<close>: the operator's surface, which runs on the same stores as the broker
  (\<^verbatim>\<open>index.ts\<close> passes them to both).  The comparison of tokens is by their digests, as in the code.
\<close>

section \<open>Operations\<close>

definition DEFAULT_ENROLLMENT_TTL_MS :: int where "DEFAULT_ENROLLMENT_TTL_MS = 10 * 60000"
definition MIN_ADMIN_TOKEN :: nat where "MIN_ADMIN_TOKEN = 16"

record admin =
  ad_token :: string
  ad_ttlMs :: number
  ad_hasRegistry :: bool
  ad_hasTokens :: bool

definition createAdminServer :: "jsval \<Rightarrow> number option \<Rightarrow> bool \<Rightarrow> bool \<Rightarrow> admin option" where
  "createAdminServer token ttl registry tokenStore = (case as_string token of None \<Rightarrow> None
     | Some t \<Rightarrow> if length t < MIN_ADMIN_TOKEN then None
       else Some \<lparr> ad_token = t, ad_ttlMs = or_default ttl DEFAULT_ENROLLMENT_TTL_MS,
         ad_hasRegistry = registry, ad_hasTokens = tokenStore \<rparr>)"

text \<open>
  \<^verbatim>\<open>/^Bearer[ ]+(.+)$/i\<close> on the trimmed header: the dot excludes line terminators, and a trimmed text
  that has a space after the scheme has a token after its spaces.
\<close>

definition is_line_end :: "char \<Rightarrow> bool" where
  "is_line_end c \<longleftrightarrow> code c = 10 \<or> code c = 13"

definition bearerToken :: "string option \<Rightarrow> string option" where
  "bearerToken header = (case header of None \<Rightarrow> None
     | Some h \<Rightarrow>
       (let t = trim h; rest = drop 6 t; token = dropWhile (\<lambda>c. c = CHR '' '') rest
        in if lower (take 6 t) \<noteq> ''bearer'' \<or> rest = [] \<or> hd rest \<noteq> CHR '' '' \<or> token = []
             \<or> list_ex is_line_end token then None
           else Some token))"

definition tokenMatches :: "'x node_crypto_scheme \<Rightarrow> string option \<Rightarrow> string \<Rightarrow> bool" where
  "tokenMatches N provided expected = (case provided of None \<Rightarrow> False
     | Some p \<Rightarrow> if p = [] then False else sha256 N (utf8 p) = sha256 N (utf8 expected))"

definition counts_json :: "code_counts \<Rightarrow> jsval" where
  "counts_json c = Obj [(''count'', jint (int (count_all c))), (''used'', jint (int (count_used c))),
     (''unused'', jint (int (count_unused c))), (''expiries'', Arr (map jint (expiries c)))]"

text \<open>\<^verbatim>\<open>/^[0-9a-f]{64}$/i\<close> on the trimmed value.\<close>

definition operator_fingerprint :: "jsval \<Rightarrow> string option" where
  "operator_fingerprint v = (case as_string v of None \<Rightarrow> None
     | Some s \<Rightarrow> (let t = trim s
         in if length t = 64 \<and> list_all (\<lambda>c. is_digit c \<or> 65 \<le> code c \<and> code c \<le> 70 \<or> 97 \<le> code c \<and> code c \<le> 102) t
            then Some (lower t) else None))"

definition admin_issue :: "'x node_crypto_scheme \<Rightarrow> admin \<Rightarrow> request_env \<Rightarrow> http_request \<Rightarrow>
    ('r, 't) broker_state \<Rightarrow> http_response \<times> ('r, 't) broker_state" where
  "admin_issue N a env rq s =
    (if \<not> json_request rq then (sendError 415 ''json_content_type_required'', s)
     else case jsonBody rq of None \<Rightarrow> (sendError 400 ''invalid_request'', s)
     | Some body \<Rightarrow> (case operator_fingerprint (field body ''deviceFingerprint'') of
         None \<Rightarrow> (sendError 400 ''invalid_device_fingerprint'', s)
       | Some fp \<Rightarrow> (case issue N (draw env 0) (num_of_int (clock env 0)) (ad_ttlMs a) (Str fp) (st_codes s) of
           (Inl _, cs) \<Rightarrow> (sendError 400 ''invalid_request'', s\<lparr> st_codes := cs \<rparr>)
         | (Inr c, cs) \<Rightarrow> (sendJson 201 (Obj [(''code'', Str (issued_text c)),
               (''expiresAtMs'', jint (issued_expiresAtMs c))]), s\<lparr> st_codes := cs \<rparr>))))"

definition revoke_everywhere :: "'x node_crypto_scheme \<Rightarrow> admin \<Rightarrow> ('r, 't) providers \<Rightarrow> string \<Rightarrow>
    ('r, 't) broker_state \<Rightarrow> http_response \<times> ('r, 't) broker_state" where
  "revoke_everywhere N a P pairId s =
    (case revoke N pairId (st_pairs s) of (byPairing, pairs) \<Rightarrow>
      (case (if ad_hasRegistry a then reg_revoke P pairId (st_reg s) else (Inr False, st_reg s)) of
         (Inl _, reg) \<Rightarrow> (sendError 400 ''invalid_request'', s\<lparr> st_pairs := pairs, st_reg := reg \<rparr>)
       | (Inr byRecord, reg) \<Rightarrow>
         (let revoked = byPairing \<or> byRecord
          in case (if revoked \<and> ad_hasTokens a then tok_clear P (st_tok s) else (Inr (), st_tok s)) of
               (Inl _, tok) \<Rightarrow> (sendError 400 ''invalid_request'',
                  s\<lparr> st_pairs := pairs, st_reg := reg, st_tok := tok \<rparr>)
             | (Inr _, tok) \<Rightarrow> (sendJson 200 (Obj [(''revoked'', Bool revoked)]),
                  s\<lparr> st_pairs := pairs, st_reg := reg, st_tok := tok \<rparr>))))"

definition admin_revoke :: "'x node_crypto_scheme \<Rightarrow> admin \<Rightarrow> ('r, 't) providers \<Rightarrow> http_request \<Rightarrow>
    ('r, 't) broker_state \<Rightarrow> http_response \<times> ('r, 't) broker_state" where
  "admin_revoke N a P rq s =
    (if \<not> json_request rq then (sendError 415 ''json_content_type_required'', s)
     else case jsonBody rq of None \<Rightarrow> (sendError 400 ''invalid_request'', s)
     | Some body \<Rightarrow> (case bounded_string (field body ''pairId'') 256 of
         None \<Rightarrow> (sendError 400 ''invalid_pair_id'', s)
       | Some pairId \<Rightarrow> revoke_everywhere N a P pairId s))"

definition admin_serve :: "'x node_crypto_scheme \<Rightarrow> admin \<Rightarrow> ('r, 't) providers \<Rightarrow> request_env \<Rightarrow> http_request \<Rightarrow>
    ('r, 't) broker_state \<Rightarrow> http_response \<times> ('r, 't) broker_state" where
  "admin_serve N a P env rq s =
    (if \<not> tokenMatches N (bearerToken (rq_auth rq)) (ad_token a) then (sendError 401 ''unauthorized'', s)
     else if rq_method rq = ''POST'' \<and> rq_url rq = ''/admin/enrollment'' then admin_issue N a env rq s
     else if rq_method rq = ''GET'' \<and> rq_url rq = ''/admin/enrollment''
     then (sendJson 200 (counts_json (debugCounts (st_codes s))), s)
     else if rq_method rq = ''POST'' \<and> rq_url rq = ''/admin/revoke'' then admin_revoke N a P rq s
     else (sendError 404 ''not_found'', s))"

end
