(* ===== verification/RuntimeSecrets.thy ===== *)
theory RuntimeSecrets
  imports ProtectedDir OAuth Admin
begin

text \<open>
  \<^verbatim>\<open>broker/src/runtime-secrets.ts\<close>: the protected secret files and the deployment environment.  The
  file system answers two calls, \<^verbatim>\<open>lstat\<close> and \<^verbatim>\<open>readFile\<close>, and the process knows its account; both are
  a \<open>host\<close> record.  Errors carry the code and the message of \<^verbatim>\<open>RuntimeSecretError\<close>.
\<close>

section \<open>Protected files\<close>

datatype secret_code = NotConfigured | MissingFile | NotRegularFile | FileNotOwned | InsecurePermissions
  | EmptySecret | InvalidBase64 | InvalidKeyLength | SecretIoError

type_synonym secret_error = "secret_code \<times> string"

definition TOKEN_KEY_BYTES :: nat where "TOKEN_KEY_BYTES = 32"
definition DEFAULT_PUBLIC_PORT :: int where "DEFAULT_PUBLIC_PORT = 34003"
definition DEFAULT_ADMIN_PORT :: int where "DEFAULT_ADMIN_PORT = 34004"
definition DEFAULT_GATEWAY_PORT :: int where "DEFAULT_GATEWAY_PORT = 34005"
definition DEFAULT_PRIVATE_GATEWAY_PORT :: int where "DEFAULT_PRIVATE_GATEWAY_PORT = 34006"
definition MIN_PORT :: int where "MIN_PORT = 1024"
definition MAX_PORT :: int where "MAX_PORT = 65535"
definition MIN_ADMIN_TOKEN_LENGTH :: nat where "MIN_ADMIN_TOKEN_LENGTH = 16"

text \<open>The mode masks the code writes in octal.\<close>

definition OCTAL_077 :: "32 word" where "OCTAL_077 = 7 * 8 + 7"
definition OCTAL_027 :: "32 word" where "OCTAL_027 = 2 * 8 + 7"
definition OCTAL_040 :: "32 word" where "OCTAL_040 = 4 * 8"

record file_stats =
  isFile :: bool
  file_uid :: int
  file_gid :: int
  file_mode :: "32 word"

datatype lstat_outcome = FileStats file_stats | FileMissing | LstatFails

record host =
  host_uid :: "int option"
  host_gid :: "int option"
  host_lstat :: "string \<Rightarrow> lstat_outcome"
  host_read :: "string \<Rightarrow> bytes option"

record protected_options =
  opt_uid :: "int option"
  opt_gid :: "int option"
  opt_rootUid :: "int option"

definition NO_OPTIONS :: protected_options where
  "NO_OPTIONS = \<lparr> opt_uid = None, opt_gid = None, opt_rootUid = None \<rparr>"

definition fileServiceUid :: "host \<Rightarrow> protected_options \<Rightarrow> int" where
  "fileServiceUid H o' = (case opt_uid o' of Some u \<Rightarrow> u
     | None \<Rightarrow> (case host_uid H of Some u \<Rightarrow> u | None \<Rightarrow> - 1))"

definition fileServiceGid :: "host \<Rightarrow> protected_options \<Rightarrow> int" where
  "fileServiceGid H o' = (case opt_gid o' of Some g \<Rightarrow> g
     | None \<Rightarrow> (case host_gid H of Some g \<Rightarrow> g | None \<Rightarrow> - 1))"

definition trustedRootUid :: "protected_options \<Rightarrow> int" where
  "trustedRootUid o' = (case opt_rootUid o' of Some u \<Rightarrow> u | None \<Rightarrow> 0)"

definition notConfigured :: "string \<Rightarrow> secret_error" where
  "notConfigured m = (NotConfigured, m)"

definition service_owned :: "host \<Rightarrow> protected_options \<Rightarrow> file_stats \<Rightarrow> bool" where
  "service_owned H o' st \<longleftrightarrow> fileServiceUid H o' < 0 \<or> file_uid st = fileServiceUid H o'"

definition root_controlled :: "host \<Rightarrow> protected_options \<Rightarrow> file_stats \<Rightarrow> bool" where
  "root_controlled H o' st \<longleftrightarrow> fileServiceUid H o' \<ge> 0 \<and> file_uid st = trustedRootUid o'
     \<and> fileServiceGid H o' \<ge> 0 \<and> file_gid st = fileServiceGid H o'
     \<and> file_mode st AND OCTAL_027 = 0 \<and> file_mode st AND OCTAL_040 = OCTAL_040"

definition readProtectedText :: "host \<Rightarrow> string \<Rightarrow> string \<Rightarrow> protected_options \<Rightarrow> (secret_error, string) result" where
  "readProtectedText H label path o' =
    (if trim path = [] then Inl (notConfigured (label @ '' path is required''))
     else case host_lstat H path of
       FileMissing \<Rightarrow> Inl (MissingFile, label @ '' file is missing: '' @ path)
     | LstatFails \<Rightarrow> Inl (SecretIoError, label @ '' file could not be inspected: '' @ path)
     | FileStats st \<Rightarrow>
       if \<not> isFile st then Inl (NotRegularFile, label @ '' path is not a regular file: '' @ path)
       else if \<not> service_owned H o' st \<and> \<not> root_controlled H o' st
       then Inl (FileNotOwned, label @ '' file is not owned by the service or trusted root/service group: '' @ path)
       else if service_owned H o' st \<and> file_mode st AND OCTAL_077 \<noteq> 0
       then Inl (InsecurePermissions,
         label @ '' file must not be accessible to group or other (expected mode 0600): '' @ path)
       else if root_controlled H o' st \<and> file_mode st AND OCTAL_027 \<noteq> 0
       then Inl (InsecurePermissions,
         label @ '' root-owned file must be group-read-only for the service (expected mode 0640): '' @ path)
       else case host_read H path of
         None \<Rightarrow> Inl (SecretIoError, label @ '' file could not be read: '' @ path)
       | Some raw \<Rightarrow> Inr (trim (utf8_decode raw)))"

definition readProtectedSecretFile :: "host \<Rightarrow> string \<Rightarrow> protected_options \<Rightarrow> (secret_error, string) result" where
  "readProtectedSecretFile H path o' = bind_result (readProtectedText H ''Secret'' path o') (\<lambda>v.
     if v = [] then Inl (EmptySecret, ''Secret file is empty: '' @ path) else Inr v)"

text \<open>
  \<^verbatim>\<open>BASE64_PATTERN\<close>: at least one symbol, then at most two padding characters.  \<^verbatim>\<open>Buffer.from(_, "base64")\<close>
  collects six bits per symbol up to the padding and drops an incomplete last byte; encoding back and
  dropping the padding is the group encoder without padding.
\<close>

definition base64_body :: "string \<Rightarrow> string" where
  "base64_body s = takeWhile (\<lambda>c. c \<in> set BASE64_ALPHABET) s"

definition is_base64 :: "string \<Rightarrow> bool" where
  "is_base64 s \<longleftrightarrow> base64_body s \<noteq> []
     \<and> (let padding = drop (length (base64_body s)) s in list_all (\<lambda>c. c = CHR ''='') padding \<and> length padding \<le> 2)"

definition buffer_from_base64 :: "string \<Rightarrow> bytes" where
  "buffer_from_base64 s = (case b64_accumulate 0 0 [] (base64_body s) of None \<Rightarrow> [] | Some bs \<Rightarrow> bs)"

definition readProtectedKeyFile :: "host \<Rightarrow> string \<Rightarrow> protected_options \<Rightarrow> (secret_error, bytes) result" where
  "readProtectedKeyFile H path o' = bind_result (readProtectedText H ''Token key'' path o') (\<lambda>v.
     if \<not> is_base64 v then Inl (InvalidBase64, ''Token key file is not valid base64: '' @ path)
     else let decoded = buffer_from_base64 v
       in if b64_groups decoded \<noteq> base64_body v
          then Inl (InvalidBase64, ''Token key file is not valid base64: '' @ path)
          else if length decoded \<noteq> TOKEN_KEY_BYTES
          then Inl (InvalidKeyLength, ''Token key file must decode to exactly '' @ dec_nat TOKEN_KEY_BYTES @ '' bytes: '' @ path)
          else Inr decoded)"

section \<open>Environment variables\<close>

type_synonym process_env = "string \<Rightarrow> string option"

definition optionalString :: "process_env \<Rightarrow> string \<Rightarrow> string option" where
  "optionalString env key = (case env key of None \<Rightarrow> None | Some v \<Rightarrow> if trim v = [] then None else Some (trim v))"

definition requiredString :: "process_env \<Rightarrow> string \<Rightarrow> (secret_error, string) result" where
  "requiredString env key = (case optionalString env key of
     None \<Rightarrow> Inl (notConfigured (''Missing required environment variable '' @ key)) | Some v \<Rightarrow> Inr v)"

definition readPort :: "process_env \<Rightarrow> string \<Rightarrow> int \<Rightarrow> (secret_error, int) result" where
  "readPort env key fallback = (case optionalString env key of None \<Rightarrow> Inr fallback
     | Some raw \<Rightarrow>
       if \<not> list_all is_digit raw then Inl (notConfigured (key @ '' must be a user-space TCP port''))
       else let port = int (parse_dec raw)
         in if port < MIN_PORT \<or> port > MAX_PORT then Inl (notConfigured (key @ '' must be a user-space TCP port''))
            else Inr port)"

definition readEnvInteger :: "process_env \<Rightarrow> string \<Rightarrow> int \<Rightarrow> int \<Rightarrow> int \<Rightarrow> (secret_error, int) result" where
  "readEnvInteger env key fallback lo hi = (case optionalString env key of None \<Rightarrow> Inr fallback
     | Some raw \<Rightarrow>
       if \<not> list_all is_digit raw then Inl (notConfigured (''Invalid '' @ key))
       else let v = int (parse_dec raw)
         in if v < lo \<or> v > hi then Inl (notConfigured (''Invalid '' @ key)) else Inr v)"

record runtime_environment =
  run_config :: broker_config
  run_clientSecret :: string
  run_adminToken :: string
  run_tokenKey :: bytes
  run_allowedRootName :: string
  run_refreshTokenFilePath :: string
  run_enrollmentFilePath :: string
  run_publicPort :: int
  run_adminPort :: int
  run_gatewayPort :: int
  run_privateGatewayPort :: int

record runtime_ports =
  port_public :: int
  port_admin :: int
  port_gateway :: int
  port_private :: int

definition read_ports :: "process_env \<Rightarrow> (secret_error, runtime_ports) result" where
  "read_ports env =
    bind_result (readPort env ''PORT'' DEFAULT_PUBLIC_PORT) (\<lambda>p.
    bind_result (readPort env ''GDRIVE_STREAM_ADMIN_PORT'' DEFAULT_ADMIN_PORT) (\<lambda>a.
    if a = p then Inl (notConfigured ''GDRIVE_STREAM_ADMIN_PORT must differ from PORT so the admin surface never shares the public listener'')
    else bind_result (readPort env ''GDRIVE_STREAM_GATEWAY_PORT'' DEFAULT_GATEWAY_PORT) (\<lambda>g.
    if g = p \<or> g = a then Inl (notConfigured ''GDRIVE_STREAM_GATEWAY_PORT must differ from PORT and GDRIVE_STREAM_ADMIN_PORT so the public gateway never shares a listener'')
    else bind_result (readPort env ''GDRIVE_STREAM_PRIVATE_GATEWAY_PORT'' DEFAULT_PRIVATE_GATEWAY_PORT) (\<lambda>v.
    if v = p \<or> v = a \<or> v = g then Inl (notConfigured ''GDRIVE_STREAM_PRIVATE_GATEWAY_PORT must differ from PORT, GDRIVE_STREAM_ADMIN_PORT and GDRIVE_STREAM_GATEWAY_PORT so the private network API gateway never shares a listener'')
    else Inr \<lparr> port_public = p, port_admin = a, port_gateway = g, port_private = v \<rparr>))))"

definition config_failure :: "config_error \<Rightarrow> secret_error" where
  "config_failure e = (case e of InvalidSetting k \<Rightarrow>
     notConfigured (''Invalid broker runtime configuration: Invalid '' @ k))"

text \<open>\<^verbatim>\<open>try { ... } catch\<close> that rethrows another error.\<close>

definition map_error :: "('e \<Rightarrow> 'f) \<Rightarrow> ('e, 'a) result \<Rightarrow> ('f, 'a) result" where
  "map_error f r = (case r of Inl e \<Rightarrow> Inl (f e) | Inr a \<Rightarrow> Inr a)"

lemma map_error_Inr [simp]: "map_error f r = Inr a \<longleftrightarrow> r = Inr a"
  by (simp add: map_error_def split: sum.split)

lemma map_error_simps [simp]: "map_error f (Inl e) = Inl (f e)" "map_error f (Inr a) = Inr a"
  by (simp_all add: map_error_def)

definition read_settings :: "(string \<Rightarrow> url_parts option) \<Rightarrow> process_env \<Rightarrow> (secret_error, broker_config \<times> string) result" where
  "read_settings U env =
    bind_result (requiredString env ''GDRIVE_STREAM_GOOGLE_OAUTH_CLIENT_ID'') (\<lambda>cid.
    bind_result (requiredString env ''GDRIVE_STREAM_GOOGLE_OAUTH_REDIRECT_URI'') (\<lambda>uri.
    bind_result (requiredString env ''GDRIVE_STREAM_ALLOWED_ROOT_NAME'') (\<lambda>rootName.
    bind_result (readEnvInteger env ''GDRIVE_STREAM_PAIR_TTL_MS'' 300000 1000 (10 * 60000)) (\<lambda>ttl.
    bind_result (readEnvInteger env ''GDRIVE_STREAM_PAIRING_CAPACITY'' 500 1 10000) (\<lambda>capacity.
    bind_result (readEnvInteger env ''GDRIVE_STREAM_PAIR_RATE_LIMIT_MAX_ATTEMPTS'' 10 1 100) (\<lambda>attempts.
    bind_result (readEnvInteger env ''GDRIVE_STREAM_PAIR_RATE_LIMIT_WINDOW_MS'' 60000 1000 (60 * 60000)) (\<lambda>window.
    bind_result (map_error config_failure (parseBrokerRuntimeConfig U [(''googleClientId'', Str cid), (''googleCallbackUri'', Str uri),
        (''googleDriveScope'', Str (case optionalString env ''GDRIVE_STREAM_GOOGLE_OAUTH_SCOPE'' of
           None \<Rightarrow> GOOGLE_DRIVE_READONLY_SCOPE | Some s \<Rightarrow> s)),
        (''pairingTtlMs'', jint ttl), (''pairingCapacity'', jint capacity),
        (''pairingRateLimitMaxAttempts'', jint attempts), (''pairingRateLimitWindowMs'', jint window)])) (\<lambda>cfg.
      Inr (cfg, rootName)))))))))"

definition loadBrokerRuntimeEnvironment :: "(string \<Rightarrow> url_parts option) \<Rightarrow> host \<Rightarrow> process_env \<Rightarrow>
    (secret_error, runtime_environment) result" where
  "loadBrokerRuntimeEnvironment U H env =
    bind_result (read_ports env) (\<lambda>ports.
    bind_result (read_settings U env) (\<lambda>(cfg, rootName).
    bind_result (bind_result (requiredString env ''GDRIVE_STREAM_OAUTH_CLIENT_SECRET_FILE'')
      (\<lambda>f. readProtectedSecretFile H f NO_OPTIONS)) (\<lambda>secret.
    bind_result (bind_result (requiredString env ''GDRIVE_STREAM_ADMIN_TOKEN_FILE'')
      (\<lambda>f. readProtectedSecretFile H f NO_OPTIONS)) (\<lambda>token.
    if length token < MIN_ADMIN_TOKEN_LENGTH
    then Inl (notConfigured (''GDRIVE_STREAM_ADMIN_TOKEN_FILE must contain at least '' @ dec_nat MIN_ADMIN_TOKEN_LENGTH @ '' characters''))
    else bind_result (bind_result (requiredString env ''GDRIVE_STREAM_TOKEN_KEY_FILE'')
      (\<lambda>f. readProtectedKeyFile H f NO_OPTIONS)) (\<lambda>key.
    bind_result (requiredString env ''GDRIVE_STREAM_REFRESH_TOKEN_PATH'') (\<lambda>tokenPath.
    bind_result (requiredString env ''GDRIVE_STREAM_ENROLLMENT_PATH'') (\<lambda>recordPath.
      Inr \<lparr> run_config = cfg, run_clientSecret = secret, run_adminToken = token, run_tokenKey = key,
        run_allowedRootName = rootName, run_refreshTokenFilePath = tokenPath, run_enrollmentFilePath = recordPath,
        run_publicPort = port_public ports, run_adminPort = port_admin ports,
        run_gatewayPort = port_gateway ports, run_privateGatewayPort = port_private ports \<rparr>)))))))"

section \<open>What an accepted file and environment satisfy\<close>

lemma readProtectedText_Inr:
  "readProtectedText H label path o' = Inr t \<longleftrightarrow> trim path \<noteq> [] \<and> (\<exists>st raw. host_lstat H path = FileStats st \<and> isFile st
     \<and> host_read H path = Some raw \<and> t = trim (utf8_decode raw)
     \<and> (if service_owned H o' st then file_mode st AND OCTAL_077 = 0 else root_controlled H o' st))"
proof (cases "host_lstat H path")
  case (FileStats st)
  have "file_mode st AND OCTAL_027 = 0" if "root_controlled H o' st" using that by (simp add: root_controlled_def)
  then show ?thesis
    by (cases "isFile st"; cases "service_owned H o' st"; cases "root_controlled H o' st"; cases "host_read H path")
      (simp_all add: readProtectedText_def FileStats eq_commute [of t])
qed (simp_all add: readProtectedText_def)

lemma protected_text_trimmed: "readProtectedText H label path o' = Inr v \<Longrightarrow> trim v = v"
  unfolding readProtectedText_Inr by (elim conjE exE) (simp only: trim_idem)

lemma secret_file_Inr: "readProtectedSecretFile H path o' = Inr v \<Longrightarrow> v \<noteq> [] \<and> trim v = v"
  by (cases "v = []")
    (auto simp: readProtectedSecretFile_def bind_result_Inr split: if_splits dest: protected_text_trimmed)

lemma key_file_Inr: "readProtectedKeyFile H path o' = Inr k \<Longrightarrow> length k = TOKEN_KEY_BYTES"
  by (auto simp: readProtectedKeyFile_def bind_result_Inr Let_def split: if_splits)

lemma optionalString_Some: "optionalString env k = Some v \<Longrightarrow> v \<noteq> [] \<and> trim v = v"
  by (auto simp: optionalString_def trim_idem split: option.splits if_splits)

lemma requiredString_Inr: "requiredString env k = Inr v \<Longrightarrow> v \<noteq> [] \<and> trim v = v"
  by (auto simp: requiredString_def dest: optionalString_Some split: option.splits)

lemma requiredString_raw: "requiredString env k = Inr v \<Longrightarrow> \<exists>raw. env k = Some raw \<and> v = trim raw"
  by (auto simp: requiredString_def optionalString_def split: option.splits if_splits)

lemma readPort_Inr: "readPort env k d = Inr p \<Longrightarrow> MIN_PORT \<le> d \<and> d \<le> MAX_PORT \<Longrightarrow> MIN_PORT \<le> p \<and> p \<le> MAX_PORT"
  by (auto simp: readPort_def Let_def split: option.splits if_splits)

lemma read_ports_Inr:
  assumes "read_ports env = Inr r"
  shows "distinct [port_public r, port_admin r, port_gateway r, port_private r]
    \<and> set [port_public r, port_admin r, port_gateway r, port_private r] \<subseteq> {MIN_PORT..MAX_PORT}"
proof -
  have d: "MIN_PORT \<le> DEFAULT_PUBLIC_PORT \<and> DEFAULT_PUBLIC_PORT \<le> MAX_PORT"
    "MIN_PORT \<le> DEFAULT_ADMIN_PORT \<and> DEFAULT_ADMIN_PORT \<le> MAX_PORT"
    "MIN_PORT \<le> DEFAULT_GATEWAY_PORT \<and> DEFAULT_GATEWAY_PORT \<le> MAX_PORT"
    "MIN_PORT \<le> DEFAULT_PRIVATE_GATEWAY_PORT \<and> DEFAULT_PRIVATE_GATEWAY_PORT \<le> MAX_PORT"
    by (simp_all add: MIN_PORT_def MAX_PORT_def DEFAULT_PUBLIC_PORT_def DEFAULT_ADMIN_PORT_def
        DEFAULT_GATEWAY_PORT_def DEFAULT_PRIVATE_GATEWAY_PORT_def)
  from assms show ?thesis
    by (auto simp: read_ports_def bind_result_Inr dest!: readPort_Inr [OF _ d(1)] readPort_Inr [OF _ d(2)]
        readPort_Inr [OF _ d(3)] readPort_Inr [OF _ d(4)] split: if_splits)
qed

lemma read_settings_Inr:
  assumes "read_settings U env = Inr (cfg, rootName)"
  obtains kvs where "parseBrokerRuntimeConfig U kvs = Inr cfg" "rootName \<noteq> []" "trim rootName = rootName"
  using assms by (auto simp: read_settings_def bind_result_Inr dest!: requiredString_Inr)

lemma parsed_scope: "parseBrokerRuntimeConfig U kvs = Inr cfg \<Longrightarrow> googleDriveScope cfg = GOOGLE_DRIVE_READONLY_SCOPE"
  by (auto simp: parseBrokerRuntimeConfig_def bind_result_Inr split: if_splits)

lemma loaded_environment:
  assumes "loadBrokerRuntimeEnvironment U H env = Inr e"
  shows "distinct [run_publicPort e, run_adminPort e, run_gatewayPort e, run_privateGatewayPort e]
    \<and> set [run_publicPort e, run_adminPort e, run_gatewayPort e, run_privateGatewayPort e] \<subseteq> {1024..65535}
    \<and> googleDriveScope (run_config e) = GOOGLE_DRIVE_READONLY_SCOPE \<and> run_clientSecret e \<noteq> []
    \<and> length (run_adminToken e) \<ge> MIN_ADMIN_TOKEN \<and> length (run_tokenKey e) = 32
    \<and> [] \<notin> {run_allowedRootName e, run_refreshTokenFilePath e, run_enrollmentFilePath e}
    \<and> trim (run_allowedRootName e) = run_allowedRootName e
    \<and> (\<exists>a b. env ''GDRIVE_STREAM_REFRESH_TOKEN_PATH'' = Some a \<and> run_refreshTokenFilePath e = trim a
         \<and> env ''GDRIVE_STREAM_ENROLLMENT_PATH'' = Some b \<and> run_enrollmentFilePath e = trim b)"
proof -
  from assms obtain ports cfg rootName secret token key tokenPath recordPath fs ft fk where
    p: "read_ports env = Inr ports" and c: "read_settings U env = Inr (cfg, rootName)"
    and s: "readProtectedSecretFile H fs NO_OPTIONS = Inr secret"
    and t: "readProtectedSecretFile H ft NO_OPTIONS = Inr token" "\<not> length token < MIN_ADMIN_TOKEN_LENGTH"
    and k: "readProtectedKeyFile H fk NO_OPTIONS = Inr key"
    and f: "requiredString env ''GDRIVE_STREAM_REFRESH_TOKEN_PATH'' = Inr tokenPath"
      "requiredString env ''GDRIVE_STREAM_ENROLLMENT_PATH'' = Inr recordPath"
    and e: "e = \<lparr> run_config = cfg, run_clientSecret = secret, run_adminToken = token, run_tokenKey = key,
        run_allowedRootName = rootName, run_refreshTokenFilePath = tokenPath, run_enrollmentFilePath = recordPath,
        run_publicPort = port_public ports, run_adminPort = port_admin ports,
        run_gatewayPort = port_gateway ports, run_privateGatewayPort = port_private ports \<rparr>"
    by (auto simp: loadBrokerRuntimeEnvironment_def bind_result_Inr split: if_splits prod.splits)
  from c obtain kvs where kvs: "parseBrokerRuntimeConfig U kvs = Inr cfg" "rootName \<noteq> []" "trim rootName = rootName"
    by (rule read_settings_Inr)
  from read_ports_Inr [OF p] parsed_scope [OF kvs(1)] secret_file_Inr [OF s] key_file_Inr [OF k] t(2)
    requiredString_Inr [OF f(1)] requiredString_Inr [OF f(2)] requiredString_raw [OF f(1)] requiredString_raw [OF f(2)] kvs(2,3)
  show ?thesis
    by (auto simp: e MIN_ADMIN_TOKEN_def MIN_ADMIN_TOKEN_LENGTH_def TOKEN_KEY_BYTES_def MIN_PORT_def MAX_PORT_def)
qed

text \<open>
  C36: a loaded environment is well formed.  Its four ports are pairwise distinct user-space ports, the
  scope is the read-only one, the client secret is not empty, the admin token meets the floor of the
  admin server, the master key has 32 bytes, the root name is a trimmed non-empty string, and the two
  store paths are the trimmed values of their variables and not empty.
\<close>
theorem runtime_environment_wellformed:
  assumes "loadBrokerRuntimeEnvironment U H env = Inr e"
  shows "distinct [run_publicPort e, run_adminPort e, run_gatewayPort e, run_privateGatewayPort e]
    \<and> set [run_publicPort e, run_adminPort e, run_gatewayPort e, run_privateGatewayPort e] \<subseteq> {1024..65535}
    \<and> googleDriveScope (run_config e) = GOOGLE_DRIVE_READONLY_SCOPE \<and> run_clientSecret e \<noteq> []
    \<and> length (run_adminToken e) \<ge> MIN_ADMIN_TOKEN \<and> length (run_tokenKey e) = 32
    \<and> [] \<notin> {run_allowedRootName e, run_refreshTokenFilePath e, run_enrollmentFilePath e}
    \<and> trim (run_allowedRootName e) = run_allowedRootName e
    \<and> (\<exists>a b. env ''GDRIVE_STREAM_REFRESH_TOKEN_PATH'' = Some a \<and> run_refreshTokenFilePath e = trim a
         \<and> env ''GDRIVE_STREAM_ENROLLMENT_PATH'' = Some b \<and> run_enrollmentFilePath e = trim b)"
  by (rule loaded_environment [OF assms])

definition ex_vars :: process_env where
  "ex_vars = map_of [(''GDRIVE_STREAM_GOOGLE_OAUTH_CLIENT_ID'', ''a.apps.googleusercontent.com''),
     (''GDRIVE_STREAM_GOOGLE_OAUTH_REDIRECT_URI'', ''https://b.example/cb''),
     (''GDRIVE_STREAM_ALLOWED_ROOT_NAME'', '' Notes ''), (''GDRIVE_STREAM_OAUTH_CLIENT_SECRET_FILE'', ''/s''),
     (''GDRIVE_STREAM_ADMIN_TOKEN_FILE'', ''/t''), (''GDRIVE_STREAM_TOKEN_KEY_FILE'', ''/k''),
     (''GDRIVE_STREAM_REFRESH_TOKEN_PATH'', '' /r ''), (''GDRIVE_STREAM_ENROLLMENT_PATH'', ''/e''), (''PORT'', ''4000'')]"

definition ex_host :: host where
  "ex_host = \<lparr> host_uid = Some 7, host_gid = Some 7,
     host_lstat = (\<lambda>_. FileStats \<lparr> isFile = True, file_uid = 7, file_gid = 7, file_mode = 384 \<rparr>),
     host_read = (\<lambda>p. Some (utf8 (if p = ''/s'' then ''secret'' else if p = ''/t'' then ''0123456789abcdef''
       else replicate 42 (CHR ''A'') @ ''A=''))) \<rparr>"

definition ex_runtime :: runtime_environment where
  "ex_runtime = \<lparr> run_config = ex_config\<lparr> pairingTtlMs := 300000, pairingCapacity := 500,
        pairingRateLimitMaxAttempts := 10 \<rparr>, run_clientSecret = ''secret'',
     run_adminToken = ''0123456789abcdef'', run_tokenKey = replicate 32 0, run_allowedRootName = ''Notes'',
     run_refreshTokenFilePath = ''/r'', run_enrollmentFilePath = ''/e'', run_publicPort = 4000, run_adminPort = 34004,
     run_gatewayPort = 34005, run_privateGatewayPort = 34006 \<rparr>"

lemma ex_runtime: "loadBrokerRuntimeEnvironment toy_url ex_host ex_vars = Inr ex_runtime"
  by code_simp

theorem runtime_environment_wellformed_witness:
  "distinct [run_publicPort ex_runtime, run_adminPort ex_runtime, run_gatewayPort ex_runtime, run_privateGatewayPort ex_runtime]
   \<and> run_refreshTokenFilePath ex_runtime = trim '' /r ''"
  using runtime_environment_wellformed [OF ex_runtime] by (auto simp: ex_vars_def)

end
