(* ===== verification/Gateways.thy ===== *)
theory Gateways
  imports Broker
begin

text \<open>
  \<^verbatim>\<open>broker/src/public-gateway.ts\<close> and \<^verbatim>\<open>broker/src/private-api-gateway.ts\<close>: the two loopback servers that
  may reach the broker core.  A request is decided on (answered locally, or forwarded); a forwarded one
  is an exchange with the upstream, a step relation on the events of \<^verbatim>\<open>node:http\<close>.
\<close>

section \<open>Configuration\<close>

record upstream_url =
  up_protocol :: string
  up_hostname :: string
  up_port :: string

datatype gateway_error = BadUpstream | BadPath | BadTimeout | BadPort

definition DEFAULT_UPSTREAM :: string where "DEFAULT_UPSTREAM = ''http://127.0.0.1:34003''"
definition DEFAULT_PUBLIC_PATH :: string where "DEFAULT_PUBLIC_PATH = ''/google/callback''"
definition DEFAULT_UPSTREAM_PATH :: string where "DEFAULT_UPSTREAM_PATH = ''/oauth/google/callback''"
definition DEFAULT_TIMEOUT_MS :: int where "DEFAULT_TIMEOUT_MS = 10000"
definition MAX_TIMEOUT_MS :: int where "MAX_TIMEOUT_MS = 60000"
definition MAX_BODY_BYTES :: nat where "MAX_BODY_BYTES = 8 * 1024"

definition LOOPBACK_HOSTNAMES :: "string list" where
  "LOOPBACK_HOSTNAMES = [''127.0.0.1'', ''::1'', ''localhost'']"

definition ALLOWED_PATHS :: "string list" where
  "ALLOWED_PATHS = [''/oauth/pair'', ''/oauth/claim'', ''/oauth/nonce'', ''/oauth/lease'']"

text \<open>\<^verbatim>\<open>replace(/^\[/, "").replace(/\]$/, "")\<close>.\<close>

definition strip_brackets :: "string \<Rightarrow> string" where
  "strip_brackets s = (let t = (case s of c # cs \<Rightarrow> if c = CHR ''['' then cs else s | [] \<Rightarrow> [])
     in if t \<noteq> [] \<and> last t = CHR '']'' then butlast t else t)"

definition normaliseLoopbackUpstream :: "(string \<Rightarrow> upstream_url option) \<Rightarrow> string \<Rightarrow> (gateway_error, upstream_url) result" where
  "normaliseLoopbackUpstream parse raw = (case parse raw of None \<Rightarrow> Inl BadUpstream
     | Some u \<Rightarrow> if up_protocol u \<noteq> ''http:'' then Inl BadUpstream
       else if lower (strip_brackets (up_hostname u)) \<notin> set LOOPBACK_HOSTNAMES then Inl BadUpstream
       else Inr u)"

definition normalisePath :: "string option \<Rightarrow> string \<Rightarrow> (gateway_error, string) result" where
  "normalisePath v fallback = (let path = (case v of None \<Rightarrow> fallback | Some p \<Rightarrow> p)
     in if \<not> starts_with path ''/'' \<or> length path < 2 \<or> str_includes path ''?'' \<or> str_includes path ''#''
        then Inl BadPath else Inr path)"

definition normaliseTimeout :: "number option \<Rightarrow> (gateway_error, int) result" where
  "normaliseTimeout v = (case as_int (or_default v DEFAULT_TIMEOUT_MS) of None \<Rightarrow> Inl BadTimeout
     | Some t \<Rightarrow> if t < 1 \<or> t > MAX_TIMEOUT_MS then Inl BadTimeout else Inr t)"

definition upstream_port :: "upstream_url \<Rightarrow> int" where
  "upstream_port u = (if up_port u = [] then 80 else int (parse_dec (up_port u)))"

record public_options =
  pub_upstream :: "string option"
  pub_publicPath :: "string option"
  pub_upstreamPath :: "string option"
  pub_timeoutMs :: "number option"

record gateway =
  gw_host :: string
  gw_port :: int
  gw_timeoutMs :: int

record public_gateway = gateway +
  gw_publicPath :: string
  gw_upstreamPath :: string

definition createPublicGateway :: "(string \<Rightarrow> upstream_url option) \<Rightarrow> public_options \<Rightarrow>
    (gateway_error, public_gateway) result" where
  "createPublicGateway parse opts =
    bind_result (normaliseLoopbackUpstream parse (case pub_upstream opts of None \<Rightarrow> DEFAULT_UPSTREAM | Some u \<Rightarrow> u)) (\<lambda>u.
    bind_result (normalisePath (pub_publicPath opts) DEFAULT_PUBLIC_PATH) (\<lambda>p.
    bind_result (normalisePath (pub_upstreamPath opts) DEFAULT_UPSTREAM_PATH) (\<lambda>q.
    bind_result (normaliseTimeout (pub_timeoutMs opts)) (\<lambda>t.
      Inr \<lparr> gw_host = strip_brackets (up_hostname u), gw_port = upstream_port u, gw_timeoutMs = t,
        gw_publicPath = p, gw_upstreamPath = q \<rparr>))))"

definition createPrivateApiGateway :: "(string \<Rightarrow> upstream_url option) \<Rightarrow> string option \<Rightarrow> number option \<Rightarrow>
    (gateway_error, gateway) result" where
  "createPrivateApiGateway parse upstream timeoutMs =
    bind_result (normaliseLoopbackUpstream parse (case upstream of None \<Rightarrow> DEFAULT_UPSTREAM | Some u \<Rightarrow> u)) (\<lambda>u.
    bind_result (normaliseTimeout timeoutMs) (\<lambda>t.
      Inr \<lparr> gw_host = strip_brackets (up_hostname u), gw_port = upstream_port u, gw_timeoutMs = t \<rparr>))"

definition valid_listen_port :: "number \<Rightarrow> (gateway_error, int) result" where
  "valid_listen_port n = (case as_int n of None \<Rightarrow> Inl BadPort
     | Some p \<Rightarrow> if p < 0 \<or> p > 65535 then Inl BadPort else Inr p)"

section \<open>Deciding on a request\<close>

record upstream_request =
  ur_method :: string
  ur_path :: string
  ur_headers :: "(string \<times> string) list"
  ur_body :: bytes

datatype gateway_action = Answer http_response | Forward upstream_request

text \<open>The target is cut at the first question mark: \<^verbatim>\<open>pathname\<close> before it, \<^verbatim>\<open>search\<close> from it on.\<close>

definition target_path :: "string \<Rightarrow> string" where
  "target_path raw = takeWhile (\<lambda>c. c \<noteq> CHR ''?'') raw"

definition target_search :: "string \<Rightarrow> string" where
  "target_search raw = dropWhile (\<lambda>c. c \<noteq> CHR ''?'') raw"

definition public_decide :: "public_gateway \<Rightarrow> http_request \<Rightarrow> gateway_action" where
  "public_decide g rq =
    (if target_path (rq_url rq) \<noteq> gw_publicPath g then Answer (sendError 404 ''not_found'')
     else if rq_method rq \<noteq> ''GET'' then Answer (sendError 405 ''method_not_allowed'')
     else Forward \<lparr> ur_method = ''GET'', ur_path = gw_upstreamPath g @ target_search (rq_url rq),
       ur_headers = [(''accept'', ''text/html,application/xhtml+xml'')], ur_body = [] \<rparr>)"

text \<open>\<^verbatim>\<open>/^application\/json(?:\s*;|\s*$)/i\<close>.\<close>

definition hasJsonContentType :: "http_request \<Rightarrow> bool" where
  "hasJsonContentType rq = (case rq_ctype rq of None \<Rightarrow> False
     | Some t \<Rightarrow> starts_with (lower t) ''application/json''
         \<and> (case dropWhile is_space (drop (length ''application/json'') t) of [] \<Rightarrow> True | c # _ \<Rightarrow> c = CHR '';''))"

datatype body_read = BodyRead bytes | BodyInvalid | BodyTooLarge

text \<open>
  The events of the request stream in order: the chunks, then its end or an abort.  The first result
  settles the promise, so a chunk over the limit decides whatever comes later.
\<close>

fun read_body_chunks :: "nat \<Rightarrow> bytes \<Rightarrow> bytes list \<Rightarrow> bool \<Rightarrow> body_read" where
  "read_body_chunks seen body [] aborted =
     (if aborted then BodyInvalid
      else case json_parse (utf8_decode body) of None \<Rightarrow> BodyInvalid | Some _ \<Rightarrow> BodyRead body)"
| "read_body_chunks seen body (c # cs) aborted =
     (if seen + length c > MAX_BODY_BYTES then BodyTooLarge
      else read_body_chunks (seen + length c) (body @ c) cs aborted)"

definition readJsonBody :: "http_request \<Rightarrow> body_read" where
  "readJsonBody rq = (case rq_length rq of
     Some l \<Rightarrow> (if l \<noteq> [] \<and> list_all is_digit l
        then (if parse_dec l > MAX_BODY_BYTES then BodyTooLarge else read_body_chunks 0 [] (rq_chunks rq) (rq_aborted rq))
        else BodyInvalid)
   | None \<Rightarrow> read_body_chunks 0 [] (rq_chunks rq) (rq_aborted rq))"

definition private_decide :: "http_request \<Rightarrow> gateway_action" where
  "private_decide rq =
    (if rq_method rq \<noteq> ''POST'' \<or> rq_url rq \<notin> set ALLOWED_PATHS then Answer (sendError 404 ''not_found'')
     else if \<not> hasJsonContentType rq then Answer (sendError 400 ''invalid_request'')
     else case readJsonBody rq of
       BodyTooLarge \<Rightarrow> Answer (sendError 413 ''payload_too_large'')
     | BodyInvalid \<Rightarrow> Answer (sendError 400 ''invalid_request'')
     | BodyRead body \<Rightarrow> Forward \<lparr> ur_method = ''POST'', ur_path = rq_url rq,
         ur_headers = [(''content-type'', ''application/json'')], ur_body = body \<rparr>)"

section \<open>Forwarding\<close>

text \<open>
  One exchange: the heads written to the client (a second one would raise), the body bytes, whether
  the response was ended or its connection destroyed, the deadline timer, and the upstream side.
  \<open>Aborted\<close> is a request destroyed before its response, whose error event is still to come.
\<close>

datatype upstream_phase = Waiting | Streaming | Aborted | Closed

record exchange =
  ex_settled :: bool
  ex_heads :: "(int \<times> string) list"
  ex_body :: bytes
  ex_ended :: bool
  ex_destroyed :: bool
  ex_timer :: bool
  ex_phase :: upstream_phase

definition start_exchange :: exchange where
  "start_exchange = \<lparr> ex_settled = False, ex_heads = [], ex_body = [], ex_ended = False, ex_destroyed = False,
     ex_timer = True, ex_phase = Waiting \<rparr>"

definition fail_exchange :: "exchange \<Rightarrow> exchange" where
  "fail_exchange x =
    (if ex_settled x then x
     else let x' = x\<lparr> ex_settled := True, ex_timer := False \<rparr>
       in if ex_heads x \<noteq> [] then x'\<lparr> ex_destroyed := True \<rparr>
          else x'\<lparr> ex_heads := [(502, ''application/json; charset=utf-8'')],
            ex_body := utf8 (json_text (error_json ''upstream_unavailable'')), ex_ended := True \<rparr>)"

definition pass_response :: "string \<Rightarrow> int option \<Rightarrow> string option \<Rightarrow> exchange \<Rightarrow> exchange" where
  "pass_response defaultType status ctype x =
    (if ex_settled x then x\<lparr> ex_phase := Closed \<rparr>
     else x\<lparr> ex_settled := True, ex_timer := False, ex_phase := Streaming,
       ex_heads := ex_heads x @ [(case status of None \<Rightarrow> 502 | Some n \<Rightarrow> n,
         case ctype of None \<Rightarrow> defaultType | Some t \<Rightarrow> t)] \<rparr>)"

datatype exchange_event = Deadline | Response "int option" "string option" | RequestError | SocketTimeout
  | Data bytes | EndOfData | ResponseError | ClientClose

inductive exchange_step :: "string \<Rightarrow> exchange_event \<Rightarrow> exchange \<Rightarrow> exchange \<Rightarrow> bool" for d :: string where
  deadline: "ex_timer x \<Longrightarrow> exchange_step d Deadline x (fail_exchange x)"
| response: "ex_phase x = Waiting \<Longrightarrow> exchange_step d (Response st ct) x (pass_response d st ct x)"
| request_error: "ex_phase x \<in> {Waiting, Aborted} \<Longrightarrow>
    exchange_step d RequestError x (fail_exchange (x\<lparr> ex_phase := Closed \<rparr>))"
| socket_timeout: "ex_phase x = Waiting \<Longrightarrow> exchange_step d SocketTimeout x (x\<lparr> ex_phase := Aborted \<rparr>)"
| data: "ex_phase x = Streaming \<Longrightarrow> \<not> ex_destroyed x \<Longrightarrow>
    exchange_step d (Data bs) x (x\<lparr> ex_body := ex_body x @ bs \<rparr>)"
| end_of_data: "ex_phase x = Streaming \<Longrightarrow> \<not> ex_destroyed x \<Longrightarrow>
    exchange_step d EndOfData x (x\<lparr> ex_ended := True, ex_phase := Closed \<rparr>)"
| response_error: "ex_phase x = Streaming \<Longrightarrow>
    exchange_step d ResponseError x (x\<lparr> ex_destroyed := True, ex_phase := Closed \<rparr>)"
| client_close: "\<not> ex_destroyed x \<Longrightarrow> exchange_step d ClientClose x (x\<lparr> ex_destroyed := True,
    ex_phase := (if ex_ended x then ex_phase x
      else case ex_phase x of Waiting \<Rightarrow> Aborted | Streaming \<Rightarrow> Closed | p \<Rightarrow> p) \<rparr>)"

inductive exchange_run :: "string \<Rightarrow> exchange_event list \<Rightarrow> exchange \<Rightarrow> bool" for d :: string where
  started: "exchange_run d [] start_exchange"
| stepped: "exchange_run d es x \<Longrightarrow> exchange_step d e x y \<Longrightarrow> exchange_run d (es @ [e]) y"

inductive_cases exchange_stepE: "exchange_step d e x y"
inductive_simps deadline_enabled: "exchange_step d Deadline x y"

definition exchange_inv :: "exchange \<Rightarrow> bool" where
  "exchange_inv x \<longleftrightarrow> length (ex_heads x) \<le> 1 \<and> (ex_settled x \<longleftrightarrow> ex_heads x \<noteq> [])
     \<and> (ex_timer x \<longleftrightarrow> \<not> ex_settled x) \<and> (ex_phase x = Streaming \<longrightarrow> ex_settled x)
     \<and> (ex_phase x = Closed \<longrightarrow> ex_settled x)"

lemma exchange_step_inv: "exchange_step d e x y \<Longrightarrow> exchange_inv x \<Longrightarrow> exchange_inv y"
  by (erule exchange_stepE)
    (auto simp: exchange_inv_def fail_exchange_def pass_response_def Let_def split: upstream_phase.splits)

lemma exchange_run_inv: "exchange_run d es x \<Longrightarrow> exchange_inv x"
proof (induction rule: exchange_run.induct)
  case started
  then show ?case by (simp add: exchange_inv_def start_exchange_def)
qed (rule exchange_step_inv)

text \<open>The body a client sees is what the upstream sent, in order, unless the gateway answered itself.\<close>

primrec data_bytes :: "exchange_event list \<Rightarrow> bytes" where
  "data_bytes [] = []"
| "data_bytes (e # es) = (case e of Data bs \<Rightarrow> bs @ data_bytes es | _ \<Rightarrow> data_bytes es)"

lemma data_bytes_append: "data_bytes (es @ fs) = data_bytes es @ data_bytes fs"
  by (induction es) (auto split: exchange_event.split)

definition unavailable_head :: "int \<times> string" where
  "unavailable_head = (502, ''application/json; charset=utf-8'')"

definition relayed :: "string \<Rightarrow> exchange_event list \<Rightarrow> exchange \<Rightarrow> bool" where
  "relayed d es x \<longleftrightarrow> (case ex_heads x of [] \<Rightarrow> ex_body x = [] \<and> data_bytes es = []
     | h # _ \<Rightarrow> (h = unavailable_head \<and> ex_body x = utf8 (json_text (error_json ''upstream_unavailable''))
           \<and> ex_phase x \<noteq> Streaming)
         \<or> (\<exists>st ct. Response st ct \<in> set es \<and> h = (case st of None \<Rightarrow> 502 | Some n \<Rightarrow> n, case ct of None \<Rightarrow> d | Some t \<Rightarrow> t)
           \<and> ex_body x = data_bytes es))"

lemma relayed_step:
  assumes "exchange_step d e x y" "exchange_inv x" "relayed d es x"
  shows "relayed d (es @ [e]) y"
  using assms
  by (cases rule: exchange_step.cases)
    (auto simp: relayed_def exchange_inv_def fail_exchange_def pass_response_def Let_def data_bytes_append
      unavailable_head_def split: list.splits upstream_phase.splits)

lemma relayed_run: "exchange_run d es x \<Longrightarrow> relayed d es x"
proof (induction rule: exchange_run.induct)
  case started
  then show ?case by (simp add: relayed_def start_exchange_def)
next
  case (stepped es x e y)
  then show ?case using relayed_step exchange_run_inv by blast
qed

text \<open>
  A forwarded request is answered at most once, whatever the order of the upstream's response,
  errors, timeouts and the client's departure: along every run one head at most is written, the
  deadline stays armed exactly until then, when it fires the exchange is settled, and what the client
  is sent is the upstream's status and bytes or the gateway's own 502.
\<close>
theorem exchange_answers_once:
  assumes "exchange_run d es x"
  shows "length (ex_heads x) \<le> 1 \<and> (ex_timer x \<longleftrightarrow> ex_heads x = []) \<and> relayed d es x
    \<and> (ex_heads x = [] \<longrightarrow> (\<exists>y. exchange_step d Deadline x y \<and> ex_heads y = [unavailable_head] \<and> ex_ended y))"
  using exchange_run_inv [OF assms] relayed_run [OF assms]
  by (auto simp: exchange_inv_def deadline_enabled fail_exchange_def Let_def unavailable_head_def)

theorem exchange_answers_once_witness:
  "\<exists>x. exchange_run ''t'' [Response (Some 200) None, Data [1], Data [2], EndOfData] x
     \<and> length (ex_heads x) \<le> 1 \<and> relayed ''t'' [Response (Some 200) None, Data [1], Data [2], EndOfData] x"
proof -
  let ?x1 = "pass_response ''t'' (Some 200) None start_exchange"
  let ?x2 = "?x1\<lparr> ex_body := ex_body ?x1 @ [1] \<rparr>"
  let ?x3 = "?x2\<lparr> ex_body := ex_body ?x2 @ [2] \<rparr>"
  let ?x4 = "?x3\<lparr> ex_ended := True, ex_phase := Closed \<rparr>"
  have "exchange_run ''t'' ([] @ [Response (Some 200) None]) ?x1"
    by (rule stepped [OF started]) (intro response; simp add: start_exchange_def)
  then have "exchange_run ''t'' (([] @ [Response (Some 200) None]) @ [Data [1]]) ?x2"
    by (rule stepped) (intro data; simp add: pass_response_def start_exchange_def)
  then have "exchange_run ''t'' ((([] @ [Response (Some 200) None]) @ [Data [1]]) @ [Data [2]]) ?x3"
    by (rule stepped) (intro data; simp add: pass_response_def start_exchange_def)
  then have "exchange_run ''t'' (((([] @ [Response (Some 200) None]) @ [Data [1]]) @ [Data [2]]) @ [EndOfData]) ?x4"
    by (rule stepped) (intro end_of_data; simp add: pass_response_def start_exchange_def)
  then have r: "exchange_run ''t'' [Response (Some 200) None, Data [1], Data [2], EndOfData] ?x4" by simp
  show ?thesis using r exchange_answers_once [OF r] by blast
qed


section \<open>What reaches the broker\<close>

text \<open>The request the broker's server sees for a forwarded one, its body split into any chunks.\<close>

definition delivered :: "upstream_request \<Rightarrow> bytes list \<Rightarrow> http_request" where
  "delivered u cs = \<lparr> rq_method = ur_method u, rq_url = ur_path u, rq_remote = Some ''127.0.0.1'',
     rq_ctype = map_of (ur_headers u) ''content-type'', rq_auth = None,
     rq_length = Some (dec_nat (length (ur_body u))), rq_chunks = cs, rq_aborted = False \<rparr>"

lemma read_chunks_fits: "seen + length (concat cs) \<le> MAX_JSON_BYTES \<Longrightarrow> read_chunks seen cs = Some (concat cs)"
  by (induction cs arbitrary: seen) (auto simp: Let_def)

lemma read_body_chunks_read: "read_body_chunks seen body cs ab = BodyRead b \<Longrightarrow>
    seen + length (concat cs) \<le> max seen MAX_BODY_BYTES \<and> b = body @ concat cs \<and> json_parse (utf8_decode b) \<noteq> None"
  by (induction seen body cs ab rule: read_body_chunks.induct) (fastforce split: if_splits option.splits)+

lemma readJsonBody_read: "readJsonBody rq = BodyRead b \<Longrightarrow> length b \<le> MAX_BODY_BYTES \<and> json_parse (utf8_decode b) \<noteq> None"
  by (auto simp: readJsonBody_def dest!: read_body_chunks_read split: option.splits if_splits)

lemma private_decide_Forward:
  assumes "private_decide rq = Forward u"
  shows "rq_method rq = ''POST''" "rq_url rq \<in> set ALLOWED_PATHS" "hasJsonContentType rq"
    "readJsonBody rq = BodyRead (ur_body u)"
    "u = \<lparr> ur_method = ''POST'', ur_path = rq_url rq, ur_headers = [(''content-type'', ''application/json'')],
       ur_body = ur_body u \<rparr>"
  using assms by (auto simp: private_decide_def split: if_splits body_read.splits)

lemma private_delivery:
  assumes "private_decide rq = Forward u" "concat cs = ur_body u"
  obtains v where "json_parse (utf8_decode (ur_body u)) = Some v" "jsonBody (delivered u cs) = plain_object v"
proof -
  from readJsonBody_read [OF private_decide_Forward(4) [OF assms(1)]] obtain v where
    len: "length (ur_body u) \<le> MAX_BODY_BYTES" and v: "json_parse (utf8_decode (ur_body u)) = Some v" by blast
  have "read_chunks 0 cs = Some (ur_body u)"
    using read_chunks_fits [of 0 cs] len assms(2) by (simp add: MAX_BODY_BYTES_def MAX_JSON_BYTES_def)
  with v have "jsonBody (delivered u cs) = plain_object v"
    by (simp add: jsonBody_def delivered_def)
  with v show thesis by (rule that)
qed

text \<open>
  C28: what the private gateway lets through.  A forwarded request is a POST to exactly one of the four
  pairing paths with a body of at most 8192 bytes that parses as JSON; the broker serves it with the
  pairing or device handler, its own content type and size checks always pass, and it reads the very
  value the gateway checked.
\<close>
theorem private_gateway_composes:
  assumes "private_decide rq = Forward u" "concat cs = ur_body u"
  shows "rq_method rq = ''POST'' \<and> rq_url rq \<in> {''/oauth/pair'', ''/oauth/claim'', ''/oauth/nonce'', ''/oauth/lease''}
    \<and> length (ur_body u) \<le> 8192 \<and> json_request (delivered u cs)
    \<and> (\<exists>v. json_parse (utf8_decode (ur_body u)) = Some v \<and> jsonBody (delivered u cs) = plain_object v)
    \<and> serve N b P env (delivered u cs) s =
        (if rq_url rq = ''/oauth/pair'' then handle_pair N b env (delivered u cs) s
         else handle_device N b P env (delivered u cs) s)"
proof -
  note f = private_decide_Forward [OF assms(1)]
  obtain v where v: "json_parse (utf8_decode (ur_body u)) = Some v" "jsonBody (delivered u cs) = plain_object v"
    using private_delivery [OF assms] .
  have d: "rq_method (delivered u cs) = ''POST''" "rq_url (delivered u cs) = rq_url rq"
    "rq_ctype (delivered u cs) = Some ''application/json''"
    by (subst f(5), simp add: delivered_def)+
  from readJsonBody_read [OF f(4)] have "length (ur_body u) \<le> 8192" by (simp add: MAX_BODY_BYTES_def)
  moreover have "json_request (delivered u cs)" by (simp add: json_request_def d starts_with_def)
  ultimately show ?thesis
    using f(1,2) v by (auto simp: serve_def serve_plain_def d ALLOWED_PATHS_def)
qed

definition ex_rq :: http_request where
  "ex_rq = \<lparr> rq_method = ''POST'', rq_url = ''/oauth/nonce'', rq_remote = None,
     rq_ctype = Some ''application/json ; charset=utf-8'', rq_auth = None, rq_length = Some ''2'',
     rq_chunks = [[123], [125]], rq_aborted = False \<rparr>"

theorem private_gateway_composes_witness:
  "\<exists>u. private_decide ex_rq = Forward u \<and> json_request (delivered u [[123, 125]])"
proof -
  have "private_decide ex_rq = Forward \<lparr> ur_method = ''POST'', ur_path = ''/oauth/nonce'',
      ur_headers = [(''content-type'', ''application/json'')], ur_body = [123, 125] \<rparr>" by code_simp
  then obtain u where u: "private_decide ex_rq = Forward u" "concat [[123, 125]] = ur_body u"
    by (metis upstream_request.select_convs(4) concat.simps append_Nil2)
  then show ?thesis using private_gateway_composes [OF u] by blast
qed

lemma normalisePath_default: "normalisePath None fallback = Inr p \<Longrightarrow> p = fallback"
  by (cases "starts_with fallback ''/''"; cases "length fallback < 2"; cases "str_includes fallback ''?''";
      cases "str_includes fallback ''#''") (simp_all add: normalisePath_def)

text \<open>
  What the public gateway lets through.  With the default paths a forwarded request is a GET whose
  path is exactly the registered callback, carries no body and no client header, and the broker
  answers it as the OAuth callback on the query of the original request; every other request is
  answered by the gateway itself with 404 or 405.
\<close>
theorem public_gateway_callback_only:
  assumes "createPublicGateway parse \<lparr> pub_upstream = up, pub_publicPath = None, pub_upstreamPath = None,
      pub_timeoutMs = tm \<rparr> = Inr g"
    and "\<And>q. request_url env (''/oauth/google/callback'' @ CHR ''?'' # q) = Some (''/oauth/google/callback'', q)"
    and "request_url env ''/oauth/google/callback'' = Some (''/oauth/google/callback'', [])"
  shows "case public_decide g rq of
      Answer r \<Rightarrow> rs_status r = (if target_path (rq_url rq) = ''/google/callback'' then 405 else 404)
    | Forward u \<Rightarrow> rq_method rq = ''GET'' \<and> target_path (rq_url rq) = ''/google/callback'' \<and> ur_method u = ''GET''
        \<and> ur_body u = [] \<and> map fst (ur_headers u) = [''accept'']
        \<and> serve N b P env (delivered u []) s =
            (if bk_config b = None then (sendError 404 ''not_found'', s)
             else handleOAuthCallback N b P env (form_parse (drop 1 (target_search (rq_url rq)))) s)"
proof -
  have g: "gw_publicPath g = ''/google/callback''" "gw_upstreamPath g = ''/oauth/google/callback''"
    using assms(1) by (auto simp: createPublicGateway_def bind_result_Inr DEFAULT_PUBLIC_PATH_def
        DEFAULT_UPSTREAM_PATH_def dest!: normalisePath_default)
  have "request_url env (''/oauth/google/callback'' @ target_search (rq_url rq)) =
      Some (''/oauth/google/callback'', drop 1 (target_search (rq_url rq)))"
  proof (cases "target_search (rq_url rq)")
    case (Cons c q)
    then have "c = CHR ''?''" using hd_dropWhile [of "\<lambda>c. c \<noteq> CHR ''?''" "rq_url rq"] by (simp add: target_search_def)
    with Cons assms(2) show ?thesis by simp
  qed (use assms(3) in simp)
  with g show ?thesis
    by (auto simp: public_decide_def sendError_def sendJson_def serve_def delivered_def CALLBACK_PATHS_def)
qed

theorem public_gateway_callback_only_witness:
  "\<exists>g. createPublicGateway (\<lambda>_. Some \<lparr> up_protocol = ''http:'', up_hostname = ''localhost'', up_port = [] \<rparr>)
      \<lparr> pub_upstream = None, pub_publicPath = None, pub_upstreamPath = None, pub_timeoutMs = None \<rparr> = Inr g
    \<and> (case public_decide g (ex_rq\<lparr> rq_url := ''/health'' \<rparr>) of Answer r \<Rightarrow> rs_status r = 404 | Forward u \<Rightarrow> False)"
proof -
  let ?p = "\<lambda>_. Some \<lparr> up_protocol = ''http:'', up_hostname = ''localhost'', up_port = [] \<rparr>"
  let ?g = "\<lparr> gw_host = ''localhost'', gw_port = 80, gw_timeoutMs = 10000, gw_publicPath = ''/google/callback'',
    gw_upstreamPath = ''/oauth/google/callback'' \<rparr>"
  let ?e = "\<lparr> clock = (\<lambda>_. 0), draw = (\<lambda>_. []), google = (\<lambda>_. None),
    request_url = (\<lambda>u. Some (''/oauth/google/callback'', drop 23 u)) \<rparr>"
  have g: "createPublicGateway ?p \<lparr> pub_upstream = None, pub_publicPath = None, pub_upstreamPath = None,
      pub_timeoutMs = None \<rparr> = Inr ?g"
  proof -
    have h: "strip_brackets ''localhost'' = ''localhost'' \<and> lower ''localhost'' = ''localhost''"
      by code_simp
    have p: "normalisePath None DEFAULT_PUBLIC_PATH = Inr DEFAULT_PUBLIC_PATH"
      "normalisePath None DEFAULT_UPSTREAM_PATH = Inr DEFAULT_UPSTREAM_PATH" by code_simp+
    from h p show ?thesis
      by (simp add: createPublicGateway_def normaliseLoopbackUpstream_def LOOPBACK_HOSTNAMES_def normaliseTimeout_def
          or_default_def DEFAULT_TIMEOUT_MS_def MAX_TIMEOUT_MS_def upstream_port_def DEFAULT_PUBLIC_PATH_def
          DEFAULT_UPSTREAM_PATH_def)
  qed
  have "target_path ''/health'' = ''/health''" by code_simp
  then have d: "public_decide ?g (ex_rq\<lparr> rq_url := ''/health'' \<rparr>) = Answer (sendError 404 ''not_found'')"
    by (simp add: public_decide_def)
  have "rs_status (sendError 404 ''not_found'') = (if target_path ''/health'' = ''/google/callback'' then 405 else 404)"
    using public_gateway_callback_only [OF g, of ?e "ex_rq\<lparr> rq_url := ''/health'' \<rparr>"] by (simp add: d)
  with g d show ?thesis by (intro exI [of _ ?g]) (simp add: sendError_def sendJson_def)
qed

end
