(* ===== verification/BrokerSystem.thy ===== *)
theory BrokerSystem
  imports Admin
begin

text \<open>
  The broker as it is deployed: the public and the operator's server on one state with the encrypted
  stores.  Every request acts on the pairing store as a sequence of that store's own operations, so
  what is proved of the store holds of the server; the properties follow a device through runs of
  arbitrary requests.
\<close>

section \<open>Requests are runs of the pairing store\<close>

definition pairing_run :: "'x node_crypto_scheme \<Rightarrow> request_env \<Rightarrow> pairing_store \<Rightarrow> pairing_store \<Rightarrow> bool" where
  "pairing_run N env pairs pairs' \<longleftrightarrow> (\<exists>cs. pairs' = fold (pairing_step N) cs pairs
     \<and> (\<forall>c \<in> set cs. \<forall>s k. mints_pairing N c s k \<longrightarrow> k = pairHash N (to_hex (draw env 0))))"

lemma pairing_run_refl [intro]: "pairing_run N env pairs pairs"
  unfolding pairing_run_def by (rule exI [of _ "[]"]) simp

lemma pairing_run_step [intro]:
  "(\<And>s k. mints_pairing N c s k \<Longrightarrow> k = pairHash N (to_hex (draw env 0))) \<Longrightarrow>
     pairing_run N env pairs (pairing_step N c pairs)"
  unfolding pairing_run_def by (rule exI [of _ "[c]"]) simp

lemma pairing_run_trans: "pairing_run N env p1 p2 \<Longrightarrow> pairing_run N env p2 p3 \<Longrightarrow> pairing_run N env p1 p3"
  unfolding pairing_run_def
proof (elim exE conjE)
  fix cs cs'
  assume "p2 = fold (pairing_step N) cs p1" "p3 = fold (pairing_step N) cs' p2"
    "\<forall>c\<in>set cs. \<forall>s k. mints_pairing N c s k \<longrightarrow> k = pairHash N (to_hex (draw env 0))"
    "\<forall>c\<in>set cs'. \<forall>s k. mints_pairing N c s k \<longrightarrow> k = pairHash N (to_hex (draw env 0))"
  then show "\<exists>cs. p3 = fold (pairing_step N) cs p1
      \<and> (\<forall>c\<in>set cs. \<forall>s k. mints_pairing N c s k \<longrightarrow> k = pairHash N (to_hex (draw env 0)))"
    by (intro exI [of _ "cs @ cs'"]) auto
qed

lemma run_consume_state:
  "consumeOAuthState N rn st t pairs = (x, pairs') \<Longrightarrow> pairing_run N env pairs pairs'"
  using pairing_run_step [of N "PairConsumeState rn st t" env pairs] by simp

lemma run_mark: "markAuthorized N h t pairs = (x, pairs') \<Longrightarrow> pairing_run N env pairs pairs'"
  using pairing_run_step [of N "PairMark h t" env pairs] by simp

lemma run_claim: "openClaim N p pf t pairs = (x, pairs') \<Longrightarrow> pairing_run N env pairs pairs'"
  using pairing_run_step [of N "PairClaim p pf t" env pairs] by simp

lemma run_revoke: "revoke N p pairs = (x, pairs') \<Longrightarrow> pairing_run N env pairs pairs'"
  using pairing_run_step [of N "PairRevoke p" env pairs] by simp

lemma run_create: "pairing_run N env pairs (snd (create_for N b env sp ep pairs))"
  unfolding create_for_def
  using pairing_run_step [of N "PairCreate (draw env 0) r2 r3 f sp ep t d" env pairs for r2 r3 f sp ep t d] by simp

lemma enroll_pairs: "st_pairs (snd (enroll_device N b P env p sp ep s)) = st_pairs s"
  by (cases rule: enroll_device_cases [of N b P env p sp ep s]) simp_all

lemma handle_claim_run: "pairing_run N env (st_pairs s) (st_pairs (snd (handle_claim N b P env p body s)))"
  by (cases rule: handle_claim_cases [of N b P env p body s]) (auto simp: enroll_pairs dest: run_claim)

lemma callback_run: "pairing_run N env (st_pairs s) (st_pairs (snd (handleOAuthCallback N b P env ps s)))"
  by (cases rule: callback_cases [of N b P env ps s])
    (auto dest: run_consume_state run_mark intro: pairing_run_trans)

lemma handle_pair_run: "pairing_run N env (st_pairs s) (st_pairs (snd (handle_pair N b env rq s)))"
proof (cases rule: handle_pair_cases [of b rq env s N])
  case (read m body)
  show ?thesis
    using run_create
    by (cases rule: pair_device_cases [of N b env body "s\<lparr> st_attempts := m \<rparr>"]) (auto simp: read(3))
qed auto

lemma handle_nonce_pairs: "st_pairs (snd (handle_nonce N b P env p s)) = st_pairs s"
  by (cases rule: handle_nonce_cases [of N b P env p s]) (auto simp: grant_nonce_def Let_def split: if_splits)

lemma handle_lease_pairs: "st_pairs (snd (handle_lease N b P env p body s)) = st_pairs s"
  by (cases rule: handle_lease_cases [of N b P env p body s]) auto

lemma serve_run: "pairing_run N env (st_pairs s) (st_pairs (snd (serve N b P env rq s)))"
  by (cases rule: serve_cases [of N b P env rq s])
    (simp_all add: callback_run handle_pair_run handle_claim_run handle_nonce_pairs handle_lease_pairs pairing_run_refl)

lemma never_mints_run:
  "(\<And>c s. c \<in> set cs \<Longrightarrow> \<not> mints_pairing N c s k) \<Longrightarrow> never_mints (pairing_step N) (mints_pairing N) k cs s"
  by (induction cs arbitrary: s) auto

lemma run_pairing_inv: "pairing_run N env pairs pairs' \<Longrightarrow> pairing_inv pairs \<Longrightarrow> pairing_inv pairs'"
  by (auto simp: pairing_run_def intro: pairing_machine.run_inv)

lemma run_status_climbs:
  assumes "pairing_run N env pairs pairs'" "pairing_inv pairs" "pairHash N p \<noteq> pairHash N (to_hex (draw env 0))"
    and "statusOf N p pairs' = Some st'"
  shows "\<exists>st. statusOf N p pairs = Some st \<and> st \<le> st'"
proof -
  obtain cs where cs: "pairs' = fold (pairing_step N) cs pairs"
    and m: "\<forall>c \<in> set cs. \<forall>s k. mints_pairing N c s k \<longrightarrow> k = pairHash N (to_hex (draw env 0))"
    using assms(1) unfolding pairing_run_def by blast
  have "never_mints (pairing_step N) (mints_pairing N) (pairHash N p) cs pairs"
    by (rule never_mints_run) (use m assms(3) in blast)
  from pairing_life.run_climbs [OF assms(2) this] assms(4) show ?thesis
    by (simp add: cs statusOf_def pairing_rank_def)
qed

section \<open>What a request does to the enrolled devices\<close>

lemma find_loaded: "live_ready reg \<Longrightarrow>
    reg_find (encrypted_providers N key se) p reg = (Inr (live_find N p reg), reg)"
  by (cases reg) (simp add: encrypted_providers_def enc_find_def ensure_loaded_def live_ready_def live_find_def)

lemma record_live: "snd (reg_record (encrypted_providers N key se) i reg) = live_enroll N (se_read se, se_write se) i reg"
  by (cases reg) (simp add: encrypted_providers_def live_enroll_def)

lemma revoke_live: "snd (reg_revoke (encrypted_providers N key se) p reg) = live_withdraw N (se_read se, se_write se) p reg"
  by (cases reg) (simp add: encrypted_providers_def live_withdraw_def)

lemma enroll_registry:
  "st_reg (snd (enroll_device N b (encrypted_providers N key se) env p sp ep s)) =
     live_enroll N (se_read se, se_write se) (enrollment_request b env p sp ep) (st_reg s)"
  using record_live [of N key se "enrollment_request b env p sp ep" "st_reg s"]
  by (cases rule: enroll_device_cases [of N b "encrypted_providers N key se" env p sp ep s]) simp_all

text \<open>The registry changes only when a claim is accepted, and then for the claimed pairing alone.\<close>

lemma serve_registry [consumes 1, case_names same enrolled]:
  fixes N :: "'x lease_crypto_scheme"
  assumes "live_ready (st_reg s)"
  obtains (same) "st_reg (snd (serve N b (encrypted_providers N key se) env rq s)) = st_reg s"
  | (enrolled) i pf where "is_ok (fst (openClaim N (in_pairId i) pf (clock env 0) (st_pairs s)))"
      "st_reg (snd (serve N b (encrypted_providers N key se) env rq s)) =
         live_enroll N (se_read se, se_write se) i (st_reg s)"
proof -
  let ?P = "encrypted_providers N key se"
  have find: "snd (reg_find ?P p (st_reg s)) = st_reg s" for p by (simp add: find_loaded [OF assms])
  show thesis
  proof (cases rule: serve_cases [of N b ?P env rq s])
    case (callback path query)
    then show thesis
      by (cases rule: callback_cases [of N b ?P env "form_parse query" s]) (auto intro: same)
  next
    case pair
    show thesis
    proof (cases rule: handle_pair_cases [of b rq env s N])
      case (read m body)
      then show thesis
        by (cases rule: pair_device_cases [of N b env body "s\<lparr> st_attempts := m \<rparr>"])
          (auto simp: pair(3) intro: same)
    qed (auto simp: pair(3) intro: same)
  next
    case (claim body p)
    show thesis
    proof (cases rule: handle_claim_cases [of N b ?P env p body s])
      case (opened pf sp ep pairs)
      have "st_reg (snd (serve N b ?P env rq s)) =
          live_enroll N (se_read se, se_write se) (enrollment_request b env p sp ep) (st_reg s)"
        by (simp only: claim(6) opened(2) enroll_registry) simp
      with opened(1) show thesis by (intro enrolled [of _ pf]) (auto simp: enrollment_request_def)
    qed (auto simp: claim(6) intro: same)
  next
    case (nonce body p)
    show thesis
    proof (cases rule: handle_nonce_cases [of N b ?P env p s])
      case (denied e c reg)
      with find [of p] show thesis by (intro same) (auto simp: nonce(6))
    next
      case (granted d reg s' n x)
      moreover have "st_reg s' = reg" using granted(5) by (auto simp: grant_nonce_def Let_def split: if_splits)
      ultimately show thesis using find [of p] by (intro same) (auto simp: nonce(6))
    qed
  next
    case (lease body p)
    show thesis
    proof (cases rule: handle_lease_cases [of N b ?P env p body s])
      case (denied e c)
      with find [of p] show thesis by (intro same) (auto simp: lease(6))
    next
      case (leased n pf d reg s')
      with find [of p] show thesis by (intro same) (auto simp: lease(6))
    qed
  qed (auto intro: same)
qed

section \<open>A revoked device is locked out\<close>

definition locked_out :: "'x lease_crypto_scheme \<Rightarrow> string \<Rightarrow> (enc_store \<times> files, files) broker_state \<Rightarrow> bool" where
  "locked_out N p s \<longleftrightarrow> pairing_inv (st_pairs s) \<and> live_ready (st_reg s)
     \<and> (\<forall>d. live_find N p (st_reg s) = Some d \<longrightarrow> dev_revoked d)
     \<and> (\<forall>st. statusOf N p (st_pairs s) = Some st \<longrightarrow> st = Revoked)"

datatype broker_event = ToBroker store_env request_env http_request | ToAdmin store_env request_env http_request

primrec broker_event_step :: "'x lease_crypto_scheme \<Rightarrow> broker \<Rightarrow> admin \<Rightarrow> bytes \<Rightarrow> broker_event \<Rightarrow>
    (enc_store \<times> files, files) broker_state \<Rightarrow> (enc_store \<times> files, files) broker_state" where
  "broker_event_step N b a key (ToBroker se env rq) s = snd (serve N b (encrypted_providers N key se) env rq s)"
| "broker_event_step N b a key (ToAdmin se env rq) s = snd (admin_serve N a (encrypted_providers N key se) env rq s)"

text \<open>No pairing request of the run draws an identifier with the given hash.\<close>

primrec draws_pair :: "'x node_crypto_scheme \<Rightarrow> string \<Rightarrow> broker_event \<Rightarrow> bool" where
  "draws_pair N p (ToBroker se env rq) = (pairHash N (to_hex (draw env 0)) = pairHash N p)"
| "draws_pair N p (ToAdmin se env rq) = False"

lemma same_hash: "pairIdHash N p = pairHash N p"
  by (simp add: pairIdHash_def pairHash_def)

lemma find_hash: "pairIdHash N p = pairIdHash N q \<Longrightarrow> statusOf N p s = statusOf N q s"
  by (simp add: statusOf_def same_hash)

lemma status_run_locked:
  assumes "pairing_run N env pairs pairs'" "pairing_inv pairs" "pairHash N p \<noteq> pairHash N (to_hex (draw env 0))"
    and "\<forall>st. statusOf N p pairs = Some st \<longrightarrow> st = Revoked" "statusOf N p pairs' = Some st"
  shows "st = Revoked"
  using run_status_climbs [OF assms(1,2,3,5)] assms(4) rank_revoked_only by auto

lemma claim_locked:
  assumes "\<forall>st. statusOf N p pairs = Some st \<longrightarrow> st = Revoked"
  shows "fst (openClaim N p pf t pairs) \<in> {Inl ClaimUnknown, Inl ClaimRevoked}"
  using assms by (auto simp: openClaim_def statusOf_def Let_def split: option.splits)

lemma serve_keeps_locked:
  assumes l: "locked_out N p s" and d: "\<not> draws_pair N p (ToBroker se env rq)"
  shows "locked_out N p (snd (serve N b (encrypted_providers N key se) env rq s))"
proof -
  let ?s = "snd (serve N b (encrypted_providers N key se) env rq s)"
  from l have inv: "pairing_inv (st_pairs s)" and ready: "live_ready (st_reg s)"
    and dev: "\<forall>d. live_find N p (st_reg s) = Some d \<longrightarrow> dev_revoked d"
    and st: "\<forall>st. statusOf N p (st_pairs s) = Some st \<longrightarrow> st = Revoked"
    by (simp_all add: locked_out_def)
  note run = serve_run [of N env s b "encrypted_providers N key se" rq]
  from ready have "live_ready (st_reg ?s) \<and> (\<forall>d. live_find N p (st_reg ?s) = Some d \<longrightarrow> dev_revoked d)"
  proof (cases rule: serve_registry [of s N b key se env rq])
    case same
    with ready dev show ?thesis by simp
  next
    case (enrolled i pf)
    have "pairIdHash N p \<noteq> pairIdHash N (in_pairId i)"
    proof
      assume "pairIdHash N p = pairIdHash N (in_pairId i)"
      then have "fst (openClaim N (in_pairId i) pf (clock env 0) (st_pairs s)) \<in> {Inl ClaimUnknown, Inl ClaimRevoked}"
        using st find_hash [of N p "in_pairId i"] by (intro claim_locked) simp
      with enrolled(1) show False by auto
    qed
    with dev ready show ?thesis
      by (auto simp: enrolled(2) live.find_enroll live.ready_enroll split: option.splits)
  qed
  moreover have "pairing_inv (st_pairs ?s)" by (rule run_pairing_inv [OF run inv])
  moreover have "pairHash N p \<noteq> pairHash N (to_hex (draw env 0))" using d by auto
  then have "\<forall>st. statusOf N p (st_pairs ?s) = Some st \<longrightarrow> st = Revoked"
    using status_run_locked [OF run inv _ st] by blast
  ultimately show ?thesis by (simp add: locked_out_def)
qed

lemma revoke_everywhere_state:
  "\<exists>tok. snd (revoke_everywhere N a P p s) = s\<lparr> st_pairs := snd (revoke N p (st_pairs s)),
     st_reg := (if ad_hasRegistry a then snd (reg_revoke P p (st_reg s)) else st_reg s), st_tok := tok \<rparr>"
proof -
  obtain x pairs where r: "revoke N p (st_pairs s) = (x, pairs)" by fastforce
  obtain y reg where g: "(if ad_hasRegistry a then reg_revoke P p (st_reg s) else (Inr False, st_reg s)) = (y, reg)"
    by fastforce
  have reg: "reg = (if ad_hasRegistry a then snd (reg_revoke P p (st_reg s)) else st_reg s)"
    using g by (auto split: if_splits)
  show ?thesis
  proof (cases y)
    case (Inl e)
    note g' = g [unfolded Inl]
    show ?thesis
      by (rule exI [of _ "st_tok s"]) (simp add: revoke_everywhere_def r g' flip: reg)
  next
    case (Inr z)
    note g' = g [unfolded Inr]
    obtain w tok where c: "(if (x \<or> z) \<and> ad_hasTokens a then tok_clear P (st_tok s) else (Inr (), st_tok s)) = (w, tok)"
      by fastforce
    show ?thesis
      by (rule exI [of _ tok]) (cases w, simp_all add: revoke_everywhere_def r g' c Let_def flip: reg)
  qed
qed

lemma admin_serve_cases:
  obtains (codes) cs where "snd (admin_serve N a P env rq s) = s\<lparr> st_codes := cs \<rparr>"
  | (revoked) body p where "tokenMatches N (bearerToken (rq_auth rq)) (ad_token a)" "rq_method rq = ''POST''"
      "rq_url rq = ''/admin/revoke''" "jsonBody rq = Some body" "field body ''pairId'' = Str p"
      "admin_serve N a P env rq s = revoke_everywhere N a P p s"
proof (cases "\<exists>body p. tokenMatches N (bearerToken (rq_auth rq)) (ad_token a) \<and> rq_method rq = ''POST''
    \<and> rq_url rq = ''/admin/revoke'' \<and> json_request rq \<and> jsonBody rq = Some body
    \<and> bounded_string (field body ''pairId'') 256 = Some p")
  case True
  then obtain body p where h: "tokenMatches N (bearerToken (rq_auth rq)) (ad_token a)" "rq_method rq = ''POST''"
    "rq_url rq = ''/admin/revoke''" "json_request rq" "jsonBody rq = Some body"
    "bounded_string (field body ''pairId'') 256 = Some p" by blast
  have f: "field body ''pairId'' = Str p"
    using h(6) by (auto simp: bounded_string_def as_string_iff split: option.splits if_splits)
  show thesis by (rule revoked [OF h(1-3,5) f]) (simp add: admin_serve_def admin_revoke_def h)
next
  case False
  define C where "C t \<longleftrightarrow> (\<exists>cs. t = s\<lparr> st_codes := cs \<rparr>)" for t
  have same: "C s" unfolding C_def by (rule exI [of _ "st_codes s"]) simp
  then have "C (snd (admin_issue N a env rq s))"
    by (auto simp: C_def admin_issue_def split: option.splits prod.splits sum.splits)
  moreover have "C (snd (admin_revoke N a P rq s))"
    if "tokenMatches N (bearerToken (rq_auth rq)) (ad_token a)" "rq_method rq = ''POST''" "rq_url rq = ''/admin/revoke''"
    using False that same by (auto simp: admin_revoke_def split: option.splits)
  ultimately have "C (snd (admin_serve N a P env rq s))" using same by (auto simp: admin_serve_def)
  then show thesis by (auto simp: C_def intro: codes)
qed

lemma withdraw_locks:
  assumes "live_ready reg"
  shows "live_find N p (live_withdraw N c p reg) = Some d \<Longrightarrow> dev_revoked d"
  using live.find_withdraw [OF assms, of N p c p] by auto

lemma revoke_status:
  "statusOf N p (snd (revoke N p pairs)) = Some st \<Longrightarrow> st = Revoked"
  by (cases rule: revoke_cases [of pairs N p]) (auto simp: statusOf_def)

lemma revoke_everywhere_locks:
  assumes "pairing_inv (st_pairs s)" "live_ready (st_reg s)" "ad_hasRegistry a"
  shows "locked_out N p (snd (revoke_everywhere N a (encrypted_providers N key se) p s))"
proof -
  obtain tok where "snd (revoke_everywhere N a (encrypted_providers N key se) p s) =
      s\<lparr> st_pairs := snd (revoke N p (st_pairs s)),
         st_reg := live_withdraw N (se_read se, se_write se) p (st_reg s), st_tok := tok \<rparr>"
    using revoke_everywhere_state [of N a "encrypted_providers N key se" p s] assms(3) by (auto simp: revoke_live)
  moreover have "pairing_inv (snd (revoke N p (st_pairs s)))"
    using pairing_step_inv [OF assms(1), of N "PairRevoke p"] by simp
  ultimately show ?thesis
    using withdraw_locks [OF assms(2)] revoke_status live.ready_withdraw [OF assms(2)]
    by (auto simp: locked_out_def)
qed

lemma admin_keeps_locked:
  assumes l: "locked_out N p s" and reg: "ad_hasRegistry a"
  shows "locked_out N p (snd (admin_serve N a (encrypted_providers N key se) env rq s))"
proof (cases rule: admin_serve_cases [of N a "encrypted_providers N key se" env rq s])
  case (codes cs)
  with l show ?thesis by (simp add: locked_out_def)
next
  case (revoked body q)
  from l have inv: "pairing_inv (st_pairs s)" and ready: "live_ready (st_reg s)"
    and dev: "\<forall>d. live_find N p (st_reg s) = Some d \<longrightarrow> dev_revoked d"
    and st: "\<forall>st. statusOf N p (st_pairs s) = Some st \<longrightarrow> st = Revoked"
    by (simp_all add: locked_out_def)
  obtain tok where t: "snd (revoke_everywhere N a (encrypted_providers N key se) q s) =
      s\<lparr> st_pairs := snd (revoke N q (st_pairs s)),
         st_reg := live_withdraw N (se_read se, se_write se) q (st_reg s), st_tok := tok \<rparr>"
    using revoke_everywhere_state [of N a "encrypted_providers N key se" q s] reg by (auto simp: revoke_live)
  have "pairing_inv (snd (revoke N q (st_pairs s)))"
    using pairing_step_inv [OF inv, of N "PairRevoke q"] by simp
  moreover have "st' = Revoked" if "statusOf N p (snd (revoke N q (st_pairs s))) = Some st'" for st'
    using st that by (cases rule: revoke_cases [of "st_pairs s" N q]) (auto simp: statusOf_def split: if_splits)
  moreover have "dev_revoked d" if "live_find N p (live_withdraw N c q (st_reg s)) = Some d" for d c
    using that dev live.find_withdraw [OF ready, of N p c q] by (auto split: if_splits)
  ultimately show ?thesis
    using live.ready_withdraw [OF ready] by (auto simp: locked_out_def revoked(6) t)
qed

lemma locked_run:
  assumes "locked_out N p s" "ad_hasRegistry a" "list_all (\<lambda>e. \<not> draws_pair N p e) es"
  shows "locked_out N p (fold (broker_event_step N b a key) es s)"
  using assms
proof (induction es arbitrary: s)
  case (Cons e es)
  have "locked_out N p (broker_event_step N b a key e s)"
    using Cons.prems by (cases e) (simp_all add: serve_keeps_locked admin_keeps_locked)
  with Cons show ?case by simp
qed simp

lemma locked_refused:
  assumes l: "locked_out N p s" and rq: "rq_method rq = ''POST''"
    "rq_url rq \<in> {''/oauth/claim'', ''/oauth/nonce'', ''/oauth/lease''}"
    "jsonBody rq = Some body" "field body ''pairId'' = Str p"
  shows "400 \<le> rs_status (fst (serve N b (encrypted_providers N key se) env rq s))"
proof -
  let ?P = "encrypted_providers N key se"
  from l have ready: "live_ready (st_reg s)"
    and dev: "\<forall>d. live_find N p (st_reg s) = Some d \<longrightarrow> dev_revoked d"
    and st: "\<forall>st. statusOf N p (st_pairs s) = Some st \<longrightarrow> st = Revoked"
    by (simp_all add: locked_out_def)
  have status: "rs_status (sendError e c) = e" for e c by (simp add: sendError_def sendJson_def)
  show ?thesis
  proof (cases rule: serve_cases [of N b ?P env rq s])
    case (claim body' p')
    with rq have p: "p' = p" by auto
    show ?thesis
    proof (cases rule: handle_claim_cases [of N b ?P env p body' s])
      case (denied pf x pairs)
      obtain e c where "claim_error x = sendError e c" "400 \<le> e" using claim_error_cases by blast
      then show ?thesis by (simp add: claim(6) p denied(2) status)
    next
      case (opened pf sp ep pairs)
      with claim_locked [OF st, of pf "clock env 0"] show ?thesis by auto
    qed (simp add: claim(6) p status)
  next
    case (nonce body' p')
    with rq have p: "p' = p" by auto
    show ?thesis
    proof (cases rule: handle_nonce_cases [of N b ?P env p s])
      case (granted d reg s' n x)
      with dev show ?thesis by (auto simp: find_loaded [OF ready])
    qed (simp add: nonce(6) p status)
  next
    case (lease body' p')
    with rq have p: "p' = p" by auto
    show ?thesis
    proof (cases rule: handle_lease_cases [of N b ?P env p body' s])
      case (leased n pf d reg s')
      with dev show ?thesis by (auto simp: find_loaded [OF ready])
    qed (simp add: lease(6) p status)
  qed (use rq in auto)
qed

section \<open>Properties\<close>

text \<open>
  An operator's revocation is effective and final.  After an authenticated revocation request for a
  pairing identifier, whatever its response, and even when a store cannot be written, every later
  request of that device to the claim, nonce and lease endpoints is refused, through any run of
  requests to both servers, with any faults of the file system, as long as no later pairing draws the
  same identifier.
\<close>
theorem operator_revocation_locks_out:
  assumes "pairing_inv (st_pairs s)" "live_ready (st_reg s)" "ad_hasRegistry a"
    and "tokenMatches N (bearerToken (rq_auth rq)) (ad_token a)" "rq_method rq = ''POST''"
    and "rq_url rq = ''/admin/revoke''" "json_request rq" "jsonBody rq = Some body"
    and "field body ''pairId'' = Str p" "length p \<le> 256"
    and "list_all (\<lambda>e. \<not> draws_pair N p e) es"
    and "s' = fold (broker_event_step N b a key) (ToAdmin se env rq # es) s"
    and "rq_method rq' = ''POST''" "rq_url rq' \<in> {''/oauth/claim'', ''/oauth/nonce'', ''/oauth/lease''}"
    and "jsonBody rq' = Some body'" "field body' ''pairId'' = Str p"
  shows "400 \<le> rs_status (fst (serve N b (encrypted_providers N key se') env' rq' s'))"
proof -
  have "admin_serve N a (encrypted_providers N key se) env rq s =
      revoke_everywhere N a (encrypted_providers N key se) p s"
    using assms(4-10) by (simp add: admin_serve_def admin_revoke_def bounded_string_def)
  then have "locked_out N p (broker_event_step N b a key (ToAdmin se env rq) s)"
    using revoke_everywhere_locks [OF assms(1-3)] by simp
  then have "locked_out N p s'"
    using locked_run [OF _ assms(3,11)] by (simp add: assms(12))
  then show ?thesis by (rule locked_refused) (use assms(13-16) in auto)
qed

definition post_json :: "string \<Rightarrow> (string \<times> jsval) list \<Rightarrow> http_request" where
  "post_json url kvs = \<lparr> rq_method = ''POST'', rq_url = url, rq_remote = None, rq_ctype = Some ''application/json'',
     rq_auth = Some ''Bearer 0123456789abcdef'', rq_length = None, rq_chunks = [utf8 (json_text (Obj kvs))],
     rq_aborted = False \<rparr>"

lemma post_json_simps [simp]: "rq_method (post_json url kvs) = ''POST''" "rq_url (post_json url kvs) = url"
  "json_request (post_json url kvs)"
  by (simp_all add: post_json_def json_request_def starts_with_def)

lemma post_json_body:
  "plain_json (Obj kvs) \<Longrightarrow> length (utf8 (json_text (Obj kvs))) \<le> MAX_JSON_BYTES \<Longrightarrow>
     jsonBody (post_json url kvs) = Some kvs"
  by (simp add: jsonBody_def post_json_def json_parse_text del: json_text.simps)

lemma post_pair_body: "jsonBody (post_json url [(''pairId'', Str ''p'')]) = Some [(''pairId'', Str ''p'')]"
proof (rule post_json_body)
  show "length (utf8 (json_text (Obj [(''pairId'', Str ''p'')]))) \<le> MAX_JSON_BYTES" by code_simp
qed simp

definition ex_admin :: admin where
  "ex_admin = \<lparr> ad_token = ''0123456789abcdef'', ad_ttlMs = Fin 600000, ad_hasRegistry = True, ad_hasTokens = True \<rparr>"

definition ex_broker_state :: "(enc_store \<times> files, files) broker_state" where
  "ex_broker_state = \<lparr> st_attempts = [], st_nonces = [], st_codes = \<lparr> codes = [], maxCodes = 5 \<rparr>,
     st_pairs = \<lparr> pair_records = [], pair_states = [], pair_handles = [], pair_nonces = [], pair_max = 2 \<rparr>,
     st_reg = (ex_enrolled_store, Map.empty), st_tok = Map.empty \<rparr>"

lemma ex_broker_inv: "pairing_inv (st_pairs ex_broker_state)" "live_ready (st_reg ex_broker_state)"
  by (simp_all add: ex_broker_state_def pairing_inv_def live_ready_def ex_enrolled_store_def)

lemma ex_admin_token: "tokenMatches N (bearerToken (rq_auth (post_json url kvs))) (ad_token ex_admin)"
proof -
  have "bearerToken (Some ''Bearer 0123456789abcdef'') = Some ''0123456789abcdef''" by code_simp
  then show ?thesis by (simp add: post_json_def tokenMatches_def ex_admin_def)
qed

theorem operator_revocation_locks_out_witness:
  "\<forall>b key se se' env env'. 400 \<le> rs_status (fst (serve toy_lease b (encrypted_providers toy_lease key se') env'
     (post_json ''/oauth/lease'' [(''pairId'', Str ''p'')])
     (fold (broker_event_step toy_lease b ex_admin key)
       [ToAdmin se env (post_json ''/admin/revoke'' [(''pairId'', Str ''p'')])] ex_broker_state)))"
  by (intro allI, rule operator_revocation_locks_out [where p = "''p''" and es = "[]" and a = ex_admin and s = ex_broker_state
        and rq = "post_json ''/admin/revoke'' [(''pairId'', Str ''p'')]" and body = "[(''pairId'', Str ''p'')]"
        and body' = "[(''pairId'', Str ''p'')]", OF ex_broker_inv])
    (simp_all add: ex_admin_token post_pair_body field_Cons, simp add: ex_admin_def)

end
