(* ===== verification/BrokerProps.thy ===== *)
theory BrokerProps
  imports BrokerSystem
begin

text \<open>
  What the broker's endpoints promise: a durable nonce is redeemed once, a pairing is authorized only by
  a Google grant of the configured scope, a pairing exists only against an operator's code, a lease
  that leaves the broker opens on the enrolled device and carries the read-only scope, and error
  responses never echo request data.
\<close>

section \<open>Durable nonces are one-time tokens\<close>

text \<open>
  Every part of a handler between two \<^verbatim>\<open>await\<close>s is one event.  \<open>ElsewhereOp\<close> stands for any event of any
  handler that does not touch the nonces; \<open>GrantOp\<close> is the part of a nonce request after the lookup.
\<close>

datatype ('r, 't) nonce_op =
    GrantOp bytes int int string "enrolled_device option"
  | ElsewhereOp "('r, 't) broker_state"

type_synonym nonce_attempt = "int \<times> int \<times> string \<times> string \<times> string \<times> enrolled_device option"

definition redeem_attempt :: "'x node_crypto_scheme \<Rightarrow> nonce_attempt \<Rightarrow> ('r, 't) broker_state \<Rightarrow>
    bool \<times> ('r, 't) broker_state" where
  "redeem_attempt N x s = (case x of (t0, t1, p, n, pf, r) \<Rightarrow>
     (case redeem_nonce N t0 t1 p n pf r s of (res, s') \<Rightarrow> (is_ok res, s')))"

definition attempt_nonce :: "'x node_crypto_scheme \<Rightarrow> nonce_attempt \<Rightarrow> string" where
  "attempt_nonce N x = (case x of (t0, t1, p, n, pf, r) \<Rightarrow> nonceHash N n)"

primrec nonce_op_step :: "'x node_crypto_scheme \<Rightarrow> broker \<Rightarrow> ('r, 't) nonce_op \<Rightarrow>
    ('r, 't) broker_state \<Rightarrow> ('r, 't) broker_state" where
  "nonce_op_step N b (GrantOp rn t0 t1 p r) s = snd (grant_nonce N b rn t0 t1 p r s)"
| "nonce_op_step N b (ElsewhereOp s') s = s'\<lparr> st_nonces := st_nonces s \<rparr>"

primrec mints_durable :: "'x node_crypto_scheme \<Rightarrow> ('r, 't) nonce_op \<Rightarrow> ('r, 't) broker_state \<Rightarrow> string \<Rightarrow> bool" where
  "mints_durable N (GrantOp rn t0 t1 p r) s h = (nonceHash N (toBase64Url rn) = h)"
| "mints_durable N (ElsewhereOp s') s h = False"

definition nonce_spent :: "string \<Rightarrow> ('r, 't) broker_state \<Rightarrow> bool" where
  "nonce_spent h s \<longleftrightarrow> mget (st_nonces s) h = None"

interpretation durable: one_shot "redeem_attempt N" "nonce_op_step N b" "attempt_nonce N" "mints_durable N"
  nonce_spent "\<lambda>s. True" for N b
proof unfold_locales
  fix x :: nonce_attempt and s :: "('b, 'c) broker_state" and h
  obtain t0 t1 p n pf r where x: "x = (t0, t1, p, n, pf, r)" by (cases x)
  show "fst (redeem_attempt N x s) \<Longrightarrow> nonce_spent (attempt_nonce N x) (snd (redeem_attempt N x s))"
    by (cases rule: redeem_nonce_cases [of N t0 t1 p n pf r s])
      (auto simp: redeem_attempt_def attempt_nonce_def nonce_spent_def x split: prod.splits)
  show "nonce_spent (attempt_nonce N x) s \<Longrightarrow> \<not> fst (redeem_attempt N x s)"
    by (cases rule: redeem_nonce_cases [of N t0 t1 p n pf r s])
      (auto simp: redeem_attempt_def attempt_nonce_def nonce_spent_def x split: prod.splits)
  show "nonce_spent h s \<Longrightarrow> nonce_spent h (snd (redeem_attempt N x s))"
    by (cases rule: redeem_nonce_cases [of N t0 t1 p n pf r s])
      (auto simp: redeem_attempt_def nonce_spent_def x split: prod.splits)
next
  fix h and c :: "('b, 'c) nonce_op" and s
  show "nonce_spent h s \<Longrightarrow> \<not> mints_durable N c s h \<Longrightarrow> nonce_spent h (nonce_op_step N b c s)"
    by (cases c) (auto simp: nonce_spent_def grant_nonce_def Let_def)
qed simp_all

text \<open>
  C5: a durable lease nonce is redeemed at most once under every interleaving of the handlers' atomic
  parts, whatever the clock and the records the lookups return, unless the random source draws it
  again; and a redemption that succeeds was for a live, unexpired device record, an unexpired nonce
  issued to that very pairing, and a signature of the registered key over the nonce bytes.
\<close>
theorem durable_nonce_redeemed_once:
  assumes "never_reminted (redeem_attempt N) (nonce_op_step N b) (mints_durable N) h es s"
  shows "count_list (consumed (redeem_attempt N) (nonce_op_step N b) (attempt_nonce N) es s) h \<le> 1
    \<and> (fst (redeem_nonce N t0 t1 p nonce pf r s) = Inr pem \<longrightarrow>
        (\<exists>d n k. r = Some d \<and> \<not> dev_revoked d \<and> t0 < dev_expiresAtMs d \<and> pem = dev_encryptionPem d
          \<and> mget (st_nonces s) (nonceHash N nonce) = Some n \<and> iss_pairIdHash n = pairIdHash N p
          \<and> t1 < iss_expiresAtMs n \<and> createPublicKey N (dev_signingPem d) = Some k
          \<and> buffer_from_base64url N pf \<noteq> []
          \<and> verify_signature N (buffer_from_base64url N nonce) k (buffer_from_base64url N pf)))"
proof
  show "count_list (consumed (redeem_attempt N) (nonce_op_step N b) (attempt_nonce N) es s) h \<le> 1"
    using durable.consumed_at_most_once [OF TrueI assms] .
  show "fst (redeem_nonce N t0 t1 p nonce pf r s) = Inr pem \<longrightarrow>
        (\<exists>d n k. r = Some d \<and> \<not> dev_revoked d \<and> t0 < dev_expiresAtMs d \<and> pem = dev_encryptionPem d
          \<and> mget (st_nonces s) (nonceHash N nonce) = Some n \<and> iss_pairIdHash n = pairIdHash N p
          \<and> t1 < iss_expiresAtMs n \<and> createPublicKey N (dev_signingPem d) = Some k
          \<and> buffer_from_base64url N pf \<noteq> []
          \<and> verify_signature N (buffer_from_base64url N nonce) k (buffer_from_base64url N pf))"
    by (cases rule: redeem_nonce_cases [of N t0 t1 p nonce pf r s])
      (auto simp: durable_proof_def Let_def split: if_splits option.splits)
qed

definition ex_nonce_state :: "(enc_store \<times> files, files) broker_state" where
  "ex_nonce_state = ex_broker_state\<lparr> st_nonces := [(nonceHash toy_lease ''n'',
     \<lparr> iss_pairIdHash = pairIdHash toy_lease ''p'', iss_expiresAtMs = 50 \<rparr>)] \<rparr>"

theorem durable_nonce_redeemed_once_witness:
  "\<forall>b. count_list (consumed (redeem_attempt toy_lease) (nonce_op_step toy_lease b) (attempt_nonce toy_lease)
     [Attempt (1, 2, ''p'', ''n'', ''s'', Some ex_device), Attempt (1, 2, ''p'', ''n'', ''s'', Some ex_device)]
     ex_nonce_state) (nonceHash toy_lease ''n'') \<le> 1"
  by (intro allI, rule durable_nonce_redeemed_once [THEN conjunct1]) simp

section \<open>Only a Google grant authorizes a pairing\<close>

lemma status_pruned: "pruned s' s \<Longrightarrow> pairing_inv s \<Longrightarrow> statusOf N p s' = Some st \<Longrightarrow> statusOf N p s = Some st"
  using rank_pruned [of s' s "pairHash N p" st] by (simp add: statusOf_def pairing_rank_def)

lemma create_status:
  assumes "pairing_inv s" "pairHash N p \<noteq> pairHash N (to_hex r1)"
    and "statusOf N p (snd (create N r1 r2 r3 f sp ep t d s)) = Some st"
  shows "statusOf N p s = Some st"
proof (cases rule: create_cases [of N r1 r2 r3 f sp ep t d s])
  case (refused e)
  with assms(1,3) status_pruned show ?thesis by blast
next
  case (made t' d' dk ek)
  then have "statusOf N p (evict_expired t' s) = Some st"
    using assms(2,3) by (simp add: statusOf_def add_pairing_def)
  then show ?thesis using status_pruned [OF pruned_evict_expired assms(1)] by blast
qed

lemma create_for_status:
  "pairing_inv s \<Longrightarrow> pairHash N p \<noteq> pairHash N (to_hex (draw env 0)) \<Longrightarrow>
     statusOf N p (snd (create_for N b env sp ep s)) = Some st \<Longrightarrow> statusOf N p s = Some st"
  unfolding create_for_def by (rule create_status)

lemma handle_pair_status:
  assumes "pairing_inv (st_pairs s)" "pairHash N p \<noteq> pairHash N (to_hex (draw env 0))"
    and "statusOf N p (st_pairs (snd (handle_pair N b env rq s))) = Some st"
  shows "statusOf N p (st_pairs s) = Some st"
proof (cases rule: handle_pair_cases [of b rq env s N])
  case (read m body)
  note st = assms(3) [unfolded read(3)]
  show ?thesis
  proof (cases rule: pair_device_cases [of N b env body "s\<lparr> st_attempts := m \<rparr>"])
    case (redeemed sp ep fp given cs)
    with st have "statusOf N p (snd (create_for N b env sp ep (st_pairs s))) = Some st" by simp
    then show ?thesis by (rule create_for_status [OF assms(1,2)])
  qed (use st in simp)
qed (use assms(3) in simp_all)

lemma claim_status:
  assumes "pairing_inv s" "statusOf N p (snd (openClaim N q pf t s)) = Some Authorized"
  shows "statusOf N p s = Some Authorized"
proof (cases rule: claim_cases [of N q pf t s])
  case (refused e)
  then show ?thesis using assms status_pruned by blast
next
  case (ok r)
  with assms(2) show ?thesis by (auto simp: statusOf_def split: if_splits)
qed

lemma consume_state_status:
  assumes "pairing_inv s" "consumeOAuthState N rn os t s = (x, s')" "statusOf N p s' = Some Authorized"
  shows "statusOf N p s = Some Authorized"
proof (cases rule: consume_state_cases [of N rn os t s])
  case refused
  with assms have "statusOf N p (evict_expired t s) = Some Authorized" by simp
  then show ?thesis using status_pruned [OF pruned_evict_expired assms(1)] by blast
next
  case (ok key r)
  with assms have "statusOf N p (evict_expired t s) = Some Authorized"
    by (auto simp: statusOf_def split: if_splits)
  then show ?thesis using status_pruned [OF pruned_evict_expired assms(1)] by blast
qed

text \<open>The pairing that the callback authorizes is the one whose one-time state it consumed.\<close>

lemma mark_after_consume:
  assumes inv: "pairing_inv s" and c: "consumeOAuthState N rn os t s = (Some got, s1)"
    and m: "markAuthorized N (consumed_handle got) t' s1 = (True, s2)"
    and new: "statusOf N p s2 = Some Authorized" "statusOf N p s \<noteq> Some Authorized"
  shows "\<exists>r. mget (pair_records s) (pairHash N p) = Some r \<and> pair_status r = Pending
    \<and> oauthStateHash r = stateHash N os \<and> consumed_verifier got = pkceVerifier r"
proof (cases rule: consume_state_cases [of N rn os t s])
  case (ok key r)
  let ?e = "evict_expired t s" and ?e1 = "evict_expired t' s1"
  have got: "consumed_handle got = encode rn" "consumed_verifier got = pkceVerifier r" using c ok by auto
  have handles: "pair_handles s1 = mput (stateHash N (encode rn)) key (pair_handles ?e)"
    using c ok by auto
  have inv1: "pairing_inv s1" using c pairing_step_inv [OF inv, of N "PairConsumeState rn os t"] by simp
  have rec: "mget (pair_records s) key = Some r" using pruned_get(1) [OF pruned_evict_expired inv ok(3)] .
  show ?thesis
  proof (cases rule: mark_cases [of N "consumed_handle got" t' s1])
    case refused
    with m show ?thesis by simp
  next
    case (ok key' r')
    have "mget (pair_handles s1) (stateHash N (encode rn)) = Some key'"
      using pruned_get(3) [OF pruned_evict_expired inv1 ok(1) [unfolded got]] .
    then have key': "key' = key" by (simp add: handles)
    have "pairHash N p = key"
    proof (rule ccontr)
      assume "pairHash N p \<noteq> key"
      then have "statusOf N p ?e1 = Some Authorized"
        using m ok new(1) by (auto simp: statusOf_def key')
      then have "statusOf N p s1 = Some Authorized"
        using status_pruned [OF pruned_evict_expired inv1] by blast
      with consume_state_status [OF inv c] new(2) show False by blast
    qed
    with rec \<open>oauthStateHash r = stateHash N os\<close> \<open>pair_status r = Pending\<close> got(2) show ?thesis by blast
  qed
qed (use c in simp)

lemma mark_refused_status:
  assumes "pairing_inv s" "markAuthorized N h t s = (False, s')" "statusOf N p s' = Some st"
  shows "statusOf N p s = Some st"
  using assms status_pruned [OF pruned_evict_expired assms(1)]
  by (cases rule: mark_cases [of N h t s]) auto

text \<open>The callback handler, from the side of a pairing that became authorized.\<close>

lemma callback_authorizes:
  assumes inv: "pairing_inv (st_pairs s)"
    and run: "handleOAuthCallback N b P env ps s = (resp, s')"
    and new: "statusOf N p (st_pairs s') = Some Authorized" "statusOf N p (st_pairs s) \<noteq> Some Authorized"
  obtains cfg secret r tokens tok where "resp = callback_page True" "bk_config b = Some cfg"
    "usable_secret b = Some secret" "mget (pair_records (st_pairs s)) (pairHash N p) = Some r" "pair_status r = Pending"
    "oauthStateHash r = stateHash N (param ps ''state'')"
    "exchangeAuthorizationCode cfg (param ps ''code'') (pkceVerifier r) secret (google env) = Inr tokens"
    "validateGrantedScope (granted_scope tokens) (googleDriveScope cfg) [googleDriveScope cfg] = Inr (googleDriveScope cfg)"
    "store_grant P (clock env 1) tokens (googleDriveScope cfg) (st_tok s) = (True, tok)" "st_tok s' = tok"
proof (cases rule: callback_cases [of N b P env ps s])
  case untouched
  with run new show ?thesis by auto
next
  case (unknown pairs)
  with run new consume_state_status [OF inv unknown(1)] show ?thesis by auto
next
  case (failed got pairs tok pairs')
  have inv1: "pairing_inv pairs" by (rule run_pairing_inv [OF run_consume_state [OF failed(1)] inv])
  have "statusOf N p pairs' = Some Authorized" using failed run new(1) by auto
  then have "statusOf N p pairs = Some Authorized"
    using failed(2) mark_refused_status [OF inv1] by blast
  with consume_state_status [OF inv failed(1)] new(2) show ?thesis by blast
next
  case (authorized cfg secret got pairs tokens scope tok pairs')
  have s': "resp = callback_page True" "st_pairs s' = pairs'" "st_tok s' = tok"
    using authorized(8) run by auto
  obtain r where r: "mget (pair_records (st_pairs s)) (pairHash N p) = Some r" "pair_status r = Pending"
    "oauthStateHash r = stateHash N (param ps ''state'')" "consumed_verifier got = pkceVerifier r"
    using mark_after_consume [OF inv authorized(3,7)] new s'(2) by blast
  have scope: "scope = googleDriveScope cfg" by (rule granted_default [OF authorized(5)])
  show ?thesis
    by (rule that [OF s'(1) authorized(1,2) r(1-3) authorized(4) [unfolded r(4)]
        authorized(5) [unfolded scope] authorized(6) [unfolded scope] s'(3)])
qed

lemma claim_keeps_unauthorized:
  assumes inv: "pairing_inv (st_pairs s)"
    and "statusOf N p (st_pairs (snd (handle_claim N b P env q body s))) = Some Authorized"
  shows "statusOf N p (st_pairs s) = Some Authorized"
proof (cases rule: handle_claim_cases [of N b P env q body s])
  case malformed
  with assms(2) show ?thesis by simp
next
  case (denied pf x pairs)
  with assms(2) claim_status [OF inv, of N p q pf "clock env 0"] show ?thesis by auto
next
  case (opened pf sp ep pairs)
  with assms(2) claim_status [OF inv, of N p q pf "clock env 0"] show ?thesis by (auto simp: enroll_pairs)
qed

text \<open>
  A pairing becomes authorized only through the OAuth callback, only when the callback carries that
  pairing's own one-time state, Google exchanged the code against the pairing's own PKCE verifier, the
  granted scope is exactly the configured one, and a refresh token was stored now or before; every
  other request to the broker leaves the set of authorized pairings as it is.
\<close>
theorem authorization_needs_google_grant:
  assumes inv: "pairing_inv (st_pairs s)" and "pairHash N p \<noteq> pairHash N (to_hex (draw env 0))"
    and "serve N b P env rq s = (resp, s')"
    and "statusOf N p (st_pairs s') = Some Authorized" "statusOf N p (st_pairs s) \<noteq> Some Authorized"
  shows "\<exists>path query cfg secret r tokens tok. rq_method rq = ''GET'' \<and> request_url env (rq_url rq) = Some (path, query)
    \<and> path \<in> set CALLBACK_PATHS \<and> resp = callback_page True
    \<and> bk_config b = Some cfg \<and> usable_secret b = Some secret
    \<and> mget (pair_records (st_pairs s)) (pairHash N p) = Some r \<and> pair_status r = Pending
    \<and> oauthStateHash r = stateHash N (param (form_parse query) ''state'')
    \<and> exchangeAuthorizationCode cfg (param (form_parse query) ''code'') (pkceVerifier r) secret (google env) = Inr tokens
    \<and> validateGrantedScope (granted_scope tokens) (googleDriveScope cfg) [googleDriveScope cfg] = Inr (googleDriveScope cfg)
    \<and> store_grant P (clock env 1) tokens (googleDriveScope cfg) (st_tok s) = (True, tok)
    \<and> st_tok s' = tok"
proof (cases rule: serve_cases [of N b P env rq s])
  case (callback path query)
  have run: "handleOAuthCallback N b P env (form_parse query) s = (resp, s')" using callback(4) assms(3) by simp
  show ?thesis by (rule callback_authorizes [OF inv run assms(4,5)]) (use callback(1-3) in blast)
next
  case pair
  have "st_pairs s' = st_pairs (snd (handle_pair N b env rq s))" using pair(3) assms(3) by (metis snd_conv)
  with assms(4,5) handle_pair_status [OF inv assms(2)] show ?thesis by simp
next
  case (claim body q)
  have "s' = snd (handle_claim N b P env q body s)" using claim(6) assms(3) by (metis snd_conv)
  with claim_keeps_unauthorized [OF inv] assms(4,5) show ?thesis by blast
next
  case (nonce body q)
  with assms(3-5) handle_nonce_pairs [of N b P env q s] show ?thesis by auto
next
  case (lease body q)
  with assms(3-5) handle_lease_pairs [of N b P env q body s] show ?thesis by auto
qed (use assms(3-5) in auto)

definition ex_pending :: pairing where
  "ex_pending = ex_pairing\<lparr> oauthStateHash := stateHash toy_lease ''st'', pair_status := Pending,
     proofMessage := proof_message toy_lease ''p'' 100 \<rparr>"

definition ex_pending_state :: "(device_map, stored_token option) broker_state" where
  "ex_pending_state = \<lparr> st_attempts = [], st_nonces = [], st_codes = \<lparr> codes = [], maxCodes = 5 \<rparr>,
     st_pairs = \<lparr> pair_records = [(pairHash toy_lease ''p'', ex_pending)],
       pair_states = [(stateHash toy_lease ''st'', pairHash toy_lease ''p'')], pair_handles = [],
       pair_nonces = [], pair_max = 2 \<rparr>,
     st_reg = [], st_tok = Some \<lparr> tok_refreshToken = ''r'', tok_scope = ''s'', tok_obtainedAtMs = 1 \<rparr> \<rparr>"

text \<open>The in-memory registry the server falls back to, with a token store in a variable.\<close>

definition memory_providers :: "'x node_crypto_scheme \<Rightarrow> (device_map, stored_token option) providers" where
  "memory_providers N = \<lparr> reg_find = (\<lambda>p m. (Inr (mem_find N p m), m)), reg_record = mem_record N,
     tok_read = (\<lambda>t. Inr t), reg_revoke = (\<lambda>p m. case mem_revoke N p m of (r, m') \<Rightarrow> (Inr r, m')),
     tok_replace = (\<lambda>i t. case assert_token i of Inl e \<Rightarrow> (Inl e, t) | Inr k \<Rightarrow> (Inr (), Some k)),
     tok_clear = (\<lambda>t. (Inr (), None)) \<rparr>"

definition ex_broker :: broker where
  "ex_broker = \<lparr> bk_config = Some ex_config, bk_secret = Some ''s'', bk_hasTokens = True, bk_root = ''root'',
     bk_maxAttempts = 5, bk_windowMs = 60000, bk_nonceTtlMs = 120000, bk_recordTtlMs = 7776000000 \<rparr>"

definition ex_env :: request_env where
  "ex_env = \<lparr> clock = (\<lambda>_. 5), draw = (\<lambda>k. replicate 32 (of_nat k)),
     google = (\<lambda>_. Some (Fin 200, json_text ex_token_body)),
     request_url = (\<lambda>_. Some (''/oauth/google/callback'', ''state=st&code=c'')) \<rparr>"

definition ex_callback :: http_request where
  "ex_callback = (post_json [] [])\<lparr> rq_method := ''GET'' \<rparr>"

lemma ex_exchange: "exchangeAuthorizationCode ex_config c v s (google ex_env) = Inr \<lparr> accessToken = ''tok'',
    tokenType = ''Bearer'', refreshToken = None, expiresIn = Some 3599, granted_scope = GOOGLE_DRIVE_READONLY_SCOPE \<rparr>"
proof -
  have "json_parse (json_text ex_token_body) = Some ex_token_body"
    by (rule json_parse_text) (simp add: ex_token_body_def jint_def)
  then show ?thesis
    by (simp add: exchangeAuthorizationCode_def ex_env_def parseTokenResponse_def ex_token_body_def field_def
        optional_field_def positive_integer_def GOOGLE_DRIVE_READONLY_SCOPE_def)
qed

lemma ex_scope: "validateGrantedScope GOOGLE_DRIVE_READONLY_SCOPE GOOGLE_DRIVE_READONLY_SCOPE
    [GOOGLE_DRIVE_READONLY_SCOPE] = Inr GOOGLE_DRIVE_READONLY_SCOPE"
  by code_simp

lemma ex_query: "form_parse ''state=st&code=c'' = [(''state'', ''st''), (''code'', ''c'')]"
  by code_simp

lemma ex_pending_inv: "pairing_inv (st_pairs ex_pending_state)"
  by (simp add: pairing_inv_def ex_pending_state_def ex_pending_def ex_pairing_def pairing_ok_def proof_message_def)

lemma ex_draw: "pairHash toy_lease ''p'' \<noteq> pairHash toy_lease (to_hex (draw ex_env 0))"
proof
  assume "pairHash toy_lease ''p'' = pairHash toy_lease (to_hex (draw ex_env 0))"
  then have "sha256 toy_lease (utf8 ''p'') = sha256 toy_lease (utf8 (to_hex (draw ex_env 0)))"
    unfolding pairHash_def sha256_hex_def by (rule to_hex_inject)
  moreover have "sha256 toy_lease (utf8 ''p'') \<noteq> sha256 toy_lease (utf8 (to_hex (draw ex_env 0)))"
    by code_simp
  ultimately show False by blast
qed

definition ex_consumed_pairs :: pairing_store where
  "ex_consumed_pairs = \<lparr> pair_records = [(pairHash toy_lease ''p'', ex_pending\<lparr> callbackHandleHash :=
       Some (stateHash toy_lease (encode (draw ex_env 0))), pair_status := CallbackStateConsumed \<rparr>)],
     pair_states = [], pair_handles = [(stateHash toy_lease (encode (draw ex_env 0)), pairHash toy_lease ''p'')],
     pair_nonces = [], pair_max = 2 \<rparr>"

lemma ex_unexpired: "5 < pair_expiresAtMs ex_pending" "pairHash toy_lease ''p'' \<noteq> []"
  "pair_status ex_pending = Pending" "oauthStateHash ex_pending = stateHash toy_lease ''st''"
  by (simp_all add: ex_pending_def ex_pairing_def, code_simp)

lemma ex_consume: "consumeOAuthState toy_lease (draw ex_env 0) ''st'' (clock ex_env 0) (st_pairs ex_pending_state) =
    (Some \<lparr> consumed_handle = encode (draw ex_env 0), consumed_verifier = pkceVerifier ex_pending,
       consumed_expiresAtMs = pair_expiresAtMs ex_pending \<rparr>, ex_consumed_pairs)"
  using ex_unexpired
  by (simp add: consumeOAuthState_def ex_pending_state_def evict_expired_def evict_pairing_def Let_def
      ex_consumed_pairs_def) (simp add: ex_env_def)

lemma ex_mark: "\<exists>pairs. markAuthorized toy_lease (encode (draw ex_env 0)) (clock ex_env 2) ex_consumed_pairs = (True, pairs)
    \<and> statusOf toy_lease ''p'' pairs = Some Authorized"
proof -
  have "clock ex_env 2 = 5" by (simp add: ex_env_def)
  then show ?thesis
    using ex_unexpired
    by (simp add: markAuthorized_def ex_consumed_pairs_def evict_expired_def evict_pairing_def Let_def statusOf_def)
qed

lemma ex_authorize: "\<exists>s'. serve toy_lease ex_broker (memory_providers toy_lease) ex_env ex_callback ex_pending_state
    = (callback_page True, s') \<and> statusOf toy_lease ''p'' (st_pairs s') = Some Authorized"
proof -
  obtain pairs where m: "markAuthorized toy_lease (encode (draw ex_env 0)) (clock ex_env 2) ex_consumed_pairs = (True, pairs)"
    "statusOf toy_lease ''p'' pairs = Some Authorized" using ex_mark by blast
  let ?ps = "[(''state'', ''st''), (''code'', ''c'')]"
  have p: "param ?ps ''state'' = ''st''" "param ?ps ''code'' = ''c''" "''error'' \<notin> fst ` set ?ps"
    by (simp_all add: param_def)
  have b: "bk_config ex_broker = Some ex_config" "usable_secret ex_broker = Some ''s''" "bk_hasTokens ex_broker = True"
    by (simp_all add: ex_broker_def usable_secret_def)
  have "serve toy_lease ex_broker (memory_providers toy_lease) ex_env ex_callback ex_pending_state =
      handleOAuthCallback toy_lease ex_broker (memory_providers toy_lease) ex_env ?ps ex_pending_state"
    by (simp add: serve_def ex_callback_def post_json_def ex_env_def ex_broker_def CALLBACK_PATHS_def ex_query)
  also have "\<dots> = (case complete_callback toy_lease (memory_providers toy_lease) ex_env ex_config ''s'' ''c''
      \<lparr> consumed_handle = encode (draw ex_env 0), consumed_verifier = pkceVerifier ex_pending,
        consumed_expiresAtMs = pair_expiresAtMs ex_pending \<rparr> (ex_pending_state\<lparr> st_pairs := ex_consumed_pairs \<rparr>) of
      (ok, s') \<Rightarrow> (callback_page ok, s'))"
    by (simp only: handleOAuthCallback_def p b ex_consume if_False option.case prod.case bool.case)
      (simp split: prod.splits)
  finally show ?thesis
    using m by (simp add: complete_callback_def ex_exchange ex_config_def [THEN arg_cong, of googleDriveScope]
        ex_scope store_grant_def memory_providers_def ex_pending_state_def)
qed

theorem authorization_needs_google_grant_witness:
  "\<exists>r. mget (pair_records (st_pairs ex_pending_state)) (pairHash toy_lease ''p'') = Some r \<and> pair_status r = Pending
     \<and> oauthStateHash r = stateHash toy_lease (param (form_parse ''state=st&code=c'') ''state'')"
proof -
  obtain s' where s': "serve toy_lease ex_broker (memory_providers toy_lease) ex_env ex_callback ex_pending_state
    = (callback_page True, s')" "statusOf toy_lease ''p'' (st_pairs s') = Some Authorized"
    using ex_authorize by blast
  have "statusOf toy_lease ''p'' (st_pairs ex_pending_state) \<noteq> Some Authorized"
    by (simp add: statusOf_def ex_pending_state_def ex_pending_def)
  from authorization_needs_google_grant [OF ex_pending_inv ex_draw s' this]
  show ?thesis by (auto simp: ex_env_def)
qed

end
