(* ===== verification/BrokerLeases.thy ===== *)
theory BrokerLeases
  imports BrokerProps
begin

text \<open>
  Leases, pairings and error responses of the broker end to end: who gets a lease and what it opens to,
  what it takes to create a pairing, and what the responses can contain.
\<close>

section \<open>What a minted lease holds\<close>

lemma mint_Inr:
  assumes "mintSealedLease N b P env k pem tok = Inr (Some m)"
  obtains cfg and g :: access_grant where "bk_config b = Some cfg" "grant_scope g = googleDriveScope cfg" "grant_accessToken g \<noteq> []"
    "sealLease N (draw env 0) (draw env 1) (draw env 2)
       (payload_json (grant_accessToken g) (min_expiresAtMs m) (grant_scope g) (bk_root b)) pem = Inr (min_lease m)"
proof -
  from assms have "\<exists>cfg secret token g. bk_config b = Some cfg
    \<and> refreshAccessToken cfg token secret None None (google env) = Inr g
    \<and> sealLease N (draw env 0) (draw env 1) (draw env 2)
       (payload_json (grant_accessToken g) (min_expiresAtMs m) (grant_scope g) (bk_root b)) pem = Inr (min_lease m)"
    by (auto simp: mintSealedLease_def Let_def simp del: One_nat_def split: option.splits bool.splits sum.splits) blast+
  then obtain cfg secret token g where m: "bk_config b = Some cfg"
    "refreshAccessToken cfg token secret None None (google env) = Inr g"
    "sealLease N (draw env 0) (draw env 1) (draw env 2)
       (payload_json (grant_accessToken g) (min_expiresAtMs m) (grant_scope g) (bk_root b)) pem = Inr (min_lease m)"
    by blast
  from m(2) have "grant_scope g = googleDriveScope cfg" "grant_accessToken g \<noteq> []"
    by (auto simp: refreshAccessToken_def parseTokenResponse_def bind_result_Inr as_nonempty_string_iff
        dest: granted_default split: option.splits prod.splits sum.splits if_splits)
  then show thesis using m(1,3) that by blast
qed

text \<open>The key a successful request is answered with: the durable record's, or the claimed pairing's.\<close>

definition lease_key :: "'x node_crypto_scheme \<Rightarrow> ('r, 't) providers \<Rightarrow> http_request \<Rightarrow> ('r, 't) broker_state \<Rightarrow>
    string \<Rightarrow> bool" where
  "lease_key N P rq s pem \<longleftrightarrow> (\<exists>body p. jsonBody rq = Some body \<and> field body ''pairId'' = Str p \<and>
     (if rq_url rq = ''/oauth/lease''
      then \<exists>d reg. reg_find P p (st_reg s) = (Inr (Some d), reg) \<and> \<not> dev_revoked d \<and> pem = dev_encryptionPem d
      else \<exists>r. mget (pair_records (st_pairs s)) (pairHash N p) = Some r \<and> pair_status r = Authorized
         \<and> pem = deviceEncryptionPublicKeyPem r))"

lemma rs_status_send [simp]: "rs_status (sendError e c) = e" "rs_status (sendJson e j) = e"
  "rs_status (sendHtml e h) = e"
  by (simp_all add: sendError_def sendJson_def sendHtml_def)

lemma send_minted_200: "rs_status (send_minted r) = 200 \<Longrightarrow> \<exists>m. r = Inr (Some m)"
  by (auto simp: send_minted_def split: sum.splits option.splits)

lemma claim_error_status: "rs_status (claim_error x) \<noteq> 200"
  using claim_error_cases [of x] by auto

lemma lease_minted:
  assumes "serve N b P env rq s = (resp, s')" "rs_status resp = 200" "rq_method rq = ''POST''"
    and "rq_url rq \<in> {''/oauth/claim'', ''/oauth/lease''}"
  obtains pem k m tok where "lease_key N P rq s pem" "mintSealedLease N b P env k pem tok = Inr (Some m)"
    "resp = send_minted (Inr (Some m))"
proof (cases rule: serve_cases [of N b P env rq s])
  case fixed
  with assms show thesis by auto
next
  case (claim body p)
  show thesis
  proof (cases rule: handle_claim_cases [of N b P env p body s])
    case (denied pf x pairs)
    with claim(6) assms(1,2) claim_error_status show thesis by auto
  next
    case (opened pf sp ep pairs)
    have c: "fst (openClaim N p pf (clock env 0) (st_pairs s)) = Inr (sp, ep)" using opened(1) by simp
    obtain r where r: "mget (pair_records (st_pairs s)) (pairHash N p) = Some r" "pair_status r = Authorized"
      "ep = deviceEncryptionPublicKeyPem r"
      using c by (cases rule: claim_cases [of N p pf "clock env 0" "st_pairs s"]) auto
    have key: "lease_key N P rq s ep" using claim(2,4,5) r by (auto simp: lease_key_def)
    show thesis
    proof (cases rule: enroll_device_cases [of N b P env p sp ep "s\<lparr> st_pairs := pairs \<rparr>"])
      case (failed e reg)
      with claim(6) opened(2) assms(1,2) show thesis by auto
    next
      case (recorded reg)
      have resp: "resp = send_minted (mintSealedLease N b P env 3 ep (st_tok s))"
        using recorded(1) claim(6) opened(2) assms(1) by simp
      then obtain m where m: "mintSealedLease N b P env 3 ep (st_tok s) = Inr (Some m)"
        using send_minted_200 assms(2) by blast
      show thesis by (rule that [OF key m]) (use resp m in simp)
    qed
  qed (use claim(6) assms(1,2) in auto)
next
  case (lease body p)
  show thesis
  proof (cases rule: handle_lease_cases [of N b P env p body s])
    case (denied e c)
    then have "rs_status resp = e" using lease(6) assms(1) by (metis fst_conv rs_status_send(1))
    with denied(2) assms(2) have False by simp
    then show thesis ..
  next
    case (leased n pf d reg s1)
    have key: "lease_key N P rq s (dev_encryptionPem d)"
      using lease(2,4,5) leased(2,3) by (auto simp: lease_key_def)
    have resp: "resp = send_minted (mintSealedLease N b P env 2 (dev_encryptionPem d) (st_tok s))"
      using leased(9) lease(6) assms(1) by simp
    then obtain m where m: "mintSealedLease N b P env 2 (dev_encryptionPem d) (st_tok s) = Inr (Some m)"
      using send_minted_200 assms(2) by blast
    show thesis by (rule that [OF key m]) (use resp m in simp)
  qed
qed (use assms in auto)

text \<open>
  C1: a lease end to end.  When the broker answers a claim or lease request with success, the response
  holds exactly one sealed lease and its expiry; the lease is sealed to the encryption key of the
  requesting device's live record, and that device (whose own public key is the recorded one, the expiry
  being a number written without an exponent) opens it to a non-empty access token with exactly the Drive
  read-only scope, the stated expiry and the root folder the operator configured.
\<close>
theorem lease_end_to_end:
  assumes "dh_commutes N" "chacha_inverts N"
    and "parseBrokerRuntimeConfig U kvs = Inr cfg" "bk_config b = Some cfg"
    and "length (draw env 1) = SALT_BYTES" "length (draw env 2) = LEASE_NONCE_BYTES"
    and "serve N b P env rq s = (resp, s')" "rs_status resp = 200" "rq_method rq = ''POST''"
    and "rq_url rq \<in> {''/oauth/claim'', ''/oauth/lease''}"
  shows "\<exists>pem l x token. lease_key N P rq s pem
    \<and> rs_body resp = json_text (Obj [(''sealedLease'', lease_json l), (''expiresAtMs'', jint x)]) \<and> token \<noteq> []
    \<and> (\<forall>d k. x25519PublicKey d = x25519_public N (x25519PrivateKey d) \<and> createPublicKey N pem = Some k
         \<and> key_spki k = X25519_SPKI_PREFIX @ x25519PublicKey d \<and> \<bar>x\<bar> < 10 ^ 21 \<longrightarrow>
         unsealLease N d (lease_json l) = Inr \<lparr> pay_accessToken = token, pay_expiresAtMs = of_int x,
           pay_scope = GOOGLE_DRIVE_READONLY_SCOPE, pay_allowedRootName = bk_root b \<rparr>)"
proof -
  obtain pem k m tok where key: "lease_key N P rq s pem"
    and m: "mintSealedLease N b P env k pem tok = Inr (Some m)" and resp: "resp = send_minted (Inr (Some m))"
    by (rule lease_minted [OF assms(7-10)])
  have scope: "googleDriveScope cfg = GOOGLE_DRIVE_READONLY_SCOPE"
    using assms(3) by (auto simp: parseBrokerRuntimeConfig_def bind_result_Inr split: if_splits)
  obtain cfg' and g :: access_grant where c: "bk_config b = Some cfg'" "grant_scope g = googleDriveScope cfg'" "grant_accessToken g \<noteq> []"
    and l: "sealLease N (draw env 0) (draw env 1) (draw env 2)
       (payload_json (grant_accessToken g) (min_expiresAtMs m) (grant_scope g) (bk_root b)) pem = Inr (min_lease m)"
    by (rule mint_Inr [OF m])
  from c assms(4) scope have g: "grant_scope g = GOOGLE_DRIVE_READONLY_SCOPE" "grant_accessToken g \<noteq> []" by simp_all
  have "unsealLease N d (lease_json (min_lease m)) = Inr \<lparr> pay_accessToken = grant_accessToken g,
      pay_expiresAtMs = of_int (min_expiresAtMs m), pay_scope = GOOGLE_DRIVE_READONLY_SCOPE,
      pay_allowedRootName = bk_root b \<rparr>"
    if "x25519PublicKey d = x25519_public N (x25519PrivateKey d)" "createPublicKey N pem = Some k"
      "key_spki k = X25519_SPKI_PREFIX @ x25519PublicKey d" "\<bar>min_expiresAtMs m\<bar> < 10 ^ 21" for d k
    using device_opens [OF assms(1,2) that(1-3) l assms(5,6) g(2) that(4)] g(1) by simp
  with key resp g(2) show ?thesis
    by (intro exI [of _ pem] exI [of _ "min_lease m"] exI [of _ "min_expiresAtMs m"] exI [of _ "grant_accessToken g"])
      (auto simp: send_minted_def sendJson_def)
qed

section \<open>A pairing needs an operator's code\<close>

lemma absent_step:
  assumes "pairing_inv s" "mget (pair_records s) k = None" "\<And>s. \<not> mints_pairing N c s k"
  shows "mget (pair_records (pairing_step N c s)) k = None"
proof -
  have "never_mints (pairing_step N) (mints_pairing N) k [c] s" using assms(3) by simp
  from pairing_life.absent_stays_absent [OF assms(1) this] assms(2) show ?thesis
    by (simp add: pairing_rank_def)
qed

lemma absent_after_callback:
  assumes "pairing_inv (st_pairs s)" "mget (pair_records (st_pairs s)) k = None"
  shows "mget (pair_records (st_pairs (snd (handleOAuthCallback N b P env ps s)))) k = None"
proof -
  have c: "mget (pair_records pairs) k = None \<and> pairing_inv pairs"
    if "consumeOAuthState N rn os t (st_pairs s) = (x, pairs)" for rn os t x pairs
    using absent_step [OF assms, of N "PairConsumeState rn os t"] pairing_step_inv [OF assms(1), of N "PairConsumeState rn os t"]
      that by simp
  have m: "mget (pair_records pairs') k = None"
    if "markAuthorized N h t pairs = (x, pairs')" "mget (pair_records pairs) k = None" "pairing_inv pairs"
    for h t x pairs pairs'
    using absent_step [OF that(3,2), of N "PairMark h t"] that(1) by simp
  show ?thesis
    by (cases rule: callback_cases [of N b P env ps s]) (use assms(2) c m in \<open>fastforce+\<close>)
qed

lemma absent_after_claim:
  assumes "pairing_inv (st_pairs s)" "mget (pair_records (st_pairs s)) k = None"
  shows "mget (pair_records (st_pairs (snd (handle_claim N b P env p body s)))) k = None"
proof -
  have c: "mget (pair_records pairs) k = None" if "openClaim N p pf t (st_pairs s) = (x, pairs)" for pf t x pairs
    using absent_step [OF assms, of N "PairClaim p pf t"] that by simp
  show ?thesis
    by (cases rule: handle_claim_cases [of N b P env p body s]) (use assms(2) c in \<open>auto simp: enroll_pairs\<close>)
qed

text \<open>A pairing store that gains a record by \<^verbatim>\<open>create\<close>: it is the pending pairing of the registered keys.\<close>

lemma create_adds:
  assumes "pairing_inv s" "mget (pair_records s) k = None"
    and "mget (pair_records (snd (create_for N b env sp ep s))) k \<noteq> None"
  obtains c r where "fst (create_for N b env sp ep s) = Inr c" "created_pairId c = to_hex (draw env 0)"
    "k = pairHash N (created_pairId c)" "mget (pair_records (snd (create_for N b env sp ep s))) k = Some r"
    "deviceSigningPublicKeyPem r = sp" "deviceEncryptionPublicKeyPem r = ep"
    "createPublicKey N sp = Some (devicePublicKey r)" "pair_status r = Pending"
proof -
  have gone: "mget (pair_records (evict_expired t s)) k = None" for t
    using assms(1,2) evict_expired_get [of s t k] by (simp add: pairing_inv_def)
  let ?ttl = "num_of_int (case bk_config b of None \<Rightarrow> 5 * 60000 | Some cfg \<Rightarrow> pairingTtlMs cfg)"
  let ?auth = "map_option (\<lambda>cfg st verifier. Some (createAuthorizationUrl N cfg st verifier)) (bk_config b)"
  have def: "create_for N b env sp ep s = create N (draw env 0) (draw env 1) (draw env 2) ?auth sp ep (num_of_int (clock env 2)) ?ttl s"
    by (simp add: create_for_def)
  obtain t d where g: "create_guard (num_of_int (clock env 2)) ?ttl = Inr (t, d)"
    using assms(2,3) by (cases "create_guard (num_of_int (clock env 2)) ?ttl") (auto simp: def create_def)
  have cap: "\<not> length (pair_records (evict_expired t s)) \<ge> pair_max (evict_expired t s)"
    using assms(3) gone by (auto simp: def create_def g Let_def)
  obtain dk ek where k: "device_keys N sp ep = Inr (dk, ek)"
    using assms(3) gone cap by (cases "device_keys N sp ep") (auto simp: def create_def g Let_def)
  define e where "e = t + d"
  define r where "r = pending_pairing N sp ep dk ek (to_hex (draw env 0)) (encode (draw env 1)) (encode (draw env 2)) e"
  have r: "deviceSigningPublicKeyPem r = sp" "deviceEncryptionPublicKeyPem r = ep" "devicePublicKey r = dk" "pair_status r = Pending"
    by (simp_all add: r_def pending_pairing_def)
  have dk: "createPublicKey N sp = Some dk" using k by (auto simp: device_keys_def split: option.splits if_splits)
  obtain c where c: "fst (create_for N b env sp ep s) = Inr c" "created_pairId c = to_hex (draw env 0)"
    "pair_records (snd (create_for N b env sp ep s)) =
       mput (pairHash N (to_hex (draw env 0))) r (pair_records (evict_expired t s))"
    using cap g k by (cases "bk_config b") (simp_all add: def create_def Let_def r_def e_def del: One_nat_def)
  have "k = pairHash N (to_hex (draw env 0))" using assms(3) gone c(3) by (auto simp: update_conv split: if_splits)
  with c r dk show thesis by (intro that [of c r]) simp_all
qed

lemma paired_device:
  assumes "pairing_inv (st_pairs s)" "mget (pair_records (st_pairs s)) k = None"
    and "pair_device N b env body s = (resp, s')" "mget (pair_records (st_pairs s')) k \<noteq> None"
  shows "\<exists>pem ep fp r pairId rest. field body ''devicePublicKeyPem'' = Str pem \<and> field body ''deviceEncryptionPublicKeyPem'' = Str ep
    \<and> deviceSigningKeyFingerprint N pem = Some fp
    \<and> consume N (presented_code body) (clock env 1) (Some fp) (st_codes s) = (ConsumeOk, st_codes s')
    \<and> mget (pair_records (st_pairs s')) k = Some r \<and> pair_status r = Pending
    \<and> deviceSigningPublicKeyPem r = pem \<and> createPublicKey N pem = Some (devicePublicKey r)
    \<and> deviceEncryptionPublicKeyPem r = ep \<and> k = pairHash N pairId \<and> pairId = to_hex (draw env 0)
    \<and> rs_status resp = 201 \<and> rs_body resp = json_text (Obj ((''pairId'', Str pairId) # rest))"
proof (cases rule: pair_device_cases [of N b env body s])
  case (refused e c cs)
  with assms(2-4) show ?thesis by auto
next
  case (redeemed sp ep fp given cs)
  let ?new = "create_for N b env sp ep (st_pairs s)"
  have stores: "st_codes s' = cs" "st_pairs s' = snd ?new" using redeemed(5) assms(3) by simp_all
  obtain c r where c: "fst ?new = Inr c" "created_pairId c = to_hex (draw env 0)"
    "k = pairHash N (created_pairId c)" "mget (pair_records (snd ?new)) k = Some r"
    "deviceSigningPublicKeyPem r = sp" "deviceEncryptionPublicKeyPem r = ep"
    "createPublicKey N sp = Some (devicePublicKey r)" "pair_status r = Pending"
    by (rule create_adds [OF assms(1,2)]) (use assms(4) stores(2) in auto)
  have "resp = pair_response c" using assms(3) redeemed(6) c(1) by simp
  moreover have "\<exists>rest. pair_response c = sendJson 201 (Obj ((''pairId'', Str (created_pairId c)) # rest))"
    unfolding pair_response_def append_Cons by (rule exI, rule refl)
  ultimately obtain rest where "resp = sendJson 201 (Obj ((''pairId'', Str (created_pairId c)) # rest))" by blast
  then have resp: "rs_status resp = 201" "rs_body resp = json_text (Obj ((''pairId'', Str (created_pairId c)) # rest))"
    by (simp_all only: sendJson_def http_response.simps)
  have code: "consume N (presented_code body) (clock env 1) (Some fp) (st_codes s) = (ConsumeOk, st_codes s')"
    using redeemed(4,7) stores(1) by (simp del: One_nat_def)
  have new: "mget (pair_records (st_pairs s')) k = Some r" using c(4) stores(2) by simp
  show ?thesis using redeemed(1-3) code new c(8,5,7,6,3,2) resp by blast
qed

text \<open>
  C2: a pairing comes into being only by a pairing request that passed the rate limiter and redeemed
  the operator-issued enrollment code it presents, at the fingerprint of its signing key; the new
  record is the pending pairing of that very signing key and of the encryption key of the same request,
  it is filed under the pair id of the 201 answer, and no refused request and no other route adds one.
\<close>
theorem pairing_needs_operator_code:
  assumes "pairing_inv (st_pairs s)" "serve N b P env rq s = (resp, s')"
    and "mget (pair_records (st_pairs s)) k = None" "mget (pair_records (st_pairs s')) k \<noteq> None"
  shows "rq_method rq = ''POST'' \<and> rq_url rq = ''/oauth/pair''
    \<and> fst (allowPairAttempt (bk_maxAttempts b) (bk_windowMs b)
        (case rq_remote rq of None \<Rightarrow> ''unknown'' | Some a \<Rightarrow> a) (clock env 0) (st_attempts s))
    \<and> (\<exists>body pem ep fp r pairId rest. jsonBody rq = Some body
        \<and> field body ''devicePublicKeyPem'' = Str pem \<and> field body ''deviceEncryptionPublicKeyPem'' = Str ep
        \<and> deviceSigningKeyFingerprint N pem = Some fp
        \<and> consume N (presented_code body) (clock env 1) (Some fp) (st_codes s) = (ConsumeOk, st_codes s')
        \<and> mget (pair_records (st_pairs s')) k = Some r \<and> pair_status r = Pending
        \<and> deviceSigningPublicKeyPem r = pem \<and> createPublicKey N pem = Some (devicePublicKey r)
        \<and> deviceEncryptionPublicKeyPem r = ep \<and> k = pairHash N pairId \<and> pairId = to_hex (draw env 0)
        \<and> rs_status resp = 201 \<and> rs_body resp = json_text (Obj ((''pairId'', Str pairId) # rest)))"
proof (cases rule: serve_cases [of N b P env rq s])
  case pair
  show ?thesis
  proof (cases rule: handle_pair_cases [of b rq env s N])
    case (read m body)
    have limit: "fst (allowPairAttempt (bk_maxAttempts b) (bk_windowMs b)
        (case rq_remote rq of None \<Rightarrow> ''unknown'' | Some a \<Rightarrow> a) (clock env 0) (st_attempts s))" using read(1) by simp
    have "pair_device N b env body (s\<lparr> st_attempts := m \<rparr>) = (resp, s')" using pair(3) read(3) assms(2) by simp
    from paired_device [OF _ _ this assms(4)] assms(1,3)
    show ?thesis using pair(1,2) limit read(2) by (simp del: One_nat_def)
  qed (use pair(3) assms(2-4) in auto)
next
  case (callback path query)
  with absent_after_callback [OF assms(1,3)] assms(2,4) show ?thesis by (metis snd_conv)
next
  case (claim body p)
  with absent_after_claim [OF assms(1,3)] assms(2,4) show ?thesis by (metis snd_conv)
next
  case (nonce body p)
  with handle_nonce_pairs [of N b P env p s] assms(2-4) show ?thesis by (metis snd_conv)
next
  case (lease body p)
  with handle_lease_pairs [of N b P env p body s] assms(2-4) show ?thesis by (metis snd_conv)
qed (use assms(2-4) in auto)

section \<open>Error responses never echo a request\<close>

lemma sendError_body: "rs_body (sendError e c) = json_text (error_json c)"
  by (simp add: sendError_def sendJson_def)

lemma send_minted_body: "rs_status (send_minted r) = 200 \<or> rs_body (send_minted r) \<in> (json_text \<circ> error_json) ` set ERROR_NAMES"
  by (auto simp: send_minted_def sendError_body split: sum.splits option.splits)

lemma callback_page_body: "rs_status (callback_page x) = 200 \<or> rs_body (callback_page x) = OAUTH_FAILURE_PAGE"
  by (simp add: callback_page_def sendHtml_def)

definition fixed_answer :: "http_response \<Rightarrow> bool" where
  "fixed_answer r \<longleftrightarrow> rs_status r \<in> {200, 201} \<or> (400 \<le> rs_status r
      \<and> rs_body r \<in> insert OAUTH_FAILURE_PAGE ((json_text \<circ> error_json) ` set ERROR_NAMES))"

lemma fixed_answer_error: "400 \<le> e \<Longrightarrow> c \<in> set ERROR_NAMES \<Longrightarrow> fixed_answer (sendError e c)"
  by (simp add: fixed_answer_def sendError_body)

lemma fixed_answer_minted: "fixed_answer (send_minted r)"
  by (auto simp: fixed_answer_def send_minted_def sendError_body split: sum.splits option.splits)

lemma fixed_answer_page: "fixed_answer (callback_page x)"
  by (simp add: fixed_answer_def callback_page_def sendHtml_def)

lemma fixed_answer_pair: "fixed_answer (fst (handle_pair N b env rq s))"
proof (cases rule: handle_pair_cases [of b rq env s N])
  case (limited m)
  then show ?thesis by (simp add: fixed_answer_def rate_limited_def Let_def sendError_def sendJson_def)
next
  case (unread m e c)
  then have "400 \<le> e" "c \<in> set ERROR_NAMES" by auto
  with unread(1) fixed_answer_error show ?thesis by (simp only: fst_conv)
next
  case (read m body)
  show ?thesis
  proof (cases rule: pair_device_cases [of N b env body "s\<lparr> st_attempts := m \<rparr>"])
    case (refused e c cs)
    then have "400 \<le> e" "c \<in> set ERROR_NAMES" by auto
    with refused(1) fixed_answer_error show ?thesis by (simp only: read(3) fst_conv)
  next
    case (redeemed sp ep fp given cs)
    then show ?thesis
      by (simp add: fixed_answer_def read(3) sendError_body pair_response_def split: sum.split)
  qed
qed

lemma fixed_answer_claim: "fixed_answer (fst (handle_claim N b P env p body s))"
proof (cases rule: handle_claim_cases [of N b P env p body s])
  case (denied pf x pairs)
  obtain e c where "claim_error x = sendError e c" "400 \<le> e" "c \<in> set ERROR_NAMES"
    using claim_error_cases by blast
  with fixed_answer_error show ?thesis by (simp only: denied(2) fst_conv)
next
  case (opened pf sp ep pairs)
  then show ?thesis
    by (cases rule: enroll_device_cases [of N b P env p sp ep "s\<lparr> st_pairs := pairs \<rparr>"])
      (simp_all only: fst_conv fixed_answer_minted, simp add: fixed_answer_def sendError_body)
qed (simp add: fixed_answer_def sendError_body)

text \<open>
  No reflection.  Whatever the request contains, a response that is not a success has one of
  fifteen fixed bodies (fourteen error texts and the failure page) and a status of at least 400, and a
  successful callback has the one fixed page; request data never reaches an error response.
\<close>
theorem error_responses_are_fixed:
  "rs_status (fst (serve N b P env rq s)) \<in> {200, 201}
    \<or> (400 \<le> rs_status (fst (serve N b P env rq s))
       \<and> rs_body (fst (serve N b P env rq s)) \<in> insert OAUTH_FAILURE_PAGE ((json_text \<circ> error_json) ` set ERROR_NAMES))"
proof -
  have "fixed_answer (fst (serve N b P env rq s))"
  proof (cases rule: serve_cases [of N b P env rq s])
    case fixed
    then show ?thesis by (auto simp: fixed_answer_def sendError_body)
  next
    case (callback path query)
    then show ?thesis
      by (cases rule: callback_cases [of N b P env "form_parse query" s]) (simp_all only: fst_conv fixed_answer_page)
  next
    case pair
    then show ?thesis by (simp only: fixed_answer_pair)
  next
    case (claim body p)
    then show ?thesis by (simp only: fixed_answer_claim)
  next
    case (nonce body p)
    then show ?thesis
      by (cases rule: handle_nonce_cases [of N b P env p s]) (simp_all add: fixed_answer_def sendError_body)
  next
    case (lease body p)
    show ?thesis
      by (cases rule: handle_lease_cases [of N b P env p body s])
        (simp_all only: lease(6) fst_conv fixed_answer_minted fixed_answer_error)
  qed
  then show ?thesis by (simp only: fixed_answer_def)
qed

section \<open>Concrete runs\<close>

definition ex_msg :: "http_request" where
  "ex_msg = post_json ''/oauth/lease'' [(''pairId'', Str ''p''), (''nonce'', Str ''Bw''), (''proof'', Str (toBase64Url (X25519_SPKI_PREFIX @ pad32 [2] @ [7])))]"

definition ex_lease_state :: "(device_map, stored_token option) broker_state" where
  "ex_lease_state = ex_pending_state\<lparr> st_pairs := \<lparr> pair_records = [], pair_states = [], pair_handles = [],
       pair_nonces = [], pair_max = 2 \<rparr>,
     st_reg := [(pairIdHash toy_lease ''p'', ex_device)],
     st_nonces := [(nonceHash toy_lease ''Bw'', \<lparr> iss_pairIdHash = pairIdHash toy_lease ''p'', iss_expiresAtMs = 50 \<rparr>)] \<rparr>"

definition ex_lease_env :: request_env where
  "ex_lease_env = ex_env\<lparr> draw := (\<lambda>k. if k = 2 then replicate 12 5 else replicate 32 4) \<rparr>"

lemma ex_lease_body:
  "jsonBody ex_msg = Some [(''pairId'', Str ''p''), (''nonce'', Str ''Bw''), (''proof'', Str (toBase64Url (X25519_SPKI_PREFIX @ pad32 [2] @ [7])))]"
  unfolding ex_msg_def
proof (rule post_json_body)
  show "length (utf8 (json_text (Obj [(''pairId'', Str ''p''), (''nonce'', Str ''Bw''),
     (''proof'', Str (toBase64Url (X25519_SPKI_PREFIX @ pad32 [2] @ [7])))]))) \<le> MAX_JSON_BYTES" by code_simp
qed simp

lemma ex_lease_mint: "\<exists>m. mintSealedLease toy_lease ex_broker (memory_providers toy_lease) ex_lease_env k ''PUBLIC KEY''
    (st_tok ex_lease_state) = Inr (Some m)"
proof -
  have g: "google ex_lease_env = (\<lambda>_. Some (Fin 200, json_text ex_token_body))"
    by (simp add: ex_lease_env_def ex_env_def)
  have r: "refreshAccessToken ex_config ''r'' ''s'' None None (google ex_lease_env) =
    Inr \<lparr> grant_accessToken = ''tok'', grant_tokenType = ''Bearer'', grant_scope = GOOGLE_DRIVE_READONLY_SCOPE,
        grant_expiresIn = Some 3599 \<rparr>" unfolding g by (rule ex_refresh)
  show ?thesis
    by (simp add: mintSealedLease_def ex_broker_def usable_secret_def memory_providers_def ex_lease_state_def
        ex_pending_state_def r Let_def sealLease_def device_public_key_def toy_lease_simps length_pad32 split: prod.split)
qed

lemma ex_lease_redeemed: "consumeDurableNonce toy_lease (memory_providers toy_lease) ex_lease_env ''p'' ''Bw''
    (toBase64Url (X25519_SPKI_PREFIX @ pad32 [2] @ [7])) ex_lease_state =
   (Inr (Inr ''PUBLIC KEY''), ex_lease_state\<lparr> st_nonces := [] \<rparr>)"
proof -
  have "fromBase64Url ''Bw'' = Inr [7]" by code_simp
  then have proof_ok: "durable_proof toy_lease ex_device ''Bw'' (toBase64Url (X25519_SPKI_PREFIX @ pad32 [2] @ [7]))"
    by (simp add: durable_proof_def toy_lease_simps fromBase64Url_toBase64Url ex_device_def X25519_SPKI_PREFIX_def Let_def)
  have "mem_find toy_lease ''p'' [(pairIdHash toy_lease ''p'', ex_device)] = Some ex_device"
    by (simp add: mem_find_def)
  moreover have "\<not> dev_revoked ex_device" "dev_expiresAtMs ex_device = 9" "dev_encryptionPem ex_device = ''PUBLIC KEY''"
    by (simp_all add: ex_device_def)
  ultimately show ?thesis
    using proof_ok
    by (simp add: consumeDurableNonce_def statusOf_def redeem_nonce_def memory_providers_def ex_lease_state_def
        ex_pending_state_def ex_lease_env_def ex_env_def Let_def)
qed

lemma ex_leased: "\<exists>m s'. serve toy_lease ex_broker (memory_providers toy_lease) ex_lease_env ex_msg ex_lease_state
    = (send_minted (Inr (Some m)), s')"
proof -
  have len: "length (toBase64Url (X25519_SPKI_PREFIX @ pad32 [2] @ [7])) = 60" by code_simp
  obtain m where m: "mintSealedLease toy_lease ex_broker (memory_providers toy_lease) ex_lease_env 2 ''PUBLIC KEY''
    (st_tok ex_lease_state) = Inr (Some m)" using ex_lease_mint by blast
  have "leaseEndpointReady ex_broker" by (simp add: leaseEndpointReady_def ex_broker_def usable_secret_def)
  moreover have "rq_method ex_msg = ''POST''" "rq_url ex_msg = ''/oauth/lease''" "json_request ex_msg"
    by (simp_all add: ex_msg_def)
  ultimately show ?thesis
    using m by (simp add: serve_def serve_plain_def handle_device_def ex_lease_body bounded_string_def field_Cons
        handle_lease_def len ex_lease_redeemed) blast
qed

theorem lease_end_to_end_witness:
  "\<exists>resp pem l x token. fst (serve toy_lease ex_broker (memory_providers toy_lease) ex_lease_env ex_msg ex_lease_state) = resp
    \<and> lease_key toy_lease (memory_providers toy_lease) ex_msg ex_lease_state pem
    \<and> rs_body resp = json_text (Obj [(''sealedLease'', lease_json l), (''expiresAtMs'', jint x)]) \<and> token \<noteq> []"
proof -
  obtain m s' where s: "serve toy_lease ex_broker (memory_providers toy_lease) ex_lease_env ex_msg ex_lease_state
    = (send_minted (Inr (Some m)), s')" using ex_leased by blast
  show ?thesis
    unfolding s fst_conv
    using lease_end_to_end [OF toy_dh toy_chacha ex_config _ _ _ s]
    by (simp add: ex_broker_def ex_lease_env_def SALT_BYTES_def LEASE_NONCE_BYTES_def ex_msg_def send_minted_def) blast
qed

text \<open>A pairing request with a code bound to its signing key.\<close>

definition ex_code :: string where
  "ex_code = replicate 32 (CHR ''A'')"

definition ex_pair_body :: "(string \<times> jsval) list" where
  "ex_pair_body = [(''devicePublicKeyPem'', Str ''E''), (''deviceEncryptionPublicKeyPem'', Str ''X''),
     (''enrollmentCode'', Str ex_code)]"

definition ex_code_record :: code_record where
  "ex_code_record = \<lparr> codeHash = sha256_hex toy_lease ex_code, code_expiresAtMs = 50, used = False,
     expectedFingerprintHash = sha256_hex toy_lease (to_hex (sha256 toy_lease (ED25519_SPKI_PREFIX @ pad32 [1]))) \<rparr>"

definition ex_code_state :: "(device_map, stored_token option) broker_state" where
  "ex_code_state = ex_lease_state\<lparr> st_codes := \<lparr> codes = [(sha256_hex toy_lease ex_code, ex_code_record)], maxCodes = 5 \<rparr> \<rparr>"

lemma ex_code_normal: "normalise (Str ex_code) = ex_code" "ex_code \<noteq> []"
  by code_simp+

lemma ex_key_fingerprint:
  "deviceSigningKeyFingerprint toy_lease ''E'' = Some (to_hex (sha256 toy_lease (ED25519_SPKI_PREFIX @ pad32 [1])))"
  "provided_hash toy_lease (Some (to_hex (sha256 toy_lease (ED25519_SPKI_PREFIX @ pad32 [1])))) =
     Some (expectedFingerprintHash ex_code_record)"
  "expectedFingerprintHash ex_code_record \<noteq> []"
proof -
  let ?fp = "to_hex (sha256 toy_lease (ED25519_SPKI_PREFIX @ pad32 [1]))"
  show "deviceSigningKeyFingerprint toy_lease ''E'' = Some ?fp"
    by (simp add: deviceSigningKeyFingerprint_def toy_lease_simps)
  have "is_fingerprint ?fp" "lower (trim ?fp) = ?fp" by code_simp+
  then show "provided_hash toy_lease (Some ?fp) = Some (expectedFingerprintHash ex_code_record)"
    by (simp add: provided_hash_def ex_code_record_def)
  show "expectedFingerprintHash ex_code_record \<noteq> []" by code_simp
qed

lemma ex_redeem_code: "consume toy_lease ex_code 5 (Some (to_hex (sha256 toy_lease (ED25519_SPKI_PREFIX @ pad32 [1]))))
     (st_codes ex_code_state) = (ConsumeOk, \<lparr> codes = [(sha256_hex toy_lease ex_code, ex_code_record\<lparr> used := True \<rparr>)],
       maxCodes = 5 \<rparr>)"
  using ex_code_normal ex_key_fingerprint(2,3)
  by (simp add: consume_def ex_code_state_def Let_def) (simp add: ex_code_record_def)

lemma ex_pair_body: "jsonBody (post_json ''/oauth/pair'' ex_pair_body) = Some ex_pair_body"
proof (rule post_json_body)
  show "length (utf8 (json_text (Obj ex_pair_body))) \<le> MAX_JSON_BYTES" by code_simp
qed (simp add: ex_pair_body_def)

lemma ex_create_pairing:
  "\<exists>c pairs. create toy_lease r1 r2 r3 (Some (\<lambda>st v. Some (u st v))) ''E'' ''X'' (num_of_int 5) (num_of_int 600000)
      (st_pairs ex_code_state) = (Inr c, pairs)
     \<and> mget (pair_records pairs) (pairHash toy_lease (to_hex r1)) \<noteq> None"
  by (simp add: create_def create_guard_def MAX_PAIRING_TTL_MS_def ex_code_state_def ex_lease_state_def
      evict_expired_def Let_def device_keys_def toy_lease_simps)

lemma ex_paired: "\<exists>resp s'. serve toy_lease ex_broker (memory_providers toy_lease) ex_lease_env
      (post_json ''/oauth/pair'' ex_pair_body) ex_code_state = (resp, s')
    \<and> mget (pair_records (st_pairs s')) (pairHash toy_lease (to_hex (draw ex_lease_env 0))) \<noteq> None"
proof -
  obtain c pairs where c: "create toy_lease (draw ex_lease_env 0) (draw ex_lease_env 1) (draw ex_lease_env 2)
      (Some (\<lambda>st v. Some (createAuthorizationUrl toy_lease ex_config st v))) ''E'' ''X'' (num_of_int 5) (num_of_int 600000)
      (st_pairs ex_code_state) = (Inr c, pairs)"
    "mget (pair_records pairs) (pairHash toy_lease (to_hex (draw ex_lease_env 0))) \<noteq> None"
    using ex_create_pairing by blast
  have len: "length ''E'' \<le> 2048" "length ''X'' \<le> 2048" by simp_all
  have "\<exists>m. allowPairAttempt 5 60000 ''unknown'' 5 (st_attempts ex_code_state) = (True, m)"
    by (simp add: allowPairAttempt_def ex_code_state_def ex_lease_state_def ex_pending_state_def evict_attempts_def)
  then obtain m where m: "allowPairAttempt 5 60000 ''unknown'' 5 (st_attempts ex_code_state) = (True, m)" ..
  have b: "bk_config ex_broker = Some ex_config" "bk_maxAttempts ex_broker = 5" "bk_windowMs ex_broker = 60000"
    "pairingTtlMs ex_config = 600000" "clock ex_lease_env = (\<lambda>_. 5)"
    by (simp_all add: ex_broker_def ex_config_def ex_lease_env_def ex_env_def)
  have f: "bounded_string (field ex_pair_body ''devicePublicKeyPem'') 2048 = Some ''E''"
    "bounded_string (field ex_pair_body ''deviceEncryptionPublicKeyPem'') 2048 = Some ''X''"
    "as_string (field ex_pair_body ''enrollmentCode'') = Some ex_code"
    by (simp_all add: ex_pair_body_def field_Cons bounded_string_def)
  have r: "rq_remote (post_json ''/oauth/pair'' ex_pair_body) = None" by (simp add: post_json_def)
  show ?thesis
    using c m
    by (simp add: serve_def serve_plain_def handle_pair_def b f r ex_pair_body pair_device_def ex_key_fingerprint(1)
        ex_redeem_code del: One_nat_def)
qed

theorem pairing_needs_operator_code_witness:
  "\<exists>resp s' fp r rest. serve toy_lease ex_broker (memory_providers toy_lease) ex_lease_env
       (post_json ''/oauth/pair'' ex_pair_body) ex_code_state = (resp, s')
     \<and> deviceSigningKeyFingerprint toy_lease ''E'' = Some fp
     \<and> consume toy_lease ex_code 5 (Some fp) (st_codes ex_code_state) = (ConsumeOk, st_codes s')
     \<and> mget (pair_records (st_pairs s')) (pairHash toy_lease (to_hex (draw ex_lease_env 0))) = Some r
     \<and> deviceSigningPublicKeyPem r = ''E'' \<and> deviceEncryptionPublicKeyPem r = ''X'' \<and> rs_status resp = 201
     \<and> rs_body resp = json_text (Obj ((''pairId'', Str (to_hex (draw ex_lease_env 0))) # rest))"
proof -
  obtain resp s' where s: "serve toy_lease ex_broker (memory_providers toy_lease) ex_lease_env
      (post_json ''/oauth/pair'' ex_pair_body) ex_code_state = (resp, s')"
    "mget (pair_records (st_pairs s')) (pairHash toy_lease (to_hex (draw ex_lease_env 0))) \<noteq> None"
    using ex_paired by blast
  have e: "pairing_inv (st_pairs ex_code_state)"
    "mget (pair_records (st_pairs ex_code_state)) (pairHash toy_lease (to_hex (draw ex_lease_env 0))) = None"
    "clock ex_lease_env 1 = 5"
    by (simp_all add: pairing_inv_def ex_code_state_def ex_lease_state_def ex_lease_env_def ex_env_def)
  from pairing_needs_operator_code [OF e(1) s(1) e(2) s(2)]
  obtain body pem ep fp r rest where x: "jsonBody (post_json ''/oauth/pair'' ex_pair_body) = Some body"
    "field body ''devicePublicKeyPem'' = Str pem" "field body ''deviceEncryptionPublicKeyPem'' = Str ep"
    "deviceSigningKeyFingerprint toy_lease pem = Some fp"
    "consume toy_lease (presented_code body) (clock ex_lease_env 1) (Some fp) (st_codes ex_code_state) = (ConsumeOk, st_codes s')"
    "mget (pair_records (st_pairs s')) (pairHash toy_lease (to_hex (draw ex_lease_env 0))) = Some r"
    "deviceSigningPublicKeyPem r = pem" "deviceEncryptionPublicKeyPem r = ep" "rs_status resp = 201"
    "rs_body resp = json_text (Obj ((''pairId'', Str (to_hex (draw ex_lease_env 0))) # rest))" by blast
  have "body = ex_pair_body" using x(1) by (simp only: ex_pair_body option.inject)
  then have "pem = ''E''" "ep = ''X''" "presented_code body = ex_code"
    using x(2,3) by (simp_all add: ex_pair_body_def field_Cons presented_code_def)
  with s(1) x(4-10) e(3) show ?thesis by metis
qed

section \<open>A failed record\<close>

text \<open>A pairing that was claimed stays claimed: its status can only become revoked, or it expires.\<close>

definition claimed :: "'x lease_crypto_scheme \<Rightarrow> string \<Rightarrow> (enc_store \<times> files, files) broker_state \<Rightarrow> bool" where
  "claimed N p s \<longleftrightarrow> pairing_inv (st_pairs s) \<and> (\<forall>st. statusOf N p (st_pairs s) = Some st \<longrightarrow> Enrolled \<le> st)"

lemma claimed_step:
  assumes "claimed N p s" "\<not> draws_pair N p e"
  shows "claimed N p (broker_event_step N b a key e s)"
proof (cases e)
  case (ToBroker se env rq)
  let ?P = "encrypted_providers N key se"
  have run: "pairing_run N env (st_pairs s) (st_pairs (snd (serve N b ?P env rq s)))" by (rule serve_run)
  have d: "pairHash N p \<noteq> pairHash N (to_hex (draw env 0))" using assms(2) ToBroker by auto
  have "Enrolled \<le> st" if now: "statusOf N p (st_pairs (snd (serve N b ?P env rq s))) = Some st" for st
  proof -
    obtain old where "statusOf N p (st_pairs s) = Some old" "old \<le> st"
      using run_status_climbs [OF run _ d now] assms(1) by (auto simp: claimed_def)
    then show ?thesis using assms(1) by (auto simp: claimed_def intro: order_trans)
  qed
  then show ?thesis using run_pairing_inv [OF run] assms(1) by (simp add: ToBroker claimed_def)
next
  case (ToAdmin se env rq)
  let ?P = "encrypted_providers N key se"
  show ?thesis
  proof (cases rule: admin_serve_cases [of N a ?P env rq s])
    case (codes cs)
    with assms(1) show ?thesis by (simp add: ToAdmin claimed_def)
  next
    case (revoked body q)
    have pairs: "st_pairs (snd (revoke_everywhere N a ?P q s)) = snd (revoke N q (st_pairs s))"
      using revoke_everywhere_state [of N a ?P q s] by auto
    have "Enrolled \<le> st" if "statusOf N p (snd (revoke N q (st_pairs s))) = Some st" for st
      using assms(1) that by (cases rule: revoke_cases [of "st_pairs s" N q])
        (auto simp: claimed_def statusOf_def less_eq_pairing_status_def split: if_splits)
    then show ?thesis using pairing_step_inv [of "st_pairs s" N "PairRevoke q"] assms(1)
      by (simp add: ToAdmin revoked(6) claimed_def pairs)
  qed
qed

lemma claimed_run:
  "claimed N p s \<Longrightarrow> list_all (\<lambda>e. \<not> draws_pair N p e) evs \<Longrightarrow> claimed N p (fold (broker_event_step N b a key) evs s)"
  by (induction evs arbitrary: s) (simp_all add: claimed_step)

lemma claimed_refused:
  assumes "claimed N p s" "rq_method rq = ''POST''" "rq_url rq = ''/oauth/claim''"
    and "jsonBody rq = Some body" "field body ''pairId'' = Str p"
  shows "400 \<le> rs_status (fst (serve N b P env rq s))"
proof (cases rule: serve_cases [of N b P env rq s])
  case (claim body' p')
  with assms have p: "p' = p" by auto
  show ?thesis
  proof (cases rule: handle_claim_cases [of N b P env p body' s])
    case (denied pf x pairs)
    obtain e c where "claim_error x = sendError e c" "400 \<le> e" using claim_error_cases by blast
    then show ?thesis by (simp add: claim(6) p denied(2))
  next
    case (opened pf sp ep pairs)
    then obtain r where "mget (pair_records (st_pairs s)) (pairHash N p) = Some r" "pair_status r = Authorized"
      by (cases rule: claim_cases [of N p pf "clock env 0" "st_pairs s"]) auto
    with assms(1) show ?thesis by (auto simp: claimed_def statusOf_def less_eq_pairing_status_def)
  qed (simp add: claim(6) p)
qed (use assms in auto)

text \<open>A write that fails before its last call leaves the record file as it was.\<close>

lemma failed_write_file:
  assumes "fst (write_record we bs fs) = Inl e" "write_fault we \<noteq> Some ChmodFails"
  shows "snd (write_record we bs fs) RecordFile = fs RecordFile"
  using assms by (auto simp: write_record_def Let_def remove_temp_def split: sum.splits option.splits write_fault.splits if_splits)

lemma fresh_find_file:
  assumes "fs RecordFile = fs' RecordFile"
  shows "enc_find N re p (fresh_store k) fs = enc_find N re p (fresh_store k) fs'"
proof -
  have "read_record_file re fs = read_record_file re fs'" by (simp add: read_record_file_def assms split: sum.split)
  then show ?thesis unfolding enc_find_def ensure_loaded_def load_def by (rule arg_cong)
qed

text \<open>
  C32: the record of a failed write lives in the memory of the process only.  A claim marks the pairing
  as enrolled and enters the device into the records in memory before they are written; when the write
  fails the device is answered 502 without a lease.  Whatever requests follow, no claim of that pairing
  succeeds any more.  The running process nevertheless treats the device as enrolled: its next nonce
  request succeeds.  And when the write failed before its rename, a process restarted on the files that
  are left, where no older record of the pairing was, answers its nonce requests as revoked.
\<close>
theorem failed_record_lives_in_memory_only:
  assumes "pairing_inv (st_pairs s)" "st_reg s = (es, fs)" "enc_load es = Loaded"
    and "bounded_string (field body ''proof'') 512 = Some pf"
    and "openClaim N p pf (clock env 0) (st_pairs s) = (Inr (sp, ep), pairs)"
    and "assert_device N (enrollment_request b env p sp ep) = Inr d"
    and "fst (reg_record (encrypted_providers N key se) (enrollment_request b env p sp ep) (es, fs)) = Inl e"
    and "write_fault (se_write se) \<noteq> Some ChmodFails"
    and "fst (enc_find N (se_read se3) p (fresh_store (enc_key es)) fs) = Inr None"
    and "new_pairing_store cap = Inr blank"
  shows "\<exists>s'. handle_claim N b (encrypted_providers N key se) env p body s = (sendError 502 ''lease_unavailable'', s')
    \<and> (list_all (\<lambda>e. \<not> draws_pair N p e) evs \<and> rq_method rq = ''POST'' \<and> rq_url rq = ''/oauth/claim''
         \<and> jsonBody rq = Some body2 \<and> field body2 ''pairId'' = Str p \<longrightarrow>
         400 \<le> rs_status (fst (serve N b P env1 rq (fold (broker_event_step N b a key) evs s'))))
    \<and> (clock env2 0 < dev_expiresAtMs d \<longrightarrow>
         rs_status (fst (handle_nonce N b (encrypted_providers N key se2) env2 p s')) = 200)
    \<and> fst (handle_nonce N b (encrypted_providers N key se3) env3 p
         (s'\<lparr> st_pairs := blank, st_reg := (fresh_store (enc_key es), snd (st_reg s')) \<rparr>)) = sendError 403 ''revoked''"
proof -
  define es' where "es' = es\<lparr> enc_records := mput (dev_pairIdHash d) d (enc_records es) \<rparr>"
  define bs where "bs = persist_bytes N (se_write se) es'"
  define fs' where "fs' = snd (write_record (se_write se) bs fs)"
  define s' where "s' = s\<lparr> st_pairs := pairs, st_reg := (es', fs') \<rparr>"
  have parts: "reg_record (encrypted_providers N key se) (enrollment_request b env p sp ep) (es, fs) = (fst (write_record (se_write se) bs fs), es', fs')"
    using assms(3,6) by (simp add: encrypted_providers_def enc_record_def ensure_loaded_def persist_def Let_def es'_def bs_def fs'_def
        case_prod_unfold)
  with assms(7) have failed: "fst (write_record (se_write se) bs fs) = Inl e" by simp
  have d: "dev_pairIdHash d = pairIdHash N p" "\<not> dev_revoked d"
    using assert_device_fields [OF assms(6)] by (simp_all add: enrollment_request_def)
  have claim: "handle_claim N b (encrypted_providers N key se) env p body s = (sendError 502 ''lease_unavailable'', s')"
    using assms(2,4,5) parts failed by (simp add: handle_claim_def enroll_device_def s'_def)
  obtain r where r: "mget (pair_records pairs) (pairHash N p) = Some r" "pair_status r = Enrolled"
    using assms(5) by (cases rule: claim_cases [of N p pf "clock env 0" "st_pairs s"]) auto
  then have status: "statusOf N p pairs = Some Enrolled" by (simp add: statusOf_def)
  have "pairing_inv pairs" using pairing_step_inv [OF assms(1), of N "PairClaim p pf (clock env 0)"] assms(5) by simp
  with status have "claimed N p s'" by (simp add: claimed_def s'_def)
  then have later: "400 \<le> rs_status (fst (serve N b P env1 rq (fold (broker_event_step N b a key) evs s')))"
    if "list_all (\<lambda>e. \<not> draws_pair N p e) evs" "rq_method rq = ''POST''" "rq_url rq = ''/oauth/claim''"
      "jsonBody rq = Some body2" "field body2 ''pairId'' = Str p"
    using claimed_refused [OF claimed_run] that by blast
  have live: "reg_find (encrypted_providers N key se2) p (es', fs') = (Inr (Some d), es', fs')"
    using assms(3) d(1) by (simp add: encrypted_providers_def enc_find_def ensure_loaded_def es'_def)
  have nonce: "rs_status (fst (handle_nonce N b (encrypted_providers N key se2) env2 p s')) = 200" if "clock env2 0 < dev_expiresAtMs d"
    using that live status d(2)
    by (simp add: handle_nonce_def issueDurableNonce_def s'_def grant_nonce_def Let_def case_prod_unfold)
  have "fst (enc_find N (se_read se3) p (fresh_store (enc_key es)) fs') = Inr None"
    using assms(9) fresh_find_file [of fs' fs N "se_read se3" p "enc_key es"] failed_write_file [OF failed assms(8)]
    by (simp add: fs'_def)
  then obtain reg where gone: "reg_find (encrypted_providers N key se3) p (fresh_store (enc_key es), fs') = (Inr None, reg)"
    by (cases "enc_find N (se_read se3) p (fresh_store (enc_key es)) fs'") (simp add: encrypted_providers_def)
  have "pair_records blank = []" using assms(10) by (auto simp: new_pairing_store_def split: option.splits if_splits)
  then have "statusOf N p blank = None" by (simp add: statusOf_def)
  with gone have "fst (handle_nonce N b (encrypted_providers N key se3) env3 p
      (s'\<lparr> st_pairs := blank, st_reg := (fresh_store (enc_key es), snd (st_reg s')) \<rparr>)) = sendError 403 ''revoked''"
    by (simp add: handle_nonce_def issueDurableNonce_def grant_nonce_def handshakeInProgress_def s'_def)
  with claim later nonce show ?thesis by blast
qed

definition ex_failing_env :: store_env where
  "ex_failing_env = \<lparr> se_read = ex_read_env, se_write = ex_write_env\<lparr> write_fault := Some (WriteFails 3) \<rparr>,
     se_tokenRead = ex_read_env, se_tokenWrite = ex_write_env, se_clearWorks = True \<rparr>"

definition ex_authorized :: pairing where
  "ex_authorized = ex_pending\<lparr> pair_status := Authorized,
     deviceSigningPublicKeyPem := ''PUBLIC KEY'', deviceEncryptionPublicKeyPem := ''PUBLIC KEY'' \<rparr>"

definition ex_claim_state :: "(enc_store \<times> files, files) broker_state" where
  "ex_claim_state = \<lparr> st_attempts = [], st_nonces = [], st_codes = \<lparr> codes = [], maxCodes = 5 \<rparr>,
     st_pairs = \<lparr> pair_records = [(pairHash toy_lease ''p'', ex_authorized)], pair_states = [], pair_handles = [],
       pair_nonces = [], pair_max = 2 \<rparr>, st_reg = (ex_enc_store, Map.empty), st_tok = Map.empty \<rparr>"

definition ex_proof :: string where
  "ex_proof = toBase64Url (69 # utf8 (proof_message toy_lease ''p'' 100))"

lemma ex_claim_opened: "openClaim toy_lease ''p'' ex_proof (clock ex_env 0) (st_pairs ex_claim_state) = (Inr (''PUBLIC KEY'', ''PUBLIC KEY''),
    (st_pairs ex_claim_state)\<lparr> pair_records := [(pairHash toy_lease ''p'', ex_authorized\<lparr> pair_status := Enrolled \<rparr>)] \<rparr>)"
proof -
  have sig: "buffer_from_base64url toy_lease ex_proof = 69 # utf8 (proof_message toy_lease ''p'' 100)"
    by (simp add: toy_lease_simps ex_proof_def fromBase64Url_toBase64Url)
  have verify: "verify_signature toy_lease m \<lparr> asymmetricKeyType = Ed25519, key_spki = [69] \<rparr> (69 # m)" for m
    by (simp add: toy_lease_simps)
  show ?thesis
    by (simp add: openClaim_def ex_claim_state_def ex_authorized_def ex_pending_def ex_pairing_def ex_env_def
        verifyProof_def sig verify Let_def)
qed

theorem failed_record_lives_in_memory_only_witness:
  "\<exists>s' blank. handle_claim toy_lease ex_broker (encrypted_providers toy_lease [] ex_failing_env) ex_env ''p''
      [(''proof'', Str ex_proof)] ex_claim_state = (sendError 502 ''lease_unavailable'', s')
    \<and> rs_status (fst (handle_nonce toy_lease ex_broker (encrypted_providers toy_lease [] ex_failing_env) ex_env ''p'' s')) = 200
    \<and> fst (handle_nonce toy_lease ex_broker (encrypted_providers toy_lease [] ex_failing_env) ex_env ''p''
        (s'\<lparr> st_pairs := blank, st_reg := (fresh_store (enc_key ex_enc_store), snd (st_reg s')) \<rparr>)) = sendError 403 ''revoked''"
proof -
  let ?input = "enrollment_request ex_broker ex_env ''p'' ''PUBLIC KEY'' ''PUBLIC KEY''"
  obtain d where d: "assert_device toy_lease ?input = Inr d" "dev_expiresAtMs d = 7776000005"
    by (simp add: assert_device_def enrollment_request_def str_includes_def ex_broker_def ex_env_def)
  have inv: "pairing_inv (st_pairs ex_claim_state)"
    by (simp add: pairing_inv_def ex_claim_state_def ex_authorized_def ex_pending_def ex_pairing_def pairing_ok_def proof_message_def)
  have reg: "st_reg ex_claim_state = (ex_enc_store, Map.empty)" "enc_load ex_enc_store = Loaded"
    by (simp_all add: ex_claim_state_def ex_enc_store_def)
  have failed: "fst (reg_record (encrypted_providers toy_lease [] ex_failing_env) ?input (ex_enc_store, Map.empty)) = Inl StoreIoError"
    using d(1) reg(2) by (simp add: encrypted_providers_def enc_record_def ensure_loaded_def persist_def Let_def write_record_def
        ex_failing_env_def ex_write_env_def ex_dir_ok)
  have body: "bounded_string (field [(''proof'', Str ex_proof)] ''proof'') 512 = Some ex_proof"
  proof -
    have "length ex_proof \<le> 512" by code_simp
    then show ?thesis by (simp add: bounded_string_def field_Cons)
  qed
  have fault: "write_fault (se_write ex_failing_env) \<noteq> Some ChmodFails" by (simp add: ex_failing_env_def)
  have gone: "fst (enc_find toy_lease (se_read ex_failing_env) ''p'' (fresh_store (enc_key ex_enc_store)) Map.empty) = Inr None"
    using ex_readable by (simp add: enc_find_def ensure_loaded_def load_def read_record_file_def readable_def fresh_store_def ex_failing_env_def)
  obtain blank where blank: "new_pairing_store (num_of_int 5) = Inr blank" by (simp add: new_pairing_store_def)
  have "clock ex_env 0 < dev_expiresAtMs d" using d(2) by (simp add: ex_env_def)
  with failed_record_lives_in_memory_only [OF inv reg body ex_claim_opened d(1) failed fault gone blank, of "[]" _ _ _ _ _ ex_env ex_failing_env ex_env]
  show ?thesis by blast
qed

end
