(* ===== verification/BrokerEntry.thy ===== *)
theory BrokerEntry
  imports RuntimeSecrets Gateways BrokerLeases
begin

text \<open>
  \<^verbatim>\<open>broker/src/index.ts\<close>: the deployment composed from its environment, and its four listeners brought
  up in order.  The two stores are read once before anything listens; \<open>binds\<close> says which ports the
  operating system grants, and every listener opened or closed is an event of a trace.
\<close>

section \<open>Composition\<close>

record startup_facts =
  fact_publicPort :: int
  fact_adminPort :: int
  fact_gatewayPort :: int
  fact_privateGatewayPort :: int
  fact_googleCallbackUri :: string
  fact_refreshTokenFilePath :: string
  fact_enrollmentFilePath :: string

record deployment =
  dep_runtime :: runtime_environment
  dep_tokenKey :: bytes
  dep_broker :: broker
  dep_state :: "(enc_store \<times> files, files) broker_state"
  dep_admin :: admin
  dep_gateway :: public_gateway
  dep_privateGateway :: gateway
  dep_facts :: startup_facts

datatype deploy_error = EnvironmentRefused secret_error | KeyRefused store_error | StoreUnreadable store_error
  | BadCapacity | BrokerRefused broker_error | AdminRefused | GatewayRefused gateway_error | BindFailed int

text \<open>A parsed configuration given back to the parser as an object.\<close>

definition config_fields :: "broker_config \<Rightarrow> (string \<times> jsval) list" where
  "config_fields c = [(''googleClientId'', Str (googleClientId c)), (''googleCallbackUri'', Str (googleCallbackUri c)),
     (''googleDriveScope'', Str (googleDriveScope c)), (''pairingTtlMs'', jint (pairingTtlMs c)),
     (''pairingCapacity'', jint (pairingCapacity c)),
     (''pairingRateLimitMaxAttempts'', jint (pairingRateLimitMaxAttempts c)),
     (''pairingRateLimitWindowMs'', jint (pairingRateLimitWindowMs c))]"

definition broker_settings :: "runtime_environment \<Rightarrow> pairing_store \<Rightarrow> broker_options" where
  "broker_settings r pairs = \<lparr> opt_oauth = Some (config_fields (run_config r), Some (run_clientSecret r)),
     opt_hasTokens = True, opt_root = Str (run_allowedRootName r), opt_pairs = Some pairs, opt_codes = None,
     opt_maxAttempts = Some (num_of_int (pairingRateLimitMaxAttempts (run_config r))),
     opt_windowMs = Some (num_of_int (pairingRateLimitWindowMs (run_config r))),
     opt_nonceTtlMs = None, opt_recordTtlMs = None \<rparr>"

definition loopback_upstream :: "int \<Rightarrow> string" where
  "loopback_upstream port = ''http://127.0.0.1:'' @ dec_int port"

definition startup_facts_of :: "runtime_environment \<Rightarrow> startup_facts" where
  "startup_facts_of r = \<lparr> fact_publicPort = run_publicPort r, fact_adminPort = run_adminPort r,
     fact_gatewayPort = run_gatewayPort r, fact_privateGatewayPort = run_privateGatewayPort r,
     fact_googleCallbackUri = googleCallbackUri (run_config r),
     fact_refreshTokenFilePath = run_refreshTokenFilePath r, fact_enrollmentFilePath = run_enrollmentFilePath r \<rparr>"

text \<open>The preflight: both stores are read with the keys derived from the one master key.\<close>

definition preflight :: "'x cipher_crypto_scheme \<Rightarrow> runtime_environment \<Rightarrow> read_env \<Rightarrow> files \<Rightarrow> read_env \<Rightarrow> files \<Rightarrow>
    (deploy_error, bytes \<times> enc_store) result" where
  "preflight N r tokenEnv tokenFiles recordEnv recordFiles =
    bind_result (map_error KeyRefused (deriveRefreshTokenStoreKey N (run_tokenKey r))) (\<lambda>tokenKey.
    bind_result (map_error KeyRefused (deriveEnrollmentStoreKey N (run_tokenKey r))) (\<lambda>recordKey.
    bind_result (map_error StoreUnreadable (read_token N tokenKey tokenEnv tokenFiles)) (\<lambda>_.
      case enc_count N recordEnv (fresh_store recordKey) recordFiles of
        (Inl e, _) \<Rightarrow> Inl (StoreUnreadable e)
      | (Inr _, records) \<Rightarrow> Inr (tokenKey, records))))"

definition composeBrokerDeployment :: "'x cipher_crypto_scheme \<Rightarrow> (string \<Rightarrow> url_parts option) \<Rightarrow>
    (string \<Rightarrow> upstream_url option) \<Rightarrow> host \<Rightarrow> process_env \<Rightarrow> read_env \<Rightarrow> files \<Rightarrow> read_env \<Rightarrow> files \<Rightarrow>
    (deploy_error, deployment) result" where
  "composeBrokerDeployment N U V H env tokenEnv tokenFiles recordEnv recordFiles =
    bind_result (map_error EnvironmentRefused (loadBrokerRuntimeEnvironment U H env)) (\<lambda>r.
    bind_result (map_error (\<lambda>_. BadCapacity) (new_pairing_store (num_of_int (pairingCapacity (run_config r))))) (\<lambda>pairs.
    bind_result (preflight N r tokenEnv tokenFiles recordEnv recordFiles) (\<lambda>(tokenKey, records).
    bind_result (map_error BrokerRefused
      (createBrokerServer U (broker_settings r pairs) (records, recordFiles) tokenFiles)) (\<lambda>(b, s).
    case createAdminServer (Str (run_adminToken r)) None True True of None \<Rightarrow> Inl AdminRefused
    | Some a \<Rightarrow>
      bind_result (map_error GatewayRefused (createPublicGateway V \<lparr> pub_upstream = Some (loopback_upstream (run_publicPort r)),
          pub_publicPath = None, pub_upstreamPath = None, pub_timeoutMs = None \<rparr>)) (\<lambda>g.
      bind_result (map_error GatewayRefused
          (createPrivateApiGateway V (Some (loopback_upstream (run_publicPort r))) None)) (\<lambda>p.
        Inr \<lparr> dep_runtime = r, dep_tokenKey = tokenKey, dep_broker = b, dep_state = s, dep_admin = a,
          dep_gateway = g, dep_privateGateway = p, dep_facts = startup_facts_of r \<rparr>))))))"

section \<open>Listeners\<close>

datatype listener_event = Bound int | Released int

text \<open>
  \<^verbatim>\<open>closeServer\<close> closes a server that listens and leaves the others; the four close together.  Here the
  servers that listen are given by their ports.
\<close>

definition close_listeners :: "int list \<Rightarrow> listener_event list" where
  "close_listeners listening = map Released listening"

fun listen_in_order :: "(int \<Rightarrow> bool) \<Rightarrow> int list \<Rightarrow> int list \<Rightarrow> (deploy_error, unit) result \<times> listener_event list" where
  "listen_in_order binds listening [] = (Inr (), [])"
| "listen_in_order binds listening (p # ps) =
    (if binds p then (case listen_in_order binds (listening @ [p]) ps of (r, tr) \<Rightarrow> (r, Bound p # tr))
     else (Inl (BindFailed p), close_listeners listening))"

definition listener_ports :: "startup_facts \<Rightarrow> int list" where
  "listener_ports f = [fact_publicPort f, fact_adminPort f, fact_gatewayPort f, fact_privateGatewayPort f]"

definition startBrokerDeployment :: "(deploy_error, deployment) result \<Rightarrow> (int \<Rightarrow> bool) \<Rightarrow>
    (deploy_error, deployment) result \<times> listener_event list" where
  "startBrokerDeployment composed binds = (case composed of Inl e \<Rightarrow> (Inl e, [])
     | Inr d \<Rightarrow> (case listen_in_order binds [] (listener_ports (dep_facts d)) of
         (Inl e, tr) \<Rightarrow> (Inl e, tr) | (Inr _, tr) \<Rightarrow> (Inr d, tr)))"

definition startup_lines :: "startup_facts \<Rightarrow> string list" where
  "startup_lines f =
    [''gdrive-stream-broker listening on 127.0.0.1:'' @ dec_int (fact_publicPort f),
     ''gdrive-stream-broker admin surface on 127.0.0.1:'' @ dec_int (fact_adminPort f),
     ''gdrive-stream-broker public gateway on 127.0.0.1:'' @ dec_int (fact_gatewayPort f),
     ''gdrive-stream-broker private API gateway on 127.0.0.1:'' @ dec_int (fact_privateGatewayPort f),
     ''gdrive-stream-broker oauth callback: '' @ fact_googleCallbackUri f,
     ''gdrive-stream-broker refresh token store: '' @ fact_refreshTokenFilePath f,
     ''gdrive-stream-broker enrollment store: '' @ fact_enrollmentFilePath f]"

text \<open>The exit code and what is logged; \<open>reason\<close> renders an error's message.\<close>

definition runBrokerEntrypoint :: "(deploy_error \<Rightarrow> string) \<Rightarrow> (deploy_error, deployment) result \<times> listener_event list \<Rightarrow>
    int \<times> string list" where
  "runBrokerEntrypoint reason started = (case fst started of
     Inl e \<Rightarrow> (1, [''gdrive-stream-broker failed to start: '' @ reason e])
   | Inr d \<Rightarrow> (0, startup_lines (dep_facts d)))"

text \<open>The ports that listen after a trace.\<close>

primrec listening_after :: "int set \<Rightarrow> listener_event list \<Rightarrow> int set" where
  "listening_after L [] = L"
| "listening_after L (e # es) = listening_after (case e of Bound p \<Rightarrow> insert p L | Released p \<Rightarrow> L - {p}) es"

section \<open>A deployment that starts\<close>

lemma listening_closed: "listening_after L (map Released ps) = L - set ps"
  by (induction ps arbitrary: L) auto

lemma listen_in_order_result:
  "listen_in_order binds ls ps = (r, tr) \<Longrightarrow>
     (if \<forall>p\<in>set ps. binds p then r = Inr () \<and> tr = map Bound ps
      else (\<exists>p. p \<in> set ps \<and> \<not> binds p \<and> r = Inl (BindFailed p)) \<and> listening_after (set ls) tr = {})"
proof (induction binds ls ps arbitrary: r tr rule: listen_in_order.induct)
  case (2 binds ls p ps)
  show ?case
  proof (cases "binds p")
    case True
    obtain r' tr' where c: "listen_in_order binds (ls @ [p]) ps = (r', tr')" by fastforce
    from 2(1) [OF True c] 2(2) True c show ?thesis by (auto split: if_splits)
  next
    case False
    with 2(2) show ?thesis by (auto simp: close_listeners_def listening_closed)
  qed
qed simp

lemma readInteger_jint [simp]: "readInteger ((k, jint i) # kvs) k lo hi = (if i < lo \<or> i > hi then Inl (InvalidSetting k) else Inr i)"
  by (simp add: readInteger_def field_Cons)

lemma readInteger_Inr: "readInteger kvs k lo hi = Inr i \<Longrightarrow> lo \<le> i \<and> i \<le> hi"
  by (auto simp: readInteger_def split: option.splits if_splits)

lemma config_reparsed:
  assumes "parseBrokerRuntimeConfig U kvs = Inr c"
  shows "parseBrokerRuntimeConfig U (config_fields c) = Inr c"
proof -
  obtain cid uri sc ttl cap att w where
    a: "readString kvs ''googleClientId'' = Inr cid" "is_client_id cid"
      "readString kvs ''googleCallbackUri'' = Inr uri" "validateCallbackUri U uri = Inr (googleCallbackUri c)"
    and i: "readInteger kvs ''pairingTtlMs'' 1000 600000 = Inr ttl" "readInteger kvs ''pairingCapacity'' 1 10000 = Inr cap"
      "readInteger kvs ''pairingRateLimitMaxAttempts'' 1 100 = Inr att"
      "readInteger kvs ''pairingRateLimitWindowMs'' 1000 3600000 = Inr w"
    and c: "c = \<lparr> googleClientId = cid, googleCallbackUri = googleCallbackUri c, googleDriveScope = GOOGLE_DRIVE_READONLY_SCOPE,
        pairingTtlMs = ttl, pairingCapacity = cap, pairingRateLimitMaxAttempts = att, pairingRateLimitWindowMs = w \<rparr>"
    using assms by (auto simp: parseBrokerRuntimeConfig_def bind_result_Inr split: if_splits)
  have s: "s \<noteq> []" if "readString kvs k = Inr s" for k s
    using that by (auto simp: readString_def as_nonempty_string_iff split: option.splits)
  have u: "googleCallbackUri c = uri" using a(4) by (auto simp: validateCallbackUri_def split: option.splits if_splits)
  from i have b: "1000 \<le> ttl \<and> ttl \<le> 600000" "1 \<le> cap \<and> cap \<le> 10000" "1 \<le> att \<and> att \<le> 100" "1000 \<le> w \<and> w \<le> 3600000"
    by (auto dest!: readInteger_Inr)
  show ?thesis
    using a s [OF a(1)] s [OF a(3)] b u
    by (subst c, subst (2) c) (simp add: parseBrokerRuntimeConfig_def config_fields_def readString_def field_Cons
        readInteger_def GOOGLE_DRIVE_READONLY_SCOPE_def)
qed


lemma loaded_config:
  assumes "loadBrokerRuntimeEnvironment U H env = Inr r"
  shows "parseBrokerRuntimeConfig U (config_fields (run_config r)) = Inr (run_config r)"
proof -
  from assms obtain cfg rootName where c: "read_settings U env = Inr (cfg, rootName)" "run_config r = cfg"
    by (auto simp: loadBrokerRuntimeEnvironment_def bind_result_Inr split: if_splits prod.splits)
  from c(1) obtain kvs where "parseBrokerRuntimeConfig U kvs = Inr cfg" by (rule read_settings_Inr)
  with c(2) config_reparsed show ?thesis by simp
qed

lemma parsed_bounds:
  assumes "parseBrokerRuntimeConfig U kvs = Inr c"
  shows "1 \<le> pairingCapacity c \<and> 1 \<le> pairingRateLimitMaxAttempts c \<and> 1000 \<le> pairingRateLimitWindowMs c"
  using assms by (auto simp: parseBrokerRuntimeConfig_def bind_result_Inr dest!: readInteger_Inr split: if_splits)

lemma broker_composes:
  assumes "parseBrokerRuntimeConfig U (config_fields (run_config r)) = Inr (run_config r)"
  shows "createBrokerServer U (broker_settings r pairs) reg tok =
    (case valid_allowed_root (Str (run_allowedRootName r)) of None \<Rightarrow> Inl BadRoot
     | Some rootName \<Rightarrow> Inr (\<lparr> bk_config = Some (run_config r), bk_secret = Some (run_clientSecret r), bk_hasTokens = True,
           bk_root = rootName, bk_maxAttempts = nat (pairingRateLimitMaxAttempts (run_config r)),
           bk_windowMs = pairingRateLimitWindowMs (run_config r), bk_nonceTtlMs = DEFAULT_NONCE_TTL_MS,
           bk_recordTtlMs = DEFAULT_ENROLLMENT_RECORD_TTL_MS \<rparr>,
         \<lparr> st_attempts = [], st_nonces = [], st_codes = \<lparr> codes = [], maxCodes = DEFAULT_MAX_CODES \<rparr>,
           st_pairs = pairs, st_reg = reg, st_tok = tok \<rparr>))"
proof -
  from parsed_bounds [OF assms] have b: "\<not> pairingRateLimitMaxAttempts (run_config r) < 1"
    "\<not> pairingRateLimitWindowMs (run_config r) < 1000" by simp_all
  have n: "as_int (num_of_int DEFAULT_NONCE_TTL_MS) = Some DEFAULT_NONCE_TTL_MS"
    "as_int (num_of_int DEFAULT_ENROLLMENT_RECORD_TTL_MS) = Some DEFAULT_ENROLLMENT_RECORD_TTL_MS" by (rule as_int_num_of_int)+
  have ttl: "\<not> DEFAULT_NONCE_TTL_MS < 1" "\<not> DEFAULT_ENROLLMENT_RECORD_TTL_MS < MIN_ENROLLMENT_RECORD_TTL_MS"
    "\<not> DEFAULT_ENROLLMENT_RECORD_TTL_MS > MAX_ENROLLMENT_RECORD_TTL_MS"
    by (simp_all add: DEFAULT_NONCE_TTL_MS_def DEFAULT_ENROLLMENT_RECORD_TTL_MS_def MIN_ENROLLMENT_RECORD_TTL_MS_def
        MAX_ENROLLMENT_RECORD_TTL_MS_def)
  show ?thesis
    by (simp add: createBrokerServer_def broker_settings_def assms or_default_def n ttl b Let_def del: as_int.simps
        split: option.split)
qed

lemma gateways_compose:
  assumes "V (loopback_upstream port) = Some \<lparr> up_protocol = ''http:'', up_hostname = ''127.0.0.1'', up_port = dec_int port \<rparr>"
  obtains g p where "createPublicGateway V \<lparr> pub_upstream = Some (loopback_upstream port), pub_publicPath = None,
      pub_upstreamPath = None, pub_timeoutMs = None \<rparr> = Inr g"
    "createPrivateApiGateway V (Some (loopback_upstream port)) None = Inr p"
    "gw_host g = ''127.0.0.1''" "gw_host p = ''127.0.0.1''" "gw_port p = gw_port g"
    "gw_port g = upstream_port \<lparr> up_protocol = ''http:'', up_hostname = ''127.0.0.1'', up_port = dec_int port \<rparr>"
proof -
  have h: "strip_brackets ''127.0.0.1'' = ''127.0.0.1'' \<and> lower ''127.0.0.1'' = ''127.0.0.1''" by code_simp
  have n: "normalisePath None DEFAULT_PUBLIC_PATH = Inr DEFAULT_PUBLIC_PATH"
    "normalisePath None DEFAULT_UPSTREAM_PATH = Inr DEFAULT_UPSTREAM_PATH" by code_simp+
  have t: "normaliseTimeout None = Inr 10000"
    by (simp add: normaliseTimeout_def or_default_def DEFAULT_TIMEOUT_MS_def MAX_TIMEOUT_MS_def)
  let ?u = "\<lparr> up_protocol = ''http:'', up_hostname = ''127.0.0.1'', up_port = dec_int port \<rparr>"
  have u: "normaliseLoopbackUpstream V (loopback_upstream port) = Inr ?u"
    by (simp add: normaliseLoopbackUpstream_def assms h LOOPBACK_HOSTNAMES_def)
  have "createPublicGateway V \<lparr> pub_upstream = Some (loopback_upstream port), pub_publicPath = None,
      pub_upstreamPath = None, pub_timeoutMs = None \<rparr> = Inr \<lparr> gw_host = ''127.0.0.1'', gw_port = upstream_port ?u,
      gw_timeoutMs = 10000, gw_publicPath = DEFAULT_PUBLIC_PATH, gw_upstreamPath = DEFAULT_UPSTREAM_PATH \<rparr>"
    by (simp add: createPublicGateway_def u n t h)
  moreover have "createPrivateApiGateway V (Some (loopback_upstream port)) None =
      Inr \<lparr> gw_host = ''127.0.0.1'', gw_port = upstream_port ?u, gw_timeoutMs = 10000 \<rparr>"
    by (simp add: createPrivateApiGateway_def u t h)
  ultimately show thesis by (rule that) simp_all
qed

text \<open>
  What can stop a deployment.  Once the environment is loaded and both stores could be read with
  the derived keys, composing succeeds exactly when the root folder name is one the broker accepts:
  configuration, capacity, rate limits, admin token and gateways always fit together.  The broker then
  runs on the loaded configuration, the admin server on the loaded token, and both gateways point at
  the broker's own port on the loopback address.
\<close>
theorem composition_needs_root_only:
  assumes "loadBrokerRuntimeEnvironment U H env = Inr r"
    and "preflight N r tokenEnv tokenFiles recordEnv recordFiles = Inr (tokenKey, records)"
    and "V (loopback_upstream (run_publicPort r)) =
      Some \<lparr> up_protocol = ''http:'', up_hostname = ''127.0.0.1'', up_port = dec_int (run_publicPort r) \<rparr>"
  shows "case composeBrokerDeployment N U V H env tokenEnv tokenFiles recordEnv recordFiles of
      Inl e \<Rightarrow> e = BrokerRefused BadRoot \<and> valid_allowed_root (Str (run_allowedRootName r)) = None
    | Inr d \<Rightarrow> valid_allowed_root (Str (run_allowedRootName r)) = Some (bk_root (dep_broker d))
        \<and> dep_runtime d = r \<and> bk_config (dep_broker d) = Some (run_config r) \<and> leaseEndpointReady (dep_broker d)
        \<and> ad_token (dep_admin d) = run_adminToken r \<and> st_reg (dep_state d) = (records, recordFiles)
        \<and> gw_host (dep_gateway d) = ''127.0.0.1'' \<and> gw_host (dep_privateGateway d) = ''127.0.0.1''
        \<and> gw_port (dep_privateGateway d) = gw_port (dep_gateway d)"
proof -
  note c = loaded_config [OF assms(1)]
  from loaded_environment [OF assms(1)] have e: "run_clientSecret r \<noteq> []" "\<not> length (run_adminToken r) < MIN_ADMIN_TOKEN"
    by simp_all
  from parsed_bounds [OF c] have cap: "new_pairing_store (num_of_int (pairingCapacity (run_config r))) =
      Inr \<lparr> pair_records = [], pair_states = [], pair_handles = [], pair_nonces = [], pair_max = nat (pairingCapacity (run_config r)) \<rparr>"
    by (simp add: new_pairing_store_def)
  obtain g p where g: "createPublicGateway V \<lparr> pub_upstream = Some (loopback_upstream (run_publicPort r)),
      pub_publicPath = None, pub_upstreamPath = None, pub_timeoutMs = None \<rparr> = Inr g"
    "createPrivateApiGateway V (Some (loopback_upstream (run_publicPort r))) None = Inr p"
    "gw_host g = ''127.0.0.1''" "gw_host p = ''127.0.0.1''" "gw_port p = gw_port g"
    using gateways_compose [of V "run_publicPort r", OF assms(3)] by blast
  show ?thesis
    by (cases "valid_allowed_root (Str (run_allowedRootName r))")
      (simp_all add: composeBrokerDeployment_def assms(1,2) cap broker_composes [OF c] g createAdminServer_def e
        map_error_def leaseEndpointReady_def usable_secret_def)
qed

text \<open>
  C38: the deployment comes up whole or not at all.  A start that succeeds has bound exactly the four
  configured ports, each once; a start that fails, at whatever listener, leaves no listener open.
\<close>
theorem deployment_up_or_released:
  assumes "startBrokerDeployment (composeBrokerDeployment N U V H env tokenEnv tokenFiles recordEnv recordFiles) binds
      = (res, tr)"
  shows "case res of Inl e \<Rightarrow> listening_after {} tr = {}
    | Inr d \<Rightarrow> tr = map Bound (listener_ports (dep_facts d)) \<and> distinct (listener_ports (dep_facts d))
        \<and> list_all binds (listener_ports (dep_facts d)) \<and> fst (runBrokerEntrypoint reason (res, tr)) = 0"
proof (cases "composeBrokerDeployment N U V H env tokenEnv tokenFiles recordEnv recordFiles")
  case (Inl e)
  with assms have "res = Inl e" "tr = []" by (simp_all add: startBrokerDeployment_def)
  then show ?thesis by simp
next
  case (Inr d)
  then obtain r where r: "loadBrokerRuntimeEnvironment U H env = Inr r" "dep_facts d = startup_facts_of r"
    by (auto simp: composeBrokerDeployment_def bind_result_Inr split: prod.splits option.splits)
  from loaded_environment [OF r(1)] r(2) have ports: "distinct (listener_ports (dep_facts d))"
    by (auto simp: listener_ports_def startup_facts_of_def)
  obtain l tr' where l: "listen_in_order binds [] (listener_ports (dep_facts d)) = (l, tr')" by fastforce
  have "startBrokerDeployment (Inr d) binds = (res, tr)" using assms Inr by simp
  with listen_in_order_result [OF l] l ports show ?thesis
    by (auto simp: startBrokerDeployment_def runBrokerEntrypoint_def list_all_iff split: if_splits)
qed

definition ex_parse :: "string \<Rightarrow> upstream_url option" where
  "ex_parse s = Some \<lparr> up_protocol = ''http:'', up_hostname = ''127.0.0.1'', up_port = drop 17 s \<rparr>"

definition ex_dir :: dir_env where
  "ex_dir = \<lparr> first_stat = StatMissing, mkdir_works = True, created_stat = StatMissing, chmod_works = True,
     verified_stat = StatMissing, getuid = None \<rparr>"

definition ex_quiet :: read_env where
  "ex_quiet = \<lparr> read_guard = ex_dir, read_fails = False \<rparr>"


lemma ex_preflight: "\<exists>k records. preflight toy_cipher ex_runtime ex_quiet Map.empty ex_quiet Map.empty = Inr (k, records)"
  by (simp add: preflight_def deriveRefreshTokenStoreKey_def deriveEnrollmentStoreKey_def derive_store_key_def ex_runtime_def
      KEY_BYTES_def toy_cipher_def node_crypto.defs cipher_crypto.defs read_token_def read_record_file_def ex_quiet_def
      ex_dir_def ensureProtectedDirectory_def inspect_directory_def enc_count_def ensure_loaded_def fresh_store_def
      load_def min_def)

lemma ex_root: "valid_allowed_root (Str (run_allowedRootName ex_runtime)) = Some ''Notes''"
  by code_simp

theorem composition_needs_root_only_witness:
  "\<exists>d. composeBrokerDeployment toy_cipher toy_url ex_parse ex_host ex_vars ex_quiet Map.empty ex_quiet Map.empty = Inr d
     \<and> bk_root (dep_broker d) = ''Notes'' \<and> gw_host (dep_gateway d) = ''127.0.0.1''"
proof -
  obtain k records where p: "preflight toy_cipher ex_runtime ex_quiet Map.empty ex_quiet Map.empty = Inr (k, records)"
    using ex_preflight by blast
  have "ex_parse (loopback_upstream (run_publicPort ex_runtime)) = Some \<lparr> up_protocol = ''http:'',
      up_hostname = ''127.0.0.1'', up_port = dec_int (run_publicPort ex_runtime) \<rparr>"
    by (simp add: ex_parse_def loopback_upstream_def)
  from composition_needs_root_only [OF ex_runtime p, where V = ex_parse, OF this] ex_root show ?thesis
    by (cases "composeBrokerDeployment toy_cipher toy_url ex_parse ex_host ex_vars ex_quiet Map.empty ex_quiet Map.empty")
      simp_all
qed

theorem deployment_up_or_released_witness:
  "\<exists>e tr. startBrokerDeployment (composeBrokerDeployment toy_cipher toy_url ex_parse ex_host ex_vars ex_quiet Map.empty
      ex_quiet Map.empty) (\<lambda>p. p \<noteq> 34005) = (Inl e, tr) \<and> listening_after {} tr = {}"
proof -
  let ?c = "composeBrokerDeployment toy_cipher toy_url ex_parse ex_host ex_vars ex_quiet Map.empty ex_quiet Map.empty"
  obtain r tr where s: "startBrokerDeployment ?c (\<lambda>p. p \<noteq> 34005) = (r, tr)" by fastforce
  have "\<not> is_ok r"
  proof (cases ?c)
    case (Inr d)
    then have "dep_facts d = startup_facts_of ex_runtime"
      by (auto simp: composeBrokerDeployment_def bind_result_Inr ex_runtime split: prod.splits option.splits)
    with s Inr show ?thesis
      by (auto simp: startBrokerDeployment_def listener_ports_def startup_facts_of_def ex_runtime_def)
  next
    case (Inl e)
    with s have "r = Inl e" by (simp add: startBrokerDeployment_def)
    then show ?thesis by simp
  qed
  then obtain e where "r = Inl e" by (cases r) auto
  with s deployment_up_or_released [OF s] show ?thesis by auto
qed

end
