(* ===== verification/BrokerProcess.thy ===== *)
theory BrokerProcess
  imports BrokerEntry
begin

text \<open>
  The processes around the servers: the two gateways started on their own (\<^verbatim>\<open>startPublicGateway\<close>,
  \<^verbatim>\<open>startPrivateApiGateway\<close>), and the life of the broker's process after its start, with the signals
  that end it (the end of \<^verbatim>\<open>runBrokerEntrypoint\<close> in \<^verbatim>\<open>broker/src/index.ts\<close>).
\<close>

section \<open>A gateway on its own\<close>

datatype start_error = StartRefused gateway_error | ListenFailed

definition LOOPBACK_BIND_ADDRESS :: string where "LOOPBACK_BIND_ADDRESS = ''127.0.0.1''"

text \<open>\<open>listens\<close> is the operating system's answer to \<^verbatim>\<open>listen\<close> on an address and a port.\<close>

definition listen_once :: "(string \<Rightarrow> int \<Rightarrow> bool) \<Rightarrow> int \<Rightarrow> 'g \<Rightarrow> (start_error, 'g \<times> string \<times> int) result" where
  "listen_once listens port server =
    (if listens LOOPBACK_BIND_ADDRESS port then Inr (server, LOOPBACK_BIND_ADDRESS, port) else Inl ListenFailed)"

definition startPublicGateway :: "(string \<Rightarrow> upstream_url option) \<Rightarrow> public_options \<Rightarrow> number \<Rightarrow>
    (string \<Rightarrow> int \<Rightarrow> bool) \<Rightarrow> (start_error, public_gateway \<times> string \<times> int) result" where
  "startPublicGateway parse opts port listens = (case valid_listen_port port of Inl e \<Rightarrow> Inl (StartRefused e)
     | Inr p \<Rightarrow> (case createPublicGateway parse opts of Inl e \<Rightarrow> Inl (StartRefused e)
       | Inr g \<Rightarrow> listen_once listens p g))"

definition startPrivateApiGateway :: "(string \<Rightarrow> upstream_url option) \<Rightarrow> string option \<Rightarrow> number option \<Rightarrow> number \<Rightarrow>
    (string \<Rightarrow> int \<Rightarrow> bool) \<Rightarrow> (start_error, gateway \<times> string \<times> int) result" where
  "startPrivateApiGateway parse upstream timeoutMs port listens = (case valid_listen_port port of
       Inl e \<Rightarrow> Inl (StartRefused e)
     | Inr p \<Rightarrow> (case createPrivateApiGateway parse upstream timeoutMs of Inl e \<Rightarrow> Inl (StartRefused e)
       | Inr g \<Rightarrow> listen_once listens p g))"

text \<open>A started gateway listens on the loopback address alone and forwards to a loopback address alone.\<close>

lemma loopback_upstream_host: "normaliseLoopbackUpstream parse raw = Inr u \<Longrightarrow>
    lower (strip_brackets (up_hostname u)) \<in> set LOOPBACK_HOSTNAMES"
  by (auto simp: normaliseLoopbackUpstream_def split: option.splits if_splits)

lemma started_gateway_loopback:
  assumes "startPublicGateway parse opts port listens = Inr (g, address, p)"
  shows "address = ''127.0.0.1'' \<and> 0 \<le> p \<and> p \<le> 65535 \<and> listens address p \<and> lower (gw_host g) \<in> set LOOPBACK_HOSTNAMES"
  using assms loopback_upstream_host
  by (auto simp: startPublicGateway_def listen_once_def LOOPBACK_BIND_ADDRESS_def valid_listen_port_def
      createPublicGateway_def bind_result_Inr split: sum.splits option.splits if_splits)

lemma started_private_gateway_loopback:
  assumes "startPrivateApiGateway parse upstream timeoutMs port listens = Inr (g, address, p)"
  shows "address = ''127.0.0.1'' \<and> 0 \<le> p \<and> p \<le> 65535 \<and> listens address p \<and> lower (gw_host g) \<in> set LOOPBACK_HOSTNAMES"
  using assms loopback_upstream_host
  by (auto simp: startPrivateApiGateway_def listen_once_def LOOPBACK_BIND_ADDRESS_def valid_listen_port_def
      createPrivateApiGateway_def bind_result_Inr split: sum.splits option.splits if_splits)

section \<open>The end of the process\<close>

datatype os_signal = SIGINT | SIGTERM

datatype process_exit = Exited int | Killed os_signal

text \<open>\<^verbatim>\<open>process.once\<close> takes its handler away at the first signal; a signal without a handler kills.\<close>

record broker_process =
  pc_handlers :: "os_signal list"
  pc_shuttingDown :: bool
  pc_closes :: nat
  pc_exit :: "process_exit option"

definition running_process :: broker_process where
  "running_process = \<lparr> pc_handlers = [SIGINT, SIGTERM], pc_shuttingDown = False, pc_closes = 0, pc_exit = None \<rparr>"

definition shutdown :: "broker_process \<Rightarrow> broker_process" where
  "shutdown p = (if pc_shuttingDown p then p else p\<lparr> pc_shuttingDown := True, pc_closes := Suc (pc_closes p) \<rparr>)"

text \<open>\<open>Settled ok\<close>: the promise of \<^verbatim>\<open>close\<close> is fulfilled or rejected.\<close>

datatype process_event = Signalled os_signal | Settled bool

primrec process_step :: "process_event \<Rightarrow> broker_process \<Rightarrow> broker_process" where
  "process_step (Signalled g) p = (if pc_exit p \<noteq> None then p
     else if g \<in> set (pc_handlers p) then shutdown (p\<lparr> pc_handlers := remove1 g (pc_handlers p) \<rparr>)
     else p\<lparr> pc_exit := Some (Killed g) \<rparr>)"
| "process_step (Settled ok) p = (if pc_exit p \<noteq> None \<or> pc_closes p = 0 then p
     else p\<lparr> pc_exit := Some (Exited (if ok then 0 else 1)) \<rparr>)"

text \<open>
  Whatever signals arrive and whenever, the servers are closed at most once, and the process exits
  with success only when a signal asked for it and the close succeeded.
\<close>

definition process_inv :: "process_event list \<Rightarrow> broker_process \<Rightarrow> bool" where
  "process_inv es p \<longleftrightarrow> pc_closes p = (if pc_shuttingDown p then 1 else 0)
     \<and> (pc_shuttingDown p \<longrightarrow> (\<exists>g. Signalled g \<in> set es))
     \<and> (\<not> pc_shuttingDown p \<and> pc_exit p = None \<longrightarrow> pc_handlers p = [SIGINT, SIGTERM])
     \<and> (pc_exit p = Some (Exited 0) \<longrightarrow> pc_shuttingDown p \<and> Settled True \<in> set es)"

lemma process_inv_step: "process_inv es p \<Longrightarrow> process_inv (es @ [e]) (process_step e p)"
  by (cases e; cases "pc_exit p") (auto simp: process_inv_def shutdown_def)

lemma process_inv_run: "process_inv es0 p \<Longrightarrow> process_inv (es0 @ es) (fold process_step es p)"
proof (induction es arbitrary: es0 p)
  case (Cons e es)
  from Cons.IH [OF process_inv_step [OF Cons.prems, of e]] show ?case by simp
qed simp

lemma process_closes_once:
  assumes "p = fold process_step es running_process"
  shows "pc_closes p \<le> 1 \<and> (pc_exit p = Some (Exited 0) \<longrightarrow> Settled True \<in> set es \<and> (\<exists>g. Signalled g \<in> set es))"
proof -
  have "process_inv [] running_process" by (simp add: process_inv_def running_process_def)
  from process_inv_run [OF this, of es] show ?thesis by (auto simp: process_inv_def assms)
qed

lemma second_signal_kills: "fold process_step [Signalled SIGINT, Signalled SIGINT] running_process =
    running_process\<lparr> pc_handlers := [SIGTERM], pc_shuttingDown := True, pc_closes := 1, pc_exit := Some (Killed SIGINT) \<rparr>"
  by (simp add: running_process_def shutdown_def)

section \<open>Direct invocation\<close>

text \<open>\<open>module_path\<close> is \<^verbatim>\<open>fileURLToPath(import.meta.url)\<close>, \<open>None\<close> when it raises; \<open>resolve\<close> is \<^verbatim>\<open>path.resolve\<close>.\<close>

definition isDirectInvocation :: "(string \<Rightarrow> string) \<Rightarrow> string option \<Rightarrow> string option \<Rightarrow> bool" where
  "isDirectInvocation resolve module_path entry = (case entry of None \<Rightarrow> False
     | Some e \<Rightarrow> e \<noteq> [] \<and> (case module_path of None \<Rightarrow> False | Some m \<Rightarrow> resolve e = m))"

text \<open>The exit code a direct invocation sets; \<open>None\<close> leaves the process's own.\<close>

definition main_exit_code :: "bool \<Rightarrow> int \<Rightarrow> int option" where
  "main_exit_code direct exitCode = (if direct \<and> exitCode \<noteq> 0 then Some exitCode else None)"

lemma import_never_starts: "isDirectInvocation resolve module_path None = False" "main_exit_code False c = None"
  by (simp_all add: isDirectInvocation_def main_exit_code_def)

section \<open>The transport to Google\<close>

text \<open>
  \<^verbatim>\<open>defaultTransport\<close> over the host's \<^verbatim>\<open>fetch\<close>: the request may fail, and so may reading the text of its
  response.  A token request is a \<^verbatim>\<open>POST\<close>.
\<close>

definition defaultTransport :: "(string \<Rightarrow> string \<Rightarrow> string \<Rightarrow> (int \<times> string option) option) \<Rightarrow> oauth_request \<Rightarrow>
    (number \<times> string) option" where
  "defaultTransport fetch r = (case fetch (oauth_url r) ''POST'' (oauth_body r) of None \<Rightarrow> None
     | Some (status, body) \<Rightarrow> (case body of None \<Rightarrow> None | Some b \<Rightarrow> Some (num_of_int status, b)))"

lemma broken_response_fails_exchange:
  "fetch GOOGLE_TOKEN_ENDPOINT ''POST'' (form_serialize (exchange_params cfg c v secret)) = Some (status, None) \<Longrightarrow>
     exchangeAuthorizationCode cfg c v secret (defaultTransport fetch) = Inl NetworkError"
  by (simp add: exchangeAuthorizationCode_def defaultTransport_def token_request_def)

end
