(* ===== verification/RootScope.thy ===== *)
theory RootScope
  imports JsString
begin

text \<open>
  \<^verbatim>\<open>src/drive/root-scope.ts\<close>: the product filter that keeps the plugin under one Drive folder.  The walk
  up the recorded parents is a loop over data that may contain cycles; it is a partial function whose
  result \<open>None\<close> would be a loop that never returns, and that it always returns is a theorem.
\<close>

section \<open>State and operations\<close>

definition DRIVE_FOLDER_MIME :: string where "DRIVE_FOLDER_MIME = ''application/vnd.google-apps.folder''"
definition BETA_ROOT_FOLDER_NAME :: string where "BETA_ROOT_FOLDER_NAME = ''example-test-root''"

record folder_ref =
  folder_id :: string
  folder_name :: string
  folder_mimeType :: string

datatype scope_failure = RootNameRequired | RootNotFound | RootAmbiguous | RootIdInvalid | SourceFailed
  | OutsideRoot string | BadRelativePath

record root_scope =
  scope_name :: string
  scope_root :: "string option"
  scope_parentOf :: "(string, string) omap"

definition drive_id_char :: "char \<Rightarrow> bool" where
  "drive_id_char c \<longleftrightarrow> is_alnum c \<or> c = CHR ''_'' \<or> c = CHR ''-''"

definition is_drive_id :: "string \<Rightarrow> bool" where
  "is_drive_id s \<longleftrightarrow> s \<noteq> [] \<and> length s \<le> 256 \<and> list_all drive_id_char s"

definition new_root_scope :: "string \<Rightarrow> (scope_failure, root_scope) result" where
  "new_root_scope n = (if n = [] then Inl RootNameRequired
     else Inr \<lparr> scope_name = n, scope_root = None, scope_parentOf = [] \<rparr>)"

text \<open>\<open>listed\<close> is the answer of the folder source, \<open>None\<close> when the call fails.\<close>

definition resolveRootId :: "folder_ref list option \<Rightarrow> root_scope \<Rightarrow> (scope_failure, string) result \<times> root_scope" where
  "resolveRootId listed s = (case scope_root s of Some r \<Rightarrow> (Inr r, s)
     | None \<Rightarrow> (case listed of None \<Rightarrow> (Inl SourceFailed, s)
        | Some fs \<Rightarrow> (case filter (\<lambda>f. folder_name f = scope_name s \<and> folder_mimeType f = DRIVE_FOLDER_MIME) fs of
            [] \<Rightarrow> (Inl RootNotFound, s)
          | [f] \<Rightarrow> if is_drive_id (folder_id f)
                  then (Inr (folder_id f), s\<lparr> scope_root := Some (folder_id f) \<rparr>) else (Inl RootIdInvalid, s)
          | _ \<Rightarrow> (Inl RootAmbiguous, s))))"

partial_function (option) ancestor_walk :: "string \<Rightarrow> (string, string) omap \<Rightarrow> string list \<Rightarrow> string option \<Rightarrow> bool option" where
  "ancestor_walk r parents seen current =
    (if current = None then Some False
     else let c = the current
       in if c = r then Some True
          else if c \<in> set seen then Some False
          else ancestor_walk r parents (c # seen) (mget parents c))"

declare ancestor_walk.simps [code]

definition isWithinRoot :: "root_scope \<Rightarrow> string \<Rightarrow> bool" where
  "isWithinRoot s fileId = (case scope_root s of None \<Rightarrow> False
     | Some r \<Rightarrow> is_drive_id fileId \<and> (fileId = r
         \<or> ancestor_walk r (scope_parentOf s) [fileId] (mget (scope_parentOf s) fileId) = Some True))"

definition describeRejection :: "string \<Rightarrow> string" where
  "describeRejection s = (if CHR ''/'' \<in> set s \<or> CHR 0x5C \<in> set s then ''path-like id''
     else if s = ''..'' \<or> s = ''.'' then ''path traversal'' else ''unregistered id'')"

definition assertWithinRoot :: "root_scope \<Rightarrow> string \<Rightarrow> (scope_failure, string) result" where
  "assertWithinRoot s fileId = (if isWithinRoot s fileId then Inr fileId else Inl (OutsideRoot (describeRejection fileId)))"

text \<open>The loop stops at the first bad id; the children before it stay recorded.\<close>

fun register_loop :: "string \<Rightarrow> string list \<Rightarrow> root_scope \<Rightarrow> (scope_failure, unit) result \<times> root_scope" where
  "register_loop p [] s = (Inr (), s)"
| "register_loop p (c # cs) s = (if \<not> is_drive_id c then (Inl (OutsideRoot []), s)
     else register_loop p cs (s\<lparr> scope_parentOf := mput c p (scope_parentOf s) \<rparr>))"

definition registerChildren :: "string \<Rightarrow> string list \<Rightarrow> root_scope \<Rightarrow> (scope_failure, unit) result \<times> root_scope" where
  "registerChildren p cs s = (case assertWithinRoot s p of Inl e \<Rightarrow> (Inl e, s) | Inr _ \<Rightarrow> register_loop p cs s)"

definition resolveRelativePath :: "string \<Rightarrow> (scope_failure, string list) result" where
  "resolveRelativePath path = (if path = [] then Inr []
     else let t = trim path
       in if t = [] \<or> starts_with t ''/'' \<or> CHR 0x5C \<in> set t then Inl BadRelativePath
          else if list_ex is_control t then Inl BadRelativePath
          else let segments = split_on (CHR ''/'') t
            in if list_ex (\<lambda>s. s = [] \<or> s = ''.'' \<or> s = ''..'') segments then Inl BadRelativePath else Inr segments)"

section \<open>The walk returns, and what it decides\<close>

text \<open>The recorded parents as a relation: \<open>(c, p)\<close> when \<open>c\<close> was listed under \<open>p\<close>.\<close>

definition parent_rel :: "(string, string) omap \<Rightarrow> (string \<times> string) set" where
  "parent_rel m = {(c, p). mget m c = Some p}"

lemma parent_rel_iff [simp]: "(c, p) \<in> parent_rel m \<longleftrightarrow> mget m c = Some p"
  by (simp add: parent_rel_def)

lemma single_valued_parent: "single_valued (parent_rel m)"
  by (simp add: single_valued_def)

text \<open>One step of the walk either stops or visits a key of the map that was not visited before.\<close>

definition unvisited :: "(string, string) omap \<Rightarrow> string list \<Rightarrow> nat" where
  "unvisited m seen = card (fst ` set m - set seen)"

lemma unvisited_decreases:
  assumes "mget m c = Some p" "c \<notin> set seen"
  shows "unvisited m (c # seen) < unvisited m seen"
proof -
  have "c \<in> fst ` set m" using assms(1) by (force dest: map_of_SomeD)
  with assms(2) have "fst ` set m - set (c # seen) \<subset> fst ` set m - set seen" by auto
  then show ?thesis by (simp only: unvisited_def psubset_card_mono finite_imageI finite_set finite_Diff)
qed

text \<open>The visited ids are closed under parents up to the id the walk stands at, and miss the root.\<close>

definition chain_inv :: "string \<Rightarrow> (string, string) omap \<Rightarrow> string list \<Rightarrow> string option \<Rightarrow> bool" where
  "chain_inv r m seen current \<longleftrightarrow>
     (\<forall>x\<in>set seen. x \<noteq> r \<and> (\<forall>p. mget m x = Some p \<longrightarrow> p \<in> set seen \<or> current = Some p))"

lemma closed_unreachable:
  assumes "\<forall>x\<in>A. x \<noteq> r \<and> (\<forall>p. mget m x = Some p \<longrightarrow> p \<in> A)" "c \<in> A"
  shows "(c, r) \<notin> (parent_rel m)\<^sup>*"
proof
  assume "(c, r) \<in> (parent_rel m)\<^sup>*"
  then have "c \<in> A \<longrightarrow> r \<in> A" by (induction rule: converse_rtrancl_induct) (use assms(1) in auto)
  with assms show False by blast
qed

lemma reach_step: "c \<noteq> r \<Longrightarrow> (c, r) \<in> (parent_rel m)\<^sup>* \<longleftrightarrow> (\<exists>p. mget m c = Some p \<and> (p, r) \<in> (parent_rel m)\<^sup>*)"
  by (auto elim: converse_rtranclE intro: converse_rtrancl_into_rtrancl)

lemma reach_up: "mget m x = Some z \<Longrightarrow> (z, y) \<in> (parent_rel m)\<^sup>* \<Longrightarrow> (x, y) \<in> (parent_rel m)\<^sup>*"
  by (rule converse_rtrancl_into_rtrancl) simp_all

lemma walk_decides:
  "chain_inv r m seen current \<Longrightarrow>
     ancestor_walk r m seen current = Some (\<exists>c. current = Some c \<and> (c, r) \<in> (parent_rel m)\<^sup>*)"
proof (induction "unvisited m seen" arbitrary: seen current rule: less_induct)
  case less
  consider (none) "current = None" | (root) "current = Some r" | (cycle) c where "current = Some c" "c \<noteq> r" "c \<in> set seen"
    | (top) c where "current = Some c" "c \<noteq> r" "c \<notin> set seen" "mget m c = None"
    | (up) c p where "current = Some c" "c \<noteq> r" "c \<notin> set seen" "mget m c = Some p"
    by (cases current) auto
  then show ?case
  proof cases
    case cycle
    then have "(c, r) \<notin> (parent_rel m)\<^sup>*"
      using closed_unreachable [of "set seen" r m c] less(2) by (auto simp: chain_inv_def)
    with cycle show ?thesis by (subst ancestor_walk.simps) (simp add: Let_def)
  next
    case top
    with reach_step [of c r m] show ?thesis
      by (subst ancestor_walk.simps) (simp add: Let_def ancestor_walk.simps [of r m _ None])
  next
    case up
    have "chain_inv r m (c # seen) (Some p)" using less(2) up by (auto simp: chain_inv_def)
    from less(1) [OF unvisited_decreases [OF up(4,3)] this] up reach_step [of c r m] show ?thesis
      by (subst ancestor_walk.simps) (simp add: Let_def)
  qed (subst ancestor_walk.simps; simp add: Let_def)+
qed

lemma within_iff:
  "isWithinRoot s f \<longleftrightarrow> (\<exists>r. scope_root s = Some r \<and> is_drive_id f \<and> (f, r) \<in> (parent_rel (scope_parentOf s))\<^sup>*)"
proof (cases "scope_root s")
  case (Some r)
  show ?thesis
  proof (cases "f = r")
    case False
    then have "chain_inv r (scope_parentOf s) [f] (mget (scope_parentOf s) f)" by (simp add: chain_inv_def)
    from walk_decides [OF this] False Some reach_step [OF False] show ?thesis by (simp add: isWithinRoot_def)
  qed (simp add: isWithinRoot_def Some)
qed (simp add: isWithinRoot_def)

text \<open>
  C26: the walk up the recorded parents returns for every parent map, cyclic ones included, whatever id
  it starts from; and it answers exactly whether the root is reachable along the recorded parents, so
  the scope test is the reachability test.
\<close>
theorem ancestor_walk_terminates:
  "(\<exists>b. ancestor_walk r m seen current = Some b)
    \<and> (isWithinRoot s f \<longleftrightarrow> (\<exists>root_id. scope_root s = Some root_id \<and> is_drive_id f
         \<and> (f, root_id) \<in> (parent_rel (scope_parentOf s))\<^sup>*))"
proof
  show "\<exists>b. ancestor_walk r m seen current = Some b"
  proof (induction "unvisited m seen" arbitrary: seen current rule: less_induct)
    case less
    show ?case
    proof (cases "current = None \<or> the current = r \<or> the current \<in> set seen \<or> mget m (the current) = None")
      case True
      then show ?thesis
        by (subst ancestor_walk.simps) (auto simp: Let_def ancestor_walk.simps [of r m _ None])
    next
      case False
      then obtain c p where c: "current = Some c" "c \<noteq> r" "c \<notin> set seen" "mget m c = Some p" by auto
      from less [OF unvisited_decreases [OF c(4,3)]] c show ?thesis
        by (subst ancestor_walk.simps) (simp add: Let_def)
    qed
  qed
qed (rule within_iff)

section \<open>Registration\<close>

lemma register_loop_map:
  "register_loop p cs s = (Inr (), s') \<Longrightarrow> scope_root s' = scope_root s \<and> list_all is_drive_id cs
     \<and> (\<forall>x. mget (scope_parentOf s') x = (if x \<in> set cs then Some p else mget (scope_parentOf s) x))"
  by (induction p cs s rule: register_loop.induct) (auto split: if_splits)

text \<open>
  Listing a folder in scope keeps the scope.  Unless a listed child is itself an ancestor of the
  folder, every child is in scope afterwards and every id that was in scope still is; and an id comes
  into scope only below one of the listed children.
\<close>
theorem registration_keeps_scope:
  assumes "registerChildren p cs s = (Inr (), s')"
    and "\<forall>c\<in>set cs. (p, c) \<notin> (parent_rel (scope_parentOf s))\<^sup>*"
  shows "(\<forall>f. isWithinRoot s f \<or> f \<in> set cs \<longrightarrow> isWithinRoot s' f)
    \<and> (\<forall>f. isWithinRoot s' f \<and> \<not> isWithinRoot s f \<longrightarrow> (\<exists>c\<in>set cs. (f, c) \<in> (parent_rel (scope_parentOf s))\<^sup>*))"
proof -
  let ?m = "scope_parentOf s" and ?m' = "scope_parentOf s'"
  from assms(1) have p: "isWithinRoot s p" and l: "register_loop p cs s = (Inr (), s')"
    by (auto simp: registerChildren_def assertWithinRoot_def split: if_splits)
  note g = register_loop_map [OF l]
  from p obtain r where r: "scope_root s = Some r" "(p, r) \<in> (parent_rel ?m)\<^sup>*" by (auto simp: within_iff)
  have keep: "(x, y) \<in> (parent_rel ?m')\<^sup>*"
    if "(x, y) \<in> (parent_rel ?m)\<^sup>*" "\<forall>c\<in>set cs. (x, c) \<notin> (parent_rel ?m)\<^sup>*" for x y
    using that
  proof (induction rule: converse_rtrancl_induct)
    case (step x z)
    then have "mget ?m' x = Some z" "\<forall>c\<in>set cs. (z, c) \<notin> (parent_rel ?m)\<^sup>*"
      using g reach_up [of ?m x z] by auto
    with step.IH reach_up [of ?m' x z] show ?case by auto
  qed simp
  have pr: "(p, r) \<in> (parent_rel ?m')\<^sup>*" by (rule keep [OF r(2) assms(2)])
  have child: "(c, r) \<in> (parent_rel ?m')\<^sup>*" if "c \<in> set cs" for c
    using that g reach_up [OF _ pr] by simp
  have reach: "(f, r) \<in> (parent_rel ?m')\<^sup>*" if "(f, r) \<in> (parent_rel ?m)\<^sup>*" for f
    using that
  proof (induction rule: converse_rtrancl_induct)
    case (step x z)
    then show ?case
      using child g reach_up [of ?m' x z r] by (cases "x \<in> set cs") auto
  qed simp
  have origin: "(f, r) \<in> (parent_rel ?m)\<^sup>* \<or> (\<exists>c\<in>set cs. (f, c) \<in> (parent_rel ?m)\<^sup>*)"
    if "(f, r) \<in> (parent_rel ?m')\<^sup>*" for f
    using that
  proof (induction rule: converse_rtrancl_induct)
    case (step x z)
    then show ?case
      using g reach_up [of ?m x z] by (cases "x \<in> set cs") auto
  qed simp
  from g r child reach origin show ?thesis
    by (auto simp: within_iff list_all_iff)
qed


definition ex_scope_state :: root_scope where
  "ex_scope_state = \<lparr> scope_name = ''n'', scope_root = Some ''r'', scope_parentOf = [(''a'', ''r''), (''x'', ''y''), (''y'', ''x'')] \<rparr>"

lemma ex_no_cycle: "(''a'', ''b'') \<notin> (parent_rel (scope_parentOf ex_scope_state))\<^sup>*"
  by (rule closed_unreachable [of "{''a'', ''r''}"]) (auto simp: ex_scope_state_def)

theorem registration_keeps_scope_witness:
  "\<exists>s'. registerChildren ''a'' [''b''] ex_scope_state = (Inr (), s') \<and> isWithinRoot s' ''b''"
proof -
  have a: "isWithinRoot ex_scope_state ''a''"
    by (auto simp: within_iff ex_scope_state_def is_drive_id_def drive_id_char_def is_alnum_def is_lower_def)
  have "registerChildren ''a'' [''b''] ex_scope_state =
      (Inr (), ex_scope_state\<lparr> scope_parentOf := mput ''b'' ''a'' (scope_parentOf ex_scope_state) \<rparr>)"
    by (simp add: registerChildren_def assertWithinRoot_def a is_drive_id_def drive_id_char_def is_alnum_def is_lower_def)
  from registration_keeps_scope [OF this] ex_no_cycle this show ?thesis by auto
qed

section \<open>Relative paths\<close>

lemma relative_path_segments:
  assumes "resolveRelativePath path = Inr segs" "path \<noteq> []"
  shows "join_with ''/'' segs = trim path"
    and "\<And>seg. seg \<in> set segs \<Longrightarrow> seg \<noteq> [] \<and> seg \<noteq> ''.'' \<and> seg \<noteq> ''..'' \<and> CHR ''/'' \<notin> set seg"
  using assms join_split [of "CHR ''/''" "trim path"]
  by (auto simp: resolveRelativePath_def Let_def list_ex_iff split: if_splits dest: split_on_no_delim)

end
