(* ===== verification/CacheWrite.thy ===== *)
theory CacheWrite
  imports JsString
begin

text \<open>
  \<^verbatim>\<open>src/core/atomic-cache-write.ts\<close>: publication of downloaded bytes through a temporary file and a copy
  that refuses to overwrite.  The vault is a map from paths to contents.  Every adapter call is an
  await point: \<open>meddle k\<close> is what other code did to the vault before call \<open>k\<close>, \<open>fails k\<close> whether the
  call is rejected, \<open>stored\<close> and \<open>copied\<close> what a write and a copy that report success really left.
\<close>

section \<open>The vault adapter\<close>

type_synonym vault = "string \<Rightarrow> bytes option"

record cache_env =
  candidate_now :: "nat \<Rightarrow> nat"
  meddle :: "nat \<Rightarrow> vault \<Rightarrow> vault"
  fails :: "nat \<Rightarrow> bool"
  stored :: "bytes \<Rightarrow> bytes"
  copied :: "bytes \<Rightarrow> bytes"

datatype cache_error = NoFileName | RefusingToReplace | AdapterFailed | SizeMismatch | FinalSizeMismatch

type_synonym 'a vault_result = "(cache_error, 'a) result \<times> vault"

definition ad_exists :: "cache_env \<Rightarrow> nat \<Rightarrow> string \<Rightarrow> vault \<Rightarrow> bool vault_result" where
  "ad_exists e k p fs = (let fs' = meddle e k fs in (if fails e k then Inl AdapterFailed else Inr (fs' p \<noteq> None), fs'))"

definition ad_stat :: "cache_env \<Rightarrow> nat \<Rightarrow> string \<Rightarrow> vault \<Rightarrow> nat option vault_result" where
  "ad_stat e k p fs = (let fs' = meddle e k fs
     in (if fails e k then Inl AdapterFailed else Inr (map_option length (fs' p)), fs'))"

definition ad_writeBinary :: "cache_env \<Rightarrow> nat \<Rightarrow> string \<Rightarrow> bytes \<Rightarrow> vault \<Rightarrow> unit vault_result" where
  "ad_writeBinary e k p bs fs = (let fs' = meddle e k fs
     in if fails e k then (Inl AdapterFailed, fs') else (Inr (), fs'(p \<mapsto> stored e bs)))"

definition ad_copy :: "cache_env \<Rightarrow> nat \<Rightarrow> string \<Rightarrow> string \<Rightarrow> vault \<Rightarrow> unit vault_result" where
  "ad_copy e k a b fs = (let fs' = meddle e k fs
     in if fails e k \<or> fs' b \<noteq> None then (Inl AdapterFailed, fs')
        else case fs' a of None \<Rightarrow> (Inl AdapterFailed, fs') | Some bs \<Rightarrow> (Inr (), fs'(b \<mapsto> copied e bs)))"

definition ad_remove :: "cache_env \<Rightarrow> nat \<Rightarrow> string \<Rightarrow> vault \<Rightarrow> unit vault_result" where
  "ad_remove e k p fs = (let fs' = meddle e k fs
     in if fails e k then (Inl AdapterFailed, fs') else (Inr (), fs'(p := None)))"

text \<open>Sequencing: a rejection skips the rest.\<close>

definition and_then :: "'a vault_result \<Rightarrow> ('a \<Rightarrow> vault \<Rightarrow> 'b vault_result) \<Rightarrow> 'b vault_result" where
  "and_then r f = (case r of (Inl e, fs) \<Rightarrow> (Inl e, fs) | (Inr a, fs) \<Rightarrow> f a fs)"

lemma and_then_simps [simp]: "and_then (Inl e, fs) f = (Inl e, fs)" "and_then (Inr a, fs) f = f a fs"
  by (simp_all add: and_then_def)

section \<open>Temporary paths\<close>

definition digit36 :: "nat \<Rightarrow> char" where
  "digit36 n = char_of (if n < 10 then 48 + n else 87 + n)"

fun radix36 :: "nat \<Rightarrow> string" where
  "radix36 n = (if n < 36 then [digit36 n] else radix36 (n div 36) @ [digit36 (n mod 36)])"

declare radix36.simps [simp del]

definition cacheFileName :: "string \<Rightarrow> string" where
  "cacheFileName p = rev (takeWhile (\<lambda>c. c \<noteq> CHR ''/'') (rev p))"

definition cacheDirectory :: "string \<Rightarrow> string option" where
  "cacheDirectory p = (if CHR ''/'' \<notin> set p then None
     else let separator = length p - length (cacheFileName p) - 1
       in if separator = 0 \<or> separator = length p - 1 then None else Some (take separator p))"

definition temporary_path :: "string \<Rightarrow> string \<Rightarrow> nat \<Rightarrow> nat \<Rightarrow> string" where
  "temporary_path directory fileName nowMs sequence_no =
     directory @ ''/.'' @ fileName @ ''.download-'' @ radix36 nowMs @ ''-'' @ radix36 sequence_no @ ''.tmp''"

text \<open>The loop of \<^verbatim>\<open>uniqueTemporaryPath\<close>, with the module's sequence number threaded through.\<close>

partial_function (option) unique_temporary :: "(nat \<Rightarrow> nat) \<Rightarrow> string \<Rightarrow> string \<Rightarrow> vault \<Rightarrow> nat \<Rightarrow> (string \<times> nat) option" where
  "unique_temporary now d f fs sequence_no =
    (let p = temporary_path d f (now (Suc sequence_no)) (Suc sequence_no)
     in if fs p \<noteq> None then unique_temporary now d f fs (Suc sequence_no) else Some (p, Suc sequence_no))"

section \<open>Publication\<close>

definition publish_temporary :: "cache_env \<Rightarrow> string \<Rightarrow> string \<Rightarrow> bytes \<Rightarrow> vault \<Rightarrow> unit vault_result" where
  "publish_temporary e p final bs fs =
    and_then (ad_writeBinary e 1 p bs fs) (\<lambda>_ fs1.
    and_then (ad_stat e 2 p fs1) (\<lambda>n fs2.
    if n \<noteq> Some (length bs) then (Inl SizeMismatch, fs2) else
    and_then (ad_exists e 3 final fs2) (\<lambda>there fs3.
    if there then (Inl RefusingToReplace, fs3) else
    and_then (ad_copy e 4 p final fs3) (\<lambda>_ fs4.
    and_then (ad_stat e 5 final fs4) (\<lambda>m fs5.
    if m \<noteq> Some (length bs) then (Inl FinalSizeMismatch, fs5) else
    ad_remove e 6 p fs5)))))"

definition publishCacheFile :: "cache_env \<Rightarrow> string \<Rightarrow> bytes \<Rightarrow> nat \<Rightarrow> vault \<Rightarrow> (unit vault_result \<times> nat) option" where
  "publishCacheFile e final bs sequence_no fs =
    (case ad_exists e 0 final fs of (Inl er, fs0) \<Rightarrow> Some ((Inl er, fs0), sequence_no)
     | (Inr True, fs0) \<Rightarrow> Some ((Inl RefusingToReplace, fs0), sequence_no)
     | (Inr False, fs0) \<Rightarrow>
       (case cacheDirectory final of None \<Rightarrow> Some ((Inl NoFileName, fs0), sequence_no)
        | Some d \<Rightarrow> Option.bind (unique_temporary (candidate_now e) d (cacheFileName final) fs0 sequence_no) (\<lambda>(p, n).
            Some (case publish_temporary e p final bs fs0 of
              (Inr _, fs') \<Rightarrow> ((Inr (), fs'), n)
            | (Inl er, fs') \<Rightarrow> ((Inl er, snd (ad_remove e 7 p fs')), n)))))"

section \<open>The search for a temporary name ends\<close>

definition value36 :: "char \<Rightarrow> nat" where
  "value36 c = (if code c < 58 then code c - 48 else code c - 87)"

lemma value36_digit: "n < 36 \<Longrightarrow> value36 (digit36 n) = n"
  by (simp add: value36_def digit36_def code_char_of)

lemma read_radix36: "foldl (\<lambda>a c. 36 * a + value36 c) 0 (radix36 n) = n"
proof (induction n rule: radix36.induct)
  case (1 n)
  then show ?case by (subst radix36.simps) (simp add: value36_digit)
qed

lemma radix36_inject: "radix36 m = radix36 n \<Longrightarrow> m = n"
  by (metis read_radix36)

lemma digit36_not_dash: "n < 36 \<Longrightarrow> digit36 n \<noteq> CHR ''-''"
proof
  assume n: "n < 36" "digit36 n = CHR ''-''"
  from n(1) have "code (digit36 n) = (if n < 10 then 48 + n else 87 + n)" by (simp add: digit36_def code_char_of)
  with n(2) show False by (simp split: if_splits)
qed

lemma radix36_no_dash: "CHR ''-'' \<notin> set (radix36 n)"
proof (induction n rule: radix36.induct)
  case (1 n)
  with digit36_not_dash [of "n mod 36"] digit36_not_dash [of n] show ?case
    by (subst radix36.simps) auto
qed

lemma last_part_inject:
  assumes "x @ c # y = x' @ c # y'" "c \<notin> set y" "c \<notin> set y'"
  shows "y = y'"
proof -
  have t: "takeWhile (\<lambda>d. d \<noteq> c) (rev (x @ c # y)) = rev y" if "c \<notin> set y" for x y
  proof -
    from that have "\<And>d. d \<in> set (rev y) \<Longrightarrow> d \<noteq> c" by auto
    then show ?thesis using takeWhile_append2 [of "rev y" "\<lambda>d. d \<noteq> c"] by simp
  qed
  from t [OF assms(2), of x] t [OF assms(3), of x'] assms(1) show ?thesis by simp
qed

lemma temporary_path_inject: "temporary_path d f t m = temporary_path d f t' n \<Longrightarrow> m = n"
proof -
  assume "temporary_path d f t m = temporary_path d f t' n"
  then have "(''.download'' @ CHR ''-'' # radix36 t) @ CHR ''-'' # radix36 m @ ''.tmp''
      = (''.download'' @ CHR ''-'' # radix36 t') @ CHR ''-'' # radix36 n @ ''.tmp''"
    by (simp add: temporary_path_def)
  then have "radix36 m @ ''.tmp'' = radix36 n @ ''.tmp''"
    by (rule last_part_inject) (simp_all add: radix36_no_dash)
  then show ?thesis using radix36_inject by simp
qed

lemma unique_temporary_skip:
  "(\<forall>i<k. fs (temporary_path d f (now (Suc (n + i))) (Suc (n + i))) \<noteq> None) \<Longrightarrow>
     unique_temporary now d f fs n = unique_temporary now d f fs (n + k)"
proof (induction k)
  case (Suc k)
  then have "unique_temporary now d f fs n = unique_temporary now d f fs (n + k)" by simp
  also have "\<dots> = unique_temporary now d f fs (Suc (n + k))"
    using Suc.prems by (subst unique_temporary.simps) (auto simp: Let_def)
  finally show ?case by simp
qed simp

lemma temporary_name_exists:
  assumes "finite (dom fs)"
  shows "\<exists>p n'. unique_temporary now d f fs n = Some (p, n') \<and> fs p = None \<and> n < n'
    \<and> (\<exists>t. p = temporary_path d f t n')"
proof -
  let ?path = "\<lambda>i. temporary_path d f (now (Suc (n + i))) (Suc (n + i))"
  have "inj ?path" by (rule injI) (auto dest: temporary_path_inject)
  then have "infinite (range ?path)" by (simp add: finite_image_iff)
  then have "\<not> range ?path \<subseteq> dom fs" using assms finite_subset by blast
  then have ex: "\<exists>k. fs (?path k) = None" by (auto simp: dom_def)
  define k where "k = (LEAST k. fs (?path k) = None)"
  have k: "fs (?path k) = None" unfolding k_def by (rule LeastI_ex [OF ex])
  have "\<forall>i<k. fs (?path i) \<noteq> None" unfolding k_def by (blast dest: not_less_Least)
  then have "unique_temporary now d f fs n = unique_temporary now d f fs (n + k)" by (rule unique_temporary_skip)
  also have "\<dots> = Some (?path k, Suc (n + k))"
    using k by (subst unique_temporary.simps) (simp add: Let_def)
  finally show ?thesis using k by (intro exI [of _ "?path k"] exI [of _ "Suc (n + k)"]) auto
qed

text \<open>
  The search for a temporary name ends.  The loop asks until a name is free; in a vault with
  finitely many files it returns, whatever the clock says between the attempts, with a name in the
  directory of the destination that is not taken, and the sequence number has grown.
\<close>
theorem temporary_name_found:
  assumes "finite (dom fs)"
  shows "\<exists>p n'. unique_temporary now d f fs n = Some (p, n') \<and> fs p = None \<and> n < n'
    \<and> (\<exists>t. p = temporary_path d f t n')"
  by (rule temporary_name_exists [OF assms])

theorem temporary_name_found_witness:
  "\<exists>p n'. unique_temporary (\<lambda>_. 7) ''d'' ''f'' (Map.empty (''x'' \<mapsto> [])) 0 = Some (p, n') \<and> 0 < n'"
  using temporary_name_found [of "Map.empty (''x'' \<mapsto> [])" "\<lambda>_. 7" "''d''" "''f''" 0] by auto

section \<open>What publication does\<close>

text \<open>An environment in which every call works and nobody else touches the vault.\<close>

definition calm :: "cache_env \<Rightarrow> bool" where
  "calm e \<longleftrightarrow> meddle e = (\<lambda>_ fs. fs) \<and> fails e = (\<lambda>_. False) \<and> stored e = (\<lambda>bs. bs) \<and> copied e = (\<lambda>bs. bs)"

lemma publish_calm:
  assumes "calm e" "fs p = None" "fs final = None" "p \<noteq> final"
  shows "publish_temporary e p final bs fs = (Inr (), fs(final \<mapsto> bs))"
proof -
  from assms(1) have e: "meddle e = (\<lambda>_ fs. fs)" "fails e = (\<lambda>_. False)" "stored e = (\<lambda>bs. bs)" "copied e = (\<lambda>bs. bs)"
    by (simp_all add: calm_def)
  have "(fs(p \<mapsto> bs, final \<mapsto> bs))(p := None) = fs(final \<mapsto> bs)" using assms(2,4) by auto
  with assms(3,4) show ?thesis
    by (simp add: publish_temporary_def ad_writeBinary_def ad_stat_def ad_exists_def ad_copy_def ad_remove_def e Let_def)
qed

lemma dirs_of_path: "cacheDirectory final = Some d \<Longrightarrow> final = d @ CHR ''/'' # cacheFileName final"
proof -
  assume c: "cacheDirectory final = Some d"
  let ?r = "rev final" and ?P = "\<lambda>c. c \<noteq> CHR ''/''"
  from c have slash: "CHR ''/'' \<in> set final" by (auto simp: cacheDirectory_def split: if_splits)
  then obtain rest where rest: "dropWhile ?P ?r = CHR ''/'' # rest"
    by (cases "dropWhile ?P ?r") (auto dest: dropWhile_eq_Nil_conv [THEN iffD1] dest!: dropWhile_eq_Cons_conv [THEN iffD1])
  then have r: "final = rev rest @ CHR ''/'' # cacheFileName final"
    using takeWhile_dropWhile_id [of ?P ?r] unfolding cacheFileName_def
    by (metis append_Cons append_Nil append_assoc rev.simps(2) rev_append rev_rev_ident)
  then have "take (length final - length (cacheFileName final) - 1) final = rev rest"
    by (metis add_diff_cancel_right' append_eq_conv_conj diff_diff_left length_Cons length_append plus_1_eq_Suc add.commute)
  with c r show ?thesis by (auto simp: cacheDirectory_def Let_def split: if_splits)
qed


lemma temporary_not_final: "cacheDirectory final = Some d \<Longrightarrow> temporary_path d (cacheFileName final) t n \<noteq> final"
proof
  assume "cacheDirectory final = Some d" "temporary_path d (cacheFileName final) t n = final"
  then have "temporary_path d (cacheFileName final) t n = d @ CHR ''/'' # cacheFileName final"
    using dirs_of_path by metis
  then have "length (temporary_path d (cacheFileName final) t n) = length (d @ CHR ''/'' # cacheFileName final)" by metis
  then show False by (simp add: temporary_path_def)
qed

text \<open>
  C39: in a vault nobody else touches and whose calls work, publication is all or nothing.  A free
  destination with a directory and a file name ends up holding exactly the downloaded bytes and
  nothing else changed, the temporary file included; a taken destination is refused and the vault is
  left as it was.
\<close>
theorem publication_all_or_nothing:
  assumes "calm e" "finite (dom fs)"
  shows "\<exists>n'. publishCacheFile e final bs n fs = Some
    ((if fs final \<noteq> None then (Inl RefusingToReplace, fs)
      else if cacheDirectory final = None then (Inl NoFileName, fs)
      else (Inr (), fs(final \<mapsto> bs))), n')"
proof (cases "fs final = None \<and> cacheDirectory final \<noteq> None")
  case True
  then obtain d where d: "cacheDirectory final = Some d" "fs final = None" by auto
  obtain p n' t where u: "unique_temporary (candidate_now e) d (cacheFileName final) fs n = Some (p, n')" "fs p = None"
    "p = temporary_path d (cacheFileName final) t n'"
    using temporary_name_exists [OF assms(2)] by metis
  have "publish_temporary e p final bs fs = (Inr (), fs(final \<mapsto> bs))"
    using publish_calm [OF assms(1) u(2) d(2)] temporary_not_final [OF d(1)] u(3) by simp
  with assms(1) d u(1) show ?thesis by (simp add: publishCacheFile_def ad_exists_def calm_def)
qed (use assms(1) in \<open>auto simp: publishCacheFile_def ad_exists_def calm_def\<close>)

text \<open>Another writer creates the destination just before call \<open>j\<close>, and leaves it alone otherwise.\<close>

definition created_at :: "cache_env \<Rightarrow> string \<Rightarrow> nat \<Rightarrow> bytes \<Rightarrow> bool" where
  "created_at e final j c \<longleftrightarrow> (\<forall>k fs. meddle e k fs final = (if k = j then Some c else fs final))"

lemma calls_at_final:
  assumes "created_at e final j c" "p \<noteq> final"
  shows "snd (ad_exists e k q fs) final = (if k = j then Some c else fs final)"
    "snd (ad_stat e k q fs) final = (if k = j then Some c else fs final)"
    "snd (ad_writeBinary e k p bs fs) final = (if k = j then Some c else fs final)"
    "snd (ad_remove e k p fs) final = (if k = j then Some c else fs final)"
  using assms by (simp_all add: created_at_def ad_exists_def ad_stat_def ad_writeBinary_def ad_remove_def Let_def)

lemma copy_refused:
  assumes "created_at e final j c" "fs final = Some c \<or> j = k"
  shows "\<exists>er. ad_copy e k p final fs = (Inl er, meddle e k fs) \<and> meddle e k fs final = Some c"
  using assms by (auto simp: created_at_def ad_copy_def Let_def)

lemma exists_reports: "ad_exists e k q fs = (Inr b, fs') \<Longrightarrow> b \<longleftrightarrow> fs' q \<noteq> None"
  by (auto simp: ad_exists_def Let_def split: if_splits)

lemma publish_temporary_raced:
  assumes "created_at e final j c" "j \<in> {1, 2, 3, 4}" "p \<noteq> final" "fs final = None"
  shows "\<not> is_ok (fst (publish_temporary e p final bs fs))
    \<and> snd (publish_temporary e p final bs fs) final \<in> {None, Some c}"
proof -
  obtain r1 fs1 where w: "ad_writeBinary e 1 p bs fs = (r1, fs1)" by fastforce
  obtain r2 fs2 where t: "ad_stat e 2 p fs1 = (r2, fs2)" by fastforce
  obtain r3 fs3 where x: "ad_exists e 3 final fs2 = (r3, fs3)" by fastforce
  note c = calls_at_final [OF assms(1,3)]
  have v1: "fs1 final = (if j = 1 then Some c else None)" using c(3) [of 1 bs fs] w assms(4) by auto
  have v2: "fs2 final = (if j \<le> 2 then Some c else None)" using c(2) [of 2 p fs1] t v1 assms(2) by auto
  have v3: "fs3 final = (if j \<le> 3 then Some c else None)" using c(1) [of 3 final fs2] x v2 assms(2) by auto
  show ?thesis
  proof (cases "is_ok r1 \<and> r2 = Inr (Some (length bs)) \<and> r3 = Inr False")
    case False
    have "\<And>b. r3 = Inr b \<Longrightarrow> b \<longleftrightarrow> fs3 final \<noteq> None" using exists_reports x by blast
    with False w t x v1 v2 v3 show ?thesis
      by (cases r1; cases r2; cases r3) (auto simp: publish_temporary_def and_then_def)
  next
    case True
    then have "j = 4" using exists_reports [of e 3 final fs2 False fs3] x v3 assms(2) by (auto split: if_splits)
    then obtain er where "ad_copy e 4 p final fs3 = (Inl er, meddle e 4 fs3)" "meddle e 4 fs3 final = Some c"
      using copy_refused [OF assms(1), of fs3 4] by blast
    with True w t x show ?thesis by (cases r1) (simp_all add: publish_temporary_def)
  qed
qed

text \<open>
  A destination is never overwritten.  If another writer creates the destination at any await
  point before the copy is made, then, whichever calls fail and whatever they left behind, the
  publication reports an error, and the destination holds the other writer's bytes or, when the
  publication had already given up, still nothing.
\<close>
theorem destination_never_clobbered:
  assumes "created_at e final j c" "j \<le> 4" "fs final = None" "finite (dom (meddle e 0 fs))"
  shows "\<exists>r fs' n'. publishCacheFile e final bs n fs = Some ((r, fs'), n') \<and> \<not> is_ok r \<and> fs' final \<in> {None, Some c}"
proof -
  obtain r0 fs0 where x: "ad_exists e 0 final fs = (r0, fs0)" by fastforce
  have fs0: "fs0 = meddle e 0 fs" using x by (auto simp: ad_exists_def Let_def)
  have v0: "fs0 final = (if j = 0 then Some c else None)" using assms(1,3) fs0 by (auto simp: created_at_def)
  show ?thesis
  proof (cases "r0 = Inr False \<and> cacheDirectory final \<noteq> None")
    case False
    have "\<And>b. r0 = Inr b \<Longrightarrow> b \<longleftrightarrow> fs0 final \<noteq> None" using exists_reports x by blast
    with False x v0 show ?thesis
      by (cases r0) (auto simp: publishCacheFile_def split: option.splits)
  next
    case True
    then obtain d where d: "cacheDirectory final = Some d" "r0 = Inr False" by auto
    then have "j \<noteq> 0" "fs0 final = None" using exists_reports [of e 0 final fs False fs0] x v0 by (auto split: if_splits)
    with assms(2) have j: "j \<in> {1, 2, 3, 4}" by auto
    obtain p n' t where u: "unique_temporary (candidate_now e) d (cacheFileName final) fs0 n = Some (p, n')"
      "p = temporary_path d (cacheFileName final) t n'"
      using temporary_name_exists assms(4) fs0 by metis
    have p: "p \<noteq> final" using temporary_not_final [OF d(1)] u(2) by simp
    obtain er fs1 where pt: "publish_temporary e p final bs fs0 = (Inl er, fs1)" "fs1 final \<in> {None, Some c}"
      using publish_temporary_raced [of e final j c p fs0 bs] assms(1) j p \<open>fs0 final = None\<close>
      by (cases "publish_temporary e p final bs fs0"; cases "fst (publish_temporary e p final bs fs0)") auto
    have "snd (ad_remove e 7 p fs1) final = fs1 final" using calls_at_final(4) [OF assms(1) p, of 7 fs1] assms(2) by simp
    with pt x d u(1) show ?thesis by (simp add: publishCacheFile_def)
  qed
qed

text \<open>
  The copy that reports success but left other bytes: the destination keeps them, and every later
  publication to it is refused.
\<close>

lemma publish_temporary_truncated:
  assumes "meddle e = (\<lambda>_ fs. fs)" "fails e = (\<lambda>_. False)" "stored e = (\<lambda>bs. bs)" "length (copied e bs) \<noteq> length bs"
    and "fs final = None" "p \<noteq> final"
  shows "publish_temporary e p final bs fs = (Inl FinalSizeMismatch, fs(p \<mapsto> bs, final \<mapsto> copied e bs))"
  using assms(4-6)
  by (simp add: publish_temporary_def ad_writeBinary_def ad_stat_def ad_exists_def ad_copy_def ad_remove_def assms(1-3) Let_def)

text \<open>
  A damaged copy blocks its destination for good.  When the copy leaves a file of another length,
  publication reports it and removes the temporary file but not the damaged destination, so every
  later attempt, even one whose calls all work, is refused because the destination exists.
\<close>
theorem damaged_copy_blocks_retry:
  assumes "meddle e = (\<lambda>_ fs. fs)" "fails e = (\<lambda>_. False)" "stored e = (\<lambda>bs. bs)" "length (copied e bs) \<noteq> length bs"
    and "fs final = None" "cacheDirectory final = Some d" "finite (dom fs)" "calm e'"
  shows "\<exists>fs' n'. publishCacheFile e final bs n fs = Some ((Inl FinalSizeMismatch, fs'), n') \<and> fs' final = Some (copied e bs)
    \<and> publishCacheFile e' final bs' n' fs' = Some ((Inl RefusingToReplace, fs'), n')"
proof -
  obtain p n' t where u: "unique_temporary (candidate_now e) d (cacheFileName final) fs n = Some (p, n')"
    "p = temporary_path d (cacheFileName final) t n'"
    using temporary_name_exists [OF assms(7)] by metis
  have p: "p \<noteq> final" using temporary_not_final [OF assms(6)] u(2) by simp
  let ?fs' = "(fs(p \<mapsto> bs, final \<mapsto> copied e bs))(p := None)"
  have "publishCacheFile e final bs n fs = Some ((Inl FinalSizeMismatch, ?fs'), n')"
    using publish_temporary_truncated [of e bs fs final p] p u(1) assms(1-6)
    by (simp add: publishCacheFile_def ad_exists_def ad_remove_def)
  moreover have "?fs' final = Some (copied e bs)" using p by simp
  moreover have "publishCacheFile e' final bs' n' ?fs' = Some ((Inl RefusingToReplace, ?fs'), n')"
    using assms(8) p by (simp add: publishCacheFile_def ad_exists_def calm_def)
  ultimately show ?thesis by blast
qed

definition ex_calm :: cache_env where
  "ex_calm = \<lparr> candidate_now = (\<lambda>_. 7), meddle = (\<lambda>_ fs. fs), fails = (\<lambda>_. False), stored = (\<lambda>bs. bs), copied = (\<lambda>bs. bs) \<rparr>"

lemma ex_calm: "calm ex_calm"
  by (simp add: calm_def ex_calm_def)

lemma ex_directory: "cacheDirectory ''d/f'' = Some ''d''"
  by code_simp

theorem publication_all_or_nothing_witness:
  "\<exists>n'. publishCacheFile ex_calm ''d/f'' [1, 2] 0 Map.empty = Some ((Inr (), [''d/f'' \<mapsto> [1, 2]]), n')"
  using publication_all_or_nothing [OF ex_calm, of Map.empty "''d/f''" "[1, 2]" 0] by (simp add: ex_directory)

theorem destination_never_clobbered_witness:
  "\<exists>r fs' n'. publishCacheFile (ex_calm\<lparr> meddle := (\<lambda>k fs. if k = 4 then fs(''d/f'' \<mapsto> [9]) else fs) \<rparr>) ''d/f'' [1, 2] 0 Map.empty
     = Some ((r, fs'), n') \<and> \<not> is_ok r \<and> fs' ''d/f'' \<in> {None, Some [9]}"
  by (rule destination_never_clobbered [where j = 4 and c = "[9]"]) (simp_all add: created_at_def ex_calm_def)

theorem damaged_copy_blocks_retry_witness:
  "\<exists>fs' n'. publishCacheFile (ex_calm\<lparr> copied := (\<lambda>bs. []) \<rparr>) ''d/f'' [1, 2] 0 Map.empty = Some ((Inl FinalSizeMismatch, fs'), n')
     \<and> fs' ''d/f'' = Some [] \<and> publishCacheFile ex_calm ''d/f'' [1, 2] n' fs' = Some ((Inl RefusingToReplace, fs'), n')"
  using damaged_copy_blocks_retry [of "ex_calm\<lparr> copied := (\<lambda>bs. []) \<rparr>" "[1, 2]" Map.empty "''d/f''" "''d''" ex_calm 0 "[1, 2]"]
  by (simp add: ex_calm ex_directory) (simp add: ex_calm_def)

end
