(* ===== verification/MobilePairing.thy ===== *)
theory MobilePairing
  imports JsonText
begin

text \<open>
  \<^verbatim>\<open>src/auth/mobile-pairing.ts\<close>: the broker address the plugin accepts and the local pairing challenge.
  The host's URL parser is an argument and yields the parts the code reads.
\<close>

record parsed_url =
  pu_protocol :: string
  pu_username :: string
  pu_password :: string
  pu_pathname :: string
  pu_search :: string
  pu_hash :: string
  pu_origin :: string

datatype url_error = UrlInvalid | UrlNotHttps | UrlCredentials | UrlNotOrigin | UrlQuery | UrlTraversal

definition validateBrokerUrl :: "(string \<Rightarrow> parsed_url option) \<Rightarrow> string \<Rightarrow> (url_error, string) result" where
  "validateBrokerUrl U v = (case U v of None \<Rightarrow> Inl UrlInvalid
     | Some u \<Rightarrow> if pu_protocol u \<noteq> ''https:'' then Inl UrlNotHttps
       else if pu_username u \<noteq> [] \<or> pu_password u \<noteq> [] then Inl UrlCredentials
       else if pu_pathname u \<noteq> ''/'' \<or> pu_search u \<noteq> [] \<or> pu_hash u \<noteq> [] then Inl UrlNotOrigin
       else Inr (pu_origin u))"

definition is_hex_any :: "char \<Rightarrow> bool" where
  "is_hex_any c \<longleftrightarrow> hex_value c \<noteq> None"

definition validatePairId :: "string \<Rightarrow> string option" where
  "validatePairId s = (if length s = 64 \<and> list_all is_hex_any s then Some s else None)"

text \<open>
  The raw path of \<^verbatim>\<open>/^[a-z][a-z0-9+.-]*:\/\/[^/?#]*(\/[^?#]*)?/i\<close>, and the slash when the address has
  none or does not match.
\<close>

definition scheme_char :: "char \<Rightarrow> bool" where
  "scheme_char c \<longleftrightarrow> is_alnum c \<or> c \<in> set ''+.-''"

definition after_authority :: "string \<Rightarrow> string option" where
  "after_authority s = (case s of [] \<Rightarrow> None
     | c # cs \<Rightarrow> if \<not> (is_upper c \<or> is_lower c) then None
       else let rest = dropWhile scheme_char cs
         in if starts_with rest ''://'' then Some (dropWhile (\<lambda>d. d \<notin> set ''/?#'') (drop 3 rest)) else None)"

definition raw_path :: "string \<Rightarrow> string" where
  "raw_path s = (case after_authority s of Some (c # cs) \<Rightarrow>
       if c = CHR ''/'' then takeWhile (\<lambda>d. d \<notin> set ''?#'') (c # cs) else ''/''
     | _ \<Rightarrow> ''/'')"

text \<open>
  \<^verbatim>\<open>decodeURIComponent\<close> as far as the dot test needs it: escapes of ASCII characters are decoded; an
  escape outside ASCII is either decoded to a character that is no dot or throws, and then the raw
  segment, which contains a percent sign, is used.  Both ways the segment is no dot segment, and
  \<open>None\<close> stands for both.
\<close>

fun decode_ascii :: "string \<Rightarrow> string option" where
  "decode_ascii [] = Some []"
| "decode_ascii (c # cs) = (if c \<noteq> CHR ''%'' then map_option ((#) c) (decode_ascii cs)
     else case cs of a # b # rest \<Rightarrow> (case (hex_value a, hex_value b) of
         (Some x, Some y) \<Rightarrow> if 16 * x + y < 128 then map_option ((#) (char_of (16 * x + y))) (decode_ascii rest) else None
       | _ \<Rightarrow> None)
     | _ \<Rightarrow> None)"

definition is_dot_segment :: "string \<Rightarrow> bool" where
  "is_dot_segment s \<longleftrightarrow> decode_ascii s \<in> {Some ''.'', Some ''..''}"

definition strip_slashes :: "string \<Rightarrow> string" where
  "strip_slashes s = rev (dropWhile (\<lambda>c. c = CHR ''/'') (rev s))"

definition validateBrokerBaseUrl :: "(string \<Rightarrow> parsed_url option) \<Rightarrow> string \<Rightarrow> (url_error, string) result" where
  "validateBrokerBaseUrl U v = (case U v of None \<Rightarrow> Inl UrlInvalid
     | Some u \<Rightarrow> if pu_protocol u \<noteq> ''https:'' then Inl UrlNotHttps
       else if pu_username u \<noteq> [] \<or> pu_password u \<noteq> [] then Inl UrlCredentials
       else if pu_search u \<noteq> [] \<or> pu_hash u \<noteq> [] then Inl UrlQuery
       else if list_ex is_dot_segment (split_on (CHR ''/'') (raw_path v)) then Inl UrlTraversal
       else Inr (pu_origin u @ strip_slashes (pu_pathname u)))"

definition validateDevicePublicKey :: "string \<Rightarrow> string option" where
  "validateDevicePublicKey s = (if length s \<ge> 43 \<and> list_all (\<lambda>c. is_alnum c \<or> c = CHR ''_'' \<or> c = CHR ''-'') s
     then Some s else None)"

record pairing_challenge =
  challenge_pairId :: string
  challenge_key :: string
  challenge_expiresAtMs :: int

datatype challenge_error = BadPairId | BadDevicePublicKey | BadPairingExpiry

definition createPairingChallenge :: "string \<Rightarrow> string \<Rightarrow> number \<Rightarrow> number \<Rightarrow> (challenge_error, pairing_challenge) result" where
  "createPairingChallenge pairId key nowMs ttlMs = (case validatePairId pairId of None \<Rightarrow> Inl BadPairId
     | Some p \<Rightarrow> (case validateDevicePublicKey key of None \<Rightarrow> Inl BadDevicePublicKey
       | Some k \<Rightarrow> (case (as_int nowMs, as_int ttlMs) of
           (Some t, Some d) \<Rightarrow> if d \<le> 0 \<or> d > 10 * 60000 then Inl BadPairingExpiry
             else Inr \<lparr> challenge_pairId = p, challenge_key = k, challenge_expiresAtMs = t + d \<rparr>
         | _ \<Rightarrow> Inl BadPairingExpiry)))"

definition isClaimablePairing :: "pairing_challenge \<Rightarrow> string \<Rightarrow> string \<Rightarrow> int \<Rightarrow> bool" where
  "isClaimablePairing c pairId key nowMs \<longleftrightarrow> nowMs < challenge_expiresAtMs c
     \<and> pairId = challenge_pairId c \<and> key = challenge_key c"

lemma decode_ascii_plain: "CHR ''%'' \<notin> set s \<Longrightarrow> decode_ascii s = Some s"
  by (induction s) auto

text \<open>An accepted address has no dot segment in its raw path, plain or percent-encoded.\<close>

lemma base_url_segments:
  assumes "validateBrokerBaseUrl U v = Inr base" "seg \<in> set (split_on (CHR ''/'') (raw_path v))"
  shows "seg \<noteq> ''.''" "seg \<noteq> ''..''" "decode_ascii seg \<noteq> Some ''..''"
proof -
  from assms have "\<not> is_dot_segment seg"
    by (auto simp: validateBrokerBaseUrl_def list_ex_iff split: option.splits if_splits)
  then show "seg \<noteq> ''.''" "seg \<noteq> ''..''" "decode_ascii seg \<noteq> Some ''..''"
    by (auto simp: is_dot_segment_def)
qed

end
