(* ===== verification/BrokerClient.thy ===== *)
theory BrokerClient
  imports MobilePairing LeaseSealer
begin

text \<open>
  \<^verbatim>\<open>src/auth/broker-client.ts\<close>: the plugin's client of the broker.  The transport is an argument: it
  yields a status and the parsed body, if there is one, or fails.
\<close>

datatype client_code = EnrollmentRequired | NotAuthorizedYet | ClientRevoked | ClientExpired | NotEnrolled
  | UnexpectedStatus | InvalidResponse | TransportFailed

record broker_error =
  err_code :: client_code
  err_status :: "int option"

record client_request =
  cr_url :: string
  cr_headers :: "(string \<times> string) list"
  cr_body :: string

type_synonym client_transport = "client_request \<Rightarrow> (int \<times> jsval) option"

record pair_result =
  pr_pairId :: string
  pr_oauthState :: string
  pr_proofMessage :: string
  pr_expiresAtMs :: rat
  pr_authorizationUrl :: string

record nonce_result =
  nr_nonce :: string
  nr_expiresAtMs :: rat

record lease_result =
  lr_sealedLease :: jsval
  lr_expiresAtMs :: rat

definition PAIR_ERROR_CODES :: "(int \<times> client_code) list" where
  "PAIR_ERROR_CODES = [(403, EnrollmentRequired)]"
definition CLAIM_ERROR_CODES :: "(int \<times> client_code) list" where
  "CLAIM_ERROR_CODES = [(409, NotAuthorizedYet), (403, ClientRevoked), (410, ClientExpired)]"
definition LEASE_ERROR_CODES :: "(int \<times> client_code) list" where
  "LEASE_ERROR_CODES = [(409, NotAuthorizedYet), (403, ClientRevoked), (410, ClientExpired)]"
definition NONCE_ERROR_CODES :: "(int \<times> client_code) list" where
  "NONCE_ERROR_CODES = [(403, ClientRevoked), (410, ClientExpired)]"

definition invalid_response :: broker_error where
  "invalid_response = \<lparr> err_code = InvalidResponse, err_status = None \<rparr>"

definition requireString :: "(string \<times> jsval) list \<Rightarrow> string \<Rightarrow> (broker_error, string) result" where
  "requireString r k = (case as_nonempty_string (field r k) of None \<Rightarrow> Inl invalid_response | Some s \<Rightarrow> Inr s)"

definition requireNumber :: "(string \<times> jsval) list \<Rightarrow> string \<Rightarrow> (broker_error, rat) result" where
  "requireNumber r k = (case as_finite (field r k) of None \<Rightarrow> Inl invalid_response | Some x \<Rightarrow> Inr x)"

definition asRecord :: "jsval \<Rightarrow> (broker_error, (string \<times> jsval) list) result" where
  "asRecord v = (case plain_object v of None \<Rightarrow> Inl invalid_response | Some r \<Rightarrow> Inr r)"

definition FORBIDDEN_URL_MATERIAL :: "string list" where
  "FORBIDDEN_URL_MATERIAL = [''access_token'', ''refresh_token'', ''client_secret'', ''code='']"

definition requireAuthorizationUrl :: "(string \<Rightarrow> parsed_url option) \<Rightarrow> string \<Rightarrow> (broker_error, string) result" where
  "requireAuthorizationUrl U v = (case U v of None \<Rightarrow> Inl invalid_response
     | Some u \<Rightarrow> if pu_protocol u \<noteq> ''https:'' then Inl invalid_response
       else if list_ex (str_includes (lower v)) FORBIDDEN_URL_MATERIAL then Inl invalid_response
       else Inr v)"

text \<open>The envelope is rebuilt from its five fields.\<close>

definition parseSealedLease :: "jsval \<Rightarrow> (broker_error, jsval) result" where
  "parseSealedLease v =
    bind_result (case as_string v of None \<Rightarrow> Inr v
      | Some s \<Rightarrow> (case json_parse s of None \<Rightarrow> Inl invalid_response | Some c \<Rightarrow> Inr c)) (\<lambda>candidate.
    bind_result (asRecord candidate) (\<lambda>r.
    bind_result (requireNumber r ''v'') (\<lambda>n.
    bind_result (requireString r ''epk'') (\<lambda>epk.
    bind_result (requireString r ''salt'') (\<lambda>salt.
    bind_result (requireString r ''nonce'') (\<lambda>nonce.
    bind_result (requireString r ''ct'') (\<lambda>ct.
      if n \<noteq> 1 then Inl invalid_response
      else Inr (Obj [(''v'', Num (Fin n)), (''epk'', Str epk), (''salt'', Str salt), (''nonce'', Str nonce), (''ct'', Str ct)]))))))))"

definition client_post :: "string \<Rightarrow> client_transport \<Rightarrow> string \<Rightarrow> (string \<times> jsval) list \<Rightarrow> (int \<times> client_code) list \<Rightarrow>
    (broker_error, (string \<times> jsval) list) result" where
  "client_post baseUrl request path body errorCodes =
    (case request \<lparr> cr_url = baseUrl @ ''/oauth/'' @ path, cr_headers = [(''Content-Type'', ''application/json'')],
        cr_body = json_text (Obj body) \<rparr> of
       None \<Rightarrow> Inl \<lparr> err_code = TransportFailed, err_status = None \<rparr>
     | Some (status, json) \<Rightarrow> (case map_of errorCodes status of
         Some c \<Rightarrow> Inl \<lparr> err_code = c, err_status = Some status \<rparr>
       | None \<Rightarrow> if status < 200 \<or> status \<ge> 300 then Inl \<lparr> err_code = UnexpectedStatus, err_status = Some status \<rparr>
           else asRecord json))"

definition client_pair :: "(string \<Rightarrow> parsed_url option) \<Rightarrow> string \<Rightarrow> client_transport \<Rightarrow> string \<Rightarrow> string \<Rightarrow> string \<Rightarrow>
    (broker_error, pair_result) result" where
  "client_pair U baseUrl request enrollmentCode signPem encPem =
    bind_result (client_post baseUrl request ''pair'' [(''enrollmentCode'', Str enrollmentCode),
      (''devicePublicKeyPem'', Str signPem), (''deviceEncryptionPublicKeyPem'', Str encPem)] PAIR_ERROR_CODES) (\<lambda>body.
    bind_result (requireString body ''pairId'') (\<lambda>p.
    bind_result (requireString body ''oauthState'') (\<lambda>st.
    bind_result (requireString body ''proofMessage'') (\<lambda>m.
    bind_result (requireNumber body ''expiresAtMs'') (\<lambda>x.
    bind_result (bind_result (requireString body ''authorizationUrl'') (requireAuthorizationUrl U)) (\<lambda>u.
      Inr \<lparr> pr_pairId = p, pr_oauthState = st, pr_proofMessage = m, pr_expiresAtMs = x, pr_authorizationUrl = u \<rparr>))))))"

definition read_lease :: "(string \<times> jsval) list \<Rightarrow> (broker_error, lease_result) result" where
  "read_lease body =
    bind_result (parseSealedLease (field body ''sealedLease'')) (\<lambda>l.
    bind_result (requireNumber body ''expiresAtMs'') (\<lambda>x. Inr \<lparr> lr_sealedLease = l, lr_expiresAtMs = x \<rparr>))"

definition client_claim :: "string \<Rightarrow> client_transport \<Rightarrow> string \<Rightarrow> string \<Rightarrow> (broker_error, lease_result) result" where
  "client_claim baseUrl request pairId pf =
    bind_result (client_post baseUrl request ''claim'' [(''pairId'', Str pairId), (''proof'', Str pf)] CLAIM_ERROR_CODES)
      read_lease"

definition client_nonce :: "string \<Rightarrow> client_transport \<Rightarrow> string \<Rightarrow> (broker_error, nonce_result) result" where
  "client_nonce baseUrl request pairId =
    bind_result (client_post baseUrl request ''nonce'' [(''pairId'', Str pairId)] NONCE_ERROR_CODES) (\<lambda>body.
    bind_result (requireString body ''nonce'') (\<lambda>n.
    bind_result (requireNumber body ''expiresAtMs'') (\<lambda>x. Inr \<lparr> nr_nonce = n, nr_expiresAtMs = x \<rparr>)))"

definition client_lease :: "string \<Rightarrow> client_transport \<Rightarrow> string \<Rightarrow> string \<Rightarrow> string \<Rightarrow> (broker_error, lease_result) result" where
  "client_lease baseUrl request pairId nonce pf =
    bind_result (client_post baseUrl request ''lease'' [(''pairId'', Str pairId), (''nonce'', Str nonce), (''proof'', Str pf)]
      LEASE_ERROR_CODES) read_lease"

section \<open>A sealed lease survives the client\<close>

lemma parseSealedLease_json:
  assumes "lease_v l = 1" "lease_epk l \<noteq> []" "lease_salt l \<noteq> []" "lease_nonce l \<noteq> []" "lease_ct l \<noteq> []"
  shows "parseSealedLease (lease_json l) = Inr (lease_json l)"
  using assms
  by (simp add: parseSealedLease_def lease_json_def asRecord_def requireNumber_def requireString_def field_Cons jint_def)

lemma parseSealedLease_text:
  assumes "lease_v l = 1" "lease_epk l \<noteq> []" "lease_salt l \<noteq> []" "lease_nonce l \<noteq> []" "lease_ct l \<noteq> []"
  shows "parseSealedLease (Str (json_text (lease_json l))) = Inr (lease_json l)"
proof -
  have "json_parse (json_text (lease_json l)) = Some (lease_json l)"
    by (rule json_parse_text) (simp add: lease_json_def jint_def assms(1))
  with parseSealedLease_json [OF assms] show ?thesis
    by (simp add: parseSealedLease_def lease_json_def)
qed

end
