(* ===== verification/LeaseManager.thy ===== *)
theory LeaseManager
  imports BrokerClient
begin

text \<open>
  \<^verbatim>\<open>src/auth/lease-manager.ts\<close>: the plugin's enrollment and lease renewal.  Every method that awaits is a
  task; a step starts a task, delivers an answer to one, or logs out, and any number of tasks may be in
  flight, as the code allows.  The methods' continuations are functions on the manager's fields.
\<close>

section \<open>Fields and views\<close>

definition DEFAULT_CLAIM_POLL_INTERVAL_MS :: rat where "DEFAULT_CLAIM_POLL_INTERVAL_MS = 2000"
definition DEFAULT_RENEWAL_LEAD_MS :: rat where "DEFAULT_RENEWAL_LEAD_MS = 60000"

datatype enrollment_status = NotYetEnrolled | AwaitingConsent | DeviceEnrolled

record enrollment_view =
  ev_pairId :: "string option"
  ev_status :: enrollment_status
  ev_expiresAtMs :: "rat option"

record lease_view =
  lv_expiresAtMs :: rat
  lv_scope :: string
  lv_allowedRootName :: string

record lease_manager =
  lm_rootFolderName :: string
  lm_claimPollIntervalMs :: rat
  lm_renewalLeadMs :: rat
  lm_pairId :: "string option"
  lm_consentPending :: bool
  lm_pairExpiresAtMs :: "rat option"
  lm_accessToken :: "string option"
  lm_accessTokenExpiresAtMs :: rat
  lm_lease :: "lease_view option"
  lm_renewal :: "nat option"
  lm_emitted :: "enrollment_view list"

datatype manager_error = RootNameMissing | BadPollInterval | BadRenewalLead

definition new_lease_manager :: "string option \<Rightarrow> number option \<Rightarrow> number option \<Rightarrow> string option \<Rightarrow>
    string \<Rightarrow> (manager_error, lease_manager) result" where
  "new_lease_manager rootName interval lead initialPairId defaultRoot =
    (let r = (case rootName of None \<Rightarrow> defaultRoot | Some n \<Rightarrow> n)
     in if r = [] then Inl RootNameMissing
        else case as_finite (Num (case interval of None \<Rightarrow> Fin DEFAULT_CLAIM_POLL_INTERVAL_MS | Some n \<Rightarrow> n)) of
          None \<Rightarrow> Inl BadPollInterval
        | Some i \<Rightarrow> if i \<le> 0 then Inl BadPollInterval
          else (case as_finite (Num (case lead of None \<Rightarrow> Fin DEFAULT_RENEWAL_LEAD_MS | Some n \<Rightarrow> n)) of
            None \<Rightarrow> Inl BadRenewalLead
          | Some l \<Rightarrow> if l < 0 then Inl BadRenewalLead
            else Inr \<lparr> lm_rootFolderName = r, lm_claimPollIntervalMs = i, lm_renewalLeadMs = l, lm_pairId = initialPairId,
              lm_consentPending = False, lm_pairExpiresAtMs = None, lm_accessToken = None,
              lm_accessTokenExpiresAtMs = 0, lm_lease = None, lm_renewal = None, lm_emitted = [] \<rparr>))"

text \<open>An empty string is falsy, so a pair id counts only when it is not empty.\<close>

definition truthy :: "string option \<Rightarrow> bool" where
  "truthy v \<longleftrightarrow> (case v of None \<Rightarrow> False | Some s \<Rightarrow> s \<noteq> [])"

definition manager_status :: "lease_manager \<Rightarrow> enrollment_status" where
  "manager_status m = (if lm_lease m \<noteq> None then DeviceEnrolled
     else if lm_consentPending m then AwaitingConsent
     else if truthy (lm_pairId m) then DeviceEnrolled else NotYetEnrolled)"

definition expiryOf :: "lease_manager \<Rightarrow> rat option" where
  "expiryOf m = (case lm_lease m of Some l \<Rightarrow> Some (lv_expiresAtMs l)
     | None \<Rightarrow> if lm_consentPending m then lm_pairExpiresAtMs m else None)"

definition enrollment_of :: "lease_manager \<Rightarrow> enrollment_view" where
  "enrollment_of m = \<lparr> ev_pairId = lm_pairId m, ev_status = manager_status m, ev_expiresAtMs = expiryOf m \<rparr>"

definition hasValidLease :: "rat \<Rightarrow> lease_manager \<Rightarrow> bool" where
  "hasValidLease now m \<longleftrightarrow> lm_lease m \<noteq> None \<and> now < lm_accessTokenExpiresAtMs m - lm_renewalLeadMs m"

definition emit :: "rat option \<Rightarrow> lease_manager \<Rightarrow> lease_manager" where
  "emit expiresAtMs m = m\<lparr> lm_emitted := lm_emitted m @ [\<lparr> ev_pairId = lm_pairId m, ev_status = manager_status m,
     ev_expiresAtMs = (case expiresAtMs of None \<Rightarrow> expiryOf m | Some x \<Rightarrow> Some x) \<rparr>] \<rparr>"

definition clear_manager :: "lease_manager \<Rightarrow> lease_manager" where
  "clear_manager m = emit None (m\<lparr> lm_pairId := None, lm_consentPending := False, lm_pairExpiresAtMs := None,
     lm_accessToken := None, lm_accessTokenExpiresAtMs := 0, lm_lease := None, lm_renewal := None \<rparr>)"

section \<open>Continuations\<close>

definition paired :: "pair_result \<Rightarrow> lease_manager \<Rightarrow> lease_manager" where
  "paired p m = emit (Some (pr_expiresAtMs p)) (m\<lparr> lm_pairId := Some (pr_pairId p), lm_consentPending := True,
     lm_pairExpiresAtMs := Some (pr_expiresAtMs p) \<rparr>)"

datatype apply_error = LeaseUnsealFailed device_error | ForeignRoot

definition applyLease :: "'x lease_crypto_scheme \<Rightarrow> device_identity \<Rightarrow> lease_result \<Rightarrow> lease_manager \<Rightarrow>
    (apply_error, lease_view) result \<times> lease_manager" where
  "applyLease N d r m = (case unsealLease N d (lr_sealedLease r) of Inl e \<Rightarrow> (Inl (LeaseUnsealFailed e), m)
     | Inr p \<Rightarrow> if pay_allowedRootName p \<noteq> lm_rootFolderName m then (Inl ForeignRoot, m)
       else let v = \<lparr> lv_expiresAtMs = pay_expiresAtMs p, lv_scope = pay_scope p, lv_allowedRootName = pay_allowedRootName p \<rparr>
         in (Inr v, emit None (m\<lparr> lm_accessToken := Some (pay_accessToken p), lm_accessTokenExpiresAtMs := pay_expiresAtMs p,
              lm_lease := Some v, lm_consentPending := False, lm_pairExpiresAtMs := None \<rparr>)))"

text \<open>\<^verbatim>\<open>Math.max(1, Math.ceil((expiresAtMs - now) / interval) + 1)\<close>.\<close>

definition max_attempts :: "rat \<Rightarrow> rat \<Rightarrow> rat \<Rightarrow> nat" where
  "max_attempts expiresAtMs now interval = nat (max 1 (\<lceil>(expiresAtMs - now) / interval\<rceil> + 1))"

text \<open>The end of the polling loop: the pairing is dropped and, in \<^verbatim>\<open>enroll\<close>'s handler, everything cleared.\<close>

definition claim_expired :: "lease_manager \<Rightarrow> lease_manager" where
  "claim_expired m = clear_manager (emit None (m\<lparr> lm_pairId := None, lm_consentPending := False, lm_pairExpiresAtMs := None \<rparr>))"

definition renewal_failed :: "client_code \<Rightarrow> lease_manager \<Rightarrow> lease_manager" where
  "renewal_failed c m = (if c \<in> {ClientRevoked, ClientExpired} then clear_manager m else m)"

definition renewal_done :: "lease_manager \<Rightarrow> lease_manager" where
  "renewal_done m = m\<lparr> lm_renewal := None \<rparr>"

section \<open>Tasks and steps\<close>

datatype task = AwaitPair | AwaitConsentUrl pair_result | AwaitClaim pair_result nat | Sleeping pair_result nat
  | AwaitNonce string | AwaitLease string string

record manager_world =
  w_manager :: lease_manager
  w_tasks :: "(nat, task) omap"
  w_next :: nat

definition run_task :: "nat \<Rightarrow> task \<Rightarrow> lease_manager \<Rightarrow> manager_world \<Rightarrow> manager_world" where
  "run_task i t m w = w\<lparr> w_manager := m, w_tasks := mput i t (w_tasks w) \<rparr>"

definition end_task :: "nat \<Rightarrow> lease_manager \<Rightarrow> manager_world \<Rightarrow> manager_world" where
  "end_task i m w = w\<lparr> w_manager := m, w_tasks := mdel i (w_tasks w) \<rparr>"

definition start_task :: "task \<Rightarrow> lease_manager \<Rightarrow> manager_world \<Rightarrow> manager_world" where
  "start_task t m w = w\<lparr> w_manager := m, w_tasks := mput (w_next w) t (w_tasks w), w_next := w_next w + 1 \<rparr>"

text \<open>One turn of the claim loop with \<open>k\<close> attempts left at time \<open>now\<close>.\<close>

definition claim_turn :: "nat \<Rightarrow> pair_result \<Rightarrow> nat \<Rightarrow> rat \<Rightarrow> manager_world \<Rightarrow> manager_world" where
  "claim_turn i p k now w = (case k of
     0 \<Rightarrow> end_task i (claim_expired (w_manager w)) w
   | Suc k' \<Rightarrow> if now \<ge> pr_expiresAtMs p then end_task i (claim_expired (w_manager w)) w
       else run_task i (AwaitClaim p k') (w_manager w) w)"

datatype manager_event = Enroll string | PairAnswer nat "(broker_error, pair_result) result" | ConsentOpened nat rat bool
  | ClaimAnswer nat "(broker_error, lease_result) result" | Woken nat rat | Refresh
  | NonceAnswer nat "(broker_error, nonce_result) result" | LeaseAnswer nat "(broker_error, lease_result) result" | Logout

inductive manager_step :: "'x lease_crypto_scheme \<Rightarrow> device_identity \<Rightarrow> manager_event \<Rightarrow> manager_world \<Rightarrow> manager_world \<Rightarrow> bool"
  for N :: "'x lease_crypto_scheme" and d :: device_identity where
  enroll: "trim c \<noteq> [] \<Longrightarrow> manager_step N d (Enroll c) w (start_task AwaitPair (w_manager w) w)"
| pair_refused: "mget (w_tasks w) i = Some AwaitPair \<Longrightarrow>
    manager_step N d (PairAnswer i (Inl e)) w (end_task i (w_manager w) w)"
| pair_made: "mget (w_tasks w) i = Some AwaitPair \<Longrightarrow>
    manager_step N d (PairAnswer i (Inr p)) w (run_task i (AwaitConsentUrl p) (paired p (w_manager w)) w)"
| consent_failed: "mget (w_tasks w) i = Some (AwaitConsentUrl p) \<Longrightarrow>
    manager_step N d (ConsentOpened i t False) w (end_task i (clear_manager (w_manager w)) w)"
| consent_opened: "mget (w_tasks w) i = Some (AwaitConsentUrl p) \<Longrightarrow>
    manager_step N d (ConsentOpened i t True) w
      (claim_turn i p (max_attempts (pr_expiresAtMs p) t (lm_claimPollIntervalMs (w_manager w))) t w)"
| claim_pending: "mget (w_tasks w) i = Some (AwaitClaim p k) \<Longrightarrow> err_code e = NotAuthorizedYet \<Longrightarrow>
    manager_step N d (ClaimAnswer i (Inl e)) w (run_task i (Sleeping p k) (w_manager w) w)"
| claim_refused: "mget (w_tasks w) i = Some (AwaitClaim p k) \<Longrightarrow> err_code e \<noteq> NotAuthorizedYet \<Longrightarrow>
    manager_step N d (ClaimAnswer i (Inl e)) w (end_task i (clear_manager (w_manager w)) w)"
| claimed: "mget (w_tasks w) i = Some (AwaitClaim p k) \<Longrightarrow> applyLease N d r (w_manager w) = (Inr v, m) \<Longrightarrow>
    manager_step N d (ClaimAnswer i (Inr r)) w (end_task i m w)"
| claim_unusable: "mget (w_tasks w) i = Some (AwaitClaim p k) \<Longrightarrow> applyLease N d r (w_manager w) = (Inl x, m) \<Longrightarrow>
    manager_step N d (ClaimAnswer i (Inr r)) w (end_task i (clear_manager m) w)"
| woken: "mget (w_tasks w) i = Some (Sleeping p k) \<Longrightarrow> manager_step N d (Woken i t) w (claim_turn i p k t w)"
| refresh_joined: "lm_renewal (w_manager w) = Some j \<Longrightarrow> manager_step N d Refresh w w"
| refresh_refused: "lm_renewal (w_manager w) = None \<Longrightarrow> \<not> truthy (lm_pairId (w_manager w)) \<Longrightarrow> manager_step N d Refresh w w"
| refresh_started: "lm_renewal (w_manager w) = None \<Longrightarrow> lm_pairId (w_manager w) = Some p \<Longrightarrow> p \<noteq> [] \<Longrightarrow>
    manager_step N d Refresh w (start_task (AwaitNonce p) ((w_manager w)\<lparr> lm_renewal := Some (w_next w) \<rparr>) w)"
| nonce_refused: "mget (w_tasks w) i = Some (AwaitNonce p) \<Longrightarrow>
    manager_step N d (NonceAnswer i (Inl e)) w (end_task i (renewal_done (renewal_failed (err_code e) (w_manager w))) w)"
| nonce_given: "mget (w_tasks w) i = Some (AwaitNonce p) \<Longrightarrow>
    manager_step N d (NonceAnswer i (Inr n)) w (run_task i (AwaitLease p (nr_nonce n)) (w_manager w) w)"
| lease_refused: "mget (w_tasks w) i = Some (AwaitLease p n) \<Longrightarrow>
    manager_step N d (LeaseAnswer i (Inl e)) w (end_task i (renewal_done (renewal_failed (err_code e) (w_manager w))) w)"
| leased: "mget (w_tasks w) i = Some (AwaitLease p n) \<Longrightarrow> applyLease N d r (w_manager w) = (x, m) \<Longrightarrow>
    manager_step N d (LeaseAnswer i (Inr r)) w (end_task i (renewal_done m) w)"
| logout: "manager_step N d Logout w (w\<lparr> w_manager := clear_manager (w_manager w) \<rparr>)"

inductive manager_reaches :: "'x lease_crypto_scheme \<Rightarrow> device_identity \<Rightarrow> manager_world \<Rightarrow> manager_event list \<Rightarrow> manager_world \<Rightarrow> bool"
  for N :: "'x lease_crypto_scheme" and d :: device_identity and w0 :: manager_world where
  idle: "manager_reaches N d w0 [] w0"
| step: "manager_reaches N d w0 es w \<Longrightarrow> manager_step N d e w w' \<Longrightarrow> manager_reaches N d w0 (es @ [e]) w'"

text \<open>\<^verbatim>\<open>getValidAccessToken\<close> without and after the renewal it waits for; \<open>None\<close> is \<^verbatim>\<open>not_enrolled\<close>.\<close>

definition token_now :: "rat \<Rightarrow> lease_manager \<Rightarrow> string option option" where
  "token_now now m = (if \<not> truthy (lm_pairId m) then Some None
     else if truthy (lm_accessToken m) \<and> hasValidLease now m then Some (lm_accessToken m) else None)"

definition token_after_renewal :: "lease_manager \<Rightarrow> string option" where
  "token_after_renewal m = (if truthy (lm_accessToken m) then lm_accessToken m else None)"

section \<open>Invariants of the manager\<close>

text \<open>
  The token and the lease are set and cleared together and describe the same grant; a pending consent
  has its pairing; a device with neither lease nor pending consent has no pairing, unless it started
  with a persisted one (\<open>restored\<close>).
\<close>

definition coherent :: "bool \<Rightarrow> string \<Rightarrow> lease_manager \<Rightarrow> bool" where
  "coherent restored rootName m \<longleftrightarrow> lm_rootFolderName m = rootName
     \<and> (lm_accessToken m = None \<longleftrightarrow> lm_lease m = None)
     \<and> (\<forall>l. lm_lease m = Some l \<longrightarrow> lv_allowedRootName l = rootName \<and> lv_expiresAtMs l = lm_accessTokenExpiresAtMs m)
     \<and> (lm_consentPending m \<longrightarrow> lm_pairId m \<noteq> None \<and> lm_pairExpiresAtMs m \<noteq> None)
     \<and> (lm_lease m = None \<and> \<not> lm_consentPending m \<and> \<not> restored \<longrightarrow> lm_pairId m = None)"

lemmas manager_moves = clear_manager_def emit_def paired_def claim_expired_def renewal_failed_def renewal_done_def

lemma coherent_moves [simp]:
  "coherent r n m \<Longrightarrow> coherent r n (clear_manager m)"
  "coherent r n m \<Longrightarrow> coherent r n (paired p m)"
  "coherent r n m \<Longrightarrow> coherent r n (claim_expired m)"
  "coherent r n m \<Longrightarrow> coherent r n (renewal_failed c m)"
  "coherent r n m \<Longrightarrow> coherent r n (renewal_done m)"
  "coherent r n m \<Longrightarrow> coherent r n (m\<lparr> lm_renewal := x \<rparr>)"
  by (simp_all add: coherent_def manager_moves)

lemma applyLease_Inr:
  assumes "applyLease N d r m = (Inr v, m')"
  obtains p where "unsealLease N d (lr_sealedLease r) = Inr p" "pay_allowedRootName p = lm_rootFolderName m"
    "v = \<lparr> lv_expiresAtMs = pay_expiresAtMs p, lv_scope = pay_scope p, lv_allowedRootName = pay_allowedRootName p \<rparr>"
    "m' = emit None (m\<lparr> lm_accessToken := Some (pay_accessToken p), lm_accessTokenExpiresAtMs := pay_expiresAtMs p,
       lm_lease := Some v, lm_consentPending := False, lm_pairExpiresAtMs := None \<rparr>)"
  using assms by (auto simp: applyLease_def Let_def split: sum.splits if_splits)

lemma applyLease_Inl: "applyLease N d r m = (Inl e, m') \<Longrightarrow> m' = m"
  by (auto simp: applyLease_def Let_def split: sum.splits if_splits)

lemma coherent_applyLease: "applyLease N d r m = (x, m') \<Longrightarrow> coherent q n m \<Longrightarrow> coherent q n m'"
  by (cases x) (auto dest: applyLease_Inl elim!: applyLease_Inr simp: coherent_def emit_def)

lemma task_fields [simp]:
  "w_manager (run_task i t m w) = m" "w_manager (end_task i m w) = m" "w_manager (start_task t m w) = m"
  by (simp_all add: run_task_def end_task_def start_task_def)

lemma claim_turn_manager: "w_manager (claim_turn i p k now w) \<in> {w_manager w, claim_expired (w_manager w)}"
  by (auto simp: claim_turn_def split: nat.split)

lemma coherent_claim_turn: "coherent q n (w_manager w) \<Longrightarrow> coherent q n (w_manager (claim_turn i p k now w))"
  using claim_turn_manager [of i p k now w] by auto

lemma coherent_step: "manager_step N d e w w' \<Longrightarrow> coherent q n (w_manager w) \<Longrightarrow> coherent q n (w_manager w')"
  by (induction rule: manager_step.induct)
    (auto intro: coherent_applyLease coherent_moves coherent_claim_turn simp del: coherent_moves)

lemma coherent_reached: "manager_reaches N d w0 es w \<Longrightarrow> coherent q n (w_manager w0) \<Longrightarrow> coherent q n (w_manager w)"
  by (induction rule: manager_reaches.induct) (auto intro: coherent_step)

lemma new_manager_coherent:
  "new_lease_manager (Some n) i l pid dr = Inr m \<Longrightarrow> coherent (pid \<noteq> None) n m \<and> lm_emitted m = []"
  by (auto simp: new_lease_manager_def coherent_def Let_def split: option.splits if_splits)

definition starts_with_manager :: "lease_manager \<Rightarrow> manager_world" where
  "starts_with_manager m = \<lparr> w_manager = m, w_tasks = [], w_next = 0 \<rparr>"

text \<open>
  C18: whatever tasks are in flight and in whatever order their answers arrive, the manager never holds
  a token without its lease or a lease without its token, the lease it shows expires with the token and
  is for the configured root folder, and a pending consent always has its pairing and expiry.
\<close>
theorem lease_state_coherent:
  assumes "new_lease_manager (Some rootName) interval lead initialPairId dr = Inr m0"
    and "manager_reaches N d (starts_with_manager m0) es w"
  shows "(lm_accessToken (w_manager w) = None \<longleftrightarrow> lm_lease (w_manager w) = None)
    \<and> (\<forall>l. lm_lease (w_manager w) = Some l \<longrightarrow> lv_allowedRootName l = rootName
         \<and> lv_expiresAtMs l = lm_accessTokenExpiresAtMs (w_manager w))
    \<and> (lm_consentPending (w_manager w) \<longrightarrow> lm_pairId (w_manager w) \<noteq> None \<and> lm_pairExpiresAtMs (w_manager w) \<noteq> None)"
proof -
  have "coherent (initialPairId \<noteq> None) rootName (w_manager w)"
    by (rule coherent_reached [OF assms(2)])
      (simp add: starts_with_manager_def new_manager_coherent [OF assms(1)] del: not_None_eq)
  then show ?thesis unfolding coherent_def by blast
qed


text \<open>
  What makes an enrolled view honest: a lease for the configured root that this device unsealed from an
  answer of the broker.
\<close>

definition lease_arrived :: "'x lease_crypto_scheme \<Rightarrow> device_identity \<Rightarrow> string \<Rightarrow> manager_event list \<Rightarrow> bool" where
  "lease_arrived N d rootName es \<longleftrightarrow> (\<exists>i r p. (ClaimAnswer i (Inr r) \<in> set es \<or> LeaseAnswer i (Inr r) \<in> set es)
     \<and> unsealLease N d (lr_sealedLease r) = Inr p \<and> pay_allowedRootName p = rootName)"

definition honest_views :: "'x lease_crypto_scheme \<Rightarrow> device_identity \<Rightarrow> string \<Rightarrow> manager_event list \<Rightarrow> lease_manager \<Rightarrow> bool" where
  "honest_views N d n es m \<longleftrightarrow> coherent False n m \<and> (lm_lease m \<noteq> None \<longrightarrow> lease_arrived N d n es)
     \<and> (\<forall>v \<in> set (lm_emitted m). ev_status v = DeviceEnrolled \<longrightarrow> lease_arrived N d n es)"

lemma lease_arrived_mono: "lease_arrived N d n es \<Longrightarrow> lease_arrived N d n (es @ fs)"
  unfolding lease_arrived_def by fastforce

lemma honest_later: "honest_views N d n es m \<Longrightarrow> honest_views N d n (es @ fs) m"
  by (auto simp: honest_views_def intro: lease_arrived_mono)

lemma coherent_status: "coherent False n m \<Longrightarrow> manager_status m = DeviceEnrolled \<Longrightarrow> lm_lease m \<noteq> None"
  by (auto simp: coherent_def manager_status_def truthy_def split: if_splits)

lemma honest_emit:
  assumes "coherent False n m" "lm_lease m \<noteq> None \<longrightarrow> lease_arrived N d n es"
    "\<forall>v \<in> set (lm_emitted m). ev_status v = DeviceEnrolled \<longrightarrow> lease_arrived N d n es"
  shows "honest_views N d n es (emit x m)"
  using assms coherent_status [OF assms(1)]
  by (auto simp: honest_views_def emit_def coherent_def)

lemma honest_moves:
  assumes "honest_views N d n es m"
  shows "honest_views N d n es (clear_manager m)" "honest_views N d n es (paired p m)"
    "honest_views N d n es (claim_expired m)" "honest_views N d n es (renewal_failed c m)"
    "honest_views N d n es (renewal_done m)" "honest_views N d n es (m\<lparr> lm_renewal := x \<rparr>)"
proof -
  have clear: "honest_views N d n es (clear_manager k)" if "honest_views N d n es k" for k
    unfolding clear_manager_def using that by (intro honest_emit) (auto simp: honest_views_def coherent_def)
  from assms show "honest_views N d n es (paired p m)"
    unfolding paired_def by (intro honest_emit) (auto simp: honest_views_def coherent_def)
  from assms show "honest_views N d n es (claim_expired m)"
    unfolding claim_expired_def by (intro clear honest_emit) (auto simp: honest_views_def coherent_def)
  from assms show "honest_views N d n es (renewal_failed c m)" by (simp add: renewal_failed_def clear)
  from assms show "honest_views N d n es (renewal_done m)" "honest_views N d n es (m\<lparr> lm_renewal := x \<rparr>)"
    by (simp_all add: renewal_done_def honest_views_def coherent_def)
  from assms show "honest_views N d n es (clear_manager m)" by (rule clear)
qed

lemma honest_applied:
  assumes "applyLease N d r m = (Inr v, m')" "honest_views N d n es m"
    and "e = ClaimAnswer i (Inr r) \<or> e = LeaseAnswer i (Inr r)"
  shows "honest_views N d n (es @ [e]) m'"
proof -
  have n: "lm_rootFolderName m = n" using assms(2) by (simp add: honest_views_def coherent_def)
  have arrived: "lease_arrived N d n (es @ [e])"
    using assms(1) by (rule applyLease_Inr) (use assms(3) n in \<open>auto simp: lease_arrived_def\<close>)
  have "coherent False n m'" using assms(1,2) by (auto simp: honest_views_def intro: coherent_applyLease)
  with arrived show ?thesis by (auto simp: honest_views_def)
qed

lemma honest_apply_failed: "applyLease N d r m = (Inl x, m') \<Longrightarrow> honest_views N d n es m \<Longrightarrow> honest_views N d n es m'"
  using applyLease_Inl by blast

lemma honest_claim_turn: "honest_views N d n es (w_manager w) \<Longrightarrow> honest_views N d n es (w_manager (claim_turn i p k now w))"
  using claim_turn_manager [of i p k now w] honest_moves by fastforce

lemma honest_step:
  assumes "manager_step N d e w w'" "honest_views N d n es (w_manager w)"
  shows "honest_views N d n (es @ [e]) (w_manager w')"
  using assms(1)
proof cases
  case (leased i p k r x m)
  then show ?thesis using assms(2)
    by (cases x) (auto intro: honest_moves honest_later honest_apply_failed honest_applied)
qed (use assms(2) in \<open>auto intro: honest_moves honest_later honest_apply_failed honest_applied honest_claim_turn\<close>)

lemma honest_reached: "manager_reaches N d w0 es w \<Longrightarrow> honest_views N d n [] (w_manager w0) \<Longrightarrow> honest_views N d n es (w_manager w)"
  by (induction rule: manager_reaches.induct) (auto intro: honest_step)

lemma fresh_manager_honest:
  "new_lease_manager (Some n) i l None dr = Inr m \<Longrightarrow> honest_views N d n [] m"
  by (auto simp: new_lease_manager_def honest_views_def coherent_def Let_def split: option.splits if_splits)

text \<open>
  C9: a device that starts without a pairing is reported enrolled only after the broker answered a claim
  or a renewal with a lease that this device unsealed and that is for the configured root folder:
  pairing, opening the consent page, refusals and late answers never produce an enrolled view.
\<close>
theorem enrolled_only_with_lease:
  assumes "new_lease_manager (Some rootName) interval lead None dr = Inr m0"
    and "manager_reaches N d (starts_with_manager m0) es w"
    and "v \<in> insert (enrollment_of (w_manager w)) (set (lm_emitted (w_manager w)))" "ev_status v = DeviceEnrolled"
  shows "\<exists>i r p. (ClaimAnswer i (Inr r) \<in> set es \<or> LeaseAnswer i (Inr r) \<in> set es)
     \<and> unsealLease N d (lr_sealedLease r) = Inr p \<and> pay_allowedRootName p = rootName"
proof -
  have h: "honest_views N d rootName es (w_manager w)"
    by (rule honest_reached [OF assms(2)]) (simp add: starts_with_manager_def fresh_manager_honest [OF assms(1)])
  then have "manager_status (w_manager w) = DeviceEnrolled \<Longrightarrow> lease_arrived N d rootName es"
    using coherent_status by (auto simp: honest_views_def)
  with h assms(3,4) have "lease_arrived N d rootName es"
    by (auto simp: honest_views_def enrollment_of_def)
  then show ?thesis unfolding lease_arrived_def .
qed

section \<open>The claim loop ends\<close>

definition polls :: "nat \<Rightarrow> manager_event list \<Rightarrow> nat" where
  "polls i es = length (filter (\<lambda>e. \<exists>r. e = ClaimAnswer i r) es)"

definition polls_left :: "nat \<Rightarrow> manager_world \<Rightarrow> nat" where
  "polls_left i w = (case mget (w_tasks w) i of Some (AwaitClaim p k) \<Rightarrow> Suc k | Some (Sleeping p k) \<Rightarrow> k | _ \<Rightarrow> 0)"

definition past_consent :: "nat \<Rightarrow> manager_world \<Rightarrow> bool" where
  "past_consent i w \<longleftrightarrow> i < w_next w \<and> mget (w_tasks w) i \<noteq> Some AwaitPair
     \<and> (\<forall>p. mget (w_tasks w) i \<noteq> Some (AwaitConsentUrl p))"

lemmas task_moves = run_task_def end_task_def start_task_def claim_turn_def

lemma poll_step:
  assumes "manager_step N d e w w'" "past_consent i w"
  shows "past_consent i w' \<and> polls i [e] + polls_left i w' \<le> polls_left i w"
  using assms
  by cases (auto simp: past_consent_def polls_def polls_left_def task_moves split: nat.splits option.splits task.splits)

lemma polls_append [simp]: "polls i (es @ fs) = polls i es + polls i fs"
  by (simp add: polls_def)

lemma polls_Nil [simp]: "polls i [] = 0"
  by (simp add: polls_def)

lemma polls_reached:
  "manager_reaches N d w es w' \<Longrightarrow> past_consent i w \<Longrightarrow> past_consent i w' \<and> polls i es + polls_left i w' \<le> polls_left i w"
proof (induction rule: manager_reaches.induct)
  case (step es w1 e w2)
  then show ?case using poll_step [of N d e w1 w2 i] by auto
qed simp

lemma past_consent_turn:
  assumes "i < w_next w"
  shows "past_consent i (claim_turn i p k now w) \<and> polls_left i (claim_turn i p k now w) \<le> k"
  using assms by (auto simp: past_consent_def polls_left_def task_moves split: nat.split)

text \<open>
  C25: the claim loop ends: once the consent page was opened at a time t, the enrollment asks the broker
  for the lease at most ceil((expiry - t) / interval) + 1 times (at least one is allowed), whatever the
  answers are and whatever other tasks run.
\<close>
theorem claim_polling_ends:
  assumes "mget (w_tasks w) i = Some (AwaitConsentUrl p)" "i < w_next w"
    and "manager_step N d (ConsentOpened i t True) w w1" "manager_reaches N d w1 es w2"
  shows "polls i es \<le> max_attempts (pr_expiresAtMs p) t (lm_claimPollIntervalMs (w_manager w))"
proof -
  from assms(3,1) have "w1 = claim_turn i p (max_attempts (pr_expiresAtMs p) t (lm_claimPollIntervalMs (w_manager w))) t w"
    by cases auto
  with past_consent_turn [OF assms(2)] have
    "past_consent i w1" "polls_left i w1 \<le> max_attempts (pr_expiresAtMs p) t (lm_claimPollIntervalMs (w_manager w))" by auto
  with polls_reached [OF assms(4)] show ?thesis by fastforce
qed

definition ex_pair :: pair_result where
  "ex_pair = \<lparr> pr_pairId = ''p'', pr_oauthState = ''s'', pr_proofMessage = ''m'', pr_expiresAtMs = 10000, pr_authorizationUrl = ''u'' \<rparr>"

definition ex_manager :: lease_manager where
  "ex_manager = \<lparr> lm_rootFolderName = ''root'', lm_claimPollIntervalMs = 2000, lm_renewalLeadMs = 60000, lm_pairId = Some ''p'',
     lm_consentPending = False, lm_pairExpiresAtMs = None, lm_accessToken = None, lm_accessTokenExpiresAtMs = 0,
     lm_lease = None, lm_renewal = None, lm_emitted = [] \<rparr>"

lemma manager_two_steps:
  "manager_step N d e w w1 \<Longrightarrow> manager_step N d f w1 w2 \<Longrightarrow> manager_reaches N d w [e, f] w2"
  using manager_reaches.step [OF manager_reaches.step [OF manager_reaches.idle]] by force

theorem claim_polling_ends_witness:
  "polls 0 [ClaimAnswer 0 (Inl \<lparr> err_code = NotAuthorizedYet, err_status = None \<rparr>), Woken 0 2000] \<le> 6"
proof -
  let ?w = "\<lparr> w_manager = ex_manager, w_tasks = [(0, AwaitConsentUrl ex_pair)], w_next = 1 \<rparr>"
  let ?w1 = "claim_turn 0 ex_pair 6 0 ?w"
  have six: "max_attempts (pr_expiresAtMs ex_pair) 0 (lm_claimPollIntervalMs (w_manager ?w)) = 6"
    by (simp add: max_attempts_def ex_pair_def ex_manager_def)
  have s1: "manager_step toy_lease ex_identity (ConsentOpened 0 0 True) ?w ?w1"
    using manager_step.consent_opened [of ?w 0 ex_pair toy_lease ex_identity 0] six by simp
  have t1: "mget (w_tasks ?w1) 0 = Some (AwaitClaim ex_pair 5)"
    by (simp add: task_moves ex_pair_def eval_nat_numeral)
  have s2: "manager_step toy_lease ex_identity (ClaimAnswer 0 (Inl \<lparr> err_code = NotAuthorizedYet, err_status = None \<rparr>)) ?w1
      (run_task 0 (Sleeping ex_pair 5) (w_manager ?w1) ?w1)"
    by (rule manager_step.claim_pending [OF t1]) simp
  have s3: "manager_step toy_lease ex_identity (Woken 0 2000) (run_task 0 (Sleeping ex_pair 5) (w_manager ?w1) ?w1)
      (claim_turn 0 ex_pair 5 2000 (run_task 0 (Sleeping ex_pair 5) (w_manager ?w1) ?w1))"
    by (rule manager_step.woken) (simp add: run_task_def)
  show ?thesis
    using claim_polling_ends [OF _ _ s1 manager_two_steps [OF s2 s3]] six by simp
qed

section \<open>An enrollment and a renewal\<close>

lemma ex_sealed:
  "\<exists>v. unsealLease toy_lease ex_identity v = Inr \<lparr> pay_accessToken = ''tok'', pay_expiresAtMs = 77, pay_scope = ''s'',
     pay_allowedRootName = ''root'' \<rparr>"
proof -
  obtain l where l: "sealLease toy_lease [9] (replicate 32 4) (replicate 12 5)
      (payload_json ''tok'' 77 ''s'' ''root'') ''X'' = Inr l" using ex_seal by blast
  from device_opens [OF toy_dh toy_chacha ex_identity_keys _ l] show ?thesis
    by (auto simp: SALT_BYTES_def LEASE_NONCE_BYTES_def)
qed

lemma ex_new_manager:
  "\<exists>m. new_lease_manager (Some ''root'') None None None ''root'' = Inr m"
  by (simp add: new_lease_manager_def DEFAULT_CLAIM_POLL_INTERVAL_MS_def DEFAULT_RENEWAL_LEAD_MS_def)

lemma new_manager_start:
  "new_lease_manager (Some n) None None None dr = Inr m \<Longrightarrow> lm_rootFolderName m = n \<and> lm_pairId m = None
     \<and> lm_claimPollIntervalMs m = 2000"
  by (auto simp: new_lease_manager_def DEFAULT_CLAIM_POLL_INTERVAL_MS_def Let_def split: option.splits if_splits)

text \<open>Pairing, consent and one claim answered with a lease the device can open.\<close>

lemma ex_enrollment:
  assumes "lm_rootFolderName m = ''root''" "lm_claimPollIntervalMs m = 2000"
    and "unsealLease N d v = Inr pl" "pay_allowedRootName pl = ''root''"
  obtains es w where "manager_reaches N d (starts_with_manager m) es w"
    "lm_lease (w_manager w) \<noteq> None" "manager_status (w_manager w) = DeviceEnrolled"
proof -
  define w1 where "w1 = start_task AwaitPair m (starts_with_manager m)"
  define w2 where "w2 = run_task 0 (AwaitConsentUrl ex_pair) (paired ex_pair m) w1"
  define w3 where "w3 = run_task 0 (AwaitClaim ex_pair 5) (paired ex_pair m) w2"
  obtain x k where k: "applyLease N d \<lparr> lr_sealedLease = v, lr_expiresAtMs = 77 \<rparr> (paired ex_pair m) = (Inr x, k)"
    using assms by (simp add: applyLease_def paired_def emit_def Let_def)
  have m: "w_manager w1 = m" "w_manager w2 = paired ex_pair m" "w_manager w3 = paired ex_pair m"
    by (simp_all add: w1_def w2_def w3_def)
  have t: "mget (w_tasks w1) 0 = Some AwaitPair" "mget (w_tasks w2) 0 = Some (AwaitConsentUrl ex_pair)"
    "mget (w_tasks w3) 0 = Some (AwaitClaim ex_pair 5)"
    by (simp_all add: w1_def w2_def w3_def task_moves starts_with_manager_def)
  have "trim ''c'' \<noteq> []" by code_simp
  then have s1: "manager_step N d (Enroll ''c'') (starts_with_manager m) w1"
    using manager_step.enroll [of "''c''" N d "starts_with_manager m"] by (simp add: w1_def starts_with_manager_def)
  have s2: "manager_step N d (PairAnswer 0 (Inr ex_pair)) w1 w2"
    using manager_step.pair_made [OF t(1), of N d ex_pair] by (simp add: w2_def m)
  have six: "max_attempts (pr_expiresAtMs ex_pair) 0 2000 = 6" by (simp add: max_attempts_def ex_pair_def)
  have "lm_claimPollIntervalMs (paired ex_pair m) = 2000" using assms(2) by (simp add: paired_def emit_def)
  then have s3: "manager_step N d (ConsentOpened 0 0 True) w2 w3"
    using manager_step.consent_opened [OF t(2), of N d 0] six
    by (simp add: m w3_def claim_turn_def ex_pair_def eval_nat_numeral)
  have s4: "manager_step N d (ClaimAnswer 0 (Inr \<lparr> lr_sealedLease = v, lr_expiresAtMs = 77 \<rparr>)) w3 (end_task 0 k w3)"
    by (rule manager_step.claimed [OF t(3)]) (simp add: m k)
  have "manager_reaches N d (starts_with_manager m) ([Enroll ''c'', PairAnswer 0 (Inr ex_pair)] @ [ConsentOpened 0 0 True]
      @ [ClaimAnswer 0 (Inr \<lparr> lr_sealedLease = v, lr_expiresAtMs = 77 \<rparr>)]) (end_task 0 k w3)"
    using manager_reaches.step [OF manager_reaches.step [OF manager_two_steps [OF s1 s2] s3] s4] by simp
  moreover have "lm_lease k \<noteq> None"
    using k by (rule applyLease_Inr) (simp add: emit_def)
  ultimately show thesis by (intro that) (auto simp: manager_status_def)
qed

theorem lease_state_coherent_witness:
  "\<exists>es w. manager_reaches toy_lease ex_identity (starts_with_manager ex_manager) es w
     \<and> (lm_accessToken (w_manager w) = None \<longleftrightarrow> lm_lease (w_manager w) = None) \<and> lm_lease (w_manager w) \<noteq> None"
proof -
  obtain v where v: "unsealLease toy_lease ex_identity v = Inr \<lparr> pay_accessToken = ''tok'', pay_expiresAtMs = 77, pay_scope = ''s'',
     pay_allowedRootName = ''root'' \<rparr>" using ex_sealed by blast
  have n: "new_lease_manager (Some ''root'') None None (Some ''p'') ''root'' = Inr ex_manager"
    by (simp add: new_lease_manager_def ex_manager_def DEFAULT_CLAIM_POLL_INTERVAL_MS_def DEFAULT_RENEWAL_LEAD_MS_def)
  obtain es w where w: "manager_reaches toy_lease ex_identity (starts_with_manager ex_manager) es w"
    "lm_lease (w_manager w) \<noteq> None"
    by (rule ex_enrollment [OF _ _ v, of ex_manager]) (auto simp: ex_manager_def)
  from lease_state_coherent [OF n w(1)] w show ?thesis by (intro exI conjI) auto
qed

theorem enrolled_only_with_lease_witness:
  "\<exists>m es w. manager_reaches toy_lease ex_identity (starts_with_manager m) es w
     \<and> (\<exists>i r p. (ClaimAnswer i (Inr r) \<in> set es \<or> LeaseAnswer i (Inr r) \<in> set es)
       \<and> unsealLease toy_lease ex_identity (lr_sealedLease r) = Inr p \<and> pay_allowedRootName p = ''root'')"
proof -
  obtain v where v: "unsealLease toy_lease ex_identity v = Inr \<lparr> pay_accessToken = ''tok'', pay_expiresAtMs = 77, pay_scope = ''s'',
     pay_allowedRootName = ''root'' \<rparr>" using ex_sealed by blast
  obtain m where m: "new_lease_manager (Some ''root'') None None None ''root'' = Inr m" using ex_new_manager by blast
  obtain es w where w: "manager_reaches toy_lease ex_identity (starts_with_manager m) es w"
    "manager_status (w_manager w) = DeviceEnrolled"
    by (rule ex_enrollment [OF _ _ v, of m]) (auto simp: new_manager_start [OF m])
  have "\<exists>i r p. (ClaimAnswer i (Inr r) \<in> set es \<or> LeaseAnswer i (Inr r) \<in> set es)
      \<and> unsealLease toy_lease ex_identity (lr_sealedLease r) = Inr p \<and> pay_allowedRootName p = ''root''"
    by (rule enrolled_only_with_lease [OF m w(1), of "enrollment_of (w_manager w)"]) (simp_all add: enrollment_of_def w(2))
  with w(1) show ?thesis by (intro exI [of _ m] exI [of _ es] exI [of _ w] conjI)
qed

text \<open>
  Logging out while a renewal is in flight does not hold: the cleared manager is given the renewed
  token and lease when the answer arrives, and reports an enrolled device that has no pairing.
\<close>
theorem logout_undone_by_inflight_renewal:
  assumes "lm_renewal (w_manager w) = None" "lm_pairId (w_manager w) = Some p" "p \<noteq> []"
    and "unsealLease N d (lr_sealedLease r) = Inr pl" "pay_allowedRootName pl = lm_rootFolderName (w_manager w)"
  shows "\<exists>w'. manager_reaches N d w [Refresh, NonceAnswer (w_next w) (Inr n), Logout, LeaseAnswer (w_next w) (Inr r)] w'
    \<and> lm_pairId (w_manager w') = None \<and> lm_accessToken (w_manager w') = Some (pay_accessToken pl)
    \<and> manager_status (w_manager w') = DeviceEnrolled"
proof -
  let ?i = "w_next w"
  define w1 where "w1 = start_task (AwaitNonce p) ((w_manager w)\<lparr> lm_renewal := Some ?i \<rparr>) w"
  define w2 where "w2 = run_task ?i (AwaitLease p (nr_nonce n)) (w_manager w1) w1"
  define w3 where "w3 = w2\<lparr> w_manager := clear_manager (w_manager w2) \<rparr>"
  have t: "mget (w_tasks w1) ?i = Some (AwaitNonce p)" "mget (w_tasks w3) ?i = Some (AwaitLease p (nr_nonce n))"
    by (simp_all add: w1_def w2_def w3_def task_moves)
  have s1: "manager_step N d Refresh w w1"
    unfolding w1_def by (rule manager_step.refresh_started) fact+
  have s2: "manager_step N d (NonceAnswer ?i (Inr n)) w1 w2"
    unfolding w2_def by (rule manager_step.nonce_given [OF t(1)])
  have s3: "manager_step N d Logout w2 w3" unfolding w3_def by (rule manager_step.logout)
  have root: "lm_rootFolderName (w_manager w3) = pay_allowedRootName pl" "lm_pairId (w_manager w3) = None"
    using assms(5) by (simp_all add: w1_def w2_def w3_def clear_manager_def emit_def)
  obtain k x where k: "applyLease N d r (w_manager w3) = (Inr x, k)"
    using assms(4) root by (simp add: applyLease_def Let_def)
  then have "lm_pairId k = None" "lm_accessToken k = Some (pay_accessToken pl)" "lm_lease k \<noteq> None"
    using root assms(4) by (auto elim!: applyLease_Inr simp: emit_def)
  moreover have s4: "manager_step N d (LeaseAnswer ?i (Inr r)) w3 (end_task ?i (renewal_done k) w3)"
    by (rule manager_step.leased [OF t(2) k])
  moreover have "manager_reaches N d w ([Refresh, NonceAnswer ?i (Inr n)] @ [Logout] @ [LeaseAnswer ?i (Inr r)])
      (end_task ?i (renewal_done k) w3)"
    using manager_reaches.step [OF manager_reaches.step [OF manager_two_steps [OF s1 s2] s3] s4] by simp
  ultimately show ?thesis by (intro exI [of _ "end_task ?i (renewal_done k) w3"]) (simp add: renewal_done_def manager_status_def)
qed

theorem logout_undone_by_inflight_renewal_witness:
  "\<exists>r w'. manager_reaches toy_lease ex_identity (starts_with_manager ex_manager)
       [Refresh, NonceAnswer 0 (Inr \<lparr> nr_nonce = ''n'', nr_expiresAtMs = 9 \<rparr>), Logout, LeaseAnswer 0 (Inr r)] w'
     \<and> lm_pairId (w_manager w') = None \<and> lm_accessToken (w_manager w') = Some ''tok''"
proof -
  obtain v where v: "unsealLease toy_lease ex_identity v = Inr \<lparr> pay_accessToken = ''tok'', pay_expiresAtMs = 77, pay_scope = ''s'',
     pay_allowedRootName = ''root'' \<rparr>" using ex_sealed by blast
  show ?thesis
    using logout_undone_by_inflight_renewal [of "starts_with_manager ex_manager" "''p''" toy_lease ex_identity
        "\<lparr> lr_sealedLease = v, lr_expiresAtMs = 77 \<rparr>" _ "\<lparr> nr_nonce = ''n'', nr_expiresAtMs = 9 \<rparr>"] v
    by (fastforce simp: starts_with_manager_def ex_manager_def)
qed

end
