(* ===== verification/Renewal.thy ===== *)
theory Renewal
  imports LeaseManager BrokerLeases
begin

text \<open>
  The plugin's renewal against the broker's \<^verbatim>\<open>/oauth/lease\<close> handler.  The two sides are composed as they
  are written: \<^verbatim>\<open>src/auth/lease-manager.ts\<close> signs the characters of the nonce, \<^verbatim>\<open>broker/src/server.ts\<close>
  verifies the signature over the bytes the nonce encodes.
\<close>

text \<open>What Ed25519 promises of a registered key: a signature by this device is accepted for its own message only.\<close>

definition signature_binds :: "'x lease_crypto_scheme \<Rightarrow> device_identity \<Rightarrow> key_object \<Rightarrow> bool" where
  "signature_binds N d k \<longleftrightarrow>
     (\<forall>m msg. verify_signature N msg k (ed25519_sign N m (ed25519PrivateKey d)) \<longrightarrow> msg = m)"

lemma utf8_at_least: "length s \<le> length (utf8 s)"
proof (induction s)
  case (Cons c s)
  have "1 \<le> length (utf8_char c)" by (simp add: utf8_char_def)
  with Cons show ?case by (simp add: utf8_def)
qed simp

lemma b64_groups_longer: "bs \<noteq> [] \<Longrightarrow> length bs < length (b64_groups bs)"
proof (induction bs rule: b64_groups.induct)
  case (4 a b c bs)
  then show ?case by (cases "bs = []") (auto simp: Let_def)
qed (auto simp: Let_def)

lemma encoded_text_differs: "bs \<noteq> [] \<Longrightarrow> utf8 (toBase64Url bs) \<noteq> bs"
  using b64_groups_longer [of bs] utf8_at_least [of "toBase64Url bs"] by (auto simp: toBase64Url_def)

text \<open>The device's proof of a nonce the broker drew does not verify.\<close>

lemma text_proof_fails:
  assumes "node_base64 N" "createPublicKey N (dev_signingPem r) = Some k" "signature_binds N d k" "random \<noteq> []"
  shows "\<not> durable_proof N r (toBase64Url random) (signUtf8Base64Url N d (toBase64Url random))"
proof -
  have "\<not> verify_signature N random k (ed25519_sign N (utf8 (toBase64Url random)) (ed25519PrivateKey d))"
    using assms(3) encoded_text_differs [OF assms(4)] unfolding signature_binds_def by metis
  then show ?thesis
    using assms(1,2) by (simp add: durable_proof_def node_base64_def signUtf8Base64Url_def signBase64Url_def Let_def)
qed

definition lease_body :: "'x lease_crypto_scheme \<Rightarrow> device_identity \<Rightarrow> string \<Rightarrow> string \<Rightarrow> (string \<times> jsval) list" where
  "lease_body N d pairId nonce = [(''pairId'', Str pairId), (''nonce'', Str nonce),
     (''proof'', Str (signUtf8Base64Url N d nonce))]"

lemma renewal_refused:
  assumes "node_base64 N" "createPublicKey N (dev_signingPem r) = Some k" "signature_binds N d k" "random \<noteq> []"
    and "reg_find P pairId (st_reg s) = (Inr (Some r), reg)"
  shows "rs_status (fst (handle_lease N b P env pairId (lease_body N d pairId (toBase64Url random)) s)) = 403"
proof (cases "bounded_string (Str (toBase64Url random)) 256 = Some (toBase64Url random)
    \<and> bounded_string (Str (signUtf8Base64Url N d (toBase64Url random))) 512 = Some (signUtf8Base64Url N d (toBase64Url random))")
  case True
  let ?n = "toBase64Url random" and ?pf = "signUtf8Base64Url N d (toBase64Url random)"
  have "\<exists>e s'. consumeDurableNonce N P env pairId ?n ?pf s = (Inr (Inl e), s') \<and> e \<noteq> DNotAuthorizedYet"
    using text_proof_fails [OF assms(1-4)] assms(5)
    by (auto simp: consumeDurableNonce_def redeem_nonce_def Let_def split: option.split)
  then obtain e s' where "consumeDurableNonce N P env pairId ?n ?pf s = (Inr (Inl e), s')" "e \<noteq> DNotAuthorizedYet"
    by blast
  then show ?thesis using True
    by (cases e) (simp_all add: handle_lease_def lease_body_def field_Cons lease_error_def sendError_def sendJson_def)
next
  case False
  then show ?thesis
    by (auto simp: handle_lease_def lease_body_def field_Cons bounded_string_def sendError_def sendJson_def)
qed

lemma refusal_unpairs:
  assumes "manager_step N d (LeaseAnswer i (client_lease baseUrl (\<lambda>_. Some (403, j)) pairId nonce pf)) w w'"
  shows "lm_pairId (w_manager w') = None" "lm_lease (w_manager w') = None"
proof -
  have "client_lease baseUrl (\<lambda>_. Some (403, j)) pairId nonce pf = Inl \<lparr> err_code = ClientRevoked, err_status = Some 403 \<rparr>"
    by (simp add: client_lease_def client_post_def LEASE_ERROR_CODES_def)
  with assms have "w' = end_task i (renewal_done (renewal_failed ClientRevoked (w_manager w))) w"
    by cases auto
  then show "lm_pairId (w_manager w') = None" "lm_lease (w_manager w') = None"
    by (simp_all add: renewal_done_def renewal_failed_def clear_manager_def emit_def)
qed

text \<open>
  C4: a renewal of the plugin never succeeds against the broker: for an enrolled device and a nonce the
  broker granted, the lease request is refused with status 403 in whatever state the broker is by then,
  the plugin's client reads every 403 as a revocation, and the lease manager drops its pairing, so the
  device must enroll again with a new operator code.
\<close>
theorem renewal_unpairs_device:
  assumes "node_base64 N" "createPublicKey N (dev_signingPem r) = Some k" "signature_binds N d k"
    and "grant_nonce N b random t0 t1 pairId (Some r) s0 = (Inr (nonce, e), s1)" "random \<noteq> []"
    and "reg_find P pairId (st_reg s) = (Inr (Some r), reg)"
    and "handle_lease N b P env pairId (lease_body N d pairId nonce) s = (resp, s')"
  shows "rs_status resp = 403 \<and>
    (\<forall>i j w w'. manager_step N d (LeaseAnswer i (client_lease baseUrl (\<lambda>_. Some (rs_status resp, j)) pairId nonce
        (signUtf8Base64Url N d nonce))) w w' \<longrightarrow> lm_pairId (w_manager w') = None \<and> lm_lease (w_manager w') = None)"
proof -
  have "nonce = toBase64Url random"
    using assms(4) by (simp add: grant_nonce_def Let_def split: if_splits)
  with renewal_refused [OF assms(1-3,5,6), of b env] assms(7) have "rs_status resp = 403" by simp
  with refusal_unpairs show ?thesis by metis
qed

definition ex_registered :: enrolled_device where
  "ex_registered = ex_device\<lparr> dev_signingPem := ''E'' \<rparr>"

theorem renewal_unpairs_device_witness:
  "\<exists>nonce e s1 resp s'. grant_nonce toy_lease ex_broker (replicate 32 7) 0 0 ''p'' (Some ex_registered) ex_lease_state
       = (Inr (nonce, e), s1)
     \<and> handle_lease toy_lease ex_broker (memory_providers toy_lease) ex_lease_env ''p'' (lease_body toy_lease ex_identity ''p'' nonce)
       (s1\<lparr> st_reg := [(pairIdHash toy_lease ''p'', ex_registered)] \<rparr>) = (resp, s') \<and> rs_status resp = 403"
proof -
  let ?k = "\<lparr> asymmetricKeyType = Ed25519, key_spki = ED25519_SPKI_PREFIX @ pad32 [1] \<rparr>"
  have key: "createPublicKey toy_lease (dev_signingPem ex_registered) = Some ?k"
    by (simp add: ex_registered_def toy_lease_simps)
  have binds: "signature_binds toy_lease ex_identity ?k"
    by (simp add: signature_binds_def toy_lease_simps ex_identity_def generateDeviceIdentity_def)
  obtain nonce e s1 where g: "grant_nonce toy_lease ex_broker (replicate 32 7) 0 0 ''p'' (Some ex_registered) ex_lease_state
      = (Inr (nonce, e), s1)"
    by (simp add: grant_nonce_def ex_registered_def ex_device_def Let_def)
  obtain resp s' where h: "handle_lease toy_lease ex_broker (memory_providers toy_lease) ex_lease_env ''p''
      (lease_body toy_lease ex_identity ''p'' nonce) (s1\<lparr> st_reg := [(pairIdHash toy_lease ''p'', ex_registered)] \<rparr>) = (resp, s')"
    by fastforce
  have find: "reg_find (memory_providers toy_lease) ''p''
      (st_reg (s1\<lparr> st_reg := [(pairIdHash toy_lease ''p'', ex_registered)] \<rparr>))
    = (Inr (Some ex_registered), [(pairIdHash toy_lease ''p'', ex_registered)])"
    by (simp add: memory_providers_def mem_find_def)
  from renewal_unpairs_device [OF toy_node_base64 key binds g _ find h] have "rs_status resp = 403" by simp
  with g h show ?thesis by (intro exI conjI)
qed

end
