(* ===== verification/DeviceStore.thy ===== *)
theory DeviceStore
  imports LeaseManager
begin

text \<open>
  \<^verbatim>\<open>src/auth/device-identity-store.ts\<close>, \<^verbatim>\<open>src/auth/logout-device-session.ts\<close> and
  \<^verbatim>\<open>src/ui/enrollment-broadcast.ts\<close>: the device keys in secret storage, the local logout and the fan-out
  of enrollment changes.  Secret storage is a map from identifiers to strings.
\<close>

section \<open>Device keys in secret storage\<close>

type_synonym secret_storage = "string \<Rightarrow> string option"

definition DEVICE_IDENTITY_SECRET_ID :: string where
  "DEVICE_IDENTITY_SECRET_ID = ''obsidian-gdrive-streaming-device-identity-v1''"

definition parseStoredIdentity :: "'x lease_crypto_scheme \<Rightarrow> string option \<Rightarrow> device_identity option" where
  "parseStoredIdentity N v = (if \<not> truthy v then None
     else case json_parse (the v) of None \<Rightarrow> None
     | Some parsed \<Rightarrow> (case plain_object parsed of None \<Rightarrow> None
       | Some r \<Rightarrow> (case (as_string (field r ''ed25519PrivateKey''), as_string (field r ''x25519PrivateKey'')) of
           (Some a, Some b) \<Rightarrow> (case restoreDeviceIdentity N a b of Inl _ \<Rightarrow> None | Inr d \<Rightarrow> Some d)
         | _ \<Rightarrow> None)))"

definition identity_text :: "device_identity \<Rightarrow> string" where
  "identity_text d = (case serializeDeviceIdentity d of (a, b) \<Rightarrow>
     json_text (Obj [(''ed25519PrivateKey'', Str a), (''x25519PrivateKey'', Str b)]))"

definition saveDeviceIdentity :: "secret_storage \<Rightarrow> device_identity \<Rightarrow> secret_storage" where
  "saveDeviceIdentity st d = st(DEVICE_IDENTITY_SECRET_ID \<mapsto> identity_text d)"

text \<open>The fresh private keys a replacement is generated from are arguments.\<close>

definition loadOrCreateDeviceIdentity :: "'x lease_crypto_scheme \<Rightarrow> bytes \<Rightarrow> bytes \<Rightarrow> secret_storage \<Rightarrow>
    device_identity \<times> secret_storage" where
  "loadOrCreateDeviceIdentity N ed x st = (case parseStoredIdentity N (st DEVICE_IDENTITY_SECRET_ID) of
     Some d \<Rightarrow> (d, st)
   | None \<Rightarrow> let d = generateDeviceIdentity N ed x in (d, saveDeviceIdentity st d))"

definition clearDeviceIdentity :: "secret_storage \<Rightarrow> secret_storage" where
  "clearDeviceIdentity st = st(DEVICE_IDENTITY_SECRET_ID \<mapsto> [])"

lemma stored_identity_read:
  assumes "length ed = 32" "length x = 32" "d = generateDeviceIdentity N ed x"
  shows "parseStoredIdentity N (Some (identity_text d)) = Some d"
proof -
  let ?j = "Obj [(''ed25519PrivateKey'', Str (toBase64Url ed)), (''x25519PrivateKey'', Str (toBase64Url x))]"
  have parse: "json_parse (json_text ?j) = Some ?j" by (rule json_parse_text) simp
  then have "json_text ?j \<noteq> []" by (auto simp: json_text.simps)
  with parse assms show ?thesis
    by (simp add: parseStoredIdentity_def identity_text_def serializeDeviceIdentity_def truthy_def field_Cons
        generateDeviceIdentity_def restoreDeviceIdentity_def fromBase64Url_toBase64Url)
qed

lemma parsed_identity_restores:
  "parseStoredIdentity N v = Some d \<Longrightarrow>
     length (ed25519PrivateKey d) = 32 \<and> length (x25519PrivateKey d) = 32
     \<and> d = generateDeviceIdentity N (ed25519PrivateKey d) (x25519PrivateKey d)"
  by (auto simp: parseStoredIdentity_def restoreDeviceIdentity_def generateDeviceIdentity_def
      split: if_splits option.splits sum.splits)

text \<open>
  C6: the device identity is stable: whatever was in secret storage, the identity a start loads or
  creates is the one every later start loads, with its keys of 32 bytes each, until a logout clears it,
  after which the next start creates a new one from its own fresh keys; the stored text of another
  secret is never touched.
\<close>
theorem device_identity_stable:
  assumes "length ed = 32" "length x = 32" "loadOrCreateDeviceIdentity N ed x st = (d, st')"
  shows "loadOrCreateDeviceIdentity N ed2 x2 st' = (d, st')
    \<and> length (ed25519PrivateKey d) = 32 \<and> length (x25519PrivateKey d) = 32
    \<and> loadOrCreateDeviceIdentity N ed2 x2 (saveDeviceIdentity st2 d) = (d, saveDeviceIdentity st2 d)
    \<and> fst (loadOrCreateDeviceIdentity N ed2 x2 (clearDeviceIdentity st')) = generateDeviceIdentity N ed2 x2
    \<and> (\<forall>k. k \<noteq> DEVICE_IDENTITY_SECRET_ID \<longrightarrow> st' k = st k)"
proof -
  have keys: "length (ed25519PrivateKey d) = 32 \<and> length (x25519PrivateKey d) = 32
      \<and> d = generateDeviceIdentity N (ed25519PrivateKey d) (x25519PrivateKey d)"
  proof (cases "parseStoredIdentity N (st DEVICE_IDENTITY_SECRET_ID)")
    case None
    then have "d = generateDeviceIdentity N ed x" using assms(3) by (simp add: loadOrCreateDeviceIdentity_def Let_def)
    with assms(1,2) show ?thesis by (simp add: generateDeviceIdentity_def)
  next
    case (Some d')
    then show ?thesis using assms(3) parsed_identity_restores by (auto simp: loadOrCreateDeviceIdentity_def)
  qed
  then have saved: "parseStoredIdentity N (Some (identity_text d)) = Some d" using stored_identity_read by blast
  have "parseStoredIdentity N (st' DEVICE_IDENTITY_SECRET_ID) = Some d"
    and "\<forall>k. k \<noteq> DEVICE_IDENTITY_SECRET_ID \<longrightarrow> st' k = st k"
    using assms(3) saved
    by (auto simp: loadOrCreateDeviceIdentity_def saveDeviceIdentity_def Let_def split: option.splits)
  then show ?thesis using keys saved
    by (simp add: loadOrCreateDeviceIdentity_def saveDeviceIdentity_def clearDeviceIdentity_def
        parseStoredIdentity_def truthy_def Let_def)
qed

theorem device_identity_stable_witness:
  "\<exists>d st. loadOrCreateDeviceIdentity toy_lease (replicate 32 1) (replicate 32 2) Map.empty = (d, st)
     \<and> loadOrCreateDeviceIdentity toy_lease (replicate 32 3) (replicate 32 4) st = (d, st)"
proof -
  obtain d st where "loadOrCreateDeviceIdentity toy_lease (replicate 32 1) (replicate 32 2) Map.empty = (d, st)"
    by fastforce
  with device_identity_stable [OF _ _ this, of "replicate 32 3" "replicate 32 4"] show ?thesis by auto
qed

section \<open>Logout\<close>

text \<open>
  What the logout changes: the lease manager, the secret storage and the token the Drive client sends.
  \<open>persist\<close> is the write of the cleared plugin data, which may fail.
\<close>

record device_session =
  ses_manager :: lease_manager
  ses_secrets :: secret_storage
  ses_token :: string

definition logoutDeviceSession :: "(device_session \<Rightarrow> bool \<times> device_session) \<Rightarrow> device_identity \<Rightarrow> device_session \<Rightarrow>
    device_identity option \<times> device_session" where
  "logoutDeviceSession persist fresh s =
    (let s1 = s\<lparr> ses_manager := clear_manager (ses_manager s) \<rparr>;
         s2 = s1\<lparr> ses_secrets := clearDeviceIdentity (ses_secrets s1) \<rparr>
     in case persist s2 of (False, s3) \<Rightarrow> (None, s3)
        | (True, s3) \<Rightarrow> (Some fresh, s3\<lparr> ses_token := [] \<rparr>))"

text \<open>A completed logout leaves no token and no pairing; a failed write of the plugin data leaves the token.\<close>

lemma logout_clears:
  assumes "logoutDeviceSession persist fresh s = (Some d, s')" "\<And>t. snd (persist t) = t"
  shows "ses_token s' = [] \<and> lm_pairId (ses_manager s') = None \<and> lm_accessToken (ses_manager s') = None
    \<and> parseStoredIdentity N (ses_secrets s' DEVICE_IDENTITY_SECRET_ID) = None \<and> d = fresh"
proof -
  have "persist t = (fst (persist t), t)" for t using assms(2) by (metis prod.collapse)
  then obtain t where "s' = t\<lparr> ses_token := [] \<rparr>" "d = fresh"
    "t = s\<lparr> ses_manager := clear_manager (ses_manager s), ses_secrets := clearDeviceIdentity (ses_secrets s) \<rparr>"
    using assms(1) by (auto simp: logoutDeviceSession_def Let_def split: prod.splits bool.splits) (metis Pair_inject)+
  then show ?thesis
    by (simp add: clear_manager_def emit_def clearDeviceIdentity_def parseStoredIdentity_def truthy_def)
qed

lemma failed_logout_keeps_token:
  "logoutDeviceSession (\<lambda>t. (False, t)) fresh s = (r, s') \<Longrightarrow> r = None \<and> ses_token s' = ses_token s
     \<and> ses_secrets s' DEVICE_IDENTITY_SECRET_ID = Some []"
  by (auto simp: logoutDeviceSession_def clearDeviceIdentity_def Let_def)

section \<open>The broadcast of enrollment changes\<close>

text \<open>
  The listeners in the order they subscribed; running one may fail and may change the listeners.
\<close>

type_synonym broadcast = "nat list"

definition subscribe :: "nat \<Rightarrow> broadcast \<Rightarrow> broadcast" where
  "subscribe i ls = (if i \<in> set ls then ls else ls @ [i])"

definition unsubscribe :: "nat \<Rightarrow> broadcast \<Rightarrow> broadcast" where
  "unsubscribe i ls = filter (\<lambda>j. j \<noteq> i) ls"

definition notify :: "(nat \<Rightarrow> broadcast \<times> 's \<Rightarrow> (unit, unit) result \<times> (broadcast \<times> 's)) \<Rightarrow> broadcast \<times> 's \<Rightarrow> broadcast \<times> 's" where
  "notify run s = foldl (\<lambda>t i. snd (run i t)) s (fst s)"

text \<open>Every listener of the snapshot runs once, in order, whatever the others throw or change.\<close>

lemma notify_runs_snapshot:
  assumes "\<And>i t. \<exists>r ls. run i t = (r, ls, snd t @ [i])"
  shows "snd (notify run (ls, seen)) = seen @ ls"
proof -
  have "snd (foldl (\<lambda>t i. snd (run i t)) (qs, l) is) = l @ is" for qs l "is"
  proof (induction "is" arbitrary: qs l)
    case (Cons i "is")
    obtain r ks where "run i (qs, l) = (r, ks, l @ [i])" using assms [of i "(qs, l)"] by auto
    with Cons [of ks "l @ [i]"] show ?case by simp
  qed simp
  then show ?thesis by (simp add: notify_def)
qed

end
