(* ===== verification/Persistence.thy ===== *)
theory Persistence
  imports DeviceStore "HOL-Library.Char_ord" "HOL-Library.List_Lexorder"
begin

text \<open>
  \<^verbatim>\<open>src/auth/persistence.ts\<close>: the allowlist in front of \<^verbatim>\<open>saveData\<close>.  The regular expressions are written
  as tests on the characters they match.
\<close>

section \<open>Forbidden names and values\<close>

definition ALLOWED_PLUGIN_DATA_ROOT_KEYS :: "string list" where
  "ALLOWED_PLUGIN_DATA_ROOT_KEYS = [''brokerBaseUrl'', ''allowedRootName'', ''enrollment'', ''driveRootId'',
     ''remoteFiles'', ''changesPageToken'']"

definition ALLOWED_ENROLLMENT_KEYS :: "string list" where
  "ALLOWED_ENROLLMENT_KEYS = [''pairId'', ''status'', ''expiresAtMs'']"

text \<open>An alternative \<^verbatim>\<open>a[_-]?b\<close> is the list of its words.\<close>

fun words_match :: "string list \<Rightarrow> string \<Rightarrow> bool" where
  "words_match [] s \<longleftrightarrow> s = []"
| "words_match [w] s \<longleftrightarrow> s = w"
| "words_match (w # ws) s \<longleftrightarrow> starts_with s w \<and>
     (let r = drop (length w) s in words_match ws r
        \<or> (r \<noteq> [] \<and> hd r \<in> {CHR ''_'', CHR ''-''} \<and> words_match ws (tl r)))"

definition FORBIDDEN_KEYS :: "string list list" where
  "FORBIDDEN_KEYS = [[''access'', ''token''], [''refresh'', ''token''], [''id'', ''token''], [''token''],
     [''client'', ''secret''], [''authorization'', ''code''], [''auth'', ''code''], [''code''], [''sealed'', ''lease''],
     [''lease''], [''proof''], [''proof'', ''message''], [''nonce''], [''device'', ''code''], [''session'', ''key'']]"

definition forbidden_key :: "string \<Rightarrow> bool" where
  "forbidden_key k \<longleftrightarrow> list_ex (\<lambda>ws. words_match ws (lower k)) FORBIDDEN_KEYS"

definition google_code :: "string \<Rightarrow> bool" where
  "google_code v \<longleftrightarrow> starts_with v ''1//'' \<and> length (drop 3 v) \<ge> 10 \<and> list_all is_b64url_char (drop 3 v)"

definition jwt_shape :: "string \<Rightarrow> bool" where
  "jwt_shape v \<longleftrightarrow> starts_with v ''eyJ'' \<and> (let ps = split_on (CHR ''.'') (drop 3 v)
     in length ps = 3 \<and> list_all (\<lambda>p. p \<noteq> [] \<and> list_all is_b64url_char p) ps)"

definition forbidden_value :: "string \<Rightarrow> bool" where
  "forbidden_value v \<longleftrightarrow> str_includes v ''ya29.'' \<or> str_includes v ''GOCSPX-'' \<or> google_code v \<or> jwt_shape v"

section \<open>The scan\<close>

record violations =
  secrets :: "string list"
  unsupported :: "string list"

definition no_violations :: violations where
  "no_violations = \<lparr> secrets = [], unsupported = [] \<rparr>"

definition add_violations :: "violations \<Rightarrow> violations \<Rightarrow> violations" where
  "add_violations a b = \<lparr> secrets = secrets a @ secrets b, unsupported = unsupported a @ unsupported b \<rparr>"

definition child_path :: "string \<Rightarrow> string \<Rightarrow> string" where
  "child_path path k = (if path = [] then k else path @ ''.'' @ k)"

definition allowedKeysFor :: "string \<Rightarrow> string list option" where
  "allowedKeysFor path = (if path = ''enrollment'' \<or> last (split_on (CHR ''.'') path) = ''enrollment''
     then Some ALLOWED_ENROLLMENT_KEYS else None)"

definition key_violation :: "string list option \<Rightarrow> string \<Rightarrow> string \<Rightarrow> violations" where
  "key_violation allowed k p = (if forbidden_key k then \<lparr> secrets = [p], unsupported = [] \<rparr>
     else if allowed \<noteq> None \<and> k \<notin> set (the allowed) then \<lparr> secrets = [], unsupported = [p] \<rparr> else no_violations)"

fun scan :: "jsval \<Rightarrow> string \<Rightarrow> string list option \<Rightarrow> violations"
and scan_items :: "jsval list \<Rightarrow> nat \<Rightarrow> string \<Rightarrow> violations"
and scan_entries :: "(string \<times> jsval) list \<Rightarrow> string \<Rightarrow> string list option \<Rightarrow> violations" where
  "scan (Str s) path allowed = (if forbidden_value s then \<lparr> secrets = [path], unsupported = [] \<rparr> else no_violations)"
| "scan (Arr vs) path allowed = scan_items vs 0 path"
| "scan (Obj kvs) path allowed = scan_entries kvs path allowed"
| "scan v path allowed = no_violations"
| "scan_items [] i path = no_violations"
| "scan_items (v # vs) i path = add_violations (scan v (child_path path (dec_nat i)) None) (scan_items vs (i + 1) path)"
| "scan_entries [] path allowed = no_violations"
| "scan_entries ((k, v) # kvs) path allowed = add_violations (key_violation allowed k (child_path path k))
     (add_violations (scan v (child_path path k) (allowedKeysFor (child_path path k))) (scan_entries kvs path allowed))"

definition collectViolations :: "jsval \<Rightarrow> violations" where
  "collectViolations v = scan v [] (Some ALLOWED_PLUGIN_DATA_ROOT_KEYS)"

definition findForbiddenPersistence :: "jsval \<Rightarrow> string list" where
  "findForbiddenPersistence v = (let out = collectViolations v in sort (secrets out @ unsupported out))"

text \<open>The errors carry the paths their messages list.\<close>

datatype persistence_error = HoldsSecrets "string list" | UnsupportedKeys "string list"

definition assertPersistablePluginData :: "jsval \<Rightarrow> (persistence_error, unit) result" where
  "assertPersistablePluginData v = (let out = collectViolations v
     in if secrets out \<noteq> [] then Inl (HoldsSecrets (sort (remdups (secrets out))))
        else if unsupported out \<noteq> [] then Inl (UnsupportedKeys (sort (remdups (unsupported out))))
        else Inr ())"

section \<open>Building the plugin data\<close>

record persisted_enrollment =
  pe_pairId :: "string option"
  pe_enrolled :: bool
  pe_expiresAtMs :: "rat option"

record persisted_state =
  ps_brokerBaseUrl :: string
  ps_allowedRootName :: string
  ps_enrollment :: persisted_enrollment

record legacy_state =
  leg_driveRootId :: "string option"
  leg_remoteFiles :: "jsval list option"
  leg_changesPageToken :: "string option"

definition opt_json :: "('a \<Rightarrow> jsval) \<Rightarrow> 'a option \<Rightarrow> jsval" where
  "opt_json f x = (case x of None \<Rightarrow> Null | Some a \<Rightarrow> f a)"

definition opt_member :: "string \<Rightarrow> ('a \<Rightarrow> jsval) \<Rightarrow> 'a option \<Rightarrow> (string \<times> jsval) list" where
  "opt_member k f x = (case x of None \<Rightarrow> [] | Some a \<Rightarrow> [(k, f a)])"

definition enrollment_json :: "persisted_enrollment \<Rightarrow> jsval" where
  "enrollment_json e = Obj [(''pairId'', opt_json Str (pe_pairId e)),
     (''status'', Str (if pe_enrolled e then ''enrolled'' else ''not_enrolled'')),
     (''expiresAtMs'', opt_json (\<lambda>x. Num (Fin x)) (pe_expiresAtMs e))]"

definition buildPersistedPluginData :: "persisted_state \<Rightarrow> legacy_state option \<Rightarrow> (persistence_error, jsval) result" where
  "buildPersistedPluginData i legacy =
    (let data = Obj ([(''brokerBaseUrl'', Str (ps_brokerBaseUrl i)), (''allowedRootName'', Str (ps_allowedRootName i)),
         (''enrollment'', enrollment_json (ps_enrollment i))]
       @ (case legacy of None \<Rightarrow> [] | Some l \<Rightarrow> opt_member ''driveRootId'' Str (leg_driveRootId l)
           @ opt_member ''remoteFiles'' Arr (leg_remoteFiles l)
           @ opt_member ''changesPageToken'' Str (leg_changesPageToken l)))
     in bind_result (assertPersistablePluginData data) (\<lambda>_. Inr data))"

definition toPersistedEnrollment :: "enrollment_view \<Rightarrow> persisted_enrollment" where
  "toPersistedEnrollment e = (if ev_status e = DeviceEnrolled \<and> truthy (ev_pairId e)
     then \<lparr> pe_pairId = ev_pairId e, pe_enrolled = True, pe_expiresAtMs = ev_expiresAtMs e \<rparr>
     else \<lparr> pe_pairId = None, pe_enrolled = False, pe_expiresAtMs = None \<rparr>)"

section \<open>What an accepted value cannot hold\<close>

fun subvalues :: "jsval \<Rightarrow> jsval list" where
  "subvalues (Arr vs) = Arr vs # concat (map subvalues vs)"
| "subvalues (Obj kvs) = Obj kvs # concat (map (\<lambda>(k, v). subvalues v) kvs)"
| "subvalues v = [v]"

fun clean_here :: "jsval \<Rightarrow> bool" where
  "clean_here (Str s) \<longleftrightarrow> \<not> forbidden_value s"
| "clean_here (Obj kvs) \<longleftrightarrow> (\<forall>(k, v) \<in> set kvs. \<not> forbidden_key k)"
| "clean_here v \<longleftrightarrow> True"

definition clean :: "jsval \<Rightarrow> bool" where
  "clean v \<longleftrightarrow> (\<forall>w \<in> set (subvalues v). clean_here w)"

lemma add_violations_empty [simp]:
  "secrets (add_violations a b) = [] \<longleftrightarrow> secrets a = [] \<and> secrets b = []"
  "unsupported (add_violations a b) = [] \<longleftrightarrow> unsupported a = [] \<and> unsupported b = []"
  "secrets no_violations = []" "unsupported no_violations = []"
  by (simp_all add: add_violations_def no_violations_def)

lemma key_violation_secrets [simp]: "secrets (key_violation allowed k p) = [] \<longleftrightarrow> \<not> forbidden_key k"
  by (simp add: key_violation_def)

lemma key_violation_unsupported:
  "\<not> forbidden_key k \<Longrightarrow> unsupported (key_violation (Some ks) k p) = [] \<longleftrightarrow> k \<in> set ks"
  by (simp add: key_violation_def)

lemma clean_simps [simp]:
  "clean (Str s) \<longleftrightarrow> \<not> forbidden_value s"
  "clean (Arr vs) \<longleftrightarrow> (\<forall>v \<in> set vs. clean v)"
  "clean (Obj kvs) \<longleftrightarrow> (\<forall>(k, v) \<in> set kvs. \<not> forbidden_key k \<and> clean v)"
  "clean Undefined" "clean Null" "clean (Bool b)" "clean (Num n)"
  unfolding clean_def by fastforce+

lemma scan_secrets:
  "secrets (scan v path allowed) = [] \<longleftrightarrow> clean v"
  "secrets (scan_items vs i path) = [] \<longleftrightarrow> (\<forall>v \<in> set vs. clean v)"
  "secrets (scan_entries kvs path allowed) = [] \<longleftrightarrow> (\<forall>(k, v) \<in> set kvs. \<not> forbidden_key k \<and> clean v)"
  by (induction v path allowed and vs i path and kvs path allowed rule: scan_scan_items_scan_entries.induct) auto

lemma scan_entries_keys:
  "secrets (scan_entries kvs path (Some ks)) = [] \<Longrightarrow> unsupported (scan_entries kvs path (Some ks)) = [] \<Longrightarrow>
     \<forall>(k, v) \<in> set kvs. k \<in> set ks"
  by (induction kvs) (auto simp: key_violation_unsupported)

lemma scan_entries_member:
  "(k, v) \<in> set kvs \<Longrightarrow> unsupported (scan_entries kvs path allowed) = [] \<Longrightarrow>
     unsupported (scan v (child_path path k) (allowedKeysFor (child_path path k))) = []"
  by (induction kvs) auto

text \<open>
  Where an offence is: the names and indices that lead from the data to a forbidden name or to a text
  shaped like a credential.
\<close>

inductive offends :: "jsval \<Rightarrow> string list \<Rightarrow> bool" where
  bad_text: "forbidden_value s \<Longrightarrow> offends (Str s) []"
| bad_item: "i < length vs \<Longrightarrow> offends (vs ! i) r \<Longrightarrow> offends (Arr vs) (dec_nat i # r)"
| bad_name: "(k, v) \<in> set kvs \<Longrightarrow> forbidden_key k \<Longrightarrow> offends (Obj kvs) [k]"
| bad_entry: "(k, v) \<in> set kvs \<Longrightarrow> offends v r \<Longrightarrow> offends (Obj kvs) (k # r)"

inductive_simps offends_simps [simp]:
  "offends (Str s) r" "offends (Arr vs) r" "offends (Obj kvs) r" "offends Undefined r" "offends Null r"
  "offends (Bool b) r" "offends (Num n) r"

text \<open>How a location is written: the steps joined by dots; empty names at the front leave no dot.\<close>

definition location :: "string list \<Rightarrow> string" where
  "location r = join_with ''.'' (dropWhile (\<lambda>k. k = []) r)"

lemma foldl_child_path: "p \<noteq> [] \<Longrightarrow> foldl child_path p r = join_with ''.'' (p # r)"
proof (induction r arbitrary: p)
  case (Cons k r)
  have "child_path p k = p @ ''.'' @ k" using Cons.prems by (simp add: child_path_def)
  then have "foldl child_path p (k # r) = join_with ''.'' ((p @ ''.'' @ k) # r)"
    using Cons.IH [of "p @ ''.'' @ k"] by simp
  then show ?case by (cases r) simp_all
qed simp

lemma location_child_path: "foldl child_path [] r = location r"
proof (induction r)
  case (Cons k r)
  have "child_path [] k = k" by (simp add: child_path_def)
  with Cons show ?case by (simp add: location_def foldl_child_path)
qed (simp add: location_def)

lemma secrets_set [simp]:
  "set (secrets (add_violations a b)) = set (secrets a) \<union> set (secrets b)" "set (secrets no_violations) = {}"
  "set (secrets (key_violation allowed k p)) = (if forbidden_key k then {p} else {})"
  by (simp_all add: add_violations_def no_violations_def key_violation_def)

lemma offends_Cons: "offends (Obj ((k, v) # kvs)) r \<longleftrightarrow>
    (r = [k] \<and> forbidden_key k) \<or> (\<exists>s. r = k # s \<and> offends v s) \<or> offends (Obj kvs) r"
  by auto

text \<open>The scan reports every offence below a value under the path it has come to, and nothing else.\<close>

lemma scan_locations:
  "set (secrets (scan v path allowed)) = {foldl child_path path r | r. offends v r}"
  "set (secrets (scan_items vs i path)) = {foldl child_path path (dec_nat (i + j) # r) | j r. j < length vs \<and> offends (vs ! j) r}"
  "set (secrets (scan_entries kvs path allowed)) = {foldl child_path path r | r. offends (Obj kvs) r}"
proof (induction v path allowed and vs i path and kvs path allowed rule: scan_scan_items_scan_entries.induct)
  case (6 v vs i path)
  have "{foldl child_path path (dec_nat (i + j) # r) | j r. j < length (v # vs) \<and> offends ((v # vs) ! j) r}
      = {foldl child_path path (dec_nat i # r) | r. offends v r}
        \<union> {foldl child_path path (dec_nat (i + 1 + j) # r) | j r. j < length vs \<and> offends (vs ! j) r}"
    (is "?l = ?a \<union> ?b")
  proof
    show "?l \<subseteq> ?a \<union> ?b"
    proof
      fix x assume "x \<in> ?l"
      then obtain j r where j: "x = foldl child_path path (dec_nat (i + j) # r)" "j < length (v # vs)" "offends ((v # vs) ! j) r"
        by blast
      then show "x \<in> ?a \<union> ?b" by (cases j) force+
    qed
    have "?a \<subseteq> ?l" by force
    moreover have "?b \<subseteq> ?l"
    proof
      fix x assume "x \<in> ?b"
      then obtain j r where "x = foldl child_path path (dec_nat (i + 1 + j) # r)" "j < length vs" "offends (vs ! j) r" by blast
      then show "x \<in> ?l" by (intro CollectI exI [of _ "Suc j"] exI [of _ r]) simp
    qed
    ultimately show "?a \<union> ?b \<subseteq> ?l" by blast
  qed
  with 6 show ?case by simp
next
  case (8 k v kvs path allowed)
  have "{foldl child_path path r | r. offends (Obj ((k, v) # kvs)) r} =
      {foldl child_path path r | r. r = [k] \<and> forbidden_key k} \<union> {foldl child_path path (k # s) | s. offends v s}
        \<union> {foldl child_path path r | r. offends (Obj kvs) r}"
    unfolding offends_Cons by blast
  with 8 show ?case by (simp del: offends_simps)
next
  case (2 vs path allowed)
  have "{foldl child_path path r | r. offends (Arr vs) r} =
      {foldl child_path path (dec_nat (0 + j) # r) | j r. j < length vs \<and> offends (vs ! j) r}"
    unfolding offends_simps by (rule Collect_cong, simp only: add_0, blast)
  with 2 show ?case by (simp del: offends_simps)
qed (auto simp: no_violations_def)

lemma guard_reports:
  assumes "secrets (collectViolations v) \<noteq> []"
  shows "\<exists>paths. assertPersistablePluginData v = Inl (HoldsSecrets paths) \<and> sorted paths \<and> distinct paths
    \<and> set paths = {location r | r. offends v r}"
  using assms scan_locations(1) [of v "[]" "Some ALLOWED_PLUGIN_DATA_ROOT_KEYS"]
  by (simp add: assertPersistablePluginData_def collectViolations_def Let_def location_child_path)

text \<open>
  C21: plugin data that passes the guard holds, at no depth, a key named like a token, secret, code,
  lease, proof or nonce and no string shaped like a Google credential, has only the supported keys at
  its root and in its enrollment.  Data that holds one is refused, and the error lists, in order and each
  once, exactly the locations of the offences, as dotted names and indices: no offence is left out and
  no value is in it.
\<close>
theorem persisted_data_has_no_secrets:
  "(assertPersistablePluginData (Obj kvs) = Inr () \<longrightarrow> clean (Obj kvs)
      \<and> (\<forall>(k, v) \<in> set kvs. k \<in> set ALLOWED_PLUGIN_DATA_ROOT_KEYS)
      \<and> (\<forall>e. (''enrollment'', Obj e) \<in> set kvs \<longrightarrow> (\<forall>(k, v) \<in> set e. k \<in> set ALLOWED_ENROLLMENT_KEYS)))
   \<and> (\<not> clean v \<longrightarrow> (\<exists>paths. assertPersistablePluginData v = Inl (HoldsSecrets paths) \<and> paths \<noteq> []
        \<and> sorted paths \<and> distinct paths \<and> set paths = {location r | r. offends v r}))"
proof (intro conjI impI)
  assume ok: "assertPersistablePluginData (Obj kvs) = Inr ()"
  then have s: "secrets (scan_entries kvs [] (Some ALLOWED_PLUGIN_DATA_ROOT_KEYS)) = []"
    and u: "unsupported (scan_entries kvs [] (Some ALLOWED_PLUGIN_DATA_ROOT_KEYS)) = []"
    by (auto simp: assertPersistablePluginData_def collectViolations_def Let_def split: if_splits)
  from s show "clean (Obj kvs)" by (simp add: scan_secrets)
  from s u show "\<forall>(k, v) \<in> set kvs. k \<in> set ALLOWED_PLUGIN_DATA_ROOT_KEYS" by (rule scan_entries_keys)
  show "\<forall>e. (''enrollment'', Obj e) \<in> set kvs \<longrightarrow> (\<forall>(k, v) \<in> set e. k \<in> set ALLOWED_ENROLLMENT_KEYS)"
  proof (intro allI impI)
    fix e assume e: "(''enrollment'', Obj e) \<in> set kvs"
    have "unsupported (scan_entries e ''enrollment'' (Some ALLOWED_ENROLLMENT_KEYS)) = []"
      using scan_entries_member [OF e u] by (simp add: child_path_def allowedKeysFor_def)
    moreover have "clean (Obj e)" using bspec [OF iffD1 [OF clean_simps(3) \<open>clean (Obj kvs)\<close>] e] by simp
    ultimately show "\<forall>(k, v) \<in> set e. k \<in> set ALLOWED_ENROLLMENT_KEYS"
      by (intro scan_entries_keys) (simp_all add: scan_secrets)
  qed
next
  assume "\<not> clean v"
  then have some: "secrets (collectViolations v) \<noteq> []" by (simp add: collectViolations_def scan_secrets)
  have "set (sort (remdups (secrets (collectViolations v)))) \<noteq> {}" using some by (simp add: set_empty)
  with guard_reports [OF some] some show "\<exists>paths. assertPersistablePluginData v = Inl (HoldsSecrets paths) \<and> paths \<noteq> []
        \<and> sorted paths \<and> distinct paths \<and> set paths = {location r | r. offends v r}"
    by (force simp: assertPersistablePluginData_def Let_def)
qed

theorem persisted_data_has_no_secrets_witness:
  "assertPersistablePluginData (Obj [(''driveRootId'', Str ''r'')]) = Inr ()
   \<and> (\<exists>paths. assertPersistablePluginData (Obj [(''remoteFiles'', Arr [Obj [(''Access_Token'', Str ''x'')]])])
        = Inl (HoldsSecrets paths) \<and> set paths = {''remoteFiles.0.Access_Token''})"
proof
  show "assertPersistablePluginData (Obj [(''driveRootId'', Str ''r'')]) = Inr ()" by code_simp
  let ?v = "Obj [(''remoteFiles'', Arr [Obj [(''Access_Token'', Str ''x'')]])]"
  have key: "\<not> forbidden_key ''remoteFiles''" "forbidden_key ''Access_Token''" "\<not> forbidden_value ''x''"
    "location [''remoteFiles'', dec_nat 0, ''Access_Token''] = ''remoteFiles.0.Access_Token''"
    by code_simp+
  have "\<not> clean ?v" by (simp add: key)
  moreover have "offends ?v r \<longleftrightarrow> r = [''remoteFiles'', dec_nat 0, ''Access_Token'']" for r by (auto simp: key)
  ultimately show "\<exists>paths. assertPersistablePluginData ?v = Inl (HoldsSecrets paths)
      \<and> set paths = {''remoteFiles.0.Access_Token''}"
    using persisted_data_has_no_secrets [of "[]" ?v] key(4) by auto
qed

lemma built_data_accepted: "buildPersistedPluginData i l = Inr v \<Longrightarrow> assertPersistablePluginData v = Inr ()"
  by (auto simp: buildPersistedPluginData_def Let_def bind_result_def split: sum.splits)

text \<open>Only an enrolled view is written as enrolled: a pairing that awaits consent is not.\<close>

lemma only_enrolled_persisted:
  "pe_enrolled (toPersistedEnrollment e) \<longleftrightarrow> ev_status e = DeviceEnrolled \<and> truthy (ev_pairId e)"
  "\<not> pe_enrolled (toPersistedEnrollment e) \<Longrightarrow> pe_pairId (toPersistedEnrollment e) = None"
  by (auto simp: toPersistedEnrollment_def)

end
