(* ===== verification/PluginSettings.thy ===== *)
theory PluginSettings
  imports Persistence Broker "HOL-Library.Sublist"
begin

text \<open>
  \<^verbatim>\<open>src/settings.ts\<close>, \<^verbatim>\<open>src/settings-write-queue.ts\<close> and \<^verbatim>\<open>src/release-gate.ts\<close>: normalisation of the
  operator's settings, the queue of plugin-data writes and the gate in front of Drive requests.
\<close>

section \<open>Settings\<close>

record plugin_settings =
  set_driveRootId :: string
  set_changesPageToken :: "string option"
  set_remoteFiles :: "jsval list"
  set_brokerBaseUrl :: string
  set_allowedRootName :: string
  set_enrollmentCode :: string

definition DEFAULT_BROKER_BASE_URL :: string where "DEFAULT_BROKER_BASE_URL = []"
definition UNCONFIGURED_BROKER_BASE_URL :: string where "UNCONFIGURED_BROKER_BASE_URL = ''https://broker.invalid''"
definition UNCONFIGURED_ROOT_NAME :: string where "UNCONFIGURED_ROOT_NAME = ''__gdrive-stream-root-not-configured__''"

definition DEFAULT_SETTINGS :: plugin_settings where
  "DEFAULT_SETTINGS = \<lparr> set_driveRootId = [], set_changesPageToken = None, set_remoteFiles = [],
     set_brokerBaseUrl = DEFAULT_BROKER_BASE_URL, set_allowedRootName = [], set_enrollmentCode = [] \<rparr>"

definition brokerBaseUrlForRuntime :: "(string \<Rightarrow> parsed_url option) \<Rightarrow> string \<Rightarrow> (url_error, string) result" where
  "brokerBaseUrlForRuntime U v = (if trim v = [] then Inr UNCONFIGURED_BROKER_BASE_URL else validateBrokerBaseUrl U v)"

definition normalizeAllowedRootName :: "string \<Rightarrow> string" where
  "normalizeAllowedRootName v = (let t = trim v
     in if t = [] then [] else if length t > 256 then [] else if list_ex is_control t then []
        else if CHR ''/'' \<in> set t \<or> CHR 0x5C \<in> set t then [] else if t = ''.'' \<or> t = ''..'' then [] else t)"

definition allowedRootNameForRuntime :: "string \<Rightarrow> string" where
  "allowedRootNameForRuntime v = (let n = normalizeAllowedRootName v in if n = [] then UNCONFIGURED_ROOT_NAME else n)"

definition normalizeBrokerBaseUrl :: "(string \<Rightarrow> parsed_url option) \<Rightarrow> string \<Rightarrow> string" where
  "normalizeBrokerBaseUrl U v = (if trim v = [] then [] else case validateBrokerBaseUrl U v of Inl _ \<Rightarrow> [] | Inr b \<Rightarrow> b)"

definition brokerChangeInvalidatesEnrollment :: "(string \<Rightarrow> parsed_url option) \<Rightarrow> string \<Rightarrow> string \<Rightarrow> bool" where
  "brokerChangeInvalidatesEnrollment U current nextInput \<longleftrightarrow> normalizeBrokerBaseUrl U current \<noteq> normalizeBrokerBaseUrl U nextInput"

definition rootChangeInvalidatesEnrollment :: "string \<Rightarrow> string \<Rightarrow> bool" where
  "rootChangeInvalidatesEnrollment current nextInput \<longleftrightarrow> normalizeAllowedRootName current \<noteq> normalizeAllowedRootName nextInput"

text \<open>The persistable projection; the enrollment code is not one of its fields.\<close>

record persisted_settings =
  per_brokerBaseUrl :: string
  per_allowedRootName :: string
  per_driveRootId :: string
  per_remoteFiles :: "jsval list"
  per_changesPageToken :: "string option"

definition toPersistedSettings :: "(string \<Rightarrow> parsed_url option) \<Rightarrow> plugin_settings \<Rightarrow> (url_error, persisted_settings) result" where
  "toPersistedSettings U s = (let configured = trim (set_brokerBaseUrl s) in
     bind_result (if configured = [] then Inr [] else validateBrokerBaseUrl U configured) (\<lambda>b.
       Inr \<lparr> per_brokerBaseUrl = b, per_allowedRootName = normalizeAllowedRootName (set_allowedRootName s),
         per_driveRootId = set_driveRootId s, per_remoteFiles = set_remoteFiles s,
         per_changesPageToken = set_changesPageToken s \<rparr>))"

text \<open>A single folder name: both sides refuse the same characters and lengths.\<close>

definition folder_name :: "string \<Rightarrow> bool" where
  "folder_name t \<longleftrightarrow> length t \<le> 256 \<and> \<not> list_ex (\<lambda>c. is_control c \<or> c = CHR ''/'' \<or> c = CHR 0x5C) t
     \<and> t \<noteq> ''.'' \<and> t \<noteq> ''..''"

lemma normalizeAllowedRootName_eq: "normalizeAllowedRootName v = (if folder_name (trim v) then trim v else [])"
proof -
  have "list_ex (\<lambda>c. is_control c \<or> c = CHR ''/'' \<or> c = CHR 0x5C) t \<longleftrightarrow>
      list_ex is_control t \<or> CHR ''/'' \<in> set t \<or> CHR 0x5C \<in> set t" for t
    by (auto simp: list_ex_iff)
  then show ?thesis
    by (simp add: normalizeAllowedRootName_def folder_name_def Let_def del: list_ex_iff)
qed

lemma valid_allowed_root_eq: "valid_allowed_root (Str s) = (if s \<noteq> [] \<and> s = trim s \<and> folder_name s then Some s else None)"
proof -
  have "trim s = [] \<and> s = trim s \<longleftrightarrow> s = []" by auto
  then show ?thesis
    by (simp add: valid_allowed_root_def folder_name_def)
qed

lemma normalizeAllowedRootName_idem [simp]:
  "normalizeAllowedRootName (normalizeAllowedRootName s) = normalizeAllowedRootName s"
  by (simp add: normalizeAllowedRootName_eq)

text \<open>
  C29: the plugin and the broker accept the same root folder names: a name is valid for the broker exactly
  if the plugin's normalisation keeps it and it is not empty, and whatever the operator types, the
  normalised name is empty or one the broker accepts unchanged.
\<close>
theorem root_names_agree:
  "(valid_allowed_root (Str s) = Some s \<longleftrightarrow> s \<noteq> [] \<and> normalizeAllowedRootName s = s)
   \<and> (normalizeAllowedRootName s = []
      \<or> valid_allowed_root (Str (normalizeAllowedRootName s)) = Some (normalizeAllowedRootName s))"
proof (cases "s = []")
  case True
  then show ?thesis by (simp add: valid_allowed_root_eq normalizeAllowedRootName_eq)
next
  case False
  then show ?thesis
    by (cases "folder_name (trim s)"; cases "trim s = s") (auto simp: valid_allowed_root_eq normalizeAllowedRootName_eq)
qed

section \<open>The write queue\<close>

text \<open>
  The chain of promises is the list of the writes whose turn has not come; \<open>Turn\<close> is the microtask that
  starts the next one after the one before settled.  \<open>wq_started\<close> records the writes begun.
\<close>

record 'w write_queue =
  wq_latest :: nat
  wq_pending :: "(nat \<times> 'w) list"
  wq_running :: "'w option"
  wq_started :: "'w list"

datatype 'w queue_event = Enqueue 'w | Turn | Settled bool

definition new_write_queue :: "'w write_queue" where
  "new_write_queue = \<lparr> wq_latest = 0, wq_pending = [], wq_running = None, wq_started = [] \<rparr>"

fun queue_step :: "'w queue_event \<Rightarrow> 'w write_queue \<Rightarrow> 'w write_queue" where
  "queue_step (Enqueue w) q = q\<lparr> wq_latest := wq_latest q + 1, wq_pending := wq_pending q @ [(wq_latest q + 1, w)] \<rparr>"
| "queue_step Turn q = (case (wq_running q, wq_pending q) of
     (None, (r, w) # rest) \<Rightarrow> if r \<noteq> wq_latest q then q\<lparr> wq_pending := rest \<rparr>
       else q\<lparr> wq_pending := rest, wq_running := Some w, wq_started := wq_started q @ [w] \<rparr>
   | _ \<Rightarrow> q)"
| "queue_step (Settled ok) q = q\<lparr> wq_running := None \<rparr>"

definition run_queue :: "'w queue_event list \<Rightarrow> 'w write_queue \<Rightarrow> 'w write_queue" where
  "run_queue es q = foldl (\<lambda>q e. queue_step e q) q es"

fun enqueued :: "'w queue_event list \<Rightarrow> 'w list" where
  "enqueued [] = []"
| "enqueued (Enqueue w # es) = w # enqueued es"
| "enqueued (e # es) = enqueued es"

lemma enqueued_append [simp]: "enqueued (es @ fs) = enqueued es @ enqueued fs"
  by (induction es rule: enqueued.induct) auto

text \<open>The waiting writes are the last ones enqueued, with consecutive revisions.\<close>

definition queue_ok :: "'w list \<Rightarrow> 'w write_queue \<Rightarrow> bool" where
  "queue_ok ws q \<longleftrightarrow> wq_latest q = length ws
     \<and> (\<exists>k \<le> length ws. wq_pending q = zip [k + 1..<length ws + 1] (drop k ws) \<and> subseq (wq_started q) (take k ws)
         \<and> (k = length ws \<and> ws \<noteq> [] \<longrightarrow> wq_started q \<noteq> [] \<and> last (wq_started q) = last ws))"

lemma queue_ok_enqueue: "queue_ok ws q \<Longrightarrow> queue_ok (ws @ [w]) (queue_step (Enqueue w) q)"
proof -
  assume "queue_ok ws q"
  then obtain k where k: "wq_latest q = length ws" "k \<le> length ws"
    "wq_pending q = zip [k + 1..<length ws + 1] (drop k ws)" "subseq (wq_started q) (take k ws)"
    unfolding queue_ok_def by blast
  have "zip [k + 1..<length ws + 2] (drop k ws @ [w]) = zip [k + 1..<length ws + 1] (drop k ws) @ [(length ws + 1, w)]"
  proof -
    have "[k + 1..<length ws + 2] = [k + 1..<length ws + 1] @ [length ws + 1]" using k(2) by simp
    then show ?thesis using k(2) by (simp del: upt_Suc)
  qed
  with k show ?thesis unfolding queue_ok_def by (intro conjI exI [of _ k]) (auto simp del: upt_Suc)
qed

lemma queue_ok_turn:
  assumes "queue_ok ws q"
  shows "queue_ok ws (queue_step Turn q)"
proof (cases "wq_running q = None \<and> wq_pending q \<noteq> []")
  case False
  then show ?thesis using assms by (auto split: list.split option.split)
next
  case True
  from assms obtain k where k: "wq_latest q = length ws" "k \<le> length ws"
    "wq_pending q = zip [k + 1..<length ws + 1] (drop k ws)" "subseq (wq_started q) (take k ws)"
    unfolding queue_ok_def by blast
  with True have lt: "k < length ws" by auto
  then have pending: "wq_pending q = (k + 1, ws ! k) # zip [k + 2..<length ws + 1] (drop (k + 1) ws)"
    using k(3) by (simp add: upt_conv_Cons Cons_nth_drop_Suc [symmetric] del: upt_Suc)
  have sub: "subseq (wq_started q) (take (k + 1) ws)" "subseq (wq_started q @ [ws ! k]) (take (k + 1) ws)"
    using k(4) lt by (simp_all add: take_Suc_conv_app_nth list_emb_append_mono list_emb_prefix)
  show ?thesis
  proof (cases "k + 1 = length ws")
    case reached: True
    then have "last ws = ws ! k" using lt last_conv_nth [of ws] by (cases ws rule: rev_cases) auto
    then show ?thesis using True pending sub k(1) reached unfolding queue_ok_def
      by (intro conjI exI [of _ "k + 1"]) auto
  next
    case later: False
    then show ?thesis using True pending sub k(1) lt unfolding queue_ok_def
      by (intro conjI exI [of _ "k + 1"]) auto
  qed
qed

lemma queue_ok_settled: "queue_ok ws q \<Longrightarrow> queue_ok ws (queue_step (Settled ok) q)"
  by (simp add: queue_ok_def)

lemma queue_ok_run: "queue_ok ws q \<Longrightarrow> queue_ok (ws @ enqueued es) (run_queue es q)"
proof (induction es arbitrary: ws q)
  case (Cons e es)
  have "queue_ok (ws @ enqueued [e]) (queue_step e q)"
    using queue_ok_enqueue queue_ok_turn queue_ok_settled Cons.prems by (cases e) auto
  with Cons.IH [of "ws @ enqueued [e]" "queue_step e q"] show ?case
    using enqueued_append [of "[e]" es] by (simp add: run_queue_def)
qed (simp add: run_queue_def)

text \<open>Each turn after the running write settled takes one waiting write, so the queue drains.\<close>

definition drain :: "nat \<Rightarrow> bool \<Rightarrow> 'w queue_event list" where
  "drain n ok = concat (replicate n [Settled ok, Turn])"

lemma drain_empties: "wq_pending (run_queue (drain (length (wq_pending q)) ok) q) = []"
proof (induction "length (wq_pending q)" arbitrary: q)
  case (Suc n)
  then obtain r w rest where p: "wq_pending q = (r, w) # rest" by (cases "wq_pending q") auto
  let ?q = "queue_step Turn (queue_step (Settled ok) q)"
  have "wq_pending ?q = rest" using p by simp
  moreover have "run_queue (drain (length (wq_pending q)) ok) q = run_queue (drain (length rest) ok) ?q"
    by (simp add: run_queue_def drain_def p)
  ultimately show ?case using Suc.hyps(1) [of ?q] Suc.hyps(2) p by simp
qed (simp add: drain_def run_queue_def)

lemma enqueued_drain [simp]: "enqueued (drain n ok) = []"
  by (induction n) (simp_all add: drain_def)



section \<open>The release gate\<close>

definition driveRuntimeStatus :: "bool \<times> bool" where
  "driveRuntimeStatus = (False, False)"

definition driveAccessDecision :: "bool \<Rightarrow> bool \<Rightarrow> bool" where
  "driveAccessDecision enrolled validLease \<longleftrightarrow> (if \<not> enrolled then False else if \<not> validLease then False else True)"

end
