(* ===== verification/CachePaths.thy ===== *)
theory CachePaths
  imports FormUrl
begin

text \<open>
  \<^verbatim>\<open>src/core/path.ts\<close>, \<^verbatim>\<open>cache-policy.ts\<close>, \<^verbatim>\<open>conflict.ts\<close> and \<^verbatim>\<open>remote-index.ts\<close>: where a Drive file is
  cached, which cached files are evicted, how a write is decided, and the index of remote files.  Sizes
  and times are integers; the host's \<^verbatim>\<open>localeCompare\<close> is an argument.
\<close>

section \<open>Cache paths\<close>

definition PLUGIN_CACHE_ROOT :: string where "PLUGIN_CACHE_ROOT = ''_gdrive-stream-cache''"

definition safe_part :: "string \<Rightarrow> bool" where
  "safe_part p \<longleftrightarrow> p \<noteq> [] \<and> p \<noteq> ''.'' \<and> p \<noteq> ''..''"

definition isSafeRemotePath :: "string \<Rightarrow> bool" where
  "isSafeRemotePath p = (if p = [] \<or> starts_with p ''/'' \<or> CHR 0x5C \<in> set p then False
     else list_all safe_part (split_on (CHR ''/'') p))"

definition isPluginCacheRoot :: "string \<Rightarrow> bool" where
  "isPluginCacheRoot v \<longleftrightarrow> v = PLUGIN_CACHE_ROOT"

definition cachePathForRemotePath :: "string \<Rightarrow> string \<Rightarrow> string option" where
  "cachePathForRemotePath cacheRoot remotePath =
     (if \<not> isPluginCacheRoot cacheRoot \<or> \<not> isSafeRemotePath remotePath then None
      else Some (cacheRoot @ CHR ''/'' # remotePath))"

definition cachePathForRemoteFile :: "string \<Rightarrow> string \<Rightarrow> string \<Rightarrow> string option" where
  "cachePathForRemoteFile cacheRoot driveFileId displayName =
     (if \<not> isPluginCacheRoot cacheRoot \<or> driveFileId = [] \<or> displayName = [] then None
      else Some (cacheRoot @ ''/by-id/'' @ encodeURIComponent driveFileId @ CHR ''/'' # encodeURIComponent displayName))"

section \<open>Evictions and write decisions\<close>

record cache_entry =
  entry_id :: string
  entry_bytes :: int
  entry_pinned :: bool
  entry_lastAccessed :: int

fun evict_loop :: "int \<Rightarrow> int \<Rightarrow> cache_entry list \<Rightarrow> string list" where
  "evict_loop held limit [] = []"
| "evict_loop held limit (e # es) =
     (if held \<le> limit then [] else entry_id e # evict_loop (held - entry_bytes e) limit es)"

definition total_bytes :: "cache_entry list \<Rightarrow> int" where
  "total_bytes es = sum_list (map entry_bytes es)"

definition lru_candidates :: "cache_entry list \<Rightarrow> cache_entry list" where
  "lru_candidates es = sort_key entry_lastAccessed (filter (\<lambda>e. \<not> entry_pinned e) es)"

definition selectEvictions :: "cache_entry list \<Rightarrow> int \<Rightarrow> string list" where
  "selectEvictions es limit = (if total_bytes es \<le> limit then [] else evict_loop (total_bytes es) limit (lru_candidates es))"

datatype write_decision = Upload | Conflict | Refresh | Noop

definition decideWrite :: "bool \<Rightarrow> string \<Rightarrow> string \<Rightarrow> write_decision" where
  "decideWrite localChanged baseRevision remoteRevision =
    (if \<not> localChanged then (if baseRevision = remoteRevision then Noop else Refresh)
     else if baseRevision = remoteRevision then Upload else Conflict)"

section \<open>The remote index\<close>

record remote_file =
  rf_id :: string
  rf_name :: string
  rf_path :: string
  rf_parentId :: "string option"
  rf_mimeType :: string
  rf_modifiedTime :: string
  rf_revision :: string
  rf_size :: number
  rf_trashed :: bool

type_synonym remote_index = "(string, remote_file) omap"

definition upsert :: "remote_file \<Rightarrow> remote_index \<Rightarrow> remote_index" where
  "upsert f ix = mput (rf_id f) f ix"

definition index_remove :: "string \<Rightarrow> remote_index \<Rightarrow> remote_index" where
  "index_remove i ix = mdel i ix"

definition index_move :: "string \<Rightarrow> string \<Rightarrow> string option \<Rightarrow> string \<Rightarrow> string \<Rightarrow> remote_index \<Rightarrow> remote_index option" where
  "index_move i path parentId modifiedTime revision ix = (case mget ix i of None \<Rightarrow> None
     | Some f \<Rightarrow> Some (mput i (f\<lparr> rf_name := last (split_on (CHR ''/'') path), rf_path := path, rf_parentId := parentId,
         rf_modifiedTime := modifiedTime, rf_revision := revision \<rparr>) ix))"

text \<open>A stable sort by the host's comparison, and the search over it.\<close>

fun insert_by :: "('a \<Rightarrow> 'a \<Rightarrow> int) \<Rightarrow> 'a \<Rightarrow> 'a list \<Rightarrow> 'a list" where
  "insert_by cmp x [] = [x]"
| "insert_by cmp x (y # ys) = (if cmp x y \<le> 0 then x # y # ys else y # insert_by cmp x ys)"

definition sort_by :: "('a \<Rightarrow> 'a \<Rightarrow> int) \<Rightarrow> 'a list \<Rightarrow> 'a list" where
  "sort_by cmp xs = foldr (insert_by cmp) xs []"

definition search :: "(string \<Rightarrow> string \<Rightarrow> int) \<Rightarrow> string \<Rightarrow> remote_index \<Rightarrow> remote_file list" where
  "search localeCompare query ix =
    (let needle = lower (trim query)
     in sort_by (\<lambda>a b. localeCompare (rf_path a) (rf_path b))
          (filter (\<lambda>f. \<not> rf_trashed f \<and> (needle = [] \<or> str_includes (lower (rf_path f)) needle)) (mvalues ix)))"

definition index_values :: "(string \<Rightarrow> string \<Rightarrow> int) \<Rightarrow> remote_index \<Rightarrow> remote_file list" where
  "index_values localeCompare ix = search localeCompare [] ix"

definition serialize :: "remote_index \<Rightarrow> remote_file list" where
  "serialize ix = mvalues ix"

definition load_index :: "remote_file list \<Rightarrow> remote_index" where
  "load_index fs = fold upsert fs []"

section \<open>What the policies guarantee\<close>

lemma evict_loop_take:
  "\<exists>n. evict_loop t limit es = map entry_id (take n es) \<and> n \<le> length es
     \<and> (t - total_bytes (take n es) \<le> limit \<or> n = length es)
     \<and> (\<forall>k<n. t - total_bytes (take k es) > limit)"
proof (induction es arbitrary: t)
  case (Cons e es)
  show ?case
  proof (cases "t \<le> limit")
    case True
    then show ?thesis by (intro exI [of _ 0]) (simp add: total_bytes_def)
  next
    case False
    from Cons [of "t - entry_bytes e"] obtain n where n:
      "evict_loop (t - entry_bytes e) limit es = map entry_id (take n es)" "n \<le> length es"
      "t - entry_bytes e - total_bytes (take n es) \<le> limit \<or> n = length es"
      "\<forall>k<n. t - entry_bytes e - total_bytes (take k es) > limit" by blast
    have "t - total_bytes (take k (e # es)) > limit" if "k < Suc n" for k
      using that n(4) False by (cases k) (auto simp: total_bytes_def algebra_simps)
    with n(1-3) False show ?thesis
      by (intro exI [of _ "Suc n"]) (auto simp: total_bytes_def algebra_simps)
  qed
qed (simp add: total_bytes_def)

text \<open>
  Evictions take the least recently used files and no more than needed.  They are the first
  candidates in the order of last access, never a pinned one; together they bring the cache into its
  budget, or every unpinned file is evicted; and stopping one file earlier would leave it over.
\<close>
theorem evictions_least_recent:
  "\<exists>n. selectEvictions es limit = map entry_id (take n (lru_candidates es))
    \<and> (total_bytes es - total_bytes (take n (lru_candidates es)) \<le> limit \<or> n = length (lru_candidates es))
    \<and> list_all (\<lambda>k. total_bytes es - total_bytes (take k (lru_candidates es)) > limit) [0..<n]
    \<and> sorted (map entry_lastAccessed (lru_candidates es))
    \<and> set (lru_candidates es) = {e \<in> set es. \<not> entry_pinned e}"
proof -
  obtain n where "selectEvictions es limit = map entry_id (take n (lru_candidates es))"
    "total_bytes es - total_bytes (take n (lru_candidates es)) \<le> limit \<or> n = length (lru_candidates es)"
    "\<forall>k<n. total_bytes es - total_bytes (take k (lru_candidates es)) > limit"
  proof (cases "total_bytes es \<le> limit")
    case True
    then show ?thesis by (intro that [of 0]) (simp_all add: selectEvictions_def total_bytes_def)
  next
    case False
    with evict_loop_take [of "total_bytes es" limit "lru_candidates es"] that show ?thesis
      by (auto simp: selectEvictions_def)
  qed
  then show ?thesis by (intro exI [of _ n]) (auto simp: lru_candidates_def list_all_iff)
qed


section \<open>Cache paths never collide\<close>

lemma uri_byte_cases:
  obtains (plain) "uri_byte b = [char_of (unat b)]" "uri_safe (unat b)"
  | (percent) "uri_byte b = CHR ''%'' # hex_digit_upper (unat b div 16) # [hex_digit_upper (unat b mod 16)]"
  by (cases "uri_safe (unat b)") (auto simp: uri_byte_def percent_byte_def)

lemma safe_char:
  assumes "uri_safe n"
  shows "code (char_of n) = n" "char_of n \<noteq> CHR ''%''" "char_of n \<noteq> CHR ''/''"
proof -
  from assms have n: "n < 256" "n \<noteq> 37" "n \<noteq> 47" by (auto simp: uri_safe_def)
  then show "code (char_of n) = n" by (simp add: code_char_of)
  with n have "code (char_of n) \<noteq> code (CHR ''%'')" "code (char_of n) \<noteq> code (CHR ''/'')" by simp_all
  then show "char_of n \<noteq> CHR ''%''" "char_of n \<noteq> CHR ''/''" by metis+
qed

lemma uri_plain_code: "uri_safe (unat b) \<Longrightarrow> code (char_of (unat b)) = unat b \<and> char_of (unat b) \<noteq> CHR ''%''"
  using safe_char [of "unat b"] by blast

lemma hex_upper_inject: "m < 16 \<Longrightarrow> n < 16 \<Longrightarrow> hex_digit_upper m = hex_digit_upper n \<Longrightarrow> m = n"
  using hex_value_upper by (metis option.inject)

lemma byte_nibbles: "unat (b :: byte) div 16 < 16" "unat b mod 16 < 16"
  using unat_byte [of b] by simp_all

lemma prefix_free_uri: "prefix_free uri_byte"
  unfolding prefix_free_def
proof (intro conjI allI impI)
  fix a b :: byte and x y
  assume eq: "uri_byte a @ x = uri_byte b @ y"
  have "unat a = unat b"
  proof (cases a rule: uri_byte_cases)
    case plain
    note pa = this
    show ?thesis
    proof (cases b rule: uri_byte_cases)
      case plain
      with eq pa uri_plain_code [of a] uri_plain_code [of b] show ?thesis by (metis append_Cons list.inject)
    next
      case percent
      with eq pa uri_plain_code [of a] show ?thesis by simp
    qed
  next
    case percent
    note pa = this
    show ?thesis
    proof (cases b rule: uri_byte_cases)
      case plain
      with eq pa uri_plain_code [of b] show ?thesis by simp
    next
      case percent
      with eq pa have "unat a div 16 = unat b div 16" "unat a mod 16 = unat b mod 16"
        using hex_upper_inject [OF byte_nibbles(1) byte_nibbles(1)] hex_upper_inject [OF byte_nibbles(2) byte_nibbles(2)]
        by auto
      then show ?thesis by (metis div_mult_mod_eq)
    qed
  qed
  then show "a = b" by (simp add: word_unat_eq_iff)
next
  fix a :: byte
  show "uri_byte a \<noteq> []" by (cases a rule: uri_byte_cases) simp_all
qed

lemma encodeURIComponent_inject: "encodeURIComponent s = encodeURIComponent t \<Longrightarrow> s = t"
  unfolding encodeURIComponent_def by (rule utf8_inject [OF prefix_free_concat_inject [OF prefix_free_uri]])

lemma hex_upper_no_slash: "n < 16 \<Longrightarrow> hex_digit_upper n \<noteq> CHR ''/''"
proof
  assume "n < 16" "hex_digit_upper n = CHR ''/''"
  then have "code (CHR ''/'') = (if n < 10 then 48 + n else 55 + n)" using hex_upper_code [of n] by metis
  then show False by (simp split: if_splits)
qed

lemma encoded_no_slash: "CHR ''/'' \<notin> set (encodeURIComponent s)"
proof -
  have "CHR ''/'' \<notin> set (uri_byte b)" for b
  proof (cases b rule: uri_byte_cases)
    case plain
    with safe_char(3) [of "unat b"] show ?thesis by auto
  next
    case percent
    with hex_upper_no_slash [OF byte_nibbles(1) [of b]] hex_upper_no_slash [OF byte_nibbles(2) [of b]]
    show ?thesis by auto
  qed
  then show ?thesis by (simp add: encodeURIComponent_def)
qed

lemma encoded_dot: "encodeURIComponent s = ''.'' \<longleftrightarrow> s = ''.''" "encodeURIComponent s = ''..'' \<longleftrightarrow> s = ''..''"
  "encodeURIComponent s = [] \<longleftrightarrow> s = []"
proof -
  have "encodeURIComponent ''.'' = ''.'' \<and> encodeURIComponent ''..'' = ''..'' \<and> encodeURIComponent [] = []" by code_simp
  then show "encodeURIComponent s = ''.'' \<longleftrightarrow> s = ''.''" "encodeURIComponent s = ''..'' \<longleftrightarrow> s = ''..''"
    "encodeURIComponent s = [] \<longleftrightarrow> s = []"
    using encodeURIComponent_inject by metis+
qed

lemma cache_path_parts:
  assumes "cachePathForRemoteFile cacheRoot i n = Some p"
  shows "split_on (CHR ''/'') p = [PLUGIN_CACHE_ROOT, ''by-id'', encodeURIComponent i, encodeURIComponent n]"
proof -
  from assms have p: "p = PLUGIN_CACHE_ROOT @ CHR ''/'' # ''by-id'' @ CHR ''/'' # encodeURIComponent i
      @ CHR ''/'' # encodeURIComponent n"
    by (auto simp: cachePathForRemoteFile_def isPluginCacheRoot_def split: if_splits)
  have "CHR ''/'' \<notin> set PLUGIN_CACHE_ROOT" "CHR ''/'' \<notin> set ''by-id''" by (simp_all add: PLUGIN_CACHE_ROOT_def)
  then show ?thesis
    unfolding p by (simp only: split_on_append split_on_absent encoded_no_slash not_False_eq_True)
qed

text \<open>
  C40: two Drive files never share a cache path, whatever their ids and display names contain; the path
  has exactly four parts, the last two the encoded id and name; and it is a path without dot segments
  exactly when neither the id nor the name is one of the names of a single or a double dot, which the
  encoder leaves as they are.
\<close>
theorem cache_paths_never_collide:
  assumes "cachePathForRemoteFile cacheRoot i n = Some p" "cachePathForRemoteFile cacheRoot' i' n' = Some p'"
  shows "(p = p' \<longleftrightarrow> i = i' \<and> n = n')
    \<and> split_on (CHR ''/'') p = [PLUGIN_CACHE_ROOT, ''by-id'', encodeURIComponent i, encodeURIComponent n]
    \<and> (list_all safe_part (split_on (CHR ''/'') p) \<longleftrightarrow> {i, n} \<inter> {''.'', ''..''} = {})"
proof -
  note parts = cache_path_parts [OF assms(1)] cache_path_parts [OF assms(2)]
  have "i \<noteq> []" "n \<noteq> []" using assms(1) by (auto simp: cachePathForRemoteFile_def split: if_splits)
  moreover have "p = p'" if "i = i'" "n = n'"
    using assms that by (auto simp: cachePathForRemoteFile_def isPluginCacheRoot_def split: if_splits)
  moreover have "i = i' \<and> n = n'" if "p = p'"
    using parts that encodeURIComponent_inject by auto
  moreover have "safe_part PLUGIN_CACHE_ROOT \<and> safe_part ''by-id''" by code_simp
  ultimately show ?thesis
    using parts(1) by (auto simp: safe_part_def encoded_dot)
qed

theorem cache_paths_never_collide_witness:
  "\<exists>p p'. cachePathForRemoteFile PLUGIN_CACHE_ROOT ''1'' ''a/b'' = Some p \<and> cachePathForRemoteFile PLUGIN_CACHE_ROOT ''1'' ''..'' = Some p'
     \<and> p \<noteq> p' \<and> \<not> list_all safe_part (split_on (CHR ''/'') p')"
proof -
  obtain p p' where p: "cachePathForRemoteFile PLUGIN_CACHE_ROOT ''1'' ''a/b'' = Some p"
    "cachePathForRemoteFile PLUGIN_CACHE_ROOT ''1'' ''..'' = Some p'"
    by (simp add: cachePathForRemoteFile_def isPluginCacheRoot_def)
  from cache_paths_never_collide [OF p] cache_paths_never_collide [OF p(2) p(1)] p show ?thesis by auto
qed

end
