(* ===== verification/MetadataIndex.thy ===== *)
theory MetadataIndex
  imports CachePaths "HOL-Library.Multiset"
begin

text \<open>
  \<^verbatim>\<open>src/drive/metadata-index.ts\<close>: the plugin's index of listed Drive metadata and its search.
  \<^verbatim>\<open>Date.parse\<close> (\<open>None\<close> for NaN) and \<^verbatim>\<open>localeCompare\<close> are the host's and are arguments.
\<close>

record indexed_metadata =
  im_id :: string
  im_name :: string
  im_parentId :: "string option"
  im_mimeType :: string
  im_modifiedTime :: string
  im_size :: number

record search_query =
  sq_name :: "string option"
  sq_mimeType :: "string option"
  sq_modifiedAfter :: "string option"
  sq_modifiedBefore :: "string option"
  sq_parentId :: "string option"
  sq_limit :: "number option"

type_synonym metadata_index = "(string, indexed_metadata) omap"

definition DEFAULT_SEARCH_LIMIT :: number where "DEFAULT_SEARCH_LIMIT = num_of_int 200"

definition empty_query :: search_query where
  "empty_query = \<lparr> sq_name = None, sq_mimeType = None, sq_modifiedAfter = None, sq_modifiedBefore = None,
     sq_parentId = None, sq_limit = None \<rparr>"

definition toMillis :: "(string \<Rightarrow> int option) \<Rightarrow> string option \<Rightarrow> int option" where
  "toMillis D v = (case v of None \<Rightarrow> None | Some s \<Rightarrow> D s)"

datatype index_error = MetadataIdRequired

definition meta_upsert :: "indexed_metadata \<Rightarrow> metadata_index \<Rightarrow> (index_error, metadata_index) result" where
  "meta_upsert f ix = (if im_id f = [] then Inl MetadataIdRequired else Inr (mput (im_id f) f ix))"

text \<open>The loop stops at the first entry without an id; the entries before it stay indexed.\<close>

fun meta_upsertAll :: "indexed_metadata list \<Rightarrow> metadata_index \<Rightarrow> (index_error, unit) result \<times> metadata_index" where
  "meta_upsertAll [] ix = (Inr (), ix)"
| "meta_upsertAll (f # fs) ix = (case meta_upsert f ix of Inl e \<Rightarrow> (Inl e, ix) | Inr ix' \<Rightarrow> meta_upsertAll fs ix')"

definition meta_get :: "string \<Rightarrow> metadata_index \<Rightarrow> indexed_metadata option" where
  "meta_get i ix = mget ix i"

definition meta_remove :: "string \<Rightarrow> metadata_index \<Rightarrow> metadata_index" where
  "meta_remove i ix = mdel i ix"

definition meta_clear :: "metadata_index \<Rightarrow> metadata_index" where
  "meta_clear ix = []"

definition meta_size :: "metadata_index \<Rightarrow> nat" where
  "meta_size ix = length ix"

text \<open>The tests of the loop, in its order; the empty needle and media type are falsy.\<close>

definition meta_matches :: "(string \<Rightarrow> int option) \<Rightarrow> search_query \<Rightarrow> indexed_metadata \<Rightarrow> bool" where
  "meta_matches D q f =
    (let needle = map_option (\<lambda>s. lower (trim s)) (sq_name q);
         mime = map_option (\<lambda>s. lower (trim s)) (sq_mimeType q);
         after = toMillis D (sq_modifiedAfter q); before = toMillis D (sq_modifiedBefore q)
     in if sq_parentId q \<noteq> None \<and> im_parentId f \<noteq> sq_parentId q then False
        else if needle \<noteq> None \<and> the needle \<noteq> [] \<and> \<not> str_includes (lower (im_name f)) (the needle) then False
        else if mime \<noteq> None \<and> the mime \<noteq> [] \<and> (let fileMime = lower (im_mimeType f)
               in if ends_with (the mime) ''/'' then \<not> starts_with fileMime (the mime) else fileMime \<noteq> the mime) then False
        else let modified = toMillis D (Some (im_modifiedTime f))
          in if after \<noteq> None \<and> (modified = None \<or> the modified < the after) then False
             else if before \<noteq> None \<and> (modified = None \<or> the modified > the before) then False else True)"

text \<open>A difference with NaN is falsy, so the names decide.\<close>

definition newer_first :: "(string \<Rightarrow> int option) \<Rightarrow> (string \<Rightarrow> string \<Rightarrow> int) \<Rightarrow> indexed_metadata \<Rightarrow> indexed_metadata \<Rightarrow> int" where
  "newer_first D localeCompare a b = (case (D (im_modifiedTime b), D (im_modifiedTime a)) of
     (Some y, Some x) \<Rightarrow> if y - x \<noteq> 0 then y - x else localeCompare (im_name a) (im_name b)
   | _ \<Rightarrow> localeCompare (im_name a) (im_name b))"

definition slice_to :: "number \<Rightarrow> 'a list \<Rightarrow> 'a list" where
  "slice_to n xs = (case n of Fin r \<Rightarrow> if r \<ge> 0 then take (nat \<lfloor>r\<rfloor>) xs else xs | _ \<Rightarrow> xs)"

definition meta_search :: "(string \<Rightarrow> int option) \<Rightarrow> (string \<Rightarrow> string \<Rightarrow> int) \<Rightarrow> search_query \<Rightarrow> metadata_index \<Rightarrow>
    indexed_metadata list" where
  "meta_search D localeCompare q ix = slice_to (case sq_limit q of None \<Rightarrow> DEFAULT_SEARCH_LIMIT | Some n \<Rightarrow> n)
     (sort_by (newer_first D localeCompare) (filter (meta_matches D q) (mvalues ix)))"

definition meta_values :: "(string \<Rightarrow> int option) \<Rightarrow> (string \<Rightarrow> string \<Rightarrow> int) \<Rightarrow> metadata_index \<Rightarrow> indexed_metadata list" where
  "meta_values D localeCompare ix = meta_search D localeCompare empty_query ix"

definition childrenOf :: "(string \<Rightarrow> int option) \<Rightarrow> (string \<Rightarrow> string \<Rightarrow> int) \<Rightarrow> string \<Rightarrow> number option \<Rightarrow> metadata_index \<Rightarrow>
    indexed_metadata list" where
  "childrenOf D localeCompare parentId limit ix = (if parentId = [] then []
     else meta_search D localeCompare (empty_query\<lparr> sq_parentId := Some parentId,
       sq_limit := Some (case limit of None \<Rightarrow> DEFAULT_SEARCH_LIMIT | Some n \<Rightarrow> n) \<rparr>) ix)"

section \<open>What a search returns\<close>

lemma mset_sort_by: "mset (sort_by cmp xs) = mset xs"
proof -
  have ins: "mset (insert_by cmp x ys) = add_mset x (mset ys)" for x ys by (induction ys) auto
  show ?thesis unfolding sort_by_def by (induction xs) (simp_all add: ins)
qed

lemma set_insert_by: "set (insert_by cmp x ys) = insert x (set ys)"
  by (induction ys) auto

lemma sort_by_sorted:
  assumes "\<And>x y. x \<in> A \<Longrightarrow> y \<in> A \<Longrightarrow> cmp x y \<le> 0 \<Longrightarrow> R x y"
    "\<And>x y. x \<in> A \<Longrightarrow> y \<in> A \<Longrightarrow> \<not> cmp x y \<le> 0 \<Longrightarrow> R y x" "transp R"
  shows "set xs \<subseteq> A \<Longrightarrow> sorted_wrt R (sort_by cmp xs)"
proof -
  have ins: "sorted_wrt R (insert_by cmp x ys)" if "sorted_wrt R ys" "x \<in> A" "set ys \<subseteq> A" for x ys
    using that by (induction ys) (auto simp: set_insert_by assms(1,2) dest: transpD [OF assms(3) assms(1)])
  show "sorted_wrt R (sort_by cmp xs)" if "set xs \<subseteq> A"
    using that
  proof (induction xs)
    case (Cons x xs)
    have "set (sort_by cmp xs) = set xs" by (rule mset_sort_by [THEN mset_eq_setD])
    with Cons show ?case by (simp add: sort_by_def ins)
  qed (simp add: sort_by_def)
qed

definition modified_order :: "(string \<Rightarrow> int option) \<Rightarrow> indexed_metadata \<Rightarrow> indexed_metadata \<Rightarrow> bool" where
  "modified_order D a b \<longleftrightarrow> the (D (im_modifiedTime b)) \<le> the (D (im_modifiedTime a))"

text \<open>
  A metadata search returns exactly the indexed files its tests accept, each as often as it is
  indexed, cut to the limit, and the newest first when every indexed file has a readable date; no file
  that fails a test is ever returned.
\<close>
theorem metadata_search_exact:
  assumes "\<forall>f \<in> set (mvalues ix). D (im_modifiedTime f) \<noteq> None"
  shows "\<exists>r. meta_search D lc q ix = slice_to (case sq_limit q of None \<Rightarrow> DEFAULT_SEARCH_LIMIT | Some n \<Rightarrow> n) r
    \<and> mset r = mset (filter (meta_matches D q) (mvalues ix)) \<and> sorted_wrt (modified_order D) r
    \<and> set (meta_search D lc q ix) \<subseteq> {f \<in> set (mvalues ix). meta_matches D q f}"
proof -
  let ?r = "sort_by (newer_first D lc) (filter (meta_matches D q) (mvalues ix))"
  have "sorted_wrt (modified_order D) ?r"
  proof (rule sort_by_sorted [of "set (mvalues ix)"])
    fix x y assume "x \<in> set (mvalues ix)" "y \<in> set (mvalues ix)"
    with assms obtain a b where "D (im_modifiedTime x) = Some a" "D (im_modifiedTime y) = Some b" by blast
    then show "newer_first D lc x y \<le> 0 \<Longrightarrow> modified_order D x y" "\<not> newer_first D lc x y \<le> 0 \<Longrightarrow> modified_order D y x"
      by (auto simp: newer_first_def modified_order_def split: if_splits)
  qed (auto simp: transp_def modified_order_def)
  moreover have members: "set ?r = {f \<in> set (mvalues ix). meta_matches D q f}"
    by (simp add: mset_sort_by [THEN mset_eq_setD])
  moreover have "set (slice_to n ?r) \<subseteq> set ?r" for n
    by (auto simp: slice_to_def split: number.splits dest: in_set_takeD)
  ultimately show ?thesis unfolding meta_search_def by (intro exI [of _ ?r]) (auto simp: mset_sort_by)
qed

definition ex_file :: "string \<Rightarrow> string \<Rightarrow> indexed_metadata" where
  "ex_file i t = \<lparr> im_id = i, im_name = i, im_parentId = Some ''r'', im_mimeType = ''text/plain'', im_modifiedTime = t,
     im_size = num_of_int 3 \<rparr>"

theorem metadata_search_exact_witness:
  "\<exists>r. meta_search (\<lambda>s. Some (int (length s))) (\<lambda>_ _. 0) empty_query [(''a'', ex_file ''a'' ''1''), (''b'', ex_file ''b'' ''22'')]
       = slice_to DEFAULT_SEARCH_LIMIT r \<and> sorted_wrt (modified_order (\<lambda>s. Some (int (length s)))) r"
  using metadata_search_exact [of "[(''a'', ex_file ''a'' ''1''), (''b'', ex_file ''b'' ''22'')]" "\<lambda>s. Some (int (length s))"
      "\<lambda>_ _. 0" empty_query]
  by (auto simp: empty_query_def)

lemma upsertAll_get:
  "meta_upsertAll fs ix = (Inr (), ix') \<Longrightarrow> f \<in> set fs \<Longrightarrow> \<exists>g \<in> set fs. meta_get (im_id f) ix' = Some g \<and> im_id g = im_id f"
proof (induction fs arbitrary: ix f)
  case (Cons g fs)
  then have rest: "meta_upsertAll fs (mput (im_id g) g ix) = (Inr (), ix')"
    by (auto simp: meta_upsert_def split: if_splits)
  show ?case
  proof (cases "\<exists>h \<in> set fs. im_id h = im_id f")
    case True
    then obtain h where h: "h \<in> set fs" "im_id h = im_id f" by blast
    have "\<exists>k \<in> set fs. meta_get (im_id h) ix' = Some k \<and> im_id k = im_id h" by (rule Cons.IH [OF rest h(1)])
    with h(2) show ?thesis by auto
  next
    case False
    have keep: "meta_upsertAll fs jx = (Inr (), ix') \<Longrightarrow> \<forall>h \<in> set fs. im_id h \<noteq> k \<Longrightarrow> mget ix' k = mget jx k" for jx k fs
      by (induction fs arbitrary: jx) (auto simp: meta_upsert_def update_conv split: if_splits)
    from False Cons.prems(2) have "f = g" by auto
    with keep [OF rest] False show ?thesis by (auto simp: meta_get_def)
  qed
qed simp

end
