(* ===== verification/DriveRead.thy ===== *)
theory DriveRead
  imports RootScope MetadataIndex
begin

text \<open>
  \<^verbatim>\<open>src/drive/drive-read-client.ts\<close> and the query building of \<^verbatim>\<open>src/drive/google-drive-api.ts\<close>: the
  read-only Drive client.  The transport is an argument that sees the requests sent so far and answers or
  fails; an operation returns its result with the scope and the requests after it.
\<close>

section \<open>Conversions\<close>

text \<open>
  \<^verbatim>\<open>String(v)\<close> and \<^verbatim>\<open>Number(v)\<close> of parsed JSON; the text of a number is given for integers below \<open>10 ^ 21\<close>,
  and a literal is read as the rational it denotes.
\<close>

fun js_string :: "jsval \<Rightarrow> string" where
  "js_string Undefined = ''undefined''"
| "js_string Null = ''null''"
| "js_string (Bool b) = (if b then ''true'' else ''false'')"
| "js_string (Num n) = (case n of NaN \<Rightarrow> ''NaN'' | Infinite b \<Rightarrow> (if b then ''Infinity'' else ''-Infinity'') | Fin r \<Rightarrow> number_text n)"
| "js_string (Str s) = s"
| "js_string (Arr vs) = join_with '','' (map (\<lambda>v. if v \<in> {Undefined, Null} then [] else js_string v) vs)"
| "js_string (Obj kvs) = ''[object Object]''"

definition radix_digits :: "(char \<Rightarrow> nat option) \<Rightarrow> nat \<Rightarrow> string \<Rightarrow> number" where
  "radix_digits digit base s = (if s = [] \<or> list_ex (\<lambda>c. digit c = None \<or> the (digit c) \<ge> base) s then NaN
     else Fin (of_nat (foldl (\<lambda>n c. base * n + the (digit c)) 0 s)))"

definition decimal_literal :: "string \<Rightarrow> number" where
  "decimal_literal s =
    (let neg = (s \<noteq> [] \<and> hd s = CHR ''-''); u = (if s \<noteq> [] \<and> hd s \<in> {CHR ''-'', CHR ''+''} then tl s else s)
     in if u = ''Infinity'' then Infinite (\<not> neg)
        else case digits_of u of (ds, r) \<Rightarrow>
          (let (fs, r1) = (case r of c # t \<Rightarrow> if c = CHR ''.'' then digits_of t else ([], r) | [] \<Rightarrow> ([], r))
           in if ds = [] \<and> fs = [] then NaN
              else case parse_exponent r1 of Some (e, []) \<Rightarrow>
                (let x = scale10 (of_nat (parse_dec ds) + of_nat (parse_dec fs) / 10 ^ length fs) e
                 in if x \<ge> 2 ^ 1024 then Infinite (\<not> neg) else Fin (if neg then - x else x))
              | _ \<Rightarrow> NaN))"

definition string_number :: "string \<Rightarrow> number" where
  "string_number s = (let t = trim s
     in if t = [] then Fin 0
        else if starts_with (lower t) ''0x'' then radix_digits hex_value 16 (drop 2 t)
        else if starts_with (lower t) ''0o'' then radix_digits hex_value 8 (drop 2 t)
        else if starts_with (lower t) ''0b'' then radix_digits hex_value 2 (drop 2 t)
        else decimal_literal t)"

fun js_number :: "jsval \<Rightarrow> number" where
  "js_number Null = Fin 0"
| "js_number (Bool b) = Fin (if b then 1 else 0)"
| "js_number (Num n) = n"
| "js_number (Str s) = string_number s"
| "js_number (Arr vs) = string_number (js_string (Arr vs))"
| "js_number v = NaN"

definition or_else :: "jsval \<Rightarrow> jsval \<Rightarrow> jsval" where
  "or_else v d = (if v \<in> {Undefined, Null} then d else v)"

section \<open>Requests\<close>

definition DRIVE_API_BASE :: string where "DRIVE_API_BASE = ''https://www.googleapis.com/drive/v3''"
definition METADATA_FIELDS :: string where "METADATA_FIELDS = ''id,name,mimeType,modifiedTime,size,parents''"
definition FOLDER_FIELDS :: string where "FOLDER_FIELDS = ''id,name,mimeType''"
definition DEFAULT_MAX_DOWNLOAD_BYTES :: rat where "DEFAULT_MAX_DOWNLOAD_BYTES = 25 * 1024 * 1024"

record drive_request =
  dq_url :: string
  dq_method :: string
  dq_headers :: "(string \<times> string) list"

record drive_response =
  dr_status :: int
  dr_json :: jsval
  dr_bytes :: "bytes option"

type_synonym drive_transport = "drive_request list \<Rightarrow> drive_request \<Rightarrow> drive_response option"

datatype drive_error = ScopeError scope_failure | UnexpectedResponse | ReadFailed int | DownloadTooLarge
  | OutsideDriveApi | NoActiveLease | DriveTransportFailed | BadDownloadCap

record drive_world =
  dw_scope :: root_scope
  dw_sent :: "drive_request list"

text \<open>\<^verbatim>\<open>buildQuery\<close> drops undefined values.\<close>

definition buildQuery :: "(string \<times> string option) list \<Rightarrow> string" where
  "buildQuery ps = join_with ''&'' (map (\<lambda>(k, v). encodeURIComponent k @ CHR ''='' # encodeURIComponent (the v))
     (filter (\<lambda>(k, v). v \<noteq> None) ps))"

definition escape_backslash :: "string \<Rightarrow> string" where
  "escape_backslash s = concat (map (\<lambda>c. if c = CHR 0x5C then [CHR 0x5C, CHR 0x5C] else [c]) s)"

definition escape_quote :: "string \<Rightarrow> string" where
  "escape_quote s = concat (map (\<lambda>c. if c = CHR 0x27 then [CHR 0x5C, CHR 0x27] else [c]) s)"

definition driveQueryLiteral :: "string \<Rightarrow> string" where
  "driveQueryLiteral s = escape_quote (escape_backslash s)"

definition quoted :: "string \<Rightarrow> string" where
  "quoted s = CHR 0x27 # s @ [CHR 0x27]"

definition drive_record :: "jsval \<Rightarrow> (drive_error, (string \<times> jsval) list) result" where
  "drive_record v = (case plain_object v of None \<Rightarrow> Inl UnexpectedResponse | Some r \<Rightarrow> Inr r)"

definition toIndexedMetadata :: "jsval \<Rightarrow> (drive_error, indexed_metadata) result" where
  "toIndexedMetadata v = bind_result (drive_record v) (\<lambda>r. Inr
     \<lparr> im_id = js_string (or_else (field r ''id'') (Str [])),
       im_name = js_string (or_else (field r ''name'') (Str [])),
       im_parentId = (case field r ''parents'' of Arr (p # ps) \<Rightarrow> Some (js_string p) | _ \<Rightarrow> None),
       im_mimeType = js_string (or_else (field r ''mimeType'') (Str ''application/octet-stream'')),
       im_modifiedTime = js_string (or_else (field r ''modifiedTime'') (Str [])),
       im_size = js_number (or_else (field r ''size'') (jint 0)) \<rparr>)"

section \<open>Operations\<close>

definition new_drive_client :: "number option \<Rightarrow> (drive_error, rat) result" where
  "new_drive_client cap = (case as_finite (Num (case cap of None \<Rightarrow> Fin DEFAULT_MAX_DOWNLOAD_BYTES | Some n \<Rightarrow> n)) of
     None \<Rightarrow> Inl BadDownloadCap | Some r \<Rightarrow> if r \<le> 0 then Inl BadDownloadCap else Inr r)"

text \<open>The one place that sends: nothing leaves without a token or to another address.\<close>

definition drive_send :: "drive_transport \<Rightarrow> string \<Rightarrow> string \<Rightarrow> drive_world \<Rightarrow>
    (drive_error, drive_response) result \<times> drive_world" where
  "drive_send T token url w =
    (if \<not> starts_with url (DRIVE_API_BASE @ ''/'') then (Inl OutsideDriveApi, w)
     else if token = [] then (Inl NoActiveLease, w)
     else let q = \<lparr> dq_url = url, dq_method = ''GET'', dq_headers = [(''Authorization'', ''Bearer '' @ token)] \<rparr>
       in (case T (dw_sent w) q of None \<Rightarrow> Inl DriveTransportFailed | Some r \<Rightarrow> Inr r,
           w\<lparr> dw_sent := dw_sent w @ [q] \<rparr>))"

definition readJson :: "drive_transport \<Rightarrow> string \<Rightarrow> string \<Rightarrow> drive_world \<Rightarrow>
    (drive_error, (string \<times> jsval) list) result \<times> drive_world" where
  "readJson T token url w = (case drive_send T token url w of (Inl e, w') \<Rightarrow> (Inl e, w')
     | (Inr r, w') \<Rightarrow> (if dr_status r < 200 \<or> dr_status r \<ge> 300 then Inl (ReadFailed (dr_status r))
         else drive_record (dr_json r), w'))"

fun map_results :: "('a \<Rightarrow> ('e, 'b) result) \<Rightarrow> 'a list \<Rightarrow> ('e, 'b list) result" where
  "map_results f [] = Inr []"
| "map_results f (x # xs) = bind_result (f x) (\<lambda>y. bind_result (map_results f xs) (\<lambda>ys. Inr (y # ys)))"

definition files_of :: "(string \<times> jsval) list \<Rightarrow> jsval list" where
  "files_of body = (case field body ''files'' of Arr vs \<Rightarrow> vs | _ \<Rightarrow> [])"

definition folder_ref_of :: "jsval \<Rightarrow> (drive_error, folder_ref) result" where
  "folder_ref_of v = bind_result (drive_record v) (\<lambda>r. Inr \<lparr> folder_id = js_string (or_else (field r ''id'') (Str [])),
     folder_name = js_string (or_else (field r ''name'') (Str [])),
     folder_mimeType = js_string (or_else (field r ''mimeType'') (Str [])) \<rparr>)"

definition folders_url :: "string \<Rightarrow> string" where
  "folders_url n = DRIVE_API_BASE @ ''/files?'' @ buildQuery
     [(''q'', Some (''mimeType='' @ quoted DRIVE_FOLDER_MIME @ '' and name='' @ quoted (driveQueryLiteral n) @ '' and trashed=false'')),
      (''fields'', Some (''files('' @ FOLDER_FIELDS @ '')'')), (''pageSize'', Some ''100'')]"

definition listFoldersByName :: "drive_transport \<Rightarrow> string \<Rightarrow> string \<Rightarrow> drive_world \<Rightarrow>
    (drive_error, folder_ref list) result \<times> drive_world" where
  "listFoldersByName T token n w = (case readJson T token (folders_url n) w of (Inl e, w') \<Rightarrow> (Inl e, w')
     | (Inr body, w') \<Rightarrow> (map_results folder_ref_of (files_of body), w'))"

text \<open>\<^verbatim>\<open>resolveRootId\<close> with the scope's folder source wired to this client; a cached root sends nothing.\<close>

definition drive_resolveRootId :: "drive_transport \<Rightarrow> string \<Rightarrow> drive_world \<Rightarrow> (drive_error, string) result \<times> drive_world" where
  "drive_resolveRootId T token w =
    (case scope_root (dw_scope w) of Some r \<Rightarrow> (Inr r, w)
     | None \<Rightarrow> (case listFoldersByName T token (scope_name (dw_scope w)) w of (Inl e, w') \<Rightarrow> (Inl e, w')
         | (Inr fs, w') \<Rightarrow> (case resolveRootId (Some fs) (dw_scope w') of
             (Inl e, s) \<Rightarrow> (Inl (ScopeError e), w'\<lparr> dw_scope := s \<rparr>)
           | (Inr r, s) \<Rightarrow> (Inr r, w'\<lparr> dw_scope := s \<rparr>))))"

definition children_url :: "string \<Rightarrow> string option \<Rightarrow> string" where
  "children_url p pageToken = DRIVE_API_BASE @ ''/files?'' @ buildQuery
     [(''q'', Some (quoted (driveQueryLiteral p) @ '' in parents and trashed = false'')),
      (''fields'', Some (''nextPageToken,files('' @ METADATA_FIELDS @ '')'')), (''orderBy'', Some ''folder,name''),
      (''pageSize'', Some ''1000''), (''pageToken'', pageToken)]"

definition listChildren :: "drive_transport \<Rightarrow> string \<Rightarrow> string \<Rightarrow> string option \<Rightarrow> drive_world \<Rightarrow>
    (drive_error, indexed_metadata list \<times> string option) result \<times> drive_world" where
  "listChildren T token p pageToken w =
    (case assertWithinRoot (dw_scope w) p of Inl e \<Rightarrow> (Inl (ScopeError e), w)
     | Inr _ \<Rightarrow> (case readJson T token (children_url p pageToken) w of (Inl e, w1) \<Rightarrow> (Inl e, w1)
       | (Inr body, w1) \<Rightarrow> (case map_results toIndexedMetadata (files_of body) of Inl e \<Rightarrow> (Inl e, w1)
         | Inr files \<Rightarrow> (case registerChildren p (map im_id files) (dw_scope w1) of
             (Inl e, s) \<Rightarrow> (Inl (ScopeError e), w1\<lparr> dw_scope := s \<rparr>)
           | (Inr _, s) \<Rightarrow> (Inr (files, as_string (field body ''nextPageToken'')), w1\<lparr> dw_scope := s \<rparr>)))))"

definition file_url :: "string \<Rightarrow> (string \<times> string option) list \<Rightarrow> string" where
  "file_url i ps = DRIVE_API_BASE @ ''/files/'' @ encodeURIComponent i @ ''?'' @ buildQuery ps"

definition getMetadata :: "drive_transport \<Rightarrow> string \<Rightarrow> string \<Rightarrow> drive_world \<Rightarrow>
    (drive_error, indexed_metadata) result \<times> drive_world" where
  "getMetadata T token i w = (case assertWithinRoot (dw_scope w) i of Inl e \<Rightarrow> (Inl (ScopeError e), w)
     | Inr _ \<Rightarrow> (case readJson T token (file_url i [(''fields'', Some METADATA_FIELDS)]) w of (Inl e, w1) \<Rightarrow> (Inl e, w1)
       | (Inr body, w1) \<Rightarrow> (toIndexedMetadata (Obj body), w1)))"

record downloaded_file =
  dl_fileId :: string
  dl_name :: string
  dl_mimeType :: string
  dl_bytes :: bytes

definition downloadFile :: "drive_transport \<Rightarrow> rat \<Rightarrow> string \<Rightarrow> string \<Rightarrow> drive_world \<Rightarrow>
    (drive_error, downloaded_file) result \<times> drive_world" where
  "downloadFile T cap token i w = (case assertWithinRoot (dw_scope w) i of Inl e \<Rightarrow> (Inl (ScopeError e), w)
     | Inr _ \<Rightarrow> (case getMetadata T token i w of (Inl e, w1) \<Rightarrow> (Inl e, w1)
       | (Inr m, w1) \<Rightarrow> if num_gt (im_size m) (Fin cap) then (Inl DownloadTooLarge, w1)
         else (case drive_send T token (file_url i [(''alt'', Some ''media'')]) w1 of (Inl e, w2) \<Rightarrow> (Inl e, w2)
           | (Inr r, w2) \<Rightarrow> (case dr_bytes r of None \<Rightarrow> (Inl (ReadFailed (dr_status r)), w2)
             | Some bs \<Rightarrow> if of_nat (length bs) > cap then (Inl DownloadTooLarge, w2)
               else (Inr \<lparr> dl_fileId = i, dl_name = im_name m, dl_mimeType = im_mimeType m, dl_bytes = bs \<rparr>, w2)))))"

section \<open>The older client\<close>

text \<open>\<^verbatim>\<open>src/drive/google-drive-api.ts\<close>, kept beside the client above: its queries and its change page.\<close>

definition FILE_FIELDS :: string where
  "FILE_FIELDS = ''id,name,mimeType,modifiedTime,headRevisionId,size,parents,trashed''"

definition encodeParams :: "(string \<times> string option) list \<Rightarrow> string" where
  "encodeParams ps = form_serialize (map (\<lambda>(k, v). (k, the v)) (filter (\<lambda>(k, v). v \<noteq> None) ps))"

definition api_children_query :: "string \<Rightarrow> string" where
  "api_children_query p = quoted (escape_quote p) @ '' in parents and trashed = false''"

definition api_get :: "drive_transport \<Rightarrow> string \<Rightarrow> string \<Rightarrow> drive_request list \<Rightarrow>
    (drive_error, drive_response) result \<times> drive_request list" where
  "api_get T token url sent =
    (let q = \<lparr> dq_url = url, dq_method = ''GET'', dq_headers = [(''Authorization'', ''Bearer '' @ token)] \<rparr>
     in (case T sent q of None \<Rightarrow> Inl DriveTransportFailed
         | Some r \<Rightarrow> if dr_status r < 200 \<or> dr_status r \<ge> 300 then Inl (ReadFailed (dr_status r)) else Inr r, sent @ [q]))"

definition api_children_url :: "string \<Rightarrow> string option \<Rightarrow> string" where
  "api_children_url p pageToken = DRIVE_API_BASE @ ''/files?'' @ encodeParams [(''q'', Some (api_children_query p)),
     (''pageToken'', pageToken), (''pageSize'', Some ''1000''),
     (''fields'', Some (''nextPageToken,files('' @ FILE_FIELDS @ '')'')), (''orderBy'', Some ''folder,name'')]"

text \<open>Property access on an answer throws for null and undefined; other primitives have none of the properties.\<close>

definition properties_of :: "jsval \<Rightarrow> (drive_error, (string \<times> jsval) list) result" where
  "properties_of v = (case v of Undefined \<Rightarrow> Inl UnexpectedResponse | Null \<Rightarrow> Inl UnexpectedResponse
     | Obj kvs \<Rightarrow> Inr kvs | _ \<Rightarrow> Inr [])"

definition optional_array :: "jsval \<Rightarrow> (drive_error, jsval list) result" where
  "optional_array v = (case v of Undefined \<Rightarrow> Inr [] | Null \<Rightarrow> Inr [] | Arr vs \<Rightarrow> Inr vs | _ \<Rightarrow> Inl UnexpectedResponse)"

fun js_truthy :: "jsval \<Rightarrow> bool" where
  "js_truthy Undefined = False"
| "js_truthy Null = False"
| "js_truthy (Bool b) = b"
| "js_truthy (Num n) = (n \<noteq> Fin 0 \<and> n \<noteq> NaN)"
| "js_truthy (Str s) = (s \<noteq> [])"
| "js_truthy v = True"

definition toRemoteFile :: "jsval \<Rightarrow> (drive_error, remote_file) result" where
  "toRemoteFile v = bind_result (properties_of v) (\<lambda>r. Inr
     \<lparr> rf_id = js_string (or_else (field r ''id'') (Str [])), rf_name = js_string (or_else (field r ''name'') (Str [])),
       rf_path = js_string (or_else (field r ''name'') (Str [])),
       rf_parentId = (case field r ''parents'' of Arr [] \<Rightarrow> Some [] | Arr (p # ps) \<Rightarrow> Some (js_string (or_else p (Str []))) | _ \<Rightarrow> None),
       rf_mimeType = js_string (or_else (field r ''mimeType'') (Str ''application/octet-stream'')),
       rf_modifiedTime = js_string (or_else (field r ''modifiedTime'') (Str [])),
       rf_revision = js_string (or_else (field r ''headRevisionId'') (Str [])),
       rf_size = js_number (or_else (field r ''size'') (jint 0)), rf_trashed = js_truthy (field r ''trashed'') \<rparr>)"

definition api_listChildren :: "drive_transport \<Rightarrow> string \<Rightarrow> string \<Rightarrow> string option \<Rightarrow> drive_request list \<Rightarrow>
    (drive_error, remote_file list \<times> jsval) result \<times> drive_request list" where
  "api_listChildren T token p pageToken sent = (case api_get T token (api_children_url p pageToken) sent of (Inl e, s) \<Rightarrow> (Inl e, s)
     | (Inr r, s) \<Rightarrow> (bind_result (properties_of (dr_json r)) (\<lambda>body.
         bind_result (optional_array (field body ''files'')) (\<lambda>vs.
         bind_result (map_results toRemoteFile vs) (\<lambda>fs. Inr (fs, field body ''nextPageToken'')))), s))"

definition api_getStartPageToken :: "drive_transport \<Rightarrow> string \<Rightarrow> drive_request list \<Rightarrow>
    (drive_error, jsval) result \<times> drive_request list" where
  "api_getStartPageToken T token sent =
    (case api_get T token (DRIVE_API_BASE @ ''/changes/startPageToken?fields=startPageToken'') sent of (Inl e, s) \<Rightarrow> (Inl e, s)
     | (Inr r, s) \<Rightarrow> (bind_result (properties_of (dr_json r)) (\<lambda>body.
         if js_truthy (field body ''startPageToken'') then Inr (field body ''startPageToken'') else Inl UnexpectedResponse), s))"

record drive_change =
  ch_fields :: "(string \<times> jsval) list"
  ch_file :: "remote_file option"

definition toChange :: "jsval \<Rightarrow> (drive_error, drive_change) result" where
  "toChange v = bind_result (properties_of v) (\<lambda>r.
     if js_truthy (field r ''file'')
     then bind_result (toRemoteFile (field r ''file'')) (\<lambda>f. Inr \<lparr> ch_fields = r, ch_file = Some f \<rparr>)
     else Inr \<lparr> ch_fields = r, ch_file = None \<rparr>)"

definition api_listChanges :: "drive_transport \<Rightarrow> string \<Rightarrow> string \<Rightarrow> drive_request list \<Rightarrow>
    (drive_error, drive_change list \<times> jsval \<times> jsval) result \<times> drive_request list" where
  "api_listChanges T token pageToken sent =
    (case api_get T token (DRIVE_API_BASE @ ''/changes?'' @ encodeParams [(''pageToken'', Some pageToken), (''pageSize'', Some ''1000''),
        (''fields'', Some (''nextPageToken,newStartPageToken,changes(fileId,removed,file('' @ FILE_FIELDS @ ''))''))]) sent of
       (Inl e, s) \<Rightarrow> (Inl e, s)
     | (Inr r, s) \<Rightarrow> (bind_result (properties_of (dr_json r)) (\<lambda>body.
         bind_result (optional_array (field body ''changes'')) (\<lambda>vs.
         bind_result (map_results toChange vs) (\<lambda>cs. Inr (cs, field body ''nextPageToken'', field body ''newStartPageToken'')))), s))"

definition api_download :: "drive_transport \<Rightarrow> string \<Rightarrow> string \<Rightarrow> drive_request list \<Rightarrow>
    (drive_error, bytes) result \<times> drive_request list" where
  "api_download T token i sent = (case api_get T token (DRIVE_API_BASE @ ''/files/'' @ encodeURIComponent i @ ''?alt=media'') sent of
     (Inl e, s) \<Rightarrow> (Inl e, s)
   | (Inr r, s) \<Rightarrow> (case dr_bytes r of None \<Rightarrow> Inl UnexpectedResponse | Some bs \<Rightarrow> Inr bs, s))"

section \<open>Query literals\<close>

text \<open>
  How Drive reads a quoted value in a query: a backslash takes the next character, a quote ends it.
\<close>

fun read_literal :: "string \<Rightarrow> (string \<times> string) option" where
  "read_literal [] = None"
| "read_literal (c # cs) = (if c = CHR 0x27 then Some ([], cs)
     else if c = CHR 0x5C then (case cs of [] \<Rightarrow> None | d # ds \<Rightarrow> map_option (\<lambda>(v, r). (d # v, r)) (read_literal ds))
     else map_option (\<lambda>(v, r). (c # v, r)) (read_literal cs))"

lemma driveQueryLiteral_Cons:
  "driveQueryLiteral [] = []"
  "driveQueryLiteral (c # s) = (if c = CHR 0x5C then [CHR 0x5C, CHR 0x5C] else if c = CHR 0x27 then [CHR 0x5C, CHR 0x27] else [c])
     @ driveQueryLiteral s"
  by (simp_all add: driveQueryLiteral_def escape_quote_def escape_backslash_def)


section \<open>What is sent\<close>

datatype drive_op = ResolveRoot | ListFolders string | ListChildren string "string option" | GetMetadata string | Download string

definition drive_do :: "drive_transport \<Rightarrow> rat \<Rightarrow> string \<Rightarrow> drive_op \<Rightarrow> drive_world \<Rightarrow> drive_world" where
  "drive_do T cap token op w = (case op of ResolveRoot \<Rightarrow> snd (drive_resolveRootId T token w)
     | ListFolders n \<Rightarrow> snd (listFoldersByName T token n w)
     | ListChildren p t \<Rightarrow> snd (listChildren T token p t w)
     | GetMetadata i \<Rightarrow> snd (getMetadata T token i w)
     | Download i \<Rightarrow> snd (downloadFile T cap token i w))"

text \<open>A request this scope permits: a folder lookup by name, or a read of one item under the root.\<close>

definition allowed_url :: "root_scope \<Rightarrow> string \<Rightarrow> bool" where
  "allowed_url s url \<longleftrightarrow> (\<exists>n. url = folders_url n) \<or> (\<exists>p t. isWithinRoot s p \<and> url = children_url p t)
     \<or> (\<exists>i ps. isWithinRoot s i \<and> url = file_url i ps)"

lemma allowed_urls [simp]:
  "allowed_url s (folders_url n)" "isWithinRoot s p \<Longrightarrow> allowed_url s (children_url p t)"
  "isWithinRoot s i \<Longrightarrow> allowed_url s (file_url i ps)"
  by (auto simp: allowed_url_def)

definition permitted :: "root_scope \<Rightarrow> string \<Rightarrow> drive_request \<Rightarrow> bool" where
  "permitted s token q \<longleftrightarrow> token \<noteq> [] \<and> dq_method q = ''GET'' \<and> dq_headers q = [(''Authorization'', ''Bearer '' @ token)]
     \<and> starts_with (dq_url q) (DRIVE_API_BASE @ ''/'')
     \<and> allowed_url s (dq_url q)"

text \<open>The requests a step adds, each permitted by \<open>s\<close>.\<close>

definition sends :: "root_scope \<Rightarrow> string \<Rightarrow> nat \<Rightarrow> drive_world \<Rightarrow> drive_world \<Rightarrow> bool" where
  "sends s token n w w' \<longleftrightarrow> (\<exists>qs. dw_sent w' = dw_sent w @ qs \<and> length qs \<le> n \<and> (\<forall>q \<in> set qs. permitted s token q))"

lemma sends_none [simp]: "sends s token n w w" "sends s token n w (w\<lparr> dw_scope := s' \<rparr>)"
  by (simp_all add: sends_def)

lemma sends_scope [simp]: "sends s token n w (w'\<lparr> dw_scope := s' \<rparr>) \<longleftrightarrow> sends s token n w w'"
  by (simp add: sends_def)

lemma sends_trans: "sends s token m w w1 \<Longrightarrow> sends s token n w1 w2 \<Longrightarrow> sends s token (m + n) w w2"
  unfolding sends_def by (fastforce intro: add_mono)

lemma sends_weaken: "sends s token m w w' \<Longrightarrow> m \<le> n \<Longrightarrow> sends s token n w w'"
  unfolding sends_def by fastforce

lemma send_scope: "drive_send T token url w = (r, w') \<Longrightarrow> dw_scope w' = dw_scope w"
  by (auto simp: drive_send_def Let_def split: if_splits)

lemma send_sends:
  assumes "drive_send T token url w = (r, w')"
    and "allowed_url s url"
  shows "sends s token 1 w w'"
  using assms by (auto simp: drive_send_def sends_def permitted_def Let_def split: if_splits)

lemma readJson_sends:
  assumes "readJson T token url w = (r, w')"
    and "allowed_url s url"
  shows "sends s token 1 w w'" "dw_scope w' = dw_scope w"
proof -
  obtain x where x: "drive_send T token url w = (x, w')"
    using assms(1) by (auto simp: readJson_def split: prod.splits sum.splits if_splits)
  from send_sends [OF x assms(2)] show "sends s token 1 w w'" .
  from send_scope [OF x] show "dw_scope w' = dw_scope w" .
qed

lemma assert_ok [simp]: "isWithinRoot s i \<Longrightarrow> assertWithinRoot s i = Inr i"
  by (simp add: assertWithinRoot_def)

lemma assert_Inr [simp]: "assertWithinRoot s i = Inr x \<longleftrightarrow> isWithinRoot s i \<and> x = i"
  by (auto simp: assertWithinRoot_def)

lemma folders_sends: "listFoldersByName T token n w = (r, w') \<Longrightarrow> sends s token 1 w w'"
  using readJson_sends(1) [of T token "folders_url n" w _ _ s]
  by (auto simp: listFoldersByName_def split: prod.splits sum.splits)

lemma resolve_sends: "drive_resolveRootId T token w = (r, w') \<Longrightarrow> sends s token 1 w w'"
  by (auto simp: drive_resolveRootId_def split: option.splits prod.splits sum.splits dest: folders_sends [of T token _ w])

lemma children_sends:
  assumes "listChildren T token p t w = (r, w')"
  shows "sends (dw_scope w) token 1 w w'"
proof (cases "isWithinRoot (dw_scope w) p")
  case True
  obtain x w1 where x: "readJson T token (children_url p t) w = (x, w1)" by fastforce
  have "sends (dw_scope w) token 1 w w1" by (rule readJson_sends(1) [OF x]) (simp add: True)
  with assms True x show ?thesis
    by (auto simp: listChildren_def assertWithinRoot_def split: sum.splits prod.splits)
next
  case False
  with assms show ?thesis by (auto simp: listChildren_def assertWithinRoot_def)
qed

lemma metadata_sends:
  assumes "getMetadata T token i w = (r, w')"
  shows "sends (dw_scope w) token 1 w w'" "dw_scope w' = dw_scope w"
proof -
  have "sends (dw_scope w) token 1 w w' \<and> dw_scope w' = dw_scope w"
  proof (cases "isWithinRoot (dw_scope w) i")
    case True
    obtain x w1 where x: "readJson T token (file_url i [(''fields'', Some METADATA_FIELDS)]) w = (x, w1)" by fastforce
    have "sends (dw_scope w) token 1 w w1 \<and> dw_scope w1 = dw_scope w"
      using readJson_sends [OF x, of "dw_scope w"] True by simp
    with assms True x show ?thesis
      by (auto simp: getMetadata_def assertWithinRoot_def split: sum.splits)
  next
    case False
    with assms show ?thesis by (auto simp: getMetadata_def assertWithinRoot_def)
  qed
  then show "sends (dw_scope w) token 1 w w'" "dw_scope w' = dw_scope w" by blast+
qed

text \<open>A download split into its steps.\<close>

lemma download_cases:
  assumes "downloadFile T cap token i w = (r, w')"
  obtains (refused) e where "r = Inl e" "w' = w"
  | (metadata_only) e m where "r = Inl e" "isWithinRoot (dw_scope w) i" "getMetadata T token i w = (m, w')"
  | (sent) m w1 x where "isWithinRoot (dw_scope w) i" "getMetadata T token i w = (Inr m, w1)"
      "\<not> num_gt (im_size m) (Fin cap)" "drive_send T token (file_url i [(''alt'', Some ''media'')]) w1 = (x, w')"
      "r = (case x of Inl e \<Rightarrow> Inl e | Inr p \<Rightarrow> (case dr_bytes p of None \<Rightarrow> Inl (ReadFailed (dr_status p))
         | Some bs \<Rightarrow> if of_nat (length bs) > cap then Inl DownloadTooLarge
             else Inr \<lparr> dl_fileId = i, dl_name = im_name m, dl_mimeType = im_mimeType m, dl_bytes = bs \<rparr>))"
proof (cases "isWithinRoot (dw_scope w) i")
  case False
  with assms show thesis by (intro refused) (auto simp: downloadFile_def assertWithinRoot_def)
next
  case True
  obtain m w1 where m: "getMetadata T token i w = (m, w1)" by fastforce
  show thesis
  proof (cases "\<exists>f. m = Inr f \<and> \<not> num_gt (im_size f) (Fin cap)")
    case False
    with assms True m obtain e where "r = Inl e" "w1 = w'"
      by (auto simp: downloadFile_def assertWithinRoot_def split: sum.splits if_splits)
    with True m show thesis by (intro metadata_only) auto
  next
    case ok: True
    then obtain f where f: "m = Inr f" "\<not> num_gt (im_size f) (Fin cap)" by blast
    obtain x w2 where x: "drive_send T token (file_url i [(''alt'', Some ''media'')]) w1 = (x, w2)" by fastforce
    with assms True m f have "w' = w2"
      "r = (case x of Inl e \<Rightarrow> Inl e | Inr p \<Rightarrow> (case dr_bytes p of None \<Rightarrow> Inl (ReadFailed (dr_status p))
         | Some bs \<Rightarrow> if of_nat (length bs) > cap then Inl DownloadTooLarge
             else Inr \<lparr> dl_fileId = i, dl_name = im_name f, dl_mimeType = im_mimeType f, dl_bytes = bs \<rparr>))"
      by (auto simp: downloadFile_def split: sum.splits option.splits if_splits)
    with x True m f show thesis by (intro sent) auto
  qed
qed

lemma download_sends:
  assumes "downloadFile T cap token i w = (r, w')"
  shows "sends (dw_scope w) token 2 w w'"
  using assms
proof (cases rule: download_cases)
  case (sent m w1 x)
  have "sends (dw_scope w) token 1 w w1" by (rule metadata_sends(1) [OF sent(2)])
  moreover have "sends (dw_scope w) token 1 w1 w'" by (rule send_sends [OF sent(4)]) (simp add: sent(1))
  ultimately show ?thesis using sends_trans [of _ _ 1 _ _ 1] by (simp add: numeral_2_eq_2)
qed (auto intro: sends_weaken [OF metadata_sends(1)])

text \<open>
  Every request of the read client is a GET with the current bearer token below the Drive API base, and
  either a folder lookup by name or a read of an item that was inside the configured root when the
  operation began: an operation on an id outside the root, or without a token, sends nothing, and none
  sends more than two requests.
\<close>
theorem drive_reads_stay_in_scope:
  "\<exists>qs. dw_sent (drive_do T cap token op w) = dw_sent w @ qs \<and> length qs \<le> 2
     \<and> (\<forall>q \<in> set qs. permitted (dw_scope w) token q)
     \<and> (\<forall>i. (op = GetMetadata i \<or> op = Download i \<or> (\<exists>t. op = ListChildren i t)) \<and> \<not> isWithinRoot (dw_scope w) i \<longrightarrow> qs = [])"
proof -
  have "sends (dw_scope w) token 2 w (drive_do T cap token op w)"
  proof (cases op)
    case ResolveRoot
    obtain r w' where "drive_resolveRootId T token w = (r, w')" by fastforce
    from sends_weaken [OF resolve_sends [OF this]] this show ?thesis by (simp add: drive_do_def ResolveRoot)
  next
    case (ListFolders n)
    obtain r w' where "listFoldersByName T token n w = (r, w')" by fastforce
    from sends_weaken [OF folders_sends [OF this]] this show ?thesis by (simp add: drive_do_def ListFolders)
  next
    case (ListChildren p t)
    obtain r w' where "listChildren T token p t w = (r, w')" by fastforce
    from sends_weaken [OF children_sends [OF this]] this show ?thesis by (simp add: drive_do_def ListChildren)
  next
    case (GetMetadata i)
    obtain r w' where "getMetadata T token i w = (r, w')" by fastforce
    from sends_weaken [OF metadata_sends(1) [OF this]] this show ?thesis by (simp add: drive_do_def GetMetadata)
  next
    case (Download i)
    obtain r w' where "downloadFile T cap token i w = (r, w')" by fastforce
    with download_sends [OF this] show ?thesis by (simp add: drive_do_def Download)
  qed
  moreover have "drive_do T cap token op w = w"
    if "op = GetMetadata i \<or> op = Download i \<or> (\<exists>t. op = ListChildren i t)" "\<not> isWithinRoot (dw_scope w) i" for i
    using that by (auto simp: drive_do_def getMetadata_def downloadFile_def listChildren_def assertWithinRoot_def)
  ultimately show ?thesis unfolding sends_def by (metis append_self_conv)
qed

text \<open>
  A completed download is of the requested item inside the root and holds at most the size cap, and a
  file whose declared size is over the cap is refused after the metadata request alone.
\<close>
theorem download_within_cap:
  "(downloadFile T cap token i w = (Inr d, w') \<longrightarrow> isWithinRoot (dw_scope w) i \<and> dl_fileId d = i
      \<and> of_nat (length (dl_bytes d)) \<le> cap)
   \<and> (getMetadata T token i w = (Inr m, w1) \<and> num_gt (im_size m) (Fin cap) \<longrightarrow>
        downloadFile T cap token i w = (Inl DownloadTooLarge, w1))"
proof (intro conjI impI)
  assume d: "downloadFile T cap token i w = (Inr d, w')"
  from d show "isWithinRoot (dw_scope w) i" "dl_fileId d = i" "of_nat (length (dl_bytes d)) \<le> cap"
    by (cases rule: download_cases; auto split: sum.splits option.splits if_splits)+
next
  assume m: "getMetadata T token i w = (Inr m, w1) \<and> num_gt (im_size m) (Fin cap)"
  then have "isWithinRoot (dw_scope w) i" by (auto simp: getMetadata_def assertWithinRoot_def split: if_splits)
  with m show "downloadFile T cap token i w = (Inl DownloadTooLarge, w1)" by (simp add: downloadFile_def)
qed

text \<open>
  The status of the content response is never looked at: whatever status Drive or a proxy answers the
  content request with, a body of at most the cap is returned as the downloaded file.
\<close>
theorem download_ignores_status:
  assumes "getMetadata T token i w = (Inr m, w1)" "\<not> num_gt (im_size m) (Fin cap)" "token \<noteq> []"
    and "\<And>q. dq_url q = file_url i [(''alt'', Some ''media'')] \<Longrightarrow>
      T (dw_sent w1) q = Some \<lparr> dr_status = status, dr_json = j, dr_bytes = Some bs \<rparr>"
    and "of_nat (length bs) \<le> cap"
  shows "fst (downloadFile T cap token i w) = Inr \<lparr> dl_fileId = i, dl_name = im_name m, dl_mimeType = im_mimeType m, dl_bytes = bs \<rparr>"
proof -
  have "isWithinRoot (dw_scope w) i" using assms(1) by (auto simp: getMetadata_def assertWithinRoot_def split: if_splits)
  moreover have "starts_with (file_url i ps) (DRIVE_API_BASE @ ''/'')" for ps
    by (simp add: file_url_def starts_with_def DRIVE_API_BASE_def)
  ultimately show ?thesis
    using assms(1-3,5) by (simp add: downloadFile_def drive_send_def Let_def assms(4) del: not_less)
qed

section \<open>A concrete download\<close>

definition ex_drive :: drive_world where
  "ex_drive = \<lparr> dw_scope = \<lparr> scope_name = ''n'', scope_root = Some ''r'', scope_parentOf = [] \<rparr>, dw_sent = [] \<rparr>"

text \<open>The metadata is served; the content request is answered with status 404 and a body.\<close>

definition ex_transport :: drive_transport where
  "ex_transport sent q = (if dq_url q = file_url ''r'' [(''alt'', Some ''media'')]
     then Some \<lparr> dr_status = 404, dr_json = Undefined, dr_bytes = Some [1, 2] \<rparr>
     else Some \<lparr> dr_status = 200, dr_json = Obj [(''id'', Str ''r''), (''size'', Num (Fin 2))], dr_bytes = None \<rparr>)"

lemma ex_root_inside: "isWithinRoot (dw_scope ex_drive) ''r''"
  by (simp add: isWithinRoot_def ex_drive_def is_drive_id_def drive_id_char_def is_alnum_def is_lower_def)

lemma media_is_not_metadata: "file_url ''r'' [(''fields'', Some METADATA_FIELDS)] \<noteq> file_url ''r'' [(''alt'', Some ''media'')]"
  by code_simp

lemma ex_metadata:
  "\<exists>m w1. getMetadata ex_transport ''t'' ''r'' ex_drive = (Inr m, w1) \<and> im_size m = Fin 2"
proof -
  have "starts_with (file_url ''r'' [(''fields'', Some METADATA_FIELDS)]) (DRIVE_API_BASE @ ''/'')"
    by (simp add: file_url_def starts_with_def DRIVE_API_BASE_def)
  then show ?thesis
    by (simp add: getMetadata_def ex_root_inside readJson_def drive_send_def Let_def ex_transport_def media_is_not_metadata
        drive_record_def toIndexedMetadata_def or_else_def field_Cons)
qed

theorem download_ignores_status_witness:
  "\<exists>d. fst (downloadFile ex_transport 10 ''t'' ''r'' ex_drive) = Inr d \<and> dl_bytes d = [1, 2]"
proof -
  obtain m w1 where m: "getMetadata ex_transport ''t'' ''r'' ex_drive = (Inr m, w1)" "im_size m = Fin 2"
    using ex_metadata by blast
  from download_ignores_status [OF m(1), of 10 404 Undefined "[1, 2]"] m(2) show ?thesis
    by (simp add: ex_transport_def)
qed

theorem download_within_cap_witness:
  "\<exists>w1. downloadFile ex_transport 1 ''t'' ''r'' ex_drive = (Inl DownloadTooLarge, w1)"
proof -
  obtain m w1 where m: "getMetadata ex_transport ''t'' ''r'' ex_drive = (Inr m, w1)" "im_size m = Fin 2"
    using ex_metadata by blast
  with download_within_cap [of ex_transport 1 "''t''" "''r''" ex_drive _ _ m w1] show ?thesis by simp
qed

theorem drive_reads_stay_in_scope_witness:
  "dw_sent (drive_do ex_transport 10 ''t'' (Download ''../x'') ex_drive) = []"
proof -
  have "\<not> isWithinRoot (dw_scope ex_drive) ''../x''"
    by (simp add: isWithinRoot_def ex_drive_def is_drive_id_def drive_id_char_def is_alnum_def is_lower_def is_digit_def is_upper_def)
  with drive_reads_stay_in_scope [of ex_transport 10 "''t''" "Download ''../x''" ex_drive] show ?thesis
    by (auto simp: ex_drive_def)
qed

end
