(* ===== verification/BrowserState.thy ===== *)
theory BrowserState
  imports DriveRead LeaseManager
begin

text \<open>
  \<^verbatim>\<open>src/ui/browser-state.ts\<close>: the state the browser view renders and the controller in front of the Drive
  client.  The controller's source is the read client and shares its scope, as \<^verbatim>\<open>main.ts\<close> wires it; the
  enrollment view is an argument of every operation.
\<close>

section \<open>The view\<close>

record browser_view_state =
  bv_status :: enrollment_status
  bv_canBrowse :: bool
  bv_canEnroll :: bool
  bv_fingerprint :: string
  bv_pairId :: "string option"
  bv_expiresAtMs :: "rat option"
  bv_reason :: string

definition describeEnrollmentLabel :: "enrollment_status \<Rightarrow> string" where
  "describeEnrollmentLabel s = (if s = DeviceEnrolled then ''Enrolled''
     else if s = AwaitingConsent then ''Waiting for Google consent'' else ''Not enrolled'')"

definition describeBrowserState :: "enrollment_view \<Rightarrow> string \<Rightarrow> string \<Rightarrow> browser_view_state" where
  "describeBrowserState e fingerprint rootName =
    (let enrolled = (ev_status e = DeviceEnrolled \<and> truthy (ev_pairId e));
         awaiting = (ev_status e = AwaitingConsent)
     in \<lparr> bv_status = (if enrolled then DeviceEnrolled else if awaiting then AwaitingConsent else NotYetEnrolled),
          bv_canBrowse = enrolled, bv_canEnroll = (\<not> enrolled \<and> \<not> awaiting), bv_fingerprint = fingerprint,
          bv_pairId = ev_pairId e, bv_expiresAtMs = ev_expiresAtMs e,
          bv_reason = (if enrolled then ''Enrolled read-only. Browsing is limited to the '' @ rootName @ '' folder.''
            else if awaiting then ''Paired, waiting for Google consent. Approve read-only access in the browser window that just opened; nothing is readable until that approval returns.''
            else ''Not enrolled. Enter a one-time enrollment code to authorise this device, then approve access in the browser.'') \<rparr>)"

section \<open>The controller\<close>

datatype browser_error = BrowserNotEnrolled | BrowserDrive drive_error | BrowserIndex index_error | NotListed | BrowserTooLarge

record browser =
  br_drive :: drive_world
  br_index :: metadata_index

definition assertEnrolled :: "enrollment_view \<Rightarrow> (browser_error, unit) result" where
  "assertEnrolled e = (if ev_status e \<noteq> DeviceEnrolled \<or> \<not> truthy (ev_pairId e) then Inl BrowserNotEnrolled else Inr ())"

text \<open>The client registers the listed children and the controller registers them again.\<close>

definition openFolder :: "drive_transport \<Rightarrow> string \<Rightarrow> enrollment_view \<Rightarrow> string \<Rightarrow> browser \<Rightarrow>
    (browser_error, indexed_metadata list) result \<times> browser" where
  "openFolder T token e folder b =
    (case assertEnrolled e of Inl x \<Rightarrow> (Inl x, b)
     | Inr _ \<Rightarrow> (case assertWithinRoot (dw_scope (br_drive b)) folder of Inl x \<Rightarrow> (Inl (BrowserDrive (ScopeError x)), b)
       | Inr _ \<Rightarrow> (case listChildren T token folder None (br_drive b) of
           (Inl x, w) \<Rightarrow> (Inl (BrowserDrive x), b\<lparr> br_drive := w \<rparr>)
         | (Inr (files, _), w) \<Rightarrow> (case registerChildren folder (map im_id files) (dw_scope w) of
             (Inl x, s) \<Rightarrow> (Inl (BrowserDrive (ScopeError x)), b\<lparr> br_drive := w\<lparr> dw_scope := s \<rparr> \<rparr>)
           | (Inr _, s) \<Rightarrow> (case meta_upsertAll files (br_index b) of
               (Inl x, ix) \<Rightarrow> (Inl (BrowserIndex x), b\<lparr> br_drive := w\<lparr> dw_scope := s \<rparr>, br_index := ix \<rparr>)
             | (Inr _, ix) \<Rightarrow> (Inr files, b\<lparr> br_drive := w\<lparr> dw_scope := s \<rparr>, br_index := ix \<rparr>))))))"

definition openRoot :: "drive_transport \<Rightarrow> string \<Rightarrow> enrollment_view \<Rightarrow> browser \<Rightarrow>
    (browser_error, indexed_metadata list) result \<times> browser" where
  "openRoot T token e b = (case assertEnrolled e of Inl x \<Rightarrow> (Inl x, b)
     | Inr _ \<Rightarrow> (case drive_resolveRootId T token (br_drive b) of
         (Inl x, w) \<Rightarrow> (Inl (BrowserDrive x), b\<lparr> br_drive := w \<rparr>)
       | (Inr r, w) \<Rightarrow> openFolder T token e r (b\<lparr> br_drive := w \<rparr>)))"

definition browser_search :: "(string \<Rightarrow> int option) \<Rightarrow> (string \<Rightarrow> string \<Rightarrow> int) \<Rightarrow> enrollment_view \<Rightarrow> string \<Rightarrow> browser \<Rightarrow>
    (browser_error, indexed_metadata list) result" where
  "browser_search D lc e query b = (case assertEnrolled e of Inl x \<Rightarrow> Inl x
     | Inr _ \<Rightarrow> let n = trim query in Inr (if n = [] then meta_values D lc (br_index b)
         else meta_search D lc (empty_query\<lparr> sq_name := Some n \<rparr>) (br_index b)))"

definition browser_metadata :: "string \<Rightarrow> browser \<Rightarrow> indexed_metadata option" where
  "browser_metadata i b = meta_get i (br_index b)"

definition browser_download :: "drive_transport \<Rightarrow> rat \<Rightarrow> rat \<Rightarrow> string \<Rightarrow> enrollment_view \<Rightarrow> string \<Rightarrow> browser \<Rightarrow>
    (browser_error, downloaded_file) result \<times> browser" where
  "browser_download T clientCap cap token e i b =
    (case assertEnrolled e of Inl x \<Rightarrow> (Inl x, b)
     | Inr _ \<Rightarrow> (case assertWithinRoot (dw_scope (br_drive b)) i of Inl x \<Rightarrow> (Inl (BrowserDrive (ScopeError x)), b)
       | Inr _ \<Rightarrow> (case meta_get i (br_index b) of None \<Rightarrow> (Inl NotListed, b)
         | Some m \<Rightarrow> if num_gt (im_size m) (Fin cap) then (Inl BrowserTooLarge, b)
           else (case downloadFile T clientCap token i (br_drive b) of
               (Inl x, w) \<Rightarrow> (Inl (BrowserDrive x), b\<lparr> br_drive := w \<rparr>)
             | (Inr d, w) \<Rightarrow> if of_nat (length (dl_bytes d)) > cap then (Inl BrowserTooLarge, b\<lparr> br_drive := w \<rparr>)
                 else (Inr d, b\<lparr> br_drive := w \<rparr>)))))"

section \<open>The gate\<close>

definition browsable :: "enrollment_view \<Rightarrow> bool" where
  "browsable e \<longleftrightarrow> ev_status e = DeviceEnrolled \<and> truthy (ev_pairId e)"

lemma assertEnrolled_browsable [simp]:
  "\<not> browsable e \<Longrightarrow> assertEnrolled e = Inl BrowserNotEnrolled" "browsable e \<Longrightarrow> assertEnrolled e = Inr ()"
  by (auto simp: assertEnrolled_def browsable_def)

text \<open>
  What the view offers is what the controller allows: browsing is offered exactly when the device is
  enrolled with a pairing, and otherwise, waiting for consent included, no operation sends a request,
  changes the scope or the index, or returns a file.
\<close>
theorem browser_gate:
  "(bv_canBrowse (describeBrowserState e fp n) \<longleftrightarrow> browsable e)
   \<and> \<not> (bv_canBrowse (describeBrowserState e fp n) \<and> bv_canEnroll (describeBrowserState e fp n))
   \<and> (\<not> browsable e \<longrightarrow> openRoot T token e b = (Inl BrowserNotEnrolled, b)
        \<and> openFolder T token e i b = (Inl BrowserNotEnrolled, b)
        \<and> browser_search D lc e query b = Inl BrowserNotEnrolled
        \<and> browser_download T c1 c2 token e i b = (Inl BrowserNotEnrolled, b))"
  by (simp add: describeBrowserState_def browsable_def [symmetric] Let_def openRoot_def openFolder_def browser_search_def
      browser_download_def)

theorem browser_gate_witness:
  "fst (openRoot ex_transport ''t'' \<lparr> ev_pairId = Some ''p'', ev_status = AwaitingConsent, ev_expiresAtMs = None \<rparr>
     \<lparr> br_drive = ex_drive, br_index = [] \<rparr>) = Inl BrowserNotEnrolled"
  using browser_gate [of "\<lparr> ev_pairId = Some ''p'', ev_status = AwaitingConsent, ev_expiresAtMs = None \<rparr>" "[]" "[]"
      ex_transport "''t''" "\<lparr> br_drive = ex_drive, br_index = [] \<rparr>"]
  by (simp add: browsable_def)

text \<open>A download is of a listed file in scope and within both caps.\<close>

lemma browser_download_listed:
  assumes "browser_download T c1 c2 token e i b = (Inr d, b')"
  shows "isWithinRoot (dw_scope (br_drive b)) i" "meta_get i (br_index b) \<noteq> None" "of_nat (length (dl_bytes d)) \<le> c2"
    "dl_fileId d = i"
proof -
  have e: "browsable e" using assms by (cases "browsable e") (auto simp: browser_download_def)
  with assms show i: "isWithinRoot (dw_scope (br_drive b)) i"
    by (auto simp: browser_download_def assertWithinRoot_def split: if_splits)
  with assms e obtain w where "downloadFile T c1 token i (br_drive b) = (Inr d, w)" "of_nat (length (dl_bytes d)) \<le> c2"
    "meta_get i (br_index b) \<noteq> None"
    by (auto simp: browser_download_def split: option.splits if_splits sum.splits prod.splits)
  then show "meta_get i (br_index b) \<noteq> None" "of_nat (length (dl_bytes d)) \<le> c2" "dl_fileId d = i"
    by (auto elim: download_cases split: sum.splits option.splits if_splits)
qed

lemma openFolder_sends:
  assumes "openFolder T token e i b = (r, b')"
  shows "sends (dw_scope (br_drive b)) token 1 (br_drive b) (br_drive b')"
proof (cases "browsable e \<and> isWithinRoot (dw_scope (br_drive b)) i")
  case True
  obtain x w where x: "listChildren T token i None (br_drive b) = (x, w)" by fastforce
  from children_sends [OF x] assms True x show ?thesis
    by (auto simp: openFolder_def split: sum.splits prod.splits)
next
  case False
  with assms show ?thesis by (cases "browsable e") (auto simp: openFolder_def assertWithinRoot_def)
qed

end
