(* ===== verification/PluginMain.thy ===== *)
theory PluginMain
  imports PluginSettings BrowserState CacheWrite
begin

text \<open>
  \<^verbatim>\<open>src/main.ts\<close>: the plugin that wires settings, device keys, lease manager, Drive client and browser
  controller together.  Each operation runs to its end here; what happens between its awaits is the
  subject of \<open>PluginTasks\<close>.  The runs of \<^verbatim>\<open>leaseManager.enroll\<close> and of a renewal are
  arguments, as are the host's storage, URL parser and Drive transport.
\<close>

section \<open>State\<close>

record plugin =
  pl_settings :: plugin_settings
  pl_identity :: device_identity
  pl_manager :: "lease_manager option"
  pl_browser :: browser
  pl_token :: string
  pl_persistedPairId :: "string option"
  pl_secrets :: secret_storage
  pl_data :: jsval

text \<open>The fresh private keys of the host, its answer to a save and its clock.\<close>

record 'x plugin_host =
  ph_crypto :: "'x lease_crypto_scheme"
  ph_url :: "string \<Rightarrow> parsed_url option"
  ph_drive :: drive_transport
  ph_ed :: bytes
  ph_x :: bytes
  ph_saves :: bool
  ph_now :: rat

datatype plugin_error = SettingsRefused url_error | DataRefused persistence_error | SaveFailed | WiringFailed
  | PluginNotEnrolled | EnrollmentLost | NoValidLease | BrowserFailed browser_error | NotConfigured | EnrollFailed
  | CacheFailed cache_error | CachePathRefused | CacheNeverReturns

section \<open>Loading and saving\<close>

definition raw_text :: "jsval \<Rightarrow> string \<Rightarrow> string" where
  "raw_text v d = (case as_string v of None \<Rightarrow> d | Some s \<Rightarrow> s)"

text \<open>Missing data and data without the properties read as no data.\<close>

definition raw_record :: "jsval \<Rightarrow> (string \<times> jsval) list" where
  "raw_record v = (case plain_object v of None \<Rightarrow> [] | Some r \<Rightarrow> r)"

definition loaded_settings :: "(string \<Rightarrow> parsed_url option) \<Rightarrow> (string \<times> jsval) list \<Rightarrow> plugin_settings" where
  "loaded_settings U raw = DEFAULT_SETTINGS\<lparr>
     set_brokerBaseUrl := normalizeBrokerBaseUrl U (raw_text (field raw ''brokerBaseUrl'') DEFAULT_BROKER_BASE_URL),
     set_allowedRootName := normalizeAllowedRootName (raw_text (field raw ''allowedRootName'') []),
     set_driveRootId := raw_text (field raw ''driveRootId'') [],
     set_remoteFiles := (case field raw ''remoteFiles'' of Arr vs \<Rightarrow> vs | _ \<Rightarrow> []),
     set_changesPageToken := as_string (field raw ''changesPageToken''),
     set_enrollmentCode := [] \<rparr>"

definition loadSettings :: "'x plugin_host \<Rightarrow> plugin \<Rightarrow> plugin" where
  "loadSettings h p = (let raw = raw_record (pl_data p);
       (d, secrets) = loadOrCreateDeviceIdentity (ph_crypto h) (ph_ed h) (ph_x h) (pl_secrets p)
     in p\<lparr> pl_settings := loaded_settings (ph_url h) raw, pl_identity := d, pl_secrets := secrets,
        pl_persistedPairId := as_string (field (raw_record (field raw ''enrollment'')) ''pairId'') \<rparr>)"

definition persisted_data :: "persisted_settings \<Rightarrow> persisted_enrollment \<Rightarrow> (persistence_error, jsval) result" where
  "persisted_data s e = buildPersistedPluginData
     \<lparr> ps_brokerBaseUrl = per_brokerBaseUrl s, ps_allowedRootName = per_allowedRootName s, ps_enrollment = e \<rparr>
     (Some \<lparr> leg_driveRootId = Some (per_driveRootId s), leg_remoteFiles = Some (per_remoteFiles s),
        leg_changesPageToken = per_changesPageToken s \<rparr>)"

text \<open>The settings and the enrollment through the allowlist, then the write; the device keys are stored first.\<close>

definition save_with :: "'x plugin_host \<Rightarrow> persisted_enrollment \<Rightarrow> plugin \<Rightarrow> (plugin_error, unit) result \<times> plugin" where
  "save_with h e p = (case toPersistedSettings (ph_url h) (pl_settings p) of Inl x \<Rightarrow> (Inl (SettingsRefused x), p)
     | Inr s \<Rightarrow> (case persisted_data s e of Inl x \<Rightarrow> (Inl (DataRefused x), p)
       | Inr v \<Rightarrow> if ph_saves h then (Inr (), p\<lparr> pl_data := v \<rparr>) else (Inl SaveFailed, p)))"

definition current_enrollment :: "plugin \<Rightarrow> enrollment_view" where
  "current_enrollment p = (case pl_manager p of Some m \<Rightarrow> enrollment_of m
     | None \<Rightarrow> \<lparr> ev_pairId = pl_persistedPairId p, ev_status = NotYetEnrolled, ev_expiresAtMs = None \<rparr>)"

definition saveSettings :: "'x plugin_host \<Rightarrow> plugin \<Rightarrow> (plugin_error, unit) result \<times> plugin" where
  "saveSettings h p = (let q = p\<lparr> pl_secrets := saveDeviceIdentity (pl_secrets p) (pl_identity p) \<rparr>
     in save_with h (toPersistedEnrollment (current_enrollment q)) q)"

section \<open>Wiring\<close>

text \<open>
  A new scope and client, and a new lease manager for the persisted pairing; the metadata index is the
  plugin's own and stays.
\<close>

definition setUpDrive :: "'x plugin_host \<Rightarrow> plugin \<Rightarrow> (plugin_error, unit) result \<times> plugin" where
  "setUpDrive h p = (let rootName = allowedRootNameForRuntime (set_allowedRootName (pl_settings p)) in
     case (new_root_scope rootName, brokerBaseUrlForRuntime (ph_url h) (set_brokerBaseUrl (pl_settings p)),
         new_lease_manager (Some rootName) None None (pl_persistedPairId p) BETA_ROOT_FOLDER_NAME) of
       (Inr scope, Inr base, Inr m) \<Rightarrow> (Inr (), p\<lparr> pl_manager := Some m,
          pl_browser := (pl_browser p)\<lparr> br_drive := \<lparr> dw_scope = scope, dw_sent = dw_sent (br_drive (pl_browser p)) \<rparr> \<rparr> \<rparr>)
     | _ \<Rightarrow> (Inl WiringFailed, p))"

definition then_do :: "(plugin_error, unit) result \<times> plugin \<Rightarrow> (plugin \<Rightarrow> (plugin_error, 'a) result \<times> plugin) \<Rightarrow>
    (plugin_error, 'a) result \<times> plugin" where
  "then_do r f = (case r of (Inl e, p) \<Rightarrow> (Inl e, p) | (Inr _, p) \<Rightarrow> f p)"

definition drop_pairing :: "plugin \<Rightarrow> plugin" where
  "drop_pairing p = p\<lparr> pl_persistedPairId := None, pl_token := [] \<rparr>"

definition updateBrokerBaseUrl :: "'x plugin_host \<Rightarrow> string \<Rightarrow> plugin \<Rightarrow> (plugin_error, unit) result \<times> plugin" where
  "updateBrokerBaseUrl h v p =
    (if \<not> brokerChangeInvalidatesEnrollment (ph_url h) (set_brokerBaseUrl (pl_settings p)) v then (Inr (), p)
     else then_do (setUpDrive h (drop_pairing (p\<lparr> pl_settings := (pl_settings p)\<lparr>
            set_brokerBaseUrl := normalizeBrokerBaseUrl (ph_url h) v \<rparr> \<rparr>))) (saveSettings h))"

definition updateAllowedRootName :: "'x plugin_host \<Rightarrow> string \<Rightarrow> plugin \<Rightarrow> (plugin_error, unit) result \<times> plugin" where
  "updateAllowedRootName h v p =
    (if \<not> rootChangeInvalidatesEnrollment (set_allowedRootName (pl_settings p)) v then (Inr (), p)
     else then_do (setUpDrive h (drop_pairing (p\<lparr> pl_settings := (pl_settings p)\<lparr>
            set_allowedRootName := normalizeAllowedRootName v \<rparr> \<rparr>))) (saveSettings h))"

text \<open>\<^verbatim>\<open>onEnrollment\<close> outside a logout: the pair id is kept and the settings are saved; a failure is not reported.\<close>

definition persistEnrollment :: "'x plugin_host \<Rightarrow> enrollment_view \<Rightarrow> plugin \<Rightarrow> plugin" where
  "persistEnrollment h e p = snd (saveSettings h (p\<lparr> pl_persistedPairId := ev_pairId e \<rparr>))"

text \<open>The manager after a run, with the last view it emitted persisted.\<close>

definition adopt_manager :: "'x plugin_host \<Rightarrow> lease_manager \<Rightarrow> lease_manager \<Rightarrow> plugin \<Rightarrow> plugin" where
  "adopt_manager h old m p = (let q = p\<lparr> pl_manager := Some m \<rparr>
     in if lm_emitted m = lm_emitted old then q else persistEnrollment h (last (lm_emitted m)) q)"

section \<open>The gate in front of Drive\<close>

type_synonym manager_run = "lease_manager \<Rightarrow> bool \<times> lease_manager"

text \<open>\<^verbatim>\<open>getValidAccessToken\<close>: the token at hand, or the one after the renewal it waits for.\<close>

definition getValidAccessToken :: "rat \<Rightarrow> manager_run \<Rightarrow> lease_manager \<Rightarrow> string option \<times> lease_manager" where
  "getValidAccessToken now renew m = (case token_now now m of Some t \<Rightarrow> (t, m)
     | None \<Rightarrow> (case renew m of (False, m') \<Rightarrow> (None, m') | (True, m') \<Rightarrow> (token_after_renewal m', m')))"

definition authorizeDrive :: "'x plugin_host \<Rightarrow> manager_run \<Rightarrow> plugin \<Rightarrow> (plugin_error, unit) result \<times> plugin" where
  "authorizeDrive h renew p = (case pl_manager p of None \<Rightarrow> (Inl PluginNotEnrolled, p)
     | Some m \<Rightarrow> if manager_status m \<noteq> DeviceEnrolled then (Inl PluginNotEnrolled, p)
       else (case getValidAccessToken (ph_now h) renew m of
           (None, m') \<Rightarrow> (Inl EnrollmentLost, (adopt_manager h m m' p)\<lparr> pl_token := [] \<rparr>)
         | (Some t, m') \<Rightarrow> (let q = (adopt_manager h m m' p)\<lparr> pl_token := t \<rparr>
             in if driveAccessDecision True (hasValidLease (ph_now h) m') then (Inr (), q)
                else (Inl NoValidLease, q\<lparr> pl_token := [] \<rparr>))))"

definition run_browser :: "(string \<Rightarrow> enrollment_view \<Rightarrow> browser \<Rightarrow> (browser_error, 'a) result \<times> browser) \<Rightarrow> plugin \<Rightarrow>
    (plugin_error, 'a) result \<times> plugin" where
  "run_browser operation p = (case operation (pl_token p) (current_enrollment p) (pl_browser p) of
     (r, b) \<Rightarrow> (case r of Inl x \<Rightarrow> Inl (BrowserFailed x) | Inr a \<Rightarrow> Inr a, p\<lparr> pl_browser := b \<rparr>))"

definition browse :: "'x plugin_host \<Rightarrow> manager_run \<Rightarrow>
    (string \<Rightarrow> enrollment_view \<Rightarrow> browser \<Rightarrow> (browser_error, 'a) result \<times> browser) \<Rightarrow> plugin \<Rightarrow>
    (plugin_error, 'a) result \<times> plugin" where
  "browse h renew operation p = then_do (authorizeDrive h renew p) (run_browser operation)"

definition listRoot :: "'x plugin_host \<Rightarrow> manager_run \<Rightarrow> plugin \<Rightarrow> (plugin_error, indexed_metadata list) result \<times> plugin" where
  "listRoot h renew = browse h renew (openRoot (ph_drive h))"

definition listFolder :: "'x plugin_host \<Rightarrow> manager_run \<Rightarrow> string \<Rightarrow> plugin \<Rightarrow>
    (plugin_error, indexed_metadata list) result \<times> plugin" where
  "listFolder h renew folder = browse h renew (\<lambda>t e. openFolder (ph_drive h) t e folder)"

section \<open>Downloads, enrollment and logout\<close>

text \<open>
  The cached name falls back to the id; \<open>None\<close> is a publication whose search for a free temporary name
  never ends.  The vault and the sequence number are those of the cache writer.
\<close>

definition cache_name :: "downloaded_file \<Rightarrow> string" where
  "cache_name d = (if dl_name d = [] then dl_fileId d else dl_name d)"

definition download_message :: "downloaded_file \<Rightarrow> string \<Rightarrow> string" where
  "download_message d path = ''Downloaded '' @ cache_name d @ '' ('' @ dec_nat (length (dl_bytes d)) @ '' bytes) to '' @ path
     @ ''. No vault-wide sync was performed.''"

definition download_to_cache :: "'x plugin_host \<Rightarrow> manager_run \<Rightarrow> cache_env \<Rightarrow> string \<Rightarrow> nat \<Rightarrow> vault \<Rightarrow> plugin \<Rightarrow>
    ((plugin_error, string \<times> string) result \<times> vault) \<times> plugin" where
  "download_to_cache h renew env i n fs p =
    (case browse h renew (\<lambda>t e. browser_download (ph_drive h) DEFAULT_MAX_DOWNLOAD_BYTES DEFAULT_MAX_DOWNLOAD_BYTES t e i) p of
       (Inl x, q) \<Rightarrow> ((Inl x, fs), q)
     | (Inr d, q) \<Rightarrow> (case cachePathForRemoteFile PLUGIN_CACHE_ROOT (dl_fileId d) (cache_name d) of
         None \<Rightarrow> ((Inl CachePathRefused, fs), q)
       | Some path \<Rightarrow> (case publishCacheFile env path (dl_bytes d) n fs of
           None \<Rightarrow> ((Inl CacheNeverReturns, fs), q)
         | Some ((Inl x, fs'), _) \<Rightarrow> ((Inl (CacheFailed x), fs'), q)
         | Some ((Inr _, fs'), _) \<Rightarrow> ((Inr (download_message d path, path), fs'), q))))"

definition with_code :: "string \<Rightarrow> plugin \<Rightarrow> plugin" where
  "with_code c p = p\<lparr> pl_settings := (pl_settings p)\<lparr> set_enrollmentCode := c \<rparr> \<rparr>"

text \<open>\<open>run\<close> is a run of \<^verbatim>\<open>leaseManager.enroll\<close>; the code is cleared on both outcomes.\<close>

definition enrollDevice :: "'x plugin_host \<Rightarrow> (string \<Rightarrow> manager_run) \<Rightarrow> string \<Rightarrow> plugin \<Rightarrow>
    (plugin_error, unit) result \<times> plugin" where
  "enrollDevice h run c p =
    (if set_brokerBaseUrl (pl_settings p) = [] then (Inl NotConfigured, p)
     else if set_allowedRootName (pl_settings p) = [] then (Inl NotConfigured, p)
     else (case pl_manager p of None \<Rightarrow> (Inl WiringFailed, p)
       | Some m \<Rightarrow> (case run c m of
           (False, m') \<Rightarrow> (Inl EnrollFailed, with_code [] (adopt_manager h m m' (with_code c p)))
         | (True, m') \<Rightarrow> saveSettings h (with_code [] (adopt_manager h m m' (with_code c p))))))"

definition no_enrollment :: persisted_enrollment where
  "no_enrollment = \<lparr> pe_pairId = None, pe_enrolled = False, pe_expiresAtMs = None \<rparr>"

text \<open>
  \<^verbatim>\<open>logout\<close>: the steps of \<open>logoutDeviceSession\<close> on the plugin's fields, then the wiring for the fresh
  identity.  A failed write leaves the identity, the token and the persisted data as they are.
\<close>

definition logout :: "'x plugin_host \<Rightarrow> plugin \<Rightarrow> (plugin_error, unit) result \<times> plugin" where
  "logout h p =
    (let p1 = p\<lparr> pl_manager := map_option clear_manager (pl_manager p), pl_secrets := clearDeviceIdentity (pl_secrets p),
           pl_persistedPairId := None \<rparr>
     in then_do (save_with h no_enrollment p1) (\<lambda>p2.
          setUpDrive h (p2\<lparr> pl_token := [], pl_identity := generateDeviceIdentity (ph_crypto h) (ph_ed h) (ph_x h) \<rparr>)))"

definition renewLease :: "'x plugin_host \<Rightarrow> manager_run \<Rightarrow> plugin \<Rightarrow> bool \<times> plugin" where
  "renewLease h renew p = (case pl_manager p of None \<Rightarrow> (False, p)
     | Some m \<Rightarrow> if manager_status m \<noteq> DeviceEnrolled then (False, p)
       else (case getValidAccessToken (ph_now h) renew m of (t, m') \<Rightarrow> (t \<noteq> None, adopt_manager h m m' p)))"

section \<open>No request without a valid lease\<close>

lemma then_do_simps [simp]: "then_do (Inl e, p) f = (Inl e, p)" "then_do (Inr u, p) f = f p"
  by (simp_all add: then_do_def)

lemma then_do_Inr: "then_do r f = (Inr a, q) \<Longrightarrow> \<exists>p. r = (Inr (), p) \<and> f p = (Inr a, q)"
  by (cases r; cases "fst r") auto

lemma save_with_keeps:
  "save_with h e p = (r, q) \<Longrightarrow> pl_browser q = pl_browser p \<and> pl_manager q = pl_manager p \<and> pl_token q = pl_token p
     \<and> pl_settings q = pl_settings p \<and> pl_identity q = pl_identity p \<and> pl_secrets q = pl_secrets p
     \<and> pl_persistedPairId q = pl_persistedPairId p"
  by (auto simp: save_with_def split: sum.splits if_splits)

lemma saveSettings_keeps:
  "saveSettings h p = (r, q) \<Longrightarrow> pl_browser q = pl_browser p \<and> pl_manager q = pl_manager p \<and> pl_token q = pl_token p
     \<and> pl_settings q = pl_settings p \<and> pl_identity q = pl_identity p \<and> pl_persistedPairId q = pl_persistedPairId p"
  unfolding saveSettings_def Let_def by (drule save_with_keeps) simp

lemma adopt_manager_keeps [simp]:
  "pl_browser (adopt_manager h old m p) = pl_browser p" "pl_manager (adopt_manager h old m p) = Some m"
proof -
  have "pl_browser (persistEnrollment h e q) = pl_browser q \<and> pl_manager (persistEnrollment h e q) = pl_manager q" for e q
    using saveSettings_keeps [of h "q\<lparr> pl_persistedPairId := ev_pairId e \<rparr>"]
    by (cases "saveSettings h (q\<lparr> pl_persistedPairId := ev_pairId e \<rparr>)") (simp add: persistEnrollment_def)
  then show "pl_browser (adopt_manager h old m p) = pl_browser p" "pl_manager (adopt_manager h old m p) = Some m"
    by (simp_all add: adopt_manager_def Let_def)
qed

lemma valid_token:
  assumes "getValidAccessToken now renew m = (Some t, m')"
  shows "lm_accessToken m' = Some t" "t \<noteq> []"
  using assms
  by (auto simp: getValidAccessToken_def token_now_def token_after_renewal_def truthy_def
      split: option.splits if_splits prod.splits bool.splits)

lemma authorize_keeps_browser: "authorizeDrive h renew p = (r, q) \<Longrightarrow> pl_browser q = pl_browser p"
  by (auto simp: authorizeDrive_def Let_def split: option.splits if_splits prod.splits)

lemma authorized:
  assumes "authorizeDrive h renew p = (Inr u, q)"
  shows "\<exists>m. pl_manager q = Some m \<and> hasValidLease (ph_now h) m \<and> lm_accessToken m = Some (pl_token q) \<and> pl_token q \<noteq> []"
proof -
  obtain m t m' where m: "pl_manager p = Some m" "getValidAccessToken (ph_now h) renew m = (Some t, m')"
    and q: "hasValidLease (ph_now h) m'" "q = (adopt_manager h m m' p)\<lparr> pl_token := t \<rparr>"
    using assms by (auto simp: authorizeDrive_def driveAccessDecision_def Let_def split: option.splits if_splits prod.splits)
  from valid_token [OF m(2)] q show ?thesis by simp
qed

text \<open>
  No Drive operation runs without a lease: whatever a renewal yields, an operation changes the browser, and
  so sends a request, only when the lease manager then holds a lease that is still valid past the renewal
  lead, and it sends that lease's own token; a refusal after the token check leaves no token.
\<close>

lemma drive_needs_valid_lease:
  assumes "browse h renew operation p = (r, q)"
  shows "(pl_browser q \<noteq> pl_browser p \<longrightarrow> (\<exists>m. pl_manager q = Some m \<and> hasValidLease (ph_now h) m
      \<and> lm_accessToken m = Some (pl_token q) \<and> pl_token q \<noteq> []))
    \<and> (r \<in> {Inl EnrollmentLost, Inl NoValidLease} \<longrightarrow> pl_token q = [])"
proof -
  obtain a p1 where a: "authorizeDrive h renew p = (a, p1)" by fastforce
  show ?thesis
  proof (cases a)
    case (Inl e)
    then have "r = Inl e" "q = p1" using assms a by (simp_all add: browse_def)
    moreover have "e \<in> {EnrollmentLost, NoValidLease} \<Longrightarrow> pl_token p1 = []"
      using a Inl by (auto simp: authorizeDrive_def Let_def split: option.splits if_splits prod.splits)
    ultimately show ?thesis using authorize_keeps_browser [OF a] by auto
  next
    case (Inr u)
    from assms a Inr have "run_browser operation p1 = (r, q)" by (simp add: browse_def)
    then have "pl_manager q = pl_manager p1" "pl_token q = pl_token p1" "r \<notin> {Inl EnrollmentLost, Inl NoValidLease}"
      by (auto simp: run_browser_def split: prod.splits sum.splits)
    with authorized [of h renew p u p1] a Inr show ?thesis by auto
  qed
qed

section \<open>A restart\<close>

lemma current_enrollment_secrets [simp]: "current_enrollment (p\<lparr> pl_secrets := x \<rparr>) = current_enrollment p"
  by (simp add: current_enrollment_def split: option.split)

text \<open>
  What the settings rely on in the host's URL parser: an address it accepted, printed as origin and path,
  is accepted again with the same parts.
\<close>

definition url_stable :: "(string \<Rightarrow> parsed_url option) \<Rightarrow> bool" where
  "url_stable U \<longleftrightarrow> (\<forall>v b. validateBrokerBaseUrl U v = Inr b \<longrightarrow> trim b \<noteq> [] \<and> validateBrokerBaseUrl U b = Inr b)"

lemma save_with_Inr:
  assumes "save_with h e p = (Inr (), q)"
  obtains s v where "toPersistedSettings (ph_url h) (pl_settings p) = Inr s" "persisted_data s e = Inr v"
    "q = p\<lparr> pl_data := v \<rparr>"
  using assms by (auto simp: save_with_def split: sum.splits if_splits)

lemma toPersistedSettings_Inr:
  assumes "toPersistedSettings U c = Inr s" "url_stable U"
  shows "normalizeBrokerBaseUrl U (per_brokerBaseUrl s) = per_brokerBaseUrl s"
    "per_allowedRootName s = normalizeAllowedRootName (set_allowedRootName c)"
    "per_driveRootId s = set_driveRootId c" "per_remoteFiles s = set_remoteFiles c"
    "per_changesPageToken s = set_changesPageToken c"
  using assms
  by (auto simp: toPersistedSettings_def bind_result_def url_stable_def normalizeBrokerBaseUrl_def Let_def
      split: sum.splits if_splits)

text \<open>The members of the written data.\<close>

lemma persisted_data_fields:
  assumes "persisted_data s e = Inr v"
  shows "raw_text (field (raw_record v) ''brokerBaseUrl'') d = per_brokerBaseUrl s"
    "raw_text (field (raw_record v) ''allowedRootName'') d = per_allowedRootName s"
    "raw_text (field (raw_record v) ''driveRootId'') d = per_driveRootId s"
    "field (raw_record v) ''remoteFiles'' = Arr (per_remoteFiles s)"
    "as_string (field (raw_record v) ''changesPageToken'') = per_changesPageToken s"
    "field (raw_record v) ''enrollment'' = enrollment_json e"
proof -
  have "raw_record v = [(''brokerBaseUrl'', Str (per_brokerBaseUrl s)), (''allowedRootName'', Str (per_allowedRootName s)),
      (''enrollment'', enrollment_json e), (''driveRootId'', Str (per_driveRootId s)), (''remoteFiles'', Arr (per_remoteFiles s))]
      @ opt_member ''changesPageToken'' Str (per_changesPageToken s)"
    using assms by (simp add: persisted_data_def buildPersistedPluginData_def Let_def raw_record_def opt_member_def
        bind_result_Inr split: option.splits) (auto split: option.splits)
  then show "raw_text (field (raw_record v) ''brokerBaseUrl'') d = per_brokerBaseUrl s"
    "raw_text (field (raw_record v) ''allowedRootName'') d = per_allowedRootName s"
    "raw_text (field (raw_record v) ''driveRootId'') d = per_driveRootId s"
    "field (raw_record v) ''remoteFiles'' = Arr (per_remoteFiles s)"
    "as_string (field (raw_record v) ''changesPageToken'') = per_changesPageToken s"
    "field (raw_record v) ''enrollment'' = enrollment_json e"
    by (simp_all add: raw_text_def field_Cons) (simp add: opt_member_def field_def split: option.split)
qed

lemma enrollment_pair: "as_string (field (raw_record (enrollment_json e)) ''pairId'') = pe_pairId e"
  by (simp add: enrollment_json_def raw_record_def field_Cons opt_json_def split: option.split)

lemma loaded_after_save:
  assumes "persisted_data s e = Inr v" "toPersistedSettings U c = Inr s" "url_stable U"
  shows "loaded_settings U (raw_record v) = c\<lparr> set_brokerBaseUrl := per_brokerBaseUrl s,
    set_allowedRootName := normalizeAllowedRootName (set_allowedRootName c), set_enrollmentCode := [] \<rparr>"
  by (simp add: loaded_settings_def persisted_data_fields [OF assms(1)] toPersistedSettings_Inr [OF assms(2,3)]
      DEFAULT_SETTINGS_def)

text \<open>
  C16: saved settings survive a restart: what a successful save wrote is loaded back with the broker address
  and root name in their normal forms, the other settings unchanged and no enrollment code; the device
  keeps its identity; and the pairing is taken up again exactly when the device was enrolled when it was
  saved, so a pairing that still awaited consent is not.
\<close>
theorem settings_survive_restart:
  assumes "saveSettings h p = (Inr (), q)" "url_stable (ph_url h)"
    and "pl_identity p = generateDeviceIdentity (ph_crypto h) ed x" "length ed = 32" "length x = 32"
  shows "\<exists>b. normalizeBrokerBaseUrl (ph_url h) b = b \<and> pl_settings (loadSettings h q) = (pl_settings p)\<lparr> set_brokerBaseUrl := b,
      set_allowedRootName := normalizeAllowedRootName (set_allowedRootName (pl_settings p)), set_enrollmentCode := [] \<rparr>
    \<and> pl_identity (loadSettings h q) = pl_identity p
    \<and> pl_persistedPairId (loadSettings h q) = (if browsable (current_enrollment p) then ev_pairId (current_enrollment p) else None)"
proof -
  let ?p = "p\<lparr> pl_secrets := saveDeviceIdentity (pl_secrets p) (pl_identity p) \<rparr>"
  from assms(1) have "save_with h (toPersistedEnrollment (current_enrollment ?p)) ?p = (Inr (), q)"
    by (simp add: saveSettings_def Let_def)
  then obtain s v where s: "toPersistedSettings (ph_url h) (pl_settings p) = Inr s"
    and v: "persisted_data s (toPersistedEnrollment (current_enrollment ?p)) = Inr v" and q: "q = ?p\<lparr> pl_data := v \<rparr>"
    by (rule save_with_Inr) simp
  have id: "loadOrCreateDeviceIdentity (ph_crypto h) (ph_ed h) (ph_x h) (pl_secrets q) = (pl_identity p, pl_secrets q)"
    using stored_identity_read [OF assms(4,5,3)] by (simp add: q loadOrCreateDeviceIdentity_def saveDeviceIdentity_def)
  have pair: "pl_persistedPairId (loadSettings h q) = pe_pairId (toPersistedEnrollment (current_enrollment p))"
    using id by (simp add: loadSettings_def Let_def q persisted_data_fields [OF v] enrollment_pair)
  have "pl_settings (loadSettings h q) = (pl_settings p)\<lparr> set_brokerBaseUrl := per_brokerBaseUrl s,
      set_allowedRootName := normalizeAllowedRootName (set_allowedRootName (pl_settings p)), set_enrollmentCode := [] \<rparr>"
    "pl_identity (loadSettings h q) = pl_identity p"
    using id loaded_after_save [OF v s assms(2)] by (simp_all add: loadSettings_def Let_def q)
  with pair toPersistedSettings_Inr(1) [OF s assms(2)] show ?thesis
    by (auto simp: toPersistedEnrollment_def browsable_def)
qed

section \<open>The end of a session\<close>

lemma setUpDrive_Inr:
  assumes "setUpDrive h p = (Inr (), q)"
  obtains m where "pl_manager q = Some m" "lm_pairId m = pl_persistedPairId p" "lm_accessToken m = None" "lm_lease m = None"
    "br_index (pl_browser q) = br_index (pl_browser p)" "pl_token q = pl_token p" "pl_data q = pl_data p"
    "pl_persistedPairId q = pl_persistedPairId p" "pl_identity q = pl_identity p" "pl_settings q = pl_settings p"
    "lm_consentPending m = False" "scope_root (dw_scope (br_drive (pl_browser q))) = None"
proof -
  obtain m where m: "new_lease_manager (Some (allowedRootNameForRuntime (set_allowedRootName (pl_settings p)))) None None
      (pl_persistedPairId p) BETA_ROOT_FOLDER_NAME = Inr m"
    and "pl_manager q = Some m" "br_index (pl_browser q) = br_index (pl_browser p)" "pl_token q = pl_token p"
    "pl_data q = pl_data p" "pl_persistedPairId q = pl_persistedPairId p" "pl_identity q = pl_identity p"
    "pl_settings q = pl_settings p" "scope_root (dw_scope (br_drive (pl_browser q))) = None"
    using assms by (auto simp: setUpDrive_def new_root_scope_def Let_def split: sum.splits if_splits)
  moreover from m have "lm_pairId m = pl_persistedPairId p" "lm_accessToken m = None" "lm_lease m = None" "lm_consentPending m = False"
    by (auto simp: new_lease_manager_def Let_def split: option.splits if_splits)
  ultimately show thesis using that by blast
qed

text \<open>Nothing of the session is left in memory or in the plugin data.\<close>

definition session_over :: "plugin \<Rightarrow> bool" where
  "session_over q \<longleftrightarrow> pl_token q = [] \<and> pl_persistedPairId q = None
     \<and> (\<exists>m. pl_manager q = Some m \<and> lm_pairId m = None \<and> lm_accessToken m = None \<and> lm_lease m = None)
     \<and> field (raw_record (pl_data q)) ''enrollment'' = enrollment_json no_enrollment"

lemma rewired_session_over:
  assumes "then_do (setUpDrive h (drop_pairing p)) (saveSettings h) = (Inr (), q)"
  shows "session_over q \<and> br_index (pl_browser q) = br_index (pl_browser p) \<and> pl_settings q = pl_settings p"
proof -
  from then_do_Inr [OF assms] obtain p1 where w: "setUpDrive h (drop_pairing p) = (Inr (), p1)" and s: "saveSettings h p1 = (Inr (), q)"
    by blast
  from w obtain m where m: "pl_manager p1 = Some m" "lm_pairId m = None" "lm_accessToken m = None" "lm_lease m = None"
    "lm_consentPending m = False" "pl_token p1 = []" "pl_persistedPairId p1 = None"
    "br_index (pl_browser p1) = br_index (pl_browser p)" "pl_settings p1 = pl_settings p"
    by (rule setUpDrive_Inr) (simp add: drop_pairing_def)
  let ?p1 = "p1\<lparr> pl_secrets := saveDeviceIdentity (pl_secrets p1) (pl_identity p1) \<rparr>"
  have e: "toPersistedEnrollment (current_enrollment ?p1) = no_enrollment"
    using m by (simp add: current_enrollment_def toPersistedEnrollment_def enrollment_of_def truthy_def no_enrollment_def)
  from s have "save_with h no_enrollment ?p1 = (Inr (), q)" by (simp add: saveSettings_def Let_def flip: e)
  then obtain x v where "persisted_data x no_enrollment = Inr v" "q = ?p1\<lparr> pl_data := v \<rparr>"
    by (rule save_with_Inr)
  with m persisted_data_fields(6) show ?thesis by (simp add: session_over_def)
qed

lemma logout_Inr:
  assumes "logout h p = (Inr (), q)"
  shows "session_over q \<and> br_index (pl_browser q) = br_index (pl_browser p)
    \<and> pl_identity q = generateDeviceIdentity (ph_crypto h) (ph_ed h) (ph_x h)"
proof -
  let ?p1 = "p\<lparr> pl_manager := map_option clear_manager (pl_manager p), pl_secrets := clearDeviceIdentity (pl_secrets p),
      pl_persistedPairId := None \<rparr>"
  let ?fresh = "\<lambda>p2. p2\<lparr> pl_token := [], pl_identity := generateDeviceIdentity (ph_crypto h) (ph_ed h) (ph_x h) \<rparr>"
  from assms obtain p2 where s: "save_with h no_enrollment ?p1 = (Inr (), p2)" and w: "setUpDrive h (?fresh p2) = (Inr (), q)"
    by (auto simp: logout_def Let_def dest!: then_do_Inr)
  from s obtain x v where v: "persisted_data x no_enrollment = Inr v" "p2 = ?p1\<lparr> pl_data := v \<rparr>"
    by (rule save_with_Inr)
  from w show ?thesis
    by (rule setUpDrive_Inr) (use v persisted_data_fields(6) in \<open>simp add: session_over_def\<close>)
qed

lemma broker_change_Inr:
  assumes "brokerChangeInvalidatesEnrollment (ph_url h) (set_brokerBaseUrl (pl_settings p)) v" "updateBrokerBaseUrl h v p = (Inr (), q)"
  shows "session_over q \<and> br_index (pl_browser q) = br_index (pl_browser p)
    \<and> set_brokerBaseUrl (pl_settings q) = normalizeBrokerBaseUrl (ph_url h) v"
  using assms rewired_session_over [of h "p\<lparr> pl_settings := (pl_settings p)\<lparr>
      set_brokerBaseUrl := normalizeBrokerBaseUrl (ph_url h) v \<rparr> \<rparr>" q]
  by (simp add: updateBrokerBaseUrl_def)

lemma root_change_Inr:
  assumes "rootChangeInvalidatesEnrollment (set_allowedRootName (pl_settings p)) v" "updateAllowedRootName h v p = (Inr (), q)"
  shows "session_over q \<and> br_index (pl_browser q) = br_index (pl_browser p)
    \<and> set_allowedRootName (pl_settings q) = normalizeAllowedRootName v"
  using assms rewired_session_over [of h "p\<lparr> pl_settings := (pl_settings p)\<lparr>
      set_allowedRootName := normalizeAllowedRootName v \<rparr> \<rparr>" q]
  by (simp add: updateAllowedRootName_def)

text \<open>
  C15: a change of the broker address or of the root folder, and a logout, end the session: when they
  succeed, no token, pairing or lease is left in the plugin and the plugin data says not enrolled, so a
  pairing is never presented to a newly configured broker; a logout also replaces the device identity.
  The metadata listed before is not forgotten by any of the three.
\<close>
theorem session_ends_cleanly:
  "(brokerChangeInvalidatesEnrollment (ph_url h) (set_brokerBaseUrl (pl_settings p)) v
      \<and> updateBrokerBaseUrl h v p = (Inr (), q) \<longrightarrow> session_over q \<and> br_index (pl_browser q) = br_index (pl_browser p)
        \<and> set_brokerBaseUrl (pl_settings q) = normalizeBrokerBaseUrl (ph_url h) v)
   \<and> (rootChangeInvalidatesEnrollment (set_allowedRootName (pl_settings p)) v
      \<and> updateAllowedRootName h v p = (Inr (), q) \<longrightarrow> session_over q \<and> br_index (pl_browser q) = br_index (pl_browser p)
        \<and> set_allowedRootName (pl_settings q) = normalizeAllowedRootName v)
   \<and> (logout h p = (Inr (), q) \<longrightarrow> session_over q \<and> br_index (pl_browser q) = br_index (pl_browser p)
        \<and> pl_identity q = generateDeviceIdentity (ph_crypto h) (ph_ed h) (ph_x h))"
  using broker_change_Inr root_change_Inr logout_Inr by metis

section \<open>A concrete plugin\<close>

definition ex_address :: "string \<Rightarrow> parsed_url option" where
  "ex_address v = (if v \<in> {''https://a'', ''https://b''} then Some \<lparr> pu_protocol = ''https:'', pu_username = [], pu_password = [],
     pu_pathname = ''/'', pu_search = [], pu_hash = [], pu_origin = v \<rparr> else None)"

definition ex_plugin_host :: "unit plugin_host" where
  "ex_plugin_host = \<lparr> ph_crypto = toy_lease, ph_url = ex_address, ph_drive = ex_transport, ph_ed = replicate 32 5,
     ph_x = replicate 32 6, ph_saves = True, ph_now = 0 \<rparr>"

definition ex_leased_manager :: lease_manager where
  "ex_leased_manager = ex_manager\<lparr> lm_accessToken := Some ''tok'', lm_accessTokenExpiresAtMs := 100000,
     lm_lease := Some \<lparr> lv_expiresAtMs = 100000, lv_scope = ''s'', lv_allowedRootName = ''root'' \<rparr> \<rparr>"

definition ex_plugin :: plugin where
  "ex_plugin = \<lparr> pl_settings = DEFAULT_SETTINGS\<lparr> set_brokerBaseUrl := ''https://a'', set_allowedRootName := ''root'' \<rparr>,
     pl_identity = generateDeviceIdentity toy_lease (replicate 32 1) (replicate 32 2), pl_manager = Some ex_leased_manager,
     pl_browser = \<lparr> br_drive = ex_drive\<lparr> dw_scope := \<lparr> scope_name = ''root'', scope_root = None, scope_parentOf = [] \<rparr> \<rparr>, br_index = [] \<rparr>,
     pl_token = [], pl_persistedPairId = Some ''p'', pl_secrets = Map.empty, pl_data = Undefined \<rparr>"

lemma ex_address_accepted: "validateBrokerBaseUrl ex_address ''https://a'' = Inr ''https://a''"
  "validateBrokerBaseUrl ex_address ''https://b'' = Inr ''https://b''" by code_simp+

lemma ex_address_stable: "url_stable ex_address"
proof -
  have "trim ''https://a'' \<noteq> []" "trim ''https://b'' \<noteq> []" by code_simp+
  moreover have "v \<in> {''https://a'', ''https://b''}" if "validateBrokerBaseUrl ex_address v = Inr b" for v b
    using that by (auto simp: validateBrokerBaseUrl_def ex_address_def split: if_splits)
  ultimately show ?thesis using ex_address_accepted unfolding url_stable_def by fastforce
qed

definition ex_persisted :: "string \<Rightarrow> persisted_settings" where
  "ex_persisted b = \<lparr> per_brokerBaseUrl = b, per_allowedRootName = ''root'', per_driveRootId = [], per_remoteFiles = [],
     per_changesPageToken = None \<rparr>"

lemma ex_accepted_data: "is_ok (persisted_data (ex_persisted ''https://b'') no_enrollment)"
  "is_ok (persisted_data (ex_persisted ''https://a'') \<lparr> pe_pairId = Some ''p'', pe_enrolled = True, pe_expiresAtMs = Some x \<rparr>)"
  "is_ok (persisted_data (ex_persisted ''https://a'') no_enrollment)"
  by code_simp+

lemma ex_persisted_settings:
  "toPersistedSettings ex_address (pl_settings ex_plugin) = Inr (ex_persisted ''https://a'')"
  "toPersistedSettings ex_address ((pl_settings ex_plugin)\<lparr> set_brokerBaseUrl := ''https://b'' \<rparr>) = Inr (ex_persisted ''https://b'')"
  by code_simp+

theorem settings_survive_restart_witness:
  "\<exists>q. saveSettings ex_plugin_host ex_plugin = (Inr (), q) \<and> pl_identity (loadSettings ex_plugin_host q) = pl_identity ex_plugin
     \<and> pl_persistedPairId (loadSettings ex_plugin_host q) = Some ''p''"
proof -
  have e: "current_enrollment ex_plugin = \<lparr> ev_pairId = Some ''p'', ev_status = DeviceEnrolled, ev_expiresAtMs = Some 100000 \<rparr>"
    by (simp add: ex_plugin_def current_enrollment_def enrollment_of_def manager_status_def expiryOf_def ex_leased_manager_def ex_manager_def)
  then have t: "toPersistedEnrollment (current_enrollment ex_plugin)
      = \<lparr> pe_pairId = Some ''p'', pe_enrolled = True, pe_expiresAtMs = Some 100000 \<rparr>"
    by (simp add: toPersistedEnrollment_def truthy_def)
  obtain v where "persisted_data (ex_persisted ''https://a'')
      \<lparr> pe_pairId = Some ''p'', pe_enrolled = True, pe_expiresAtMs = Some 100000 \<rparr> = Inr v"
    using ex_accepted_data(2) by (auto simp: is_ok_iff)
  with ex_persisted_settings(1) t obtain q where q: "saveSettings ex_plugin_host ex_plugin = (Inr (), q)"
    by (simp add: saveSettings_def save_with_def ex_plugin_host_def Let_def)
  have "pl_identity ex_plugin = generateDeviceIdentity (ph_crypto ex_plugin_host) (replicate 32 1) (replicate 32 2)"
    by (simp add: ex_plugin_def ex_plugin_host_def)
  from settings_survive_restart [OF q _ this] ex_address_stable e q show ?thesis
    by (auto simp: ex_plugin_host_def browsable_def truthy_def)
qed

lemma ex_change_invalidates:
  "brokerChangeInvalidatesEnrollment (ph_url ex_plugin_host) (set_brokerBaseUrl (pl_settings ex_plugin)) ''https://b''"
  "normalizeBrokerBaseUrl ex_address ''https://b'' = ''https://b''"
proof -
  have "trim ''https://a'' \<noteq> []" "trim ''https://b'' \<noteq> []" by code_simp+
  then have "normalizeBrokerBaseUrl ex_address ''https://a'' = ''https://a''" and b: "normalizeBrokerBaseUrl ex_address ''https://b'' = ''https://b''"
    using ex_address_accepted by (simp_all add: normalizeBrokerBaseUrl_def)
  then show "brokerChangeInvalidatesEnrollment (ph_url ex_plugin_host) (set_brokerBaseUrl (pl_settings ex_plugin)) ''https://b''"
    by (simp add: brokerChangeInvalidatesEnrollment_def ex_plugin_host_def ex_plugin_def)
  from b show "normalizeBrokerBaseUrl ex_address ''https://b'' = ''https://b''" .
qed

lemma ex_wires:
  assumes "pl_settings p = (pl_settings ex_plugin)\<lparr> set_brokerBaseUrl := b \<rparr>" "b = ''https://a'' \<or> b = ''https://b''"
    and "pl_persistedPairId p = None"
  obtains q where "setUpDrive ex_plugin_host p = (Inr (), q)"
proof -
  have root: "allowedRootNameForRuntime ''root'' = ''root''" and trims: "trim ''https://a'' \<noteq> []" "trim ''https://b'' \<noteq> []"
    by code_simp+
  obtain m where m: "new_lease_manager (Some ''root'') None None None BETA_ROOT_FOLDER_NAME = Inr m"
    by (simp add: new_lease_manager_def DEFAULT_CLAIM_POLL_INTERVAL_MS_def DEFAULT_RENEWAL_LEAD_MS_def)
  have "allowedRootNameForRuntime (set_allowedRootName (pl_settings p)) = ''root''"
    "brokerBaseUrlForRuntime (ph_url ex_plugin_host) (set_brokerBaseUrl (pl_settings p)) = Inr b"
    using assms(1,2) root trims ex_address_accepted
    by (auto simp: ex_plugin_def brokerBaseUrlForRuntime_def ex_plugin_host_def)
  with m assms(3) show thesis by (intro that) (simp add: setUpDrive_def new_root_scope_def Let_def)
qed

lemma ex_broker_changes:
  assumes "pl_settings p = pl_settings ex_plugin"
  obtains q where "updateBrokerBaseUrl ex_plugin_host ''https://b'' p = (Inr (), q)"
proof -
  let ?p = "p\<lparr> pl_settings := (pl_settings ex_plugin)\<lparr> set_brokerBaseUrl := ''https://b'' \<rparr> \<rparr>"
  obtain p1 where w: "setUpDrive ex_plugin_host (drop_pairing ?p) = (Inr (), p1)"
    by (rule ex_wires [of "drop_pairing ?p" "''https://b''"]) (simp_all add: drop_pairing_def)
  from w have p1: "pl_settings p1 = pl_settings ?p" "toPersistedEnrollment (current_enrollment p1) = no_enrollment"
    by (rule setUpDrive_Inr; simp add: drop_pairing_def current_enrollment_def toPersistedEnrollment_def enrollment_of_def
        truthy_def no_enrollment_def)+
  obtain v where "persisted_data (ex_persisted ''https://b'') no_enrollment = Inr v"
    using ex_accepted_data(1) by (auto simp: is_ok_iff)
  with p1 ex_persisted_settings(2) obtain q where s: "saveSettings ex_plugin_host p1 = (Inr (), q)"
    by (simp add: saveSettings_def save_with_def ex_plugin_host_def Let_def)
  have "updateBrokerBaseUrl ex_plugin_host ''https://b'' p = (Inr (), q)"
    using ex_change_invalidates w s assms by (simp add: updateBrokerBaseUrl_def then_do_def ex_plugin_host_def)
  then show thesis by (rule that)
qed

lemma ex_logs_out:
  obtains q where "logout ex_plugin_host ex_plugin = (Inr (), q)"
proof -
  let ?p = "ex_plugin\<lparr> pl_manager := map_option clear_manager (pl_manager ex_plugin),
      pl_secrets := clearDeviceIdentity (pl_secrets ex_plugin), pl_persistedPairId := None \<rparr>"
  obtain v where "persisted_data (ex_persisted ''https://a'') no_enrollment = Inr v"
    using ex_accepted_data(3) by (auto simp: is_ok_iff)
  with ex_persisted_settings(1) have s: "save_with ex_plugin_host no_enrollment ?p = (Inr (), ?p\<lparr> pl_data := v \<rparr>)"
    by (simp add: save_with_def ex_plugin_host_def)
  let ?q = "(?p\<lparr> pl_data := v \<rparr>)\<lparr> pl_token := [], pl_identity := generateDeviceIdentity (ph_crypto ex_plugin_host)
      (ph_ed ex_plugin_host) (ph_x ex_plugin_host) \<rparr>"
  obtain q where "setUpDrive ex_plugin_host ?q = (Inr (), q)"
    by (rule ex_wires [of ?q "''https://a''"]) (simp_all add: ex_plugin_def)
  with s have "logout ex_plugin_host ex_plugin = (Inr (), q)" by (simp add: logout_def then_do_def Let_def)
  then show thesis by (rule that)
qed

theorem session_ends_cleanly_witness:
  "\<exists>q. updateBrokerBaseUrl ex_plugin_host ''https://b'' ex_plugin = (Inr (), q) \<and> session_over q"
proof -
  obtain q where "updateBrokerBaseUrl ex_plugin_host ''https://b'' ex_plugin = (Inr (), q)"
    by (rule ex_broker_changes [OF refl])
  with session_ends_cleanly [of ex_plugin_host ex_plugin "''https://b''" q] ex_change_invalidates(1) show ?thesis by blast
qed

end
