(* ===== verification/BrowserView.thy ===== *)
theory BrowserView
  imports PluginMain
begin

text \<open>
  \<^verbatim>\<open>src/ui/browser-view.ts\<close>: the read-only Drive browser of the plugin.  What \<^verbatim>\<open>render\<close> draws is a tree
  of elements, and a button carries what pressing it asks for; the handlers act on the plugin of
  \<open>PluginMain\<close> through the host object of \<^verbatim>\<open>main.ts\<close>.  Each handler runs to its end.  A code unit above 255
  in a text is shown as a question mark; whether a button is greyed out is not modelled.
\<close>

section \<open>Texts\<close>

text \<open>An error that carries no message has the empty one here.\<close>

definition messageOf :: "string \<Rightarrow> string" where
  "messageOf m = (if m = [] then ''unexpected error'' else m)"

text \<open>\<^verbatim>\<open>toFixed(1)\<close> below \<open>10 ^ 21\<close>: the nearest tenth, the larger one of two.\<close>

definition tenths :: "rat \<Rightarrow> int" where
  "tenths r = \<lfloor>10 * r + 1 / 2\<rfloor>"

definition toFixed1 :: "rat \<Rightarrow> string" where
  "toFixed1 r = dec_int (tenths r div 10) @ ''.'' @ dec_int (tenths r mod 10)"

definition formatSize :: "number \<Rightarrow> string" where
  "formatSize n = (case n of
     Fin b \<Rightarrow> if b \<le> 0 then ''0 B'' else if b < 1024 then number_text (Fin b) @ '' B''
       else if b < 1024 * 1024 then toFixed1 (b / 1024) @ '' KB'' else toFixed1 (b / (1024 * 1024)) @ '' MB''
   | _ \<Rightarrow> ''0 B'')"

section \<open>The host object\<close>

definition host_rootName :: "plugin \<Rightarrow> string" where
  "host_rootName p = (let n = set_allowedRootName (pl_settings p) in if n = [] then allowedRootNameForRuntime n else n)"

definition host_brokerBaseUrl :: "'x plugin_host \<Rightarrow> plugin \<Rightarrow> (url_error, string) result" where
  "host_brokerBaseUrl h p = brokerBaseUrlForRuntime (ph_url h) (set_brokerBaseUrl (pl_settings p))"

definition host_view :: "'x plugin_host \<Rightarrow> plugin \<Rightarrow> browser_view_state" where
  "host_view h p = describeBrowserState (current_enrollment p) (deviceFingerprint (ph_crypto h) (pl_identity p)) (host_rootName p)"

section \<open>What is drawn\<close>

datatype intent = CheckAgain | EnrollDevice | SearchMetadata | OpenTheRoot | RowAction indexed_metadata

text \<open>A node with its tag, class, text and children; a button with its label; an input with its type, placeholder and value.\<close>

datatype 'i element = Node string string string "'i element list" | Button string 'i | Input string string string

record view_world =
  vw_plugin :: plugin
  vw_vault :: vault
  vw_rows :: "indexed_metadata list"
  vw_folderId :: "string option"
  vw_term :: string
  vw_notices :: "string list"

definition MIDDOT :: string where "MIDDOT = '' '' @ [CHR 0xB7] @ '' ''"

definition awaiting_panel :: "string \<Rightarrow> string \<Rightarrow> intent element" where
  "awaiting_panel broker rootName = Node ''div'' ''gdrive-stream-awaiting-consent'' []
     [Node ''h4'' [] ''Waiting for Google consent'' [],
      Node ''p'' [] ''Approve read-only access in the browser window that just opened. Enrolment completes only when that approval returns; until then this device holds no usable lease.'' [],
      Button ''Check status again'' CheckAgain,
      Node ''p'' ''gdrive-stream-note'' (''Diagnostics: broker '' @ broker @ MIDDOT @ ''root '' @ rootName) []]"

definition enrollment_panel :: "intent element" where
  "enrollment_panel = Node ''div'' ''gdrive-stream-not-enrolled'' []
     [Node ''h4'' [] ''Not enrolled'' [],
      Node ''p'' [] ''Authorise this device with a one-time enrollment code. Approving access opens your system browser; the code is used once and is never saved.'' [],
      Input ''text'' ''One-time enrollment code'' [],
      Button ''Enroll this device'' EnrollDevice,
      Node ''p'' ''gdrive-stream-note'' ''Stored on this device: broker URL, device keys, pair id and enrollment status only.'' []]"

definition is_folder :: "indexed_metadata \<Rightarrow> bool" where
  "is_folder f \<longleftrightarrow> im_mimeType f = DRIVE_FOLDER_MIME"

definition row_element :: "indexed_metadata \<Rightarrow> intent element" where
  "row_element f = Node ''div'' ''gdrive-stream-drive-item'' []
     [Node ''span'' [] ''?? '' [], Node ''span'' ''gdrive-stream-drive-name'' (im_name f) [],
      Node ''span'' ''gdrive-stream-drive-meta'' ('' ? '' @ im_mimeType f @ MIDDOT
        @ (if im_modifiedTime f = [] then ''unknown time'' else im_modifiedTime f) @ MIDDOT @ formatSize (im_size f)) [],
      Button (if is_folder f then ''Open'' else ''Download'') (RowAction f)]"

definition browser_panel :: "string \<Rightarrow> view_world \<Rightarrow> intent element list" where
  "browser_panel rootName w =
    [Node ''div'' ''gdrive-stream-toolbar'' []
       [Input ''search'' (''Search '' @ rootName @ '' metadata'') (vw_term w), Button ''Search'' SearchMetadata,
        Button (rootName @ '' root'') OpenTheRoot, Node ''span'' ''gdrive-stream-readonly-badge'' ''read-only'' []],
     Node ''div'' ''gdrive-stream-drive-list'' []
       ((if vw_rows w = [] then [Node ''p'' [] (if vw_folderId w = None then ''No metadata listed yet.'' else ''This folder is empty.'') []]
         else []) @ map row_element (vw_rows w)),
     Node ''p'' ''gdrive-stream-note'' ''Metadata and on-demand single-file reads only. Nothing is created, renamed, moved, deleted or synced.'' []]"

definition screen_head :: "browser_view_state \<Rightarrow> 'i element list" where
  "screen_head state = [Node ''h3'' [] ''GDriveStreaming Drive (read-only)'' [],
     Node ''div'' ''gdrive-stream-drive-summary'' []
       [Node ''div'' [] (''Status: '' @ describeEnrollmentLabel (bv_status state)) [],
        Node ''div'' [] (''Device fingerprint: '' @ bv_fingerprint state) [], Node ''div'' [] (bv_reason state) []]]"

text \<open>The awaiting panel reads the broker address, which may throw.\<close>

definition render :: "'x plugin_host \<Rightarrow> view_world \<Rightarrow> (url_error, intent element list) result" where
  "render h w =
    (let p = vw_plugin w; state = host_view h p; rootName = host_rootName p
     in if bv_status state = AwaitingConsent
        then bind_result (host_brokerBaseUrl h p) (\<lambda>b. Inr (screen_head state @ [awaiting_panel b rootName]))
        else if \<not> bv_canBrowse state then Inr (screen_head state @ [enrollment_panel])
        else Inr (screen_head state @ browser_panel rootName w))"

section \<open>Handlers\<close>

text \<open>
  What the handlers meet: a run of the lease renewal and of the enrollment, the text of an error, the
  host's date parser and comparison, the cache writer's surroundings, and what opening a file yields.
\<close>

datatype open_outcome = Opened | NotAFile | OpenFailed string

record view_env =
  ve_renew :: manager_run
  ve_enroll :: "string \<Rightarrow> manager_run"
  ve_message :: "plugin_error \<Rightarrow> string"
  ve_date :: "string \<Rightarrow> int option"
  ve_compare :: "string \<Rightarrow> string \<Rightarrow> int"
  ve_cache :: cache_env
  ve_sequence :: nat
  ve_open :: "string \<Rightarrow> open_outcome"

definition say :: "string \<Rightarrow> view_world \<Rightarrow> view_world" where
  "say n w = w\<lparr> vw_notices := vw_notices w @ [n] \<rparr>"

definition diagnostics :: "'x plugin_host \<Rightarrow> plugin \<Rightarrow> (url_error, string) result" where
  "diagnostics h p = bind_result (host_brokerBaseUrl h p)
     (\<lambda>b. Inr (''[broker '' @ b @ MIDDOT @ ''root '' @ host_rootName p @ '']''))"

text \<open>The notice of a failed read; \<open>None\<close> where building its text throws.\<close>

definition read_failed :: "'x plugin_host \<Rightarrow> view_env \<Rightarrow> plugin_error \<Rightarrow> view_world \<Rightarrow> view_world option" where
  "read_failed h E e w = (case diagnostics h (vw_plugin w) of Inl _ \<Rightarrow> None
     | Inr d \<Rightarrow> Some (say (''Read failed: '' @ messageOf (ve_message E e) @ '' '' @ d) w))"

definition loadRoot :: "'x plugin_host \<Rightarrow> view_env \<Rightarrow> view_world \<Rightarrow> view_world" where
  "loadRoot h E w = (let w1 = w\<lparr> vw_term := [], vw_folderId := None \<rparr> in
     case listRoot h (ve_renew E) (vw_plugin w) of
       (Inr files, p) \<Rightarrow> w1\<lparr> vw_plugin := p, vw_rows := files \<rparr>
     | (Inl e, p) \<Rightarrow> (case read_failed h E e (w1\<lparr> vw_plugin := p \<rparr>) of
         None \<Rightarrow> w1\<lparr> vw_plugin := p \<rparr>
       | Some w2 \<Rightarrow> w2\<lparr> vw_rows := [] \<rparr>))"

definition onOpen :: "'x plugin_host \<Rightarrow> view_env \<Rightarrow> view_world \<Rightarrow> view_world" where
  "onOpen h E w = (case render h w of Inl _ \<Rightarrow> w
     | Inr _ \<Rightarrow> if ev_status (current_enrollment (vw_plugin w)) = DeviceEnrolled then loadRoot h E w else w)"

definition search_pressed :: "view_env \<Rightarrow> view_world \<Rightarrow> view_world" where
  "search_pressed E w =
    (case browser_search (ve_date E) (ve_compare E) (current_enrollment (vw_plugin w)) (vw_term w) (pl_browser (vw_plugin w)) of
       Inr files \<Rightarrow> w\<lparr> vw_folderId := None, vw_rows := files \<rparr>
     | Inl e \<Rightarrow> say (''Search unavailable: '' @ messageOf (ve_message E (BrowserFailed e))) (w\<lparr> vw_folderId := None \<rparr>))"

definition openDownloaded :: "view_env \<Rightarrow> string \<Rightarrow> view_world \<Rightarrow> view_world" where
  "openDownloaded E path w = (case ve_open E path of Opened \<Rightarrow> w
     | NotAFile \<Rightarrow> say (''Downloaded to '' @ path @ ''. Open it from the file explorer to read it.'') w
     | OpenFailed m \<Rightarrow> say (''Downloaded, but opening the note failed: '' @ messageOf m) w)"

definition row_pressed :: "'x plugin_host \<Rightarrow> view_env \<Rightarrow> indexed_metadata \<Rightarrow> view_world \<Rightarrow> view_world" where
  "row_pressed h E f w =
    (if is_folder f
     then (case listFolder h (ve_renew E) (im_id f) (vw_plugin w) of
         (Inr files, p) \<Rightarrow> w\<lparr> vw_plugin := p, vw_folderId := Some (im_id f), vw_rows := files \<rparr>
       | (Inl e, p) \<Rightarrow> (let w1 = w\<lparr> vw_plugin := p \<rparr> in case read_failed h E e w1 of None \<Rightarrow> w1 | Some w2 \<Rightarrow> w2))
     else (case download_to_cache h (ve_renew E) (ve_cache E) (im_id f) (ve_sequence E) (vw_vault w) (vw_plugin w) of
         ((Inr (message, path), fs), p) \<Rightarrow> openDownloaded E path (say message (w\<lparr> vw_plugin := p, vw_vault := fs \<rparr>))
       | ((Inl e, fs), p) \<Rightarrow> (let w1 = w\<lparr> vw_plugin := p, vw_vault := fs \<rparr> in
           case read_failed h E e w1 of None \<Rightarrow> w1 | Some w2 \<Rightarrow> w2)))"

text \<open>The plugin's own notice comes before the view's.\<close>

definition enroll_pressed :: "'x plugin_host \<Rightarrow> view_env \<Rightarrow> string \<Rightarrow> view_world \<Rightarrow> view_world" where
  "enroll_pressed h E typed w =
    (let code = trim typed in
     if code = [] then say ''Enter the one-time enrollment code first.'' w
     else (case enrollDevice h (ve_enroll E) code (vw_plugin w) of
         (Inr _, p) \<Rightarrow> say (''Device enrolled. Read-only '' @ host_rootName p @ '' access is ready.'')
           (say ''Device enrolled. Read-only access is ready.'' (w\<lparr> vw_plugin := p \<rparr>))
       | (Inl e, p) \<Rightarrow> say (''Enrollment failed: '' @ messageOf (ve_message E e)) (w\<lparr> vw_plugin := p \<rparr>)))"

section \<open>Sessions\<close>

text \<open>What the user does in the view, and what the settings and the commands do to the plugin behind it.\<close>

datatype view_event = ViewOpened | TermTyped string | CodeEntered string | SearchPressed | RootPressed
  | RowPressed indexed_metadata | BrokerChanged string | RootNameChanged string | LogoutRequested | RenewRequested

definition view_do :: "'x plugin_host \<Rightarrow> view_env \<Rightarrow> view_event \<Rightarrow> view_world \<Rightarrow> view_world" where
  "view_do h E ev w = (case ev of ViewOpened \<Rightarrow> onOpen h E w
     | TermTyped t \<Rightarrow> w\<lparr> vw_term := t \<rparr>
     | CodeEntered c \<Rightarrow> enroll_pressed h E c w
     | SearchPressed \<Rightarrow> search_pressed E w
     | RootPressed \<Rightarrow> loadRoot h E w
     | RowPressed f \<Rightarrow> row_pressed h E f w
     | BrokerChanged v \<Rightarrow> w\<lparr> vw_plugin := snd (updateBrokerBaseUrl h v (vw_plugin w)) \<rparr>
     | RootNameChanged v \<Rightarrow> w\<lparr> vw_plugin := snd (updateAllowedRootName h v (vw_plugin w)) \<rparr>
     | LogoutRequested \<Rightarrow> w\<lparr> vw_plugin := snd (logout h (vw_plugin w)) \<rparr>
     | RenewRequested \<Rightarrow> w\<lparr> vw_plugin := snd (renewLease h (ve_renew E) (vw_plugin w)) \<rparr>)"

fun intents :: "'i element \<Rightarrow> 'i list" where
  "intents (Node _ _ _ es) = concat (map intents es)"
| "intents (Button _ i) = [i]"
| "intents (Input _ _ _) = []"

definition offered :: "'x plugin_host \<Rightarrow> view_world \<Rightarrow> intent list" where
  "offered h w = (case render h w of Inl _ \<Rightarrow> [] | Inr es \<Rightarrow> concat (map intents es))"

definition event_intent :: "view_event \<Rightarrow> intent option" where
  "event_intent ev = (case ev of CodeEntered _ \<Rightarrow> Some EnrollDevice | SearchPressed \<Rightarrow> Some SearchMetadata
     | RootPressed \<Rightarrow> Some OpenTheRoot | RowPressed f \<Rightarrow> Some (RowAction f) | _ \<Rightarrow> None)"

text \<open>A session: each event of the view is one its screen offers; the host and the surroundings differ from event to event.\<close>

inductive view_session :: "view_world \<Rightarrow> ('x plugin_host \<times> view_env \<times> view_event) list \<Rightarrow> view_world \<Rightarrow> bool" where
  start: "view_session w [] w"
| event: "view_session w evs v \<Longrightarrow> (\<And>i. event_intent ev = Some i \<Longrightarrow> i \<in> set (offered h v)) \<Longrightarrow>
    view_session w (evs @ [(h, E, ev)]) (view_do h E ev v)"

section \<open>What the screen offers\<close>

definition intents_of :: "'i element list \<Rightarrow> 'i set" where
  "intents_of es = (\<Union>e\<in>set es. set (intents e))"

lemma intents_of_append [simp]: "intents_of (xs @ ys) = intents_of xs \<union> intents_of ys"
  by (simp add: intents_of_def)

lemma intents_of_head [simp]: "intents_of (screen_head state) = {}"
  by (simp add: intents_of_def screen_head_def)

lemma intents_rows [simp]: "set (intents (row_element f)) = {RowAction f}"
  by (simp add: row_element_def)

lemma intents_of_panels [simp]:
  "intents_of [awaiting_panel b n] = {CheckAgain}" "intents_of [enrollment_panel] = {EnrollDevice}"
  "intents_of (browser_panel n w) = {SearchMetadata, OpenTheRoot} \<union> RowAction ` set (vw_rows w)"
  by (auto simp: intents_of_def awaiting_panel_def enrollment_panel_def browser_panel_def)

lemma offered_render: "set (offered h w) = (case render h w of Inl _ \<Rightarrow> {} | Inr es \<Rightarrow> intents_of es)"
  by (auto simp: offered_def intents_of_def split: sum.split)

lemma host_view_gate:
  "bv_status (host_view h p) = AwaitingConsent \<longleftrightarrow> ev_status (current_enrollment p) = AwaitingConsent"
  "bv_canBrowse (host_view h p) \<longleftrightarrow> browsable (current_enrollment p)"
  by (simp_all add: host_view_def describeBrowserState_def browsable_def Let_def)

lemma screen_offered:
  "browsable (current_enrollment (vw_plugin w)) \<Longrightarrow>
    set (offered h w) = {SearchMetadata, OpenTheRoot} \<union> RowAction ` set (vw_rows w)"
  by (simp add: offered_render render_def Let_def host_view_gate) (simp add: browsable_def)

text \<open>
  The screen offers exactly what the enrollment allows: a browsable device is offered the search, the
  root and one action for every row and nothing else, a device waiting for consent only another look at
  its status, and any other device only the enrollment; drawing fails only while waiting for consent,
  and then only because the configured broker address is refused.
\<close>

lemma screen_offers_exactly:
  "set (offered h w) =
     (let e = current_enrollment (vw_plugin w) in
      if browsable e then {SearchMetadata, OpenTheRoot} \<union> RowAction ` set (vw_rows w)
      else if ev_status e = AwaitingConsent then (if is_ok (host_brokerBaseUrl h (vw_plugin w)) then {CheckAgain} else {})
      else {EnrollDevice})
   \<and> (\<not> is_ok (render h w) \<longleftrightarrow> ev_status (current_enrollment (vw_plugin w)) = AwaitingConsent
        \<and> \<not> is_ok (host_brokerBaseUrl h (vw_plugin w)))"
proof (cases "browsable (current_enrollment (vw_plugin w))")
  case True
  then have "ev_status (current_enrollment (vw_plugin w)) \<noteq> AwaitingConsent" by (simp add: browsable_def)
  with True show ?thesis by (simp add: screen_offered render_def Let_def host_view_gate)
next
  case False
  then show ?thesis
    by (cases "host_brokerBaseUrl h (vw_plugin w)") (simp_all add: offered_render render_def Let_def host_view_gate bind_result_def)
qed

section \<open>What a click sends\<close>

definition drive_get :: "string \<Rightarrow> string \<Rightarrow> drive_request" where
  "drive_get token url = \<lparr> dq_url = url, dq_method = ''GET'', dq_headers = [(''Authorization'', ''Bearer '' @ token)] \<rparr>"

text \<open>A read of one item that is inside the root: a page of its children, its metadata or its bytes.\<close>

definition item_read :: "root_scope \<Rightarrow> string \<Rightarrow> drive_request \<Rightarrow> bool" where
  "item_read s token q \<longleftrightarrow> (\<exists>i. isWithinRoot s i \<and> q \<in> {drive_get token (children_url i None),
     drive_get token (file_url i [(''fields'', Some METADATA_FIELDS)]), drive_get token (file_url i [(''alt'', Some ''media'')])})"

text \<open>
  The root Drive names: its answer to the lookup of the configured name lists exactly one folder of that
  name, and \<open>r\<close> is the id of this folder.
\<close>

definition named_root :: "drive_transport \<Rightarrow> string \<Rightarrow> root_scope \<Rightarrow> drive_request list \<Rightarrow> string \<Rightarrow> bool" where
  "named_root T token s sent r \<longleftrightarrow> (\<exists>p body fs f. T sent (drive_get token (folders_url (scope_name s))) = Some p
     \<and> 200 \<le> dr_status p \<and> dr_status p < 300 \<and> drive_record (dr_json p) = Inr body
     \<and> map_results folder_ref_of (files_of body) = Inr fs
     \<and> filter (\<lambda>f. folder_name f = scope_name s \<and> folder_mimeType f = DRIVE_FOLDER_MIME) fs = [f]
     \<and> folder_id f = r \<and> is_drive_id r)"

text \<open>
  What one operation may send.  With a resolved root, at most two reads of items inside it; without one,
  at most the lookup of the configured name and then the children of the folder that it named.
\<close>

definition click_reads :: "drive_transport \<Rightarrow> string \<Rightarrow> root_scope \<Rightarrow> drive_request list \<Rightarrow> drive_request list \<Rightarrow> bool" where
  "click_reads T token s sent qs \<longleftrightarrow> (case scope_root s of
     Some r \<Rightarrow> length qs \<le> 2 \<and> (\<forall>q\<in>set qs. item_read s token q)
   | None \<Rightarrow> qs = [] \<or> qs = [drive_get token (folders_url (scope_name s))]
       \<or> (\<exists>r. named_root T token s sent r
            \<and> qs = [drive_get token (folders_url (scope_name s)), drive_get token (children_url r None)]))"

definition reads_between :: "drive_transport \<Rightarrow> string \<Rightarrow> drive_world \<Rightarrow> drive_world \<Rightarrow> bool" where
  "reads_between T token w w' \<longleftrightarrow> (\<exists>qs. dw_sent w' = dw_sent w @ qs \<and> click_reads T token (dw_scope w) (dw_sent w) qs)
     \<and> (\<forall>r. scope_root (dw_scope w') = Some r \<longrightarrow> scope_root (dw_scope w) = Some r
          \<or> scope_root (dw_scope w) = None \<and> named_root T token (dw_scope w) (dw_sent w) r)"

lemma click_reads_none [simp]: "click_reads T token s sent []"
  by (simp add: click_reads_def split: option.split)

lemma reads_refl [simp]: "reads_between T token w w"
  by (simp add: reads_between_def)

lemma send_adds:
  assumes "drive_send T token url w = (r, w')"
  obtains (silent) e where "r = Inl e" "w' = w"
  | (asked) "dw_sent w' = dw_sent w @ [drive_get token url]" "dw_scope w' = dw_scope w"
      "\<And>p. r = Inr p \<Longrightarrow> T (dw_sent w) (drive_get token url) = Some p"
  using assms by (auto simp: drive_send_def drive_get_def Let_def split: if_splits option.splits)

lemma readJson_adds:
  assumes "readJson T token url w = (r, w')"
  obtains (silent) e where "r = Inl e" "w' = w"
  | (asked) "dw_sent w' = dw_sent w @ [drive_get token url]" "dw_scope w' = dw_scope w"
      "\<And>body. r = Inr body \<Longrightarrow> \<exists>p. T (dw_sent w) (drive_get token url) = Some p
         \<and> 200 \<le> dr_status p \<and> dr_status p < 300 \<and> drive_record (dr_json p) = Inr body"
proof -
  obtain x w1 where x: "drive_send T token url w = (x, w1)" by fastforce
  from x show thesis
  proof (cases rule: send_adds)
    case (silent e)
    with assms x show ?thesis by (intro that(1)) (auto simp: readJson_def)
  next
    case asked
    with assms x show ?thesis by (intro that(2)) (auto simp: readJson_def split: sum.splits if_splits)
  qed
qed

lemma register_root [simp]: "scope_root (snd (registerChildren p cs s)) = scope_root s"
proof -
  have "scope_root (snd (register_loop p cs s)) = scope_root s" for s
    by (induction cs arbitrary: s) simp_all
  then show ?thesis by (simp add: registerChildren_def split: sum.split)
qed

lemma children_adds:
  assumes "listChildren T token i None w = (r, w')"
  shows "(dw_sent w' = dw_sent w \<or> isWithinRoot (dw_scope w) i \<and> dw_sent w' = dw_sent w @ [drive_get token (children_url i None)])
    \<and> scope_root (dw_scope w') = scope_root (dw_scope w)"
proof (cases "isWithinRoot (dw_scope w) i")
  case True
  obtain x w1 where x: "readJson T token (children_url i None) w = (x, w1)" by fastforce
  have reg: "scope_root s = scope_root t" if "registerChildren p cs t = (y, s)" for p cs t y s
    using register_root [of p cs t] that by simp
  from x have "(dw_sent w1 = dw_sent w \<or> dw_sent w1 = dw_sent w @ [drive_get token (children_url i None)]) \<and> dw_scope w1 = dw_scope w"
    by (cases rule: readJson_adds) simp_all
  with assms True x show ?thesis by (auto simp: listChildren_def reg split: sum.splits prod.splits)
next
  case False
  with assms show ?thesis by (auto simp: listChildren_def assertWithinRoot_def)
qed

lemma openFolder_adds:
  assumes "openFolder T token e i b = (r, b')"
  shows "(dw_sent (br_drive b') = dw_sent (br_drive b) \<or> isWithinRoot (dw_scope (br_drive b)) i
      \<and> dw_sent (br_drive b') = dw_sent (br_drive b) @ [drive_get token (children_url i None)])
    \<and> scope_root (dw_scope (br_drive b')) = scope_root (dw_scope (br_drive b))"
proof (cases "browsable e \<and> isWithinRoot (dw_scope (br_drive b)) i")
  case True
  obtain x w where x: "listChildren T token i None (br_drive b) = (x, w)" by fastforce
  have reg: "scope_root s = scope_root t" if "registerChildren p cs t = (y, s)" for p cs t y s
    using register_root [of p cs t] that by simp
  from children_adds [OF x] assms True x show ?thesis
    by (auto simp: openFolder_def reg split: sum.splits prod.splits)
next
  case False
  with assms show ?thesis by (cases "browsable e") (auto simp: openFolder_def assertWithinRoot_def)
qed

lemma resolved_adds:
  assumes "drive_resolveRootId T token w = (Inr r, w')" "scope_root (dw_scope w) = None"
  shows "dw_sent w' = dw_sent w @ [drive_get token (folders_url (scope_name (dw_scope w)))]"
    "scope_root (dw_scope w') = Some r" "named_root T token (dw_scope w) (dw_sent w) r"
proof -
  obtain x w1 where x: "readJson T token (folders_url (scope_name (dw_scope w))) w = (x, w1)" by fastforce
  from x have "dw_sent w' = dw_sent w @ [drive_get token (folders_url (scope_name (dw_scope w)))]
    \<and> scope_root (dw_scope w') = Some r \<and> named_root T token (dw_scope w) (dw_sent w) r"
  proof (cases rule: readJson_adds)
    case (silent e)
    with assms x show ?thesis by (simp add: drive_resolveRootId_def listFoldersByName_def)
  next
    case asked
    from assms x obtain body fs where b: "x = Inr body" "map_results folder_ref_of (files_of body) = Inr fs"
      "resolveRootId (Some fs) (dw_scope w1) = (Inr r, dw_scope w')" "dw_sent w' = dw_sent w1"
      by (auto simp: drive_resolveRootId_def listFoldersByName_def split: sum.splits prod.splits)
    have "\<exists>f. filter (\<lambda>f. folder_name f = scope_name (dw_scope w) \<and> folder_mimeType f = DRIVE_FOLDER_MIME) fs = [f]
      \<and> folder_id f = r \<and> is_drive_id r \<and> scope_root (dw_scope w') = Some r"
    proof (cases "filter (\<lambda>f. folder_name f = scope_name (dw_scope w) \<and> folder_mimeType f = DRIVE_FOLDER_MIME) fs")
      case (Cons f rest)
      with b(3) asked(2) assms(2) show ?thesis
        by (cases rest) (auto simp: resolveRootId_def split: if_splits dest!: arg_cong [where f = scope_root and y = "dw_scope w'"])
    qed (use b(3) asked(2) assms(2) in \<open>simp add: resolveRootId_def\<close>)
    with b(2,4) asked(1) asked(3) [OF b(1)] show ?thesis unfolding named_root_def by auto
  qed
  then show "dw_sent w' = dw_sent w @ [drive_get token (folders_url (scope_name (dw_scope w)))]"
    "scope_root (dw_scope w') = Some r" "named_root T token (dw_scope w) (dw_sent w) r" by blast+
qed

lemma unresolved_reads:
  assumes "drive_resolveRootId T token w = (Inl e, w')"
  shows "reads_between T token w w'"
proof -
  have none: "scope_root (dw_scope w) = None" using assms by (cases "scope_root (dw_scope w)") (auto simp: drive_resolveRootId_def)
  obtain x w1 where x: "readJson T token (folders_url (scope_name (dw_scope w))) w = (x, w1)" by fastforce
  have "dw_sent w' = dw_sent w1 \<and> (dw_scope w1 = dw_scope w \<longrightarrow> scope_root (dw_scope w') = None)"
    using assms none x
    by (auto simp: drive_resolveRootId_def listFoldersByName_def resolveRootId_def split: sum.splits prod.splits list.splits if_splits)
  with x none show ?thesis
    by (cases rule: readJson_adds) (auto simp: reads_between_def click_reads_def)
qed

lemma openFolder_reads:
  assumes "openFolder T token e i b = (r, b')"
  shows "reads_between T token (br_drive b) (br_drive b')"
  using openFolder_adds [OF assms] by (auto simp: reads_between_def click_reads_def item_read_def isWithinRoot_def split: option.splits)

lemma openRoot_reads:
  assumes "openRoot T token e b = (r, b')"
  shows "reads_between T token (br_drive b) (br_drive b')"
proof (cases "browsable e")
  case True
  obtain x w where x: "drive_resolveRootId T token (br_drive b) = (x, w)" by fastforce
  show ?thesis
  proof (cases x)
    case (Inl y)
    with assms True x have "br_drive b' = w" by (auto simp: openRoot_def)
    with unresolved_reads x Inl show ?thesis by simp
  next
    case (Inr i)
    with assms True x have o: "openFolder T token e i (b\<lparr> br_drive := w \<rparr>) = (r, b')" by (simp add: openRoot_def)
    show ?thesis
    proof (cases "scope_root (dw_scope (br_drive b))")
      case None
      from resolved_adds [OF x [unfolded Inr] None] openFolder_adds [OF o] None show ?thesis
        by (auto simp: reads_between_def click_reads_def)
    next
      case (Some root)
      with x have "w = br_drive b" by (simp add: drive_resolveRootId_def)
      with openFolder_reads [OF o] show ?thesis by simp
    qed
  qed
next
  case False
  with assms show ?thesis by (simp add: openRoot_def)
qed

lemma metadata_adds:
  assumes "getMetadata T token i w = (r, w')" "isWithinRoot (dw_scope w) i"
  shows "dw_scope w' = dw_scope w \<and> (dw_sent w' = dw_sent w
    \<or> dw_sent w' = dw_sent w @ [drive_get token (file_url i [(''fields'', Some METADATA_FIELDS)])])"
proof -
  obtain x w1 where x: "readJson T token (file_url i [(''fields'', Some METADATA_FIELDS)]) w = (x, w1)" by fastforce
  with assms have "w' = w1" by (auto simp: getMetadata_def split: sum.splits)
  with x show ?thesis by (cases rule: readJson_adds) simp_all
qed

lemma download_reads:
  assumes "downloadFile T cap token i w = (r, w')"
  shows "reads_between T token w w'"
  using assms
proof (cases rule: download_cases)
  case (metadata_only e m)
  with metadata_adds [OF metadata_only(3,2)] show ?thesis
    by (auto simp: reads_between_def click_reads_def item_read_def isWithinRoot_def split: option.splits)
next
  case (sent m w1 x)
  from sent(4) have "dw_scope w' = dw_scope w1 \<and> (dw_sent w' = dw_sent w1
      \<or> dw_sent w' = dw_sent w1 @ [drive_get token (file_url i [(''alt'', Some ''media'')])])"
    by (cases rule: send_adds) simp_all
  with metadata_adds [OF sent(2,1)] sent(1) show ?thesis
    by (auto simp: reads_between_def click_reads_def item_read_def isWithinRoot_def split: option.splits)
qed simp

lemma browser_download_reads:
  assumes "browser_download T c1 c2 token e i b = (r, b')"
  shows "reads_between T token (br_drive b) (br_drive b')"
proof (cases "browsable e \<and> isWithinRoot (dw_scope (br_drive b)) i")
  case True
  obtain x w where x: "downloadFile T c1 token i (br_drive b) = (x, w)" by fastforce
  from download_reads [OF x] assms True x show ?thesis
    by (auto simp: browser_download_def split: sum.splits option.splits if_splits)
next
  case False
  with assms show ?thesis by (cases "browsable e") (auto simp: browser_download_def assertWithinRoot_def)
qed

text \<open>A gated operation: refused before the browser is touched, or run with the token of a valid lease.\<close>

definition leased :: "rat \<Rightarrow> plugin \<Rightarrow> bool" where
  "leased now p \<longleftrightarrow> (\<exists>m. pl_manager p = Some m \<and> hasValidLease now m \<and> lm_accessToken m = Some (pl_token p) \<and> pl_token p \<noteq> [])"

lemma browse_cases:
  assumes "browse h renew operation p = (r, q)"
  obtains (refused) x where "r = Inl x" "pl_browser q = pl_browser p" "\<forall>y. x \<noteq> BrowserFailed y"
  | (ran) e x where "leased (ph_now h) q" "operation (pl_token q) e (pl_browser p) = (x, pl_browser q)"
      "r = (case x of Inl y \<Rightarrow> Inl (BrowserFailed y) | Inr a \<Rightarrow> Inr a)"
proof -
  obtain a p1 where a: "authorizeDrive h renew p = (a, p1)" by fastforce
  show thesis
  proof (cases a)
    case (Inl x)
    have "\<forall>y. x \<noteq> BrowserFailed y"
      using a Inl by (auto simp: authorizeDrive_def Let_def split: option.splits if_splits prod.splits)
    with assms a Inl authorize_keeps_browser [OF a] show thesis by (intro refused) (auto simp: browse_def)
  next
    case (Inr u)
    obtain x b where x: "operation (pl_token p1) (current_enrollment p1) (pl_browser p1) = (x, b)" by fastforce
    with assms a Inr have q: "q = p1\<lparr> pl_browser := b \<rparr>"
      "r = (case x of Inl y \<Rightarrow> Inl (BrowserFailed y) | Inr a \<Rightarrow> Inr a)"
      by (simp_all add: browse_def run_browser_def)
    with authorized [of h renew p u p1] a Inr x authorize_keeps_browser [OF a] show thesis
      by (intro ran [of "current_enrollment p1" x]) (auto simp: leased_def)
  qed
qed

definition plugin_sent :: "plugin \<Rightarrow> drive_request list" where
  "plugin_sent p = dw_sent (br_drive (pl_browser p))"

definition plugin_scope :: "plugin \<Rightarrow> root_scope" where
  "plugin_scope p = dw_scope (br_drive (pl_browser p))"

definition plugin_index :: "plugin \<Rightarrow> metadata_index" where
  "plugin_index p = br_index (pl_browser p)"

text \<open>The requests between two states of the plugin: in scope, under a valid lease, with its token.\<close>

definition gated_reads :: "'x plugin_host \<Rightarrow> plugin \<Rightarrow> plugin \<Rightarrow> bool" where
  "gated_reads h p q \<longleftrightarrow>
     (\<exists>qs. plugin_sent q = plugin_sent p @ qs \<and> click_reads (ph_drive h) (pl_token q) (plugin_scope p) (plugin_sent p) qs
        \<and> (qs \<noteq> [] \<longrightarrow> leased (ph_now h) q))
     \<and> (\<forall>r. scope_root (plugin_scope q) = Some r \<longrightarrow> scope_root (plugin_scope p) = Some r
          \<or> scope_root (plugin_scope p) = None \<and> named_root (ph_drive h) (pl_token q) (plugin_scope p) (plugin_sent p) r)"

lemma gated_silent: "plugin_sent q = plugin_sent p \<Longrightarrow> scope_root (plugin_scope q) \<in> {None, scope_root (plugin_scope p)}
    \<Longrightarrow> gated_reads h p q"
  by (auto simp: gated_reads_def)

lemma gated_browse:
  assumes "browse h renew operation p = (r, q)"
    and "\<And>t e b x b'. operation t e b = (x, b') \<Longrightarrow> reads_between (ph_drive h) t (br_drive b) (br_drive b')"
  shows "gated_reads h p q"
  using assms(1)
proof (cases rule: browse_cases)
  case refused
  then show ?thesis by (simp add: gated_silent plugin_sent_def plugin_scope_def)
next
  case (ran e x)
  with assms(2) [OF ran(2)] show ?thesis
    unfolding gated_reads_def reads_between_def plugin_sent_def plugin_scope_def by blast
qed

lemma gated_listings:
  "listRoot h renew p = (r, q) \<Longrightarrow> gated_reads h p q"
  "listFolder h renew i p = (r, q) \<Longrightarrow> gated_reads h p q"
  unfolding listRoot_def listFolder_def by (erule gated_browse, rule openRoot_reads openFolder_reads, assumption)+

lemma download_browses:
  assumes "download_to_cache h renew env i n fs p = (r, q)"
  obtains x where "browse h renew (\<lambda>t e. browser_download (ph_drive h) DEFAULT_MAX_DOWNLOAD_BYTES DEFAULT_MAX_DOWNLOAD_BYTES t e i) p = (x, q)"
    "\<forall>y. fst r = Inl (BrowserFailed y) \<longrightarrow> x = Inl (BrowserFailed y)"
  using assms by (fastforce simp: download_to_cache_def split: sum.splits option.splits prod.splits)

lemma gated_download: "download_to_cache h renew env i n fs p = (r, q) \<Longrightarrow> gated_reads h p q"
  by (erule download_browses, erule gated_browse) (rule browser_download_reads)

text \<open>Everything else leaves the requests and the index as they are.\<close>

lemma saveSettings_browser [simp]: "pl_browser (snd (saveSettings h p)) = pl_browser p"
  using saveSettings_keeps [of h p] by (cases "saveSettings h p") simp

lemma enrollDevice_browser [simp]: "pl_browser (snd (enrollDevice h run c p)) = pl_browser p"
  by (auto simp: enrollDevice_def with_code_def split: option.split prod.split bool.split)

lemma renewLease_browser [simp]: "pl_browser (snd (renewLease h renew p)) = pl_browser p"
  by (auto simp: renewLease_def split: option.split prod.split)

lemma then_do_snd: "snd (then_do r f) = (case r of (Inl _, p) \<Rightarrow> p | (Inr _, p) \<Rightarrow> snd (f p))"
  by (cases r; cases "fst r") auto

lemma setUpDrive_sent [simp]:
  "plugin_sent (snd (setUpDrive h p)) = plugin_sent p" "plugin_index (snd (setUpDrive h p)) = plugin_index p"
  by (simp_all add: setUpDrive_def Let_def plugin_sent_def plugin_index_def split: sum.split)

lemma setUpDrive_root: "scope_root (plugin_scope (snd (setUpDrive h p))) \<in> {None, scope_root (plugin_scope p)}"
  by (auto simp: setUpDrive_def Let_def plugin_scope_def new_root_scope_def split: sum.split)

lemma same_browser:
  "pl_browser q = pl_browser p \<Longrightarrow> plugin_sent q = plugin_sent p" "pl_browser q = pl_browser p \<Longrightarrow> plugin_index q = plugin_index p"
  by (simp_all add: plugin_sent_def plugin_index_def)

lemma same_scope: "pl_browser q = pl_browser p \<Longrightarrow> plugin_scope q = plugin_scope p"
  by (simp add: plugin_scope_def)

lemma rewiring_silent:
  "plugin_sent (snd (then_do (setUpDrive h p) (saveSettings h))) = plugin_sent p"
  "plugin_index (snd (then_do (setUpDrive h p) (saveSettings h))) = plugin_index p"
  "scope_root (plugin_scope (snd (then_do (setUpDrive h p) (saveSettings h)))) \<in> {None, scope_root (plugin_scope p)}"
proof -
  obtain r q where q: "setUpDrive h p = (r, q)" by fastforce
  with setUpDrive_sent [of h p] setUpDrive_root [of h p] have "plugin_sent q = plugin_sent p" "plugin_index q = plugin_index p"
    "scope_root (plugin_scope q) \<in> {None, scope_root (plugin_scope p)}" by simp_all
  then show "plugin_sent (snd (then_do (setUpDrive h p) (saveSettings h))) = plugin_sent p"
    "plugin_index (snd (then_do (setUpDrive h p) (saveSettings h))) = plugin_index p"
    "scope_root (plugin_scope (snd (then_do (setUpDrive h p) (saveSettings h)))) \<in> {None, scope_root (plugin_scope p)}"
    using same_browser [of "snd (saveSettings h q)" q] same_scope [of "snd (saveSettings h q)" q]
    by (simp_all add: then_do_snd q split: sum.split)
qed

lemma changes_silent:
  "plugin_sent (snd (updateBrokerBaseUrl h v p)) = plugin_sent p" "plugin_index (snd (updateBrokerBaseUrl h v p)) = plugin_index p"
  "plugin_sent (snd (updateAllowedRootName h v p)) = plugin_sent p" "plugin_index (snd (updateAllowedRootName h v p)) = plugin_index p"
  by (simp_all add: updateBrokerBaseUrl_def updateAllowedRootName_def rewiring_silent)
    (simp_all add: plugin_sent_def plugin_index_def drop_pairing_def)

lemma changes_root:
  "scope_root (plugin_scope (snd (updateBrokerBaseUrl h v p))) \<in> {None, scope_root (plugin_scope p)}"
  "scope_root (plugin_scope (snd (updateAllowedRootName h v p))) \<in> {None, scope_root (plugin_scope p)}"
proof -
  have "scope_root (plugin_scope (snd (updateBrokerBaseUrl h v p))) \<in> {None, scope_root (plugin_scope q)}"
    "scope_root (plugin_scope (snd (updateAllowedRootName h v p))) \<in> {None, scope_root (plugin_scope q)}"
    if "plugin_scope q = plugin_scope p" for q
  proof -
    have keep: "plugin_scope (p'\<lparr> pl_settings := x \<rparr>) = plugin_scope p'" "plugin_scope (drop_pairing p') = plugin_scope p'" for p' x
      by (simp_all add: plugin_scope_def drop_pairing_def)
    show "scope_root (plugin_scope (snd (updateBrokerBaseUrl h v p))) \<in> {None, scope_root (plugin_scope q)}"
      using rewiring_silent(3) [of h "drop_pairing (p\<lparr> pl_settings := (pl_settings p)\<lparr>
        set_brokerBaseUrl := normalizeBrokerBaseUrl (ph_url h) v \<rparr> \<rparr>)"] that
      by (simp add: updateBrokerBaseUrl_def keep)
    show "scope_root (plugin_scope (snd (updateAllowedRootName h v p))) \<in> {None, scope_root (plugin_scope q)}"
      using rewiring_silent(3) [of h "drop_pairing (p\<lparr> pl_settings := (pl_settings p)\<lparr>
        set_allowedRootName := normalizeAllowedRootName v \<rparr> \<rparr>)"] that
      by (simp add: updateAllowedRootName_def keep)
  qed
  then show "scope_root (plugin_scope (snd (updateBrokerBaseUrl h v p))) \<in> {None, scope_root (plugin_scope p)}"
    "scope_root (plugin_scope (snd (updateAllowedRootName h v p))) \<in> {None, scope_root (plugin_scope p)}" by blast+
qed

lemma logout_silent:
  "plugin_sent (snd (logout h p)) = plugin_sent p" "plugin_index (snd (logout h p)) = plugin_index p"
  "scope_root (plugin_scope (snd (logout h p))) \<in> {None, scope_root (plugin_scope p)}"
proof -
  let ?p1 = "p\<lparr> pl_manager := map_option clear_manager (pl_manager p), pl_secrets := clearDeviceIdentity (pl_secrets p),
           pl_persistedPairId := None \<rparr>"
  obtain r q where q: "save_with h no_enrollment ?p1 = (r, q)" by fastforce
  let ?q = "q\<lparr> pl_token := [], pl_identity := generateDeviceIdentity (ph_crypto h) (ph_ed h) (ph_x h) \<rparr>"
  from save_with_keeps [OF q] have b: "pl_browser ?q = pl_browser p" by simp
  have out: "snd (logout h p) \<in> {q, snd (setUpDrive h ?q)}"
    by (simp add: logout_def Let_def q then_do_snd split: sum.split)
  have "plugin_sent ?q = plugin_sent p" "plugin_index ?q = plugin_index p" "plugin_scope ?q = plugin_scope p"
    using b by (simp_all only: plugin_sent_def plugin_index_def plugin_scope_def)
  moreover have "plugin_sent q = plugin_sent ?q" "plugin_index q = plugin_index ?q" "plugin_scope q = plugin_scope ?q"
    by (simp_all add: plugin_sent_def plugin_index_def plugin_scope_def)
  ultimately show "plugin_sent (snd (logout h p)) = plugin_sent p" "plugin_index (snd (logout h p)) = plugin_index p"
    "scope_root (plugin_scope (snd (logout h p))) \<in> {None, scope_root (plugin_scope p)}"
    using out setUpDrive_sent [of h ?q] setUpDrive_root [of h ?q] by auto
qed

lemma gated_row: "gated_reads h (vw_plugin w) (vw_plugin (row_pressed h E f w))"
proof (cases "is_folder f")
  case True
  obtain r q where q: "listFolder h (ve_renew E) (im_id f) (vw_plugin w) = (r, q)" by fastforce
  have "vw_plugin (row_pressed h E f w) = q"
    by (auto simp: row_pressed_def True q read_failed_def say_def Let_def split: sum.split)
  with gated_listings(2) [OF q] show ?thesis by simp
next
  case False
  obtain r fs q where q: "download_to_cache h (ve_renew E) (ve_cache E) (im_id f) (ve_sequence E) (vw_vault w) (vw_plugin w) = ((r, fs), q)"
    by (metis prod.collapse)
  have "vw_plugin (row_pressed h E f w) = q"
    by (auto simp: row_pressed_def False q read_failed_def say_def Let_def openDownloaded_def split: sum.split open_outcome.split)
  with gated_download [OF q] show ?thesis by simp
qed

lemma gated_root: "gated_reads h (vw_plugin w) (vw_plugin (loadRoot h E w))"
proof -
  obtain r q where q: "listRoot h (ve_renew E) (vw_plugin w) = (r, q)" by fastforce
  have "vw_plugin (loadRoot h E w) = q"
    by (auto simp: loadRoot_def q read_failed_def say_def Let_def split: sum.split)
  with gated_listings(1) [OF q] show ?thesis by simp
qed

lemma enroll_pressed_browser [simp]: "pl_browser (vw_plugin (enroll_pressed h E c w)) = pl_browser (vw_plugin w)"
proof -
  obtain r q where q: "enrollDevice h (ve_enroll E) (trim c) (vw_plugin w) = (r, q)" by fastforce
  with enrollDevice_browser [of h "ve_enroll E" "trim c" "vw_plugin w"] show ?thesis
    by (auto simp: enroll_pressed_def say_def Let_def split: sum.split)
qed

lemma search_pressed_plugin [simp]: "vw_plugin (search_pressed E w) = vw_plugin w"
  by (auto simp: search_pressed_def say_def split: sum.split)

lemma view_gated: "gated_reads h (vw_plugin w) (vw_plugin (view_do h E ev w))"
proof -
  have same: "gated_reads h a b" if "pl_browser b = pl_browser a" for a b
    using same_browser(1) [OF that] same_scope [OF that] by (intro gated_silent) simp_all
  show ?thesis
  proof (cases ev)
    case ViewOpened
    have "vw_plugin (onOpen h E w) \<in> {vw_plugin w, vw_plugin (loadRoot h E w)}"
      by (simp add: onOpen_def split: sum.split)
    with gated_root [of h w E] same [of "vw_plugin w" "vw_plugin w"] show ?thesis
      by (auto simp: view_do_def ViewOpened)
  next
    case RootPressed
    then show ?thesis by (simp add: view_do_def gated_root)
  next
    case (RowPressed f)
    then show ?thesis by (simp add: view_do_def gated_row)
  next
    case (BrokerChanged v)
    show ?thesis unfolding view_do_def BrokerChanged
      by (rule gated_silent) (use changes_root(1) in \<open>simp_all add: changes_silent\<close>)
  next
    case (RootNameChanged v)
    show ?thesis unfolding view_do_def RootNameChanged
      by (rule gated_silent) (use changes_root(2) in \<open>simp_all add: changes_silent\<close>)
  next
    case LogoutRequested
    show ?thesis unfolding view_do_def LogoutRequested
      by (rule gated_silent) (use logout_silent(3) in \<open>simp_all add: logout_silent(1)\<close>)
  next
    case (CodeEntered c)
    show ?thesis by (rule same) (simp add: view_do_def CodeEntered)
  next
    case RenewRequested
    show ?thesis by (rule same) (simp add: view_do_def RenewRequested)
  next
    case (TermTyped t)
    show ?thesis by (rule same) (simp add: view_do_def TermTyped)
  next
    case SearchPressed
    show ?thesis by (rule same) (simp add: view_do_def SearchPressed)
  qed
qed

text \<open>
  C10: from a click to Drive: whatever the user does in the view and whatever happens to the plugin behind
  it, an event sends at most two requests, each a GET with the plugin's current token.  When the root was
  known, each of them reads an item inside it; when it was not, the only requests are the lookup of the
  configured name and, if Drive's answer to it names exactly one folder, the listing of that folder, and
  no other root is ever adopted.  Nothing is sent unless the lease manager then holds a lease that is
  valid past the renewal lead, with that very token.
\<close>
theorem clicks_read_within_lease_and_scope:
  assumes "p = vw_plugin w" "q = vw_plugin (view_do h E ev w)"
  shows "(\<exists>qs. plugin_sent q = plugin_sent p @ qs \<and> click_reads (ph_drive h) (pl_token q) (plugin_scope p) (plugin_sent p) qs
        \<and> (qs \<noteq> [] \<longrightarrow> leased (ph_now h) q))
     \<and> (\<forall>r. scope_root (plugin_scope q) = Some r \<longrightarrow> scope_root (plugin_scope p) = Some r
          \<or> scope_root (plugin_scope p) = None \<and> named_root (ph_drive h) (pl_token q) (plugin_scope p) (plugin_sent p) r)"
  using view_gated unfolding gated_reads_def assms .

section \<open>Rows and the index\<close>

text \<open>Every entry is under its own id; and what is listed stays listed.\<close>

definition keyed :: "metadata_index \<Rightarrow> bool" where
  "keyed ix \<longleftrightarrow> (\<forall>(k, f)\<in>set ix. im_id f = k \<and> k \<noteq> [])"

definition listed_in :: "metadata_index \<Rightarrow> indexed_metadata list \<Rightarrow> bool" where
  "listed_in ix fs \<longleftrightarrow> (\<forall>f\<in>set fs. mget ix (im_id f) \<noteq> None)"

definition grows :: "metadata_index \<Rightarrow> metadata_index \<Rightarrow> bool" where
  "grows ix jx \<longleftrightarrow> (\<forall>k. mget ix k \<noteq> None \<longrightarrow> mget jx k \<noteq> None) \<and> (keyed ix \<longrightarrow> keyed jx)"

lemma grows_refl [simp]: "grows ix ix"
  by (simp add: grows_def)

lemma grows_listed: "grows ix jx \<Longrightarrow> listed_in ix fs \<Longrightarrow> listed_in jx fs"
  by (simp add: grows_def listed_in_def)

lemma keyed_get: "keyed ix \<Longrightarrow> mget ix k = Some f \<Longrightarrow> im_id f = k \<and> k \<noteq> []"
  by (auto simp: keyed_def dest!: map_of_SomeD)

lemma keyed_values:
  assumes "keyed ix" "set fs \<subseteq> set (mvalues ix)"
  shows "listed_in ix fs"
  unfolding listed_in_def
proof
  fix f assume "f \<in> set fs"
  with assms(2) obtain k where k: "(k, f) \<in> set ix" by auto
  with assms(1) have "im_id f = k" by (auto simp: keyed_def)
  with k show "mget ix (im_id f) \<noteq> None" by (metis map_of_eq_None_iff fst_conv image_eqI)
qed

lemma upsertAll_grows: "meta_upsertAll fs ix = (r, jx) \<Longrightarrow> grows ix jx"
proof (induction fs arbitrary: ix)
  case (Cons f fs)
  show ?case
  proof (cases "im_id f = []")
    case False
    have "grows ix (mput (im_id f) f ix)"
      using False set_update_subset [of "im_id f" f ix] by (auto simp: grows_def keyed_def update_conv)
    moreover have "grows (mput (im_id f) f ix) jx" using Cons False by (simp add: meta_upsert_def)
    ultimately show ?thesis by (auto simp: grows_def)
  qed (use Cons.prems in \<open>simp add: meta_upsert_def\<close>)
qed simp

lemma upsertAll_listed: "meta_upsertAll fs ix = (Inr (), jx) \<Longrightarrow> listed_in jx fs"
  unfolding listed_in_def using upsertAll_get [of fs ix jx] by (auto simp: meta_get_def)

lemma openFolder_lists:
  assumes "openFolder T t e i b = (x, b')"
  shows "grows (br_index b) (br_index b') \<and> (\<forall>fs. x = Inr fs \<longrightarrow> listed_in (br_index b') fs)"
proof (cases "br_index b' = br_index b \<and> (\<forall>fs. x \<noteq> Inr fs)")
  case False
  with assms obtain fs r where u: "meta_upsertAll fs (br_index b) = (r, br_index b')" "\<forall>gs. x = Inr gs \<longrightarrow> gs = fs \<and> r = Inr ()"
    by (auto simp: openFolder_def split: sum.splits prod.splits)
  from upsertAll_grows [OF u(1)] u upsertAll_listed show ?thesis by auto
qed simp

lemma openRoot_lists:
  assumes "openRoot T t e b = (x, b')"
  shows "grows (br_index b) (br_index b') \<and> (\<forall>fs. x = Inr fs \<longrightarrow> listed_in (br_index b') fs)"
proof (cases "br_index b' = br_index b \<and> (\<forall>fs. x \<noteq> Inr fs)")
  case False
  with assms obtain r w where "openFolder T t e r (b\<lparr> br_drive := w \<rparr>) = (x, b')"
    by (auto simp: openRoot_def split: sum.splits prod.splits)
  from openFolder_lists [OF this] show ?thesis by simp
qed simp

lemma browse_lists:
  assumes "browse h renew operation p = (r, q)"
    and "\<And>t e b x b'. operation t e b = (x, b') \<Longrightarrow>
      grows (br_index b) (br_index b') \<and> (\<forall>fs. x = Inr fs \<longrightarrow> listed_in (br_index b') (files fs))"
  shows "grows (plugin_index p) (plugin_index q) \<and> (\<forall>fs. r = Inr fs \<longrightarrow> listed_in (plugin_index q) (files fs))"
  using assms(1)
proof (cases rule: browse_cases)
  case refused
  then show ?thesis by (simp add: plugin_index_def)
next
  case (ran e x)
  with assms(2) [OF ran(2)] show ?thesis by (auto simp: plugin_index_def split: sum.splits)
qed

lemma listings_list:
  "listRoot h renew p = (r, q) \<Longrightarrow> grows (plugin_index p) (plugin_index q) \<and> (\<forall>fs. r = Inr fs \<longrightarrow> listed_in (plugin_index q) fs)"
  "listFolder h renew i p = (r, q) \<Longrightarrow> grows (plugin_index p) (plugin_index q) \<and> (\<forall>fs. r = Inr fs \<longrightarrow> listed_in (plugin_index q) fs)"
  unfolding listRoot_def listFolder_def
  by (erule browse_lists [where files = "\<lambda>fs. fs"], erule openRoot_lists openFolder_lists)+

lemma download_index:
  "browser_download T c1 c2 t e i b = (x, b') \<Longrightarrow> br_index b' = br_index b"
  by (cases "browsable e") (auto simp: browser_download_def split: sum.splits option.splits if_splits prod.splits)

lemma download_lists:
  "download_to_cache h renew env i n fs p = (r, q) \<Longrightarrow> grows (plugin_index p) (plugin_index q)"
  by (erule download_browses, drule browse_lists [where files = "\<lambda>_. []"]) (auto dest: download_index simp: listed_in_def)

lemma search_lists:
  assumes "browser_search D lc e n b = Inr fs" "keyed (br_index b)"
  shows "listed_in (br_index b) fs"
proof -
  have sub: "set (meta_search D lc q ix) \<subseteq> set (mvalues ix)" for q ix
  proof -
    have "set (slice_to k xs) \<subseteq> set xs" for k and xs :: "indexed_metadata list"
      by (auto simp: slice_to_def split: number.split dest: in_set_takeD)
    moreover have "set (sort_by c xs) = set xs" for c and xs :: "indexed_metadata list"
      by (rule mset_sort_by [THEN mset_eq_setD])
    ultimately show ?thesis unfolding meta_search_def by fastforce
  qed
  from assms(1) sub have "set fs \<subseteq> set (mvalues (br_index b))"
    by (cases "browsable e") (auto simp: browser_search_def meta_values_def Let_def split: if_splits)
  with assms(2) show ?thesis by (rule keyed_values)
qed

definition rows_inv :: "view_world \<Rightarrow> bool" where
  "rows_inv w \<longleftrightarrow> keyed (plugin_index (vw_plugin w)) \<and> listed_in (plugin_index (vw_plugin w)) (vw_rows w)"

lemma rows_inv_grows:
  "rows_inv w \<Longrightarrow> grows (plugin_index (vw_plugin w)) (plugin_index (vw_plugin v)) \<Longrightarrow>
    listed_in (plugin_index (vw_plugin v)) (vw_rows v) \<or> vw_rows v = vw_rows w \<Longrightarrow> rows_inv v"
  using grows_listed by (auto simp: rows_inv_def grows_def)

lemma listed_none [simp]: "listed_in ix []"
  by (simp add: listed_in_def)

lemma root_rows: "rows_inv w \<Longrightarrow> rows_inv (loadRoot h E w)"
proof (erule rows_inv_grows)
  obtain r q where q: "listRoot h (ve_renew E) (vw_plugin w) = (r, q)" by fastforce
  have "vw_plugin (loadRoot h E w) = q"
    by (auto simp: loadRoot_def q read_failed_def say_def Let_def split: sum.split)
  moreover have "vw_rows (loadRoot h E w) \<in> {vw_rows w, []} \<or> r = Inr (vw_rows (loadRoot h E w))"
    by (auto simp: loadRoot_def q read_failed_def say_def Let_def split: sum.split)
  ultimately show "grows (plugin_index (vw_plugin w)) (plugin_index (vw_plugin (loadRoot h E w)))"
    "listed_in (plugin_index (vw_plugin (loadRoot h E w))) (vw_rows (loadRoot h E w)) \<or> vw_rows (loadRoot h E w) = vw_rows w"
    using listings_list(1) [OF q] by auto
qed

lemma row_rows: "rows_inv w \<Longrightarrow> rows_inv (row_pressed h E f w)"
proof (cases "is_folder f"; erule rows_inv_grows)
  assume True: "is_folder f"
  obtain r q where q: "listFolder h (ve_renew E) (im_id f) (vw_plugin w) = (r, q)" by fastforce
  have "vw_plugin (row_pressed h E f w) = q"
    "vw_rows (row_pressed h E f w) = vw_rows w \<or> r = Inr (vw_rows (row_pressed h E f w))"
    by (auto simp: row_pressed_def True q read_failed_def say_def Let_def split: sum.split)
  with listings_list(2) [OF q] show "grows (plugin_index (vw_plugin w)) (plugin_index (vw_plugin (row_pressed h E f w)))"
    "listed_in (plugin_index (vw_plugin (row_pressed h E f w))) (vw_rows (row_pressed h E f w))
      \<or> vw_rows (row_pressed h E f w) = vw_rows w" by auto
next
  assume False: "\<not> is_folder f"
  obtain r fs q where q: "download_to_cache h (ve_renew E) (ve_cache E) (im_id f) (ve_sequence E) (vw_vault w) (vw_plugin w) = ((r, fs), q)"
    by (metis prod.collapse)
  have "vw_plugin (row_pressed h E f w) = q" "vw_rows (row_pressed h E f w) = vw_rows w"
    by (auto simp: row_pressed_def False q read_failed_def say_def Let_def openDownloaded_def split: sum.split open_outcome.split)
  with download_lists [OF q] show "grows (plugin_index (vw_plugin w)) (plugin_index (vw_plugin (row_pressed h E f w)))"
    "listed_in (plugin_index (vw_plugin (row_pressed h E f w))) (vw_rows (row_pressed h E f w))
      \<or> vw_rows (row_pressed h E f w) = vw_rows w" by auto
qed

lemma search_rows: "rows_inv w \<Longrightarrow> rows_inv (search_pressed E w)"
  using search_lists [of "ve_date E" "ve_compare E" _ _ "pl_browser (vw_plugin w)"]
  by (auto simp: search_pressed_def rows_inv_def plugin_index_def say_def split: sum.split)

lemma enroll_rows [simp]: "vw_rows (enroll_pressed h E c w) = vw_rows w"
  by (auto simp: enroll_pressed_def say_def Let_def split: sum.split prod.split)

lemma view_do_rows: "rows_inv w \<Longrightarrow> rows_inv (view_do h E ev w)"
proof (cases ev)
  case ViewOpened
  assume i: "rows_inv w"
  have "onOpen h E w \<in> {w, loadRoot h E w}" by (simp add: onOpen_def split: sum.split)
  with i root_rows [OF i, of h E] show ?thesis by (auto simp: view_do_def ViewOpened)
next
  case (CodeEntered c)
  assume "rows_inv w"
  moreover have "plugin_index (vw_plugin (enroll_pressed h E c w)) = plugin_index (vw_plugin w)" by (rule same_browser) simp
  ultimately show ?thesis by (simp add: view_do_def CodeEntered rows_inv_def)
next
  case RenewRequested
  assume "rows_inv w"
  moreover have "plugin_index (snd (renewLease h (ve_renew E) (vw_plugin w))) = plugin_index (vw_plugin w)"
    by (rule same_browser) simp
  ultimately show ?thesis by (simp add: view_do_def RenewRequested rows_inv_def)
qed (simp_all add: view_do_def root_rows row_rows search_rows, simp_all add: rows_inv_def changes_silent logout_silent)

lemma session_rows: "view_session w evs v \<Longrightarrow> rows_inv w \<Longrightarrow> rows_inv v"
  by (induction rule: view_session.induct) (simp_all add: view_do_rows)

lemma listed_download:
  assumes "meta_get i (plugin_index p) \<noteq> None" "download_to_cache h renew env i n fs p = (r, q)"
  shows "fst r \<noteq> Inl (BrowserFailed NotListed)"
proof
  assume r: "fst r = Inl (BrowserFailed NotListed)"
  from assms(2) obtain x where
    b: "browse h renew (\<lambda>t e. browser_download (ph_drive h) DEFAULT_MAX_DOWNLOAD_BYTES DEFAULT_MAX_DOWNLOAD_BYTES t e i) p = (x, q)"
    and x: "x = Inl (BrowserFailed NotListed)" by (rule download_browses) (use r in blast)
  from b show False
  proof (cases rule: browse_cases)
    case (refused y)
    with x show False by simp
  next
    case (ran e y)
    with x have "y = Inl NotListed" by (auto split: sum.splits)
    with ran(2) assms(1) show False
      by (cases "browsable e")
        (auto simp: browser_download_def plugin_index_def assertWithinRoot_def split: option.splits if_splits sum.splits prod.splits)
  qed
qed

text \<open>
  A row on the screen can always be acted on: along every session that starts with an empty view and
  index, through searches, listings, failures, logouts and changes of the broker or the root, every
  displayed row has an id under which the index holds metadata of that id, so its download is never
  refused as a file that was not listed.
\<close>
theorem displayed_rows_stay_listed:
  assumes "view_session w evs v" "vw_rows w = []" "plugin_index (vw_plugin w) = []" "f \<in> set (vw_rows v)"
  shows "im_id f \<noteq> [] \<and> (\<exists>m. meta_get (im_id f) (plugin_index (vw_plugin v)) = Some m \<and> im_id m = im_id f)
    \<and> fst (fst (download_to_cache h renew env (im_id f) n fs (vw_plugin v))) \<noteq> Inl (BrowserFailed NotListed)"
proof -
  have "rows_inv v" by (rule session_rows [OF assms(1)]) (simp add: rows_inv_def keyed_def assms(2,3))
  with assms(4) obtain m where m: "mget (plugin_index (vw_plugin v)) (im_id f) = Some m" "keyed (plugin_index (vw_plugin v))"
    by (auto simp: rows_inv_def listed_in_def)
  with keyed_get have "im_id m = im_id f" "im_id f \<noteq> []" by blast+
  moreover have "fst (fst (download_to_cache h renew env (im_id f) n fs (vw_plugin v))) \<noteq> Inl (BrowserFailed NotListed)"
    using listed_download [of "im_id f" "vw_plugin v" h renew env n fs] m(1) by (metis meta_get_def option.distinct(1) prod.collapse)
  ultimately show ?thesis using m(1) by (auto simp: meta_get_def)
qed

text \<open>
  The rows outlive the session: a logout leaves them in the view, and as soon as the plugin is browsable
  again, whoever enrolled it and whatever its root, the screen offers every one of them.
\<close>

lemma rows_outlive_logout:
  assumes "f \<in> set (vw_rows w)" "browsable (current_enrollment p)"
  shows "RowAction f \<in> set (offered h ((view_do h E LogoutRequested w)\<lparr> vw_plugin := p \<rparr>))"
  using assms screen_offered [of "(view_do h E LogoutRequested w)\<lparr> vw_plugin := p \<rparr>" h] by (simp add: view_do_def)

section \<open>A concrete session\<close>

text \<open>Drive answers the folder lookup with the root and every listing with one file.\<close>

definition ex_listing :: drive_transport where
  "ex_listing sent q = Some \<lparr> dr_status = 200, dr_json = Obj [(''files'', Arr [
     if sent = [] then Obj [(''id'', Str ''r''), (''name'', Str ''root''), (''mimeType'', Str DRIVE_FOLDER_MIME)]
     else Obj [(''id'', Str ''f''), (''name'', Str ''note'')]])], dr_bytes = None \<rparr>"

definition ex_view_host where "ex_view_host = ex_plugin_host\<lparr> ph_drive := ex_listing \<rparr>"

definition ex_view_env :: view_env where
  "ex_view_env = \<lparr> ve_renew = (\<lambda>m. (False, m)), ve_enroll = (\<lambda>_ m. (False, m)), ve_message = (\<lambda>_. []),
     ve_date = (\<lambda>_. None), ve_compare = (\<lambda>_ _. 0), ve_cache = \<lparr> candidate_now = (\<lambda>n. n), meddle = (\<lambda>_ fs. fs),
     fails = (\<lambda>_. False), stored = (\<lambda>b. b), copied = (\<lambda>b. b) \<rparr>, ve_sequence = 0, ve_open = (\<lambda>_. Opened) \<rparr>"

definition ex_view :: view_world where
  "ex_view = \<lparr> vw_plugin = ex_plugin, vw_vault = Map.empty, vw_rows = [], vw_folderId = None, vw_term = [], vw_notices = [] \<rparr>"

definition ex_enrolled :: enrollment_view where
  "ex_enrolled = \<lparr> ev_pairId = Some ''p'', ev_status = DeviceEnrolled, ev_expiresAtMs = Some 100000 \<rparr>"

lemma ex_urls: "starts_with (folders_url n) (DRIVE_API_BASE @ ''/'')" "starts_with (children_url i t) (DRIVE_API_BASE @ ''/'')"
  by (simp_all add: folders_url_def children_url_def starts_with_def DRIVE_API_BASE_def)

lemma ex_ids: "is_drive_id ''r''" "is_drive_id ''f''"
  by (simp_all add: is_drive_id_def drive_id_char_def is_alnum_def is_lower_def)

lemma ex_resolved:
  "\<exists>qs. drive_resolveRootId ex_listing ''tok'' (br_drive (pl_browser ex_plugin))
     = (Inr ''r'', \<lparr> dw_scope = \<lparr> scope_name = ''root'', scope_root = Some ''r'', scope_parentOf = [] \<rparr>, dw_sent = qs \<rparr>) \<and> length qs = 1"
  by (simp add: drive_resolveRootId_def listFoldersByName_def readJson_def drive_send_def Let_def ex_plugin_def ex_drive_def
      ex_listing_def drive_record_def files_of_def field_Cons field_def resolveRootId_def folder_ref_of_def or_else_def
      bind_result_def ex_urls ex_ids)

lemma ex_children:
  assumes "qs \<noteq> []"
  shows "\<exists>entry w. listChildren ex_listing ''tok'' ''r'' None
     \<lparr> dw_scope = \<lparr> scope_name = ''root'', scope_root = Some ''r'', scope_parentOf = [] \<rparr>, dw_sent = qs \<rparr> = (Inr ([entry], None), w)
     \<and> im_id entry = ''f'' \<and> length (dw_sent w) = Suc (length qs) \<and> scope_root (dw_scope w) = Some ''r''"
  using assms
  by (simp add: listChildren_def readJson_def drive_send_def Let_def isWithinRoot_def
      ex_listing_def drive_record_def files_of_def field_Cons field_def or_else_def toIndexedMetadata_def
      bind_result_def ex_urls ex_ids registerChildren_def assertWithinRoot_def)

lemma ex_root_listed:
  "\<exists>entry b. openRoot ex_listing ''tok'' ex_enrolled (pl_browser ex_plugin) = (Inr [entry], b) \<and> length (dw_sent (br_drive b)) = 2"
proof -
  obtain qs where qs: "drive_resolveRootId ex_listing ''tok'' (br_drive (pl_browser ex_plugin))
      = (Inr ''r'', \<lparr> dw_scope = \<lparr> scope_name = ''root'', scope_root = Some ''r'', scope_parentOf = [] \<rparr>, dw_sent = qs \<rparr>)" "length qs = 1"
    using ex_resolved by blast
  obtain entry w where w: "listChildren ex_listing ''tok'' ''r'' None
     \<lparr> dw_scope = \<lparr> scope_name = ''root'', scope_root = Some ''r'', scope_parentOf = [] \<rparr>, dw_sent = qs \<rparr> = (Inr ([entry], None), w)"
     "im_id entry = ''f''" "length (dw_sent w) = Suc (length qs)" "scope_root (dw_scope w) = Some ''r''"
    using ex_children [of qs] qs(2) by force
  have "browsable ex_enrolled" by (simp add: ex_enrolled_def browsable_def truthy_def)
  with qs w show ?thesis
    by (simp add: openRoot_def openFolder_def registerChildren_def assertWithinRoot_def isWithinRoot_def ex_ids meta_upsert_def)
qed

lemma ex_gate: "authorizeDrive ex_view_host renew ex_plugin = (Inr (), ex_plugin\<lparr> pl_token := ''tok'' \<rparr>)"
  "current_enrollment (ex_plugin\<lparr> pl_token := ''tok'' \<rparr>) = ex_enrolled"
proof -
  have m: "manager_status ex_leased_manager = DeviceEnrolled" "hasValidLease 0 ex_leased_manager"
    "getValidAccessToken 0 renew ex_leased_manager = (Some ''tok'', ex_leased_manager)"
    by (simp_all add: manager_status_def hasValidLease_def getValidAccessToken_def token_now_def truthy_def
        ex_leased_manager_def ex_manager_def)
  then show "authorizeDrive ex_view_host renew ex_plugin = (Inr (), ex_plugin\<lparr> pl_token := ''tok'' \<rparr>)"
    by (simp add: authorizeDrive_def adopt_manager_def driveAccessDecision_def Let_def ex_view_host_def ex_plugin_host_def ex_plugin_def)
  show "current_enrollment (ex_plugin\<lparr> pl_token := ''tok'' \<rparr>) = ex_enrolled"
    by (simp add: ex_enrolled_def ex_plugin_def current_enrollment_def enrollment_of_def manager_status_def expiryOf_def
        ex_leased_manager_def ex_manager_def)
qed

lemma ex_root_pressed:
  "\<exists>entry. vw_rows (view_do ex_view_host ex_view_env RootPressed ex_view) = [entry]
     \<and> length (plugin_sent (vw_plugin (view_do ex_view_host ex_view_env RootPressed ex_view))) = 2
     \<and> pl_token (vw_plugin (view_do ex_view_host ex_view_env RootPressed ex_view)) = ''tok''"
proof -
  obtain entry b where b: "openRoot ex_listing ''tok'' ex_enrolled (pl_browser ex_plugin) = (Inr [entry], b)" "length (dw_sent (br_drive b)) = 2"
    using ex_root_listed by blast
  have "ph_drive ex_view_host = ex_listing" by (simp add: ex_view_host_def)
  with b ex_gate(1) [of "\<lambda>m. (False, m)"] ex_gate(2) show ?thesis
    by (simp add: view_do_def loadRoot_def listRoot_def browse_def run_browser_def ex_view_def ex_view_env_def plugin_sent_def Let_def)
qed

theorem clicks_read_within_lease_and_scope_witness:
  "\<exists>r. plugin_sent (vw_plugin (view_do ex_view_host ex_view_env RootPressed ex_view))
       = [drive_get ''tok'' (folders_url ''root''), drive_get ''tok'' (children_url r None)]
     \<and> named_root ex_listing ''tok'' (plugin_scope (vw_plugin ex_view)) [] r
     \<and> leased 0 (vw_plugin (view_do ex_view_host ex_view_env RootPressed ex_view))"
proof -
  let ?p = "vw_plugin ex_view" and ?q = "vw_plugin (view_do ex_view_host ex_view_env RootPressed ex_view)"
  have before: "plugin_sent ?p = []" "scope_root (plugin_scope ?p) = None" "scope_name (plugin_scope ?p) = ''root''"
    "ph_now ex_view_host = 0" "ph_drive ex_view_host = ex_listing"
    by (simp_all add: plugin_sent_def plugin_scope_def ex_view_def ex_plugin_def ex_drive_def ex_view_host_def ex_plugin_host_def)
  have after: "length (plugin_sent ?q) = 2" "pl_token ?q = ''tok''" using ex_root_pressed by blast+
  from clicks_read_within_lease_and_scope [OF refl refl, where h = ex_view_host and E = ex_view_env and ev = RootPressed and w = ex_view]
  show ?thesis using before after by (auto simp: click_reads_def)
qed

theorem displayed_rows_stay_listed_witness:
  "\<exists>f \<in> set (vw_rows (view_do ex_view_host ex_view_env RootPressed ex_view)). im_id f \<noteq> []"
proof -
  obtain f where f: "vw_rows (view_do ex_view_host ex_view_env RootPressed ex_view) = [f]" using ex_root_pressed by blast
  have e: "current_enrollment (vw_plugin ex_view) = ex_enrolled"
    using ex_gate(2) by (simp add: ex_view_def current_enrollment_def split: option.splits)
  have "browsable ex_enrolled" by (simp add: ex_enrolled_def browsable_def truthy_def)
  then have "OpenTheRoot \<in> set (offered ex_view_host ex_view)" by (simp add: screen_offered e)
  then have "view_session ex_view ([] @ [(ex_view_host, ex_view_env, RootPressed)]) (view_do ex_view_host ex_view_env RootPressed ex_view)"
    by (intro view_session.intros) (simp add: event_intent_def)
  moreover have "vw_rows ex_view = []" "plugin_index (vw_plugin ex_view) = []"
    by (simp_all add: ex_view_def ex_plugin_def plugin_index_def)
  moreover have "f \<in> set (vw_rows (view_do ex_view_host ex_view_env RootPressed ex_view))" by (simp add: f)
  ultimately have "im_id f \<noteq> []"
    using displayed_rows_stay_listed [of ex_view _ "view_do ex_view_host ex_view_env RootPressed ex_view" f] by blast
  then show ?thesis by (simp add: f)
qed

end
