(* ===== verification/SettingsTab.thy ===== *)
theory SettingsTab
  imports BrowserView
begin

text \<open>
  The rest of \<^verbatim>\<open>src/main.ts\<close>: how the plugin comes up, its renewal command, its notice when the cache is
  deleted, and the settings tab with the handlers of its fields.  What the tab draws is a tree of elements
  as in \<open>BrowserView\<close>; a setting is a node with its name, description and field.
\<close>

section \<open>Start and commands\<close>

definition onload :: "'x plugin_host \<Rightarrow> plugin \<Rightarrow> (plugin_error, unit) result \<times> plugin" where
  "onload h p = setUpDrive h (loadSettings h p)"

definition cache_deleted_notice :: "string \<Rightarrow> string option" where
  "cache_deleted_notice path = (if path = PLUGIN_CACHE_ROOT \<or> starts_with path (PLUGIN_CACHE_ROOT @ ''/'')
     then Some ''Plugin cache removed locally. Google Drive was not changed.'' else None)"

definition renew_command :: "'x plugin_host \<Rightarrow> manager_run \<Rightarrow> plugin \<Rightarrow> string \<times> plugin" where
  "renew_command h renew p =
    (if ev_status (current_enrollment p) \<noteq> DeviceEnrolled
     then (''Not enrolled: enrol this device with a one-time code first.'', p)
     else (case renewLease h renew p of
         (True, q) \<Rightarrow> (''Read-only Drive lease renewed.'', q)
       | (False, q) \<Rightarrow> (''Lease renewal failed. If the pairing expired or was revoked, re-enrol this device.'', q)))"

section \<open>What the tab draws\<close>

datatype tab_intent = TabEnroll | TabCheckAgain | TabOpenBrowser | TabLogout

definition tab_state :: "'x plugin_host \<Rightarrow> plugin \<Rightarrow> browser_view_state" where
  "tab_state h p = (let n = set_allowedRootName (pl_settings p) in
     describeBrowserState (current_enrollment p) (deviceFingerprint (ph_crypto h) (pl_identity p))
       (if n = [] then ''unconfigured'' else n))"

definition effectiveBroker :: "'x plugin_host \<Rightarrow> plugin \<Rightarrow> (url_error, string) result" where
  "effectiveBroker h p = (if set_brokerBaseUrl (pl_settings p) = [] then Inr ''not configured ? enrolment is blocked''
     else host_brokerBaseUrl h p)"

definition setting :: "string \<Rightarrow> string \<Rightarrow> 'i element list \<Rightarrow> 'i element" where
  "setting name description es = Node ''setting'' [] name (Node ''description'' [] description [] # es)"

definition status_panel :: "browser_view_state \<Rightarrow> string \<Rightarrow> string \<Rightarrow> tab_intent element" where
  "status_panel state broker rootName = Node ''div'' ''gdrive-stream-settings-status'' []
     [Node ''p'' [] (''Enrollment status: '' @ describeEnrollmentLabel (bv_status state)) [],
      Node ''p'' [] ''Device enrollment fingerprint (copy the full 64-character value):'' [],
      Input ''text'' [] (bv_fingerprint state),
      Node ''p'' [] (bv_reason state) [],
      Node ''p'' ''gdrive-stream-settings-effective'' (''Effective broker base URL: '' @ broker) [],
      Node ''p'' ''gdrive-stream-settings-effective'' (''Effective Drive test root: ''
        @ (if rootName = [] then ''not configured'' else rootName)) []]"

definition tab_fields :: "plugin_settings \<Rightarrow> tab_intent element list" where
  "tab_fields c =
    [setting ''Broker base URL'' ''HTTPS base URL of your self-hosted GDriveStreaming broker. Configure it before enrolment. The plugin contacts this broker for pairing and Google directly for read-only Drive data.''
       [Input ''text'' [] (set_brokerBaseUrl c)],
     setting ''Allowed Drive test root'' ''Exact folder name your broker seals into device leases. Use a dedicated harmless test folder, never a production vault. This must match the broker's configured root exactly.''
       [Input ''text'' ''your-harmless-test-root'' (set_allowedRootName c)]]"

definition tab_enrollment :: "enrollment_status \<Rightarrow> tab_intent element list" where
  "tab_enrollment st =
    (if st = NotYetEnrolled then [Input ''text'' ''One-time enrollment code'' [], Button ''Enrol this device'' TabEnroll] else [])
    @ (if st = AwaitingConsent then [Button ''Check status again'' TabCheckAgain] else [])"

definition tab_end :: "tab_intent element list" where
  "tab_end =
    [Button ''Open read-only Drive browser'' TabOpenBrowser,
     setting ''Log out and remove this device identity'' ''Removes this device's local identity and pairing. It does not revoke the broker enrollment; ask an operator to revoke a lost phone remotely.''
       [Button ''Log out'' TabLogout],
     Node ''p'' [] (''Plugin data persists the broker base URL, pair id, enrollment metadata and cache root ('' @ PLUGIN_CACHE_ROOT @ ''/). Device private identity is stored separately in Obsidian SecretStorage. Access tokens, refresh tokens, client secrets and authorization codes are never written to plugin data; the enrollment code is used once and discarded.'') [],
     Node ''p'' [] ''This build reads metadata and downloads single files on demand only. It never creates, renames, moves, deletes, trashes or syncs anything in Google Drive.'' []]"

definition tab_display :: "'x plugin_host \<Rightarrow> plugin \<Rightarrow> (url_error, tab_intent element list) result" where
  "tab_display h p = (let state = tab_state h p in bind_result (effectiveBroker h p) (\<lambda>b. Inr
     (Node ''h2'' [] ''GDrive Streaming'' [] # status_panel state b (set_allowedRootName (pl_settings p))
      # tab_fields (pl_settings p) @ tab_enrollment (bv_status state) @ tab_end)))"

section \<open>Handlers of the tab\<close>

definition ADDRESS_NOT_SAVED :: string where
  "ADDRESS_NOT_SAVED = ''Broker base URL not saved: it must be an https origin with no credentials, query, fragment or extra text appended.''"

definition ROOT_NOT_SAVED :: string where
  "ROOT_NOT_SAVED = ''Allowed Drive test root not saved: use a single folder name with no slashes, control characters or appended text.''"

definition address_typed :: "'x plugin_host \<Rightarrow> string \<Rightarrow> plugin \<Rightarrow> string list \<times> (plugin_error, unit) result \<times> plugin" where
  "address_typed h v p = (if trim v \<noteq> [] \<and> normalizeBrokerBaseUrl (ph_url h) v = [] then [ADDRESS_NOT_SAVED] else [],
     updateBrokerBaseUrl h v p)"

definition root_typed :: "'x plugin_host \<Rightarrow> string \<Rightarrow> plugin \<Rightarrow> string list \<times> (plugin_error, unit) result \<times> plugin" where
  "root_typed h v p = (if trim v \<noteq> [] \<and> normalizeAllowedRootName v = [] then [ROOT_NOT_SAVED] else [],
     updateAllowedRootName h v p)"

definition tab_enroll_pressed :: "'x plugin_host \<Rightarrow> (string \<Rightarrow> manager_run) \<Rightarrow> (plugin_error \<Rightarrow> string) \<Rightarrow> string \<Rightarrow> plugin \<Rightarrow>
    string list \<times> plugin" where
  "tab_enroll_pressed h run msg typed p =
    (let code = trim typed in
     if code = [] then ([''Enter the one-time enrollment code first.''], p)
     else (case enrollDevice h run code p of
         (Inr _, q) \<Rightarrow> ([''Enrolment started. Approve the Google request in the browser window that opens.'',
            ''Device enrolled. Read-only access is ready.''], q)
       | (Inl e, q) \<Rightarrow> ([''Enrolment started. Approve the Google request in the browser window that opens.'',
            ''Enrollment failed: '' @ msg e], q)))"

section \<open>What the tab offers\<close>

lemma intents_of_Cons: "intents_of (e # es) = set (intents e) \<union> intents_of es"
  by (simp add: intents_of_def)

lemma intents_of_Nil [simp]: "intents_of [] = {}"
  by (simp add: intents_of_def)

lemma tab_parts [simp]:
  "intents (status_panel state b n) = []" "intents_of (tab_fields c) = {}" "intents_of tab_end = {TabOpenBrowser, TabLogout}"
  "intents_of (tab_enrollment st) = (if st = NotYetEnrolled then {TabEnroll} else if st = AwaitingConsent then {TabCheckAgain} else {})"
  by (auto simp: status_panel_def tab_fields_def tab_end_def tab_enrollment_def setting_def intents_of_Cons)

text \<open>
  The tab offers a code field only in a settled state without enrollment, another look at the status only
  while consent is awaited, and the browser and the logout always.
\<close>

lemma tab_offers_exactly:
  assumes "tab_display h p = Inr es"
  shows "intents_of es = {TabOpenBrowser, TabLogout}
    \<union> (if bv_status (tab_state h p) = NotYetEnrolled then {TabEnroll}
       else if bv_status (tab_state h p) = AwaitingConsent then {TabCheckAgain} else {})"
proof -
  from assms obtain b where es: "es = Node ''h2'' [] ''GDrive Streaming'' []
      # status_panel (tab_state h p) b (set_allowedRootName (pl_settings p))
      # tab_fields (pl_settings p) @ tab_enrollment (bv_status (tab_state h p)) @ tab_end"
    by (auto simp: tab_display_def Let_def bind_result_Inr)
  show ?thesis unfolding es by (simp add: intents_of_Cons Un_commute)
qed

section \<open>A refused value is saved\<close>

text \<open>What the rewiring with a dropped pairing leaves, whether it and the save succeed or not.\<close>

lemma dropped_settings:
  assumes "then_do (setUpDrive h (drop_pairing p)) (saveSettings h) = (r, q)"
  shows "pl_settings q = pl_settings p \<and> pl_persistedPairId q = None \<and> pl_token q = []"
proof -
  obtain x p1 where x: "setUpDrive h (drop_pairing p) = (x, p1)" by fastforce
  then have p1: "pl_settings p1 = pl_settings p" "pl_persistedPairId p1 = None" "pl_token p1 = []"
    by (auto simp: setUpDrive_def Let_def drop_pairing_def split: sum.splits)
  have "pl_settings q = pl_settings p1 \<and> pl_persistedPairId q = pl_persistedPairId p1 \<and> pl_token q = pl_token p1"
    using assms x saveSettings_keeps [of h p1] by (cases x) auto
  with p1 show ?thesis by simp
qed

text \<open>Without an address the wiring succeeds.\<close>

lemma unconfigured_wiring:
  assumes "set_brokerBaseUrl (pl_settings p) = []"
  obtains q where "setUpDrive h p = (Inr (), q)"
proof -
  have "allowedRootNameForRuntime n \<noteq> []" for n
    by (simp add: allowedRootNameForRuntime_def UNCONFIGURED_ROOT_NAME_def Let_def)
  moreover have "brokerBaseUrlForRuntime (ph_url h) [] = Inr UNCONFIGURED_BROKER_BASE_URL"
    by (simp add: brokerBaseUrlForRuntime_def)
  ultimately show thesis
    using that by (auto simp: setUpDrive_def assms new_root_scope_def new_lease_manager_def DEFAULT_CLAIM_POLL_INTERVAL_MS_def
        DEFAULT_RENEWAL_LEAD_MS_def Let_def split: sum.splits)
qed

lemma unpaired_manager:
  assumes "then_do (setUpDrive h (drop_pairing p)) (saveSettings h) = (r, q)" "set_brokerBaseUrl (pl_settings p) = []"
  shows "\<exists>m. pl_manager q = Some m \<and> lm_pairId m = None \<and> lm_lease m = None"
proof -
  from assms(2) have "set_brokerBaseUrl (pl_settings (drop_pairing p)) = []" by (simp add: drop_pairing_def)
  then obtain p1 where w: "setUpDrive h (drop_pairing p) = (Inr (), p1)" by (rule unconfigured_wiring)
  with assms(1) have "saveSettings h p1 = (r, q)" by simp
  with saveSettings_keeps have "pl_manager q = pl_manager p1" by blast
  moreover from w obtain m where "pl_manager p1 = Some m" "lm_pairId m = pl_persistedPairId (drop_pairing p)" "lm_lease m = None"
    by (rule setUpDrive_Inr)
  ultimately show ?thesis by (simp add: drop_pairing_def)
qed

text \<open>
  C17: the settings tab says that a refused broker address or root name was not saved, and puts an empty one
  in place: when the field holds a refused value (an incomplete one while typing, say) over a configured
  one, the notice is shown, the configured value becomes empty, and the pairing and the token are dropped,
  so the device must enroll again.
\<close>
theorem refused_value_erases_configuration:
  "(trim v \<noteq> [] \<and> normalizeBrokerBaseUrl (ph_url h) v = []
      \<and> normalizeBrokerBaseUrl (ph_url h) (set_brokerBaseUrl (pl_settings p)) \<noteq> []
      \<and> address_typed h v p = (notices, r, q) \<longrightarrow>
      notices = [ADDRESS_NOT_SAVED] \<and> set_brokerBaseUrl (pl_settings q) = []
      \<and> pl_persistedPairId q = None \<and> pl_token q = [] \<and> (\<exists>m. pl_manager q = Some m \<and> lm_pairId m = None \<and> lm_lease m = None))
   \<and> (trim v \<noteq> [] \<and> normalizeAllowedRootName v = [] \<and> normalizeAllowedRootName (set_allowedRootName (pl_settings p)) \<noteq> []
      \<and> root_typed h v p = (notices, r, q) \<longrightarrow>
      notices = [ROOT_NOT_SAVED] \<and> set_allowedRootName (pl_settings q) = [] \<and> pl_persistedPairId q = None \<and> pl_token q = [])"
proof (intro conjI [where P = "_ \<longrightarrow> _"] impI, goal_cases address root_name)
  case address
  then have n: "notices = [ADDRESS_NOT_SAVED]" and change: "then_do (setUpDrive h (drop_pairing (p\<lparr> pl_settings := (pl_settings p)\<lparr>
      set_brokerBaseUrl := [] \<rparr> \<rparr>))) (saveSettings h) = (r, q)"
    by (auto simp: address_typed_def updateBrokerBaseUrl_def brokerChangeInvalidatesEnrollment_def)
  from dropped_settings [OF change] unpaired_manager [OF change] n show ?case by simp
next
  case root_name
  then have n: "notices = [ROOT_NOT_SAVED]" and change: "then_do (setUpDrive h (drop_pairing (p\<lparr> pl_settings := (pl_settings p)\<lparr>
      set_allowedRootName := [] \<rparr> \<rparr>))) (saveSettings h) = (r, q)"
    by (auto simp: root_typed_def updateAllowedRootName_def rootChangeInvalidatesEnrollment_def)
  from dropped_settings [OF change] n show ?case by simp
qed

theorem refused_value_erases_configuration_witness:
  "\<exists>notices r q. address_typed ex_plugin_host ''https://a?'' ex_plugin = (notices, r, q) \<and> notices = [ADDRESS_NOT_SAVED]
     \<and> set_brokerBaseUrl (pl_settings q) = [] \<and> pl_persistedPairId q = None"
proof -
  have trims: "trim ''https://a?'' \<noteq> []" "trim ''https://a'' \<noteq> []" by code_simp+
  have refused: "normalizeBrokerBaseUrl (ph_url ex_plugin_host) ''https://a?'' = []"
    by (simp add: normalizeBrokerBaseUrl_def validateBrokerBaseUrl_def ex_plugin_host_def ex_address_def)
  have configured: "normalizeBrokerBaseUrl (ph_url ex_plugin_host) (set_brokerBaseUrl (pl_settings ex_plugin)) \<noteq> []"
    using trims ex_address_accepted by (simp add: normalizeBrokerBaseUrl_def ex_plugin_host_def ex_plugin_def)
  obtain notices r q where "address_typed ex_plugin_host ''https://a?'' ex_plugin = (notices, r, q)" by (metis prod.exhaust)
  with refused_value_erases_configuration [of "''https://a?''" ex_plugin_host ex_plugin notices r q] trims refused configured
  show ?thesis by blast
qed

end
