(* ===== verification/BrokerTasks.thy ===== *)
theory BrokerTasks
  imports BrokerLeases
begin

text \<open>
  The handlers of \<^verbatim>\<open>server.ts\<close> and \<^verbatim>\<open>admin-server.ts\<close> cut at their awaits.  Node runs a handler without
  interruption up to the next \<^verbatim>\<open>await\<close>; what is left of it then is a task, a constructor of
  \<open>broker_task\<close> that carries the local variables the rest still reads.  \<open>arrive\<close> and \<open>arrive_admin\<close> are
  the parts before the first await, \<open>resume\<close> is the completion of the awaited operation and the code
  up to the next one.  Run alone to its end, a request's tasks do what the whole handler of \<open>Broker\<close>
  and \<open>Admin\<close> does; the theory \<open>BrokerRuns\<close> interleaves them.

  The methods of the encrypted record store wait for the first load of the file and then work on the
  map in memory; the waits of several callers end in the order of the calls, so the work in memory is
  placed at the call.  A change is sealed in the same breath and published afterwards: that is a task.
\<close>

section \<open>Changes of the record store in two parts\<close>

type_synonym deployed = "(enc_store \<times> files, files) broker_state"

definition record_begin :: "'x cipher_crypto_scheme \<Rightarrow> read_env \<Rightarrow> write_env \<Rightarrow> enrollment_input \<Rightarrow>
    enc_store \<times> files \<Rightarrow> (store_error, bytes) result \<times> enc_store \<times> files" where
  "record_begin N re we i reg = (case assert_device N i of Inl e \<Rightarrow> (Inl e, reg)
     | Inr d \<Rightarrow> (case ensure_loaded N re (snd reg) (fst reg) of (Inl e, s1) \<Rightarrow> (Inl e, s1, snd reg)
       | (Inr _, s1) \<Rightarrow>
         (let s2 = s1\<lparr> enc_records := mput (dev_pairIdHash d) d (enc_records s1) \<rparr>
          in (Inr (persist_bytes N we s2), s2, snd reg))))"

text \<open>\<open>None\<close>: the pairing has no record, and nothing is to be published.\<close>

definition revoke_begin :: "'x cipher_crypto_scheme \<Rightarrow> read_env \<Rightarrow> write_env \<Rightarrow> string \<Rightarrow>
    enc_store \<times> files \<Rightarrow> (store_error, bytes option) result \<times> enc_store \<times> files" where
  "revoke_begin N re we pairId reg = (case ensure_loaded N re (snd reg) (fst reg) of
       (Inl e, s1) \<Rightarrow> (Inl e, s1, snd reg)
     | (Inr _, s1) \<Rightarrow> (case mget (enc_records s1) (pairIdHash N pairId) of None \<Rightarrow> (Inr None, s1, snd reg)
       | Some d \<Rightarrow>
         (let s2 = s1\<lparr> enc_records := mput (pairIdHash N pairId) (d\<lparr> dev_revoked := True \<rparr>) (enc_records s1) \<rparr>
          in (Inr (Some (persist_bytes N we s2)), s2, snd reg))))"

definition publish :: "write_env \<Rightarrow> bytes \<Rightarrow> enc_store \<times> files \<Rightarrow> (store_error, unit) result \<times> enc_store \<times> files" where
  "publish we bytes reg = (case write_record we bytes (snd reg) of (r, fs) \<Rightarrow> (r, fst reg, fs))"

lemma record_parts: "reg_record (encrypted_providers N key se) i reg =
    (case record_begin N (se_read se) (se_write se) i reg of (Inl e, reg') \<Rightarrow> (Inl e, reg')
     | (Inr bytes, reg') \<Rightarrow> publish (se_write se) bytes reg')"
  by (cases reg) (auto simp: encrypted_providers_def enc_record_def record_begin_def publish_def persist_def Let_def
      split: sum.splits prod.splits)

lemma revoke_parts: "reg_revoke (encrypted_providers N key se) p reg =
    (case revoke_begin N (se_read se) (se_write se) p reg of (Inl e, reg') \<Rightarrow> (Inl e, reg')
     | (Inr None, reg') \<Rightarrow> (Inr False, reg')
     | (Inr (Some bytes), reg') \<Rightarrow> (case publish (se_write se) bytes reg' of (Inl e, reg'') \<Rightarrow> (Inl e, reg'')
         | (Inr _, reg'') \<Rightarrow> (Inr True, reg'')))"
  by (cases reg) (auto simp: encrypted_providers_def enc_revoke_def revoke_begin_def publish_def persist_def Let_def
      split: sum.splits prod.splits option.splits)

section \<open>Tasks\<close>

text \<open>
  Each constructor names the awaited operation.  The number of \<open>MintRead\<close> and \<open>MintRefresh\<close> is the place
  of the clock reading after the grant, as in \<open>mintSealedLease\<close>.
\<close>

datatype broker_task =
    PairBody http_request
  | DeviceBody http_request
  | NonceGrant string "enrolled_device option"
  | LeaseRedeem string string string "enrolled_device option"
  | ClaimPublish bytes string
  | MintRead nat string broker_config string
  | MintRefresh nat string broker_config string string
  | CallbackExchange broker_config string string consumed_state
  | CallbackSave token_input consumed_state
  | CallbackCheck consumed_state
  | IssueBody http_request
  | RevokeBody http_request
  | RevokePublish bytes
  | RevokeClear

datatype step_result = Respond http_response | Await broker_task

definition answered :: "http_response \<times> deployed \<Rightarrow> step_result \<times> deployed" where
  "answered x = (Respond (fst x), snd x)"

text \<open>\<^verbatim>\<open>mintSealedLease\<close>: the guard and the call of \<^verbatim>\<open>read\<close>; then the answer of the store; then Google's.\<close>

definition mint_begin :: "broker \<Rightarrow> nat \<Rightarrow> string \<Rightarrow> step_result" where
  "mint_begin b k pem = (case (bk_config b, usable_secret b, bk_hasTokens b) of
       (Some cfg, Some secret, True) \<Rightarrow> Await (MintRead k pem cfg secret)
     | _ \<Rightarrow> Respond (sendError 502 ''lease_unavailable''))"

definition mint_stored :: "nat \<Rightarrow> string \<Rightarrow> broker_config \<Rightarrow> string \<Rightarrow> (store_error, stored_token option) result \<Rightarrow>
    step_result" where
  "mint_stored k pem cfg secret r = (case r of Inl _ \<Rightarrow> Respond (sendError 502 ''lease_unavailable'')
     | Inr None \<Rightarrow> Respond (sendError 409 ''not_authorized_yet'')
     | Inr (Some stored) \<Rightarrow> Await (MintRefresh k pem cfg secret (tok_refreshToken stored)))"

definition mint_finish :: "'x lease_crypto_scheme \<Rightarrow> broker \<Rightarrow> request_env \<Rightarrow> nat \<Rightarrow> string \<Rightarrow> broker_config \<Rightarrow>
    string \<Rightarrow> string \<Rightarrow> (mint_error, minted_lease option) result" where
  "mint_finish N b env k pem cfg secret token =
    (case refreshAccessToken cfg token secret None None (google env) of Inl e \<Rightarrow> Inl (GrantFailed e)
     | Inr g \<Rightarrow>
       (let e = clock env k + (case grant_expiresIn g of None \<Rightarrow> DEFAULT_TOKEN_LIFETIME_SECONDS | Some x \<Rightarrow> x) * 1000
        in case sealLease N (draw env 0) (draw env 1) (draw env 2)
            (payload_json (grant_accessToken g) e (grant_scope g) (bk_root b)) pem of
           Inl er \<Rightarrow> Inl (SealFailed er)
         | Inr l \<Rightarrow> Inr (Some \<lparr> min_lease = l, min_expiresAtMs = e \<rparr>)))"

section \<open>The public server\<close>

definition claim_begin :: "'x lease_crypto_scheme \<Rightarrow> broker \<Rightarrow> store_env \<Rightarrow> request_env \<Rightarrow> string \<Rightarrow>
    (string \<times> jsval) list \<Rightarrow> deployed \<Rightarrow> step_result \<times> deployed" where
  "claim_begin N b se env pairId body s =
    (case bounded_string (field body ''proof'') 512 of None \<Rightarrow> (Respond (sendError 400 ''invalid_proof''), s)
     | Some pf \<Rightarrow>
       (case openClaim N pairId pf (clock env 0) (st_pairs s) of
          (Inl e, pairs) \<Rightarrow> (Respond (claim_error e), s\<lparr> st_pairs := pairs \<rparr>)
        | (Inr (signPem, encPem), pairs) \<Rightarrow>
          (case record_begin N (se_read se) (se_write se) (enrollment_request b env pairId signPem encPem) (st_reg s) of
             (Inl _, reg) \<Rightarrow> (Respond (sendError 502 ''lease_unavailable''), s\<lparr> st_pairs := pairs, st_reg := reg \<rparr>)
           | (Inr bytes, reg) \<Rightarrow> (Await (ClaimPublish bytes encPem), s\<lparr> st_pairs := pairs, st_reg := reg \<rparr>))))"

definition claim_published :: "broker \<Rightarrow> store_env \<Rightarrow> bytes \<Rightarrow> string \<Rightarrow> deployed \<Rightarrow> step_result \<times> deployed" where
  "claim_published b se bytes encPem s = (case publish (se_write se) bytes (st_reg s) of
       (Inl _, reg) \<Rightarrow> (Respond (sendError 502 ''lease_unavailable''), s\<lparr> st_reg := reg \<rparr>)
     | (Inr _, reg) \<Rightarrow> (mint_begin b 3 encPem, s\<lparr> st_reg := reg \<rparr>))"

definition nonce_begin :: "'x lease_crypto_scheme \<Rightarrow> bytes \<Rightarrow> store_env \<Rightarrow> string \<Rightarrow> deployed \<Rightarrow> step_result \<times> deployed" where
  "nonce_begin N key se pairId s =
    (if statusOf N pairId (st_pairs s) = Some Revoked then (Respond (sendError 403 ''revoked''), s)
     else case reg_find (encrypted_providers N key se) pairId (st_reg s) of
       (Inl _, reg) \<Rightarrow> (Respond (sendError 400 ''invalid_request''), s\<lparr> st_reg := reg \<rparr>)
     | (Inr r, reg) \<Rightarrow> (Await (NonceGrant pairId r), s\<lparr> st_reg := reg \<rparr>))"

definition nonce_answer :: "(durable_rejection, string \<times> int) result \<Rightarrow> http_response" where
  "nonce_answer r = (case r of Inl DNotAuthorizedYet \<Rightarrow> sendError 409 ''not_authorized_yet''
     | Inl _ \<Rightarrow> sendError 403 ''revoked''
     | Inr (nonce, e) \<Rightarrow> sendJson 200 (Obj [(''nonce'', Str nonce), (''expiresAtMs'', jint e)]))"

definition lease_begin :: "'x lease_crypto_scheme \<Rightarrow> bytes \<Rightarrow> store_env \<Rightarrow> string \<Rightarrow> (string \<times> jsval) list \<Rightarrow>
    deployed \<Rightarrow> step_result \<times> deployed" where
  "lease_begin N key se pairId body s =
    (case (bounded_string (field body ''nonce'') 256, bounded_string (field body ''proof'') 512) of
       (Some nonce, Some pf) \<Rightarrow>
         if statusOf N pairId (st_pairs s) = Some Revoked then (Respond (lease_error DRevoked), s)
         else (case reg_find (encrypted_providers N key se) pairId (st_reg s) of
            (Inl _, reg) \<Rightarrow> (Respond (sendError 400 ''invalid_request''), s\<lparr> st_reg := reg \<rparr>)
          | (Inr r, reg) \<Rightarrow> (Await (LeaseRedeem pairId nonce pf r), s\<lparr> st_reg := reg \<rparr>))
     | _ \<Rightarrow> (Respond (sendError 403 ''invalid_nonce''), s))"

definition lease_found :: "'x lease_crypto_scheme \<Rightarrow> broker \<Rightarrow> request_env \<Rightarrow> string \<Rightarrow> string \<Rightarrow> string \<Rightarrow>
    enrolled_device option \<Rightarrow> deployed \<Rightarrow> step_result \<times> deployed" where
  "lease_found N b env pairId nonce pf r s =
    (case redeem_nonce N (clock env 0) (clock env 1) pairId nonce pf r s of
       (Inl e, s') \<Rightarrow> (Respond (lease_error e), s')
     | (Inr encPem, s') \<Rightarrow> (mint_begin b 2 encPem, s'))"

definition device_begin :: "'x lease_crypto_scheme \<Rightarrow> broker \<Rightarrow> bytes \<Rightarrow> store_env \<Rightarrow> request_env \<Rightarrow> http_request \<Rightarrow>
    deployed \<Rightarrow> step_result \<times> deployed" where
  "device_begin N b key se env rq s =
    (case jsonBody rq of None \<Rightarrow> (Respond (sendError 400 ''invalid_request''), s)
     | Some body \<Rightarrow> (case bounded_string (field body ''pairId'') 256 of
         None \<Rightarrow> (Respond (sendError 400 ''invalid_pair_id''), s)
       | Some pairId \<Rightarrow>
         if rq_url rq = ''/oauth/claim'' then claim_begin N b se env pairId body s
         else if rq_url rq = ''/oauth/nonce'' then nonce_begin N key se pairId s
         else lease_begin N key se pairId body s))"

definition callback_begin :: "'x node_crypto_scheme \<Rightarrow> broker \<Rightarrow> request_env \<Rightarrow> (string \<times> string) list \<Rightarrow>
    deployed \<Rightarrow> step_result \<times> deployed" where
  "callback_begin N b env params s =
    (if ''error'' \<in> fst ` set params then (Respond (callback_page False), s)
     else case (bk_config b, usable_secret b, bk_hasTokens b) of
       (Some cfg, Some secret, True) \<Rightarrow>
         if param params ''state'' = [] \<or> param params ''code'' = [] then (Respond (callback_page False), s)
         else (case consumeOAuthState N (draw env 0) (param params ''state'') (clock env 0) (st_pairs s) of
           (None, pairs) \<Rightarrow> (Respond (callback_page False), s\<lparr> st_pairs := pairs \<rparr>)
         | (Some got, pairs) \<Rightarrow>
           (Await (CallbackExchange cfg secret (param params ''code'') got), s\<lparr> st_pairs := pairs \<rparr>))
     | _ \<Rightarrow> (Respond (callback_page False), s))"

definition callback_exchanged :: "request_env \<Rightarrow> broker_config \<Rightarrow> string \<Rightarrow> string \<Rightarrow> consumed_state \<Rightarrow> step_result" where
  "callback_exchanged env cfg secret authCode got =
    (case exchangeAuthorizationCode cfg authCode (consumed_verifier got) secret (google env) of
       Inl _ \<Rightarrow> Respond (callback_page False)
     | Inr tokens \<Rightarrow>
       (case validateGrantedScope (granted_scope tokens) (googleDriveScope cfg) [googleDriveScope cfg] of
          Inl _ \<Rightarrow> Respond (callback_page False)
        | Inr scope \<Rightarrow> (case refreshToken tokens of
            Some rt \<Rightarrow> Await (CallbackSave \<lparr> in_refreshToken = rt, in_scope = scope,
              in_obtainedAtMs = num_of_int (clock env 1) \<rparr> got)
          | None \<Rightarrow> Await (CallbackCheck got))))"

definition callback_mark :: "'x node_crypto_scheme \<Rightarrow> request_env \<Rightarrow> consumed_state \<Rightarrow> bool \<Rightarrow> deployed \<Rightarrow>
    step_result \<times> deployed" where
  "callback_mark N env got kept s = (if \<not> kept then (Respond (callback_page False), s)
     else case markAuthorized N (consumed_handle got) (clock env 2) (st_pairs s) of
       (m, pairs) \<Rightarrow> (Respond (callback_page m), s\<lparr> st_pairs := pairs \<rparr>))"

definition plain_begin :: "broker \<Rightarrow> request_env \<Rightarrow> http_request \<Rightarrow> deployed \<Rightarrow> step_result \<times> deployed" where
  "plain_begin b env rq s =
    (if rq_method rq = ''GET'' \<and> rq_url rq = ''/health''
     then (Respond (sendJson 200 (Obj [(''service'', Str ''gdrive-stream-broker''), (''status'', Str ''ok'')])), s)
     else if rq_method rq = ''POST'' \<and> rq_url rq = ''/oauth/pair'' then
       (case allowPairAttempt (bk_maxAttempts b) (bk_windowMs b)
            (case rq_remote rq of None \<Rightarrow> ''unknown'' | Some a \<Rightarrow> a) (clock env 0) (st_attempts s) of
          (False, m) \<Rightarrow> (Respond (rate_limited b), s\<lparr> st_attempts := m \<rparr>)
        | (True, m) \<Rightarrow> (if json_request rq then Await (PairBody rq) else Respond (sendError 415 ''json_content_type_required''),
            s\<lparr> st_attempts := m \<rparr>))
     else if rq_method rq = ''POST'' \<and> rq_url rq \<in> {''/oauth/claim'', ''/oauth/nonce'', ''/oauth/lease''} then
       (if \<not> leaseEndpointReady b then Respond (sendError 404 ''not_found'')
        else if \<not> json_request rq then Respond (sendError 415 ''json_content_type_required'')
        else Await (DeviceBody rq), s)
     else (Respond (sendError 404 ''not_found''), s))"

definition arrive :: "'x lease_crypto_scheme \<Rightarrow> broker \<Rightarrow> request_env \<Rightarrow> http_request \<Rightarrow> deployed \<Rightarrow>
    step_result \<times> deployed" where
  "arrive N b env rq s =
    (if rq_method rq = ''GET'' then
       (case request_url env (rq_url rq) of None \<Rightarrow> (Respond (sendError 400 ''invalid_request''), s)
        | Some (path, query) \<Rightarrow>
          if path \<in> set CALLBACK_PATHS then
            (if bk_config b = None then (Respond (sendError 404 ''not_found''), s)
             else callback_begin N b env (form_parse query) s)
          else plain_begin b env rq s)
     else plain_begin b env rq s)"

section \<open>The operator's server\<close>

definition arrive_admin :: "'x node_crypto_scheme \<Rightarrow> admin \<Rightarrow> http_request \<Rightarrow> deployed \<Rightarrow> step_result \<times> deployed" where
  "arrive_admin N a rq s =
    (if \<not> tokenMatches N (bearerToken (rq_auth rq)) (ad_token a) then Respond (sendError 401 ''unauthorized'')
     else if rq_method rq = ''POST'' \<and> rq_url rq = ''/admin/enrollment'' then
       (if json_request rq then Await (IssueBody rq) else Respond (sendError 415 ''json_content_type_required''))
     else if rq_method rq = ''GET'' \<and> rq_url rq = ''/admin/enrollment''
     then Respond (sendJson 200 (counts_json (debugCounts (st_codes s))))
     else if rq_method rq = ''POST'' \<and> rq_url rq = ''/admin/revoke'' then
       (if json_request rq then Await (RevokeBody rq) else Respond (sendError 415 ''json_content_type_required''))
     else Respond (sendError 404 ''not_found''), s)"

definition clear_begin :: "admin \<Rightarrow> bool \<Rightarrow> step_result" where
  "clear_begin a revoked = (if revoked \<and> ad_hasTokens a then Await RevokeClear
     else Respond (sendJson 200 (Obj [(''revoked'', Bool revoked)])))"

definition revocation_begin :: "'x cipher_crypto_scheme \<Rightarrow> admin \<Rightarrow> store_env \<Rightarrow> string \<Rightarrow> deployed \<Rightarrow>
    step_result \<times> deployed" where
  "revocation_begin N a se pairId s =
    (case revoke N pairId (st_pairs s) of (byPairing, pairs) \<Rightarrow>
      if \<not> ad_hasRegistry a then (clear_begin a byPairing, s\<lparr> st_pairs := pairs \<rparr>)
      else (case revoke_begin N (se_read se) (se_write se) pairId (st_reg s) of
         (Inl _, reg) \<Rightarrow> (Respond (sendError 400 ''invalid_request''), s\<lparr> st_pairs := pairs, st_reg := reg \<rparr>)
       | (Inr None, reg) \<Rightarrow> (clear_begin a byPairing, s\<lparr> st_pairs := pairs, st_reg := reg \<rparr>)
       | (Inr (Some bytes), reg) \<Rightarrow> (Await (RevokePublish bytes), s\<lparr> st_pairs := pairs, st_reg := reg \<rparr>)))"

definition admin_body :: "'x cipher_crypto_scheme \<Rightarrow> admin \<Rightarrow> store_env \<Rightarrow> http_request \<Rightarrow> deployed \<Rightarrow>
    step_result \<times> deployed" where
  "admin_body N a se rq s = (case jsonBody rq of None \<Rightarrow> (Respond (sendError 400 ''invalid_request''), s)
     | Some body \<Rightarrow> (case bounded_string (field body ''pairId'') 256 of
         None \<Rightarrow> (Respond (sendError 400 ''invalid_pair_id''), s)
       | Some pairId \<Rightarrow> revocation_begin N a se pairId s))"

section \<open>Resumption\<close>

text \<open>
  The issue of a code is one part: after its body nothing is awaited, and the content type, which
  \<open>admin_issue\<close> asks for again, was there on arrival.
\<close>

primrec resume :: "'x lease_crypto_scheme \<Rightarrow> broker \<Rightarrow> admin \<Rightarrow> bytes \<Rightarrow> store_env \<Rightarrow> request_env \<Rightarrow> broker_task \<Rightarrow>
    deployed \<Rightarrow> step_result \<times> deployed" where
  "resume N b a key se env (PairBody rq) s =
    (case jsonBody rq of None \<Rightarrow> (Respond (sendError 400 ''invalid_request''), s)
     | Some body \<Rightarrow> answered (pair_device N b env body s))"
| "resume N b a key se env (DeviceBody rq) s = device_begin N b key se env rq s"
| "resume N b a key se env (NonceGrant pairId r) s =
    (case grant_nonce N b (draw env 0) (clock env 0) (clock env 1) pairId r s of (x, s') \<Rightarrow> (Respond (nonce_answer x), s'))"
| "resume N b a key se env (LeaseRedeem pairId nonce pf r) s = lease_found N b env pairId nonce pf r s"
| "resume N b a key se env (ClaimPublish bytes encPem) s = claim_published b se bytes encPem s"
| "resume N b a key se env (MintRead k pem cfg secret) s =
    (mint_stored k pem cfg secret (tok_read (encrypted_providers N key se) (st_tok s)), s)"
| "resume N b a key se env (MintRefresh k pem cfg secret token) s =
    (Respond (send_minted (mint_finish N b env k pem cfg secret token)), s)"
| "resume N b a key se env (CallbackExchange cfg secret authCode got) s = (callback_exchanged env cfg secret authCode got, s)"
| "resume N b a key se env (CallbackSave i got) s =
    (case tok_replace (encrypted_providers N key se) i (st_tok s) of
       (r, tok) \<Rightarrow> callback_mark N env got (is_ok r) (s\<lparr> st_tok := tok \<rparr>))"
| "resume N b a key se env (CallbackCheck got) s =
    callback_mark N env got (case tok_read (encrypted_providers N key se) (st_tok s) of Inr (Some _) \<Rightarrow> True | _ \<Rightarrow> False) s"
| "resume N b a key se env (IssueBody rq) s = answered (admin_issue N a env rq s)"
| "resume N b a key se env (RevokeBody rq) s = admin_body N a se rq s"
| "resume N b a key se env (RevokePublish bytes) s = (case publish (se_write se) bytes (st_reg s) of
       (Inl _, reg) \<Rightarrow> (Respond (sendError 400 ''invalid_request''), s\<lparr> st_reg := reg \<rparr>)
     | (Inr _, reg) \<Rightarrow> (clear_begin a True, s\<lparr> st_reg := reg \<rparr>))"
| "resume N b a key se env RevokeClear s = (case tok_clear (encrypted_providers N key se) (st_tok s) of
       (Inl _, tok) \<Rightarrow> (Respond (sendError 400 ''invalid_request''), s\<lparr> st_tok := tok \<rparr>)
     | (Inr _, tok) \<Rightarrow> (Respond (sendJson 200 (Obj [(''revoked'', Bool True)])), s\<lparr> st_tok := tok \<rparr>))"

section \<open>A request alone\<close>

text \<open>\<open>n\<close> bounds the number of resumptions; \<open>None\<close> says that they were not enough.\<close>

fun run_alone :: "'x lease_crypto_scheme \<Rightarrow> broker \<Rightarrow> admin \<Rightarrow> bytes \<Rightarrow> store_env \<Rightarrow> request_env \<Rightarrow> nat \<Rightarrow>
    step_result \<times> deployed \<Rightarrow> (http_response \<times> deployed) option" where
  "run_alone N b a key se env n (Respond r, s) = Some (r, s)"
| "run_alone N b a key se env 0 (Await t, s) = None"
| "run_alone N b a key se env (Suc n) (Await t, s) = run_alone N b a key se env n (resume N b a key se env t s)"

lemma run_answered [simp]: "run_alone N b a key se env n (answered x) = Some x"
  by (cases x) (simp add: answered_def)

lemma tok_read_encrypted: "tok_read (encrypted_providers N key se) tok = read_token N key (se_tokenRead se) tok"
  by (simp add: encrypted_providers_def)

lemma mint_finish_minted:
  "bk_config b = Some cfg \<Longrightarrow> usable_secret b = Some secret \<Longrightarrow> bk_hasTokens b \<Longrightarrow>
     tok_read P tok = Inr (Some stored) \<Longrightarrow>
     mint_finish N b env k pem cfg secret (tok_refreshToken stored) = mintSealedLease N b P env k pem tok"
  by (simp add: mint_finish_def mintSealedLease_def)

lemma mint_alone: "run_alone N b a key se env (Suc (Suc n)) (mint_begin b k pem, s) =
    Some (send_minted (mintSealedLease N b (encrypted_providers N key se) env k pem (st_tok s)), s)"
proof (cases "\<exists>cfg secret. bk_config b = Some cfg \<and> usable_secret b = Some secret \<and> bk_hasTokens b")
  case True
  then obtain cfg secret where g: "bk_config b = Some cfg" "usable_secret b = Some secret" "bk_hasTokens b" by blast
  let ?P = "encrypted_providers N key se"
  consider (failed) e where "tok_read ?P (st_tok s) = Inl e" | (absent) "tok_read ?P (st_tok s) = Inr None"
    | (stored) st where "tok_read ?P (st_tok s) = Inr (Some st)"
    by (metis obj_sumE option.exhaust)
  then show ?thesis
  proof cases
    case (stored st)
    note m = mint_finish_minted [OF g stored, of N env k pem]
    show ?thesis by (simp add: mint_begin_def g mint_stored_def stored m)
  qed (simp_all add: mint_begin_def g mint_stored_def mintSealedLease_def send_minted_def)
next
  case False
  then show ?thesis
    by (auto simp: mint_begin_def mintSealedLease_def send_minted_def split: option.splits bool.splits)
qed

lemma lease_alone: "run_alone N b a key se env (Suc (Suc (Suc n))) (lease_begin N key se p body s) =
    Some (handle_lease N b (encrypted_providers N key se) env p body s)"
proof -
  let ?P = "encrypted_providers N key se"
  have redeem: "run_alone N b a key se env (Suc (Suc n)) (lease_found N b env p nonce pf r t) =
      Some (case redeem_nonce N (clock env 0) (clock env 1) p nonce pf r t of
        (Inl e, t') \<Rightarrow> (lease_error e, t')
      | (Inr pem, t') \<Rightarrow> (send_minted (mintSealedLease N b ?P env 2 pem (st_tok t')), t'))" for nonce pf r t
    by (simp add: lease_found_def mint_alone split: prod.split sum.split del: run_alone.simps(3))
  show ?thesis
    by (simp add: lease_begin_def handle_lease_def consumeDurableNonce_def redeem lease_error_def
      split: option.split prod.split sum.split)
qed

lemma nonce_alone: "run_alone N b a key se env (Suc n) (nonce_begin N key se p s) =
    Some (handle_nonce N b (encrypted_providers N key se) env p s)"
  by (simp add: nonce_begin_def handle_nonce_def issueDurableNonce_def nonce_answer_def
      split: prod.split sum.split durable_rejection.split)

lemma claim_alone: "run_alone N b a key se env (Suc (Suc (Suc n))) (claim_begin N b se env p body s) =
    Some (handle_claim N b (encrypted_providers N key se) env p body s)"
proof -
  have published: "run_alone N b a key se env (Suc (Suc n)) (claim_published b se bytes pem t) =
      Some (case publish (se_write se) bytes (st_reg t) of
        (Inl _, reg) \<Rightarrow> (sendError 502 ''lease_unavailable'', t\<lparr> st_reg := reg \<rparr>)
      | (Inr _, reg) \<Rightarrow> (send_minted (mintSealedLease N b (encrypted_providers N key se) env 3 pem (st_tok t)),
          t\<lparr> st_reg := reg \<rparr>))" for bytes pem t
    by (simp add: claim_published_def mint_alone split: prod.split sum.split del: run_alone.simps(3))
  show ?thesis
    by (simp add: claim_begin_def handle_claim_def enroll_device_def record_parts published
        split: option.split prod.split sum.split)
qed

lemma callback_alone: "run_alone N b a key se env (Suc (Suc n)) (callback_begin N b env params s) =
    Some (handleOAuthCallback N b (encrypted_providers N key se) env params s)"
proof -
  let ?P = "encrypted_providers N key se"
  have mark: "run_alone N b a key se env n (callback_mark N env got kept t) =
      Some (if \<not> kept then (callback_page False, t)
        else case markAuthorized N (consumed_handle got) (clock env 2) (st_pairs t) of
          (m, pairs) \<Rightarrow> (callback_page m, t\<lparr> st_pairs := pairs \<rparr>))" for got kept t n
    by (simp add: callback_mark_def split: prod.split)
  have exchange: "run_alone N b a key se env (Suc n) (callback_exchanged env cfg secret code got, t) =
      Some (case complete_callback N ?P env cfg secret code got t of (ok, t') \<Rightarrow> (callback_page ok, t'))"
    for cfg secret code got t
    by (simp add: callback_exchanged_def complete_callback_def store_grant_def mark
        split: option.split prod.split sum.split)
  show ?thesis
    by (simp add: callback_begin_def handleOAuthCallback_def exchange
        split: option.split prod.split bool.split)
qed
lemma pair_alone: "run_alone N b a key se env (Suc n)
    (case allowPairAttempt (bk_maxAttempts b) (bk_windowMs b)
        (case rq_remote rq of None \<Rightarrow> ''unknown'' | Some ip \<Rightarrow> ip) (clock env 0) (st_attempts s) of
       (False, m) \<Rightarrow> (Respond (rate_limited b), s\<lparr> st_attempts := m \<rparr>)
     | (True, m) \<Rightarrow> (if json_request rq then Await (PairBody rq) else Respond (sendError 415 ''json_content_type_required''),
         s\<lparr> st_attempts := m \<rparr>)) =
    Some (handle_pair N b env rq s)"
  by (simp add: handle_pair_def Let_def split: prod.split bool.split option.split)

lemma device_alone: "leaseEndpointReady b \<Longrightarrow> json_request rq \<Longrightarrow>
    run_alone N b a key se env (Suc (Suc (Suc (Suc n)))) (Await (DeviceBody rq), s) =
      Some (handle_device N b (encrypted_providers N key se) env rq s)"
  unfolding run_alone.simps(3) [of _ _ _ _ _ _ "Suc (Suc (Suc n))"] resume.simps(2)
  by (simp add: device_begin_def handle_device_def claim_alone nonce_alone lease_alone split: option.split
      del: run_alone.simps(3))

lemma plain_alone: "run_alone N b a key se env (Suc (Suc (Suc (Suc n)))) (plain_begin b env rq s) =
    Some (serve_plain N b (encrypted_providers N key se) env rq s)"
proof (cases "rq_method rq = ''POST'' \<and> rq_url rq \<in> {''/oauth/claim'', ''/oauth/nonce'', ''/oauth/lease''}
    \<and> leaseEndpointReady b \<and> json_request rq")
  case True
  then have "plain_begin b env rq s = (Await (DeviceBody rq), s)" by (auto simp: plain_begin_def)
  with True show ?thesis by (auto simp: serve_plain_def device_alone simp del: run_alone.simps(3))
next
  case False
  then show ?thesis
    by (auto simp: plain_begin_def serve_plain_def pair_alone handle_device_def simp del: run_alone.simps(3))
qed

lemma revocation_alone: "run_alone N b a key se env (Suc (Suc n)) (revocation_begin N a se p s) =
    Some (revoke_everywhere N a (encrypted_providers N key se) p s)"
proof -
  have clear: "run_alone N b a key se env (Suc n) (clear_begin a revoked, t) =
      Some (case (if revoked \<and> ad_hasTokens a then tok_clear (encrypted_providers N key se) (st_tok t) else (Inr (), st_tok t)) of
        (Inl _, tok) \<Rightarrow> (sendError 400 ''invalid_request'', t\<lparr> st_tok := tok \<rparr>)
      | (Inr _, tok) \<Rightarrow> (sendJson 200 (Obj [(''revoked'', Bool revoked)]), t\<lparr> st_tok := tok \<rparr>))" for revoked t n
    by (simp add: clear_begin_def split: prod.split sum.split)
  obtain x pairs where r: "revoke N p (st_pairs s) = (x, pairs)" by fastforce
  obtain y reg where g: "revoke_begin N (se_read se) (se_write se) p (st_reg s) = (y, reg)" by (rule prod.exhaust)
  show ?thesis
  proof (cases "ad_hasRegistry a")
    case True
    consider (failed) e where "y = Inl e" | (absent) "y = Inr None" | (sealed) bytes where "y = Inr (Some bytes)"
      by (metis obj_sumE option.exhaust)
    then show ?thesis
    proof cases
      case (sealed bytes)
      then show ?thesis
        by (cases "publish (se_write se) bytes reg", cases "fst (publish (se_write se) bytes reg)")
          (simp_all add: revocation_begin_def revoke_everywhere_def revoke_parts r g True clear Let_def)
    qed (simp_all add: revocation_begin_def revoke_everywhere_def revoke_parts r g True clear Let_def)
  next
    case False
    have same: "s\<lparr> st_pairs := pairs, st_reg := st_reg s, st_tok := tok \<rparr> = s\<lparr> st_pairs := pairs, st_tok := tok \<rparr>" for tok
      by (cases s) simp
    from False show ?thesis by (simp add: revocation_begin_def revoke_everywhere_def r clear Let_def same
          split: prod.split sum.split)
  qed
qed

lemma admin_alone: "run_alone N b a key se env (Suc (Suc (Suc n))) (arrive_admin N a rq s) =
    Some (admin_serve N a (encrypted_providers N key se) env rq s)"
proof -
  have body: "run_alone N b a key se env (Suc (Suc n)) (admin_body N a se rq s) =
      Some (admin_revoke N a (encrypted_providers N key se) rq s)" if "json_request rq"
    by (simp add: admin_body_def admin_revoke_def that revocation_alone split: option.split del: run_alone.simps(3))
  then show ?thesis
    by (simp add: arrive_admin_def admin_serve_def admin_revoke_def admin_issue_def)
qed

section \<open>Properties\<close>

text \<open>
  The cut handlers are the handlers.  A request to either server whose tasks run without another
  request in between is answered after at most four resumptions, with the response and the state of
  the whole handler.
\<close>
theorem tasks_refine_handlers:
  "run_alone N b a key se env 4 (arrive N b env rq s) = Some (serve N b (encrypted_providers N key se) env rq s)
    \<and> run_alone N b a key se env 4 (arrive_admin N a rq s) = Some (admin_serve N a (encrypted_providers N key se) env rq s)"
proof -
  have 4: "4 = Suc (Suc (Suc (Suc 0)))" by simp
  have callback: "run_alone N b a key se env 4 (callback_begin N b env ps s) =
      Some (handleOAuthCallback N b (encrypted_providers N key se) env ps s)" for ps
    unfolding 4 by (rule callback_alone)
  have plain: "run_alone N b a key se env 4 (plain_begin b env rq s) =
      Some (serve_plain N b (encrypted_providers N key se) env rq s)" unfolding 4 by (rule plain_alone)
  have "run_alone N b a key se env 4 (arrive N b env rq s) = Some (serve N b (encrypted_providers N key se) env rq s)"
    by (cases "bk_config b = None") (simp_all add: arrive_def serve_def callback plain split: option.split del: not_None_eq)
  moreover have "run_alone N b a key se env 4 (arrive_admin N a rq s) =
      Some (admin_serve N a (encrypted_providers N key se) env rq s)"
    unfolding 4 by (rule admin_alone)
  ultimately show ?thesis ..
qed

end
