(* ===== verification/BrokerRuns.thy ===== *)
theory BrokerRuns
  imports BrokerTasks
begin

text \<open>
  The deployed broker with any number of requests in flight: the tasks of both servers interleave in
  any order on one state.  Shown are that no request is lost or answered twice, that each is answered
  when its operations complete, that the pairing store moves by its own operations only, that an
  operator's revocation holds against every request whose body was not read before it, and what a
  request that had passed its checks can still do after it.
\<close>

section \<open>The world\<close>

record broker_world =
  bw_state :: deployed
  bw_tasks :: "(nat, broker_task) omap"
  bw_next :: nat
  bw_sent :: "(nat \<times> http_response) list"

datatype world_event =
    Arrives request_env http_request
  | AdminArrives http_request
  | Resumes store_env request_env nat

definition start_world :: "deployed \<Rightarrow> broker_world" where
  "start_world s = \<lparr> bw_state = s, bw_tasks = [], bw_next = 0, bw_sent = [] \<rparr>"

definition settle :: "nat \<Rightarrow> step_result \<times> deployed \<Rightarrow> broker_world \<Rightarrow> broker_world" where
  "settle n x w = (case fst x of
       Respond r \<Rightarrow> w\<lparr> bw_state := snd x, bw_sent := bw_sent w @ [(n, r)] \<rparr>
     | Await t \<Rightarrow> w\<lparr> bw_state := snd x, bw_tasks := mput n t (bw_tasks w) \<rparr>)"

text \<open>Requests are numbered in the order of their arrival; the resumption of no task changes nothing.\<close>

primrec world_step :: "'x lease_crypto_scheme \<Rightarrow> broker \<Rightarrow> admin \<Rightarrow> bytes \<Rightarrow> world_event \<Rightarrow> broker_world \<Rightarrow>
    broker_world" where
  "world_step N b a key (Arrives env rq) w =
    settle (bw_next w) (arrive N b env rq (bw_state w)) (w\<lparr> bw_next := Suc (bw_next w) \<rparr>)"
| "world_step N b a key (AdminArrives rq) w =
    settle (bw_next w) (arrive_admin N a rq (bw_state w)) (w\<lparr> bw_next := Suc (bw_next w) \<rparr>)"
| "world_step N b a key (Resumes se env n) w = (case mget (bw_tasks w) n of None \<Rightarrow> w
    | Some t \<Rightarrow> settle n (resume N b a key se env t (bw_state w)) (w\<lparr> bw_tasks := mdel n (bw_tasks w) \<rparr>))"

abbreviation world_run :: "'x lease_crypto_scheme \<Rightarrow> broker \<Rightarrow> admin \<Rightarrow> bytes \<Rightarrow> world_event list \<Rightarrow> broker_world \<Rightarrow>
    broker_world" where
  "world_run N b a key es w \<equiv> fold (world_step N b a key) es w"

lemma settle_state [simp]: "bw_state (settle n x w) = snd x"
  by (simp add: settle_def split: step_result.split)

lemma settle_next [simp]: "bw_next (settle n x w) = bw_next w"
  by (simp add: settle_def split: step_result.split)

lemma settle_tasks [simp]: "bw_tasks (settle n x w) = (case fst x of Respond r \<Rightarrow> bw_tasks w | Await t \<Rightarrow> mput n t (bw_tasks w))"
  by (simp add: settle_def split: step_result.split)

lemma settle_sent [simp]: "bw_sent (settle n x w) = (case fst x of Respond r \<Rightarrow> bw_sent w @ [(n, r)] | Await t \<Rightarrow> bw_sent w)"
  by (simp add: settle_def split: step_result.split)

section \<open>Every request is answered, and once\<close>

definition world_inv :: "broker_world \<Rightarrow> bool" where
  "world_inv w \<longleftrightarrow> mkeys_distinct (bw_tasks w) \<and> distinct (map fst (bw_sent w))
     \<and> fst ` set (bw_tasks w) \<inter> fst ` set (bw_sent w) = {}
     \<and> fst ` set (bw_tasks w) \<union> fst ` set (bw_sent w) = {..<bw_next w}"

lemma world_inv_start: "world_inv (start_world s)"
  by (simp add: world_inv_def start_world_def)

lemma settle_inv:
  assumes "mkeys_distinct (bw_tasks w)" "distinct (map fst (bw_sent w))"
    and "fst ` set (bw_tasks w) \<inter> fst ` set (bw_sent w) = {}"
    and "n \<notin> fst ` set (bw_tasks w)" "n \<notin> fst ` set (bw_sent w)"
    and "insert n (fst ` set (bw_tasks w) \<union> fst ` set (bw_sent w)) = {..<bw_next w}"
  shows "world_inv (settle n x w)"
proof (cases "fst x")
  case (Respond r)
  with assms show ?thesis by (auto simp: world_inv_def)
next
  case (Await t)
  with assms show ?thesis by (auto simp: world_inv_def dom_update distinct_update)
qed

lemma keys_delete: "fst ` set (mdel k m) = fst ` set m - {k}"
  by (auto simp: AList.delete_eq)

lemma world_inv_step: "world_inv w \<Longrightarrow> world_inv (world_step N b a key e w)"
proof (cases e)
  case (Resumes se env n)
  assume i: "world_inv w"
  show ?thesis
  proof (cases "mget (bw_tasks w) n")
    case (Some t)
    then have n: "n \<in> fst ` set (bw_tasks w)" by (metis domI dom_map_of_conv_image_fst)
    have step: "world_step N b a key e w =
        settle n (resume N b a key se env t (bw_state w)) (w\<lparr> bw_tasks := mdel n (bw_tasks w) \<rparr>)"
      by (simp add: Resumes Some)
    from i n show ?thesis
      unfolding step by (intro settle_inv) (auto simp: world_inv_def keys_delete distinct_delete)
  qed (simp add: i Resumes)
next
  case (Arrives env rq)
  assume "world_inv w"
  then show ?thesis unfolding Arrives world_step.simps by (intro settle_inv) (auto simp: world_inv_def)
next
  case (AdminArrives rq)
  assume "world_inv w"
  then show ?thesis unfolding AdminArrives world_step.simps by (intro settle_inv) (auto simp: world_inv_def)
qed

lemma world_inv_run: "world_inv w \<Longrightarrow> world_inv (world_run N b a key es w)"
  by (induction es arbitrary: w) (simp_all add: world_inv_step)

text \<open>The resumptions a task still needs at most.\<close>

primrec task_rank :: "broker_task \<Rightarrow> nat" where
  "task_rank (PairBody rq) = 1"
| "task_rank (DeviceBody rq) = 4"
| "task_rank (NonceGrant p r) = 1"
| "task_rank (LeaseRedeem p nonce pf r) = 3"
| "task_rank (ClaimPublish bytes pem) = 3"
| "task_rank (MintRead k pem cfg secret) = 2"
| "task_rank (MintRefresh k pem cfg secret token) = 1"
| "task_rank (CallbackExchange cfg secret c got) = 2"
| "task_rank (CallbackSave i got) = 1"
| "task_rank (CallbackCheck got) = 1"
| "task_rank (IssueBody rq) = 1"
| "task_rank (RevokeBody rq) = 3"
| "task_rank (RevokePublish bytes) = 2"
| "task_rank RevokeClear = 1"

lemma task_rank_bounds: "0 < task_rank t" "task_rank t \<le> 4"
  by (cases t; simp)+

definition result_rank :: "step_result \<Rightarrow> nat" where
  "result_rank x = (case x of Respond r \<Rightarrow> 0 | Await t \<Rightarrow> task_rank t)"

lemma result_rank_simps [simp]: "result_rank (Respond r) = 0" "result_rank (Await t) = task_rank t"
  by (simp_all add: result_rank_def)

lemma result_rank_answered [simp]: "result_rank (fst (answered x)) = 0"
  by (simp add: answered_def)

lemma mint_begin_rank: "result_rank (mint_begin b k pem) \<le> 2"
  by (simp add: mint_begin_def split: option.split bool.split)

lemma callback_mark_rank [simp]: "result_rank (fst (callback_mark N env got kept s)) = 0"
  by (simp add: callback_mark_def split: prod.split)

lemma device_begin_rank: "result_rank (fst (device_begin N b key se env rq s)) \<le> 3"
  by (auto simp: device_begin_def claim_begin_def nonce_begin_def lease_begin_def
      split: option.split prod.split sum.split)

lemma clear_begin_rank: "result_rank (clear_begin a x) \<le> 1"
  by (simp add: clear_begin_def)

lemma admin_body_rank: "result_rank (fst (admin_body N a se rq s)) \<le> 2"
proof -
  have "result_rank (clear_begin a x) \<le> 2" for x using clear_begin_rank [of a x] by simp
  then show ?thesis
    by (simp add: admin_body_def revocation_begin_def split: option.split prod.split sum.split)
qed

lemma resume_rank: "result_rank (fst (resume N b a key se env t s)) < task_rank t"
proof (cases t)
  case (DeviceBody rq)
  with device_begin_rank [of N b key se env rq s] show ?thesis by simp
next
  case (RevokeBody rq)
  with admin_body_rank [of N a se rq s] show ?thesis by simp
next
  case (LeaseRedeem p nonce pf r)
  have "result_rank (mint_begin b k pem) < 3" for k pem using mint_begin_rank [of b k pem] by simp
  with LeaseRedeem show ?thesis by (simp add: lease_found_def split: prod.split sum.split)
next
  case (ClaimPublish bytes pem)
  have "result_rank (mint_begin b k pem) < 3" for k pem using mint_begin_rank [of b k pem] by simp
  with ClaimPublish show ?thesis by (simp add: claim_published_def split: prod.split sum.split)
next
  case (RevokePublish bytes)
  have "result_rank (clear_begin a True) < 2" using clear_begin_rank [of a True] by simp
  with RevokePublish show ?thesis by (simp split: prod.split sum.split)
qed (simp_all add: mint_stored_def callback_exchanged_def split: option.split prod.split sum.split)

text \<open>What a request still needs in the world; nothing when it has its answer.\<close>

definition remaining :: "broker_world \<Rightarrow> nat \<Rightarrow> nat" where
  "remaining w n = (case mget (bw_tasks w) n of None \<Rightarrow> 0 | Some t \<Rightarrow> task_rank t)"

lemma settle_remaining: "mget (bw_tasks w) n = None \<Longrightarrow>
    remaining (settle n x w) m = (if m = n then result_rank (fst x) else remaining w m)"
  by (cases "fst x") (auto simp: remaining_def)

primrec resumed :: "nat \<Rightarrow> world_event \<Rightarrow> bool" where
  "resumed n (Arrives env rq) = False"
| "resumed n (AdminArrives rq) = False"
| "resumed n (Resumes se env m) = (m = n)"

lemma no_task_yet: "world_inv w \<Longrightarrow> mget (bw_tasks w) (bw_next w) = None"
proof -
  assume "world_inv w"
  then have "bw_next w \<notin> fst ` set (bw_tasks w)" by (auto simp: world_inv_def)
  then show ?thesis by (simp add: map_of_eq_None_iff)
qed

lemma remaining_step:
  assumes "world_inv w" "n < bw_next w"
  shows "remaining (world_step N b a key e w) n \<le> remaining w n - (if resumed n e then 1 else 0)"
proof (cases e)
  case (Resumes se env m)
  show ?thesis
  proof (cases "mget (bw_tasks w) m")
    case (Some t)
    let ?w = "w\<lparr> bw_tasks := mdel m (bw_tasks w) \<rparr>"
    have w: "remaining (world_step N b a key e w) n =
        (if n = m then result_rank (fst (resume N b a key se env t (bw_state w))) else remaining ?w n)"
      by (simp add: Resumes Some settle_remaining)
    show ?thesis
      unfolding w using resume_rank [of N b a key se env t "bw_state w"]
      by (auto simp: Resumes Some remaining_def)
  qed (auto simp: Resumes remaining_def)
next
  case (Arrives env rq)
  with assms show ?thesis
    by (simp add: settle_remaining no_task_yet) (simp add: remaining_def)
next
  case (AdminArrives rq)
  with assms show ?thesis
    by (simp add: settle_remaining no_task_yet) (simp add: remaining_def)
qed

lemma next_grows: "bw_next w \<le> bw_next (world_step N b a key e w)"
  by (cases e) (simp_all split: option.split)

lemma next_run: "bw_next w \<le> bw_next (world_run N b a key es w)"
proof (induction es arbitrary: w)
  case (Cons e es)
  from order_trans [OF next_grows Cons.IH] show ?case by simp
qed simp

lemma remaining_run:
  assumes "world_inv w" "n < bw_next w"
  shows "remaining (world_run N b a key es w) n \<le> remaining w n - length (filter (resumed n) es)"
  using assms
proof (induction es arbitrary: w)
  case (Cons e es)
  have "remaining (world_run N b a key es (world_step N b a key e w)) n
      \<le> remaining (world_step N b a key e w) n - length (filter (resumed n) es)"
    using Cons.prems next_grows [of w N b a key e] by (intro Cons.IH world_inv_step) simp_all
  with remaining_step [OF Cons.prems, of N b a key e] show ?case by auto
qed simp

section \<open>What the tasks do to the stores\<close>

lemma answered_state [simp]: "snd (answered x) = snd x"
  by (simp add: answered_def)

lemma plain_begin_stores: "st_pairs (snd (plain_begin b env rq s)) = st_pairs s"
  "st_reg (snd (plain_begin b env rq s)) = st_reg s"
  by (simp_all add: plain_begin_def split: prod.split bool.split)

lemma callback_begin_run: "pairing_run N env (st_pairs s) (st_pairs (snd (callback_begin N b env ps s)))"
  by (auto simp: callback_begin_def dest: run_consume_state split: option.split prod.split bool.split)

lemma callback_begin_reg: "st_reg (snd (callback_begin N b env ps s)) = st_reg s"
  by (simp add: callback_begin_def split: option.split prod.split bool.split)

lemma arrive_run: "pairing_run N env (st_pairs s) (st_pairs (snd (arrive N b env rq s)))"
  using callback_begin_run [of N env s b]
  by (simp add: arrive_def plain_begin_stores pairing_run_refl split: option.split)

lemma arrive_reg: "st_reg (snd (arrive N b env rq s)) = st_reg s"
  by (simp add: arrive_def plain_begin_stores callback_begin_reg split: option.split)

lemma arrive_admin_state [simp]: "snd (arrive_admin N a rq s) = s"
  by (simp add: arrive_admin_def)

lemma pair_device_run: "pairing_run N env (st_pairs s) (st_pairs (snd (pair_device N b env body s)))"
  by (cases rule: pair_device_cases [of N b env body s]) (auto simp: run_create)

lemma pair_device_reg: "st_reg (snd (pair_device N b env body s)) = st_reg s"
  by (cases rule: pair_device_cases [of N b env body s]) auto

lemma callback_mark_run: "pairing_run N env (st_pairs s) (st_pairs (snd (callback_mark N env got kept s)))"
  by (auto simp: callback_mark_def dest: run_mark split: prod.split)

lemma callback_mark_reg: "st_reg (snd (callback_mark N env got kept s)) = st_reg s"
  by (simp add: callback_mark_def split: prod.split)

lemma grant_nonce_stores: "st_pairs (snd (grant_nonce N b rn t0 t1 p r s)) = st_pairs s"
  "st_reg (snd (grant_nonce N b rn t0 t1 p r s)) = st_reg s"
  by (simp_all add: grant_nonce_def Let_def)

lemma redeem_nonce_stores: "st_pairs (snd (redeem_nonce N t0 t1 p nonce pf r s)) = st_pairs s"
  "st_reg (snd (redeem_nonce N t0 t1 p nonce pf r s)) = st_reg s"
  by (cases rule: redeem_nonce_cases [of N t0 t1 p nonce pf r s]; auto)+

lemma lease_found_state: "snd (lease_found N b env p nonce pf r s) =
    snd (redeem_nonce N (clock env 0) (clock env 1) p nonce pf r s)"
  by (simp add: lease_found_def split: prod.split sum.split)

lemma admin_issue_stores: "st_pairs (snd (admin_issue N a env rq s)) = st_pairs s"
  "st_reg (snd (admin_issue N a env rq s)) = st_reg s"
  by (simp_all add: admin_issue_def split: option.split prod.split sum.split)

lemma publish_memory: "fst (snd (publish we bytes reg)) = fst reg"
  by (simp add: publish_def split: prod.split)

lemma record_memory: "fst (snd (record_begin N re we i reg)) = fst (live_enroll N (re, we) i reg)"
  by (simp add: record_begin_def live_enroll_def enc_record_def Let_def split: sum.split prod.split)

lemma revoke_memory: "fst (snd (revoke_begin N re we p reg)) = fst (live_withdraw N (re, we) p reg)"
  by (simp add: revoke_begin_def live_withdraw_def enc_revoke_def Let_def split: sum.split prod.split option.split)

text \<open>The lock-out speaks of the memory of the registry alone.\<close>

lemma locked_out_memory:
  "fst (st_reg s') = fst (st_reg s) \<Longrightarrow> st_pairs s' = st_pairs s \<Longrightarrow> locked_out N p s' = locked_out N p s"
  by (simp add: locked_out_def live_find_def live_ready_def)

lemma locked_out_moves:
  fixes env :: request_env
  assumes "locked_out N p s" "pairing_run N env (st_pairs s) (st_pairs s')"
    and "pairHash N p \<noteq> pairHash N (to_hex (draw env 0))"
    and "live_ready (st_reg s')" "\<And>d. live_find N p (st_reg s') = Some d \<Longrightarrow> dev_revoked d"
  shows "locked_out N p s'"
proof -
  from assms(1) have inv: "pairing_inv (st_pairs s)"
    and st: "\<forall>st. statusOf N p (st_pairs s) = Some st \<longrightarrow> st = Revoked"
    by (simp_all add: locked_out_def)
  show ?thesis
    using assms(4,5) run_pairing_inv [OF assms(2) inv] status_run_locked [OF assms(2) inv assms(3) st]
    by (auto simp: locked_out_def)
qed

lemma locked_out_same_memory:
  "locked_out N p s \<Longrightarrow> pairing_run N env (st_pairs s) (st_pairs s') \<Longrightarrow> fst (st_reg s') = fst (st_reg s) \<Longrightarrow>
     pairHash N p \<noteq> pairHash N (to_hex (draw env 0)) \<Longrightarrow> locked_out N p s'"
  by (rule locked_out_moves) (auto simp: locked_out_def live_find_def live_ready_def)

lemma live_memory:
  assumes "fst reg' = fst (reg :: enc_store \<times> files)"
  shows "live_find N p reg' = live_find N p reg" "live_ready reg' = live_ready reg"
  using assms by (simp_all add: live_find_def live_ready_def)

lemma claim_begin_locked:
  fixes env :: request_env
  assumes l: "locked_out N p s" and d: "pairHash N p \<noteq> pairHash N (to_hex (draw env 0))"
  shows "locked_out N p (snd (claim_begin N b se env q body s))"
proof (cases "bounded_string (field body ''proof'') 512")
  case (Some pf)
  obtain x pairs where o: "openClaim N q pf (clock env 0) (st_pairs s) = (x, pairs)" by fastforce
  note run = run_claim [OF o, of env]
  from l have ready: "live_ready (st_reg s)" and dev: "\<forall>d. live_find N p (st_reg s) = Some d \<longrightarrow> dev_revoked d"
    and st: "\<forall>st. statusOf N p (st_pairs s) = Some st \<longrightarrow> st = Revoked"
    by (simp_all add: locked_out_def)
  show ?thesis
  proof (cases x)
    case (Inl e)
    with o Some run show ?thesis
      by (intro locked_out_same_memory [OF l _ _ d]) (simp_all add: claim_begin_def)
  next
    case (Inr k)
    obtain sp ep where k: "k = (sp, ep)" by (cases k)
    let ?i = "enrollment_request b env q sp ep"
    obtain y reg where r: "record_begin N (se_read se) (se_write se) ?i (st_reg s) = (y, reg)" by (rule prod.exhaust)
    have mem: "fst reg = fst (live_enroll N (se_read se, se_write se) ?i (st_reg s))"
      using record_memory [of N "se_read se" "se_write se" ?i "st_reg s"] by (simp add: r)
    have "pairIdHash N p \<noteq> pairIdHash N (in_pairId ?i)"
    proof
      assume "pairIdHash N p = pairIdHash N (in_pairId ?i)"
      then have "fst (openClaim N q pf (clock env 0) (st_pairs s)) \<in> {Inl ClaimUnknown, Inl ClaimRevoked}"
        using st find_hash [of N p q] by (intro claim_locked) (simp add: enrollment_request_def)
      with o Inr show False by auto
    qed
    then have "dev_revoked d" if "live_find N p reg = Some d" for d
      using dev that live.find_enroll [OF ready, of N p "(se_read se, se_write se)" ?i]
      by (auto simp: live_memory(1) [OF mem] split: option.splits if_splits)
    moreover have "live_ready reg" by (simp add: live_memory(2) [OF mem] live.ready_enroll [OF ready])
    moreover have "st_reg (snd (claim_begin N b se env q body s)) = reg \<and> st_pairs (snd (claim_begin N b se env q body s)) = pairs"
      using o Some r by (simp add: claim_begin_def Inr k split: sum.split)
    ultimately show ?thesis using run by (intro locked_out_moves [OF l _ d]) auto
  qed
qed (simp add: claim_begin_def l)

lemma revocation_begin_locked:
  fixes env :: request_env
  assumes l: "locked_out N p s" and d: "pairHash N p \<noteq> pairHash N (to_hex (draw env 0))"
  shows "locked_out N p (snd (revocation_begin N a se q s))"
proof -
  obtain x pairs where r: "revoke N q (st_pairs s) = (x, pairs)" by fastforce
  note run = run_revoke [OF r, of env]
  from l have ready: "live_ready (st_reg s)" and dev: "\<forall>d. live_find N p (st_reg s) = Some d \<longrightarrow> dev_revoked d"
    by (simp_all add: locked_out_def)
  show ?thesis
  proof (cases "ad_hasRegistry a")
    case True
    obtain y reg where g: "revoke_begin N (se_read se) (se_write se) q (st_reg s) = (y, reg)" by (rule prod.exhaust)
    have mem: "fst reg = fst (live_withdraw N (se_read se, se_write se) q (st_reg s))"
      using revoke_memory [of N "se_read se" "se_write se" q "st_reg s"] by (simp add: g)
    have "dev_revoked d" if "live_find N p reg = Some d" for d
      using dev that live.find_withdraw [OF ready, of N p "(se_read se, se_write se)" q]
      by (auto simp: live_memory(1) [OF mem] split: if_splits)
    moreover have "live_ready reg" by (simp add: live_memory(2) [OF mem] live.ready_withdraw [OF ready])
    moreover have "st_reg (snd (revocation_begin N a se q s)) = reg \<and> st_pairs (snd (revocation_begin N a se q s)) = pairs"
      using True g by (simp add: revocation_begin_def r split: sum.split option.split)
    ultimately show ?thesis using run by (intro locked_out_moves [OF l _ d]) auto
  next
    case False
    with r run show ?thesis
      by (intro locked_out_same_memory [OF l _ _ d]) (simp_all add: revocation_begin_def)
  qed
qed

lemma find_begin_locked:
  assumes "locked_out N p s"
  shows "locked_out N p (snd (nonce_begin N key se q s))" "locked_out N p (snd (lease_begin N key se q body s))"
proof -
  from assms have ready: "live_ready (st_reg s)" by (simp add: locked_out_def)
  have "s\<lparr> st_reg := st_reg s \<rparr> = s" by simp
  then show "locked_out N p (snd (nonce_begin N key se q s))" "locked_out N p (snd (lease_begin N key se q body s))"
    using assms by (simp_all add: nonce_begin_def lease_begin_def find_loaded [OF ready] split: option.split)
qed

lemma device_begin_run:
  fixes env :: request_env
  shows "pairing_run N env (st_pairs s) (st_pairs (snd (device_begin N b key se env rq s)))"
  by (auto simp: device_begin_def claim_begin_def nonce_begin_def lease_begin_def dest: run_claim
      split: option.split prod.split sum.split)

lemma revocation_begin_run:
  fixes env :: request_env
  shows "pairing_run N env (st_pairs s) (st_pairs (snd (admin_body N a se rq s)))"
  by (auto simp: admin_body_def revocation_begin_def dest: run_revoke split: option.split prod.split sum.split)

lemma resume_run:
  fixes env :: request_env
  shows "pairing_run N env (st_pairs s) (st_pairs (snd (resume N b a key se env t s)))"
proof (cases t)
  case (CallbackSave i got)
  then show ?thesis
    using callback_mark_run [of N env "s\<lparr> st_tok := tok \<rparr>" for tok] by (simp add: case_prod_unfold)
qed (simp_all add: device_begin_run revocation_begin_run pair_device_run callback_mark_run grant_nonce_stores
    lease_found_state redeem_nonce_stores admin_issue_stores claim_published_def case_prod_unfold pairing_run_refl
    split: option.split sum.split)

lemma resume_memory:
  assumes "\<not> (\<exists>rq. t = DeviceBody rq \<or> t = RevokeBody rq)"
  shows "fst (st_reg (snd (resume N b a key se env t s))) = fst (st_reg s)"
  using assms
  by (cases t) (simp_all add: pair_device_reg callback_mark_reg grant_nonce_stores lease_found_state redeem_nonce_stores
      admin_issue_stores claim_published_def case_prod_unfold publish_memory split: option.split sum.split)

lemma resume_keeps_locked:
  fixes env :: request_env
  assumes l: "locked_out N p s" and d: "pairHash N p \<noteq> pairHash N (to_hex (draw env 0))"
  shows "locked_out N p (snd (resume N b a key se env t s))"
proof (cases "\<exists>rq. t = DeviceBody rq \<or> t = RevokeBody rq")
  case True
  then obtain rq where "t = DeviceBody rq \<or> t = RevokeBody rq" ..
  then show ?thesis
    using l by (auto simp: device_begin_def admin_body_def claim_begin_locked [OF l d] find_begin_locked [OF l]
        revocation_begin_locked [OF l d] split: option.split)
next
  case False
  then show ?thesis
    by (intro locked_out_same_memory [OF l resume_run _ d] resume_memory)
qed

text \<open>No resumption of the run draws an identifier with the given hash.\<close>

primrec draws_in :: "'x node_crypto_scheme \<Rightarrow> string \<Rightarrow> world_event \<Rightarrow> bool" where
  "draws_in N p (Arrives env rq) = (pairHash N (to_hex (draw env 0)) = pairHash N p)"
| "draws_in N p (AdminArrives rq) = False"
| "draws_in N p (Resumes se env n) = (pairHash N (to_hex (draw env 0)) = pairHash N p)"

lemma step_keeps_locked:
  assumes "locked_out N p (bw_state w)" "\<not> draws_in N p e"
  shows "locked_out N p (bw_state (world_step N b a key e w))"
proof (cases e)
  case (Arrives env rq)
  with assms show ?thesis
    by (auto intro: locked_out_same_memory [OF assms(1) arrive_run] simp: arrive_reg)
next
  case (Resumes se env n)
  with assms show ?thesis by (auto intro: resume_keeps_locked split: option.split)
qed (use assms in simp)

lemma run_keeps_locked:
  "locked_out N p (bw_state w) \<Longrightarrow> list_all (\<lambda>e. \<not> draws_in N p e) es \<Longrightarrow>
     locked_out N p (bw_state (world_run N b a key es w))"
  by (induction es arbitrary: w) (simp_all add: step_keeps_locked)

lemma revocation_begin_locks:
  assumes "pairing_inv (st_pairs s)" "live_ready (st_reg s)" "ad_hasRegistry a"
  shows "locked_out N p (snd (revocation_begin N a se p s))"
proof -
  obtain x pairs where r: "revoke N p (st_pairs s) = (x, pairs)" by fastforce
  obtain y reg where g: "revoke_begin N (se_read se) (se_write se) p (st_reg s) = (y, reg)" by (rule prod.exhaust)
  have mem: "fst reg = fst (live_withdraw N (se_read se, se_write se) p (st_reg s))"
    using revoke_memory [of N "se_read se" "se_write se" p "st_reg s"] by (simp add: g)
  have "st_reg (snd (revocation_begin N a se p s)) = reg \<and> st_pairs (snd (revocation_begin N a se p s)) = pairs"
    using assms(3) g by (simp add: revocation_begin_def r split: sum.split option.split)
  moreover have "pairing_inv pairs" using pairing_step_inv [OF assms(1), of N "PairRevoke p"] by (simp add: r)
  moreover have "st' = Revoked" if "statusOf N p pairs = Some st'" for st'
    using revoke_status [of N p "st_pairs s" st'] that by (simp add: r)
  ultimately show ?thesis
    using withdraw_locks [OF assms(2), of N p] live.ready_withdraw [OF assms(2)]
    by (auto simp: locked_out_def live_memory [OF mem])
qed

lemma resume_state_inv:
  fixes env :: request_env
  assumes "pairing_inv (st_pairs s)" "live_ready (st_reg s)"
  shows "pairing_inv (st_pairs (snd (resume N b a key se env t s))) \<and> live_ready (st_reg (snd (resume N b a key se env t s)))"
proof
  show "pairing_inv (st_pairs (snd (resume N b a key se env t s)))" by (rule run_pairing_inv [OF resume_run assms(1)])
  have enrolled: "live_ready (snd (record_begin N re we i (st_reg s)))" for re we i
    by (simp add: live_memory(2) [OF record_memory] live.ready_enroll [OF assms(2)])
  have revoked: "live_ready (snd (revoke_begin N re we p (st_reg s)))" for re we p
    by (simp add: live_memory(2) [OF revoke_memory] live.ready_withdraw [OF assms(2)])
  show "live_ready (st_reg (snd (resume N b a key se env t s)))"
  proof (cases "\<exists>rq. t = DeviceBody rq \<or> t = RevokeBody rq")
    case True
    then show ?thesis
      using enrolled revoked assms(2)
      by (auto simp: device_begin_def claim_begin_def nonce_begin_def lease_begin_def admin_body_def revocation_begin_def
          find_loaded [OF assms(2)] case_prod_unfold split: option.split sum.split)
  next
    case False
    have "fst (st_reg (snd (resume N b a key se env t s))) = fst (st_reg s)" by (rule resume_memory [OF False])
    from live_memory(2) [OF this] assms(2) show ?thesis by simp
  qed
qed

lemma run_state_inv:
  "pairing_inv (st_pairs (bw_state w)) \<Longrightarrow> live_ready (st_reg (bw_state w)) \<Longrightarrow>
     pairing_inv (st_pairs (bw_state (world_run N b a key es w))) \<and> live_ready (st_reg (bw_state (world_run N b a key es w)))"
proof (induction es arbitrary: w)
  case (Cons e es)
  have "pairing_inv (st_pairs (bw_state (world_step N b a key e w))) \<and> live_ready (st_reg (bw_state (world_step N b a key e w)))"
    using Cons.prems
    by (cases e) (auto simp: resume_state_inv arrive_reg intro: run_pairing_inv [OF arrive_run] split: option.split)
  with Cons.IH show ?case by simp
qed simp

text \<open>The tasks of a device's request that cannot succeed once the device is locked out.\<close>

primrec doomed :: "string \<Rightarrow> broker_task \<Rightarrow> bool" where
  "doomed p (PairBody rq) = False"
| "doomed p (DeviceBody rq) = (\<exists>body. jsonBody rq = Some body \<and> field body ''pairId'' = Str p)"
| "doomed p (NonceGrant q r) = (\<forall>d. r = Some d \<longrightarrow> dev_revoked d)"
| "doomed p (LeaseRedeem q nonce pf r) = (\<forall>d. r = Some d \<longrightarrow> dev_revoked d)"
| "doomed p (ClaimPublish bytes pem) = False"
| "doomed p (MintRead k pem cfg secret) = False"
| "doomed p (MintRefresh k pem cfg secret token) = False"
| "doomed p (CallbackExchange cfg secret c got) = False"
| "doomed p (CallbackSave i got) = False"
| "doomed p (CallbackCheck got) = False"
| "doomed p (IssueBody rq) = False"
| "doomed p (RevokeBody rq) = False"
| "doomed p (RevokePublish bytes) = False"
| "doomed p RevokeClear = False"

definition refusal :: "string \<Rightarrow> step_result \<Rightarrow> bool" where
  "refusal p x = (case x of Respond r \<Rightarrow> 400 \<le> rs_status r | Await t \<Rightarrow> doomed p t)"

lemma refusal_simps [simp]: "refusal p (Respond r) = (400 \<le> rs_status r)" "refusal p (Await t) = doomed p t"
  by (simp_all add: refusal_def)

lemma claim_error_refusal: "400 \<le> rs_status (claim_error e)"
proof -
  obtain c x where "claim_error e = sendError c x" "400 \<le> c" using claim_error_cases by blast
  then show ?thesis by simp
qed

lemma lease_error_refusal: "400 \<le> rs_status (lease_error e)"
  by (cases e) (simp_all add: lease_error_def)

lemma claim_begin_refused:
  assumes "locked_out N p s"
  shows "refusal p (fst (claim_begin N b se env p body s))"
proof -
  have "fst (openClaim N p pf t (st_pairs s)) \<in> {Inl ClaimUnknown, Inl ClaimRevoked}" for pf t
    using assms by (intro claim_locked) (simp add: locked_out_def)
  then have "fst (openClaim N p pf t (st_pairs s)) \<noteq> Inr k" for pf t k by (metis insertE singletonD sum.distinct(1))
  then show ?thesis
    by (auto simp: claim_begin_def case_prod_unfold claim_error_refusal split: option.split sum.split)
qed

lemma device_begin_refused:
  assumes l: "locked_out N p s" and rq: "jsonBody rq = Some body" "field body ''pairId'' = Str p"
  shows "refusal p (fst (device_begin N b key se env rq s))"
proof -
  from l have ready: "live_ready (st_reg s)" and dev: "\<forall>d. live_find N p (st_reg s) = Some d \<longrightarrow> dev_revoked d"
    by (simp_all add: locked_out_def)
  have "refusal p (fst (nonce_begin N key se p s))" "refusal p (fst (lease_begin N key se p bd s))" for bd
    using dev by (simp_all add: nonce_begin_def lease_begin_def find_loaded [OF ready] lease_error_refusal split: option.split)
  then show ?thesis
    using rq claim_begin_refused [OF l] by (simp add: device_begin_def bounded_string_def)
qed

lemma doomed_resume:
  assumes "locked_out N p s" "doomed p t"
  shows "refusal p (fst (resume N b a key se env t s))"
proof (cases t)
  case (DeviceBody rq)
  with assms device_begin_refused show ?thesis by auto
next
  case (NonceGrant q r)
  with assms(2) show ?thesis
    by (cases r) (auto simp: case_prod_unfold grant_nonce_def nonce_answer_def)
next
  case (LeaseRedeem q nonce pf r)
  with assms(2) show ?thesis
    by (cases r) (auto simp: lease_found_def redeem_nonce_def lease_error_refusal)
qed (use assms(2) in simp_all)

definition refused_in :: "string \<Rightarrow> nat \<Rightarrow> broker_world \<Rightarrow> bool" where
  "refused_in p n w \<longleftrightarrow> (\<forall>t. mget (bw_tasks w) n = Some t \<longrightarrow> doomed p t)
     \<and> (\<forall>r. (n, r) \<in> set (bw_sent w) \<longrightarrow> 400 \<le> rs_status r)"

lemma settle_refused: "refused_in p n w \<Longrightarrow> (m = n \<Longrightarrow> refusal p (fst x)) \<Longrightarrow> refused_in p n (settle m x w)"
  by (cases "fst x") (auto simp: refused_in_def)

lemma step_refused:
  assumes "world_inv w" "n < bw_next w" "locked_out N p (bw_state w)" "refused_in p n w"
  shows "refused_in p n (world_step N b a key e w)"
proof (cases e)
  case (Resumes se env m)
  show ?thesis
  proof (cases "mget (bw_tasks w) m")
    case (Some t)
    have "refused_in p n (w\<lparr> bw_tasks := mdel m (bw_tasks w) \<rparr>)" using assms(4) by (auto simp: refused_in_def)
    moreover have "refusal p (fst (resume N b a key se env t (bw_state w)))" if "m = n"
      using assms(3,4) Some that by (intro doomed_resume) (auto simp: refused_in_def)
    ultimately show ?thesis by (simp add: Resumes Some settle_refused)
  qed (simp add: assms Resumes)
next
  case (Arrives env rq)
  have "refused_in p n (w\<lparr> bw_next := Suc (bw_next w) \<rparr>)" using assms(4) by (simp add: refused_in_def)
  then show ?thesis using assms(2) by (simp add: Arrives settle_refused)
next
  case (AdminArrives rq)
  have "refused_in p n (w\<lparr> bw_next := Suc (bw_next w) \<rparr>)" using assms(4) by (simp add: refused_in_def)
  then show ?thesis using assms(2) by (simp add: AdminArrives settle_refused)
qed

lemma run_refused:
  "world_inv w \<Longrightarrow> n < bw_next w \<Longrightarrow> locked_out N p (bw_state w) \<Longrightarrow> refused_in p n w \<Longrightarrow>
     list_all (\<lambda>e. \<not> draws_in N p e) es \<Longrightarrow> refused_in p n (world_run N b a key es w)"
proof (induction es arbitrary: w)
  case (Cons e es)
  from Cons.prems have "refused_in p n (world_run N b a key es (world_step N b a key e w))"
    by (intro Cons.IH) (auto simp: world_inv_step step_keeps_locked step_refused intro: less_le_trans [OF _ next_grows])
  then show ?case by simp
qed simp

section \<open>Properties\<close>

text \<open>
  No request is lost and none is answered twice.  In every interleaving each request that arrived
  is either in flight or answered, never both, the answers carry distinct requests, and a request
  whose awaited operations have completed four times has its answer.
\<close>
theorem every_request_answered_once:
  assumes "w = world_run N b a key es (start_world s)"
  shows "distinct (map fst (bw_sent w)) \<and> fst ` set (bw_tasks w) \<inter> fst ` set (bw_sent w) = {}
    \<and> fst ` set (bw_tasks w) \<union> fst ` set (bw_sent w) = {..<bw_next w}
    \<and> (\<forall>n es'. n < bw_next w \<longrightarrow> 4 \<le> length (filter (resumed n) es') \<longrightarrow>
        n \<in> fst ` set (bw_sent (world_run N b a key es' w)))"
proof -
  have inv: "world_inv w" by (simp add: assms world_inv_run world_inv_start)
  have "n \<in> fst ` set (bw_sent (world_run N b a key es' w))"
    if n: "n < bw_next w" "4 \<le> length (filter (resumed n) es')" for n es'
  proof -
    let ?w = "world_run N b a key es' w"
    have "remaining w n \<le> 4" using task_rank_bounds(2) by (simp add: remaining_def split: option.split)
    then have "remaining ?w n = 0" using remaining_run [OF inv n(1), of N b a key es'] n(2) by simp
    then have "mget (bw_tasks ?w) n = None"
      by (auto simp: remaining_def less_not_refl2 [OF task_rank_bounds(1)] split: option.splits)
    then have "n \<notin> fst ` set (bw_tasks ?w)" by (simp add: map_of_eq_None_iff)
    moreover have "world_inv ?w" by (rule world_inv_run [OF inv])
    moreover have "n < bw_next ?w" using n(1) next_run [of w N b a key es'] by simp
    ultimately show ?thesis by (auto simp: world_inv_def)
  qed
  with inv show ?thesis by (simp add: world_inv_def)
qed

lemma ex_ready: "leaseEndpointReady ex_broker"
  by (simp add: leaseEndpointReady_def ex_broker_def usable_secret_def)

lemma ex_arrives: "arrive N ex_broker env (post_json ''/oauth/nonce'' kvs) s = (Await (DeviceBody (post_json ''/oauth/nonce'' kvs)), s)"
  by (simp add: arrive_def plain_begin_def ex_ready)

theorem every_request_answered_once_witness:
  "\<forall>key env se. \<exists>r. (0, r) \<in> set (bw_sent (world_run toy_lease ex_broker ex_admin key (replicate 4 (Resumes se env 0))
     (world_run toy_lease ex_broker ex_admin key [Arrives env (post_json ''/oauth/nonce'' [(''pairId'', Str ''p'')])]
       (start_world ex_broker_state))))"
proof (intro allI)
  fix key se and env :: request_env
  let ?es = "[Arrives env (post_json ''/oauth/nonce'' [(''pairId'', Str ''p'')])]"
  let ?es' = "replicate 4 (Resumes se env 0)"
  let ?w = "world_run toy_lease ex_broker ex_admin key ?es (start_world ex_broker_state)"
  have "0 < bw_next ?w" "4 \<le> length (filter (resumed 0) ?es')" by (simp_all add: start_world_def)
  with every_request_answered_once [where w = ?w and es = ?es, OF refl]
  have "0 \<in> fst ` set (bw_sent (world_run toy_lease ex_broker ex_admin key ?es' ?w))" by blast
  then show "\<exists>r. (0, r) \<in> set (bw_sent (world_run toy_lease ex_broker ex_admin key ?es' ?w))" by force
qed

text \<open>
  C3: an operator's revocation holds against everything that is in flight.  From the moment the
  revocation of a pairing has read its body, every claim, nonce and lease request of that device whose
  own body is read later is refused, whatever other tasks of both servers run in between or are still
  pending, whatever the file system does, and before the revocation is written or answered.
\<close>
theorem revocation_locks_out_interleaved:
  assumes "pairing_inv (st_pairs s)" "live_ready (st_reg s)" "ad_hasRegistry a"
    and "w = world_run N b a key es0 (start_world s)" "mget (bw_tasks w) k = Some (RevokeBody rq)"
    and "jsonBody rq = Some body" "field body ''pairId'' = Str p" "length p \<le> 256"
    and "w' = world_run N b a key (Resumes se env k # es1) w" "list_all (\<lambda>e. \<not> draws_in N p e) (es1 @ es2)"
    and "mget (bw_tasks w') n = Some (DeviceBody rq')" "jsonBody rq' = Some body'" "field body' ''pairId'' = Str p"
    and "(n, r) \<in> set (bw_sent (world_run N b a key es2 w'))"
  shows "400 \<le> rs_status r"
proof -
  have inv: "world_inv w" by (simp add: assms(4) world_inv_run world_inv_start)
  have "pairing_inv (st_pairs (bw_state w)) \<and> live_ready (st_reg (bw_state w))"
    unfolding assms(4) by (rule run_state_inv) (simp_all add: start_world_def assms(1,2))
  then have "locked_out N p (bw_state (world_step N b a key (Resumes se env k) w))"
    using assms(5-8) by (simp add: admin_body_def bounded_string_def revocation_begin_locks [OF _ _ assms(3)])
  then have l: "locked_out N p (bw_state w')"
    using assms(10) by (simp add: assms(9) run_keeps_locked)
  have inv': "world_inv w'" unfolding assms(9) by (rule world_inv_run [OF inv])
  then have n: "n < bw_next w'" "n \<notin> fst ` set (bw_sent w')"
    using assms(11) by (auto simp: world_inv_def dest!: map_of_SomeD) force+
  then have "refused_in p n w'" using assms(11-13) by (force simp: refused_in_def)
  then have "refused_in p n (world_run N b a key es2 w')"
    using run_refused [OF inv' n(1) l] assms(10) by simp
  with assms(14) show ?thesis by (simp add: refused_in_def)
qed

lemma ex_arrives_admin: "arrive_admin N ex_admin (post_json ''/admin/revoke'' kvs) s = (Await (RevokeBody (post_json ''/admin/revoke'' kvs)), s)"
  by (simp add: arrive_admin_def ex_admin_token)

lemma ex_same_hash: "pairIdHash toy_lease p = pairIdHash toy_cipher p"
  by (simp add: pairIdHash_def sha256_hex_def toy_lease_simps)

text \<open>A revocation and a nonce request of the device are both waiting for their bodies.\<close>

definition ex_race :: "bytes \<Rightarrow> request_env \<Rightarrow> broker_world" where
  "ex_race key env = world_run toy_lease ex_broker ex_admin key
     [AdminArrives (post_json ''/admin/revoke'' [(''pairId'', Str ''p'')]),
      Arrives env (post_json ''/oauth/nonce'' [(''pairId'', Str ''p'')])] (start_world ex_broker_state)"

lemma ex_race_tasks: "bw_tasks (ex_race key env) = [(0, RevokeBody (post_json ''/admin/revoke'' [(''pairId'', Str ''p'')])),
    (1, DeviceBody (post_json ''/oauth/nonce'' [(''pairId'', Str ''p'')]))]"
  "bw_state (ex_race key env) = ex_broker_state" "bw_sent (ex_race key env) = []"
  by (simp_all add: ex_race_def start_world_def ex_arrives ex_arrives_admin)

lemma ex_race_answered: "\<exists>r. (1, r) \<in> set (bw_sent (world_run toy_lease ex_broker ex_admin key [Resumes se ex_env 1, Resumes se ex_env 1]
       (world_run toy_lease ex_broker ex_admin key [Resumes se ex_env 0] (ex_race key ex_env))))"
proof -
  have rec: "mget (enc_records ex_enrolled_store) (pairIdHash toy_lease ''p'') = Some ex_device"
    by (simp add: ex_same_hash ex_enrolled_get)
  have st: "st_reg ex_broker_state = (ex_enrolled_store, Map.empty)" "revoke toy_lease ''p'' (st_pairs ex_broker_state) =
      (False, st_pairs ex_broker_state)" "statusOf toy_lease ''p'' (st_pairs ex_broker_state) = None"
    "enc_load ex_enrolled_store = Loaded" "ad_hasRegistry ex_admin"
    by (simp_all add: ex_broker_state_def revoke_def statusOf_def ex_enrolled_store_def ex_admin_def)
  show ?thesis
    by (simp add: ex_race_tasks post_pair_body admin_body_def bounded_string_def field_Cons revocation_begin_def st
        revoke_begin_def ensure_loaded_def rec Let_def device_begin_def nonce_begin_def find_loaded live_ready_def live_find_def
        case_prod_unfold del: One_nat_def)
qed

theorem revocation_locks_out_interleaved_witness:
  "\<forall>key se. \<exists>r. (1, r) \<in> set (bw_sent (world_run toy_lease ex_broker ex_admin key [Resumes se ex_env 1, Resumes se ex_env 1]
       (world_run toy_lease ex_broker ex_admin key [Resumes se ex_env 0] (ex_race key ex_env)))) \<and> 400 \<le> rs_status r"
proof (intro allI)
  fix key se
  let ?w = "ex_race key ex_env"
  let ?w' = "world_run toy_lease ex_broker ex_admin key [Resumes se ex_env 0] ?w"
  let ?post = "post_json ''/oauth/nonce'' [(''pairId'', Str ''p'')]"
  obtain r where r: "(1, r) \<in> set (bw_sent (world_run toy_lease ex_broker ex_admin key [Resumes se ex_env 1, Resumes se ex_env 1] ?w'))"
    using ex_race_answered by blast
  have body: "jsonBody (post_json url [(''pairId'', Str ''p'')]) = Some [(''pairId'', Str ''p'')]"
    "field [(''pairId'', Str ''p'')] ''pairId'' = Str ''p''" for url
    by (simp_all add: post_pair_body field_Cons)
  have tasks: "mget (bw_tasks ?w) 0 = Some (RevokeBody (post_json ''/admin/revoke'' [(''pairId'', Str ''p'')]))"
    "mget (bw_tasks ?w') 1 = Some (DeviceBody ?post)"
    by (simp_all add: ex_race_tasks split: step_result.split)
  have fixed: "ad_hasRegistry ex_admin" "length ''p'' \<le> 256"
    "list_all (\<lambda>e. \<not> draws_in toy_lease ''p'' e) ([] @ [Resumes se ex_env 1, Resumes se ex_env 1])"
    using ex_draw by (simp_all add: ex_admin_def eq_commute)
  have "400 \<le> rs_status r"
    by (rule revocation_locks_out_interleaved [OF ex_broker_inv fixed(1) ex_race_def tasks(1) body fixed(2) _ fixed(3) tasks(2) body r])
      simp
  with r show "\<exists>r. (1, r) \<in> set (bw_sent (world_run toy_lease ex_broker ex_admin key
      [Resumes se ex_env 1, Resumes se ex_env 1] ?w')) \<and> 400 \<le> rs_status r" by blast
qed

end
