(* ===== verification/BrokerRaces.thy ===== *)
theory BrokerRaces
  imports BrokerRuns
begin

text \<open>
  What pending tasks of the broker can still do when other tasks ran meanwhile: the authorization of a
  pairing under interleaving, and the two things an operator's revocation does not reach, a lease whose
  refresh token was read before and a grant that arrives after.
\<close>

section \<open>Authorization\<close>

text \<open>
  Where the exchange of a callback comes from: a request for the callback path that arrived as number
  \<open>n\<close>, with the code of its query, for the pairing its state was consumed for.
\<close>

definition callback_of :: "'x lease_crypto_scheme \<Rightarrow> broker \<Rightarrow> request_env \<Rightarrow> http_request \<Rightarrow> deployed \<Rightarrow>
    broker_config \<Rightarrow> string \<Rightarrow> string \<Rightarrow> consumed_state \<Rightarrow> bool" where
  "callback_of N b env rq s cfg secret authCode got \<longleftrightarrow> (\<exists>path query. rq_method rq = ''GET''
     \<and> request_url env (rq_url rq) = Some (path, query) \<and> path \<in> set CALLBACK_PATHS
     \<and> bk_config b = Some cfg \<and> usable_secret b = Some secret
     \<and> authCode = param (form_parse query) ''code'' \<and> authCode \<noteq> []
     \<and> fst (consumeOAuthState N (draw env 0) (param (form_parse query) ''state'') (clock env 0) (st_pairs s)) = Some got)"

definition asked_by :: "'x lease_crypto_scheme \<Rightarrow> broker \<Rightarrow> admin \<Rightarrow> bytes \<Rightarrow> deployed \<Rightarrow> world_event list \<Rightarrow> nat \<Rightarrow>
    broker_config \<Rightarrow> string \<Rightarrow> string \<Rightarrow> consumed_state \<Rightarrow> bool" where
  "asked_by N b a key s es n cfg secret authCode got \<longleftrightarrow> (\<exists>xs env rq ys. es = xs @ Arrives env rq # ys
     \<and> bw_next (world_run N b a key xs (start_world s)) = n
     \<and> callback_of N b env rq (bw_state (world_run N b a key xs (start_world s))) cfg secret authCode got)"

text \<open>
  The exchange of that request was answered when task \<open>n\<close> was resumed: \<open>google env\<close> is the endpoint of that
  resumption, asked with the request's code and the consumed verifier, and the tokens it gave carry
  exactly the configured scope.
\<close>

definition answered_exchange :: "'x lease_crypto_scheme \<Rightarrow> broker \<Rightarrow> admin \<Rightarrow> bytes \<Rightarrow> deployed \<Rightarrow> world_event list \<Rightarrow>
    nat \<Rightarrow> consumed_state \<Rightarrow> string option \<Rightarrow> bool" where
  "answered_exchange N b a key s es n got rt \<longleftrightarrow> (\<exists>xs se env ys cfg secret authCode status body tokens.
     es = xs @ Resumes se env n # ys \<and> asked_by N b a key s xs n cfg secret authCode got
     \<and> google env (token_request (exchange_params cfg authCode (consumed_verifier got) secret)) = Some (status, body)
     \<and> parseTokenResponse status body = Inr tokens
     \<and> set (scope_words (granted_scope tokens)) = {googleDriveScope cfg} \<and> refreshToken tokens = rt)"

lemma asked_by_later: "asked_by N b a key s es n cfg secret c got \<Longrightarrow> asked_by N b a key s (es @ es') n cfg secret c got"
  unfolding asked_by_def by (metis append.assoc append_Cons)

lemma answered_later: "answered_exchange N b a key s es n got rt \<Longrightarrow> answered_exchange N b a key s (es @ es') n got rt"
  unfolding answered_exchange_def by (metis append.assoc append_Cons)

text \<open>What the tasks of a callback carry.\<close>

primrec callback_granted :: "(broker_config \<Rightarrow> string \<Rightarrow> string \<Rightarrow> consumed_state \<Rightarrow> bool) \<Rightarrow>
    (consumed_state \<Rightarrow> string option \<Rightarrow> bool) \<Rightarrow> broker_task \<Rightarrow> bool" where
  "callback_granted ask ans (PairBody rq) = True"
| "callback_granted ask ans (DeviceBody rq) = True"
| "callback_granted ask ans (NonceGrant q r) = True"
| "callback_granted ask ans (LeaseRedeem q nonce pf r) = True"
| "callback_granted ask ans (ClaimPublish bytes pem) = True"
| "callback_granted ask ans (MintRead k pem cfg secret) = True"
| "callback_granted ask ans (MintRefresh k pem cfg secret token) = True"
| "callback_granted ask ans (CallbackExchange cfg secret c got) = ask cfg secret c got"
| "callback_granted ask ans (CallbackSave i got) = ans got (Some (in_refreshToken i))"
| "callback_granted ask ans (CallbackCheck got) = ans got None"
| "callback_granted ask ans (IssueBody rq) = True"
| "callback_granted ask ans (RevokeBody rq) = True"
| "callback_granted ask ans (RevokePublish bytes) = True"
| "callback_granted ask ans RevokeClear = True"

definition result_granted :: "(broker_config \<Rightarrow> string \<Rightarrow> string \<Rightarrow> consumed_state \<Rightarrow> bool) \<Rightarrow>
    (consumed_state \<Rightarrow> string option \<Rightarrow> bool) \<Rightarrow> step_result \<Rightarrow> bool" where
  "result_granted ask ans x = (case x of Respond r \<Rightarrow> True | Await t \<Rightarrow> callback_granted ask ans t)"

lemma result_granted_simps [simp]: "result_granted ask ans (Respond r)"
  "result_granted ask ans (Await t) = callback_granted ask ans t"
  by (simp_all add: result_granted_def)

lemma plain_begin_granted: "result_granted ask ans (fst (plain_begin c env rq s))"
  by (simp add: plain_begin_def case_prod_unfold split: bool.split)

lemma callback_begin_awaits:
  assumes "fst (callback_begin N b env ps s) = Await t"
  obtains cfg secret got where "t = CallbackExchange cfg secret (param ps ''code'') got" "bk_config b = Some cfg"
    "usable_secret b = Some secret" "param ps ''code'' \<noteq> []"
    "fst (consumeOAuthState N (draw env 0) (param ps ''state'') (clock env 0) (st_pairs s)) = Some got"
  using assms that by (auto simp: callback_begin_def case_prod_unfold split: if_splits option.splits bool.splits)

lemma arrive_granted:
  assumes "\<And>cfg secret c got. callback_of N b env rq s cfg secret c got \<Longrightarrow> ask cfg secret c got"
  shows "result_granted ask ans (fst (arrive N b env rq s))"
proof -
  have "result_granted ask ans (fst (callback_begin N b env (form_parse query) s))"
    if "rq_method rq = ''GET''" "request_url env (rq_url rq) = Some (path, query)" "path \<in> set CALLBACK_PATHS" for path query
  proof (cases "fst (callback_begin N b env (form_parse query) s)")
    case (Await t)
    obtain cfg secret got where t: "t = CallbackExchange cfg secret (param (form_parse query) ''code'') got" "bk_config b = Some cfg"
      "usable_secret b = Some secret" "param (form_parse query) ''code'' \<noteq> []"
      "fst (consumeOAuthState N (draw env 0) (param (form_parse query) ''state'') (clock env 0) (st_pairs s)) = Some got"
      by (rule callback_begin_awaits [OF Await])
    then have "callback_of N b env rq s cfg secret (param (form_parse query) ''code'') got"
      using that unfolding callback_of_def by blast
    with assms t(1) Await show ?thesis by simp
  qed simp
  then show ?thesis by (auto simp: arrive_def plain_begin_granted split: option.split)
qed

lemma arrive_admin_granted: "result_granted ask ans (fst (arrive_admin N a rq s))"
  by (simp add: arrive_admin_def)

lemma mint_begin_granted: "result_granted ask ans (mint_begin c k pem)"
  by (simp add: mint_begin_def split: option.split bool.split)

lemma validated_scope:
  assumes "validateGrantedScope g required [required] = Inr scope"
  shows "set (scope_words g) = {required}"
  using granted_scope_checked [of g required "[required]"] assms by auto

lemma exchanged_granted:
  assumes "\<And>status body tokens. google env (token_request (exchange_params cfg c (consumed_verifier got) secret)) = Some (status, body)
      \<Longrightarrow> parseTokenResponse status body = Inr tokens \<Longrightarrow> set (scope_words (granted_scope tokens)) = {googleDriveScope cfg}
      \<Longrightarrow> ans got (refreshToken tokens)"
  shows "result_granted ask ans (callback_exchanged env cfg secret c got)"
proof -
  have "ans got (refreshToken tokens)"
    if "exchangeAuthorizationCode cfg c (consumed_verifier got) secret (google env) = Inr tokens"
      "validateGrantedScope (granted_scope tokens) (googleDriveScope cfg) [googleDriveScope cfg] = Inr scope" for tokens scope
    using that(1) assms validated_scope [OF that(2)]
    by (auto simp: exchangeAuthorizationCode_def split: option.splits prod.splits)
  then show ?thesis by (fastforce simp: callback_exchanged_def split: option.split sum.split)
qed

lemma claim_begin_granted: "result_granted ask ans (fst (claim_begin N c se env p body s))"
  by (simp add: claim_begin_def case_prod_unfold split: option.split sum.split)

lemma find_begin_granted: "result_granted ask ans (fst (nonce_begin N key se p s))"
  "result_granted ask ans (fst (lease_begin N key se p body s))"
  by (simp_all add: nonce_begin_def lease_begin_def case_prod_unfold split: option.split sum.split)

lemma device_begin_granted: "result_granted ask ans (fst (device_begin N c key se env rq s))"
  by (simp add: device_begin_def claim_begin_granted find_begin_granted split: option.split)

lemma clear_begin_granted: "result_granted ask ans (clear_begin a x)"
  by (simp add: clear_begin_def)

lemma revocation_begin_granted: "result_granted ask ans (fst (revocation_begin N a se p s))"
  by (simp add: revocation_begin_def case_prod_unfold clear_begin_granted split: option.split sum.split)

lemma callback_mark_granted: "result_granted ask ans (fst (callback_mark N env got kept s))"
  by (simp add: callback_mark_def case_prod_unfold)

lemma resume_granted:
  assumes "\<And>cfg secret c got. t = CallbackExchange cfg secret c got \<Longrightarrow>
      result_granted ask ans (callback_exchanged env cfg secret c got)"
  shows "result_granted ask ans (fst (resume N b a key se env t s))"
  by (cases t) (simp_all add: answered_def device_begin_granted lease_found_def claim_published_def mint_stored_def
      callback_mark_granted admin_body_def revocation_begin_granted clear_begin_granted case_prod_unfold
      mint_begin_granted assms split: option.split sum.split)

text \<open>Along a run, every callback task goes back to the request that started it.\<close>

definition world_granted :: "'x lease_crypto_scheme \<Rightarrow> broker \<Rightarrow> admin \<Rightarrow> bytes \<Rightarrow> deployed \<Rightarrow> world_event list \<Rightarrow>
    broker_world \<Rightarrow> bool" where
  "world_granted N b a key s es w \<longleftrightarrow> (\<forall>n t. mget (bw_tasks w) n = Some t \<longrightarrow>
     callback_granted (asked_by N b a key s es n) (answered_exchange N b a key s es n) t)"

lemma granted_later: "callback_granted (asked_by N b a key s es n) (answered_exchange N b a key s es n) t \<Longrightarrow>
    callback_granted (asked_by N b a key s (es @ es') n) (answered_exchange N b a key s (es @ es') n) t"
  by (cases t) (simp_all add: asked_by_later answered_later)

lemma settle_granted:
  assumes "\<And>m t. mget (bw_tasks w) m = Some t \<Longrightarrow> callback_granted (asked_by N b a key s es m) (answered_exchange N b a key s es m) t"
    and "result_granted (asked_by N b a key s es n) (answered_exchange N b a key s es n) (fst x)"
  shows "world_granted N b a key s es (settle n x w)"
  using assms by (cases "fst x") (auto simp: world_granted_def)

lemma step_granted:
  assumes g: "world_granted N b a key s es w" and w: "w = world_run N b a key es (start_world s)"
  shows "world_granted N b a key s (es @ [e]) (world_step N b a key e w)"
proof -
  have old: "callback_granted (asked_by N b a key s (es @ [e]) m) (answered_exchange N b a key s (es @ [e]) m) t"
    if "mget (bw_tasks w) m = Some t" for m t
    using g that by (intro granted_later) (simp add: world_granted_def)
  show ?thesis
  proof (cases e)
    case (Arrives env rq)
    have "asked_by N b a key s (es @ [e]) (bw_next w) cfg secret c got"
      if "callback_of N b env rq (bw_state w) cfg secret c got" for cfg secret c got
      unfolding asked_by_def Arrives using that w by (intro exI [of _ es] exI [of _ env] exI [of _ rq] exI [of _ "[]"]) simp
    then show ?thesis unfolding Arrives world_step.simps using old Arrives
      by (intro settle_granted arrive_granted) simp_all
  next
    case (AdminArrives rq)
    show ?thesis unfolding AdminArrives world_step.simps using old AdminArrives
      by (intro settle_granted arrive_admin_granted) simp
  next
    case (Resumes se env n)
    show ?thesis
    proof (cases "mget (bw_tasks w) n")
      case None
      with old show ?thesis by (simp add: Resumes world_granted_def)
    next
      case (Some t)
      have "result_granted (asked_by N b a key s (es @ [e]) n) (answered_exchange N b a key s (es @ [e]) n)
          (callback_exchanged env cfg secret c got)" if "t = CallbackExchange cfg secret c got" for cfg secret c got
      proof (rule exchanged_granted)
        have "callback_granted (asked_by N b a key s es n) (answered_exchange N b a key s es n) t"
          using g Some unfolding world_granted_def by blast
        with that have asked: "asked_by N b a key s es n cfg secret c got" by simp
        show "answered_exchange N b a key s (es @ [e]) n got (refreshToken tokens)"
          if "google env (token_request (exchange_params cfg c (consumed_verifier got) secret)) = Some (status, body)"
            "parseTokenResponse status body = Inr tokens" "set (scope_words (granted_scope tokens)) = {googleDriveScope cfg}"
          for status body tokens
          unfolding answered_exchange_def Resumes using that asked by blast
      qed
      then show ?thesis unfolding Resumes world_step.simps Some option.case using old Resumes
        by (intro settle_granted resume_granted) (auto split: if_splits)
    qed
  qed
qed

lemma run_granted: "world_granted N b a key s es (world_run N b a key es (start_world s))"
proof (induction es rule: rev_induct)
  case Nil
  show ?case by (simp add: world_granted_def start_world_def)
next
  case (snoc e es)
  from step_granted [OF snoc.IH refl] show ?case by simp
qed

text \<open>Which resumptions make a pairing authorized.\<close>

lemma mark_authorizes:
  fixes env :: request_env
  assumes "pairing_inv (st_pairs s)" "statusOf N p (st_pairs (snd (callback_mark N env got kept s))) = Some Authorized"
    and "statusOf N p (st_pairs s) \<noteq> Some Authorized"
  shows "kept \<and> fst (callback_mark N env got kept s) = Respond (callback_page True)"
proof -
  obtain m pairs where mk: "markAuthorized N (consumed_handle got) (clock env 2) (st_pairs s) = (m, pairs)" by fastforce
  show ?thesis
    using assms mark_refused_status [OF assms(1), of N "consumed_handle got" "clock env 2" pairs p Authorized] mk
    by (cases m) (auto simp: callback_mark_def split: if_splits)
qed

lemma revoke_keeps_unauthorized:
  "statusOf N p (snd (revoke N q pairs)) = Some Authorized \<Longrightarrow> statusOf N p pairs = Some Authorized"
  by (cases rule: revoke_cases [of pairs N q]) (auto simp: statusOf_def split: if_splits)

lemma admin_body_unauthorized:
  assumes "statusOf N p (st_pairs (snd (admin_body N a se rq s))) = Some Authorized"
  shows "statusOf N p (st_pairs s) = Some Authorized"
proof -
  have "st_pairs (snd (revocation_begin N a se q s)) = snd (revoke N q (st_pairs s))" for q
    by (simp add: revocation_begin_def case_prod_unfold split: sum.split option.split)
  with assms show ?thesis
    by (auto simp: admin_body_def dest: revoke_keeps_unauthorized split: option.splits)
qed

lemma pair_device_unauthorized:
  fixes env :: request_env
  assumes "pairing_inv (st_pairs s)" "pairHash N p \<noteq> pairHash N (to_hex (draw env 0))"
    and "statusOf N p (st_pairs (snd (pair_device N b env body s))) = Some st"
  shows "statusOf N p (st_pairs s) = Some st"
  using assms(3) create_for_status [OF assms(1,2)]
  by (cases rule: pair_device_cases [of N b env body s]) auto

lemma device_begin_unauthorized:
  fixes env :: request_env
  assumes "pairing_inv (st_pairs s)" "statusOf N p (st_pairs (snd (device_begin N b key se env rq s))) = Some Authorized"
  shows "statusOf N p (st_pairs s) = Some Authorized"
  using assms(2) claim_status [OF assms(1), of N p]
  by (auto simp: device_begin_def claim_begin_def nonce_begin_def lease_begin_def case_prod_unfold
      split: option.splits sum.splits if_splits)

lemma resume_authorizes:
  fixes env :: request_env
  assumes inv: "pairing_inv (st_pairs s)" and d: "pairHash N p \<noteq> pairHash N (to_hex (draw env 0))"
    and new: "statusOf N p (st_pairs (snd (resume N b a key se env t s))) = Some Authorized"
      "statusOf N p (st_pairs s) \<noteq> Some Authorized"
  shows "fst (resume N b a key se env t s) = Respond (callback_page True)
    \<and> ((\<exists>i got. t = CallbackSave i got \<and> is_ok (fst (replace_token N key (se_tokenWrite se) i (st_tok s))))
      \<or> (\<exists>got k. t = CallbackCheck got \<and> read_token N key (se_tokenRead se) (st_tok s) = Inr (Some k)))"
proof (cases t)
  case (CallbackSave i got)
  then show ?thesis
    using mark_authorizes [of "s\<lparr> st_tok := tok \<rparr>" N p env got kept for tok kept] inv new
    by (auto simp: case_prod_unfold encrypted_providers_def)
next
  case (CallbackCheck got)
  then show ?thesis
    using mark_authorizes [OF inv _ new(2)] new(1)
    by (auto simp: encrypted_providers_def split: sum.splits option.splits)
next
  case (PairBody rq)
  with new pair_device_unauthorized [OF inv d] show ?thesis by (auto split: option.splits)
next
  case (DeviceBody rq)
  with new device_begin_unauthorized [OF inv, of N p b key se env rq] show ?thesis by auto
next
  case (RevokeBody rq)
  with new admin_body_unauthorized [of N p a se rq s] show ?thesis by auto
qed (use new in \<open>simp_all add: grant_nonce_stores lease_found_state redeem_nonce_stores admin_issue_stores
    claim_published_def case_prod_unfold split: option.splits sum.splits\<close>)

lemma arrive_unauthorized:
  fixes env :: request_env
  assumes "pairing_inv (st_pairs s)" "statusOf N p (st_pairs (snd (arrive N b env rq s))) = Some Authorized"
  shows "statusOf N p (st_pairs s) = Some Authorized"
proof -
  have "statusOf N p (st_pairs s) = Some Authorized"
    if "statusOf N p (st_pairs (snd (callback_begin N b env ps s))) = Some Authorized" for ps
  proof -
    have "st_pairs (snd (callback_begin N b env ps s)) \<in> {st_pairs s, snd (consumeOAuthState N (draw env 0)
        (param ps ''state'') (clock env 0) (st_pairs s))}"
      by (simp add: callback_begin_def case_prod_unfold split: option.split bool.split)
    with that consume_state_status [OF assms(1) prod.collapse [symmetric], of N p] show ?thesis by auto
  qed
  with assms(2) show ?thesis
    by (auto simp: arrive_def plain_begin_stores split: option.splits if_splits)
qed

section \<open>What a revocation does not reach\<close>

text \<open>A task waits untouched until its own resumption.\<close>

lemma task_waits:
  "world_inv w \<Longrightarrow> n < bw_next w \<Longrightarrow> list_all (\<lambda>e. \<not> resumed n e) es \<Longrightarrow>
     mget (bw_tasks (world_run N b a key es w)) n = mget (bw_tasks w) n"
proof (induction es arbitrary: w)
  case (Cons e es)
  have "mget (bw_tasks (world_step N b a key e w)) n = mget (bw_tasks w) n"
    using Cons.prems by (cases e) (auto split: option.split step_result.split)
  moreover have "mget (bw_tasks (world_run N b a key es (world_step N b a key e w))) n =
      mget (bw_tasks (world_step N b a key e w)) n"
    using Cons.prems next_grows [of w N b a key e] by (intro Cons.IH world_inv_step) auto
  ultimately show ?case by simp
qed simp

text \<open>A callback whose handle belongs to a revoked pairing cannot be marked.\<close>

lemma mark_of_revoked:
  assumes inv: "pairing_inv pairs" and h: "mget (pair_handles pairs) (stateHash N handle) = Some (pairHash N p)"
    and r: "revoke N p pairs = (x, pairs')"
  shows "fst (markAuthorized N handle t pairs') = False"
proof (cases rule: mark_cases [of N handle t pairs'])
  case (ok key rec)
  have inv': "pairing_inv pairs'" using pairing_step_inv [OF inv, of N "PairRevoke p"] r by simp
  note evict = pruned_evict_expired [of t pairs']
  have "thinned (pair_handles (evict_expired t pairs')) (pair_handles pairs')" using evict by (simp add: pruned_def)
  then have "mget (pair_handles pairs') (stateHash N handle) = Some key"
    using thinned_get [OF _ pairing_inv_distinct(3) [OF inv'] ok(1)] by simp
  moreover have "thinned (pair_handles pairs') (pair_handles pairs)"
    using r by (cases rule: revoke_cases [of pairs N p]) (auto simp: pruned_def)
  ultimately have "key = pairHash N p"
    using thinned_get [OF _ pairing_inv_distinct(3) [OF inv], of "pair_handles pairs'" "stateHash N handle" key] h by simp
  then have "statusOf N p (evict_expired t pairs') = Some CallbackStateConsumed" using ok(3,4) by (simp add: statusOf_def)
  then have "statusOf N p pairs' = Some CallbackStateConsumed" by (rule status_pruned [OF evict inv'])
  with revoke_status [of N p pairs] r show ?thesis by auto
qed simp

lemma revoked_true:
  assumes "fst (revoke_everywhere N a P p s) = sendJson 200 (Obj [(''revoked'', Bool True)])"
  obtains x pairs where "revoke N p (st_pairs s) = (x, pairs)" "st_pairs (snd (revoke_everywhere N a P p s)) = pairs"
    "ad_hasTokens a \<Longrightarrow> fst (tok_clear P (st_tok s)) = Inr () \<and> st_tok (snd (revoke_everywhere N a P p s)) = snd (tok_clear P (st_tok s))"
proof -
  obtain x pairs where r: "revoke N p (st_pairs s) = (x, pairs)" by fastforce
  have "st_pairs (snd (revoke_everywhere N a P p s)) = pairs"
    by (simp add: revoke_everywhere_def r case_prod_unfold Let_def split: sum.split)
  moreover have "fst (tok_clear P (st_tok s)) = Inr () \<and> st_tok (snd (revoke_everywhere N a P p s)) = snd (tok_clear P (st_tok s))"
    if "ad_hasTokens a"
    using assms that
    by (auto simp: revoke_everywhere_def r case_prod_unfold Let_def sendError_def sendJson_def split: sum.splits if_splits)
  ultimately show thesis using r that by blast
qed

section \<open>Properties\<close>

text \<open>
  C8: authorization under interleaving.  Whatever runs concurrently, the only step that makes a pairing
  authorized is the end of a callback task.  Earlier in the run that task's own request asked for the
  callback path with a code and a state that was consumed for it, and at a resumption of that task
  Google answered the exchange of this code, with the verifier the state was consumed for, by a grant
  of exactly the configured scope; the refresh token of this answer was written by the last step, or it
  had none and one was readable then, and the success page is what the step sends.
\<close>
theorem authorization_needs_grant_interleaved:
  assumes "pairing_inv (st_pairs s)" "live_ready (st_reg s)" "w = world_run N b a key es (start_world s)"
    and "\<not> draws_in N p e" "statusOf N p (st_pairs (bw_state (world_step N b a key e w))) = Some Authorized"
    and "statusOf N p (st_pairs (bw_state w)) \<noteq> Some Authorized"
  shows "\<exists>se env n got rt. e = Resumes se env n \<and> bw_sent (world_step N b a key e w) = bw_sent w @ [(n, callback_page True)]
    \<and> answered_exchange N b a key s es n got rt
    \<and> ((\<exists>i. mget (bw_tasks w) n = Some (CallbackSave i got) \<and> rt = Some (in_refreshToken i)
          \<and> is_ok (fst (replace_token N key (se_tokenWrite se) i (st_tok (bw_state w)))))
      \<or> (\<exists>k. mget (bw_tasks w) n = Some (CallbackCheck got) \<and> rt = None
          \<and> read_token N key (se_tokenRead se) (st_tok (bw_state w)) = Inr (Some k)))"
proof -
  have inv: "pairing_inv (st_pairs (bw_state w))"
    using run_state_inv [of "start_world s" N b a key es] assms(1-3) by (simp add: start_world_def)
  have granted: "callback_granted (asked_by N b a key s es n) (answered_exchange N b a key s es n) t"
    if "mget (bw_tasks w) n = Some t" for n t
    using run_granted [of N b a key s es] that by (simp add: assms(3) world_granted_def)
  show ?thesis
  proof (cases e)
    case (Arrives env rq)
    with assms(4-6) arrive_unauthorized [OF inv, of N p b env rq] show ?thesis by simp
  next
    case (AdminArrives rq)
    with assms(5,6) show ?thesis by simp
  next
    case (Resumes se env n)
    obtain t where t: "mget (bw_tasks w) n = Some t" using assms(5,6) Resumes by (cases "mget (bw_tasks w) n") auto
    have d: "pairHash N p \<noteq> pairHash N (to_hex (draw env 0))" using assms(4) Resumes by auto
    have new: "statusOf N p (st_pairs (snd (resume N b a key se env t (bw_state w)))) = Some Authorized"
      using assms(5) by (simp add: Resumes t)
    from resume_authorizes [OF inv d new assms(6)] granted [OF t] t show ?thesis
      by (auto simp: Resumes)
  qed
qed

text \<open>
  C35: a lease that is being minted survives a revocation.  Once a lease request has read the refresh
  token, nothing is asked again: an operator's revocation that starts and even ends while Google's
  answer is awaited locks the device out of every later request, and this request is still answered
  with a fresh lease.
\<close>
theorem pending_lease_survives_revocation:
  assumes "world_inv w" "pairing_inv (st_pairs (bw_state w))" "live_ready (st_reg (bw_state w))" "ad_hasRegistry a"
    and "mget (bw_tasks w) k = Some (RevokeBody rq)" "jsonBody rq = Some body" "field body ''pairId'' = Str p" "length p \<le> 256"
    and "mget (bw_tasks w) n = Some (MintRefresh c pem cfg secret token)"
    and "w' = world_run N b a key (Resumes se env k # es) w" "list_all (\<lambda>e. \<not> draws_in N p e \<and> \<not> resumed n e) es"
    and "mint_finish N b env' c pem cfg secret token = Inr (Some m)"
  shows "locked_out N p (bw_state w') \<and> bw_sent (world_step N b a key (Resumes se' env' n) w') =
    bw_sent w' @ [(n, send_minted (Inr (Some m)))]"
proof
  have kn: "k \<noteq> n" using assms(5,9) by auto
  have "locked_out N p (bw_state (world_step N b a key (Resumes se env k) w))"
    using assms(5-8) by (simp add: admin_body_def bounded_string_def revocation_begin_locks [OF assms(2-4)])
  then show "locked_out N p (bw_state w')"
    using run_keeps_locked [of N p _ es b a key] assms(11) by (simp add: assms(10) list_all_iff)
  have "n < bw_next w" using assms(1,9) by (auto simp: world_inv_def dest!: map_of_SomeD) force
  then have "mget (bw_tasks w') n = mget (bw_tasks w) n"
    unfolding assms(10) by (intro task_waits assms(1)) (use assms(11) kn in \<open>auto simp: list_all_iff\<close>)
  then show "bw_sent (world_step N b a key (Resumes se' env' n) w') = bw_sent w' @ [(n, send_minted (Inr (Some m)))]"
    by (simp add: assms(9,12))
qed

text \<open>
  C34: a grant that arrives after a revocation restores the refresh token.  The revocation of a pairing
  whose callback is under way is answered as done and clears the stored token; the callback then stores
  the token Google sent before it finds that its pairing is revoked: its page says failure, but the
  broker again holds a refresh token, the one the late callback stored.
\<close>
theorem late_callback_restores_token:
  assumes "gcm_inverts N" "pairing_inv (st_pairs s)" "ad_hasTokens a"
    and "mget (pair_handles (st_pairs s)) (stateHash N (consumed_handle got)) = Some (pairHash N p)"
    and "revoke_everywhere N a (encrypted_providers N key se) p s = (sendJson 200 (Obj [(''revoked'', Bool True)]), s1)"
    and "length (write_nonce (se_tokenWrite se')) = NONCE_BYTES" "token_bounded i" "readable re"
    and "replace_token N key (se_tokenWrite se') i (st_tok s1) = (Inr (), tok)"
  shows "read_token N key re (st_tok s1) = Inr None \<and> (\<exists>s2 k. resume N b a key se' env (CallbackSave i got) s1 =
      (Respond (callback_page False), s2) \<and> read_token N key re (st_tok s2) = Inr (Some k)
      \<and> tok_refreshToken k = in_refreshToken i)"
proof
  have ok: "fst (revoke_everywhere N a (encrypted_providers N key se) p s) = sendJson 200 (Obj [(''revoked'', Bool True)])"
    by (simp add: assms(5))
  have clear: "tok_clear (encrypted_providers N key se) = clear_token (se_clearWorks se)"
    by (simp add: encrypted_providers_def)
  obtain x pairs where r: "revoke N p (st_pairs s) = (x, pairs)" "st_pairs s1 = pairs"
    "fst (clear_token (se_clearWorks se) (st_tok s)) = Inr ()" "st_tok s1 = snd (clear_token (se_clearWorks se) (st_tok s))"
    by (rule revoked_true [OF ok]) (use assms(3,5) clear in simp)
  then have "st_tok s1 RecordFile = None" by (auto simp: clear_token_def split: if_splits)
  then show "read_token N key re (st_tok s1) = Inr None"
    using assms(8) by (simp add: read_token_def read_record_file_def readable_def)
  have "fst (markAuthorized N (consumed_handle got) (clock env 2) pairs) = False"
    by (rule mark_of_revoked [OF assms(2,4) r(1)])
  then have "resume N b a key se' env (CallbackSave i got) s1 = (Respond (callback_page False),
      s1\<lparr> st_tok := tok, st_pairs := snd (markAuthorized N (consumed_handle got) (clock env 2) pairs) \<rparr>)"
    by (simp add: encrypted_providers_def assms(9) callback_mark_def r(2) case_prod_unfold)
  moreover obtain t where "read_token N key re tok = Inr (Some \<lparr> tok_refreshToken = in_refreshToken i,
      tok_scope = in_scope i, tok_obtainedAtMs = t \<rparr>)"
    using token_roundtrip [OF assms(1,6,7,8,9)] by blast
  ultimately show "\<exists>s2 k. resume N b a key se' env (CallbackSave i got) s1 =
      (Respond (callback_page False), s2) \<and> read_token N key re (st_tok s2) = Inr (Some k)
      \<and> tok_refreshToken k = in_refreshToken i" by fastforce
qed

section \<open>Concrete runs\<close>

lemma ex_gcm [simp]: "gcm_inverts toy_lease"
  using toy_gcm_inverts by (simp add: gcm_inverts_def toy_lease_simps)

definition ex_store_env :: store_env where
  "ex_store_env = \<lparr> se_read = ex_read_env, se_write = ex_write_env, se_tokenRead = ex_read_env,
     se_tokenWrite = ex_write_env, se_clearWorks = True \<rparr>"

definition ex_token_files :: files where
  "ex_token_files = snd (replace_token toy_lease [] ex_write_env ex_token_input Map.empty)"

lemma ex_token_read: "\<exists>k. read_token toy_lease [] ex_read_env ex_token_files = Inr (Some k) \<and> tok_refreshToken k = ''r''"
proof -
  have "replace_token toy_lease [] ex_write_env ex_token_input Map.empty = (Inr (), ex_token_files)"
    using ex_replace by (metis ex_token_files_def prod.collapse)
  from token_roundtrip [OF ex_gcm _ _ ex_readable this] ex_token_fits show ?thesis
    by (auto simp: token_fits_def ex_token_input_def)
qed

text \<open>A pairing whose callback is on its way, with a stored token.\<close>

definition ex_callback_state :: deployed where
  "ex_callback_state = ex_broker_state\<lparr> st_pairs := st_pairs ex_pending_state, st_tok := ex_token_files \<rparr>"

lemma ex_callback_arrives: "arrive toy_lease ex_broker ex_env ex_callback ex_callback_state =
    (Await (CallbackExchange ex_config ''s'' ''c'' \<lparr> consumed_handle = encode (draw ex_env 0),
       consumed_verifier = pkceVerifier ex_pending, consumed_expiresAtMs = pair_expiresAtMs ex_pending \<rparr>),
     ex_callback_state\<lparr> st_pairs := ex_consumed_pairs \<rparr>)"
proof -
  let ?ps = "[(''state'', ''st''), (''code'', ''c'')]"
  have p: "param ?ps ''state'' = ''st''" "param ?ps ''code'' = ''c''" "''error'' \<notin> fst ` set ?ps"
    by (simp_all add: param_def)
  have b: "bk_config ex_broker = Some ex_config" "usable_secret ex_broker = Some ''s''" "bk_hasTokens ex_broker = True"
    by (simp_all add: ex_broker_def usable_secret_def)
  have c: "st_pairs ex_callback_state = st_pairs ex_pending_state" by (simp add: ex_callback_state_def)
  have u: "request_url ex_env = (\<lambda>_. Some (''/oauth/google/callback'', ''state=st&code=c''))" by (simp add: ex_env_def)
  have "arrive toy_lease ex_broker ex_env ex_callback ex_callback_state = callback_begin toy_lease ex_broker ex_env ?ps ex_callback_state"
    by (simp add: arrive_def ex_callback_def u b CALLBACK_PATHS_def ex_query)
  also have "\<dots> = (Await (CallbackExchange ex_config ''s'' ''c'' \<lparr> consumed_handle = encode (draw ex_env 0),
       consumed_verifier = pkceVerifier ex_pending, consumed_expiresAtMs = pair_expiresAtMs ex_pending \<rparr>),
     ex_callback_state\<lparr> st_pairs := ex_consumed_pairs \<rparr>)"
    by (simp only: callback_begin_def p b c ex_consume if_False option.case prod.case bool.case) simp
  finally show ?thesis .
qed

definition ex_authorizing :: "store_env \<Rightarrow> broker_world" where
  "ex_authorizing se = world_run toy_lease ex_broker ex_admin [] [Arrives ex_env ex_callback, Resumes se ex_env 0]
     (start_world ex_callback_state)"

lemma ex_authorizing: "bw_tasks (ex_authorizing se) = [(0, CallbackCheck \<lparr> consumed_handle = encode (draw ex_env 0),
       consumed_verifier = pkceVerifier ex_pending, consumed_expiresAtMs = pair_expiresAtMs ex_pending \<rparr>)]"
  "bw_state (ex_authorizing se) = ex_callback_state\<lparr> st_pairs := ex_consumed_pairs \<rparr>" "bw_sent (ex_authorizing se) = []"
proof -
  have scope: "googleDriveScope ex_config = GOOGLE_DRIVE_READONLY_SCOPE" by (simp add: ex_config_def)
  have x: "callback_exchanged ex_env ex_config ''s'' c got = Await (CallbackCheck got)" for c got
    by (simp add: callback_exchanged_def ex_exchange scope ex_scope)
  show "bw_tasks (ex_authorizing se) = [(0, CallbackCheck \<lparr> consumed_handle = encode (draw ex_env 0),
       consumed_verifier = pkceVerifier ex_pending, consumed_expiresAtMs = pair_expiresAtMs ex_pending \<rparr>)]"
    "bw_state (ex_authorizing se) = ex_callback_state\<lparr> st_pairs := ex_consumed_pairs \<rparr>" "bw_sent (ex_authorizing se) = []"
    by (simp_all add: ex_authorizing_def start_world_def ex_callback_arrives x)
qed

theorem authorization_needs_grant_interleaved_witness:
  "\<exists>got. answered_exchange toy_lease ex_broker ex_admin [] ex_callback_state
       [Arrives ex_env ex_callback, Resumes ex_store_env ex_env 0] 0 got None
     \<and> bw_sent (world_step toy_lease ex_broker ex_admin [] (Resumes ex_store_env ex_env 0) (ex_authorizing ex_store_env))
       = [(0, callback_page True)]"
proof -
  let ?got = "\<lparr> consumed_handle = encode (draw ex_env 0), consumed_verifier = pkceVerifier ex_pending,
    consumed_expiresAtMs = pair_expiresAtMs ex_pending \<rparr>"
  let ?w = "ex_authorizing ex_store_env"
  let ?e = "Resumes ex_store_env ex_env 0"
  obtain k where k: "read_token toy_lease [] ex_read_env ex_token_files = Inr (Some k)" using ex_token_read by blast
  obtain pairs where m: "markAuthorized toy_lease (encode (draw ex_env 0)) (clock ex_env 2) ex_consumed_pairs = (True, pairs)"
    "statusOf toy_lease ''p'' pairs = Some Authorized" using ex_mark by blast
  have tok: "st_tok ex_callback_state = ex_token_files" "se_tokenRead ex_store_env = ex_read_env"
    by (simp_all add: ex_callback_state_def ex_store_env_def)
  have new: "statusOf toy_lease ''p'' (st_pairs (bw_state (world_step toy_lease ex_broker ex_admin [] ?e ?w))) = Some Authorized"
    by (simp add: ex_authorizing tok_read_encrypted tok k callback_mark_def m)
  have old: "statusOf toy_lease ''p'' (st_pairs (bw_state ?w)) \<noteq> Some Authorized"
    by (simp add: ex_authorizing ex_consumed_pairs_def statusOf_def)
  have start: "pairing_inv (st_pairs ex_callback_state)" "live_ready (st_reg ex_callback_state)"
    using ex_pending_inv ex_broker_inv(2) by (simp_all add: ex_callback_state_def)
  have "\<not> draws_in toy_lease ''p'' ?e" using ex_draw by (simp add: eq_commute)
  from authorization_needs_grant_interleaved [OF start ex_authorizing_def this new old] show ?thesis
    by (auto simp: ex_authorizing)
qed

text \<open>A lease whose refresh token was read, and a revocation of the device.\<close>

definition ex_minting :: broker_world where
  "ex_minting = \<lparr> bw_state = ex_broker_state, bw_tasks = [(0, MintRefresh 2 ''PUBLIC KEY'' ex_config ''s'' ''r''),
     (1, RevokeBody (post_json ''/admin/revoke'' [(''pairId'', Str ''p'')]))], bw_next = 2, bw_sent = [] \<rparr>"

lemma ex_registry: "mget (enc_records ex_enrolled_store) (pairIdHash toy_lease ''p'') = Some ex_device"
  "st_reg ex_broker_state = (ex_enrolled_store, Map.empty)" "enc_load ex_enrolled_store = Loaded"
  by (simp add: ex_same_hash ex_enrolled_get) (simp_all add: ex_broker_state_def ex_enrolled_store_def)

lemma ex_publish: "fst (publish (se_write ex_store_env) bytes (es, Map.empty)) = Inr ()"
  by (simp add: publish_def ex_store_env_def ex_write_ok case_prod_unfold)

lemma ex_revoked_world: "bw_sent (world_run toy_lease ex_broker ex_admin [] [Resumes ex_store_env ex_env 1, Resumes ex_store_env ex_env 1, Resumes ex_store_env ex_env 1] ex_minting) =
    [(1, sendJson 200 (Obj [(''revoked'', Bool True)]))]"
proof -
  have st: "revoke toy_lease ''p'' (st_pairs ex_broker_state) = (False, st_pairs ex_broker_state)"
    "ad_hasRegistry ex_admin" "ad_hasTokens ex_admin" "se_clearWorks ex_store_env"
    by (simp_all add: ex_broker_state_def revoke_def ex_admin_def ex_store_env_def)
  have clear: "tok_clear (encrypted_providers N key ex_store_env) fs = (Inr (), fs(RecordFile := None))" for N :: lease_crypto and key fs
    by (simp add: encrypted_providers_def clear_token_def st)
  show ?thesis
    by (simp add: ex_minting_def post_pair_body admin_body_def bounded_string_def field_Cons revocation_begin_def st clear
        revoke_begin_def ensure_loaded_def ex_registry Let_def ex_publish clear_begin_def case_prod_unfold del: One_nat_def)
qed

lemma ex_minted: "\<exists>m. mint_finish toy_lease ex_broker ex_lease_env 2 ''PUBLIC KEY'' ex_config ''s'' ''r'' = Inr (Some m)"
proof -
  have "tok_read (memory_providers toy_lease) (st_tok ex_lease_state) =
      Inr (Some \<lparr> tok_refreshToken = ''r'', tok_scope = ''s'', tok_obtainedAtMs = 1 \<rparr>)"
    by (simp add: memory_providers_def ex_lease_state_def ex_pending_state_def)
  from mint_finish_minted [OF _ _ _ this, of ex_broker ex_config "''s''" toy_lease ex_lease_env 2 "''PUBLIC KEY''"] ex_lease_mint [of 2]
  show ?thesis by (simp add: ex_broker_def usable_secret_def)
qed

theorem pending_lease_survives_revocation_witness:
  "\<exists>m. bw_sent (world_step toy_lease ex_broker ex_admin [] (Resumes ex_store_env ex_lease_env 0)
       (world_run toy_lease ex_broker ex_admin [] [Resumes ex_store_env ex_env 1, Resumes ex_store_env ex_env 1, Resumes ex_store_env ex_env 1] ex_minting)) =
     [(1, sendJson 200 (Obj [(''revoked'', Bool True)])), (0, send_minted (Inr (Some m)))]"
proof -
  let ?R = "Resumes ex_store_env ex_env 1"
  obtain m where m: "mint_finish toy_lease ex_broker ex_lease_env 2 ''PUBLIC KEY'' ex_config ''s'' ''r'' = Inr (Some m)"
    using ex_minted by blast
  have w: "world_inv ex_minting" "bw_state ex_minting = ex_broker_state"
    "mget (bw_tasks ex_minting) 1 = Some (RevokeBody (post_json ''/admin/revoke'' [(''pairId'', Str ''p'')]))"
    "mget (bw_tasks ex_minting) 0 = Some (MintRefresh 2 ''PUBLIC KEY'' ex_config ''s'' ''r'')" "ad_hasRegistry ex_admin"
    by (auto simp: world_inv_def ex_minting_def ex_admin_def)
  have es: "list_all (\<lambda>e. \<not> draws_in toy_lease ''p'' e \<and> \<not> resumed 0 e) [?R, ?R]"
    using ex_draw by (simp add: eq_commute)
  have f: "field [(''pairId'', Str ''p'')] ''pairId'' = Str ''p''" "length ''p'' \<le> 256" by (simp_all add: field_Cons)
  have inv: "pairing_inv (st_pairs (bw_state ex_minting))" "live_ready (st_reg (bw_state ex_minting))"
    using ex_broker_inv by (simp_all add: w(2))
  have "bw_sent (world_step toy_lease ex_broker ex_admin [] (Resumes ex_store_env ex_lease_env 0)
      (world_run toy_lease ex_broker ex_admin [] [?R, ?R, ?R] ex_minting)) =
    bw_sent (world_run toy_lease ex_broker ex_admin [] [?R, ?R, ?R] ex_minting) @ [(0, send_minted (Inr (Some m)))]"
    using pending_lease_survives_revocation [OF w(1) inv w(5,3) post_pair_body f w(4) refl es m] by blast
  then show ?thesis
    unfolding ex_revoked_world append.simps by blast
qed

theorem late_callback_restores_token_witness:
  "\<exists>s1 s2 k. revoke_everywhere toy_lease ex_admin (encrypted_providers toy_lease [] ex_store_env) ''p''
       (ex_callback_state\<lparr> st_pairs := ex_consumed_pairs, st_tok := Map.empty \<rparr>) = (sendJson 200 (Obj [(''revoked'', Bool True)]), s1)
     \<and> read_token toy_lease [] ex_read_env (st_tok s1) = Inr None
     \<and> resume toy_lease ex_broker ex_admin [] ex_store_env ex_env (CallbackSave ex_token_input \<lparr> consumed_handle = encode (draw ex_env 0),
         consumed_verifier = pkceVerifier ex_pending, consumed_expiresAtMs = pair_expiresAtMs ex_pending \<rparr>) s1 =
       (Respond (callback_page False), s2)
     \<and> read_token toy_lease [] ex_read_env (st_tok s2) = Inr (Some k) \<and> tok_refreshToken k = ''r''"
proof -
  let ?got = "\<lparr> consumed_handle = encode (draw ex_env 0), consumed_verifier = pkceVerifier ex_pending,
    consumed_expiresAtMs = pair_expiresAtMs ex_pending \<rparr>"
  let ?s = "ex_callback_state\<lparr> st_pairs := ex_consumed_pairs, st_tok := Map.empty \<rparr>"
  have rev: "fst (revoke toy_lease ''p'' ex_consumed_pairs)" "ad_hasRegistry ex_admin" "ad_hasTokens ex_admin"
    by (simp_all add: revoke_def ex_consumed_pairs_def Let_def ex_admin_def)
  have inv: "pairing_inv (st_pairs ?s)"
    using pairing_step_inv [OF ex_pending_inv, of toy_lease "PairConsumeState (draw ex_env 0) ''st'' (clock ex_env 0)"]
    by (simp add: ex_consume)
  have tok: "tok_clear (encrypted_providers toy_lease [] ex_store_env) fs = (Inr (), fs(RecordFile := None))" for fs
    by (simp add: encrypted_providers_def clear_token_def ex_store_env_def)
  obtain y reg where g: "reg_revoke (encrypted_providers toy_lease [] ex_store_env) ''p'' (st_reg ?s) = (Inr y, reg)"
    using ex_publish by (simp add: revoke_parts ex_callback_state_def revoke_begin_def ensure_loaded_def ex_registry Let_def case_prod_unfold)
  obtain s1 where r: "revoke_everywhere toy_lease ex_admin (encrypted_providers toy_lease [] ex_store_env) ''p'' ?s =
      (sendJson 200 (Obj [(''revoked'', Bool True)]), s1)" "st_tok s1 = Map.empty"
    using g rev by (simp add: revoke_everywhere_def case_prod_unfold tok Let_def fun_upd_idem)
  have "replace_token toy_lease [] (se_tokenWrite ex_store_env) ex_token_input (st_tok s1) =
      (Inr (), snd (replace_token toy_lease [] ex_write_env ex_token_input Map.empty))"
    using ex_replace by (simp add: r(2) ex_store_env_def prod_eq_iff)
  moreover have "length (write_nonce (se_tokenWrite ex_store_env)) = NONCE_BYTES" "token_bounded ex_token_input"
    using ex_token_fits by (simp_all add: token_fits_def ex_store_env_def)
  moreover have "mget (pair_handles (st_pairs ?s)) (stateHash toy_lease (consumed_handle ?got)) = Some (pairHash toy_lease ''p'')"
    by (simp add: ex_consumed_pairs_def)
  ultimately show ?thesis
    using late_callback_restores_token [OF ex_gcm inv rev(3) _ r(1) _ _ ex_readable] r(1)
    by (fastforce simp: ex_token_input_def)
qed

end
