(* ===== verification/PluginHost.thy ===== *)
theory PluginHost
  imports BrowserView
begin

text \<open>
  Where the plugin meets Obsidian: \<^verbatim>\<open>src/drive/obsidian-transport.ts\<close> and the broker request of
  \<^verbatim>\<open>main.ts\<close>, which turn the host's \<^verbatim>\<open>requestUrl\<close> into the transports of the Drive and the broker client, and
  the constructors that check what they are given, and the workspace calls.  \<^verbatim>\<open>requestUrl\<close> is a parameter: it answers or rejects.
\<close>

section \<open>Requests\<close>

text \<open>The \<^verbatim>\<open>HttpRequest\<close> of the callers, and the parameter object of \<^verbatim>\<open>requestUrl\<close>.\<close>

record api_request =
  ar_url :: string
  ar_method :: "string option"
  ar_headers :: "(string \<times> string) list option"
  ar_body :: "string option"

record host_request =
  hr_url :: string
  hr_method :: string
  hr_headers :: "(string \<times> string) list option"
  hr_body :: "string option"
  hr_throw :: bool

text \<open>In the host's response \<open>json\<close> is a getter; \<open>None\<close> stands for one that throws.\<close>

record host_response =
  ho_status :: int
  ho_json :: "jsval option"
  ho_arrayBuffer :: "bytes option"

type_synonym host = "host_request \<Rightarrow> host_response option"

definition obsidian_host_request :: "api_request \<Rightarrow> host_request" where
  "obsidian_host_request r = \<lparr> hr_url = ar_url r, hr_method = (case ar_method r of None \<Rightarrow> ''GET'' | Some m \<Rightarrow> m),
     hr_headers = ar_headers r, hr_body = ar_body r, hr_throw = False \<rparr>"

definition json_or_undefined :: "host_response \<Rightarrow> jsval" where
  "json_or_undefined ans = (case ho_json ans of None \<Rightarrow> Undefined | Some v \<Rightarrow> v)"

definition obsidianTransport :: "host \<Rightarrow> api_request \<Rightarrow> drive_response option" where
  "obsidianTransport H r = (case H (obsidian_host_request r) of None \<Rightarrow> None
     | Some ans \<Rightarrow> Some \<lparr> dr_status = ho_status ans, dr_json = json_or_undefined ans, dr_bytes = ho_arrayBuffer ans \<rparr>)"

text \<open>The transport of the read client, which asks with a method and headers and without a body.\<close>

definition drive_over_host :: "host \<Rightarrow> drive_transport" where
  "drive_over_host H sent rq = obsidianTransport H \<lparr> ar_url = dq_url rq, ar_method = Some (dq_method rq),
     ar_headers = Some (dq_headers rq), ar_body = None \<rparr>"

text \<open>The \<^verbatim>\<open>BrokerRequestFn\<close> that \<^verbatim>\<open>setUpDrive\<close> builds; the client sends with \<^verbatim>\<open>POST\<close>.\<close>

definition broker_over_host :: "host \<Rightarrow> client_transport" where
  "broker_over_host H rq = (case H \<lparr> hr_url = cr_url rq, hr_method = ''POST'', hr_headers = Some (cr_headers rq),
       hr_body = Some (cr_body rq), hr_throw = False \<rparr> of None \<Rightarrow> None
     | Some ans \<Rightarrow> Some (ho_status ans, json_or_undefined ans))"

section \<open>Constructors\<close>

datatype client_setup_error = BadAddress url_error | NoTransport

definition new_broker_client :: "(string \<Rightarrow> parsed_url option) \<Rightarrow> string \<Rightarrow> client_transport option \<Rightarrow>
    (client_setup_error, string \<times> client_transport) result" where
  "new_broker_client U baseUrl request = (case validateBrokerBaseUrl U baseUrl of Inl e \<Rightarrow> Inl (BadAddress e)
     | Inr b \<Rightarrow> (case request of None \<Rightarrow> Inl NoTransport | Some t \<Rightarrow> Inr (b, t)))"

datatype controller_setup_error = NoSource | NoScope | NoIndex | BadCap

record controller_parts =
  cp_source :: bool
  cp_scope :: bool
  cp_index :: bool
  cp_cap :: "number option"

text \<open>The checks of \<^verbatim>\<open>BrowserController\<close> in their order; the result is the cap downloads are held to.\<close>

definition new_browser_controller :: "controller_parts \<Rightarrow> (controller_setup_error, rat) result" where
  "new_browser_controller c =
    (if \<not> cp_source c then Inl NoSource
     else if \<not> cp_scope c then Inl NoScope
     else if \<not> cp_index c then Inl NoIndex
     else case as_finite (Num (case cp_cap c of None \<Rightarrow> Fin DEFAULT_MAX_DOWNLOAD_BYTES | Some n \<Rightarrow> n)) of
       None \<Rightarrow> Inl BadCap
     | Some x \<Rightarrow> if x \<le> 0 then Inl BadCap else Inr x)"

text \<open>The getters of the lease manager and the controller.\<close>

definition manager_enrolled :: "lease_manager \<Rightarrow> bool" where
  "manager_enrolled m \<longleftrightarrow> lm_lease m \<noteq> None"

definition leaseView :: "lease_manager \<Rightarrow> lease_view option" where
  "leaseView m = lm_lease m"

section \<open>The workspace\<close>

text \<open>
  A leaf of the workspace has the type of its view and says whether the view object is the plugin's
  own class.  \<open>activateBrowser\<close> yields the calls it makes, \<open>refreshBrowser\<close> the leaves it renders.
\<close>

record workspace_leaf =
  lf_id :: nat
  lf_type :: string
  lf_own :: bool

datatype workspace_call = SetViewState nat string | RevealLeaf nat

definition GDRIVE_STREAM_BROWSER_VIEW_TYPE :: string where
  "GDRIVE_STREAM_BROWSER_VIEW_TYPE = ''gdrive-stream-drive-browser''"

definition browser_leaves :: "workspace_leaf list \<Rightarrow> workspace_leaf list" where
  "browser_leaves ls = filter (\<lambda>l. lf_type l = GDRIVE_STREAM_BROWSER_VIEW_TYPE) ls"

definition activateBrowser :: "workspace_leaf list \<Rightarrow> workspace_leaf option \<Rightarrow> workspace_call list" where
  "activateBrowser ls right = (case (case browser_leaves ls of [] \<Rightarrow> right | l # _ \<Rightarrow> Some l) of
     None \<Rightarrow> []
   | Some l \<Rightarrow> [SetViewState (lf_id l) GDRIVE_STREAM_BROWSER_VIEW_TYPE, RevealLeaf (lf_id l)])"

definition refreshBrowser :: "workspace_leaf list \<Rightarrow> nat list" where
  "refreshBrowser ls = map lf_id (filter lf_own (browser_leaves ls))"

text \<open>One browser at most: an open one is shown again, and only views of the plugin are rendered.\<close>

lemma activate_reuses: "l \<in> set ls \<Longrightarrow> lf_type l = GDRIVE_STREAM_BROWSER_VIEW_TYPE \<Longrightarrow>
    \<exists>l' \<in> set (browser_leaves ls). activateBrowser ls right =
      [SetViewState (lf_id l') GDRIVE_STREAM_BROWSER_VIEW_TYPE, RevealLeaf (lf_id l')]"
proof -
  assume "l \<in> set ls" "lf_type l = GDRIVE_STREAM_BROWSER_VIEW_TYPE"
  then have "l \<in> set (browser_leaves ls)" by (simp add: browser_leaves_def)
  then obtain l' rest where "browser_leaves ls = l' # rest" by (cases "browser_leaves ls") auto
  then show ?thesis by (simp add: activateBrowser_def)
qed

lemma refresh_own: "n \<in> set (refreshBrowser ls) \<Longrightarrow>
    \<exists>l \<in> set ls. lf_id l = n \<and> lf_own l \<and> lf_type l = GDRIVE_STREAM_BROWSER_VIEW_TYPE"
  by (auto simp: refreshBrowser_def browser_leaves_def)

text \<open>What \<^verbatim>\<open>onload\<close> registers: every entry opens the browser, renews the lease or logs out.\<close>

datatype plugin_action = ActivateBrowser | RenewLease | Logout

definition registered_commands :: "(string \<times> string \<times> plugin_action) list" where
  "registered_commands =
    [(''open-browser'', ''Open read-only Drive browser'', ActivateBrowser),
     (''enroll-device'', ''Enroll this device with a one-time code'', ActivateBrowser),
     (''renew-lease'', ''Renew read-only Drive lease'', RenewLease),
     (''logout-device'', ''Log out and remove this device identity'', Logout)]"

definition onunload :: "workspace_leaf list \<Rightarrow> workspace_leaf list" where
  "onunload ls = filter (\<lambda>l. lf_type l \<noteq> GDRIVE_STREAM_BROWSER_VIEW_TYPE) ls"

lemma onunload_detaches: "browser_leaves (onunload ls) = []"
  by (simp add: browser_leaves_def onunload_def filter_empty_conv)

section \<open>The subscription of the settings tab\<close>

text \<open>
  The tab is the only listener of the broadcast; every drawing replaces its listener, a new closure,
  so the listeners are numbered.  A listener that finds its tab gone hides it, otherwise it draws again.
\<close>

record tab_life =
  tb_listeners :: broadcast
  tb_own :: "nat option"
  tb_next :: nat

definition hide_tab :: "tab_life \<Rightarrow> tab_life" where
  "hide_tab t = (case tb_own t of None \<Rightarrow> t | Some i \<Rightarrow> t\<lparr> tb_listeners := unsubscribe i (tb_listeners t), tb_own := None \<rparr>)"

definition display_tab :: "tab_life \<Rightarrow> tab_life" where
  "display_tab t = (let u = hide_tab t
     in u\<lparr> tb_listeners := subscribe (tb_next u) (tb_listeners u), tb_own := Some (tb_next u), tb_next := Suc (tb_next u) \<rparr>)"

definition tab_notified :: "bool \<Rightarrow> tab_life \<Rightarrow> tab_life" where
  "tab_notified isConnected t = (if isConnected then display_tab t else hide_tab t)"

datatype tab_event = TabShown | TabHidden | StateChanged bool

primrec tab_step :: "tab_event \<Rightarrow> tab_life \<Rightarrow> tab_life" where
  "tab_step TabShown t = display_tab t"
| "tab_step TabHidden t = hide_tab t"
| "tab_step (StateChanged isConnected) t = (if tb_listeners t = [] then t else tab_notified isConnected t)"

text \<open>However often the tab is drawn, it holds one subscription while it is shown and none after.\<close>

definition tab_inv :: "tab_life \<Rightarrow> bool" where
  "tab_inv t \<longleftrightarrow> tb_listeners t = (case tb_own t of None \<Rightarrow> [] | Some i \<Rightarrow> [i])"

lemma tab_inv_hide: "tab_inv t \<Longrightarrow> tab_inv (hide_tab t) \<and> tb_own (hide_tab t) = None"
  by (auto simp: tab_inv_def hide_tab_def unsubscribe_def split: option.split)

lemma tab_inv_display: "tab_inv t \<Longrightarrow> tab_inv (display_tab t)"
  using tab_inv_hide [of t] by (auto simp: tab_inv_def display_tab_def Let_def subscribe_def)

lemma tab_inv_step: "tab_inv t \<Longrightarrow> tab_inv (tab_step e t)"
  by (cases e) (simp_all add: tab_inv_display tab_inv_hide tab_notified_def)

lemma tab_one_subscription:
  "tab_inv t \<Longrightarrow> length (tb_listeners (fold tab_step es t)) \<le> 1 \<and> tb_listeners (hide_tab (fold tab_step es t)) = []"
proof (induction es arbitrary: t)
  case Nil
  with tab_inv_hide [of t] show ?case by (auto simp: tab_inv_def split: option.splits)
next
  case (Cons e es)
  from Cons.IH [OF tab_inv_step [OF Cons.prems, of e]] show ?case by simp
qed

section \<open>Joining byte arrays\<close>

text \<open>\<^verbatim>\<open>concatBytes\<close> allocates the whole array and copies the parts at running offsets.\<close>

definition set_at :: "bytes \<Rightarrow> nat \<Rightarrow> bytes \<Rightarrow> bytes" where
  "set_at output offset part = take offset output @ part @ drop (offset + length part) output"

definition concatBytes :: "bytes list \<Rightarrow> bytes" where
  "concatBytes parts = fst (fold (\<lambda>part (output, offset). (set_at output offset part, offset + length part)) parts
     (replicate (sum_list (map length parts)) 0, 0))"

lemma concatBytes_run:
  "fold (\<lambda>part (output, offset). (set_at output offset part, offset + length part)) parts
     (done_bytes @ replicate (sum_list (map length parts)) 0, length done_bytes) =
   (done_bytes @ concat parts, length (done_bytes @ concat parts))"
proof (induction parts arbitrary: done_bytes)
  case (Cons part parts)
  have "set_at (done_bytes @ replicate (length part + sum_list (map length parts)) 0) (length done_bytes) part =
      (done_bytes @ part) @ replicate (sum_list (map length parts)) 0"
    by (simp add: set_at_def)
  with Cons.IH [of "done_bytes @ part"] show ?case by simp
qed simp

lemma concatBytes_concat: "concatBytes parts = concat parts"
  using concatBytes_run [of parts "[]"] by (simp add: concatBytes_def)

section \<open>Properties of the transports\<close>

text \<open>
  The host is never asked to raise on a status, so the clients' own status tables decide: whatever the
  host answers reaches them with its status.
\<close>

lemma host_never_throws: "\<not> hr_throw (obsidian_host_request r)"
  by (simp add: obsidian_host_request_def)

lemma drive_sees_status: "H \<lparr> hr_url = dq_url rq, hr_method = dq_method rq, hr_headers = Some (dq_headers rq),
    hr_body = None, hr_throw = False \<rparr> = Some ans \<Longrightarrow> \<exists>r. drive_over_host H sent rq = Some r \<and> dr_status r = ho_status ans"
  by (simp add: drive_over_host_def obsidianTransport_def obsidian_host_request_def)

text \<open>A body that is no JSON reaches the broker client as \<^verbatim>\<open>undefined\<close>: its answer is refused by its type.\<close>

lemma broker_answer_without_json:
  assumes "broker_over_host H \<lparr> cr_url = baseUrl @ ''/oauth/'' @ path, cr_headers = [(''Content-Type'', ''application/json'')],
      cr_body = json_text (Obj body) \<rparr> = Some (status, Undefined)" "map_of errs status = None"
  shows "\<exists>e. client_post baseUrl (broker_over_host H) path body errs = Inl e
    \<and> err_code e \<in> {UnexpectedStatus, InvalidResponse}"
  using assms by (simp add: client_post_def asRecord_def invalid_response_def)

text \<open>
  The getter \<^verbatim>\<open>enrolled\<close> says only that there is a lease: it stays true when the lease needs renewal.
\<close>

lemma enrolled_getter_ignores_expiry:
  "manager_enrolled m \<Longrightarrow> lm_accessTokenExpiresAtMs m \<le> now + lm_renewalLeadMs m \<Longrightarrow>
     manager_enrolled m \<and> \<not> hasValidLease now m"
  by (simp add: hasValidLease_def)

lemma controller_cap: "new_browser_controller c = Inr x \<Longrightarrow> 0 < x"
  by (auto simp: new_browser_controller_def split: if_splits option.splits)

end
