(* ===== verification/PluginTasks.thy ===== *)
theory PluginTasks
  imports PluginMain
begin

text \<open>
  The operations of \<^verbatim>\<open>src/main.ts\<close> cut at their awaits.  An operation under way is an errand that waits for
  a task of a lease manager or for a write of the plugin data; any number of errands, of lease managers
  (an old one keeps running after the wiring was rebuilt) and of queued writes interleave.  Each step is
  what the code does between two awaits, the callback of the manager's emissions included.  Steps may come in
  any order, also in orders the host's event loop would not choose; the runs of \<open>PluginRaces\<close> are
  ones it can choose.  What a read sends once it has passed the gate is the subject of \<open>BrowserView\<close>.
\<close>

section \<open>The world\<close>

text \<open>A lease manager with what its constructor was given.\<close>

record managed =
  mg_broker :: string
  mg_device :: device_identity
  mg_world :: manager_world

datatype save_reason = AfterEnrollment | AfterEmission | AfterChange | AfterLogout

text \<open>The numbers of \<open>ReadGate\<close>, \<open>RenewCommand\<close> and \<open>EnrollRun\<close> are a manager and its task.\<close>

datatype errand = ReadGate nat nat | RenewCommand nat nat | EnrollRun nat nat | Saving save_reason

text \<open>
  The last manager is \<^verbatim>\<open>this.leaseManager\<close>; the field \<open>pl_manager\<close> of the plugin is not used here.  An errand
  is kept with the outcome of what it waits for, once there is one.
\<close>

record plugin_world =
  pw_plugin :: plugin
  pw_managers :: "managed list"
  pw_leaving :: bool
  pw_writes :: "(nat \<times> jsval) write_queue"
  pw_errands :: "(nat, errand \<times> bool option) omap"
  pw_next :: nat
  pw_answers :: "(nat \<times> (plugin_error, unit) result) list"

definition current_index :: "plugin_world \<Rightarrow> nat" where
  "current_index W = length (pw_managers W) - 1"

definition manager_at :: "nat \<Rightarrow> plugin_world \<Rightarrow> lease_manager" where
  "manager_at k W = w_manager (mg_world (pw_managers W ! k))"

definition current_manager :: "plugin_world \<Rightarrow> lease_manager" where
  "current_manager W = manager_at (current_index W) W"

definition plugin_now :: "plugin_world \<Rightarrow> plugin" where
  "plugin_now W = (pw_plugin W)\<lparr> pl_manager := Some (current_manager W) \<rparr>"

definition put_manager :: "nat \<Rightarrow> manager_world \<Rightarrow> plugin_world \<Rightarrow> plugin_world" where
  "put_manager k w W = W\<lparr> pw_managers := (pw_managers W)[k := (pw_managers W ! k)\<lparr> mg_world := w \<rparr>] \<rparr>"

definition on_plugin :: "(plugin \<Rightarrow> plugin) \<Rightarrow> plugin_world \<Rightarrow> plugin_world" where
  "on_plugin f W = W\<lparr> pw_plugin := f (pw_plugin W) \<rparr>"

definition begin_errand :: "plugin_world \<Rightarrow> plugin_world" where
  "begin_errand W = W\<lparr> pw_next := Suc (pw_next W) \<rparr>"

definition wait_for :: "nat \<Rightarrow> errand \<Rightarrow> plugin_world \<Rightarrow> plugin_world" where
  "wait_for i t W = W\<lparr> pw_errands := mput i (t, None) (pw_errands W) \<rparr>"

definition finish :: "nat \<Rightarrow> (plugin_error, unit) result \<Rightarrow> plugin_world \<Rightarrow> plugin_world" where
  "finish i r W = W\<lparr> pw_errands := mdel i (pw_errands W), pw_answers := pw_answers W @ [(i, r)] \<rparr>"

text \<open>What errands waited for has settled.\<close>

definition wake :: "(nat \<Rightarrow> errand \<Rightarrow> bool) \<Rightarrow> bool \<Rightarrow> plugin_world \<Rightarrow> plugin_world" where
  "wake c ok W = W\<lparr> pw_errands := AList.map_ran (\<lambda>i (t, s). (t, if c i t then Some ok else s)) (pw_errands W) \<rparr>"

section \<open>Saving\<close>

definition snapshot :: "'x plugin_host \<Rightarrow> persisted_enrollment \<Rightarrow> plugin \<Rightarrow> (plugin_error, jsval) result" where
  "snapshot h e p = (case toPersistedSettings (ph_url h) (pl_settings p) of Inl x \<Rightarrow> Inl (SettingsRefused x)
     | Inr s \<Rightarrow> (case persisted_data s e of Inl x \<Rightarrow> Inl (DataRefused x) | Inr v \<Rightarrow> Inr v))"

text \<open>The end of an operation whose write settled or was refused, with its \<^verbatim>\<open>catch\<close> and \<^verbatim>\<open>finally\<close>.\<close>

definition conclude :: "nat \<Rightarrow> save_reason \<Rightarrow> (plugin_error, unit) result \<Rightarrow> plugin_world \<Rightarrow> plugin_world" where
  "conclude i why r W = finish i r (case why of AfterLogout \<Rightarrow> W\<lparr> pw_leaving := False \<rparr>
     | AfterEnrollment \<Rightarrow> if is_ok r then W else on_plugin (with_code []) W
     | AfterEmission \<Rightarrow> W | AfterChange \<Rightarrow> W)"

definition save_later :: "'x plugin_host \<Rightarrow> nat \<Rightarrow> save_reason \<Rightarrow> persisted_enrollment \<Rightarrow> plugin_world \<Rightarrow> plugin_world" where
  "save_later h i why e W = (case snapshot h e (pw_plugin W) of Inl x \<Rightarrow> conclude i why (Inl x) W
     | Inr v \<Rightarrow> wait_for i (Saving why) (W\<lparr> pw_writes := queue_step (Enqueue (i, v)) (pw_writes W) \<rparr>))"

definition keep_keys :: "plugin \<Rightarrow> plugin" where
  "keep_keys p = p\<lparr> pl_secrets := saveDeviceIdentity (pl_secrets p) (pl_identity p) \<rparr>"

text \<open>\<^verbatim>\<open>saveSettings\<close> up to its await.\<close>

definition save_begin :: "'x plugin_host \<Rightarrow> nat \<Rightarrow> save_reason \<Rightarrow> enrollment_view \<Rightarrow> plugin_world \<Rightarrow> plugin_world" where
  "save_begin h i why e W = save_later h i why (toPersistedEnrollment e) (on_plugin keep_keys W)"

section \<open>The managers\<close>

text \<open>
  \<^verbatim>\<open>onEnrollment\<close> with the emitted view \<open>v\<close>, when the enrollment of \<^verbatim>\<open>this.leaseManager\<close> is \<open>e\<close>: nothing is
  persisted while a logout is in progress.
\<close>

definition onEnrollment :: "'x plugin_host \<Rightarrow> enrollment_view \<Rightarrow> enrollment_view \<Rightarrow> plugin_world \<Rightarrow> plugin_world" where
  "onEnrollment h e v W = (if pw_leaving W then W
     else save_begin h (pw_next W) AfterEmission e (on_plugin (\<lambda>p. p\<lparr> pl_persistedPairId := ev_pairId v \<rparr>) (begin_errand W)))"

text \<open>
  The callbacks of the emissions between two states of manager \<open>k\<close>, in order.  The manager's last emission
  shows its final state; before it, the emitted view is the manager's enrollment at that moment.
\<close>

definition emitted_since :: "lease_manager \<Rightarrow> lease_manager \<Rightarrow> enrollment_view list" where
  "emitted_since m m' = drop (length (lm_emitted m)) (lm_emitted m')"

definition tell_all :: "'x plugin_host \<Rightarrow> nat \<Rightarrow> lease_manager \<Rightarrow> lease_manager \<Rightarrow> plugin_world \<Rightarrow> plugin_world" where
  "tell_all h k m m' W =
    (let vs = emitted_since m m'; other = enrollment_of (current_manager W)
     in fold (\<lambda>(v, e). onEnrollment h (if k = current_index W then e else other) v) (zip vs (butlast vs @ [enrollment_of m'])) W)"

fun answered_task :: "manager_event \<Rightarrow> nat option" where
  "answered_task (PairAnswer i r) = Some i"
| "answered_task (ConsentOpened i t ok) = Some i"
| "answered_task (ClaimAnswer i r) = Some i"
| "answered_task (Woken i t) = Some i"
| "answered_task (NonceAnswer i r) = Some i"
| "answered_task (LeaseAnswer i r) = Some i"
| "answered_task e = None"

fun lease_applied :: "'x lease_crypto_scheme \<Rightarrow> device_identity \<Rightarrow> lease_manager \<Rightarrow> manager_event \<Rightarrow> bool" where
  "lease_applied N d m (ClaimAnswer i (Inr r)) = is_ok (fst (applyLease N d r m))"
| "lease_applied N d m (LeaseAnswer i (Inr r)) = is_ok (fst (applyLease N d r m))"
| "lease_applied N d m e = False"

definition awaits :: "nat \<Rightarrow> nat \<Rightarrow> errand \<Rightarrow> bool" where
  "awaits k j t \<longleftrightarrow> t \<in> {ReadGate k j, RenewCommand k j, EnrollRun k j}"

text \<open>Manager \<open>k\<close> moved to \<open>w'\<close> on the answer \<open>e\<close>: its emissions, and whoever waited for the task that ended.\<close>

definition deliver :: "'x plugin_host \<Rightarrow> nat \<Rightarrow> manager_event \<Rightarrow> manager_world \<Rightarrow> plugin_world \<Rightarrow> plugin_world" where
  "deliver h k e w' W =
    (let g = pw_managers W ! k; m = w_manager (mg_world g);
         W1 = tell_all h k m (w_manager w') (put_manager k w' W)
     in case answered_task e of None \<Rightarrow> W1
        | Some j \<Rightarrow> if mget (w_tasks w') j = None then wake (\<lambda>i. awaits k j) (lease_applied (ph_crypto h) (mg_device g) m e) W1
            else W1)"

section \<open>The operations between their awaits\<close>

definition set_token :: "string \<Rightarrow> plugin_world \<Rightarrow> plugin_world" where
  "set_token t = on_plugin (\<lambda>p. p\<lparr> pl_token := t \<rparr>)"

text \<open>The end of \<^verbatim>\<open>authorizeDrive\<close>, with the token it got or none.\<close>

definition gate :: "nat \<Rightarrow> rat \<Rightarrow> string option \<Rightarrow> plugin_world \<Rightarrow> plugin_world" where
  "gate i now t W = (case t of None \<Rightarrow> finish i (Inl EnrollmentLost) (set_token [] W)
     | Some t \<Rightarrow> if driveAccessDecision True (hasValidLease now (current_manager W)) then finish i (Inr ()) (set_token t W)
         else finish i (Inl NoValidLease) (set_token [] W))"

definition renewed :: "nat \<Rightarrow> string option \<Rightarrow> plugin_world \<Rightarrow> plugin_world" where
  "renewed i t W = finish i (if t = None then Inl EnrollmentLost else Inr ()) W"

definition token_got :: "nat \<Rightarrow> bool \<Rightarrow> plugin_world \<Rightarrow> string option" where
  "token_got k ok W = (if ok then token_after_renewal (manager_at k W) else None)"

text \<open>\<^verbatim>\<open>setUpDrive\<close>: the managers made before stay, and their tasks go on.\<close>

definition rewire :: "'x plugin_host \<Rightarrow> plugin_world \<Rightarrow> (plugin_error, unit) result \<times> plugin_world" where
  "rewire h W = (case (setUpDrive h (pw_plugin W), brokerBaseUrlForRuntime (ph_url h) (set_brokerBaseUrl (pl_settings (pw_plugin W)))) of
     ((Inr _, p), Inr base) \<Rightarrow> (case pl_manager p of None \<Rightarrow> (Inl WiringFailed, W)
       | Some m \<Rightarrow> (Inr (), W\<lparr> pw_plugin := p, pw_managers := pw_managers W @
           [\<lparr> mg_broker = base, mg_device = pl_identity p, mg_world = starts_with_manager m \<rparr>] \<rparr>))
   | _ \<Rightarrow> (Inl WiringFailed, W))"

text \<open>\<^verbatim>\<open>updateBrokerBaseUrl\<close> and \<^verbatim>\<open>updateAllowedRootName\<close> with the settings to apply.\<close>

definition change_begin :: "'x plugin_host \<Rightarrow> plugin_settings \<Rightarrow> plugin_world \<Rightarrow> plugin_world" where
  "change_begin h c W =
    (let i = pw_next W in
     case rewire h (on_plugin (\<lambda>p. drop_pairing (p\<lparr> pl_settings := c \<rparr>)) (begin_errand W)) of
       (Inl e, W1) \<Rightarrow> finish i (Inl e) W1
     | (Inr _, W1) \<Rightarrow> save_begin h i AfterChange (enrollment_of (current_manager W1)) W1)"

definition broker_changed :: "'x plugin_host \<Rightarrow> string \<Rightarrow> plugin_world \<Rightarrow> plugin_world" where
  "broker_changed h v W = (let c = pl_settings (pw_plugin W) in
     if \<not> brokerChangeInvalidatesEnrollment (ph_url h) (set_brokerBaseUrl c) v then finish (pw_next W) (Inr ()) (begin_errand W)
     else change_begin h (c\<lparr> set_brokerBaseUrl := normalizeBrokerBaseUrl (ph_url h) v \<rparr>) W)"

definition root_changed :: "'x plugin_host \<Rightarrow> string \<Rightarrow> plugin_world \<Rightarrow> plugin_world" where
  "root_changed h v W = (let c = pl_settings (pw_plugin W) in
     if \<not> rootChangeInvalidatesEnrollment (set_allowedRootName c) v then finish (pw_next W) (Inr ()) (begin_errand W)
     else change_begin h (c\<lparr> set_allowedRootName := normalizeAllowedRootName v \<rparr>) W)"

text \<open>\<^verbatim>\<open>logout\<close> up to the write of the cleared data, and after it with the fresh keys of the host.\<close>

definition logout_begin :: "'x plugin_host \<Rightarrow> plugin_world \<Rightarrow> plugin_world" where
  "logout_begin h W =
    (let k = current_index W; w = mg_world (pw_managers W ! k)
     in save_later h (pw_next W) AfterLogout no_enrollment
          (on_plugin (\<lambda>p. p\<lparr> pl_secrets := clearDeviceIdentity (pl_secrets p), pl_persistedPairId := None \<rparr>)
             (put_manager k (w\<lparr> w_manager := clear_manager (w_manager w) \<rparr>) ((begin_errand W)\<lparr> pw_leaving := True \<rparr>))))"

definition logout_written :: "'x plugin_host \<Rightarrow> bytes \<Rightarrow> bytes \<Rightarrow> nat \<Rightarrow> plugin_world \<Rightarrow> plugin_world" where
  "logout_written h ed x i W =
    (case rewire h (on_plugin (\<lambda>p. p\<lparr> pl_token := [], pl_identity := generateDeviceIdentity (ph_crypto h) ed x \<rparr>) W) of
       (r, W1) \<Rightarrow> conclude i AfterLogout r W1)"

definition configured :: "plugin \<Rightarrow> bool" where
  "configured p \<longleftrightarrow> set_brokerBaseUrl (pl_settings p) \<noteq> [] \<and> set_allowedRootName (pl_settings p) \<noteq> []"

section \<open>Steps\<close>

datatype plugin_event = Read rat | Renew rat | StartEnroll string | ChangeBroker string | ChangeRoot string | LogOut
  | Answered nat manager_event | WriteTurn | WriteSettled bool | Resumed nat rat bytes bytes

text \<open>
  \<open>Read\<close> is any operation behind \<^verbatim>\<open>authorizeDrive\<close>, \<open>Renew\<close> the renewal command; both carry the clock.
  \<open>Answered\<close> delivers an answer, a timer or the end of opening the consent page to a manager's task,
  \<open>Resumed\<close> runs an errand whose wait is over; only a logout uses its fresh keys.
\<close>

inductive plugin_step :: "'x plugin_host \<Rightarrow> plugin_event \<Rightarrow> plugin_world \<Rightarrow> plugin_world \<Rightarrow> bool"
  for h :: "'x plugin_host" where
  read_refused: "manager_status (current_manager W) \<noteq> DeviceEnrolled \<Longrightarrow>
    plugin_step h (Read now) W (finish (pw_next W) (Inl PluginNotEnrolled) (begin_errand W))"
| read_at_hand: "manager_status (current_manager W) = DeviceEnrolled \<Longrightarrow> token_now now (current_manager W) = Some t \<Longrightarrow>
    plugin_step h (Read now) W (gate (pw_next W) now t (begin_errand W))"
| read_waits: "manager_status (current_manager W) = DeviceEnrolled \<Longrightarrow> token_now now (current_manager W) = None \<Longrightarrow>
    k = current_index W \<Longrightarrow> manager_step (ph_crypto h) (mg_device (pw_managers W ! k)) manager_event.Refresh (mg_world (pw_managers W ! k)) w \<Longrightarrow>
    lm_renewal (w_manager w) = Some j \<Longrightarrow>
    plugin_step h (Read now) W (wait_for (pw_next W) (ReadGate k j) (put_manager k w (begin_errand W)))"
| renew_refused: "manager_status (current_manager W) \<noteq> DeviceEnrolled \<Longrightarrow>
    plugin_step h (Renew now) W (finish (pw_next W) (Inl PluginNotEnrolled) (begin_errand W))"
| renew_at_hand: "manager_status (current_manager W) = DeviceEnrolled \<Longrightarrow> token_now now (current_manager W) = Some t \<Longrightarrow>
    plugin_step h (Renew now) W (renewed (pw_next W) t (begin_errand W))"
| renew_waits: "manager_status (current_manager W) = DeviceEnrolled \<Longrightarrow> token_now now (current_manager W) = None \<Longrightarrow>
    k = current_index W \<Longrightarrow> manager_step (ph_crypto h) (mg_device (pw_managers W ! k)) manager_event.Refresh (mg_world (pw_managers W ! k)) w \<Longrightarrow>
    lm_renewal (w_manager w) = Some j \<Longrightarrow>
    plugin_step h (Renew now) W (wait_for (pw_next W) (RenewCommand k j) (put_manager k w (begin_errand W)))"
| enroll_unconfigured: "\<not> configured (pw_plugin W) \<Longrightarrow>
    plugin_step h (StartEnroll c) W (finish (pw_next W) (Inl NotConfigured) (begin_errand W))"
| enroll_no_code: "configured (pw_plugin W) \<Longrightarrow> trim c = [] \<Longrightarrow>
    plugin_step h (StartEnroll c) W (finish (pw_next W) (Inl EnrollFailed) (on_plugin (with_code []) (begin_errand W)))"
| enroll_waits: "configured (pw_plugin W) \<Longrightarrow> k = current_index W \<Longrightarrow>
    manager_step (ph_crypto h) (mg_device (pw_managers W ! k)) (Enroll c) (mg_world (pw_managers W ! k)) w \<Longrightarrow>
    plugin_step h (StartEnroll c) W (wait_for (pw_next W) (EnrollRun k (w_next (mg_world (pw_managers W ! k))))
      (put_manager k w (on_plugin (with_code c) (begin_errand W))))"
| change_broker: "plugin_step h (ChangeBroker v) W (broker_changed h v W)"
| change_root: "plugin_step h (ChangeRoot v) W (root_changed h v W)"
| log_out: "plugin_step h LogOut W (logout_begin h W)"
| answered: "k < length (pw_managers W) \<Longrightarrow> answered_task e \<noteq> None \<Longrightarrow>
    manager_step (ph_crypto h) (mg_device (pw_managers W ! k)) e (mg_world (pw_managers W ! k)) w \<Longrightarrow>
    plugin_step h (Answered k e) W (deliver h k e w W)"
| write_skipped: "wq_running (pw_writes W) = None \<Longrightarrow> wq_pending (pw_writes W) = (r, i, v) # rest \<Longrightarrow> r \<noteq> wq_latest (pw_writes W) \<Longrightarrow>
    plugin_step h WriteTurn W (wake (\<lambda>n _. n = i) True (W\<lparr> pw_writes := queue_step Turn (pw_writes W) \<rparr>))"
| write_begun: "wq_running (pw_writes W) = None \<Longrightarrow> wq_pending (pw_writes W) = (r, i, v) # rest \<Longrightarrow> r = wq_latest (pw_writes W) \<Longrightarrow>
    plugin_step h WriteTurn W (W\<lparr> pw_writes := queue_step Turn (pw_writes W) \<rparr>)"
| write_settled: "wq_running (pw_writes W) = Some (i, v) \<Longrightarrow>
    plugin_step h (WriteSettled ok) W (wake (\<lambda>n _. n = i) ok
      (on_plugin (\<lambda>p. if ok then p\<lparr> pl_data := v \<rparr> else p) (W\<lparr> pw_writes := queue_step (Settled ok) (pw_writes W) \<rparr>)))"
| read_resumed: "mget (pw_errands W) i = Some (ReadGate k j, Some ok) \<Longrightarrow>
    plugin_step h (Resumed i now ed x) W (gate i now (token_got k ok W) W)"
| renew_resumed: "mget (pw_errands W) i = Some (RenewCommand k j, Some ok) \<Longrightarrow>
    plugin_step h (Resumed i now ed x) W (renewed i (token_got k ok W) W)"
| enroll_done: "mget (pw_errands W) i = Some (EnrollRun k j, Some True) \<Longrightarrow>
    plugin_step h (Resumed i now ed x) W
      (save_begin h i AfterEnrollment (enrollment_of (current_manager W)) (on_plugin (with_code []) W))"
| enroll_failed: "mget (pw_errands W) i = Some (EnrollRun k j, Some False) \<Longrightarrow>
    plugin_step h (Resumed i now ed x) W (finish i (Inl EnrollFailed) (on_plugin (with_code []) W))"
| logged_out: "mget (pw_errands W) i = Some (Saving AfterLogout, Some True) \<Longrightarrow>
    plugin_step h (Resumed i now ed x) W (logout_written h ed x i W)"
| saved: "mget (pw_errands W) i = Some (Saving why, Some True) \<Longrightarrow> why \<noteq> AfterLogout \<Longrightarrow>
    plugin_step h (Resumed i now ed x) W (conclude i why (Inr ()) W)"
| save_failed: "mget (pw_errands W) i = Some (Saving why, Some False) \<Longrightarrow>
    plugin_step h (Resumed i now ed x) W (conclude i why (Inl SaveFailed) W)"

text \<open>Runs whose steps all meet \<open>G\<close>.\<close>

inductive plugin_reaches :: "'x plugin_host \<Rightarrow> (plugin_event \<Rightarrow> plugin_world \<Rightarrow> bool) \<Rightarrow> plugin_world \<Rightarrow> plugin_event list \<Rightarrow>
    plugin_world \<Rightarrow> bool"
  for h :: "'x plugin_host" and G :: "plugin_event \<Rightarrow> plugin_world \<Rightarrow> bool" and W0 :: plugin_world where
  idle: "plugin_reaches h G W0 [] W0"
| step: "plugin_reaches h G W0 es W \<Longrightarrow> G e W \<Longrightarrow> plugin_step h e W W' \<Longrightarrow> plugin_reaches h G W0 (es @ [e]) W'"

text \<open>The plugin that came up as \<open>p\<close> with the manager \<open>m\<close> of the broker \<open>base\<close>.\<close>

definition opened :: "string \<Rightarrow> lease_manager \<Rightarrow> plugin \<Rightarrow> plugin_world" where
  "opened base m p = \<lparr> pw_plugin = p, pw_managers = [\<lparr> mg_broker = base, mg_device = pl_identity p, mg_world = starts_with_manager m \<rparr>],
     pw_leaving = False, pw_writes = new_write_queue, pw_errands = [], pw_next = 0, pw_answers = [] \<rparr>"

definition one_logout :: "plugin_event \<Rightarrow> plugin_world \<Rightarrow> bool" where
  "one_logout e W \<longleftrightarrow> (e = LogOut \<longrightarrow> \<not> pw_leaving W)"

section \<open>Fields\<close>

lemma put_manager_fields [simp]:
  "pw_plugin (put_manager k w W) = pw_plugin W" "pw_leaving (put_manager k w W) = pw_leaving W"
  "pw_writes (put_manager k w W) = pw_writes W" "pw_errands (put_manager k w W) = pw_errands W"
  "pw_next (put_manager k w W) = pw_next W" "pw_answers (put_manager k w W) = pw_answers W"
  "length (pw_managers (put_manager k w W)) = length (pw_managers W)" "current_index (put_manager k w W) = current_index W"
  "n < length (pw_managers W) \<Longrightarrow> pw_managers (put_manager k w W) ! n = (if n = k then (pw_managers W ! k)\<lparr> mg_world := w \<rparr> else pw_managers W ! n)"
  by (simp_all add: put_manager_def current_index_def)

lemma on_plugin_fields [simp]:
  "pw_plugin (on_plugin f W) = f (pw_plugin W)" "pw_leaving (on_plugin f W) = pw_leaving W" "pw_managers (on_plugin f W) = pw_managers W"
  "pw_writes (on_plugin f W) = pw_writes W" "pw_errands (on_plugin f W) = pw_errands W"
  "pw_next (on_plugin f W) = pw_next W" "pw_answers (on_plugin f W) = pw_answers W"
  by (simp_all add: on_plugin_def)

lemma begin_errand_fields [simp]:
  "pw_plugin (begin_errand W) = pw_plugin W" "pw_leaving (begin_errand W) = pw_leaving W" "pw_managers (begin_errand W) = pw_managers W"
  "pw_writes (begin_errand W) = pw_writes W" "pw_errands (begin_errand W) = pw_errands W"
  "pw_next (begin_errand W) = Suc (pw_next W)" "pw_answers (begin_errand W) = pw_answers W"
  by (simp_all add: begin_errand_def)

lemma wait_for_fields [simp]:
  "pw_plugin (wait_for i t W) = pw_plugin W" "pw_leaving (wait_for i t W) = pw_leaving W" "pw_managers (wait_for i t W) = pw_managers W"
  "pw_writes (wait_for i t W) = pw_writes W" "pw_errands (wait_for i t W) = mput i (t, None) (pw_errands W)"
  "pw_next (wait_for i t W) = pw_next W" "pw_answers (wait_for i t W) = pw_answers W"
  by (simp_all add: wait_for_def)

lemma finish_fields [simp]:
  "pw_plugin (finish i r W) = pw_plugin W" "pw_leaving (finish i r W) = pw_leaving W" "pw_managers (finish i r W) = pw_managers W"
  "pw_writes (finish i r W) = pw_writes W" "pw_errands (finish i r W) = mdel i (pw_errands W)"
  "pw_next (finish i r W) = pw_next W" "pw_answers (finish i r W) = pw_answers W @ [(i, r)]"
  by (simp_all add: finish_def)

lemma wake_fields [simp]:
  "pw_plugin (wake c ok W) = pw_plugin W" "pw_leaving (wake c ok W) = pw_leaving W" "pw_managers (wake c ok W) = pw_managers W"
  "pw_writes (wake c ok W) = pw_writes W" "pw_next (wake c ok W) = pw_next W" "pw_answers (wake c ok W) = pw_answers W"
  "mget (pw_errands (wake c ok W)) i = map_option (\<lambda>(t, s). (t, if c i t then Some ok else s)) (mget (pw_errands W) i)"
  by (simp_all add: wake_def map_ran_conv)

definition logouts :: "plugin_world \<Rightarrow> nat set" where
  "logouts W = {i. \<exists>s. mget (pw_errands W) i = Some (Saving AfterLogout, s)}"

lemma logouts_simps [simp]:
  "logouts (put_manager k w W) = logouts W" "logouts (on_plugin f W) = logouts W" "logouts (begin_errand W) = logouts W"
  "logouts (finish i r W) = logouts W - {i}" "logouts (wake c ok W) = logouts W"
  "logouts (wait_for i t W) = (if t = Saving AfterLogout then insert i (logouts W) else logouts W - {i})"
  "logouts (W\<lparr> pw_writes := q \<rparr>) = logouts W" "logouts (W\<lparr> pw_leaving := b \<rparr>) = logouts W"
  "logouts (W\<lparr> pw_plugin := p, pw_managers := ms \<rparr>) = logouts W"
  by (auto simp: logouts_def split: if_splits)

lemma conclude_fields [simp]:
  "pw_managers (conclude i why r W) = pw_managers W" "pw_writes (conclude i why r W) = pw_writes W"
  "pw_errands (conclude i why r W) = mdel i (pw_errands W)" "pw_next (conclude i why r W) = pw_next W"
  "pw_answers (conclude i why r W) = pw_answers W @ [(i, r)]" "logouts (conclude i why r W) = logouts W - {i}"
  "pw_leaving (conclude i why r W) \<longleftrightarrow> pw_leaving W \<and> why \<noteq> AfterLogout"
  "pl_persistedPairId (pw_plugin (conclude i why r W)) = pl_persistedPairId (pw_plugin W)"
  "pl_token (pw_plugin (conclude i why r W)) = pl_token (pw_plugin W)"
  "pl_data (pw_plugin (conclude i why r W)) = pl_data (pw_plugin W)"
  by (simp_all add: conclude_def with_code_def split: save_reason.split)

lemma save_later_fields [simp]:
  "pw_managers (save_later h i why e W) = pw_managers W" "pw_next (save_later h i why e W) = pw_next W"
  "pl_persistedPairId (pw_plugin (save_later h i why e W)) = pl_persistedPairId (pw_plugin W)"
  "pl_token (pw_plugin (save_later h i why e W)) = pl_token (pw_plugin W)"
  "pl_data (pw_plugin (save_later h i why e W)) = pl_data (pw_plugin W)"
  by (simp_all add: save_later_def split: sum.split)

lemma save_begin_fields [simp]:
  "pw_managers (save_begin h i why e W) = pw_managers W" "pw_next (save_begin h i why e W) = pw_next W"
  "pl_persistedPairId (pw_plugin (save_begin h i why e W)) = pl_persistedPairId (pw_plugin W)"
  "pl_token (pw_plugin (save_begin h i why e W)) = pl_token (pw_plugin W)"
  "pl_data (pw_plugin (save_begin h i why e W)) = pl_data (pw_plugin W)"
  by (simp_all add: save_begin_def keep_keys_def)

lemma onEnrollment_fields [simp]:
  "pw_managers (onEnrollment h e v W) = pw_managers W" "pl_token (pw_plugin (onEnrollment h e v W)) = pl_token (pw_plugin W)"
  "pl_data (pw_plugin (onEnrollment h e v W)) = pl_data (pw_plugin W)"
  by (simp_all add: onEnrollment_def)

text \<open>What every emission's callback keeps, all of them keep.\<close>

lemma tell_all_keeps:
  assumes "P W" and "\<And>e v W. P W \<Longrightarrow> P (onEnrollment h e v W)"
  shows "P (tell_all h k m m' W)"
proof -
  have "P (fold (\<lambda>(v, e). onEnrollment h (f e) v) vs W)" for f vs
    using assms(1) by (induction vs arbitrary: W) (auto intro: assms(2))
  then show ?thesis by (simp add: tell_all_def Let_def)
qed

lemma tell_all_managers [simp]: "pw_managers (tell_all h k m m' W) = pw_managers W"
  by (rule tell_all_keeps [where P = "\<lambda>V. pw_managers V = pw_managers W"]) simp_all

lemma deliver_managers [simp]: "pw_managers (deliver h k e w' W) = pw_managers (put_manager k w' W)"
  by (simp add: deliver_def Let_def split: option.split)

lemma gate_fields [simp]:
  "pw_managers (gate i now t W) = pw_managers W" "pw_leaving (gate i now t W) = pw_leaving W" "pw_writes (gate i now t W) = pw_writes W"
  "pw_errands (gate i now t W) = mdel i (pw_errands W)" "pw_next (gate i now t W) = pw_next W" "logouts (gate i now t W) = logouts W - {i}"
  "pl_persistedPairId (pw_plugin (gate i now t W)) = pl_persistedPairId (pw_plugin W)"
  "pl_data (pw_plugin (gate i now t W)) = pl_data (pw_plugin W)"
  by (auto simp: gate_def set_token_def split: option.split)

lemma renewed_fields [simp]:
  "pw_managers (renewed i t W) = pw_managers W" "pw_leaving (renewed i t W) = pw_leaving W" "pw_writes (renewed i t W) = pw_writes W"
  "pw_errands (renewed i t W) = mdel i (pw_errands W)" "pw_next (renewed i t W) = pw_next W" "pw_plugin (renewed i t W) = pw_plugin W"
  "logouts (renewed i t W) = logouts W - {i}"
  by (simp_all add: renewed_def)

lemma setUpDrive_shape:
  assumes "setUpDrive h p = (Inr u, q)"
  obtains m b where "q = p\<lparr> pl_manager := Some m, pl_browser := b \<rparr>" "lm_pairId m = pl_persistedPairId p"
    "lm_lease m = None" "lm_consentPending m = False" "lm_emitted m = []"
    "new_lease_manager (Some (allowedRootNameForRuntime (set_allowedRootName (pl_settings p)))) None None
       (pl_persistedPairId p) BETA_ROOT_FOLDER_NAME = Inr m"
  using assms
  by (fastforce simp: setUpDrive_def new_lease_manager_def Let_def split: sum.splits option.splits if_splits)

lemma rewire_Inl: "rewire h W = (Inl e, W') \<Longrightarrow> W' = W \<and> e = WiringFailed"
  by (auto simp: rewire_def split: prod.splits sum.splits option.splits)

lemma rewire_Inr:
  assumes "rewire h W = (Inr u, W')"
  obtains m b base where "W' = W\<lparr> pw_plugin := (pw_plugin W)\<lparr> pl_manager := Some m, pl_browser := b \<rparr>, pw_managers := pw_managers W @
       [\<lparr> mg_broker = base, mg_device = pl_identity (pw_plugin W), mg_world = starts_with_manager m \<rparr>] \<rparr>"
    "brokerBaseUrlForRuntime (ph_url h) (set_brokerBaseUrl (pl_settings (pw_plugin W))) = Inr base"
    "lm_pairId m = pl_persistedPairId (pw_plugin W)" "lm_lease m = None" "lm_consentPending m = False" "lm_emitted m = []"
    "new_lease_manager (Some (allowedRootNameForRuntime (set_allowedRootName (pl_settings (pw_plugin W))))) None None
       (pl_persistedPairId (pw_plugin W)) BETA_ROOT_FOLDER_NAME = Inr m"
proof -
  obtain u' p base m where s: "setUpDrive h (pw_plugin W) = (Inr u', p)"
    "brokerBaseUrlForRuntime (ph_url h) (set_brokerBaseUrl (pl_settings (pw_plugin W))) = Inr base" "pl_manager p = Some m"
    "W' = W\<lparr> pw_plugin := p, pw_managers := pw_managers W @
       [\<lparr> mg_broker = base, mg_device = pl_identity p, mg_world = starts_with_manager m \<rparr>] \<rparr>"
    using assms by (auto simp: rewire_def split: prod.splits sum.splits option.splits)
  from s(1) show thesis
    by (rule setUpDrive_shape) (rule that, use s in auto)
qed

text \<open>How a step moves the managers: not at all, one of them by its own step, or one more is made.\<close>

lemma index_current: "pw_managers W \<noteq> [] \<Longrightarrow> current_index W < length (pw_managers W)"
  by (simp add: current_index_def)

lemma change_managers:
  assumes "pw_managers (change_begin h c W) \<noteq> pw_managers W"
  obtains g m where "pw_managers (change_begin h c W) = pw_managers W @ [g]" "mg_world g = starts_with_manager m"
    "lm_pairId m = None" "lm_lease m = None" "lm_consentPending m = False"
proof -
  obtain r V where r: "rewire h (on_plugin (\<lambda>p. drop_pairing (p\<lparr> pl_settings := c \<rparr>)) (begin_errand W)) = (r, V)" by fastforce
  show thesis
  proof (cases r)
    case (Inl e)
    with assms r show ?thesis by (auto simp: change_begin_def Let_def dest!: rewire_Inl)
  next
    case (Inr u)
    with r have "pw_managers (change_begin h c W) = pw_managers V" by (simp add: change_begin_def Let_def)
    with r Inr that show ?thesis by (auto elim!: rewire_Inr simp: drop_pairing_def)
  qed
qed

lemma logout_written_managers:
  assumes "pw_managers (logout_written h ed x i W) \<noteq> pw_managers W"
  obtains g m where "pw_managers (logout_written h ed x i W) = pw_managers W @ [g]" "mg_world g = starts_with_manager m"
    "lm_pairId m = pl_persistedPairId (pw_plugin W)" "lm_lease m = None" "lm_consentPending m = False"
proof -
  obtain r V where r: "rewire h (on_plugin (\<lambda>p. p\<lparr> pl_token := [], pl_identity := generateDeviceIdentity (ph_crypto h) ed x \<rparr>) W) = (r, V)"
    by fastforce
  show thesis
  proof (cases r)
    case (Inl e)
    with assms r show ?thesis by (auto simp: logout_written_def dest!: rewire_Inl)
  next
    case (Inr u)
    with r have "pw_managers (logout_written h ed x i W) = pw_managers V" by (simp add: logout_written_def)
    with r Inr that show ?thesis by (auto elim!: rewire_Inr)
  qed
qed

lemma step_managers:
  assumes "plugin_step h e W W'" "pw_managers W \<noteq> []"
  obtains (same) "pw_managers W' = pw_managers W"
  | (moved) k f w where "k < length (pw_managers W)" "pw_managers W' = pw_managers (put_manager k w W)"
      "manager_step (ph_crypto h) (mg_device (pw_managers W ! k)) f (mg_world (pw_managers W ! k)) w"
      "e = Answered k f \<or> answered_task f = None"
  | (added) g m where "pw_managers W' = pw_managers W @ [g]" "mg_world g = starts_with_manager m"
      "lm_pairId m = None \<or> lm_pairId m = pl_persistedPairId (pw_plugin W) \<and> logouts W \<noteq> {}"
      "lm_lease m = None" "lm_consentPending m = False"
proof -
  note cur = index_current [OF assms(2)]
  have change: thesis if "W' = change_begin h c W" for c
    by (cases "pw_managers (change_begin h c W) = pw_managers W") (use that in \<open>auto elim!: change_managers intro: same added\<close>)
  from assms(1) show thesis
  proof cases
    case (change_broker v)
    then show ?thesis using change same by (auto simp: broker_changed_def Let_def split: if_splits)
  next
    case (change_root v)
    then show ?thesis using change same by (auto simp: root_changed_def Let_def split: if_splits)
  next
    case log_out
    then show ?thesis using cur
      by (intro moved [OF _ _ manager_step.logout]) (auto simp: logout_begin_def Let_def put_manager_def begin_errand_def)
  next
    case (logged_out i now ed x)
    then have "logouts W \<noteq> {}" by (auto simp: logouts_def)
    then show ?thesis using logged_out(2) same
      by (cases "pw_managers W' = pw_managers W") (auto elim!: logout_written_managers intro: added)
  qed (use cur in \<open>auto intro: same moved simp: put_manager_def begin_errand_def\<close>)
qed

lemma current_manager_same: "pw_managers W' = pw_managers W \<Longrightarrow> current_manager W' = current_manager W"
  by (simp add: current_manager_def current_index_def manager_at_def)

section \<open>The operations alone\<close>

definition idle_queue :: "'w write_queue \<Rightarrow> bool" where
  "idle_queue q \<longleftrightarrow> wq_pending q = [] \<and> wq_running q = None"

lemma save_with_snapshot:
  "save_with h e p = (case snapshot h e p of Inl x \<Rightarrow> (Inl x, p)
     | Inr v \<Rightarrow> if ph_saves h then (Inr (), p\<lparr> pl_data := v \<rparr>) else (Inl SaveFailed, p))"
  by (simp add: save_with_def snapshot_def split: sum.split)

lemma reaches_two:
  "plugin_reaches h G W0 es W \<Longrightarrow> G e W \<Longrightarrow> plugin_step h e W W1 \<Longrightarrow> G f W1 \<Longrightarrow> plugin_step h f W1 W2 \<Longrightarrow>
     plugin_reaches h G W0 (es @ [e, f]) W2"
  using plugin_reaches.step [OF plugin_reaches.step] by force

text \<open>The write of a single waiting snapshot.\<close>

lemma write_alone:
  assumes "plugin_reaches h G W0 es (save_later h i why e V)" "snapshot h e (pw_plugin V) = Inr v"
    and "idle_queue (pw_writes V)" "pw_errands V = []" "\<And>U. G WriteTurn U \<and> G (WriteSettled ok) U"
  obtains fs U where "plugin_reaches h G W0 (es @ fs) U" "pw_errands U = [(i, Saving why, Some ok)]" "idle_queue (pw_writes U)"
    "pw_plugin U = (if ok then (pw_plugin V)\<lparr> pl_data := v \<rparr> else pw_plugin V)" "pw_managers U = pw_managers V"
    "pw_answers U = pw_answers V" "pw_leaving U = pw_leaving V"
proof -
  let ?n = "wq_latest (pw_writes V) + 1"
  define V1 where "V1 = save_later h i why e V"
  have V1: "wq_running (pw_writes V1) = None" "wq_pending (pw_writes V1) = [(?n, i, v)]" "wq_latest (pw_writes V1) = ?n"
    "pw_errands V1 = [(i, Saving why, None)]" "pw_plugin V1 = pw_plugin V" "pw_managers V1 = pw_managers V"
    "pw_answers V1 = pw_answers V" "pw_leaving V1 = pw_leaving V"
    using assms(2-4) by (simp_all add: V1_def save_later_def idle_queue_def)
  define V2 where "V2 = V1\<lparr> pw_writes := queue_step Turn (pw_writes V1) \<rparr>"
  have s1: "plugin_step h WriteTurn V1 V2"
    unfolding V2_def by (rule write_begun [OF V1(1,2)]) (simp add: V1)
  have V2: "wq_running (pw_writes V2) = Some (i, v)" "wq_pending (pw_writes V2) = []" by (simp_all add: V2_def V1)
  define U where "U = wake (\<lambda>n _. n = i) ok (on_plugin (\<lambda>p. if ok then p\<lparr> pl_data := v \<rparr> else p)
      (V2\<lparr> pw_writes := queue_step (Settled ok) (pw_writes V2) \<rparr>))"
  have s2: "plugin_step h (WriteSettled ok) V2 U" unfolding U_def by (rule write_settled [OF V2(1)])
  have "plugin_reaches h G W0 (es @ [WriteTurn, WriteSettled ok]) U"
    using assms(1) s1 s2 unfolding V1_def by (intro reaches_two) (auto simp: assms(5))
  moreover have "pw_errands U = [(i, Saving why, Some ok)]" by (simp add: U_def V2_def V1 wake_def)
  ultimately show thesis
    by (rule that) (auto simp: U_def V2_def V1 idle_queue_def)
qed

lemma setUpDrive_parts:
  assumes "setUpDrive h p = (Inr u, q)"
  obtains m base where "pl_manager q = Some m"
    "brokerBaseUrlForRuntime (ph_url h) (set_brokerBaseUrl (pl_settings p)) = Inr base"
  using assms by (auto simp: setUpDrive_def Let_def split: sum.splits)

lemma setUpDrive_Inl: "setUpDrive h p = (Inl e, q) \<Longrightarrow> e = WiringFailed \<and> q = p"
  by (auto simp: setUpDrive_def Let_def split: sum.splits)

lemma rewire_alone_Inl: "setUpDrive h (pw_plugin W) = (Inl e, q) \<Longrightarrow> rewire h W = (Inl WiringFailed, W)"
  by (simp add: rewire_def)

lemma rewire_alone:
  assumes "setUpDrive h (pw_plugin W) = (Inr u, q)"
  obtains m base where "pl_manager q = Some m" "rewire h W = (Inr (), W\<lparr> pw_plugin := q,
     pw_managers := pw_managers W @ [\<lparr> mg_broker = base, mg_device = pl_identity q, mg_world = starts_with_manager m \<rparr>] \<rparr>)"
proof -
  from assms obtain m base where "pl_manager q = Some m"
    "brokerBaseUrlForRuntime (ph_url h) (set_brokerBaseUrl (pl_settings (pw_plugin W))) = Inr base"
    by (rule setUpDrive_parts)
  with assms that show thesis by (simp add: rewire_def)
qed

lemma opened_fields [simp]:
  "pw_plugin (opened base m p) = p" "pw_errands (opened base m p) = []" "pw_next (opened base m p) = 0"
  "pw_answers (opened base m p) = []" "idle_queue (pw_writes (opened base m p))" "\<not> pw_leaving (opened base m p)"
  "pw_managers (opened base m p) = [\<lparr> mg_broker = base, mg_device = pl_identity p, mg_world = starts_with_manager m \<rparr>]"
  by (simp_all add: opened_def idle_queue_def new_write_queue_def)

lemma plugin_now_same: "pl_manager q = Some (current_manager W) \<Longrightarrow> pw_plugin W = q \<Longrightarrow> plugin_now W = q"
  by (simp add: plugin_now_def)

text \<open>What \<^verbatim>\<open>saveSettings\<close> and a change of the settings do when nothing else is under way.\<close>

definition settles_as :: "'x plugin_host \<Rightarrow> (plugin_event \<Rightarrow> plugin_world \<Rightarrow> bool) \<Rightarrow> plugin_world \<Rightarrow> plugin_event list \<Rightarrow>
    (plugin_error, unit) result \<times> plugin \<Rightarrow> bool" where
  "settles_as h G W0 es r \<longleftrightarrow> (\<exists>fs W. plugin_reaches h G W0 (es @ fs) W \<and> pw_errands W = [] \<and> idle_queue (pw_writes W)
     \<and> pw_answers W = [(0, fst r)] \<and> plugin_now W = snd r \<and> \<not> pw_leaving W)"

definition permits :: "'x plugin_host \<Rightarrow> (plugin_event \<Rightarrow> plugin_world \<Rightarrow> bool) \<Rightarrow> bool" where
  "permits h G \<longleftrightarrow> (\<forall>U. G WriteTurn U \<and> G (WriteSettled (ph_saves h)) U)
     \<and> (\<forall>U i why s now ed x. mget (pw_errands U) i = Some (Saving why, s) \<longrightarrow> G (Resumed i now ed x) U)"

lemma permits_one_logout: "permits h one_logout"
  by (simp add: permits_def one_logout_def)

lemma save_alone:
  assumes run: "plugin_reaches h G W0 es (save_begin h 0 AfterChange (enrollment_of (current_manager V)) V)"
    and V: "pw_errands V = []" "idle_queue (pw_writes V)" "pw_answers V = []" "\<not> pw_leaving V"
      "pl_manager (pw_plugin V) = Some (current_manager V)"
    and G: "permits h G"
  shows "settles_as h G W0 es (saveSettings h (pw_plugin V))"
proof -
  let ?e = "toPersistedEnrollment (enrollment_of (current_manager V))" and ?K = "on_plugin keep_keys V"
  have save: "saveSettings h (pw_plugin V) = save_with h ?e (keep_keys (pw_plugin V))"
    using V(5) by (simp add: saveSettings_def Let_def keep_keys_def current_enrollment_def)
  have man: "pl_manager (keep_keys (pw_plugin V)) = Some (current_manager V)" using V(5) by (simp add: keep_keys_def)
  show ?thesis
  proof (cases "snapshot h ?e (keep_keys (pw_plugin V))")
    case (Inl y)
    with run V man show ?thesis
      unfolding settles_as_def by (intro exI [of _ "[]"] exI)
        (auto simp: save save_with_snapshot save_begin_def save_later_def conclude_def idle_queue_def
          intro!: plugin_now_same current_manager_same)
  next
    case (Inr v)
    let ?ok = "ph_saves h"
    obtain fs U where U: "plugin_reaches h G W0 (es @ fs) U" "pw_errands U = [(0, Saving AfterChange, Some ?ok)]"
      "idle_queue (pw_writes U)" "pw_plugin U = (if ?ok then (keep_keys (pw_plugin V))\<lparr> pl_data := v \<rparr> else keep_keys (pw_plugin V))"
      "pw_managers U = pw_managers V" "pw_answers U = []" "\<not> pw_leaving U"
      by (rule write_alone [where G = G and ?W0.0 = W0 and es = es and V = ?K and i = 0 and why = AfterChange and e = ?e and ok = ?ok])
        (use run Inr V G in \<open>auto simp: save_begin_def permits_def\<close>)
    define r :: "(plugin_error, unit) result" where "r = (if ?ok then Inr () else Inl SaveFailed)"
    have "plugin_step h (Resumed 0 0 [] []) U (conclude 0 AfterChange r U)"
      unfolding r_def using U(2) by (cases ?ok) (auto intro: plugin_step.saved plugin_step.save_failed)
    with U(1) have "plugin_reaches h G W0 (es @ fs @ [Resumed 0 0 [] []]) (conclude 0 AfterChange r U)"
      using plugin_reaches.step [of h G W0 "es @ fs" U] G U(2) by (simp add: permits_def)
    with U V man Inr show ?thesis
      unfolding settles_as_def
      by (intro exI [of _ "fs @ [Resumed 0 0 [] []]"] exI [of _ "conclude 0 AfterChange r U"])
        (auto simp: save save_with_snapshot r_def conclude_def idle_queue_def current_manager_def current_index_def manager_at_def
          plugin_now_def)
  qed
qed

lemma change_alone:
  assumes man: "pl_manager p = Some m" and G: "permits h G" "G e (opened base m p)"
    and step: "plugin_step h e (opened base m p) (change_begin h c (opened base m p))"
  shows "settles_as h G (opened base m p) [e] (then_do (setUpDrive h (drop_pairing (p\<lparr> pl_settings := c \<rparr>))) (saveSettings h))"
proof -
  let ?O = "opened base m p"
  let ?W = "on_plugin (\<lambda>p. drop_pairing (p\<lparr> pl_settings := c \<rparr>)) (begin_errand ?O)"
  from plugin_reaches.step [OF plugin_reaches.idle _ step] G(2)
  have run: "plugin_reaches h G ?O [e] (change_begin h c ?O)" by simp
  obtain r q where s: "setUpDrive h (pw_plugin ?W) = (r, q)" by fastforce
  show ?thesis
  proof (cases r)
    case (Inl x)
    with s have "change_begin h c ?O = finish 0 (Inl WiringFailed) ?W"
      by (simp add: change_begin_def Let_def rewire_alone_Inl)
    with run s Inl setUpDrive_Inl [of h "pw_plugin ?W" x q] man show ?thesis
      unfolding settles_as_def
      by (intro exI [of _ "[]"] exI [of _ "finish 0 (Inl WiringFailed) ?W"])
        (auto simp: drop_pairing_def plugin_now_def current_manager_def current_index_def manager_at_def starts_with_manager_def)
  next
    case (Inr u)
    from s have "setUpDrive h (pw_plugin ?W) = (Inr u, q)" by (simp only: Inr)
    then obtain m' b where q: "pl_manager q = Some m'" and w: "rewire h ?W = (Inr (), ?W\<lparr> pw_plugin := q, pw_managers := pw_managers ?W @
        [\<lparr> mg_broker = b, mg_device = pl_identity q, mg_world = starts_with_manager m' \<rparr>] \<rparr>)"
      by (rule rewire_alone)
    define V where "V = snd (rewire h ?W)"
    have V: "pw_plugin V = q" "pw_errands V = []" "idle_queue (pw_writes V)" "pw_answers V = []" "\<not> pw_leaving V"
      "current_manager V = m'"
      by (simp_all add: V_def w current_manager_def current_index_def manager_at_def starts_with_manager_def)
    have "change_begin h c ?O = save_begin h 0 AfterChange (enrollment_of (current_manager V)) V"
      by (simp add: change_begin_def Let_def V_def w)
    with run have "settles_as h G ?O [e] (saveSettings h (pw_plugin V))"
      by (intro save_alone V(2-5) G(1)) (simp_all add: q V)
    with V(1) have "settles_as h G ?O [e] (saveSettings h q)" by simp
    with s Inr show ?thesis by simp
  qed
qed

lemma unchanged_alone:
  assumes "pl_manager p = Some m" "e \<noteq> LogOut"
    and "plugin_step h e (opened base m p) (finish 0 (Inr ()) (begin_errand (opened base m p)))"
  shows "settles_as h one_logout (opened base m p) [e] (Inr (), p)"
  using plugin_reaches.step [OF plugin_reaches.idle _ assms(3), of one_logout] assms(1,2)
  unfolding settles_as_def
  by (intro exI [of _ "[]"] exI [of _ "finish 0 (Inr ()) (begin_errand (opened base m p))"])
    (auto simp: one_logout_def plugin_now_def current_manager_def current_index_def manager_at_def starts_with_manager_def)

definition renew_identity :: "'x plugin_host \<Rightarrow> bytes \<Rightarrow> bytes \<Rightarrow> plugin \<Rightarrow> plugin" where
  "renew_identity h ed x p = p\<lparr> pl_token := [], pl_identity := generateDeviceIdentity (ph_crypto h) ed x \<rparr>"

lemma setUpDrive_manager:
  "setUpDrive h (p\<lparr> pl_manager := y \<rparr>) = (case setUpDrive h p of (Inl e, q) \<Rightarrow> (Inl e, p\<lparr> pl_manager := y \<rparr>) | (Inr u, q) \<Rightarrow> (Inr u, q))"
  by (simp add: setUpDrive_def Let_def split: sum.split)

lemma logout_written_now:
  "pw_answers (logout_written h ed x i U) = pw_answers U @ [(i, fst (setUpDrive h (renew_identity h ed x (plugin_now U))))]
   \<and> plugin_now (logout_written h ed x i U) = snd (setUpDrive h (renew_identity h ed x (plugin_now U)))
   \<and> pw_errands (logout_written h ed x i U) = mdel i (pw_errands U) \<and> pw_writes (logout_written h ed x i U) = pw_writes U
   \<and> \<not> pw_leaving (logout_written h ed x i U)"
proof -
  let ?W = "on_plugin (renew_identity h ed x) U"
  have now: "renew_identity h ed x (plugin_now U) = (pw_plugin ?W)\<lparr> pl_manager := Some (current_manager U) \<rparr>"
    by (simp add: renew_identity_def plugin_now_def)
  have eq: "logout_written h ed x i U = (case rewire h ?W of (r, V) \<Rightarrow> conclude i AfterLogout r V)"
    by (simp add: logout_written_def renew_identity_def [abs_def])
  obtain r q where s: "setUpDrive h (pw_plugin ?W) = (r, q)" by fastforce
  show ?thesis
  proof (cases r)
    case (Inl e)
    with s setUpDrive_Inl [OF s [unfolded Inl]] show ?thesis
      unfolding now by (auto simp: setUpDrive_manager eq rewire_alone_Inl conclude_def plugin_now_def current_manager_def
          current_index_def manager_at_def)
  next
    case (Inr u)
    with s have "setUpDrive h (pw_plugin ?W) = (Inr u, q)" by simp
    then obtain m b where q: "pl_manager q = Some m" and w: "rewire h ?W = (Inr (), ?W\<lparr> pw_plugin := q, pw_managers := pw_managers ?W @
        [\<lparr> mg_broker = b, mg_device = pl_identity q, mg_world = starts_with_manager m \<rparr>] \<rparr>)"
      by (rule rewire_alone)
    with s Inr show ?thesis
      unfolding now by (auto simp: setUpDrive_manager eq conclude_def plugin_now_def current_manager_def
          current_index_def manager_at_def starts_with_manager_def)
  qed
qed

text \<open>The logout up to its write, as the world whose snapshot is written and as the function's first part.\<close>

lemma logout_parts:
  assumes "pl_manager p = Some m"
  obtains V p1 where "logout_begin h (opened base m p) = save_later h 0 AfterLogout no_enrollment V"
    "logout h p = then_do (save_with h no_enrollment p1) (\<lambda>q. setUpDrive h (renew_identity h (ph_ed h) (ph_x h) q))"
    "plugin_now V = p1" "pw_errands V = []" "idle_queue (pw_writes V)" "pw_answers V = []" "pw_leaving V"
proof -
  define f :: "plugin \<Rightarrow> plugin" where "f = (\<lambda>p. p\<lparr> pl_secrets := clearDeviceIdentity (pl_secrets p), pl_persistedPairId := None \<rparr>)"
  define V where "V = on_plugin f (put_manager 0 ((starts_with_manager m)\<lparr> w_manager := clear_manager m \<rparr>)
      ((begin_errand (opened base m p))\<lparr> pw_leaving := True \<rparr>))"
  have now: "plugin_now V = p\<lparr> pl_manager := Some (clear_manager m), pl_secrets := clearDeviceIdentity (pl_secrets p), pl_persistedPairId := None \<rparr>"
    by (simp add: V_def f_def plugin_now_def current_manager_def manager_at_def current_index_def put_manager_def)
  show thesis
  proof (rule that [of V "plugin_now V"])
    show "logout_begin h (opened base m p) = save_later h 0 AfterLogout no_enrollment V"
      by (simp add: logout_begin_def Let_def V_def f_def current_index_def starts_with_manager_def)
    show "logout h p = then_do (save_with h no_enrollment (plugin_now V)) (\<lambda>q. setUpDrive h (renew_identity h (ph_ed h) (ph_x h) q))"
      using assms by (simp add: logout_def Let_def renew_identity_def now)
  qed (simp_all add: V_def)
qed

lemma snapshot_now: "snapshot h e (plugin_now V) = snapshot h e (pw_plugin V)"
  by (simp add: snapshot_def plugin_now_def)

lemma plugin_now_conclude: "plugin_now (conclude i AfterLogout r U) = plugin_now U"
  by (simp add: conclude_def plugin_now_def current_manager_def current_index_def manager_at_def)

lemma logout_alone:
  assumes man: "pl_manager p = Some m"
  shows "settles_as h one_logout (opened base m p) [LogOut] (logout h p)"
proof -
  let ?O = "opened base m p"
  obtain V p1 where V: "logout_begin h ?O = save_later h 0 AfterLogout no_enrollment V" "plugin_now V = p1" "pw_errands V = []"
    "idle_queue (pw_writes V)" "pw_answers V = []" "pw_leaving V"
    and logout: "logout h p = then_do (save_with h no_enrollment p1) (\<lambda>q. setUpDrive h (renew_identity h (ph_ed h) (ph_x h) q))"
    by (rule logout_parts [OF man, of h base])
  from plugin_reaches.step [OF plugin_reaches.idle _ plugin_step.log_out, of one_logout ?O h]
  have run: "plugin_reaches h one_logout ?O [LogOut] (save_later h 0 AfterLogout no_enrollment V)"
    by (simp add: one_logout_def V(1))
  have shot: "snapshot h no_enrollment p1 = snapshot h no_enrollment (pw_plugin V)" using snapshot_now V(2) by metis
  show ?thesis
  proof (cases "snapshot h no_enrollment (pw_plugin V)")
    case (Inl y)
    then have "save_later h 0 AfterLogout no_enrollment V = conclude 0 AfterLogout (Inl y) V" by (simp add: save_later_def)
    with run V Inl show ?thesis
      unfolding settles_as_def
      by (intro exI [of _ "[]"] exI [of _ "conclude 0 AfterLogout (Inl y) V"]) (simp add: logout save_with_snapshot shot plugin_now_conclude)
  next
    case (Inr v)
    obtain fs U where U: "plugin_reaches h one_logout ?O ([LogOut] @ fs) U" "pw_errands U = [(0, Saving AfterLogout, Some (ph_saves h))]"
      "idle_queue (pw_writes U)" "pw_plugin U = (if ph_saves h then (pw_plugin V)\<lparr> pl_data := v \<rparr> else pw_plugin V)"
      "pw_managers U = pw_managers V" "pw_answers U = []"
      by (rule write_alone [OF run, where ok = "ph_saves h"]) (use Inr V in \<open>auto simp: one_logout_def\<close>)
    from current_manager_same [OF U(5)] U(4) V(2) have now: "plugin_now U = (if ph_saves h then p1\<lparr> pl_data := v \<rparr> else p1)"
      by (auto simp: plugin_now_def)
    define Z where "Z = (if ph_saves h then logout_written h (ph_ed h) (ph_x h) 0 U else conclude 0 AfterLogout (Inl SaveFailed) U)"
    have "plugin_step h (Resumed 0 0 (ph_ed h) (ph_x h)) U Z"
      unfolding Z_def using U(2) by (auto intro: plugin_step.logged_out plugin_step.save_failed)
    with U(1) have "plugin_reaches h one_logout ?O (([LogOut] @ fs) @ [Resumed 0 0 (ph_ed h) (ph_x h)]) Z"
      by (intro plugin_reaches.step) (auto simp: one_logout_def)
    moreover have "pw_answers Z = [(0, fst (logout h p))] \<and> plugin_now Z = snd (logout h p) \<and> pw_errands Z = [] \<and> idle_queue (pw_writes Z) \<and> \<not> pw_leaving Z"
      using logout_written_now [of h "ph_ed h" "ph_x h" 0 U] U(2,3,6) now Inr
      by (cases "ph_saves h") (simp_all add: Z_def logout save_with_snapshot shot plugin_now_conclude)
    ultimately show ?thesis unfolding settles_as_def by (metis append.assoc)
  qed
qed

lemma read_alone:
  assumes "pl_manager p = Some m" "manager_status m \<noteq> DeviceEnrolled \<or> token_now (ph_now h) m \<noteq> None"
  shows "settles_as h one_logout (opened base m p) [Read (ph_now h)] (authorizeDrive h renew p)"
proof -
  let ?O = "opened base m p"
  have cur: "current_manager ?O = m"
    by (simp add: current_manager_def current_index_def manager_at_def starts_with_manager_def)
  have adopt: "adopt_manager h m m p = p" using assms(1) by (simp add: adopt_manager_def Let_def)
  obtain W where s: "plugin_step h (Read (ph_now h)) ?O W" and W: "pw_answers W = [(0, fst (authorizeDrive h renew p))]"
    "plugin_now W = snd (authorizeDrive h renew p)" "pw_errands W = []" "idle_queue (pw_writes W)" "\<not> pw_leaving W"
  proof (cases "manager_status m = DeviceEnrolled")
    case False
    show thesis
      by (rule that [OF read_refused]) (use False assms(1) cur in
        \<open>auto simp: authorizeDrive_def plugin_now_def current_manager_def current_index_def manager_at_def\<close>)
  next
    case True
    with assms(2) obtain t where t: "token_now (ph_now h) m = Some t" by auto
    show thesis
      by (rule that [OF read_at_hand [where t = t]]) (use True t assms(1) cur adopt in
        \<open>auto simp: authorizeDrive_def getValidAccessToken_def gate_def set_token_def plugin_now_def current_manager_def
           current_index_def manager_at_def split: option.split\<close>)
  qed
  have "plugin_reaches h one_logout ?O ([] @ [Read (ph_now h)]) W"
    by (rule plugin_reaches.step [OF plugin_reaches.idle _ s]) (simp add: one_logout_def)
  with W show ?thesis unfolding settles_as_def by (intro exI [of _ "[]"] exI [of _ W]) simp
qed

text \<open>
  The operations cut at their awaits are the operations: with nothing else under way, a change of the
  broker or of the root folder, a logout, and a read that needs no renewal run to one answer and leave the
  plugin as the functions that run to their end say, whether settings and data are accepted or refused and
  whether the write succeeds or fails.
\<close>
theorem errands_refine_operations:
  assumes "pl_manager p = Some m"
  shows "settles_as h one_logout (opened base m p) [ChangeBroker v] (updateBrokerBaseUrl h v p)
    \<and> settles_as h one_logout (opened base m p) [ChangeRoot v] (updateAllowedRootName h v p)
    \<and> settles_as h one_logout (opened base m p) [LogOut] (logout h p)
    \<and> (manager_status m \<noteq> DeviceEnrolled \<or> token_now (ph_now h) m \<noteq> None \<longrightarrow>
         settles_as h one_logout (opened base m p) [Read (ph_now h)] (authorizeDrive h renew p))"
proof (intro conjI impI)
  show "settles_as h one_logout (opened base m p) [ChangeBroker v] (updateBrokerBaseUrl h v p)"
    using change_alone [OF assms permits_one_logout, of "ChangeBroker v" base h] unchanged_alone [OF assms, of "ChangeBroker v" h base]
      change_broker [of h v "opened base m p"]
    by (auto simp: updateBrokerBaseUrl_def broker_changed_def one_logout_def Let_def split: if_splits)
  show "settles_as h one_logout (opened base m p) [ChangeRoot v] (updateAllowedRootName h v p)"
    using change_alone [OF assms permits_one_logout, of "ChangeRoot v" base h] unchanged_alone [OF assms, of "ChangeRoot v" h base]
      change_root [of h v "opened base m p"]
    by (auto simp: updateAllowedRootName_def root_changed_def one_logout_def Let_def split: if_splits)
qed (use assms logout_alone read_alone in blast)+

section \<open>Wiring that succeeds\<close>

lemma setUpDrive_succeeds:
  assumes "setUpDrive h p = (Inr u, q)" "pl_settings p' = pl_settings p" "pl_persistedPairId p' = pl_persistedPairId p"
  obtains m b where "setUpDrive h p' = (Inr (), p'\<lparr> pl_manager := Some m, pl_browser := b \<rparr>)" "lm_pairId m = pl_persistedPairId p"
proof -
  from assms obtain q' where s: "setUpDrive h p' = (Inr (), q')"
    by (auto simp: setUpDrive_def Let_def split: sum.splits)
  show thesis
    by (rule setUpDrive_shape [OF s]) (use s assms(3) that in auto)
qed

lemma rewire_succeeds:
  assumes "setUpDrive h p = (Inr u, q)" "pl_settings (pw_plugin W) = pl_settings p" "pl_persistedPairId (pw_plugin W) = pl_persistedPairId p"
  obtains m b base where "rewire h W = (Inr (), W\<lparr> pw_plugin := (pw_plugin W)\<lparr> pl_manager := Some m, pl_browser := b \<rparr>,
      pw_managers := pw_managers W @ [\<lparr> mg_broker = base, mg_device = pl_identity (pw_plugin W), mg_world = starts_with_manager m \<rparr>] \<rparr>)"
    "lm_pairId m = pl_persistedPairId p" "lm_lease m = None" "lm_consentPending m = False"
proof -
  obtain m b where "setUpDrive h (pw_plugin W) = (Inr (), (pw_plugin W)\<lparr> pl_manager := Some m, pl_browser := b \<rparr>)"
    by (rule setUpDrive_succeeds [OF assms])
  then obtain V where V: "rewire h W = (Inr (), V)" by (rule rewire_alone)
  show thesis
    by (rule rewire_Inr [OF V]) (rule that, use V assms(3) in auto)
qed

lemma set_changed:
  assumes "brokerChangeInvalidatesEnrollment (ph_url h) (set_brokerBaseUrl (pl_settings p)) v" "updateBrokerBaseUrl h v p = (Inr (), q)"
  obtains c p1 y where "c = (pl_settings p)\<lparr> set_brokerBaseUrl := normalizeBrokerBaseUrl (ph_url h) v \<rparr>"
    "setUpDrive h (drop_pairing (p\<lparr> pl_settings := c \<rparr>)) = (Inr (), p1)"
    "\<And>p'. pl_settings p' = c \<Longrightarrow> snapshot h no_enrollment p' = Inr y"
proof -
  let ?c = "(pl_settings p)\<lparr> set_brokerBaseUrl := normalizeBrokerBaseUrl (ph_url h) v \<rparr>"
  from assms obtain p1 where w: "setUpDrive h (drop_pairing (p\<lparr> pl_settings := ?c \<rparr>)) = (Inr (), p1)" and s: "saveSettings h p1 = (Inr (), q)"
    by (auto simp: updateBrokerBaseUrl_def dest!: then_do_Inr)
  let ?k = "p1\<lparr> pl_secrets := saveDeviceIdentity (pl_secrets p1) (pl_identity p1) \<rparr>"
  have p1: "pl_settings p1 = ?c" "toPersistedEnrollment (current_enrollment ?k) = no_enrollment"
    by (rule setUpDrive_shape [OF w]; simp add: drop_pairing_def current_enrollment_def toPersistedEnrollment_def enrollment_of_def
        truthy_def no_enrollment_def)+
  from s have "save_with h no_enrollment ?k = (Inr (), q)" by (simp add: saveSettings_def Let_def flip: p1(2))
  then obtain y where "snapshot h no_enrollment ?k = Inr y" by (auto simp: save_with_snapshot split: sum.splits)
  then have "snapshot h no_enrollment p' = Inr y" if "pl_settings p' = ?c" for p'
    using that p1(1) by (simp add: snapshot_def)
  with w show thesis by (intro that) auto
qed

lemma changed_world:
  assumes "brokerChangeInvalidatesEnrollment (ph_url h) (set_brokerBaseUrl (pl_settings p)) v" "updateBrokerBaseUrl h v p = (Inr (), q)"
    and "pl_settings (pw_plugin W) = pl_settings p"
  obtains g n where "pw_managers (broker_changed h v W) = pw_managers W @ [g]" "mg_world g = starts_with_manager n" "lm_pairId n = None"
    "pl_settings (pw_plugin (broker_changed h v W)) = (pl_settings p)\<lparr> set_brokerBaseUrl := normalizeBrokerBaseUrl (ph_url h) v \<rparr>"
proof -
  obtain c p1 y where c: "c = (pl_settings p)\<lparr> set_brokerBaseUrl := normalizeBrokerBaseUrl (ph_url h) v \<rparr>"
    and wire: "setUpDrive h (drop_pairing (p\<lparr> pl_settings := c \<rparr>)) = (Inr (), p1)"
    by (rule set_changed [OF assms(1,2)]) (rule that)
  let ?V = "on_plugin (\<lambda>p. drop_pairing (p\<lparr> pl_settings := c \<rparr>)) (begin_errand W)"
  obtain n b d where V: "rewire h ?V = (Inr (), ?V\<lparr> pw_plugin := (pw_plugin ?V)\<lparr> pl_manager := Some n, pl_browser := b \<rparr>,
      pw_managers := pw_managers ?V @ [\<lparr> mg_broker = d, mg_device = pl_identity (pw_plugin ?V), mg_world = starts_with_manager n \<rparr>] \<rparr>)"
    "lm_pairId n = None"
    by (rule rewire_succeeds [OF wire, of ?V]) (simp_all add: drop_pairing_def)
  have keeps: "pl_settings (pw_plugin (save_begin h i AfterChange e X)) = pl_settings (pw_plugin X)" for i e X
    by (simp add: save_begin_def save_later_def conclude_def keep_keys_def split: sum.split)
  have drop_settings: "pl_settings (drop_pairing X) = pl_settings X" for X by (simp add: drop_pairing_def)
  show thesis
    by (rule that [of "\<lparr> mg_broker = d, mg_device = pl_identity (pw_plugin ?V), mg_world = starts_with_manager n \<rparr>" n])
      (use V(2) in \<open>simp_all add: broker_changed_def change_begin_def Let_def assms(1,3) V(1) c keeps drop_settings
        flip: c\<close>)
qed

abbreviation ex_opened :: plugin_world where
  "ex_opened \<equiv> opened ''https://a'' ex_leased_manager ex_plugin"

theorem errands_refine_operations_witness:
  "settles_as ex_plugin_host one_logout ex_opened [LogOut] (logout ex_plugin_host ex_plugin)"
  using errands_refine_operations [of ex_plugin ex_leased_manager ex_plugin_host] by (simp add: ex_plugin_def)

end
