(* ===== verification/PluginRuns.thy ===== *)
theory PluginRuns
  imports PluginTasks
begin

text \<open>
  What holds of every run of the plugin's interleaved operations: where a pairing can go, what a read that
  waited is decided by, and what the plugin data say when nothing is left to be written.
\<close>

section \<open>A pairing stays with its broker\<close>

fun task_pairing :: "task \<Rightarrow> string option" where
  "task_pairing AwaitPair = None"
| "task_pairing (AwaitConsentUrl p) = Some (pr_pairId p)"
| "task_pairing (AwaitClaim p k) = Some (pr_pairId p)"
| "task_pairing (Sleeping p k) = Some (pr_pairId p)"
| "task_pairing (AwaitNonce p) = Some p"
| "task_pairing (AwaitLease p n) = Some p"

text \<open>The pairing a manager keeps and the ones its tasks present are in \<open>P\<close>.\<close>

definition pairs_in :: "string set \<Rightarrow> manager_world \<Rightarrow> bool" where
  "pairs_in P w \<longleftrightarrow> (\<forall>p. lm_pairId (w_manager w) = Some p \<longrightarrow> p \<in> P)
     \<and> (\<forall>n t p. mget (w_tasks w) n = Some t \<and> task_pairing t = Some p \<longrightarrow> p \<in> P)"

definition given_by :: "manager_event set \<Rightarrow> string set" where
  "given_by es = {pr_pairId p | n p. PairAnswer n (Inr p) \<in> es}"

lemma pairs_in_mono: "pairs_in P w \<Longrightarrow> P \<subseteq> Q \<Longrightarrow> pairs_in Q w"
  unfolding pairs_in_def by blast

lemma applyLease_pairing: "applyLease N d r m = (y, m') \<Longrightarrow> lm_pairId m' = lm_pairId m"
  by (cases y) (auto dest: applyLease_Inl elim!: applyLease_Inr simp: emit_def)

lemma manager_moves_pairing [simp]:
  "lm_pairId (clear_manager m) = None" "lm_pairId (paired p m) = Some (pr_pairId p)" "lm_pairId (claim_expired m) = None"
  "lm_pairId (renewal_done m) = lm_pairId m"
  "lm_pairId (renewal_failed c m) = (if c \<in> {ClientRevoked, ClientExpired} then None else lm_pairId m)"
  by (auto simp: manager_moves)

lemma pairs_in_step: "manager_step N d f w w' \<Longrightarrow> pairs_in P w \<Longrightarrow> pairs_in (P \<union> given_by {f}) w'"
  by (induction rule: manager_step.induct)
    (auto simp: pairs_in_def given_by_def task_moves split: nat.splits if_splits dest: applyLease_pairing,
      (metis task_pairing.simps)+)

text \<open>While a logout writes, no pairing is kept for the next manager; there is one such logout at a time.\<close>

definition leave_inv :: "plugin_world \<Rightarrow> bool" where
  "leave_inv W \<longleftrightarrow> (pw_leaving W \<longrightarrow> pl_persistedPairId (pw_plugin W) = None) \<and> (logouts W \<noteq> {} \<longrightarrow> pw_leaving W)
     \<and> (\<forall>i \<in> logouts W. \<forall>j \<in> logouts W. i = j) \<and> logouts W \<subseteq> {..<pw_next W}"

lemma leave_none: "leave_inv W \<Longrightarrow> logouts W \<noteq> {} \<Longrightarrow> pl_persistedPairId (pw_plugin W) = None"
  by (simp add: leave_inv_def)

lemma leave_inv_same:
  assumes "leave_inv W" "pw_leaving W' = pw_leaving W" "logouts W' \<subseteq> logouts W" "pw_next W \<le> pw_next W'"
    and "pw_leaving W \<longrightarrow> pl_persistedPairId (pw_plugin W') \<in> {None, pl_persistedPairId (pw_plugin W)}"
  shows "leave_inv W'"
  using assms unfolding leave_inv_def by (auto simp: subset_iff)

lemma save_leave [simp]:
  assumes "why \<noteq> AfterLogout"
  shows "pw_leaving (save_later h i why e W) = pw_leaving W" "logouts (save_later h i why e W) = logouts W - {i}"
    "pw_leaving (save_begin h i why v W) = pw_leaving W" "logouts (save_begin h i why v W) = logouts W - {i}"
  using assms by (simp_all add: save_begin_def save_later_def split: sum.split)

lemma onEnrollment_leave: "leave_inv W \<Longrightarrow> leave_inv (onEnrollment h e v W)"
  by (cases "pw_leaving W")
    (auto simp: onEnrollment_def leave_inv_def subset_iff less_Suc_eq)

lemma change_leave: "leave_inv W \<Longrightarrow> leave_inv (change_begin h c W)"
proof -
  assume inv: "leave_inv W"
  obtain r V where r: "rewire h (on_plugin (\<lambda>p. drop_pairing (p\<lparr> pl_settings := c \<rparr>)) (begin_errand W)) = (r, V)" by fastforce
  show ?thesis
  proof (cases r)
    case (Inl e)
    with r inv show ?thesis
      by (intro leave_inv_same [OF inv]) (auto simp: change_begin_def Let_def drop_pairing_def dest!: rewire_Inl)
  next
    case (Inr u)
    then have "change_begin h c W = save_begin h (pw_next W) AfterChange (enrollment_of (current_manager V)) V"
      using r by (simp add: change_begin_def Let_def)
    with r Inr show ?thesis by (auto elim!: rewire_Inr intro!: leave_inv_same [OF inv] simp: drop_pairing_def)
  qed
qed

lemma logout_begin_leave: "leave_inv W \<Longrightarrow> \<not> pw_leaving W \<Longrightarrow> leave_inv (logout_begin h W)"
  by (auto simp: logout_begin_def Let_def save_later_def leave_inv_def conclude_def split: sum.split)

lemma logout_written_leave:
  assumes "leave_inv W" "i \<in> logouts W"
  shows "leave_inv (logout_written h ed x i W)"
proof -
  obtain r V where r: "rewire h (on_plugin (\<lambda>p. p\<lparr> pl_token := [], pl_identity := generateDeviceIdentity (ph_crypto h) ed x \<rparr>) W) = (r, V)"
    by fastforce
  have "logouts V = logouts W"
    using r by (cases r) (auto dest!: rewire_Inl elim!: rewire_Inr)
  moreover have "logouts W - {i} = {}" using assms by (auto simp: leave_inv_def)
  ultimately have "logouts (logout_written h ed x i W) = {}" using r by (simp add: logout_written_def)
  moreover have "\<not> pw_leaving (logout_written h ed x i W)" using r by (simp add: logout_written_def)
  ultimately show ?thesis by (simp add: leave_inv_def)
qed

lemma deliver_leave: "leave_inv W \<Longrightarrow> leave_inv (deliver h k e w W)"
proof -
  assume "leave_inv W"
  then have "leave_inv (put_manager k w W)" by (rule leave_inv_same) simp_all
  then have "leave_inv (tell_all h k m m' (put_manager k w W))" for m m'
    by (rule tell_all_keeps) (rule onEnrollment_leave)
  moreover have "leave_inv (wake c ok V)" if "leave_inv V" for c ok V
    by (rule leave_inv_same [OF that]) simp_all
  ultimately show ?thesis by (auto simp: deliver_def Let_def split: option.split)
qed

lemma leave_inv_step:
  assumes "plugin_step h e W W'" "one_logout e W" "leave_inv W"
  shows "leave_inv W'"
  using assms(1)
proof cases
  case (change_broker v)
  then show ?thesis using change_leave [OF assms(3)] leave_inv_same [OF assms(3)]
    by (auto simp: broker_changed_def Let_def)
next
  case (change_root v)
  then show ?thesis using change_leave [OF assms(3)] leave_inv_same [OF assms(3)]
    by (auto simp: root_changed_def Let_def)
next
  case log_out
  then show ?thesis using assms(2,3) by (auto simp: one_logout_def intro: logout_begin_leave)
next
  case (answered k e w)
  then show ?thesis by (auto intro: deliver_leave assms(3))
next
  case (logged_out i now ed x)
  then show ?thesis by (auto simp: logouts_def intro: logout_written_leave assms(3))
next
  case (save_failed i why now ed x)
  then show ?thesis using assms(3) by (auto simp: leave_inv_def logouts_def)
qed (auto intro!: leave_inv_same [OF assms(3)] simp: with_code_def split: if_splits)

definition answers_at :: "nat \<Rightarrow> plugin_event list \<Rightarrow> manager_event set" where
  "answers_at k es = {f. Answered k f \<in> set es}"

definition own_inv :: "plugin_event list \<Rightarrow> plugin_world \<Rightarrow> bool" where
  "own_inv es W \<longleftrightarrow> pw_managers W \<noteq> [] \<and> leave_inv W
     \<and> (\<forall>k. 0 < k \<and> k < length (pw_managers W) \<longrightarrow> pairs_in (given_by (answers_at k es)) (mg_world (pw_managers W ! k)))"

lemma answers_at_snoc: "answers_at k (es @ [e]) = answers_at k es \<union> {f. e = Answered k f}"
  by (auto simp: answers_at_def)

lemma own_inv_start: "own_inv [] (opened base m p)"
  by (simp add: own_inv_def leave_inv_def opened_def logouts_def)

lemma own_inv_step:
  assumes "plugin_step h e W W'" "one_logout e W" "own_inv es W"
  shows "own_inv (es @ [e]) W'"
proof -
  from assms(3) have ne: "pw_managers W \<noteq> []" and leave: "leave_inv W" by (simp_all add: own_inv_def)
  have leave': "leave_inv W'" by (rule leave_inv_step [OF assms(1,2) leave])
  have old: "pairs_in (given_by (answers_at n (es @ [e]))) (mg_world (pw_managers W ! n))"
    if "0 < n" "n < length (pw_managers W)" for n
  proof (rule pairs_in_mono)
    show "pairs_in (given_by (answers_at n es)) (mg_world (pw_managers W ! n))" using that assms(3) by (simp add: own_inv_def)
    show "given_by (answers_at n es) \<subseteq> given_by (answers_at n (es @ [e]))"
      by (auto simp: given_by_def answers_at_snoc)
  qed
  from assms(1) ne show ?thesis
  proof (cases rule: step_managers)
    case same
    with ne old leave' show ?thesis by (simp add: own_inv_def)
  next
    case (moved k f w)
    have "pairs_in (given_by (answers_at k (es @ [e]))) w" if "0 < k"
    proof (rule pairs_in_mono [OF pairs_in_step [OF moved(3) old [OF that moved(1)]]])
      show "given_by (answers_at k (es @ [e])) \<union> given_by {f} \<subseteq> given_by (answers_at k (es @ [e]))"
        using moved(4) by (auto simp: given_by_def answers_at_def)
    qed
    with moved(1,2) ne old leave' show ?thesis by (auto simp: own_inv_def put_manager_def nth_list_update)
  next
    case (added g m)
    from added(3) leave_none [OF leave] have "lm_pairId m = None" by metis
    with added(1,2) old leave' show ?thesis
      by (auto simp: own_inv_def nth_append less_Suc_eq pairs_in_def starts_with_manager_def)
  qed
qed

text \<open>
  C11: a pairing is presented only to the broker that made it: whatever operations, lease managers and writes
  interleave, as long as no logout begins while another one is writing, a manager made after the plugin
  came up holds, and its requests present, only pairings that were answered to that manager, so a pairing
  made at one broker or under one device identity never reaches the next one.
\<close>
theorem pairing_stays_with_its_manager:
  assumes "plugin_reaches h one_logout (opened base m p) es W" "0 < k" "k < length (pw_managers W)"
    and "lm_pairId (manager_at k W) = Some q
      \<or> mget (w_tasks (mg_world (pw_managers W ! k))) n = Some t \<and> task_pairing t = Some q"
  shows "\<exists>i r. Answered k (PairAnswer i (Inr r)) \<in> set es \<and> pr_pairId r = q"
proof -
  from assms(1) have "own_inv es W"
    by (induction rule: plugin_reaches.induct) (auto intro: own_inv_start own_inv_step)
  then have "pairs_in (given_by (answers_at k es)) (mg_world (pw_managers W ! k))"
    using assms(2,3) by (simp add: own_inv_def)
  with assms(4) have "q \<in> given_by (answers_at k es)" by (auto simp: pairs_in_def manager_at_def)
  then show ?thesis by (auto simp: given_by_def answers_at_def)
qed

theorem pairing_stays_with_its_manager_witness:
  "\<exists>es W. plugin_reaches ex_plugin_host one_logout ex_opened es W \<and> lm_pairId (manager_at 1 W) = Some ''p''
     \<and> (\<exists>i r. Answered 1 (PairAnswer i (Inr r)) \<in> set es \<and> pr_pairId r = ''p'')"
proof -
  let ?h = ex_plugin_host
  obtain q where q: "updateBrokerBaseUrl ?h ''https://b'' ex_plugin = (Inr (), q)"
    by (rule ex_broker_changes [OF refl])
  define W1 where "W1 = broker_changed ?h ''https://b'' ex_opened"
  obtain g n where W1: "pw_managers W1 = pw_managers ex_opened @ [g]" "mg_world g = starts_with_manager n"
    "pl_settings (pw_plugin W1) = (pl_settings ex_plugin)\<lparr> set_brokerBaseUrl := ''https://b'' \<rparr>"
    unfolding W1_def
    by (rule changed_world [OF ex_change_invalidates(1) q, of ex_opened]) (use ex_change_invalidates(2) in \<open>simp_all add: ex_plugin_host_def\<close>)
  have code: "trim ''c'' \<noteq> []" by code_simp
  define w where "w = start_task AwaitPair n (starts_with_manager n)"
  define W2 where "W2 = wait_for (pw_next W1) (EnrollRun 1 0) (put_manager 1 w (on_plugin (with_code ''c'') (begin_errand W1)))"
  have at1: "current_index W1 = 1" "pw_managers W1 ! 1 = g" using W1(1) by (simp_all add: current_index_def)
  have e: "manager_step (ph_crypto ?h) (mg_device g) (Enroll ''c'') (mg_world g) w"
    using manager_step.enroll [OF code, of "ph_crypto ?h" "mg_device g" "starts_with_manager n"]
    by (simp add: W1(2) w_def starts_with_manager_def)
  have s2: "plugin_step ?h (StartEnroll ''c'') W1 W2"
    using enroll_waits [of W1 1 ?h "''c''" w] e at1 W1(2,3)
    by (simp add: configured_def ex_plugin_def W2_def starts_with_manager_def)
  define w' where "w' = run_task 0 (AwaitConsentUrl ex_pair) (paired ex_pair n) w"
  have m2: "1 < length (pw_managers W2)" "mg_world (pw_managers W2 ! 1) = w" using W1 by (simp_all add: W2_def)
  define W3 where "W3 = deliver ?h 1 (PairAnswer 0 (Inr ex_pair)) w' W2"
  have "manager_step (ph_crypto ?h) (mg_device (pw_managers W2 ! 1)) (PairAnswer 0 (Inr ex_pair)) w w'"
    using manager_step.pair_made [of w 0 "ph_crypto ?h" "mg_device (pw_managers W2 ! 1)" ex_pair] by (simp add: w'_def w_def task_moves starts_with_manager_def)
  then have s3: "plugin_step ?h (Answered 1 (PairAnswer 0 (Inr ex_pair))) W2 W3"
    unfolding W3_def using m2 by (intro plugin_step.answered) simp_all
  let ?es = "([] @ [ChangeBroker ''https://b'', StartEnroll ''c'']) @ [Answered 1 (PairAnswer 0 (Inr ex_pair))]"
  have run: "plugin_reaches ?h one_logout ex_opened ?es W3"
    by (rule plugin_reaches.step [OF reaches_two [OF plugin_reaches.idle _ change_broker _ s2 [unfolded W1_def]] _ s3])
      (simp_all add: one_logout_def)
  have "lm_pairId (manager_at 1 W3) = Some ''p''" "1 < length (pw_managers W3)"
    using m2 unfolding W3_def manager_at_def by (simp_all add: w'_def ex_pair_def put_manager_def)
  then have "\<exists>i r. Answered 1 (PairAnswer i (Inr r)) \<in> set ?es \<and> pr_pairId r = ''p''"
    using pairing_stays_with_its_manager [OF run, of 1 "''p''" 0 AwaitPair] by simp
  with run \<open>lm_pairId (manager_at 1 W3) = Some ''p''\<close> show ?thesis by (intro exI [of _ ?es] exI [of _ W3] conjI)
qed

section \<open>Reads that wait\<close>

definition leased_by :: "manager_event set \<Rightarrow> bool" where
  "leased_by A \<longleftrightarrow> (\<exists>n r. ClaimAnswer n (Inr r) \<in> A \<or> LeaseAnswer n (Inr r) \<in> A)"

definition lease_inv :: "plugin_event list \<Rightarrow> plugin_world \<Rightarrow> bool" where
  "lease_inv es W \<longleftrightarrow> pw_managers W \<noteq> []
     \<and> (\<forall>k < length (pw_managers W). lm_lease (manager_at k W) \<noteq> None \<longrightarrow> leased_by (answers_at k es))"

lemma lease_step:
  assumes "manager_step N d f w w'" "lm_lease (w_manager w') \<noteq> None"
  shows "lm_lease (w_manager w) \<noteq> None \<or> leased_by {f}"
proof -
  have keeps: "lm_lease (w_manager (claim_turn i p k now w)) \<noteq> None \<Longrightarrow> lm_lease (w_manager w) \<noteq> None" for i p k now w
    using claim_turn_manager [of i p k now w] by (auto simp: manager_moves)
  from assms show ?thesis
    by cases (use keeps in \<open>auto simp: leased_by_def manager_moves split: if_splits\<close>)
qed

lemma lease_inv_step:
  assumes "plugin_step h e W W'" "lease_inv es W"
  shows "lease_inv (es @ [e]) W'"
proof -
  from assms(2) have ne: "pw_managers W \<noteq> []" by (simp add: lease_inv_def)
  have old: "leased_by (answers_at n (es @ [e]))" if "n < length (pw_managers W)" "lm_lease (manager_at n W) \<noteq> None" for n
    using that assms(2) by (fastforce simp: lease_inv_def leased_by_def answers_at_snoc)
  from assms(1) ne show ?thesis
  proof (cases rule: step_managers)
    case same
    with ne old show ?thesis by (simp add: lease_inv_def manager_at_def)
  next
    case (moved k f w)
    have "leased_by (answers_at k (es @ [e]))" if "lm_lease (w_manager w) \<noteq> None"
      using lease_step [OF moved(3) that] moved(1,4) old [of k] by (auto simp: manager_at_def leased_by_def answers_at_snoc)
    with moved(1,2) ne old show ?thesis by (auto simp: lease_inv_def manager_at_def put_manager_def nth_list_update)
  next
    case (added g m)
    with old show ?thesis
      by (auto simp: lease_inv_def manager_at_def nth_append less_Suc_eq starts_with_manager_def)
  qed
qed

text \<open>
  C12: a read that waits for a renewal is decided by the manager that is current when it resumes, whatever
  happened meanwhile: it passes only with a token and when that manager holds a lease still valid past
  the renewal lead, which that manager was given in this run; when the wiring was not rebuilt while it
  waited, the token is that lease's own; and a read that does not pass leaves no token.  So a read that
  waits across a logout or a change of broker or root is refused, unless the device was enrolled again in
  the meantime.
\<close>
theorem waiting_read_follows_current_lease:
  assumes "plugin_reaches h G (opened base m p) es W" "lm_lease m = None"
    and "plugin_step h (Resumed i now ed x) W W'" "mget (pw_errands W) i = Some (ReadGate k j, s)"
  shows "(pw_answers W' = pw_answers W @ [(i, Inr ())] \<and> hasValidLease now (current_manager W')
        \<and> leased_by (answers_at (current_index W') es) \<and> pl_token (pw_plugin W') \<noteq> []
        \<and> (k = current_index W' \<longrightarrow> lm_accessToken (current_manager W') = Some (pl_token (pw_plugin W'))))
    \<or> (\<exists>e. pw_answers W' = pw_answers W @ [(i, Inl e)] \<and> pl_token (pw_plugin W') = [])"
proof -
  from assms(1) have "lease_inv es W"
  proof (induction rule: plugin_reaches.induct)
    case idle
    show ?case by (simp add: lease_inv_def opened_def manager_at_def starts_with_manager_def assms(2))
  qed (rule lease_inv_step)
  then have leased: "leased_by (answers_at (current_index W) es)" if "hasValidLease now (current_manager W)"
    using that index_current [of W] by (simp add: lease_inv_def current_manager_def hasValidLease_def)
  from assms(3) obtain ok where W': "W' = gate i now (token_got k ok W) W"
    by cases (use assms(4) in auto)
  then have same: "current_manager W' = current_manager W" "current_index W' = current_index W"
    by (auto intro: current_manager_same simp: current_index_def)
  have token: "t \<noteq> [] \<and> lm_accessToken (manager_at k W) = Some t" if "token_got k ok W = Some t" for t
    using that by (auto simp: token_got_def token_after_renewal_def truthy_def split: if_splits)
  show ?thesis
  proof (cases "token_got k ok W")
    case None
    then show ?thesis by (auto simp: W' gate_def set_token_def)
  next
    case (Some t)
    with leased token [OF Some] same show ?thesis
      by (cases "hasValidLease now (current_manager W)")
        (auto simp: W' gate_def set_token_def driveAccessDecision_def current_manager_def)
  qed
qed

section \<open>The plugin data follow the manager\<close>

definition stored_pair :: "jsval \<Rightarrow> string option" where
  "stored_pair v = as_string (field (raw_record (field (raw_record v) ''enrollment'')) ''pairId'')"

definition kept_pair :: "lease_manager \<Rightarrow> string option" where
  "kept_pair m = pe_pairId (toPersistedEnrollment (enrollment_of m))"

text \<open>The plugin data as they will be when the queued writes are done.\<close>

definition pending_data :: "plugin_world \<Rightarrow> jsval" where
  "pending_data W = (if wq_pending (pw_writes W) \<noteq> [] then snd (snd (last (wq_pending (pw_writes W))))
     else case wq_running (pw_writes W) of Some (i, v) \<Rightarrow> v | None \<Rightarrow> pl_data (pw_plugin W))"

definition refused :: "(plugin_error, unit) result \<Rightarrow> bool" where
  "refused r \<longleftrightarrow> (case r of Inl (SettingsRefused x) \<Rightarrow> True | Inl (DataRefused x) \<Rightarrow> True | Inl WiringFailed \<Rightarrow> True | _ \<Rightarrow> False)"

definition accepted :: "plugin_world \<Rightarrow> bool" where
  "accepted W \<longleftrightarrow> (\<forall>a \<in> set (pw_answers W). \<not> refused (snd a))"

lemma accepted_simps [simp]:
  "accepted (put_manager k w W) = accepted W" "accepted (on_plugin f W) = accepted W" "accepted (begin_errand W) = accepted W"
  "accepted (wait_for i t W) = accepted W" "accepted (wake c ok W) = accepted W"
  "accepted (finish i r W) \<longleftrightarrow> accepted W \<and> \<not> refused r" "accepted (conclude i why r W) \<longleftrightarrow> accepted W \<and> \<not> refused r"
  "accepted (W\<lparr> pw_writes := q \<rparr>) = accepted W" "accepted (W\<lparr> pw_leaving := b \<rparr>) = accepted W"
  "accepted (W\<lparr> pw_plugin := p, pw_managers := ms \<rparr>) = accepted W"
  by (auto simp: accepted_def)

lemma refused_simps [simp]: "refused (Inl WiringFailed)" "\<not> refused (Inr u)" "\<not> refused (Inl SaveFailed)"
  "refused (Inl (SettingsRefused x))" "refused (Inl (DataRefused y))"
  by (simp_all add: refused_def)

lemma snapshot_refused: "snapshot h e p = Inl x \<Longrightarrow> refused (Inl x)"
  by (auto simp: snapshot_def split: sum.splits)

lemma snapshot_pair: "snapshot h e p = Inr v \<Longrightarrow> stored_pair v = pe_pairId e"
  by (auto simp: snapshot_def stored_pair_def enrollment_pair persisted_data_fields(6) split: sum.splits)

lemma pending_data_simps [simp]:
  "pending_data (put_manager k w W) = pending_data W" "pending_data (begin_errand W) = pending_data W"
  "pending_data (wait_for i t W) = pending_data W" "pending_data (wake c ok W) = pending_data W"
  "pending_data (finish i r W) = pending_data W" "pending_data (conclude i why r W) = pending_data W"
  "pending_data (gate i now y W) = pending_data W" "pending_data (renewed i y W) = pending_data W"
  "pending_data (W\<lparr> pw_leaving := b \<rparr>) = pending_data W"
  "pl_data (f (pw_plugin W)) = pl_data (pw_plugin W) \<Longrightarrow> pending_data (on_plugin f W) = pending_data W"
  by (simp_all add: pending_data_def cong: option.case_cong)

lemma save_later_pending:
  assumes "accepted (save_later h i why e W)"
  shows "stored_pair (pending_data (save_later h i why e W)) = pe_pairId e" "accepted W"
    "pw_leaving (save_later h i why e W) = pw_leaving W"
    "pw_errands (save_later h i why e W) = mput i (Saving why, None) (pw_errands W)"
  using assms snapshot_refused
  by (auto simp: save_later_def pending_data_def split: sum.splits dest: snapshot_pair)

lemma save_begin_pending:
  assumes "accepted (save_begin h i why e W)"
  shows "stored_pair (pending_data (save_begin h i why e W)) = pe_pairId (toPersistedEnrollment e)" "accepted W"
    "pw_leaving (save_begin h i why e W) = pw_leaving W"
    "pw_errands (save_begin h i why e W) = mput i (Saving why, None) (pw_errands W)"
  using save_later_pending [of h i why "toPersistedEnrollment e" "on_plugin keep_keys W"] assms by (simp_all add: save_begin_def)

text \<open>The queue's waiting writes have distinct revisions and end with the latest.\<close>

definition queue_fit :: "'w write_queue \<Rightarrow> bool" where
  "queue_fit q \<longleftrightarrow> distinct (map fst (wq_pending q)) \<and> (\<forall>r \<in> fst ` set (wq_pending q). r \<le> wq_latest q)
     \<and> (wq_pending q \<noteq> [] \<longrightarrow> fst (last (wq_pending q)) = wq_latest q)"

lemma queue_fit_step: "queue_fit q \<Longrightarrow> queue_fit (queue_step e q)"
  by (cases e) (fastforce simp: queue_fit_def split: option.splits list.splits)+

lemma save_later_fit: "queue_fit (pw_writes W) \<Longrightarrow> queue_fit (pw_writes (save_later h i why e W))"
  using queue_fit_step by (auto simp: save_later_def simp del: queue_step.simps split: sum.split)

lemma save_begin_fit: "queue_fit (pw_writes W) \<Longrightarrow> queue_fit (pw_writes (save_begin h i why e W))"
  by (simp add: save_begin_def save_later_fit)

lemma onEnrollment_fit: "queue_fit (pw_writes W) \<Longrightarrow> queue_fit (pw_writes (onEnrollment h e v W))"
  by (simp add: onEnrollment_def save_begin_fit)

lemma turn_pending:
  assumes "queue_fit (pw_writes W)" "wq_running (pw_writes W) = None" "wq_pending (pw_writes W) \<noteq> []"
  shows "pending_data (W\<lparr> pw_writes := queue_step Turn (pw_writes W) \<rparr>) = pending_data W"
proof -
  obtain r i v rest where q: "wq_pending (pw_writes W) = (r, i, v) # rest"
    using assms(3) by (metis list.exhaust prod.exhaust)
  have "r = wq_latest (pw_writes W) \<longleftrightarrow> rest = []"
    using assms(1) q by (cases rest rule: rev_cases) (auto simp: queue_fit_def)
  with q assms(2) show ?thesis by (auto simp: pending_data_def)
qed

lemma settled_pending:
  assumes "wq_running (pw_writes W) = Some (i, v)"
  shows "pending_data (on_plugin (\<lambda>p. p\<lparr> pl_data := v \<rparr>) (W\<lparr> pw_writes := queue_step (Settled True) (pw_writes W) \<rparr>)) = pending_data W"
  using assms by (simp add: pending_data_def)

text \<open>A manager's step changes its enrollment only with an emission.\<close>

definition speaks :: "lease_manager \<Rightarrow> lease_manager \<Rightarrow> bool" where
  "speaks m m' \<longleftrightarrow> emitted_since m m' = [] \<longrightarrow> enrollment_of m' = enrollment_of m"

lemma renewal_enrollment: "enrollment_of (m\<lparr> lm_renewal := y \<rparr>) = enrollment_of m"
  by (simp add: enrollment_of_def manager_status_def expiryOf_def cong: option.case_cong)

lemma speaks_moves:
  "speaks m m" "speaks m (clear_manager m)" "speaks m (paired p m)" "speaks m (claim_expired m)"
  "speaks m (renewal_failed c m)" "speaks m (renewal_done n) = speaks m n" "speaks m (m\<lparr> lm_renewal := y \<rparr>)"
  by (simp_all add: speaks_def emitted_since_def manager_moves renewal_enrollment)

lemma speaks_applied: "applyLease N d r m = (y, m') \<Longrightarrow> speaks m m'"
  by (cases y) (auto dest: applyLease_Inl elim!: applyLease_Inr simp: speaks_def emitted_since_def emit_def)

lemma speaks_turn: "speaks (w_manager w) (w_manager (claim_turn i p k now w))"
  using claim_turn_manager [of i p k now w] by (auto simp: speaks_moves)

lemma silent_step:
  assumes "manager_step N d f w w'" "emitted_since (w_manager w) (w_manager w') = []"
  shows "enrollment_of (w_manager w') = enrollment_of (w_manager w)"
proof -
  from assms(1) have "speaks (w_manager w) (w_manager w')"
    by cases (auto simp: speaks_moves speaks_turn dest: speaks_applied applyLease_Inl)
  with assms(2) show ?thesis by (simp add: speaks_def)
qed

definition unfailed :: "plugin_world \<Rightarrow> bool" where
  "unfailed W \<longleftrightarrow> (\<forall>i why. mget (pw_errands W) i \<noteq> Some (Saving why, Some False))"

lemma unfailed_moves [simp]:
  "unfailed (put_manager k w W) = unfailed W" "unfailed (on_plugin f W) = unfailed W" "unfailed (begin_errand W) = unfailed W"
  "unfailed (W\<lparr> pw_writes := q \<rparr>) = unfailed W" "unfailed (W\<lparr> pw_leaving := b \<rparr>) = unfailed W"
  "unfailed (W\<lparr> pw_plugin := p, pw_managers := ms \<rparr>) = unfailed W"
  by (simp_all add: unfailed_def)

lemma unfailed_kept:
  "unfailed W \<Longrightarrow> unfailed (finish i r W)" "unfailed W \<Longrightarrow> unfailed (conclude i why r W)"
  "unfailed W \<Longrightarrow> unfailed (gate i now y W)" "unfailed W \<Longrightarrow> unfailed (renewed i y W)"
  "unfailed W \<Longrightarrow> unfailed (wait_for i t W)" "unfailed W \<Longrightarrow> unfailed (wake c True W)"
  "unfailed W \<Longrightarrow> unfailed (wake (\<lambda>i. awaits k j) ok W)"
  by (auto simp: unfailed_def awaits_def split: if_splits)

lemma unfailed_save: "unfailed W \<Longrightarrow> unfailed (save_later h i why e W)" "unfailed W \<Longrightarrow> unfailed (save_begin h i why v W)"
  by (auto simp: save_begin_def save_later_def intro!: unfailed_kept split: sum.split)

text \<open>After a manager's emissions the newest snapshot holds what the current manager keeps.\<close>

lemma onEnrollment_cases:
  assumes "\<not> pw_leaving W" "accepted (onEnrollment h e v W)"
  shows "\<not> pw_leaving (onEnrollment h e v W)" "stored_pair (pending_data (onEnrollment h e v W)) = pe_pairId (toPersistedEnrollment e)"
  using assms save_begin_pending by (simp_all add: onEnrollment_def)

lemma onEnrollment_accepted: "accepted (onEnrollment h e v W) \<Longrightarrow> accepted W"
  by (auto simp: onEnrollment_def split: if_splits dest: save_begin_pending(2))

lemma tell_all_accepted: "accepted (tell_all h k m m' W) \<Longrightarrow> accepted W"
  using tell_all_keeps [where P = "\<lambda>V. \<not> accepted V", of W h k m m'] onEnrollment_accepted by blast

lemma deliver_accepted: "accepted (deliver h k e w W) \<Longrightarrow> accepted W"
  by (auto simp: deliver_def Let_def split: option.splits if_splits dest: tell_all_accepted)

lemma silent_tell: "emitted_since m m' = [] \<Longrightarrow> tell_all h k m m' W = W"
  by (simp add: tell_all_def)

lemma leaving_tell: "pw_leaving W \<Longrightarrow> tell_all h k m m' W = W"
  by (rule tell_all_keeps [where P = "\<lambda>V. V = W"]) (auto simp: onEnrollment_def)

lemma tell_all_last:
  assumes "emitted_since m m' \<noteq> []" "k = current_index W \<longrightarrow> m' = current_manager W"
  obtains v V where "tell_all h k m m' W = onEnrollment h (enrollment_of (current_manager W)) v V"
    "\<not> pw_leaving W \<longrightarrow> accepted V \<longrightarrow> \<not> pw_leaving V"
proof -
  obtain us v where vs: "emitted_since m m' = us @ [v]" using assms(1) by (meson rev_exhaust)
  define F where "F = (\<lambda>(v, e). onEnrollment h (if k = current_index W then e else enrollment_of (current_manager W)) v)"
  have "tell_all h k m m' W = fold F (zip us us @ [(v, enrollment_of m')]) W" by (simp add: tell_all_def Let_def vs F_def)
  then have eq: "tell_all h k m m' W = onEnrollment h (enrollment_of (current_manager W)) v (fold F (zip us us) W)"
    using assms(2) by (simp add: F_def)
  have "\<not> pw_leaving W \<longrightarrow> accepted (fold F ps W) \<longrightarrow> \<not> pw_leaving (fold F ps W)" for ps
  proof (induction ps rule: rev_induct)
    case (snoc a ps)
    have "\<exists>y z. \<forall>X. F a X = onEnrollment h z y X" by (cases a) (auto simp: F_def)
    then obtain y z where "F a (fold F ps W) = onEnrollment h z y (fold F ps W)" by blast
    then have "fold F (ps @ [a]) W = onEnrollment h z y (fold F ps W)" by simp
    with snoc show ?case using onEnrollment_cases(1) onEnrollment_accepted by metis
  qed simp
  with eq show thesis by (rule that)
qed

lemma deliver_mirror:
  assumes step: "manager_step N d f (mg_world (pw_managers W ! k)) w" and k: "k < length (pw_managers W)"
    and ok: "accepted (deliver h k f w W)" and data: "stored_pair (pending_data W) = (if pw_leaving W then None else kept_pair (current_manager W))"
  shows "stored_pair (pending_data (deliver h k f w W)) = (if pw_leaving W then None else kept_pair (current_manager (deliver h k f w W)))"
    "pw_leaving (deliver h k f w W) = pw_leaving W"
proof -
  let ?m = "w_manager (mg_world (pw_managers W ! k))" and ?V = "put_manager k w W"
  define T where "T = tell_all h k ?m (w_manager w) ?V"
  have d: "pending_data (deliver h k f w W) = pending_data T" "pw_leaving (deliver h k f w W) = pw_leaving T"
    "accepted T" "current_manager (deliver h k f w W) = current_manager ?V"
    using ok by (auto simp: deliver_def T_def Let_def current_manager_def current_index_def manager_at_def split: option.splits if_splits)
  have cur: "k = current_index W \<Longrightarrow> current_manager ?V = w_manager w" "k \<noteq> current_index W \<Longrightarrow> current_manager ?V = current_manager W"
    using k by (auto simp: current_manager_def manager_at_def put_manager_def current_index_def)
  have "stored_pair (pending_data T) = (if pw_leaving W then None else kept_pair (current_manager ?V)) \<and> pw_leaving T = pw_leaving W"
  proof (cases "pw_leaving W \<or> emitted_since ?m (w_manager w) = []")
    case True
    then have "T = ?V" by (auto simp: T_def leaving_tell silent_tell)
    moreover have "kept_pair (current_manager ?V) = kept_pair (current_manager W)" if "\<not> pw_leaving W"
      using True that cur silent_step [OF step] by (cases "k = current_index W") (auto simp: kept_pair_def current_manager_def manager_at_def)
    ultimately show ?thesis using data by auto
  next
    case False
    obtain v U where U: "T = onEnrollment h (enrollment_of (current_manager ?V)) v U" "\<not> pw_leaving ?V \<longrightarrow> accepted U \<longrightarrow> \<not> pw_leaving U"
      unfolding T_def by (rule tell_all_last [of ?m "w_manager w" k ?V h]) (use False cur in auto)
    have "accepted U" using d(3) unfolding U(1) by (rule onEnrollment_accepted)
    with U(2) False have "\<not> pw_leaving U" by simp
    from onEnrollment_cases [OF this d(3) [unfolded U(1)]] False show ?thesis by (simp add: U(1) kept_pair_def)
  qed
  then show "stored_pair (pending_data (deliver h k f w W)) = (if pw_leaving W then None else kept_pair (current_manager (deliver h k f w W)))"
    "pw_leaving (deliver h k f w W) = pw_leaving W" by (simp_all add: d)
qed

text \<open>
  No second logout begins and no enrollment ends while a logout is writing, and no write fails.
\<close>

definition calm_step :: "plugin_event \<Rightarrow> plugin_world \<Rightarrow> bool" where
  "calm_step e W \<longleftrightarrow> one_logout e W \<and> e \<noteq> WriteSettled False
     \<and> (\<forall>i now ed x k j s. e = Resumed i now ed x \<and> mget (pw_errands W) i = Some (EnrollRun k j, s) \<longrightarrow> \<not> pw_leaving W)"

definition mirror_inv :: "plugin_world \<Rightarrow> bool" where
  "mirror_inv W \<longleftrightarrow> pw_managers W \<noteq> [] \<and> leave_inv W \<and> queue_fit (pw_writes W) \<and> unfailed W
     \<and> stored_pair (pending_data W) = (if pw_leaving W then None else kept_pair (current_manager W))"

lemma kept_none: "lm_pairId m = None \<Longrightarrow> kept_pair m = None"
  by (simp add: kept_pair_def toPersistedEnrollment_def enrollment_of_def truthy_def)

lemma current_added: "pw_managers W' = pw_managers W @ [g] \<Longrightarrow> current_manager W' = w_manager (mg_world g)"
  by (simp add: current_manager_def manager_at_def current_index_def)

lemma current_put:
  assumes "pw_managers W \<noteq> []"
  shows "current_manager (put_manager (current_index W) w W) = w_manager w"
  using assms by (simp add: current_manager_def manager_at_def put_manager_def current_index_def)

lemma change_mirror:
  assumes "accepted (change_begin h c W)"
  shows "stored_pair (pending_data (change_begin h c W)) = None" "kept_pair (current_manager (change_begin h c W)) = None"
    "pw_leaving (change_begin h c W) = pw_leaving W" "accepted W" "unfailed W \<Longrightarrow> unfailed (change_begin h c W)"
    "queue_fit (pw_writes W) \<Longrightarrow> queue_fit (pw_writes (change_begin h c W))"
proof -
  let ?W = "on_plugin (\<lambda>p. drop_pairing (p\<lparr> pl_settings := c \<rparr>)) (begin_errand W)"
  obtain r V where r: "rewire h ?W = (r, V)" by fastforce
  from assms r obtain u where u: "r = Inr u"
    by (cases r) (auto simp: change_begin_def Let_def dest: rewire_Inl)
  then have eq: "change_begin h c W = save_begin h (pw_next W) AfterChange (enrollment_of (current_manager V)) V"
    using r by (simp add: change_begin_def Let_def)
  obtain m where V: "current_manager V = m" "lm_pairId m = None" "pw_leaving V = pw_leaving W" "accepted V = accepted W"
    "unfailed V = unfailed W" "pw_writes V = pw_writes W"
    by (rule rewire_Inr [OF r [unfolded u]]) (auto simp: current_added drop_pairing_def starts_with_manager_def)
  note sv = save_begin_pending [OF assms [unfolded eq]]
  show "stored_pair (pending_data (change_begin h c W)) = None" "kept_pair (current_manager (change_begin h c W)) = None"
    "pw_leaving (change_begin h c W) = pw_leaving W" "accepted W"
    "unfailed W \<Longrightarrow> unfailed (change_begin h c W)" "queue_fit (pw_writes W) \<Longrightarrow> queue_fit (pw_writes (change_begin h c W))"
    using sv V kept_none [OF V(2)]
    by (simp_all add: eq kept_pair_def unfailed_save save_begin_fit current_manager_def current_index_def manager_at_def)
qed

lemma logout_begin_mirror:
  assumes "accepted (logout_begin h W)"
  shows "stored_pair (pending_data (logout_begin h W)) = None" "pw_leaving (logout_begin h W)" "accepted W"
    "unfailed W \<Longrightarrow> unfailed (logout_begin h W)" "queue_fit (pw_writes W) \<Longrightarrow> queue_fit (pw_writes (logout_begin h W))"
  using assms save_later_pending [OF assms [unfolded logout_begin_def Let_def]]
  by (auto simp: logout_begin_def Let_def no_enrollment_def intro!: unfailed_save save_later_fit)

lemma logout_written_mirror:
  assumes "accepted (logout_written h ed x i W)" "pl_persistedPairId (pw_plugin W) = None"
  shows "pending_data (logout_written h ed x i W) = pending_data W" "kept_pair (current_manager (logout_written h ed x i W)) = None"
    "accepted W" "unfailed W \<Longrightarrow> unfailed (logout_written h ed x i W)" "pw_writes (logout_written h ed x i W) = pw_writes W"
proof -
  let ?W = "on_plugin (\<lambda>p. p\<lparr> pl_token := [], pl_identity := generateDeviceIdentity (ph_crypto h) ed x \<rparr>) W"
  obtain r V where r: "rewire h ?W = (r, V)" by fastforce
  with assms(1) obtain u where u: "r = Inr u"
    by (cases r) (auto simp: logout_written_def dest: rewire_Inl)
  have eq: "logout_written h ed x i W = conclude i AfterLogout (Inr u) V" using r u by (simp add: logout_written_def)
  obtain m where V: "current_manager V = m" "lm_pairId m = None" "accepted V = accepted W" "pending_data V = pending_data W"
    "unfailed V = unfailed W" "pw_writes V = pw_writes W"
    by (rule rewire_Inr [OF r [unfolded u]])
      (auto simp: current_added assms(2) starts_with_manager_def pending_data_def cong: option.case_cong)
  show "pending_data (logout_written h ed x i W) = pending_data W" "kept_pair (current_manager (logout_written h ed x i W)) = None"
    "accepted W" "unfailed W \<Longrightarrow> unfailed (logout_written h ed x i W)" "pw_writes (logout_written h ed x i W) = pw_writes W"
    using V assms(1) kept_none [OF V(2)]
    by (simp_all add: eq unfailed_kept current_manager_def current_index_def manager_at_def)
qed

lemma logout_written_accepted: "accepted (logout_written h ed x i W) \<Longrightarrow> accepted W"
  by (cases "rewire h (on_plugin (\<lambda>p. p\<lparr> pl_token := [], pl_identity := generateDeviceIdentity (ph_crypto h) ed x \<rparr>) W)";
      cases "fst (rewire h (on_plugin (\<lambda>p. p\<lparr> pl_token := [], pl_identity := generateDeviceIdentity (ph_crypto h) ed x \<rparr>) W))")
    (auto simp: logout_written_def dest!: rewire_Inl elim!: rewire_Inr)

lemma step_accepted:
  assumes "plugin_step h e W W'" "accepted W'"
  shows "accepted W"
  using assms
  by cases (auto simp: gate_def renewed_def set_token_def broker_changed_def root_changed_def Let_def
      split: if_splits option.splits
      dest: save_begin_pending(2) deliver_accepted change_mirror(4) logout_begin_mirror(3) logout_written_accepted)

lemma mirror_same:
  assumes "mirror_inv W" "leave_inv W'" "pw_managers W' \<noteq> []" "pw_leaving W' = pw_leaving W" "unfailed W'" "queue_fit (pw_writes W')"
    and "pending_data W' = pending_data W" "kept_pair (current_manager W') = kept_pair (current_manager W)"
  shows "mirror_inv W'"
  using assms by (simp add: mirror_inv_def)

lemma kept_started:
  assumes "manager_step N d f (mg_world (pw_managers W ! current_index W)) w" "pw_managers W \<noteq> []"
    and "f = manager_event.Refresh \<or> f = Enroll c"
  shows "kept_pair (w_manager w) = kept_pair (current_manager W)"
proof -
  have "enrollment_of (w_manager w) = enrollment_of (w_manager (mg_world (pw_managers W ! current_index W)))"
    using assms(1,3) by (cases) (auto simp: renewal_enrollment)
  then show ?thesis by (simp add: kept_pair_def current_manager_def manager_at_def)
qed

lemma deliver_kept:
  assumes "mirror_inv W"
  shows "unfailed (deliver h k f w W)" "queue_fit (pw_writes (deliver h k f w W))"
proof -
  have u: "unfailed (tell_all h k m m' (put_manager k w W))" for m m'
    by (rule tell_all_keeps) (use assms in \<open>auto simp: mirror_inv_def onEnrollment_def unfailed_save\<close>)
  have q: "queue_fit (pw_writes (tell_all h k m m' (put_manager k w W)))" for m m'
    by (rule tell_all_keeps [where P = "\<lambda>V. queue_fit (pw_writes V)"])
      (use assms in \<open>auto simp: mirror_inv_def onEnrollment_fit\<close>)
  from u show "unfailed (deliver h k f w W)" by (simp add: deliver_def Let_def unfailed_kept split: option.split)
  from q show "queue_fit (pw_writes (deliver h k f w W))" by (simp add: deliver_def Let_def split: option.split)
qed

lemma put_over:
  "pw_managers (put_manager k w (begin_errand W)) = pw_managers (put_manager k w W)"
  "pw_managers (put_manager k w (on_plugin f W)) = pw_managers (put_manager k w W)"
  by (simp_all add: put_manager_def)

lemmas current_defs = current_manager_def current_index_def manager_at_def

lemma mirror_begun:
  assumes "mirror_inv W" "leave_inv W'" "manager_step N d f (mg_world (pw_managers W ! current_index W)) w"
    and "f = manager_event.Refresh \<or> f = Enroll c" "pw_managers W' = pw_managers (put_manager (current_index W) w W)"
    and "pending_data W' = pending_data W" "pw_leaving W' = pw_leaving W" "pw_writes W' = pw_writes W" "unfailed W'"
  shows "mirror_inv W'"
proof -
  from assms(1) have ne: "pw_managers W \<noteq> []" by (simp add: mirror_inv_def)
  have "kept_pair (current_manager W') = kept_pair (current_manager W)"
    using kept_started [OF assms(3) ne assms(4)] current_put [OF ne, of w] current_manager_same [OF assms(5)] by simp
  moreover have "pw_managers W' \<noteq> []" using assms(5) ne by (simp add: put_manager_def)
  ultimately show ?thesis using assms by (intro mirror_same [OF assms(1,2)]) (simp_all add: mirror_inv_def)
qed

lemma mirror_write:
  assumes "plugin_step h e W W'" "mirror_inv W" "e = WriteTurn \<or> e = WriteSettled True" "leave_inv W'"
  shows "mirror_inv W'"
proof -
  from assms(2) have inv: "queue_fit (pw_writes W)" "unfailed W" "pw_managers W \<noteq> []" by (simp_all add: mirror_inv_def)
  note same = mirror_same [OF assms(2,4)]
  show ?thesis
    using assms(1,3)
  proof cases
    case (write_skipped r i v rest)
    with turn_pending [OF inv(1)] show ?thesis
      by (intro same) (auto simp: current_defs inv queue_fit_step [OF inv(1)] intro!: unfailed_kept simp del: queue_step.simps)
  next
    case (write_begun r i v rest)
    with turn_pending [OF inv(1)] show ?thesis
      by (intro same) (auto simp: current_defs inv queue_fit_step [OF inv(1)] simp del: queue_step.simps)
  next
    case (write_settled i v ok)
    then have "ok" using assms(3) by auto
    with write_settled settled_pending [of W i v] show ?thesis
      by (intro same) (auto simp: current_defs inv queue_fit_step [OF inv(1)] intro!: unfailed_kept simp del: queue_step.simps)
  qed auto
qed

lemma mirror_rewired:
  assumes "mirror_inv W" "leave_inv W'" "pw_managers W' \<noteq> []" "accepted W'"
    and "W' = change_begin h c W \<or> W' = logout_begin h W \<or> i \<in> logouts W \<and> W' = logout_written h ed x i W"
  shows "mirror_inv W'"
proof -
  from assms(1) have inv: "leave_inv W" "queue_fit (pw_writes W)" "unfailed W"
    "stored_pair (pending_data W) = (if pw_leaving W then None else kept_pair (current_manager W))"
    by (simp_all add: mirror_inv_def)
  from assms(5) show ?thesis
  proof (elim disjE conjE)
    assume "W' = change_begin h c W"
    with change_mirror [of h c W] assms(2-4) inv show ?thesis by (simp add: mirror_inv_def)
  next
    assume "W' = logout_begin h W"
    with logout_begin_mirror [of h W] assms(2-4) inv show ?thesis by (simp add: mirror_inv_def)
  next
    assume i: "i \<in> logouts W" and W': "W' = logout_written h ed x i W"
    from i have "pl_persistedPairId (pw_plugin W) = None" "pw_leaving W"
      using leave_none [OF inv(1)] inv(1) by (auto simp: leave_inv_def)
    with logout_written_mirror [of h ed x i W] assms(2-4) inv W' show ?thesis by (auto simp: mirror_inv_def)
  qed
qed

lemma mirror_inv_step:
  assumes "plugin_step h e W W'" "calm_step e W" "mirror_inv W" "accepted W'"
  shows "mirror_inv W'"
proof -
  have inv: "pw_managers W \<noteq> []" "leave_inv W" "queue_fit (pw_writes W)" "unfailed W"
    "stored_pair (pending_data W) = (if pw_leaving W then None else kept_pair (current_manager W))"
    using assms(3) by (simp_all add: mirror_inv_def)
  have leave: "leave_inv W'" using leave_inv_step [OF assms(1) _ inv(2)] assms(2) by (simp add: calm_step_def)
  have ne: "pw_managers W' \<noteq> []"
    using assms(1) inv(1) by (cases rule: step_managers) (use inv(1) in \<open>auto simp: put_manager_def\<close>)
  note same = mirror_same [OF assms(3) leave ne] and begun = mirror_begun [OF assms(3) leave]
    and wires = mirror_rewired [OF assms(3) leave ne assms(4)] and rest = put_over inv(4) with_code_def
  have changed: "mirror_inv W'" if "W' = change_begin h c W" for c
    by (rule wires) (rule disjI1, rule that)
  have unchanged: "mirror_inv W'" if "W' = finish (pw_next W) (Inr ()) (begin_errand W)"
    using that inv by (intro same) (auto simp: current_defs unfailed_kept)
  have left: "mirror_inv W'" if "W' = logout_begin h W" by (rule wires) (rule disjI2, rule disjI1, rule that)
  from assms(1) show ?thesis
  proof cases
    case (read_waits now k w j)
    then show ?thesis by (intro begun [OF read_waits(6) [unfolded read_waits(5)]]) (auto simp: rest intro!: unfailed_kept)
  next
    case (renew_waits now k w j)
    then show ?thesis by (intro begun [OF renew_waits(6) [unfolded renew_waits(5)]]) (auto simp: rest intro!: unfailed_kept)
  next
    case (enroll_waits k c w)
    then show ?thesis by (intro begun [OF enroll_waits(5) [unfolded enroll_waits(4)]]) (auto simp: rest intro!: unfailed_kept)
  next
    case (answered k f w)
    with deliver_mirror [OF answered(5) answered(3), of h] deliver_kept [OF assms(3), of h k f w] assms(4) leave ne inv show ?thesis
      by (simp add: mirror_inv_def)
  next
    case (enroll_done i k j now ed x)
    with save_begin_pending assms(2,4) leave ne inv show ?thesis
      by (auto simp: mirror_inv_def calm_step_def kept_pair_def current_defs unfailed_save save_begin_fit)
  next
    case (write_settled i v ok)
    then show ?thesis using mirror_write [OF assms(1,3) _ leave] assms(2) by (auto simp: calm_step_def)
  next
    case (logged_out i now ed x)
    then show ?thesis by (intro wires) (auto simp: logouts_def)
  next
    case (save_failed i why now ed x)
    with inv show ?thesis by (simp add: unfailed_def)
  next
    case (change_broker v)
    then show ?thesis using changed unchanged by (simp add: broker_changed_def Let_def split: if_splits)
  next
    case (change_root v)
    then show ?thesis using changed unchanged by (simp add: root_changed_def Let_def split: if_splits)
  qed (use left mirror_write [OF assms(1,3) _ leave] in \<open>simp; fail\<close>
    | (rule same; auto simp: current_defs with_code_def inv intro!: unfailed_kept))+
qed

lemma mirror_reached:
  "plugin_reaches h calm_step (opened base m p) es W \<Longrightarrow> stored_pair (pl_data p) = kept_pair m \<Longrightarrow> accepted W \<Longrightarrow> mirror_inv W"
proof (induction rule: plugin_reaches.induct)
  case idle
  then show ?case
    by (simp add: mirror_inv_def leave_inv_def logouts_def queue_fit_def unfailed_def pending_data_def opened_def new_write_queue_def
        current_manager_def manager_at_def current_index_def starts_with_manager_def)
next
  case (step es W e W')
  then show ?case using mirror_inv_step step_accepted by blast
qed

lemma kept_pair_browsable: "kept_pair m = (if browsable (enrollment_of m) then lm_pairId m else None)"
  by (simp add: kept_pair_def toPersistedEnrollment_def browsable_def enrollment_of_def)

text \<open>
  C13: the plugin data follow the lease manager: whatever operations, managers of earlier wirings and writes
  interleave, once no write is waiting the pairing that a restart takes up again is the one of the
  current manager if the device is enrolled with it, and none otherwise.  This needs that no write failed
  and no operation was refused for its settings, and that while a logout was writing no second one began
  and no enrollment ended.
\<close>
theorem restart_resumes_the_current_pairing:
  assumes "plugin_reaches h calm_step (opened base m p) es W" "stored_pair (pl_data p) = kept_pair m" "accepted W"
    and "wq_pending (pw_writes W) = []" "wq_running (pw_writes W) = None" "\<not> pw_leaving W"
  shows "pl_persistedPairId (loadSettings h2 (pw_plugin W)) =
    (if browsable (enrollment_of (current_manager W)) then lm_pairId (current_manager W) else None)"
proof -
  from mirror_reached [OF assms(1-3)] assms(4-6) have "stored_pair (pl_data (pw_plugin W)) = kept_pair (current_manager W)"
    by (simp add: mirror_inv_def pending_data_def)
  then show ?thesis
    by (simp add: kept_pair_browsable loadSettings_def Let_def stored_pair_def split: prod.split)
qed

lemma permits_calm: "ph_saves h \<Longrightarrow> permits h calm_step"
  by (auto simp: permits_def calm_step_def one_logout_def)

definition ex_refusal :: BrokerClient.broker_error where
  "ex_refusal = \<lparr> err_code = NotAuthorizedYet, err_status = None \<rparr>"

theorem waiting_read_follows_current_lease_witness:
  "\<exists>es W W'. plugin_reaches ex_plugin_host one_logout (opened ''https://a'' ex_manager ex_plugin) es W
     \<and> plugin_step ex_plugin_host (Resumed 0 0 [] []) W W' \<and> pl_token (pw_plugin W') = []"
proof -
  let ?h = ex_plugin_host and ?O = "opened ''https://a'' ex_manager ex_plugin"
  let ?m = "ex_manager\<lparr> lm_renewal := Some 0 \<rparr>" and ?d = "pl_identity ex_plugin" and ?N = "ph_crypto ex_plugin_host"
  have cur: "current_manager ?O = ex_manager" "current_index ?O = 0"
    by (simp_all add: current_manager_def current_index_def manager_at_def starts_with_manager_def)
  define w where "w = start_task (AwaitNonce ''p'') ?m (starts_with_manager ex_manager)"
  define W1 where "W1 = wait_for 0 (ReadGate 0 0) (put_manager 0 w (begin_errand ?O))"
  have "manager_step ?N ?d manager_event.Refresh (starts_with_manager ex_manager) w"
    using manager_step.refresh_started [of "starts_with_manager ex_manager" "''p''" ?N ?d]
    by (simp add: w_def starts_with_manager_def ex_manager_def)
  then have s1: "plugin_step ?h (Read 0) ?O W1"
    using read_waits [of ?O 0 0 ?h w 0] cur
    by (simp add: W1_def w_def manager_status_def token_now_def truthy_def ex_manager_def start_task_def starts_with_manager_def)
  define w' where "w' = end_task 0 (renewal_done (renewal_failed NotAuthorizedYet ?m)) w"
  have m1: "pw_managers W1 = [\<lparr> mg_broker = ''https://a'', mg_device = ?d, mg_world = w \<rparr>]" by (simp add: W1_def put_manager_def)
  have "manager_step ?N ?d (NonceAnswer 0 (Inl ex_refusal)) w w'"
    using manager_step.nonce_refused [of w 0 "''p''" ?N ?d ex_refusal]
    by (simp add: w'_def w_def start_task_def starts_with_manager_def ex_refusal_def)
  then have s2: "plugin_step ?h (Answered 0 (NonceAnswer 0 (Inl ex_refusal))) W1 (deliver ?h 0 (NonceAnswer 0 (Inl ex_refusal)) w' W1)"
    by (intro plugin_step.answered) (simp_all add: m1)
  define W2 where "W2 = deliver ?h 0 (NonceAnswer 0 (Inl ex_refusal)) w' W1"
  have t: "emitted_since ?m (renewal_done (renewal_failed NotAuthorizedYet ?m)) = []"
    by (simp add: emitted_since_def renewal_done_def renewal_failed_def)
  have e: "mget (pw_errands W2) 0 = Some (ReadGate 0 0, Some False)"
    by (simp add: W2_def deliver_def Let_def m1 w'_def end_task_def start_task_def w_def starts_with_manager_def silent_tell t W1_def awaits_def)
  have s3: "plugin_step ?h (Resumed 0 0 [] []) W2 (gate 0 0 (token_got 0 False W2) W2)" by (rule read_resumed [OF e])
  have run: "plugin_reaches ?h one_logout ?O ([] @ [Read 0, Answered 0 (NonceAnswer 0 (Inl ex_refusal))]) W2"
    unfolding W2_def by (rule reaches_two [OF plugin_reaches.idle _ s1 _ s2]) (simp_all add: one_logout_def)
  have "pl_token (pw_plugin (gate 0 0 (token_got 0 False W2) W2)) = []"
    using waiting_read_follows_current_lease [OF run _ s3 e]
    by (auto simp: ex_manager_def token_got_def gate_def set_token_def)
  with run s3 show ?thesis by blast
qed

theorem restart_resumes_the_current_pairing_witness:
  "\<exists>v es W. stored_pair v = Some ''p'' \<and> plugin_reaches ex_plugin_host calm_step (opened ''https://a'' ex_leased_manager (ex_plugin\<lparr> pl_data := v \<rparr>)) es W
     \<and> pl_persistedPairId (loadSettings ex_plugin_host (pw_plugin W)) = None"
proof -
  let ?h = ex_plugin_host and ?e = "\<lparr> pe_pairId = Some ''p'', pe_enrolled = True, pe_expiresAtMs = Some 100000 \<rparr>"
  obtain v where v: "persisted_data (ex_persisted ''https://a'') ?e = Inr v" using ex_accepted_data(2) by (auto simp: is_ok_iff)
  then have pair: "stored_pair v = Some ''p''" by (simp add: stored_pair_def persisted_data_fields(6) enrollment_pair)
  define p where "p = ex_plugin\<lparr> pl_data := v \<rparr>"
  have man: "pl_manager p = Some ex_leased_manager" by (simp add: p_def ex_plugin_def)
  obtain q where q: "updateBrokerBaseUrl ?h ''https://b'' p = (Inr (), q)" by (rule ex_broker_changes [of p]) (simp add: p_def)
  have change: "brokerChangeInvalidatesEnrollment (ph_url ?h) (set_brokerBaseUrl (pl_settings p)) ''https://b''"
    using ex_change_invalidates(1) by (simp add: p_def)
  define c where "c = (pl_settings p)\<lparr> set_brokerBaseUrl := normalizeBrokerBaseUrl (ph_url ?h) ''https://b'' \<rparr>"
  have run: "then_do (setUpDrive ?h (drop_pairing (p\<lparr> pl_settings := c \<rparr>))) (saveSettings ?h) = (Inr (), q)"
    using q change by (simp add: updateBrokerBaseUrl_def c_def)
  have step: "plugin_step ?h (ChangeBroker ''https://b'') (opened ''https://a'' ex_leased_manager p) (change_begin ?h c (opened ''https://a'' ex_leased_manager p))"
    using change_broker [of ?h "''https://b''" "opened ''https://a'' ex_leased_manager p"] change by (simp add: broker_changed_def c_def Let_def)
  have "settles_as ?h calm_step (opened ''https://a'' ex_leased_manager p) [ChangeBroker ''https://b''] (Inr (), q)"
    using change_alone [OF man permits_calm _ step] run by (simp add: calm_step_def one_logout_def ex_plugin_host_def)
  then obtain fs W where W: "plugin_reaches ?h calm_step (opened ''https://a'' ex_leased_manager p) ([ChangeBroker ''https://b''] @ fs) W"
    "idle_queue (pw_writes W)" "pw_answers W = [(0, Inr ())]" "plugin_now W = q" "\<not> pw_leaving W"
    by (auto simp: settles_as_def)
  have "stored_pair (pl_data p) = kept_pair ex_leased_manager"
    by (simp add: p_def pair kept_pair_browsable browsable_def enrollment_of_def manager_status_def ex_leased_manager_def ex_manager_def truthy_def)
  from restart_resumes_the_current_pairing [OF W(1) this, of ?h] W(2,3,5)
  have "pl_persistedPairId (loadSettings ?h (pw_plugin W)) =
      (if browsable (enrollment_of (current_manager W)) then lm_pairId (current_manager W) else None)"
    by (simp add: accepted_def idle_queue_def)
  moreover have "lm_pairId (current_manager W) = None"
    using rewired_session_over [OF run] W(4) by (auto simp: session_over_def plugin_now_def)
  ultimately have "pl_persistedPairId (loadSettings ?h (pw_plugin W)) = None" by simp
  with pair W(1) show ?thesis unfolding p_def by blast
qed

end
