(* ===== verification/PluginRaces.thy ===== *)
theory PluginRaces
  imports PluginTasks
begin

text \<open>
  Two operations of the plugin that overlap: what the later one undoes of the earlier.
\<close>

section \<open>A settings change during a logout\<close>

text \<open>Both operations under way: the removed keys are stored again, one write is running and one waits.\<close>

definition both_waiting :: "plugin_settings \<Rightarrow> secret_storage \<Rightarrow> jsval \<Rightarrow> jsval \<Rightarrow> plugin_world \<Rightarrow> bool" where
  "both_waiting c st y1 y2 W \<longleftrightarrow> wq_running (pw_writes W) = Some (0, y1) \<and> wq_pending (pw_writes W) = [(2, 1, y2)]
     \<and> wq_latest (pw_writes W) = 2 \<and> pw_errands W = [(0, Saving AfterLogout, None), (1, Saving AfterChange, None)]
     \<and> pw_answers W = [] \<and> pl_settings (pw_plugin W) = c \<and> pl_persistedPairId (pw_plugin W) = None \<and> pl_secrets (pw_plugin W) = st"

lemma logout_then_change:
  assumes man: "pl_manager p = Some m" and inv: "brokerChangeInvalidatesEnrollment (ph_url h) (set_brokerBaseUrl (pl_settings p)) v"
    and change: "updateBrokerBaseUrl h v p = (Inr (), q1)" and out: "logout h p = (Inr (), q2)"
  obtains c y1 y2 W p1 where "plugin_reaches h one_logout (opened base m p) [LogOut, WriteTurn, ChangeBroker v] W"
    "both_waiting c (saveDeviceIdentity (clearDeviceIdentity (pl_secrets p)) (pl_identity p)) y1 y2 W"
    "setUpDrive h (drop_pairing (p\<lparr> pl_settings := c \<rparr>)) = (Inr (), p1)"
proof -
  let ?O = "opened base m p"
  obtain c p1 y2 where c: "c = (pl_settings p)\<lparr> set_brokerBaseUrl := normalizeBrokerBaseUrl (ph_url h) v \<rparr>"
    and wire: "setUpDrive h (drop_pairing (p\<lparr> pl_settings := c \<rparr>)) = (Inr (), p1)"
    and shot: "\<And>p'. pl_settings p' = c \<Longrightarrow> snapshot h no_enrollment p' = Inr y2"
    by (rule set_changed [OF inv change]) (rule that)
  obtain p2 where "save_with h no_enrollment (p\<lparr> pl_manager := map_option clear_manager (pl_manager p),
      pl_secrets := clearDeviceIdentity (pl_secrets p), pl_persistedPairId := None \<rparr>) = (Inr (), p2)"
    using out by (auto simp: logout_def Let_def dest!: then_do_Inr)
  then obtain y1 where y1: "snapshot h no_enrollment p' = Inr y1" if "pl_settings p' = pl_settings p" for p'
    by (auto simp: save_with_snapshot snapshot_def split: sum.splits)
  define W1 where "W1 = logout_begin h ?O"
  have W1: "pw_plugin W1 = p\<lparr> pl_secrets := clearDeviceIdentity (pl_secrets p), pl_persistedPairId := None \<rparr>" "pw_next W1 = 1"
    "pw_writes W1 = queue_step (Enqueue (0, y1)) new_write_queue" "pw_errands W1 = [(0, Saving AfterLogout, None)]" "pw_answers W1 = []"
    by (simp_all add: W1_def logout_begin_def Let_def save_later_def y1 current_index_def) (simp_all add: opened_def)
  define W2 where "W2 = W1\<lparr> pw_writes := queue_step Turn (pw_writes W1) \<rparr>"
  have turn: "plugin_step h WriteTurn W1 W2"
    unfolding W2_def by (rule plugin_step.write_begun) (simp_all add: W1 new_write_queue_def)
  have W2: "pw_plugin W2 = pw_plugin W1" "pw_next W2 = 1" "pw_errands W2 = pw_errands W1" "pw_answers W2 = []"
    "wq_running (pw_writes W2) = Some (0, y1)" "wq_pending (pw_writes W2) = []" "wq_latest (pw_writes W2) = 1"
    by (simp_all add: W2_def W1 new_write_queue_def)
  let ?V = "on_plugin (\<lambda>p. drop_pairing (p\<lparr> pl_settings := c \<rparr>)) (begin_errand W2)"
  obtain n b d where V: "rewire h ?V = (Inr (), ?V\<lparr> pw_plugin := (pw_plugin ?V)\<lparr> pl_manager := Some n, pl_browser := b \<rparr>,
      pw_managers := pw_managers ?V @ [\<lparr> mg_broker = d, mg_device = pl_identity (pw_plugin ?V), mg_world = starts_with_manager n \<rparr>] \<rparr>)"
    "lm_pairId n = None"
    by (rule rewire_succeeds [OF wire, of ?V]) (simp_all add: drop_pairing_def W1 W2)
  have none: "toPersistedEnrollment (enrollment_of (current_manager (snd (rewire h ?V)))) = no_enrollment"
    using V by (simp add: current_manager_def current_index_def manager_at_def starts_with_manager_def toPersistedEnrollment_def
        enrollment_of_def truthy_def no_enrollment_def)
  have "both_waiting c (saveDeviceIdentity (clearDeviceIdentity (pl_secrets p)) (pl_identity p)) y1 y2 (broker_changed h v W2)"
    using V none shot inv
    by (simp add: broker_changed_def change_begin_def Let_def W1 W2 c save_begin_def save_later_def both_waiting_def keep_keys_def
        drop_pairing_def)
  moreover have "plugin_reaches h one_logout ?O (([] @ [LogOut, WriteTurn]) @ [ChangeBroker v]) (broker_changed h v W2)"
    by (rule plugin_reaches.step [OF reaches_two [OF plugin_reaches.idle _ plugin_step.log_out _ turn [unfolded W1_def]]
          _ plugin_step.change_broker])
      (simp_all add: one_logout_def)
  ultimately show thesis using wire by (intro that) simp_all
qed

text \<open>The rest of the run: both writes succeed.\<close>

lemma both_finish:
  assumes run: "plugin_reaches h one_logout W0 es W" and both: "both_waiting c st y1 y2 W"
    and wire: "setUpDrive h (drop_pairing (p\<lparr> pl_settings := c \<rparr>)) = (Inr (), p1)"
  obtains U where "plugin_reaches h one_logout W0 (es @ [WriteSettled True, Resumed 0 now ed x, WriteTurn, WriteSettled True, Resumed 1 now ed x]) U"
    "pw_answers U = [(0, Inr ()), (1, Inr ())]" "idle_queue (pw_writes U)" "pl_secrets (pw_plugin U) = st"
    "pl_identity (pw_plugin U) = generateDeviceIdentity (ph_crypto h) ed x"
proof -
  note b = both [unfolded both_waiting_def]
  define W1 where "W1 = wake (\<lambda>n _. n = 0) True
      (on_plugin (\<lambda>p. if True then p\<lparr> pl_data := y1 \<rparr> else p) (W\<lparr> pw_writes := queue_step (Settled True) (pw_writes W) \<rparr>))"
  have s1: "plugin_step h (WriteSettled True) W W1"
    unfolding W1_def by (rule plugin_step.write_settled) (use b in simp)
  have W1: "pw_errands W1 = [(0, Saving AfterLogout, Some True), (1, Saving AfterChange, None)]" "wq_running (pw_writes W1) = None"
    "wq_pending (pw_writes W1) = [(2, 1, y2)]" "wq_latest (pw_writes W1) = 2" "pw_answers W1 = []"
    "pw_plugin W1 = (pw_plugin W)\<lparr> pl_data := y1 \<rparr>"
    using b by (simp_all add: W1_def wake_def)
  define W2 where "W2 = logout_written h ed x 0 W1"
  have s2: "plugin_step h (Resumed 0 now ed x) W1 W2" unfolding W2_def by (rule plugin_step.logged_out) (simp add: W1)
  let ?V = "on_plugin (\<lambda>p. p\<lparr> pl_token := [], pl_identity := generateDeviceIdentity (ph_crypto h) ed x \<rparr>) W1"
  obtain n bw d where V: "rewire h ?V = (Inr (), ?V\<lparr> pw_plugin := (pw_plugin ?V)\<lparr> pl_manager := Some n, pl_browser := bw \<rparr>,
      pw_managers := pw_managers ?V @ [\<lparr> mg_broker = d, mg_device = pl_identity (pw_plugin ?V), mg_world = starts_with_manager n \<rparr>] \<rparr>)"
    by (rule rewire_succeeds [OF wire, of ?V]) (use b W1 in \<open>simp_all add: drop_pairing_def\<close>)
  have W2: "pw_errands W2 = [(1, Saving AfterChange, None)]" "pw_writes W2 = pw_writes W1" "pw_answers W2 = [(0, Inr ())]"
    "pl_secrets (pw_plugin W2) = st" "pl_identity (pw_plugin W2) = generateDeviceIdentity (ph_crypto h) ed x"
    using b W1 by (simp_all add: W2_def logout_written_def V conclude_def)
  define W3 where "W3 = W2\<lparr> pw_writes := queue_step Turn (pw_writes W2) \<rparr>"
  have s3: "plugin_step h WriteTurn W2 W3"
    unfolding W3_def by (rule plugin_step.write_begun) (use W1 W2 in auto)
  have W3: "wq_running (pw_writes W3) = Some (1, y2)" "wq_pending (pw_writes W3) = []" "pw_errands W3 = pw_errands W2"
    "pw_answers W3 = pw_answers W2" "pw_plugin W3 = pw_plugin W2" using W1 W2 by (simp_all add: W3_def)
  define W4 where "W4 = wake (\<lambda>n _. n = 1) True
      (on_plugin (\<lambda>p. if True then p\<lparr> pl_data := y2 \<rparr> else p) (W3\<lparr> pw_writes := queue_step (Settled True) (pw_writes W3) \<rparr>))"
  have s4: "plugin_step h (WriteSettled True) W3 W4" unfolding W4_def by (rule plugin_step.write_settled) (rule W3)
  define W5 where "W5 = conclude 1 AfterChange (Inr ()) W4"
  have s5: "plugin_step h (Resumed 1 now ed x) W4 W5"
    unfolding W5_def by (rule plugin_step.saved) (use W2 W3 in \<open>simp_all add: W4_def\<close>)
  have "plugin_reaches h one_logout W0 ((((es @ [WriteSettled True, Resumed 0 now ed x]) @ [WriteTurn, WriteSettled True]) @ [Resumed 1 now ed x])) W5"
    by (rule plugin_reaches.step [OF reaches_two [OF reaches_two [OF run _ s1 _ s2] _ s3 _ s4] _ s5]) (simp_all add: one_logout_def)
  then show thesis
    by (intro that [of W5]) (use W2 W3 in \<open>simp_all add: W5_def W4_def conclude_def idle_queue_def\<close>)
qed

text \<open>
  C33: a logout does not keep its word when the broker address is changed while its data are being written: the
  change stores the keys the logout had just removed.  Both operations report success and the plugin goes
  on with a fresh identity, but the next start loads the removed one again, where after the logout alone
  the next start creates a new one.
\<close>
theorem change_during_logout_restores_keys:
  assumes "pl_manager p = Some m" "pl_identity p = generateDeviceIdentity (ph_crypto h) ed0 x0" "length ed0 = 32" "length x0 = 32"
    and "brokerChangeInvalidatesEnrollment (ph_url h) (set_brokerBaseUrl (pl_settings p)) v"
    and "updateBrokerBaseUrl h v p = (Inr (), q1)" "logout h p = (Inr (), q2)"
  shows "pl_identity (loadSettings h q2) = generateDeviceIdentity (ph_crypto h) (ph_ed h) (ph_x h)
    \<and> (\<exists>W. plugin_reaches h one_logout (opened base m p)
        [LogOut, WriteTurn, ChangeBroker v, WriteSettled True, Resumed 0 now ed x, WriteTurn, WriteSettled True, Resumed 1 now ed x] W
      \<and> pw_answers W = [(0, Inr ()), (1, Inr ())] \<and> idle_queue (pw_writes W)
      \<and> pl_identity (pw_plugin W) = generateDeviceIdentity (ph_crypto h) ed x
      \<and> pl_identity (loadSettings h (pw_plugin W)) = pl_identity p)"
proof -
  obtain c y1 y2 W p1 where W: "plugin_reaches h one_logout (opened base m p) [LogOut, WriteTurn, ChangeBroker v] W"
    "both_waiting c (saveDeviceIdentity (clearDeviceIdentity (pl_secrets p)) (pl_identity p)) y1 y2 W"
    "setUpDrive h (drop_pairing (p\<lparr> pl_settings := c \<rparr>)) = (Inr (), p1)"
    by (rule logout_then_change [OF assms(1,5-7)]) (rule that)
  obtain U where U: "plugin_reaches h one_logout (opened base m p)
      ([LogOut, WriteTurn, ChangeBroker v] @ [WriteSettled True, Resumed 0 now ed x, WriteTurn, WriteSettled True, Resumed 1 now ed x]) U"
    "pw_answers U = [(0, Inr ()), (1, Inr ())]" "idle_queue (pw_writes U)"
    "pl_secrets (pw_plugin U) = saveDeviceIdentity (clearDeviceIdentity (pl_secrets p)) (pl_identity p)"
    "pl_identity (pw_plugin U) = generateDeviceIdentity (ph_crypto h) ed x"
    by (rule both_finish [OF W, where now = now and ed = ed and x = x])
  have "pl_identity (loadSettings h (pw_plugin U)) = pl_identity p"
    using stored_identity_read [OF assms(3,4,2)]
    by (simp add: loadSettings_def Let_def U(4) loadOrCreateDeviceIdentity_def saveDeviceIdentity_def)
  moreover have "pl_secrets q2 = clearDeviceIdentity (pl_secrets p)"
    using assms(7) by (auto simp: logout_def Let_def dest!: then_do_Inr save_with_keeps elim!: setUpDrive_shape)
  then have "pl_identity (loadSettings h q2) = generateDeviceIdentity (ph_crypto h) (ph_ed h) (ph_x h)"
    by (simp add: loadSettings_def Let_def loadOrCreateDeviceIdentity_def clearDeviceIdentity_def parseStoredIdentity_def truthy_def
        split: prod.split)
  ultimately show ?thesis using U by (intro conjI exI [of _ U]) simp_all
qed

theorem change_during_logout_restores_keys_witness:
  "\<exists>W :: plugin_world. pl_identity (pw_plugin W) = generateDeviceIdentity toy_lease (replicate 32 7) (replicate 32 8)
     \<and> pl_identity (loadSettings ex_plugin_host (pw_plugin W)) = generateDeviceIdentity toy_lease (replicate 32 1) (replicate 32 2)"
proof -
  let ?h = ex_plugin_host
  obtain q1 where q1: "updateBrokerBaseUrl ?h ''https://b'' ex_plugin = (Inr (), q1)" by (rule ex_broker_changes [OF refl])
  obtain q2 where q2: "logout ?h ex_plugin = (Inr (), q2)" by (rule ex_logs_out)
  have p: "pl_manager ex_plugin = Some ex_leased_manager" "ph_crypto ?h = toy_lease"
    "pl_identity ex_plugin = generateDeviceIdentity (ph_crypto ?h) (replicate 32 1) (replicate 32 2)"
    by (simp_all add: ex_plugin_def ex_plugin_host_def)
  have "\<exists>W :: plugin_world. pl_identity (pw_plugin W) = generateDeviceIdentity (ph_crypto ?h) (replicate 32 7) (replicate 32 8)
      \<and> pl_identity (loadSettings ?h (pw_plugin W)) = pl_identity ex_plugin"
    using change_during_logout_restores_keys [OF p(1,3) length_replicate length_replicate ex_change_invalidates(1) q1 q2, of "''https://a''" 0 "replicate 32 7" "replicate 32 8"]
    by blast
  then show ?thesis by (simp only: p)
qed

end
