(* ===== verification/Spec2Isabelle.thy ===== *)
theory Spec2Isabelle
  imports BrokerProcess RootScope CacheWrite Renewal SettingsTab BrokerRaces PluginHost PluginRuns PluginRaces
begin

text \<open>
  Verification development for the on-demand Google Drive plugin (\<^verbatim>\<open>src/src\<close>) and its self-hosted broker
  (\<^verbatim>\<open>src/broker/src\<close>).

  \<^bold>\<open>The program.\<close>  An operator runs the broker next to Google's OAuth service.  A user's device, the
  Obsidian plugin, redeems a one-time code of the operator at the broker's \<^verbatim>\<open>/oauth/pair\<close>; the browser
  then visits Google and comes back to the broker's callback, which stores the refresh token and
  authorizes the pairing; the device claims its lease at \<^verbatim>\<open>/oauth/claim\<close> with a signature and renews it
  at \<^verbatim>\<open>/oauth/nonce\<close> and \<^verbatim>\<open>/oauth/lease\<close>.  A lease is a short-lived read-only access token sealed to
  the device's X25519 key.  With it the plugin reads Drive directly, below one folder.  Two gateways stand
  in front of the broker; the operator's own server issues codes and revokes devices on the same stores.

  \<^bold>\<open>The theories\<close>, in the order they build on each other.

  Language and platform.  \<open>Prelude\<close>: insertion-ordered maps (association lists with \<open>AList.update\<close>, locale
  \<open>js_map\<close>), numbers with infinities and NaN, results of operations that may throw.  \<open>JsString\<close>,
  \<open>JsValue\<close>, \<open>JsonText\<close> and \<open>FormUrl\<close>: the string methods, \<^verbatim>\<open>unknown\<close> values,
  \<^verbatim>\<open>JSON.parse\<close>, \<^verbatim>\<open>JSON.stringify\<close>, UTF-8, \<^verbatim>\<open>URLSearchParams\<close>; printing and parsing invert each
  other there.  \<open>Codecs\<close>: the base32 and base64url the program implements on 32-bit integers, related
  to one reference, the string of bits.  \<open>Platform\<close>: the cryptography of the host as a record of
  functions (SHA-256, HMAC, signatures, key parsing), extended in \<open>SealedFile\<close> and \<open>LeaseSealer\<close>
  by AES-GCM, HKDF, X25519 and ChaCha20-Poly1305.  \<open>Systems\<close>: the contracts shared by stores, as locales:
  \<open>invariant_system\<close>, \<open>climbing_system\<close>, \<open>one_shot\<close>.

  The broker's stores.  \<open>RateLimit\<close> (\<^verbatim>\<open>server.ts\<close>, \<^verbatim>\<open>allowPairAttempt\<close>); \<open>EnrollmentCodes\<close>
  (\<^verbatim>\<open>enrollment-store.ts\<close>); \<open>Pairing\<close> and \<open>PairingFlow\<close> (\<^verbatim>\<open>pairing-store.ts\<close>: four maps, one operation per
  method, the status order of a pairing's life, the whole handshake); \<open>ProtectedDir\<close>
  (\<^verbatim>\<open>protected-directory.ts\<close>, permission bits as words); \<open>SealedFile\<close> (what the two encrypted stores share:
  framing, guarded and atomic publication); \<open>EnrollmentRecords\<close> (\<^verbatim>\<open>enrollment-record-store.ts\<close>, both
  implementations of the interface, locale \<open>device_registry\<close>); \<open>RefreshTokens\<close>
  (\<^verbatim>\<open>refresh-token-store.ts\<close>, locale \<open>token_store\<close>); \<open>OAuth\<close> (\<^verbatim>\<open>google-oauth-client.ts\<close>,
  \<^verbatim>\<open>config.ts\<close>); \<open>LeaseSealer\<close> (\<^verbatim>\<open>lease-sealer.ts\<close> together with the plugin's
  \<^verbatim>\<open>device-identity.ts\<close>).

  The broker's servers.  \<open>Broker\<close> (\<^verbatim>\<open>server.ts\<close>: every handler on one state record); \<open>BrokerCases\<close>
  (each handler by its outcomes, as elimination rules); \<open>Admin\<close> (\<^verbatim>\<open>admin-server.ts\<close>);
  \<open>BrokerSystem\<close> (both servers on one state, runs of requests, each a sequence of the stores'
  own operations); \<open>BrokerProps\<close> and \<open>BrokerLeases\<close> (what the endpoints promise);
  \<open>BrokerTasks\<close> (the same handlers cut at their awaits, refining \<open>Broker\<close>), \<open>BrokerRuns\<close> and
  \<open>BrokerRaces\<close> (any number of such tasks interleaved on one state, what holds of every interleaving
  and where two requests race);
  \<open>Gateways\<close> (\<^verbatim>\<open>public-gateway.ts\<close>, \<^verbatim>\<open>private-api-gateway.ts\<close>: the decision on a request, and an exchange
  with the upstream as a step relation); \<open>RuntimeSecrets\<close> (\<^verbatim>\<open>runtime-secrets.ts\<close>); \<open>BrokerEntry\<close>
  (\<^verbatim>\<open>index.ts\<close>: composition and the ordered start of four listeners); \<open>BrokerProcess\<close> (the gateways
  started on their own, the signals of the process, direct invocation, the transport over \<^verbatim>\<open>fetch\<close>).

  The plugin.  \<open>MobilePairing\<close>, \<open>BrokerClient\<close>, \<open>LeaseManager\<close>, \<open>DeviceStore\<close>, \<open>Persistence\<close>
  (\<^verbatim>\<open>auth/\<close>); \<open>CachePaths\<close>, \<open>CacheWrite\<close> (\<^verbatim>\<open>core/\<close>); \<open>RootScope\<close>, \<open>MetadataIndex\<close>, \<open>DriveRead\<close>
  (\<^verbatim>\<open>drive/\<close>); \<open>PluginSettings\<close> (\<^verbatim>\<open>settings.ts\<close>, \<^verbatim>\<open>settings-write-queue.ts\<close>,
  \<^verbatim>\<open>release-gate.ts\<close>); \<open>BrowserState\<close> (\<^verbatim>\<open>ui/browser-state.ts\<close>); \<open>PluginMain\<close> (the operations of
  \<^verbatim>\<open>main.ts\<close>); \<open>BrowserView\<close> (\<^verbatim>\<open>ui/browser-view.ts\<close>: what is drawn and every handler, over the plugin);
  \<open>SettingsTab\<close> (start, commands and settings tab of \<^verbatim>\<open>main.ts\<close>);
  \<open>PluginTasks\<close> (the operations of \<^verbatim>\<open>main.ts\<close> cut at their awaits, refining \<open>PluginMain\<close>),
  \<open>PluginRuns\<close> and \<open>PluginRaces\<close> (any number of them interleaved over the lease managers' tasks
  and the write queue: what holds of every run, and where two operations race);
  \<open>PluginHost\<close> (\<^verbatim>\<open>drive/obsidian-transport.ts\<close> and the broker's transport over the host's request
  function, the constructors, the workspace, the subscription of the settings tab).  \<open>Renewal\<close> composes the plugin's
  lease manager with the broker's lease handler.

  \<^bold>\<open>How state and operations correspond.\<close>  A class is a record of its private fields and each method a
  function from its arguments and the record to the result and the record it leaves, also where it
  throws; a thrown error is the left side of a sum.  Time, random bytes, the answers of Google, of the
  operating system, of the vault and of secret storage are arguments: a clock reading or a draw is numbered
  by its place in the handler (\<open>request_env\<close>), faults of files by their place in a write
  (\<open>read_env\<close>, \<open>write_env\<close>), vault calls by their number (\<open>cache_env\<close>).
  Where code runs concurrently the awaits are the boundaries: the lease manager's methods are split at
  each await and any number of tasks interleave (\<open>manager_step\<close>); the durable nonces of the broker are
  proved for every interleaving of the handlers' atomic parts; overlapping writes of the record file are
  modelled by their two halves.  A handler of \<open>Broker\<close> runs to its end in one function; in
  \<open>BrokerTasks\<close> the same handler stops at each await with what it still has to do
  (\<open>broker_task\<close>), \<open>run_alone\<close> relates the two, and a \<open>broker_world\<close> holds the state, the
  tasks under way and the answers given, with \<open>world_step\<close> its events.  Likewise the
  operations of \<open>PluginMain\<close> run to their end, and in \<open>PluginTasks\<close> the gate, the enrollment, the
  settings changes, the logout and the saves are errands of a \<open>plugin_world\<close>, with every lease
  manager made so far and the queue of writes, and \<open>plugin_step\<close> its steps.  The drawing handlers of
  \<open>BrowserView\<close> and \<open>SettingsTab\<close> run to their end.

  \<^bold>\<open>What the lemmas show.\<close>  Codecs and texts: round trips and exact lengths.  Stores: an invariant kept by
  every operation (the locales above, interpreted on the code's own operations), one-time use of codes,
  states, handles and nonces, finality of revocation, bounds on the maps, survival of a restart,
  refusal of exactly the files whose framing, tag or payload does not verify.  Broker: what it takes to create, authorize, claim and renew, that a lease opens
  on its device only and carries the read-only scope, that an operator's revocation locks the device
  out, and which bodies an error response can have; and, with the handlers interleaved at their awaits,
  that each request is answered once, that only Google's answer to a callback's own exchange authorizes a
  pairing, and that a marked
  revocation locks out every request that arrives after it.  Gateways: a forwarded request is one the broker's own checks accept.
  Plugin: no token without its lease, no enrolled view without one, bounded polling, no request to Drive
  without a valid lease or outside the root, which is the folder Drive named for the configured name, cache paths that never collide, publication of downloads, no
  secret in plugin data and every offence reported by its place, settings that survive a restart, the end of a session, and the rows of the
  view; with its operations interleaved, that a pairing is presented only to the broker that made it, that a
  read is decided by the lease that is current when it resumes, and that the plugin data follow the lease
  manager.  Some theorems state a behaviour the code should not have; each says so in its text (a renewal that
  unpairs the device, a logout undone by a renewal in flight, a lost revocation when writes overlap,
  an enrollment that a failed write leaves in memory only, a refused setting that erases the configured one, a lease
  that was under way and survives the revocation, a late callback that restores the token a revocation
  deleted, a settings change during a logout that stores the removed keys again).

  \<^bold>\<open>Recursion.\<close>  The parser of \<open>JsonText\<close> takes fuel, twice the length of the text plus two, and
  enough fuel is proved to make no difference.  The walk up the parents of a file (\<open>ancestor_walk\<close>) and the
  search for a free temporary name (\<open>unique_temporary\<close>) are loops over data others control: partial
  functions with the value \<open>None\<close> for not returning; the walk is proved to return always.  Eviction
  loops are bounded by the entries of their maps.  The claim loop counts its attempts.

  \<^bold>\<open>Assumptions.\<close>  Characters are code units below 256; where a text of the program has a larger one, it is
  shown as a question mark.  Numbers are exact rationals with infinities and NaN, so the rounding of
  fractions is not modelled, and the text of a fraction is left out.  The cryptographic functions satisfy
  what the theorems name as hypotheses only (the length of a digest, an opening that inverts its sealing,
  signatures verified for their own message); each such theorem has a witness with concrete functions.
  URL parsing, \<^verbatim>\<open>Date.parse\<close> and \<^verbatim>\<open>localeCompare\<close> are the host's and are arguments.

  \<^bold>\<open>Not modelled.\<close>  The socket layer of \<^verbatim>\<open>node:http\<close> below requests, responses and the events of an
  exchange, the registration of views, commands and listeners with Obsidian, and the styling of the
  elements a view draws: they belong to the host, and the code only calls them.  The bundled
  \<^verbatim>\<open>main.js\<close>, which is generated from the sources modelled here.  The deployment scripts, service
  units and build files, which are not code of the program.  The decimal text of a fraction, which no
  number the program prints needs.  Two ways a library call can throw: an X25519 agreement with a public
  key of low order, and a failing existence test of a temporary name.
\<close>

end
